(* ===== verification/Prelude.thy ===== *)
theory Prelude
  imports Main "HOL-Library.Word"
begin

text \<open>
  Shared vocabulary of the development: the Go scalar types the agents compute with
  (\<open>int\<close>/\<open>int64\<close> values as \<open>int\<close> with the wrap-around written out, \<open>time.Time\<close> and
  \<open>time.Duration\<close> in nanoseconds), the collections of simplification rules the component
  theories feed, and the contract of a step function that keeps an invariant, from which
  every component lifts its one-step lemmas to runs.
\<close>

named_theorems go_arith \<open>unfolding rules of the Go arithmetic helpers\<close>
named_theorems step_defs \<open>definitions of the operations a component proof unfolds\<close>
named_theorems inv_defs \<open>definitions of invariants\<close>

section \<open>Go integers\<close>

type_synonym byte = "8 word"
type_synonym bytes = "byte list"
type_synonym uint64 = "64 word"
type_synonym uint16 = "16 word"

definition maxInt64 :: int where
  "maxInt64 = 9223372036854775807"

definition minInt64 :: int where
  "minInt64 = - 9223372036854775808"

definition in_int64 :: "int \<Rightarrow> bool" where
  "in_int64 x \<longleftrightarrow> minInt64 \<le> x \<and> x \<le> maxInt64"

text \<open>Two's complement wrap-around of an exact result to 64 bits.\<close>

definition wrap64 :: "int \<Rightarrow> int" where
  "wrap64 x = (x + 9223372036854775808) mod 18446744073709551616 - 9223372036854775808"

lemmas int64_bounds [go_arith] = maxInt64_def minInt64_def in_int64_def

lemma wrap64_in [simp]: "in_int64 (wrap64 x)"
  by (simp add: wrap64_def in_int64_def minInt64_def maxInt64_def)

lemma wrap64_id: "in_int64 x \<Longrightarrow> wrap64 x = x"
  by (simp add: wrap64_def in_int64_def minInt64_def maxInt64_def)

lemma wrap64_cong: "wrap64 x mod 18446744073709551616 = x mod 18446744073709551616"
  by (simp add: wrap64_def mod_diff_left_eq)

text \<open>Integer division truncates towards zero in Go.\<close>

definition go_div :: "int \<Rightarrow> int \<Rightarrow> int" where
  "go_div a b = sgn a * sgn b * (\<bar>a\<bar> div \<bar>b\<bar>)"

lemma go_div_nonneg: "0 \<le> a \<Longrightarrow> 0 < b \<Longrightarrow> go_div a b = a div b"
  by (cases "a = 0") (simp_all add: go_div_def)

lemma int_div_less_iff:
  assumes "0 < (k::int)"
  shows "a div k < u \<longleftrightarrow> a < u * k"
proof
  assume "a div k < u"
  then have "k * (a div k) \<le> k * (u - 1)" using assms by (intro mult_left_mono) simp_all
  then show "a < u * k"
    using pos_mod_bound [OF assms, of a] mult_div_mod_eq [of k a]
      right_diff_distrib [of k u 1] mult.commute [of u k] by linarith
next
  assume lt: "a < u * k"
  show "a div k < u"
  proof (rule ccontr)
    assume "\<not> a div k < u"
    then have "k * u \<le> k * (a div k)" using assms by (intro mult_left_mono) simp_all
    then show False
      using lt pos_mod_sign [OF assms, of a] mult_div_mod_eq [of k a] mult.commute [of u k] by linarith
  qed
qed

section \<open>Time\<close>

text \<open>
  \<open>time.Time\<close> is the number of nanoseconds since the zero \<open>Time\<close> (January 1 of year 1,
  UTC), so \<open>IsZero\<close> is equality with 0. \<open>time.Duration\<close> is an \<open>int64\<close> of nanoseconds.
\<close>

type_synonym gotime = int
type_synonym duration = int

definition IsZero :: "gotime \<Rightarrow> bool" where
  "IsZero t \<longleftrightarrow> t = 0"

text \<open>\<open>Time.Sub\<close> saturates at the limits of \<open>Duration\<close>.\<close>

definition time_Sub :: "gotime \<Rightarrow> gotime \<Rightarrow> duration" where
  "time_Sub a b = max minInt64 (min maxInt64 (a - b))"

definition time_Add :: "gotime \<Rightarrow> duration \<Rightarrow> gotime" where
  "time_Add t d = t + d"

text \<open>\<open>time.Duration(n) * time.Second\<close> and \<open>* time.Millisecond\<close>, wrapping.\<close>

definition seconds :: "int \<Rightarrow> duration" where
  "seconds n = wrap64 (n * 1000000000)"

definition milliseconds :: "int \<Rightarrow> duration" where
  "milliseconds n = wrap64 (n * 1000000)"

text \<open>
  The Unix epoch on the scale of \<^typ>\<open>gotime\<close>: 62135596800 seconds after the zero
  \<open>Time\<close> (\<open>time.unixToInternal\<close>); \<open>time.Unix(s, 0)\<close> and \<open>Time.Unix()\<close>.
\<close>

definition unix_epoch :: gotime where
  "unix_epoch = 62135596800 * 1000000000"

definition time_Unix :: "int \<Rightarrow> gotime" where
  "time_Unix s = unix_epoch + s * 1000000000"

definition to_unix :: "gotime \<Rightarrow> int" where
  "to_unix t = (t - unix_epoch) div 1000000000"

lemmas time_defs [go_arith] = IsZero_def time_Sub_def time_Add_def

lemma to_unix_time_Unix [simp]: "to_unix (time_Unix s) = s"
  by (simp add: to_unix_def time_Unix_def)

lemma seconds_small: "\<bar>n\<bar> \<le> 9223372036 \<Longrightarrow> seconds n = n * 1000000000"
  by (simp add: seconds_def wrap64_id in_int64_def minInt64_def maxInt64_def abs_le_iff)

lemma milliseconds_small: "\<bar>n\<bar> \<le> 9223372036854 \<Longrightarrow> milliseconds n = n * 1000000"
  by (simp add: milliseconds_def wrap64_id in_int64_def minInt64_def maxInt64_def abs_le_iff)

lemma time_Sub_nonneg: "b \<le> a \<Longrightarrow> 0 \<le> time_Sub a b"
  by (simp add: time_Sub_def minInt64_def maxInt64_def)

lemma time_Sub_ge: "d \<le> time_Sub a b \<Longrightarrow> minInt64 < d \<Longrightarrow> d \<le> a - b"
  by (simp add: time_Sub_def max_def min_def split: if_splits)

lemma time_Sub_exact: "in_int64 (a - b) \<Longrightarrow> time_Sub a b = a - b"
  by (simp add: time_Sub_def in_int64_def)

section \<open>Runs of a step function\<close>

text \<open>
  A component is a state, a step function over its events and an invariant the allowed
  steps keep. What follows for whole runs is proved once here; each component interprets
  the locale on its own step function.
\<close>

locale guarded_run =
  fixes step :: "'s \<Rightarrow> 'e \<Rightarrow> 's"
    and allowed :: "'e \<Rightarrow> bool"
    and inv :: "'s \<Rightarrow> bool"
  assumes guarded_step: "allowed e \<Longrightarrow> inv s \<Longrightarrow> inv (step s e)"
begin

lemma guarded_run_inv: "list_all allowed es \<Longrightarrow> inv s \<Longrightarrow> inv (foldl step s es)"
  by (induction es arbitrary: s) (simp_all add: guarded_step)

lemma guarded_prefix_inv: "list_all allowed es \<Longrightarrow> inv s \<Longrightarrow> inv (foldl step s (take n es))"
  by (rule guarded_run_inv) (auto simp: list_all_iff dest: in_set_takeD)

end

text \<open>Where every event keeps the invariant, no condition on the run is left.\<close>

locale invariant_run =
  fixes step :: "'s \<Rightarrow> 'e \<Rightarrow> 's"
    and inv :: "'s \<Rightarrow> bool"
  assumes step_inv: "inv s \<Longrightarrow> inv (step s e)"

sublocale invariant_run \<subseteq> unguarded: guarded_run step "\<lambda>_. True" inv
  by unfold_locales (rule step_inv)

context invariant_run
begin

lemma run_inv: "inv s \<Longrightarrow> inv (foldl step s es)"
  by (rule unguarded.guarded_run_inv) (simp add: list_all_iff)

lemma prefix_inv: "inv s \<Longrightarrow> inv (foldl step s (take n es))"
  by (rule run_inv)

end

text \<open>Where what is allowed depends on the state it happens in, the run is followed step by step.\<close>

primrec admitted :: "('s \<Rightarrow> 'e \<Rightarrow> 's) \<Rightarrow> ('s \<Rightarrow> 'e \<Rightarrow> bool) \<Rightarrow> 's \<Rightarrow> 'e list \<Rightarrow> bool" where
  "admitted step ok s [] \<longleftrightarrow> True"
| "admitted step ok s (e # es) \<longleftrightarrow> ok s e \<and> admitted step ok (step s e) es"

lemma admitted_append:
  "admitted step ok s (es @ es') \<longleftrightarrow> admitted step ok s es \<and> admitted step ok (foldl step s es) es'"
  by (induction es arbitrary: s) simp_all

locale admitted_run =
  fixes step :: "'s \<Rightarrow> 'e \<Rightarrow> 's"
    and ok :: "'s \<Rightarrow> 'e \<Rightarrow> bool"
    and inv :: "'s \<Rightarrow> bool"
  assumes admitted_step: "ok s e \<Longrightarrow> inv s \<Longrightarrow> inv (step s e)"
begin

lemma admitted_run_inv: "admitted step ok s es \<Longrightarrow> inv s \<Longrightarrow> inv (foldl step s es)"
  by (induction es arbitrary: s) (simp_all add: admitted_step)

end

text \<open>A measure that no step lowers is monotone along every run.\<close>

locale monotone_run =
  fixes step :: "'s \<Rightarrow> 'e \<Rightarrow> 's"
    and meas :: "'s \<Rightarrow> 'm::order"
  assumes step_mono: "meas s \<le> meas (step s e)"
begin

lemma run_mono: "meas s \<le> meas (foldl step s es)"
proof (induction es arbitrary: s)
  case Nil
  then show ?case by simp
next
  case (Cons e es)
  have "meas s \<le> meas (step s e)" by (rule step_mono)
  also have "\<dots> \<le> meas (foldl step (step s e) es)" by (rule Cons.IH)
  finally show ?case by simp
qed

lemma run_mono_split: "meas (foldl step s es) \<le> meas (foldl step s (es @ es'))"
  by (simp add: run_mono)

end

section \<open>Lists\<close>

text \<open>The last \<open>n\<close> elements: \<open>xs[len(xs)-n:]\<close> where \<open>n \<le> len(xs)\<close>.\<close>

definition last_n :: "nat \<Rightarrow> 'a list \<Rightarrow> 'a list" where
  "last_n n xs = drop (length xs - n) xs"

lemma length_last_n [simp]: "length (last_n n xs) = min n (length xs)"
  by (simp add: last_n_def)

lemma int_min_nat: "0 \<le> k \<Longrightarrow> int (min (nat k) n) \<le> k"
  by linarith

lemma last_n_all: "length xs \<le> n \<Longrightarrow> last_n n xs = xs"
  by (simp add: last_n_def)

lemma set_last_n: "set (last_n n xs) \<subseteq> set xs"
  by (simp add: last_n_def set_drop_subset)

lemma last_n_snoc: "last_n n (last_n n xs @ [x]) = last_n n (xs @ [x])"
proof (cases "length xs \<le> n")
  case True
  then show ?thesis by (simp add: last_n_all)
next
  case False
  then have "length xs + 1 - n \<ge> 1" and "length xs - n + 1 = length xs + 1 - n" by simp_all
  with False show ?thesis
    by (cases n) (simp_all add: last_n_def)
qed

lemma find_Some_mem: "find P xs = Some x \<Longrightarrow> x \<in> set xs \<and> P x"
  by (auto simp: find_Some_iff)

end
