(* ===== verification/Go_Float.thy ===== *)
theory Go_Float
  imports Prelude Complex_Main "HOL-Library.Log_Nat"
begin

text \<open>
  IEEE 754 binary64 arithmetic as Go's \<open>float64\<close> performs it: every operation computes
  the exact rational result and rounds it once, to nearest with ties to even, on the grid
  of 53-bit significands with exponents down to \<open>-1074\<close>; results of magnitude
  \<open>2\<^sup>1\<^sup>0\<^sup>2\<^sup>4\<close> or more are infinite. Signed zeros are identified: no operation of
  the program divides by a computed zero or inspects the sign of one.
\<close>

section \<open>Rounding\<close>

definition round_half_even :: "rat \<Rightarrow> int" where
  "round_half_even r =
     (let f = \<lfloor>r\<rfloor>; d = r - of_int f in
      if d < 1 / 2 then f else if 1 / 2 < d then f + 1
      else if even f then f else f + 1)"

text \<open>The exponent of the binade of a positive rational: \<open>2\<^sup>e \<le> x < 2\<^sup>e\<^sup>+\<^sup>1\<close>.\<close>

definition ilog2 :: "rat \<Rightarrow> int" where
  "ilog2 x =
     (let (n, d) = quotient_of x;
          e = int (floorlog 2 (nat n)) - int (floorlog 2 (nat d))
      in if 2 powi e \<le> x then e else e - 1)"

definition ulp_exp :: "rat \<Rightarrow> int" where
  "ulp_exp x = max (ilog2 x - 52) (-1074)"

definition rnd_pos :: "rat \<Rightarrow> rat" where
  "rnd_pos x = of_int (round_half_even (x / 2 powi ulp_exp x)) * 2 powi ulp_exp x"

definition rnd64 :: "rat \<Rightarrow> rat" where
  "rnd64 x = (if x = 0 then 0 else if 0 < x then rnd_pos x else - rnd_pos (- x))"

section \<open>The rounding lemmas\<close>

lemma round_half_even_mono: "r \<le> s \<Longrightarrow> round_half_even r \<le> round_half_even s"
proof -
  assume rs: "r \<le> s"
  then have f: "\<lfloor>r\<rfloor> \<le> \<lfloor>s\<rfloor>" by (rule floor_mono)
  show ?thesis
  proof (cases "\<lfloor>r\<rfloor> = \<lfloor>s\<rfloor>")
    case True
    with rs show ?thesis by (auto simp: round_half_even_def Let_def)
  next
    case False
    with f have "\<lfloor>r\<rfloor> + 1 \<le> \<lfloor>s\<rfloor>" by simp
    then show ?thesis by (auto simp: round_half_even_def Let_def)
  qed
qed

lemma round_half_even_int [simp]: "round_half_even (of_int k) = k"
  by (simp add: round_half_even_def)

lemma round_half_even_ge: "of_int k \<le> r \<Longrightarrow> k \<le> round_half_even r"
  using round_half_even_mono [of "of_int k" r] by simp

lemma round_half_even_le: "r \<le> of_int k \<Longrightarrow> round_half_even r \<le> k"
  using round_half_even_mono [of r "of_int k"] by simp

lemma floorlog_rat:
  assumes "0 < n"
  shows "2 powi (int (floorlog 2 (nat n)) - 1) \<le> (of_int n :: rat)"
    and "(of_int n :: rat) < 2 powi (int (floorlog 2 (nat n)))"
proof -
  let ?k = "floorlog 2 (nat n)"
  have b: "2 ^ (?k - 1) \<le> nat n" "nat n < 2 ^ ?k"
    using floorlog_bounds [of "nat n" 2] assms by auto
  have pos: "0 < ?k" using assms by (simp add: floorlog_def)
  have n: "(of_int n :: rat) = of_nat (nat n)" using assms by simp
  have "(2 ^ (?k - 1) :: rat) = of_nat (2 ^ (?k - 1))" by simp
  also have "\<dots> \<le> of_nat (nat n)" using b(1) by (simp only: of_nat_le_iff)
  finally have 1: "(2 ^ (?k - 1) :: rat) \<le> of_int n" by (simp only: n)
  have "int ?k - 1 = int (?k - 1)" using pos by simp
  then have "(2 :: rat) powi (int ?k - 1) = 2 ^ (?k - 1)" by (simp only: power_int_of_nat)
  with 1 show "2 powi (int ?k - 1) \<le> (of_int n :: rat)" by (simp only:)
  have "of_nat (nat n) < (of_nat (2 ^ ?k) :: rat)" using b(2) by (simp only: of_nat_less_iff)
  then show "(of_int n :: rat) < 2 powi (int ?k)"
    by (simp only: n power_int_of_nat of_nat_power of_nat_numeral)
qed

lemma ilog2_bounds:
  assumes "0 < x"
  shows "2 powi ilog2 x \<le> x" and "x < 2 powi (ilog2 x + 1)"
proof -
  obtain n d where q: "quotient_of x = (n, d)" by fastforce
  then have x: "x = of_int n / of_int d" and d: "0 < d"
    by (auto simp: quotient_of_div quotient_of_denom_pos)
  with assms have n: "0 < n" by (simp add: zero_less_divide_iff)
  let ?a = "int (floorlog 2 (nat n))" and ?b = "int (floorlog 2 (nat d))"
  note fn = floorlog_rat [OF n] and fd = floorlog_rat [OF d]
  have dpos: "(0::rat) < of_int d" using d by simp
  have "(2::rat) powi (?a - ?b - 1) * of_int d \<le> 2 powi (?a - ?b - 1) * 2 powi ?b"
    using fd(2) by (intro mult_left_mono) auto
  also have "\<dots> = 2 powi (?a - ?b - 1 + ?b)" by (rule power_int_add [symmetric]) simp
  also have "(2::rat) powi (?a - ?b - 1 + ?b) = 2 powi (?a - 1)" by simp
  also have "\<dots> \<le> of_int n" by (rule fn(1))
  finally have lo: "2 powi (?a - ?b - 1) \<le> x"
    using x dpos by (simp add: pos_le_divide_eq)
  have "(of_int n :: rat) < 2 powi ?a" by (rule fn(2))
  also have "\<dots> = 2 powi ((?a - ?b + 1) + (?b - 1))" by simp
  also have "\<dots> = 2 powi (?a - ?b + 1) * 2 powi (?b - 1)" by (rule power_int_add) simp
  also have "\<dots> \<le> 2 powi (?a - ?b + 1) * of_int d"
    using fd(1) by (intro mult_left_mono) auto
  finally have hi: "x < 2 powi (?a - ?b + 1)"
    using x dpos by (simp add: pos_divide_less_eq)
  show "2 powi ilog2 x \<le> x" "x < 2 powi (ilog2 x + 1)"
    using lo hi by (auto simp: ilog2_def q Let_def)
qed

lemma powi2_less_iff [simp]: "((2::rat) powi a < 2 powi b) = (a < b)"
proof
  assume "(2::rat) powi a < 2 powi b"
  then show "a < b"
    using power_int_increasing [of b a "2::rat"] by fastforce
next
  assume "a < b"
  then show "(2::rat) powi a < 2 powi b" by (rule power_int_strict_increasing) simp
qed

lemma powi2_le_iff [simp]: "((2::rat) powi a \<le> 2 powi b) = (a \<le> b)"
  by (simp flip: not_less)

lemma ilog2_mono: "0 < x \<Longrightarrow> x \<le> y \<Longrightarrow> ilog2 x \<le> ilog2 y"
proof -
  assume "0 < x" "x \<le> y"
  then have "2 powi ilog2 x < (2::rat) powi (ilog2 y + 1)"
    using ilog2_bounds(1) [of x] ilog2_bounds(2) [of y] by linarith
  then show ?thesis by simp
qed

lemma ilog2_unique: "2 powi e \<le> x \<Longrightarrow> x < 2 powi (e + 1) \<Longrightarrow> ilog2 x = e"
proof -
  assume a: "2 powi e \<le> x" "x < 2 powi (e + 1)"
  then have "0 < x" by (meson less_le_trans zero_less_power_int zero_less_numeral)
  note b = ilog2_bounds [OF this]
  from a(1) b(2) have "2 powi e < (2::rat) powi (ilog2 x + 1)" by (rule le_less_trans)
  moreover from b(1) a(2) have "2 powi ilog2 x < (2::rat) powi (e + 1)" by (rule le_less_trans)
  ultimately show ?thesis by simp
qed

lemma ulp_exp_mono: "0 < x \<Longrightarrow> x \<le> y \<Longrightarrow> ulp_exp x \<le> ulp_exp y"
  using ilog2_mono [of x y] by (simp add: ulp_exp_def)

text \<open>
  A grid point is a multiple of \<open>2\<^sup>q\<close> for an exponent \<open>q\<close> not below the unit in the last
  place; rounding never crosses one.
\<close>

lemma grid_mult:
  assumes "e \<le> q"
  shows "of_int (m * 2 ^ nat (q - e)) * 2 powi e = (of_int m * 2 powi q :: rat)"
proof -
  have "(2::rat) powi q = 2 powi (q - e) * 2 powi e"
    by (simp flip: power_int_add)
  moreover have "(2::rat) powi (q - e) = 2 ^ nat (q - e)"
    using assms by (simp add: power_int_def)
  ultimately show ?thesis by simp
qed

lemma grid_int:
  "e \<le> q \<Longrightarrow> of_int m * 2 powi q / (2 powi e :: rat) = of_int (m * 2 ^ nat (q - e))"
  by (simp flip: grid_mult [of e q m])

lemma rnd_pos_le_grid:
  assumes "x \<le> of_int m * 2 powi q" and "ulp_exp x \<le> q"
  shows "rnd_pos x \<le> of_int m * 2 powi q"
proof -
  let ?u = "2 powi ulp_exp x :: rat" and ?k = "m * 2 ^ nat (q - ulp_exp x)"
  have g: "of_int m * 2 powi q / ?u = of_int ?k" by (rule grid_int) (rule assms(2))
  have "x / ?u \<le> of_int m * 2 powi q / ?u"
    by (rule divide_right_mono) (use assms(1) in simp_all)
  then have "round_half_even (x / ?u) \<le> ?k" using g by (simp only: round_half_even_le)
  then have "(of_int (round_half_even (x / ?u)) :: rat) \<le> of_int ?k" by (simp only: of_int_le_iff)
  then have "rnd_pos x \<le> of_int ?k * ?u"
    unfolding rnd_pos_def by (rule mult_right_mono) simp
  also have "\<dots> = of_int m * 2 powi q" by (rule grid_mult) (rule assms(2))
  finally show ?thesis .
qed

lemma rnd_pos_ge_grid:
  assumes "of_int m * 2 powi q \<le> x" and "ulp_exp x \<le> q"
  shows "of_int m * 2 powi q \<le> rnd_pos x"
proof -
  let ?u = "2 powi ulp_exp x :: rat" and ?k = "m * 2 ^ nat (q - ulp_exp x)"
  have g: "of_int m * 2 powi q / ?u = of_int ?k" by (rule grid_int) (rule assms(2))
  have "of_int m * 2 powi q / ?u \<le> x / ?u"
    by (rule divide_right_mono) (use assms(1) in simp_all)
  then have "?k \<le> round_half_even (x / ?u)" using g by (simp only: round_half_even_ge)
  then have "(of_int ?k :: rat) \<le> of_int (round_half_even (x / ?u))" by (simp only: of_int_le_iff)
  then have "of_int ?k * ?u \<le> rnd_pos x"
    unfolding rnd_pos_def by (rule mult_right_mono) simp
  moreover have "of_int ?k * ?u = of_int m * 2 powi q" by (rule grid_mult) (rule assms(2))
  ultimately show ?thesis by (simp only:)
qed

lemma rnd_pos_exact:
  "ulp_exp (of_int m * 2 powi q) \<le> q \<Longrightarrow> rnd_pos (of_int m * 2 powi q) = of_int m * 2 powi q"
  by (rule antisym) (rule rnd_pos_le_grid rnd_pos_ge_grid; simp)+

lemma rnd_pos_nonneg: "0 < x \<Longrightarrow> 0 \<le> rnd_pos x"
  using rnd_pos_ge_grid [of 0 "ulp_exp x" x] by simp

lemma rnd_pos_mono:
  assumes "0 < x" and "x \<le> y"
  shows "rnd_pos x \<le> rnd_pos y"
proof (cases "ulp_exp x = ulp_exp y")
  case True
  have "x / 2 powi ulp_exp y \<le> y / 2 powi ulp_exp y"
    using assms(2) by (rule divide_right_mono) simp
  then have "round_half_even (x / 2 powi ulp_exp y) \<le> round_half_even (y / 2 powi ulp_exp y)"
    by (rule round_half_even_mono)
  then have "(of_int (round_half_even (x / 2 powi ulp_exp y)) :: rat) * 2 powi ulp_exp y
      \<le> of_int (round_half_even (y / 2 powi ulp_exp y)) * 2 powi ulp_exp y"
    by (intro mult_right_mono) (simp_all only: of_int_le_iff, simp)
  with True show ?thesis by (simp only: rnd_pos_def)
next
  case False
  then have lt: "ulp_exp x < ulp_exp y" using ulp_exp_mono [OF assms] by simp
  then have uy: "ulp_exp y = ilog2 y - 52" and xy: "ilog2 x + 1 \<le> ilog2 y"
    by (auto simp: ulp_exp_def max_def split: if_splits)
  have "x \<le> 2 powi (ilog2 x + 1)" using ilog2_bounds(2) [OF assms(1)] by simp
  also have "(2::rat) powi (ilog2 x + 1) \<le> 2 powi ilog2 y" using xy by simp
  finally have "rnd_pos x \<le> of_int 1 * 2 powi ilog2 y"
    using lt uy by (intro rnd_pos_le_grid) simp_all
  also have "\<dots> \<le> rnd_pos y"
    using assms uy ilog2_bounds(1) [of y] by (intro rnd_pos_ge_grid) simp_all
  finally show ?thesis .
qed

lemma rnd_pos_idem:
  assumes "0 < x" and "0 < rnd_pos x"
  shows "rnd_pos (rnd_pos x) = rnd_pos x"
proof -
  define m where "m = round_half_even (x / 2 powi ulp_exp x)"
  define y where "y = rnd_pos x"
  have y: "y = of_int m * 2 powi ulp_exp x" by (simp add: y_def rnd_pos_def m_def)
  have top: "y \<le> of_int 1 * 2 powi max (ilog2 x + 1) (-1074)"
    unfolding y_def
  proof (rule rnd_pos_le_grid)
    have "x \<le> 2 powi (ilog2 x + 1)" using ilog2_bounds(2) [OF assms(1)] by simp
    also have "(2::rat) powi (ilog2 x + 1) \<le> 2 powi max (ilog2 x + 1) (-1074)" by simp
    finally show "x \<le> of_int 1 * 2 powi max (ilog2 x + 1) (-1074)" by simp
  qed (simp add: ulp_exp_def)
  show ?thesis
  proof (cases "ilog2 y \<le> ilog2 x \<or> ilog2 y < -1022")
    case True
    then have "ulp_exp y \<le> ulp_exp x" by (auto simp: ulp_exp_def)
    then show ?thesis using y rnd_pos_exact y_def by metis
  next
    case False
    let ?e = "max (ilog2 x + 1) (-1074)"
    have "2 powi ilog2 y \<le> y" using ilog2_bounds(1) assms(2) by (simp add: y_def)
    with top have "2 powi ilog2 y \<le> (2::rat) powi ?e" by (simp only: of_int_1 mult_1 order_trans)
    then have "ilog2 y \<le> ?e" by (simp only: powi2_le_iff)
    with False have e: "?e = ilog2 y" by auto
    then have "y = of_int 1 * 2 powi ?e"
      using top \<open>2 powi ilog2 y \<le> y\<close> by simp
    moreover have "ulp_exp y \<le> ?e" using e False by (simp add: ulp_exp_def)
    ultimately show ?thesis using rnd_pos_exact y_def by metis
  qed
qed

lemma rnd64_0 [simp]: "rnd64 0 = 0"
  by (simp add: rnd64_def)

lemma rnd64_nonneg: "0 \<le> x \<Longrightarrow> 0 \<le> rnd64 x"
  by (simp add: rnd64_def rnd_pos_nonneg)

lemma rnd64_neg: "rnd64 (- x) = - rnd64 x"
  by (simp add: rnd64_def)

lemma rnd64_mono: "x \<le> y \<Longrightarrow> rnd64 x \<le> rnd64 y"
proof -
  assume xy: "x \<le> y"
  consider "0 \<le> x" | "x < 0" "0 \<le> y" | "x < 0" "y < 0" by linarith
  then show ?thesis
  proof cases
    case 1
    with xy show ?thesis by (auto simp: rnd64_def rnd_pos_nonneg rnd_pos_mono)
  next
    case 2
    then have "rnd64 x \<le> 0" using rnd64_nonneg [of "- x"] by (simp add: rnd64_neg)
    also have "0 \<le> rnd64 y" using 2 by (simp add: rnd64_nonneg)
    finally show ?thesis .
  next
    case 3
    with xy show ?thesis by (simp add: rnd64_def rnd_pos_mono)
  qed
qed

lemma rnd64_idem [simp]: "rnd64 (rnd64 x) = rnd64 x"
proof -
  have pos: "rnd64 (rnd64 z) = rnd64 z" if z: "0 < z" for z
    using rnd_pos_idem [OF z] rnd_pos_nonneg [OF z] z
    by (cases "rnd_pos z = 0") (simp_all add: rnd64_def)
  consider "x = 0" | "0 < x" | "0 < - x" by linarith
  then show ?thesis
  proof cases
    case 3
    then show ?thesis using pos [of "- x"] by (simp add: rnd64_neg)
  qed (simp_all add: pos)
qed

text \<open>Integers below \<open>2\<^sup>5\<^sup>3\<close> are represented exactly.\<close>

lemma rnd64_int:
  assumes "\<bar>n\<bar> < 2 ^ 53"
  shows "rnd64 (of_int n) = of_int n"
proof -
  have pos: "rnd64 (of_int k) = of_int k" if k: "0 < k" "k < 2 ^ 53" for k :: int
  proof -
    have "(of_int k :: rat) < of_int (2 ^ 53)" using k(2) by (simp only: of_int_less_iff)
    then have "of_int k < (2::rat) powi 53" by simp
    moreover have "2 powi ilog2 (of_int k) \<le> (of_int k :: rat)"
      using ilog2_bounds(1) [of "of_int k"] k by simp
    ultimately have "2 powi ilog2 (of_int k) < (2::rat) powi 53" by linarith
    then have "ilog2 (of_int k) < 53" by (simp only: powi2_less_iff)
    then have "ulp_exp (of_int k) \<le> 0" by (simp add: ulp_exp_def)
    then show ?thesis using rnd_pos_exact [of k 0] k by (simp add: rnd64_def)
  qed
  consider "n = 0" | "0 < n" | "0 < - n" by linarith
  then show ?thesis
  proof cases
    case 2
    with assms pos show ?thesis by simp
  next
    case 3
    with assms have "rnd64 (of_int (- n)) = of_int (- n)" by (intro pos) simp_all
    then show ?thesis by (simp add: rnd64_neg)
  qed simp
qed

text \<open>A power of two in range is a bound rounding keeps.\<close>

lemma rnd64_le_pow2:
  assumes "x \<le> 2 ^ k"
  shows "rnd64 x \<le> 2 ^ k"
proof (cases "0 < x")
  case True
  have "2 powi ilog2 x \<le> (2::rat) ^ k" using ilog2_bounds(1) [OF True] assms by linarith
  then have "2 powi ilog2 x \<le> (2::rat) powi int k" by simp
  then have "ilog2 x \<le> int k" by (simp only: powi2_le_iff)
  then have "ulp_exp x \<le> int k" by (simp add: ulp_exp_def)
  then have "rnd_pos x \<le> of_int 1 * 2 powi int k"
    using assms by (intro rnd_pos_le_grid) simp_all
  with True show ?thesis by (simp add: rnd64_def)
next
  case False
  then have "rnd64 x \<le> 0" using rnd64_mono [of x 0] by simp
  also have "(0::rat) \<le> 2 ^ k" by simp
  finally show ?thesis .
qed

section \<open>The type \<open>float64\<close>\<close>

datatype float64 = Fin rat | PInf | NInf | NaN

text \<open>Rounding an exact result, with overflow to an infinity.\<close>

definition f64_bound :: rat where
  "f64_bound = 2 ^ 1024"

definition f64 :: "rat \<Rightarrow> float64" where
  "f64 x = (let r = rnd64 x in
     if f64_bound \<le> r then PInf else if r \<le> - f64_bound then NInf else Fin r)"

fun fneg :: "float64 \<Rightarrow> float64" where
  "fneg (Fin a) = Fin (- a)"
| "fneg PInf = NInf"
| "fneg NInf = PInf"
| "fneg NaN = NaN"

fun fadd :: "float64 \<Rightarrow> float64 \<Rightarrow> float64" where
  "fadd (Fin a) (Fin b) = f64 (a + b)"
| "fadd NaN _ = NaN"
| "fadd _ NaN = NaN"
| "fadd PInf NInf = NaN"
| "fadd NInf PInf = NaN"
| "fadd PInf _ = PInf"
| "fadd _ PInf = PInf"
| "fadd NInf _ = NInf"
| "fadd _ NInf = NInf"

definition fsub :: "float64 \<Rightarrow> float64 \<Rightarrow> float64" where
  "fsub a b = fadd a (fneg b)"

text \<open>The infinity of a product or quotient with the sign of \<open>s\<close>; \<open>0 \<cdot> \<infinity>\<close> is not a number.\<close>

definition finf :: "rat \<Rightarrow> float64" where
  "finf s = (if 0 < s then PInf else if s < 0 then NInf else NaN)"

fun fmul :: "float64 \<Rightarrow> float64 \<Rightarrow> float64" where
  "fmul (Fin a) (Fin b) = f64 (a * b)"
| "fmul NaN _ = NaN"
| "fmul _ NaN = NaN"
| "fmul PInf (Fin b) = finf b"
| "fmul (Fin a) PInf = finf a"
| "fmul NInf (Fin b) = finf (- b)"
| "fmul (Fin a) NInf = finf (- a)"
| "fmul PInf PInf = PInf"
| "fmul NInf NInf = PInf"
| "fmul PInf NInf = NInf"
| "fmul NInf PInf = NInf"

fun fdiv :: "float64 \<Rightarrow> float64 \<Rightarrow> float64" where
  "fdiv (Fin a) (Fin b) = (if b = 0 then finf a else f64 (a / b))"
| "fdiv NaN _ = NaN"
| "fdiv _ NaN = NaN"
| "fdiv (Fin a) _ = Fin 0"
| "fdiv PInf (Fin b) = (if b < 0 then NInf else PInf)"
| "fdiv NInf (Fin b) = (if b < 0 then PInf else NInf)"
| "fdiv _ _ = NaN"

text \<open>Ordered comparisons: every one of them is false when an operand is \<open>NaN\<close>.\<close>

fun flt :: "float64 \<Rightarrow> float64 \<Rightarrow> bool" where
  "flt (Fin a) (Fin b) = (a < b)"
| "flt (Fin a) PInf = True"
| "flt NInf (Fin b) = True"
| "flt NInf PInf = True"
| "flt _ _ = False"

definition fgt :: "float64 \<Rightarrow> float64 \<Rightarrow> bool" where
  "fgt a b = flt b a"

fun fle :: "float64 \<Rightarrow> float64 \<Rightarrow> bool" where
  "fle NaN _ = False"
| "fle _ NaN = False"
| "fle a b = (flt a b \<or> a = b)"

definition fge :: "float64 \<Rightarrow> float64 \<Rightarrow> bool" where
  "fge a b = fle b a"

definition f_of_int :: "int \<Rightarrow> float64" where
  "f_of_int n = f64 (of_int n)"

text \<open>
  \<open>int64(x)\<close> truncates towards zero; out of range, and for \<open>NaN\<close>, the amd64 conversion
  yields the smallest \<open>int64\<close>.
\<close>

definition rat_trunc :: "rat \<Rightarrow> int" where
  "rat_trunc x = (if 0 \<le> x then \<lfloor>x\<rfloor> else \<lceil>x\<rceil>)"

definition int64_of :: "float64 \<Rightarrow> int" where
  "int64_of x = (case x of
      Fin r \<Rightarrow> (if in_int64 (rat_trunc r) then rat_trunc r else minInt64)
    | _ \<Rightarrow> minInt64)"

text \<open>\<open>sort.Float64s\<close>: increasing, \<open>NaN\<close> first.\<close>

definition fsort_less :: "float64 \<Rightarrow> float64 \<Rightarrow> bool" where
  "fsort_less a b \<longleftrightarrow> flt a b \<or> (a = NaN \<and> b \<noteq> NaN)"

fun fins :: "float64 \<Rightarrow> float64 list \<Rightarrow> float64 list" where
  "fins x [] = [x]"
| "fins x (y # ys) = (if fsort_less y x then y # fins x ys else x # y # ys)"

fun Float64s :: "float64 list \<Rightarrow> float64 list" where
  "Float64s [] = []"
| "Float64s (x # xs) = fins x (Float64s xs)"

section \<open>Values the program can hold\<close>

text \<open>
  A value is representable when rounding leaves it alone; every operation returns such a
  value, and the comparisons below are about them.
\<close>

fun representable :: "float64 \<Rightarrow> bool" where
  "representable (Fin a) = (rnd64 a = a \<and> - f64_bound < a \<and> a < f64_bound)"
| "representable _ = True"

lemma f64_representable [simp]: "representable (f64 x)"
  by (auto simp: f64_def Let_def)

lemma f_of_int_representable [simp]: "representable (f_of_int n)"
  by (simp add: f_of_int_def)

lemma finf_representable [simp]: "representable (finf s)"
  by (simp add: finf_def)

lemma fneg_representable: "representable a \<Longrightarrow> representable (fneg a)"
  by (cases a) (auto simp: rnd64_neg)

lemma fadd_representable [simp]: "representable (fadd a b)"
  by (cases a; cases b) simp_all

lemma fmul_representable [simp]: "representable (fmul a b)"
  by (cases a; cases b) simp_all

lemma fdiv_representable [simp]: "representable (fdiv a b)"
  by (cases a; cases b) (simp_all add: f64_bound_def)

text \<open>Non-negative, not \<open>NaN\<close>: the range of every measurement and score.\<close>

fun fnonneg :: "float64 \<Rightarrow> bool" where
  "fnonneg (Fin a) = (0 \<le> a)"
| "fnonneg PInf = True"
| "fnonneg _ = False"

lemma f64_nonneg: "0 \<le> x \<Longrightarrow> fnonneg (f64 x)"
  using rnd64_nonneg [of x] by (auto simp: f64_def Let_def f64_bound_def)

lemma fadd_nonneg: "fnonneg a \<Longrightarrow> fnonneg b \<Longrightarrow> fnonneg (fadd a b)"
  by (cases a; cases b) (simp_all add: f64_nonneg)

lemma fmul_nonneg_fin: "fnonneg (Fin a) \<Longrightarrow> fnonneg (Fin b) \<Longrightarrow> fnonneg (fmul (Fin a) (Fin b))"
  by (simp add: f64_nonneg)

lemma fle_refl_nonneg: "fnonneg a \<Longrightarrow> fle a a"
  by (cases a) simp_all

lemma f64_mono: "x \<le> y \<Longrightarrow> fle (f64 x) (f64 y)"
  using rnd64_mono [of x y] by (auto simp: f64_def Let_def f64_bound_def)

lemma f64_id: "representable (Fin a) \<Longrightarrow> f64 a = Fin a"
  by (auto simp: f64_def Let_def)

lemma f64_fin:
  assumes "0 \<le> x" and "x \<le> 2 ^ k" and "k < 1024"
  shows "f64 x = Fin (rnd64 x)"
proof -
  have "rnd64 x \<le> 2 ^ k" by (rule rnd64_le_pow2) (rule assms(2))
  also have "(2::rat) ^ k < 2 ^ 1024" using assms(3) by (intro power_strict_increasing) simp_all
  finally have "rnd64 x < f64_bound" by (simp add: f64_bound_def)
  moreover have "- f64_bound < rnd64 x"
    using rnd64_nonneg [OF assms(1)] by (simp add: f64_bound_def)
  ultimately show ?thesis by (simp add: f64_def)
qed

lemma f64_small: "\<bar>n\<bar> < 2 ^ 53 \<Longrightarrow> f64 (of_int n) = Fin (of_int n)"
proof -
  assume n: "\<bar>n\<bar> < 2 ^ 53"
  have "\<bar>of_int n :: rat\<bar> = of_int \<bar>n\<bar>" by simp
  also have "\<dots> < of_int (2 ^ 53)" using n by (simp only: of_int_less_iff)
  also have "\<dots> \<le> f64_bound" by (simp add: f64_bound_def)
  finally have "\<bar>of_int n :: rat\<bar> < f64_bound" .
  then show ?thesis using rnd64_int [OF n] by (auto simp: f64_def Let_def)
qed

lemma fle_trans: "fle a b \<Longrightarrow> fle b c \<Longrightarrow> fle a c"
  by (cases a; cases b; cases c) auto

lemma flt_fle_trans: "flt a b \<Longrightarrow> fle b c \<Longrightarrow> flt a c"
  by (cases a; cases b; cases c) auto

lemma flt_irrefl [simp]: "\<not> flt a a"
  by (cases a) simp_all

lemma flt_asym: "flt a b \<Longrightarrow> \<not> flt b a"
  by (cases a; cases b) auto

lemma flt_trans: "flt a b \<Longrightarrow> flt b c \<Longrightarrow> flt a c"
  by (cases a; cases b; cases c) auto

lemma not_flt_fle: "a \<noteq> NaN \<Longrightarrow> b \<noteq> NaN \<Longrightarrow> \<not> flt a b \<longleftrightarrow> fle b a"
  by (cases a; cases b) auto

lemma set_fins [simp]: "set (fins x xs) = insert x (set xs)"
  by (induction xs) auto

lemma set_Float64s [simp]: "set (Float64s xs) = set xs"
  by (induction xs) auto

lemma length_fins [simp]: "length (fins x xs) = Suc (length xs)"
  by (induction xs) auto

lemma length_Float64s [simp]: "length (Float64s xs) = length xs"
  by (induction xs) auto

end
