(* ===== verification/Config.thy ===== *)
theory Config
  imports Go_Float
begin

text \<open>
  The configuration data of \<open>src/internal/model/model.go\<close>: the records the frontend stores
  and every component reads, with the small methods on them (\<open>PathByID\<close>, \<open>DetectMs\<close>, the
  detection presets, \<open>Normalise\<close>, the overlay prefixes, \<open>QueryCachePorts\<close>). Field names carry
  a two-letter prefix of their struct. The portal-only labels and notes of the presets are
  left out; the settings of the notifier, the edge filter and the blocklist have their records
  in \<open>Protect\<close> and \<open>Validate\<close>, beside the operations that read them.
\<close>

section \<open>Health and policy blocks\<close>

datatype Health = HealthUnknown | HealthUp | HealthSuspect | HealthDown

datatype Block = BlockNone | BlockQuota | BlockQuarantine | BlockDisabled | BlockDegraded

fun block_string :: "Block \<Rightarrow> string" where
  "block_string BlockNone = ''''"
| "block_string BlockQuota = ''quota''"
| "block_string BlockQuarantine = ''quarantine''"
| "block_string BlockDisabled = ''disabled''"
| "block_string BlockDegraded = ''degraded''"

section \<open>Paths, probing and failover\<close>

record Quota =
  q_LimitBytes :: int
  q_CeilingBytes :: int
  q_ResetDay :: int
  q_Timezone :: string
  q_Calibration :: float64
  q_OverheadPerPacket :: int

record ShapeConfig =
  sh_ToBackendMbit :: float64
  sh_ToFrontendMbit :: float64

record PathConfig =
  p_ID :: int
  p_Name :: string
  p_Iface :: string
  p_Priority :: int
  p_Table :: int
  p_Mark :: int
  p_Enabled :: bool
  p_Metered :: bool
  p_Quota :: Quota
  p_Shape :: ShapeConfig

record ProbeConfig =
  pb_ActiveIntervalMs :: int
  pb_StandbyIntervalMs :: int
  pb_TimeoutMs :: int
  pb_FailThreshold :: int
  pb_RecoverThreshold :: int
  pb_WindowSize :: int
  pb_MaxLossPct :: float64
  pb_MaxRTTMs :: int

record QualityConfig =
  ql_LossWeight :: float64
  ql_RTTWeight :: float64
  ql_JitterWeight :: float64
  ql_MarginPct :: float64
  ql_MinDwellSec :: int

record FailoverConfig =
  fo_HoldDownSec :: int
  fo_FlapWindowSec :: int
  fo_FlapThreshold :: int
  fo_QuarantineSec :: int
  fo_QuarantineMaxSec :: int
  fo_Selection :: string
  fo_Quality :: QualityConfig

definition SelectionPriority :: string where "SelectionPriority = ''priority''"
definition SelectionQuality :: string where "SelectionQuality = ''quality''"

text \<open>How long a dead active path takes to be condemned.\<close>

definition DetectMs :: "ProbeConfig \<Rightarrow> int" where
  "DetectMs p = (let n = pb_FailThreshold p; n = (if n < 1 then 1 else n)
                 in (n - 1) * pb_ActiveIntervalMs p + pb_TimeoutMs p)"

record DetectionPreset =
  dp_Name :: string
  dp_ActiveIntervalMs :: int
  dp_TimeoutMs :: int
  dp_FailThreshold :: int
  dp_WindowSize :: int

definition DetectionPreset_Apply :: "DetectionPreset \<Rightarrow> ProbeConfig \<Rightarrow> ProbeConfig" where
  "DetectionPreset_Apply d p =
     (let p = p\<lparr>pb_ActiveIntervalMs := dp_ActiveIntervalMs d,
               pb_TimeoutMs := dp_TimeoutMs d,
               pb_FailThreshold := dp_FailThreshold d,
               pb_WindowSize := dp_WindowSize d\<rparr>
      in if pb_StandbyIntervalMs p < dp_ActiveIntervalMs d
         then p\<lparr>pb_StandbyIntervalMs := dp_ActiveIntervalMs d\<rparr> else p)"

definition DetectionPresets :: "DetectionPreset list" where
  "DetectionPresets =
     [\<lparr>dp_Name = ''fast'', dp_ActiveIntervalMs = 100, dp_TimeoutMs = 300,
       dp_FailThreshold = 4, dp_WindowSize = 150\<rparr>,
      \<lparr>dp_Name = ''standard'', dp_ActiveIntervalMs = 250, dp_TimeoutMs = 800,
       dp_FailThreshold = 8, dp_WindowSize = 60\<rparr>,
      \<lparr>dp_Name = ''relaxed'', dp_ActiveIntervalMs = 500, dp_TimeoutMs = 1500,
       dp_FailThreshold = 12, dp_WindowSize = 60\<rparr>]"

section \<open>Overlay, services and the whole configuration\<close>

record FrontendConfig =
  fe_PublicIface :: string
  fe_PublicIP :: string
  fe_BackendEgress :: bool

record OverlayConfig =
  ov_FrontendIP :: string
  ov_BackendIP :: string
  ov_Device :: string
  ov_Subnet :: string
  ov_ProbePort :: int
  ov_ControlPort :: int

definition MatchPrefix :: "OverlayConfig \<Rightarrow> string" where
  "MatchPrefix ov = (if ov_Subnet ov \<noteq> '''' then ov_Subnet ov else ov_BackendIP ov)"

definition RoutePrefix :: "OverlayConfig \<Rightarrow> string" where
  "RoutePrefix ov = (if ov_Subnet ov \<noteq> '''' then ov_Subnet ov else ov_BackendIP ov @ ''/32'')"

record Linker =
  lk_Name :: string
  lk_OverlayIP :: string
  lk_LanIP :: string
  lk_Table :: int
  lk_Enabled :: bool

definition TableOr :: "Linker \<Rightarrow> int \<Rightarrow> int" where
  "TableOr l d = (if lk_Table l \<noteq> 0 then lk_Table l else d)"

record EgressSource =
  es_Name :: string
  es_Host :: string
  es_CIDR :: string
  es_Enabled :: bool

definition HostOr :: "EgressSource \<Rightarrow> string \<Rightarrow> string" where
  "HostOr s backendIP = (if es_Host s \<noteq> '''' then es_Host s else backendIP)"

record Service =
  sv_Name :: string
  sv_Proto :: string
  sv_Port :: int
  sv_PortEnd :: int
  sv_Enabled :: bool
  sv_Target :: string
  sv_SourceEngine :: bool
  sv_CeilingPPS :: int
  sv_NewConnsPerSec :: int
  sv_MaxConnsPerSource :: int
  sv_GeoRegions :: "string list"
  sv_GeoBlock :: bool
  sv_GeoAutoPPS :: int

definition TargetOr :: "Service \<Rightarrow> string \<Rightarrow> string" where
  "TargetOr s backendIP = (if sv_Target s \<noteq> '''' then sv_Target s else backendIP)"

record QueryCacheConfig =
  qc_Enabled :: bool
  qc_RefreshMs :: int
  qc_StaleMs :: int

record Config =
  c_Mode :: string
  c_Frontend :: FrontendConfig
  c_Overlay :: OverlayConfig
  c_Paths :: "PathConfig list"
  c_Probe :: ProbeConfig
  c_Failover :: FailoverConfig
  c_Services :: "Service list"
  c_Linkers :: "Linker list"
  c_BackendLAN :: string
  c_Egress :: "EgressSource list"
  c_QueryCache :: QueryCacheConfig

definition ModeObserve :: string where "ModeObserve = ''observe''"
definition ModeArmed :: string where "ModeArmed = ''armed''"

text \<open>The second result of the Go method is whether the path exists.\<close>

definition PathByID :: "Config \<Rightarrow> int \<Rightarrow> PathConfig option" where
  "PathByID c i = find (\<lambda>p. p_ID p = i) (c_Paths c)"

lemma PathByID_Some: "PathByID c i = Some p \<Longrightarrow> p \<in> set (c_Paths c) \<and> p_ID p = i"
  unfolding PathByID_def by (drule find_Some_mem) simp

lemma PathByID_None: "PathByID c i = None \<longleftrightarrow> i \<notin> p_ID ` set (c_Paths c)"
  by (auto simp: PathByID_def find_None_iff)

section \<open>Shipped defaults\<close>

definition default_quota :: "int \<Rightarrow> Quota" where
  "default_quota limit = \<lparr>q_LimitBytes = limit, q_CeilingBytes = 0, q_ResetDay = 1,
     q_Timezone = ''Australia/Melbourne'', q_Calibration = Fin 100, q_OverheadPerPacket = 60\<rparr>"

definition zero_quota :: Quota where
  "zero_quota = \<lparr>q_LimitBytes = 0, q_CeilingBytes = 0, q_ResetDay = 0,
     q_Timezone = '''', q_Calibration = Fin 0, q_OverheadPerPacket = 0\<rparr>"

definition no_shape :: ShapeConfig where
  "no_shape = \<lparr>sh_ToBackendMbit = Fin 0, sh_ToFrontendMbit = Fin 0\<rparr>"

definition default_probe :: ProbeConfig where
  "default_probe = \<lparr>pb_ActiveIntervalMs = 250, pb_StandbyIntervalMs = 5000, pb_TimeoutMs = 800,
     pb_FailThreshold = 8, pb_RecoverThreshold = 10, pb_WindowSize = 60,
     pb_MaxLossPct = Fin 15, pb_MaxRTTMs = 400\<rparr>"

definition default_quality :: QualityConfig where
  "default_quality = \<lparr>ql_LossWeight = Fin 25, ql_RTTWeight = Fin 1, ql_JitterWeight = Fin 3,
     ql_MarginPct = Fin 25, ql_MinDwellSec = 300\<rparr>"

definition default_failover :: FailoverConfig where
  "default_failover = \<lparr>fo_HoldDownSec = 90, fo_FlapWindowSec = 600, fo_FlapThreshold = 4,
     fo_QuarantineSec = 300, fo_QuarantineMaxSec = 3600, fo_Selection = SelectionPriority,
     fo_Quality = default_quality\<rparr>"

definition default_paths :: "PathConfig list" where
  "default_paths =
     [\<lparr>p_ID = 1, p_Name = ''main'', p_Iface = ''wg-main'', p_Priority = 1, p_Table = 101,
       p_Mark = 257, p_Enabled = True, p_Metered = False, p_Quota = zero_quota, p_Shape = no_shape\<rparr>,
      \<lparr>p_ID = 2, p_Name = ''lte1'', p_Iface = ''wg-lte1'', p_Priority = 2, p_Table = 102,
       p_Mark = 258, p_Enabled = True, p_Metered = True, p_Quota = default_quota 64424509440,
       p_Shape = no_shape\<rparr>,
      \<lparr>p_ID = 3, p_Name = ''lte2'', p_Iface = ''wg-lte2'', p_Priority = 3, p_Table = 103,
       p_Mark = 259, p_Enabled = True, p_Metered = True, p_Quota = default_quota 21474836480,
       p_Shape = no_shape\<rparr>]"

definition plain_service :: "string \<Rightarrow> string \<Rightarrow> int \<Rightarrow> int \<Rightarrow> Service" where
  "plain_service n pr port pend = \<lparr>sv_Name = n, sv_Proto = pr, sv_Port = port, sv_PortEnd = pend,
     sv_Enabled = False, sv_Target = '''', sv_SourceEngine = False, sv_CeilingPPS = 0,
     sv_NewConnsPerSec = 0, sv_MaxConnsPerSource = 0, sv_GeoRegions = [], sv_GeoBlock = False,
     sv_GeoAutoPPS = 0\<rparr>"

definition Defaults :: Config where
  "Defaults = \<lparr>c_Mode = ModeObserve,
     c_Frontend = \<lparr>fe_PublicIface = ''eth0'', fe_PublicIP = '''', fe_BackendEgress = False\<rparr>,
     c_Overlay = \<lparr>ov_FrontendIP = ''10.99.0.1'', ov_BackendIP = ''10.99.0.2'',
       ov_Device = ''dummy0'', ov_Subnet = '''', ov_ProbePort = 51999, ov_ControlPort = 51998\<rparr>,
     c_Paths = default_paths, c_Probe = default_probe, c_Failover = default_failover,
     c_Services = [plain_service ''http'' ''tcp'' 80 0, plain_service ''https'' ''tcp'' 443 0,
       plain_service ''pterodactyl-sftp'' ''tcp'' 2022 0,
       plain_service ''pterodactyl-wings'' ''tcp'' 8080 0,
       plain_service ''source'' ''udp'' 27015 27030, plain_service ''minecraft'' ''tcp'' 25565 0],
     c_Linkers = [], c_BackendLAN = '''',
     c_Egress = [\<lparr>es_Name = ''pterodactyl'', es_Host = '''', es_CIDR = ''172.18.0.0/16'',
       es_Enabled = False\<rparr>],
     c_QueryCache = \<lparr>qc_Enabled = False, qc_RefreshMs = 0, qc_StaleMs = 0\<rparr>\<rparr>"

text \<open>\<open>Normalise\<close> fills settings a stored configuration predates.\<close>

definition fis0 :: "float64 \<Rightarrow> bool" where
  "fis0 x \<longleftrightarrow> x = Fin 0"

definition Normalise :: "Config \<Rightarrow> Config" where
  "Normalise cfg =
     (let fo = c_Failover cfg;
          fo = (if fo_Selection fo = '''' then fo\<lparr>fo_Selection := SelectionPriority\<rparr> else fo);
          q = fo_Quality fo;
          fo = (if fis0 (ql_LossWeight q) \<and> fis0 (ql_RTTWeight q) \<and> fis0 (ql_JitterWeight q) \<and>
                   fis0 (ql_MarginPct q) \<and> ql_MinDwellSec q = 0
                then fo\<lparr>fo_Quality := default_quality\<rparr> else fo)
      in cfg\<lparr>c_Failover := fo\<rparr>)"

lemma Normalise_idem: "Normalise (Normalise cfg) = Normalise cfg"
  by (simp add: Normalise_def Let_def fis0_def default_quality_def SelectionPriority_def)

section \<open>The ports the query cache serves\<close>

record QueryCacheSpan =
  qs_From :: int
  qs_To :: int
  qs_Target :: string
  qs_Service :: string

definition MaxQueryCachePorts :: nat where
  "MaxQueryCachePorts = 128"

text \<open>\<open>strings.EqualFold\<close> on the ASCII letters that can match \<open>udp\<close>.\<close>

definition ascii_lower :: "char \<Rightarrow> char" where
  "ascii_lower ch = (if 65 \<le> (of_char ch :: nat) \<and> (of_char ch :: nat) \<le> 90
                     then char_of (of_char ch + 32 :: nat) else ch)"

definition EqualFold :: "string \<Rightarrow> string \<Rightarrow> bool" where
  "EqualFold s t \<longleftrightarrow> map ascii_lower s = map ascii_lower t"

text \<open>
  The inner loop over one row's ports: the remaining budget, the claimed ports, the spans
  built so far, and whether \<open>span\<close> points at the last of them (it is nil at the start of a
  row and after a claimed port). The loop stops when the budget is spent.
\<close>

fun qc_row :: "string \<Rightarrow> string \<Rightarrow> int list \<Rightarrow> nat \<Rightarrow> int list \<Rightarrow> QueryCacheSpan list \<Rightarrow> bool
    \<Rightarrow> nat \<times> int list \<times> QueryCacheSpan list" where
  "qc_row target name [] budget claimed out cur = (budget, claimed, out)"
| "qc_row target name (p # ps) budget claimed out cur =
     (if budget = 0 then (budget, claimed, out)
      else if p \<in> set claimed then qc_row target name ps budget claimed out False
      else if cur \<and> out \<noteq> [] \<and> qs_To (last out) = p - 1
           then qc_row target name ps (budget - 1) (p # claimed)
                  (butlast out @ [(last out)\<lparr>qs_To := p\<rparr>]) True
      else qc_row target name ps (budget - 1) (p # claimed)
             (out @ [\<lparr>qs_From = p, qs_To = p, qs_Target = target, qs_Service = name\<rparr>]) True)"

definition qc_service :: "Service \<Rightarrow> bool" where
  "qc_service s \<longleftrightarrow> sv_Enabled s \<and> sv_SourceEngine s \<and> EqualFold (sv_Proto s) ''udp''"

definition qc_range :: "Service \<Rightarrow> int list" where
  "qc_range s = [sv_Port s .. (if sv_Port s < sv_PortEnd s then sv_PortEnd s else sv_Port s)]"

fun qc_rows :: "string \<Rightarrow> Service list \<Rightarrow> nat \<Rightarrow> int list \<Rightarrow> QueryCacheSpan list \<Rightarrow> QueryCacheSpan list" where
  "qc_rows backendIP [] budget claimed out = out"
| "qc_rows backendIP (s # ss) budget claimed out =
     (if \<not> qc_service s then qc_rows backendIP ss budget claimed out
      else case qc_row (TargetOr s backendIP) (sv_Name s) (qc_range s) budget claimed out False of
             (budget', claimed', out') \<Rightarrow> qc_rows backendIP ss budget' claimed' out')"

definition QueryCachePorts :: "Config \<Rightarrow> QueryCacheSpan list" where
  "QueryCachePorts cfg =
     (if \<not> qc_Enabled (c_QueryCache cfg) then []
      else qc_rows (ov_BackendIP (c_Overlay cfg)) (c_Services cfg) MaxQueryCachePorts [] [])"

text \<open>The specification: the ports of the rows in order, first occurrences, at most 128.\<close>

definition span_ports :: "QueryCacheSpan \<Rightarrow> int list" where
  "span_ports s = [qs_From s .. qs_To s]"

fun nub_from :: "int list \<Rightarrow> int list \<Rightarrow> int list" where
  "nub_from seen [] = []"
| "nub_from seen (x # xs) = (if x \<in> set seen then nub_from seen xs else x # nub_from (x # seen) xs)"

definition wf_spans :: "QueryCacheSpan list \<Rightarrow> bool" where
  "wf_spans out \<longleftrightarrow> (\<forall>s \<in> set out. qs_From s \<le> qs_To s)"

lemma nub_from_cong: "set seen = set seen' \<Longrightarrow> nub_from seen xs = nub_from seen' xs"
proof (induction xs arbitrary: seen seen')
  case (Cons x xs)
  show ?case using Cons.prems Cons.IH [of "x # seen" "x # seen'"] Cons.IH [of seen seen'] by auto
qed simp

lemma nub_from_append:
  "nub_from seen (xs @ ys) = nub_from seen xs @ nub_from (rev (nub_from seen xs) @ seen) ys"
proof (induction xs arbitrary: seen)
  case (Cons x xs)
  then show ?case by (auto intro: nub_from_cong)
qed simp

lemma set_nub_from: "set (nub_from seen xs) = set xs - set seen"
  by (induction xs arbitrary: seen) auto

lemma distinct_nub_from: "distinct (nub_from seen xs)"
  by (induction xs arbitrary: seen) (auto simp: set_nub_from)

lemma span_extend:
  assumes "qs_From s \<le> qs_To s" and "qs_To s = p - 1"
  shows "span_ports (s\<lparr>qs_To := p\<rparr>) = span_ports s @ [p]"
proof -
  have "[qs_From s .. p] = [qs_From s .. p - 1] @ [p]" using assms by (intro upto_rec2) simp
  then show ?thesis using assms by (simp add: span_ports_def)
qed

lemma qc_row_spec:
  assumes "wf_spans out" and "set claimed = set (concat (map span_ports out))"
  shows "\<exists>out'. qc_row t n ps b claimed out cur =
           (b - length (take b (nub_from claimed ps)), rev (take b (nub_from claimed ps)) @ claimed, out') \<and>
         wf_spans out' \<and>
         concat (map span_ports out') = concat (map span_ports out) @ take b (nub_from claimed ps)"
  using assms
proof (induction ps arbitrary: b claimed out cur)
  case Nil
  then show ?case by simp
next
  case (Cons p ps)
  show ?case
  proof (cases b)
    case 0
    then show ?thesis using Cons.prems by simp
  next
    case (Suc b')
    show ?thesis
    proof (cases "p \<in> set claimed")
      case True
      then show ?thesis using Cons.IH [OF Cons.prems, of b False] Suc by simp
    next
      case False
      let ?ext = "cur \<and> out \<noteq> [] \<and> qs_To (last out) = p - 1"
      let ?out = "if ?ext then butlast out @ [(last out)\<lparr>qs_To := p\<rparr>]
                  else out @ [\<lparr>qs_From = p, qs_To = p, qs_Target = t, qs_Service = n\<rparr>]"
      have grow: "wf_spans ?out \<and>
          concat (map span_ports ?out) = concat (map span_ports out) @ [p]"
      proof (cases ?ext)
        case True
        then obtain xs s where ol: "out = xs @ [s]" by (cases out rule: rev_cases) auto
        with True Cons.prems(1) show ?thesis
          by (auto simp: wf_spans_def span_extend)
      next
        case False
        then show ?thesis using Cons.prems(1) by (auto simp: wf_spans_def span_ports_def)
      qed
      then have "set (p # claimed) = set (concat (map span_ports ?out))"
        using Cons.prems(2) by auto
      from Cons.IH [OF conjunct1 [OF grow] this, of b' True]
      show ?thesis using False Suc grow by (cases ?ext) (auto simp: add.commute)
    qed
  qed
qed

lemma qc_rows_spec:
  assumes "wf_spans out" and "set claimed = set (concat (map span_ports out))"
  shows "wf_spans (qc_rows ip ss b claimed out) \<and>
         concat (map span_ports (qc_rows ip ss b claimed out)) =
           concat (map span_ports out) @
           take b (nub_from claimed (concat (map qc_range (filter qc_service ss))))"
  using assms
proof (induction ss arbitrary: b claimed out)
  case Nil
  then show ?case by simp
next
  case (Cons s ss)
  show ?case
  proof (cases "qc_service s")
    case False
    then show ?thesis using Cons.IH [OF Cons.prems] by simp
  next
    case True
    let ?new = "take b (nub_from claimed (qc_range s))"
    obtain out' where r: "qc_row (TargetOr s ip) (sv_Name s) (qc_range s) b claimed out False =
          (b - length ?new, rev ?new @ claimed, out')"
      and w: "wf_spans out'"
      and c: "concat (map span_ports out') = concat (map span_ports out) @ ?new"
      using qc_row_spec [OF Cons.prems] by blast
    have "set (rev ?new @ claimed) = set (concat (map span_ports out'))"
      using Cons.prems(2) c by auto
    from Cons.IH [OF w this, of "b - length ?new"]
    show ?thesis
    proof (cases "length (nub_from claimed (qc_range s)) \<le> b")
      case True
      then show ?thesis
        using \<open>qc_service s\<close> r c Cons.IH [OF w \<open>set (rev ?new @ claimed) = _\<close>, of "b - length ?new"]
        by (simp add: nub_from_append)
    next
      case False
      then show ?thesis
        using \<open>qc_service s\<close> r c Cons.IH [OF w \<open>set (rev ?new @ claimed) = _\<close>, of "b - length ?new"]
        by (simp add: nub_from_append)
    qed
  qed
qed

section \<open>Properties\<close>

text \<open>The ports the query cache answers on: the spans cover exactly the ports of the enabled UDP
  rows flagged for the source engine, in row order, each port once and for the first row
  that names it, and at most 128 of them; every span runs upwards.\<close>

theorem QueryCachePorts_spec:
  "wf_spans (QueryCachePorts cfg) \<and>
   concat (map span_ports (QueryCachePorts cfg)) =
     (if qc_Enabled (c_QueryCache cfg)
      then take 128 (nub_from [] (concat (map qc_range (filter qc_service (c_Services cfg)))))
      else []) \<and>
   distinct (concat (map span_ports (QueryCachePorts cfg)))"
  using qc_rows_spec [of "[]" "[]" "ov_BackendIP (c_Overlay cfg)" "c_Services cfg" 128]
  by (simp add: QueryCachePorts_def MaxQueryCachePorts_def wf_spans_def distinct_take distinct_nub_from)

end
