(* ===== verification/Tracker.thy ===== *)
theory Tracker
  imports Config
begin

text \<open>
  The health state machine of one path (\<open>src/internal/engine/tracker.go\<close>) and the window of
  probe outcomes it measures with (\<open>Window\<close> of \<open>prober.go\<close>): folding a probe result in,
  the circuit breaker, re-tuning, and the read-only verdicts the selector asks for.
  The counters of consecutive losses and successes are mathematical integers: at the
  fastest cadence the portal accepts they would need \<open>2\<^sup>6\<^sup>3\<close> probes to wrap. Durations wrap at
  64 bits as in Go.
\<close>

section \<open>The window of results\<close>

record Result =
  r_PathID :: int
  r_Seq :: uint64
  r_RTT :: duration
  r_Lost :: bool
  r_At :: gotime

record Window =
  w_size :: int
  w_entries :: "Result list"

definition NewWindow :: "int \<Rightarrow> Window" where
  "NewWindow sz = \<lparr>w_size = (if sz < 5 then 5 else sz), w_entries = []\<rparr>"

definition Window_Add :: "Window \<Rightarrow> Result \<Rightarrow> Window" where
  "Window_Add w r =
     (let es = w_entries w @ [r] in
      w\<lparr>w_entries := (if int (length es) > w_size w then last_n (nat (w_size w)) es else es)\<rparr>)"

text \<open>\<open>float64(e.RTT.Microseconds()) / 1000.0\<close>\<close>

definition rtt_ms :: "duration \<Rightarrow> float64" where
  "rtt_ms d = fdiv (f_of_int (go_div d 1000)) (Fin 1000)"

definition fabs_dev :: "float64 \<Rightarrow> float64 \<Rightarrow> float64" where
  "fabs_dev mean v = (let d = fsub v mean in if flt d (Fin 0) then fneg d else d)"

definition Stats :: "Window \<Rightarrow> float64 \<times> float64 \<times> float64" where
  "Stats w =
     (if w_entries w = [] then (Fin 0, Fin 0, Fin 0)
      else
        let lost = length (filter r_Lost (w_entries w));
            rtts = map (\<lambda>e. rtt_ms (r_RTT e)) (filter (\<lambda>e. \<not> r_Lost e) (w_entries w));
            lossPct = fmul (fdiv (f_of_int (int lost)) (f_of_int (int (length (w_entries w))))) (Fin 100)
        in if rtts = [] then (lossPct, Fin 0, Fin 0)
           else
             let rttMs = fdiv (foldl fadd (Fin 0) rtts) (f_of_int (int (length rtts)));
                 dev = Float64s (map (fabs_dev rttMs) rtts)
             in (lossPct, rttMs, dev ! (length dev div 2)))"

section \<open>The tracker\<close>

record Tracker =
  t_cfg :: PathConfig
  t_probeCfg :: ProbeConfig
  t_failCfg :: FailoverConfig
  t_health :: Health
  t_consecLoss :: int
  t_consecOK :: int
  t_window :: Window
  t_lastReply :: gotime
  t_cleanSince :: gotime
  t_failures :: "gotime list"
  t_quarantineUntil :: gotime
  t_quarantineLevel :: nat
  t_handshakeAge :: float64

definition NewTracker :: "PathConfig \<Rightarrow> ProbeConfig \<Rightarrow> FailoverConfig \<Rightarrow> Tracker" where
  "NewTracker p probeCfg failCfg =
     \<lparr>t_cfg = p, t_probeCfg = probeCfg, t_failCfg = failCfg, t_health = HealthUnknown,
      t_consecLoss = 0, t_consecOK = 0, t_window = NewWindow (pb_WindowSize probeCfg),
      t_lastReply = 0, t_cleanSince = 0, t_failures = [], t_quarantineUntil = 0,
      t_quarantineLevel = 0, t_handshakeAge = Fin 0\<rparr>"

record Transition =
  tn_Changed :: bool
  tn_From :: Health
  tn_To :: Health
  tn_Quarantine :: duration

definition quarantineRemaining :: "Tracker \<Rightarrow> gotime \<Rightarrow> duration" where
  "quarantineRemaining t now =
     (if IsZero (t_quarantineUntil t) \<or> \<not> now < t_quarantineUntil t then 0
      else time_Sub (t_quarantineUntil t) now)"

text \<open>The doubling loop of the circuit breaker, one unit of the first argument per turn.\<close>

fun quarantine_loop :: "nat \<Rightarrow> duration \<Rightarrow> duration \<Rightarrow> duration" where
  "quarantine_loop 0 mx d = d"
| "quarantine_loop (Suc i) mx d =
     (if mx > 0 \<and> d \<ge> mx then d
      else if d > go_div maxInt64 2 then d
      else quarantine_loop i mx (wrap64 (d * 2)))"

definition quarantine_for :: "duration \<Rightarrow> duration \<Rightarrow> nat \<Rightarrow> duration" where
  "quarantine_for base mx level =
     (let d = quarantine_loop level mx base;
          d = (if mx > 0 \<and> d > mx then mx else d)
      in if d < base then base else d)"

definition tr_recordFailure :: "Tracker \<Rightarrow> gotime \<Rightarrow> Tracker" where
  "tr_recordFailure t now =
     (let window = seconds (fo_FlapWindowSec (t_failCfg t));
          cutoff = time_Add now (wrap64 (- window));
          kept = filter (\<lambda>f. cutoff < f) (t_failures t @ [now]);
          t = t\<lparr>t_failures := kept\<rparr>
      in if fo_FlapThreshold (t_failCfg t) > 0 \<and> int (length kept) \<ge> fo_FlapThreshold (t_failCfg t)
         then let base = seconds (fo_QuarantineSec (t_failCfg t));
                  mx = seconds (fo_QuarantineMaxSec (t_failCfg t));
                  d = quarantine_for base mx (t_quarantineLevel t)
              in t\<lparr>t_quarantineUntil := time_Add now d,
                   t_quarantineLevel := t_quarantineLevel t + 1,
                   t_failures := []\<rparr>
         else t)"

definition Observe :: "Tracker \<Rightarrow> Result \<Rightarrow> gotime \<Rightarrow> Tracker \<times> Transition" where
  "Observe t r now =
     (let from = t_health t;
          t = t\<lparr>t_window := Window_Add (t_window t) r\<rparr>
      in if r_Lost r then
           let t = t\<lparr>t_consecLoss := t_consecLoss t + 1, t_consecOK := 0, t_cleanSince := 0\<rparr>;
               t = (if t_health t = HealthUp then t\<lparr>t_health := HealthSuspect\<rparr> else t)
           in if t_consecLoss t \<ge> pb_FailThreshold (t_probeCfg t) \<and> t_health t \<noteq> HealthDown
              then let t = tr_recordFailure (t\<lparr>t_health := HealthDown\<rparr>) now
                   in (t, \<lparr>tn_Changed = True, tn_From = from, tn_To = t_health t,
                           tn_Quarantine = quarantineRemaining t now\<rparr>)
              else (t, \<lparr>tn_Changed = (from \<noteq> t_health t), tn_From = from, tn_To = t_health t,
                        tn_Quarantine = 0\<rparr>)
         else
           let t = t\<lparr>t_consecOK := t_consecOK t + 1, t_consecLoss := 0, t_lastReply := r_At r\<rparr>
           in if t_health t \<noteq> HealthUp \<and> t_consecOK t \<ge> pb_RecoverThreshold (t_probeCfg t)
              then let t = t\<lparr>t_health := HealthUp, t_cleanSince := now\<rparr>
                   in (t, \<lparr>tn_Changed = True, tn_From = from, tn_To = t_health t, tn_Quarantine = 0\<rparr>)
              else
                let t = (if t_health t = HealthUnknown \<and> t_consecOK t > 0
                         then t\<lparr>t_health := HealthSuspect\<rparr> else t)
                in (t, \<lparr>tn_Changed = (from \<noteq> t_health t), tn_From = from, tn_To = t_health t,
                        tn_Quarantine = 0\<rparr>))"

definition Retune :: "Tracker \<Rightarrow> PathConfig \<Rightarrow> ProbeConfig \<Rightarrow> FailoverConfig \<Rightarrow> Tracker" where
  "Retune t p probeCfg failCfg =
     (let t = t\<lparr>t_cfg := p, t_probeCfg := probeCfg, t_failCfg := failCfg\<rparr>
      in if pb_WindowSize probeCfg \<noteq> w_size (t_window t)
         then t\<lparr>t_window := foldl Window_Add (NewWindow (pb_WindowSize probeCfg)) (w_entries (t_window t))\<rparr>
         else t)"

definition tr_ClearQuarantine :: "Tracker \<Rightarrow> Tracker" where
  "tr_ClearQuarantine t = t\<lparr>t_quarantineUntil := 0, t_quarantineLevel := 0, t_failures := []\<rparr>"

definition SetHandshakeAge :: "Tracker \<Rightarrow> float64 \<Rightarrow> Tracker" where
  "SetHandshakeAge t age = t\<lparr>t_handshakeAge := age\<rparr>"

definition usableHealth :: "Health \<Rightarrow> bool" where
  "usableHealth h \<longleftrightarrow> h = HealthUp \<or> h = HealthSuspect"

definition Usable :: "Tracker \<Rightarrow> bool" where
  "Usable t = usableHealth (t_health t)"

definition Degraded :: "Tracker \<Rightarrow> bool" where
  "Degraded t =
     (if \<not> Usable t then False
      else case Stats (t_window t) of (loss, rtt, _) \<Rightarrow>
        if fgt (pb_MaxLossPct (t_probeCfg t)) (Fin 0) \<and> fgt loss (pb_MaxLossPct (t_probeCfg t)) then True
        else pb_MaxRTTMs (t_probeCfg t) > 0 \<and> fgt rtt (f_of_int (pb_MaxRTTMs (t_probeCfg t))))"

definition Score :: "Tracker \<Rightarrow> QualityConfig \<Rightarrow> float64" where
  "Score t q = (case Stats (t_window t) of (loss, rtt, jitter) \<Rightarrow>
     fadd (fadd (fmul loss (ql_LossWeight q)) (fmul rtt (ql_RTTWeight q))) (fmul jitter (ql_JitterWeight q)))"

definition CleanFor :: "Tracker \<Rightarrow> gotime \<Rightarrow> duration" where
  "CleanFor t now = (if IsZero (t_cleanSince t) then 0 else time_Sub now (t_cleanSince t))"

definition Quarantined :: "Tracker \<Rightarrow> gotime \<Rightarrow> bool" where
  "Quarantined t now \<longleftrightarrow> quarantineRemaining t now > 0"

record PathState =
  ps_ID :: int
  ps_Name :: string
  ps_Iface :: string
  ps_Priority :: int
  ps_Health :: Health
  ps_Block :: Block
  ps_RTTms :: float64
  ps_JitterMs :: float64
  ps_LossPct :: float64
  ps_ConsecLoss :: int
  ps_ConsecOK :: int
  ps_LastReply :: gotime
  ps_HandshakeAge :: float64
  ps_CleanSince :: gotime
  ps_QuarantineEnd :: gotime

definition Eligible :: "PathState \<Rightarrow> bool" where
  "Eligible p \<longleftrightarrow> (ps_Health p = HealthUp \<or> ps_Health p = HealthSuspect) \<and> ps_Block p = BlockNone"

definition tr_Snapshot :: "Tracker \<Rightarrow> gotime \<Rightarrow> PathState" where
  "tr_Snapshot t now = (case Stats (t_window t) of (loss, rtt, jitter) \<Rightarrow>
     \<lparr>ps_ID = p_ID (t_cfg t), ps_Name = p_Name (t_cfg t), ps_Iface = p_Iface (t_cfg t),
      ps_Priority = p_Priority (t_cfg t), ps_Health = t_health t, ps_Block = BlockNone,
      ps_RTTms = rtt, ps_JitterMs = jitter, ps_LossPct = loss,
      ps_ConsecLoss = t_consecLoss t, ps_ConsecOK = t_consecOK t, ps_LastReply = t_lastReply t,
      ps_HandshakeAge = t_handshakeAge t, ps_CleanSince = t_cleanSince t,
      ps_QuarantineEnd = t_quarantineUntil t\<rparr>)"

section \<open>The window keeps the last results\<close>

lemma Window_Add_size [simp]: "w_size (Window_Add w r) = w_size w"
  by (simp add: Window_Add_def Let_def)

lemma Window_Add_entries:
  "0 \<le> w_size w \<Longrightarrow> w_entries (Window_Add w r) = last_n (nat (w_size w)) (w_entries w @ [r])"
  by (simp add: Window_Add_def Let_def last_n_all)

lemma foldl_Window_Add_size [simp]: "w_size (foldl Window_Add w rs) = w_size w"
  by (induction rs arbitrary: w) simp_all

lemma foldl_Window_Add:
  assumes "0 \<le> w_size w" and "w_entries w = last_n (nat (w_size w)) xs"
  shows "w_entries (foldl Window_Add w rs) = last_n (nat (w_size w)) (xs @ rs)"
  using assms
proof (induction rs arbitrary: w xs)
  case (Cons r rs)
  have "w_entries (Window_Add w r) = last_n (nat (w_size w)) (xs @ [r])"
    using Cons.prems by (simp add: Window_Add_entries last_n_snoc)
  from Cons.IH [OF _ this [folded Window_Add_size [of w r]]] Cons.prems(1)
  show ?case by simp
qed simp

section \<open>The circuit breaker\<close>

lemma half_max [simp]: "go_div maxInt64 2 = 4611686018427387903"
  by (simp add: go_div_def maxInt64_def)

lemma quarantine_loop_bounds:
  "0 \<le> d \<Longrightarrow> in_int64 d \<Longrightarrow> d \<le> quarantine_loop n mx d \<and> in_int64 (quarantine_loop n mx d)"
proof (induction n arbitrary: d)
  case (Suc n)
  show ?case
  proof (cases "(mx > 0 \<and> d \<ge> mx) \<or> d > go_div maxInt64 2")
    case False
    then have w: "wrap64 (d * 2) = d * 2"
      using Suc.prems unfolding half_max by (intro wrap64_id) (simp add: go_arith)
    then have "in_int64 (d * 2)" by (metis wrap64_in)
    with Suc.IH [of "d * 2"] w False Suc.prems(1) show ?thesis by auto
  qed (use Suc.prems in auto)
qed simp

text \<open>
  Doubling up to the ceiling: the loop reaches \<open>min mx (d \<cdot> 2\<^sup>n)\<close>. Half the range of a
  \<open>Duration\<close> (146 years) bounds the ceiling, since a \<open>d\<close> past it is not doubled again.
\<close>

lemma quarantine_loop_capped:
  assumes "0 < d" and "in_int64 d" and "0 < mx" and "mx \<le> 4611686018427387904"
  shows "min mx (quarantine_loop n mx d) = min mx (d * 2 ^ n)"
  using assms
proof (induction n arbitrary: d)
  case (Suc n)
  show ?case
  proof (cases "d \<ge> mx")
    case True
    have "d * 1 \<le> d * 2 ^ Suc n" using Suc.prems(1) by (intro mult_left_mono) (simp_all del: power_Suc)
    then have "mx \<le> d * 2 ^ Suc n" using True by (simp del: power_Suc)
    with True Suc.prems show ?thesis by (simp del: power_Suc add: min_absorb1)
  next
    case False
    then have nw: "\<not> d > go_div maxInt64 2" and w: "wrap64 (d * 2) = d * 2"
      using Suc.prems by (simp, intro wrap64_id) (simp add: go_arith)
    then have "in_int64 (d * 2)" by (metis wrap64_in)
    with Suc.IH [of "d * 2"] w nw False Suc.prems show ?thesis by (simp add: mult.assoc)
  qed
qed simp

lemma quarantine_for_ge_base:
  "0 \<le> base \<Longrightarrow> in_int64 base \<Longrightarrow> in_int64 mx \<Longrightarrow>
   base \<le> quarantine_for base mx n \<and> in_int64 (quarantine_for base mx n)"
  using quarantine_loop_bounds [of base n mx] by (auto simp: quarantine_for_def Let_def)

lemma quarantine_for_exact:
  assumes "0 < base" and "base \<le> mx" and "mx \<le> 4611686018427387904"
  shows "quarantine_for base mx n = min mx (base * 2 ^ n)"
proof -
  have i: "in_int64 base" using assms by (simp add: go_arith)
  have "min mx (quarantine_loop n mx base) = min mx (base * 2 ^ n)"
    by (rule quarantine_loop_capped) (use assms i in auto)
  moreover have "base \<le> quarantine_loop n mx base"
    using quarantine_loop_bounds [of base n mx] assms i by simp
  ultimately show ?thesis using assms by (auto simp: quarantine_for_def Let_def)
qed

lemma tr_recordFailure_frame [simp]:
  "t_health (tr_recordFailure t now) = t_health t"
  "t_consecLoss (tr_recordFailure t now) = t_consecLoss t"
  "t_consecOK (tr_recordFailure t now) = t_consecOK t"
  "t_cleanSince (tr_recordFailure t now) = t_cleanSince t"
  "t_window (tr_recordFailure t now) = t_window t"
  "t_probeCfg (tr_recordFailure t now) = t_probeCfg t"
  "t_failCfg (tr_recordFailure t now) = t_failCfg t"
  "t_cfg (tr_recordFailure t now) = t_cfg t"
  by (simp_all add: tr_recordFailure_def Let_def)

section \<open>One observation\<close>

lemma Observe_lost:
  assumes "r_Lost r"
  shows "t_consecLoss (fst (Observe t r now)) = t_consecLoss t + 1"
    and "t_consecOK (fst (Observe t r now)) = 0"
    and "t_cleanSince (fst (Observe t r now)) = 0"
    and "t_health (fst (Observe t r now)) =
           (if t_consecLoss t + 1 \<ge> pb_FailThreshold (t_probeCfg t) \<or> t_health t = HealthDown
            then HealthDown
            else if t_health t = HealthUp then HealthSuspect else t_health t)"
  using assms by (auto simp: Observe_def Let_def)

lemma Observe_ok:
  assumes "\<not> r_Lost r"
  shows "t_consecLoss (fst (Observe t r now)) = 0"
    and "t_consecOK (fst (Observe t r now)) = t_consecOK t + 1"
    and "t_health (fst (Observe t r now)) =
           (if t_consecOK t + 1 \<ge> pb_RecoverThreshold (t_probeCfg t) \<or> t_health t = HealthUp
            then HealthUp
            else if t_health t = HealthUnknown \<and> t_consecOK t + 1 > 0 then HealthSuspect
            else t_health t)"
    and "t_cleanSince (fst (Observe t r now)) =
           (if t_consecOK t + 1 \<ge> pb_RecoverThreshold (t_probeCfg t) \<and> t_health t \<noteq> HealthUp
            then now else t_cleanSince t)"
  using assms by (auto simp: Observe_def Let_def)

lemma Observe_cfg [simp]:
  "t_probeCfg (fst (Observe t r now)) = t_probeCfg t"
  "t_failCfg (fst (Observe t r now)) = t_failCfg t"
  "t_cfg (fst (Observe t r now)) = t_cfg t"
  "t_window (fst (Observe t r now)) = Window_Add (t_window t) r"
  by (auto simp: Observe_def Let_def)

lemma Observe_transition:
  "tn_From (snd (Observe t r now)) = t_health t"
  "tn_To (snd (Observe t r now)) = t_health (fst (Observe t r now))"
  "tn_Changed (snd (Observe t r now)) \<longleftrightarrow> t_health (fst (Observe t r now)) \<noteq> t_health t"
  by (auto simp: Observe_def Let_def)

section \<open>The events of a tracker and its invariant\<close>

datatype tracker_event =
    ObserveE Result gotime
  | RetuneE PathConfig ProbeConfig FailoverConfig
  | ClearQuarantineE
  | HandshakeE float64

fun tracker_step :: "Tracker \<Rightarrow> tracker_event \<Rightarrow> Tracker" where
  "tracker_step t (ObserveE r now) = fst (Observe t r now)"
| "tracker_step t (RetuneE p pc fc) = Retune t p pc fc"
| "tracker_step t ClearQuarantineE = tr_ClearQuarantine t"
| "tracker_step t (HandshakeE a) = SetHandshakeAge t a"

text \<open>
  The window never outgrows its size; at most one of the two streaks runs; a path that is
  up has lost nothing since it came up; only a path that is up has a clean streak.
\<close>

definition tracker_inv :: "Tracker \<Rightarrow> bool" where
  "tracker_inv t \<longleftrightarrow>
     5 \<le> w_size (t_window t) \<and> int (length (w_entries (t_window t))) \<le> w_size (t_window t) \<and>
     0 \<le> t_consecLoss t \<and> 0 \<le> t_consecOK t \<and> (t_consecLoss t = 0 \<or> t_consecOK t = 0) \<and>
     (t_health t = HealthUp \<longrightarrow> t_consecLoss t = 0) \<and>
     (t_cleanSince t \<noteq> 0 \<longrightarrow> t_health t = HealthUp)"

lemma tracker_inv_New: "tracker_inv (NewTracker p pc fc)"
  by (simp add: tracker_inv_def NewTracker_def NewWindow_def)

lemma window_bound_Add:
  "5 \<le> w_size w \<Longrightarrow> int (length (w_entries (Window_Add w r))) \<le> w_size w"
  by (simp add: Window_Add_entries int_min_nat del: of_nat_min)

lemma window_bound_run:
  "5 \<le> w_size w \<Longrightarrow> int (length (w_entries w)) \<le> w_size w \<Longrightarrow>
   int (length (w_entries (foldl Window_Add w rs))) \<le> w_size w"
  using int_min_nat [of "w_size w" "length (w_entries w) + length rs"]
  by (subst foldl_Window_Add [of w "w_entries w"]) (simp_all add: last_n_all del: of_nat_min)

lemma tracker_inv_Observe: "tracker_inv t \<Longrightarrow> tracker_inv (fst (Observe t r now))"
  by (cases "r_Lost r") (auto simp: tracker_inv_def Observe_lost Observe_ok window_bound_Add)

lemma tracker_inv_Retune: "tracker_inv t \<Longrightarrow> tracker_inv (Retune t p pc fc)"
  using window_bound_run [of "NewWindow (pb_WindowSize pc)" "w_entries (t_window t)"]
  by (auto simp: tracker_inv_def Retune_def Let_def NewWindow_def)

lemma tracker_inv_step: "tracker_inv t \<Longrightarrow> tracker_inv (tracker_step t e)"
proof (cases e)
  case ClearQuarantineE
  then show "tracker_inv t \<Longrightarrow> ?thesis" by (simp add: tracker_inv_def tr_ClearQuarantine_def)
next
  case (HandshakeE a)
  then show "tracker_inv t \<Longrightarrow> ?thesis" by (simp add: tracker_inv_def SetHandshakeAge_def)
qed (simp_all add: tracker_inv_Observe tracker_inv_Retune)

interpretation tracker_runs: invariant_run tracker_step tracker_inv
  by unfold_locales (rule tracker_inv_step)

section \<open>Traces of observations\<close>

text \<open>A trace pairs each probe result with the time it is folded in.\<close>

definition observe_all :: "Tracker \<Rightarrow> (Result \<times> gotime) list \<Rightarrow> Tracker" where
  "observe_all t tr = foldl (\<lambda>t (r, now). fst (Observe t r now)) t tr"

lemma observe_all_simps [simp]:
  "observe_all t [] = t"
  "observe_all t (x # tr) = observe_all (fst (Observe t (fst x) (snd x))) tr"
  "observe_all t (tr @ [x]) = fst (Observe (observe_all t tr) (fst x) (snd x))"
  by (simp_all add: observe_all_def case_prod_beta)

lemma observe_all_cfg [simp]:
  "t_probeCfg (observe_all t tr) = t_probeCfg t"
  "t_failCfg (observe_all t tr) = t_failCfg t"
  by (induction tr arbitrary: t) simp_all

definition lost_streak :: "(Result \<times> gotime) list \<Rightarrow> nat" where
  "lost_streak tr = length (takeWhile (\<lambda>x. r_Lost (fst x)) (rev tr))"

definition ok_streak :: "(Result \<times> gotime) list \<Rightarrow> nat" where
  "ok_streak tr = length (takeWhile (\<lambda>x. \<not> r_Lost (fst x)) (rev tr))"

lemma lost_streak_snoc: "lost_streak (tr @ [x]) = (if r_Lost (fst x) then lost_streak tr + 1 else 0)"
  by (simp add: lost_streak_def)

lemma ok_streak_snoc: "ok_streak (tr @ [x]) = (if r_Lost (fst x) then 0 else ok_streak tr + 1)"
  by (simp add: ok_streak_def)

lemma NewTracker_probeCfg [simp]: "t_probeCfg (NewTracker p pc fc) = pc"
  by (simp add: NewTracker_def)

lemma streaks_counted:
  "t_consecLoss (observe_all (NewTracker p pc fc) tr) = int (lost_streak tr) \<and>
   t_consecOK (observe_all (NewTracker p pc fc) tr) = int (ok_streak tr)"
proof (induction tr rule: rev_induct)
  case Nil
  then show ?case by (simp add: NewTracker_def lost_streak_def ok_streak_def)
next
  case (snoc x tr)
  then show ?case
    by (cases "r_Lost (fst x)") (simp_all add: Observe_lost Observe_ok lost_streak_def ok_streak_def)
qed

lemma observe_all_inv: "tracker_inv t \<Longrightarrow> tracker_inv (observe_all t tr)"
  by (induction tr arbitrary: t) (simp_all add: tracker_inv_Observe)

text \<open>
  The clean streak: with time stamps that do not go back, nothing lost was folded in after
  the moment the streak began.
\<close>

definition times_sorted :: "(Result \<times> gotime) list \<Rightarrow> bool" where
  "times_sorted tr \<longleftrightarrow> sorted (map snd tr) \<and> (\<forall>x \<in> set tr. 0 < snd x)"

lemma times_sorted_snoc:
  "times_sorted (tr @ [x]) \<longleftrightarrow> times_sorted tr \<and> 0 < snd x \<and> (\<forall>y \<in> set tr. snd y \<le> snd x)"
  by (auto simp: times_sorted_def sorted_append)

lemma clean_since_after_losses:
  assumes "times_sorted tr"
    and "t_cleanSince (observe_all (NewTracker p pc fc) tr) \<noteq> 0"
  shows "(\<forall>x \<in> set tr. r_Lost (fst x) \<longrightarrow>
            snd x \<le> t_cleanSince (observe_all (NewTracker p pc fc) tr)) \<and>
         0 < t_cleanSince (observe_all (NewTracker p pc fc) tr)"
  using assms
proof (induction tr rule: rev_induct)
  case Nil
  then show ?case by (simp add: NewTracker_def)
next
  case (snoc x tr)
  let ?t = "observe_all (NewTracker p pc fc) tr"
  show ?case
  proof (cases "r_Lost (fst x)")
    case True
    then show ?thesis using snoc.prems by (simp add: Observe_lost)
  next
    case False
    show ?thesis
      using snoc False by (auto simp: Observe_ok times_sorted_snoc split: if_splits)
  qed
qed

section \<open>Measurements\<close>

lemma fdiv_unit:
  assumes "0 \<le> a" "a \<le> b" "0 < (b::int)" "b < 2 ^ 53"
  shows "\<exists>r. fdiv (f_of_int a) (f_of_int b) = Fin r \<and> 0 \<le> r \<and> r \<le> 1"
proof -
  have "f_of_int a = Fin (of_int a)" "f_of_int b = Fin (of_int b)"
    using assms by (simp_all add: f_of_int_def f64_small)
  moreover have q: "0 \<le> (of_int a / of_int b :: rat)" "(of_int a / of_int b :: rat) \<le> 1"
    using assms by simp_all
  moreover have "rnd64 (of_int a / of_int b) \<le> 1"
    using rnd64_mono [OF q(2)] rnd64_int [of 1] by simp
  moreover have "0 \<le> rnd64 (of_int a / of_int b)" by (rule rnd64_nonneg) (rule q(1))
  ultimately show ?thesis using assms by (auto simp: f64_def Let_def f64_bound_def)
qed

lemma fmul_100_bounds:
  assumes "0 \<le> r" "r \<le> 1"
  shows "\<exists>s. fmul (Fin r) (Fin 100) = Fin s \<and> 0 \<le> s \<and> s \<le> 100"
proof -
  have "rnd64 (r * 100) \<le> 100"
    using rnd64_mono [of "r * 100" 100] rnd64_int [of 100] assms by simp
  moreover have "0 \<le> rnd64 (r * 100)" using assms by (intro rnd64_nonneg) simp
  ultimately show ?thesis by (auto simp: f64_def Let_def f64_bound_def)
qed

lemma foldl_fadd_nonneg:
  "fnonneg a \<Longrightarrow> (\<forall>x \<in> set xs. fnonneg x) \<Longrightarrow> fnonneg (foldl fadd a xs)"
  by (induction xs arbitrary: a) (simp_all add: fadd_nonneg)

lemma f_of_int_nonneg: "0 \<le> n \<Longrightarrow> fnonneg (f_of_int n)"
  by (simp add: f_of_int_def f64_nonneg)

lemma fdiv_nonneg: "fnonneg a \<Longrightarrow> 0 < b \<Longrightarrow> fnonneg (fdiv a (Fin b))"
  by (cases a) (simp_all add: f64_nonneg)

lemma rtt_ms_nonneg: "0 \<le> d \<Longrightarrow> fnonneg (rtt_ms d)"
  unfolding rtt_ms_def
  by (intro fdiv_nonneg f_of_int_nonneg) (simp_all add: go_div_nonneg pos_imp_zdiv_nonneg_iff)

lemma Stats_loss_bounds:
  assumes "length (w_entries w) < 2 ^ 53"
  shows "\<exists>loss rtt jit. Stats w = (Fin loss, rtt, jit) \<and> 0 \<le> loss \<and> loss \<le> 100"
proof (cases "w_entries w = []")
  case False
  let ?l = "int (length (filter r_Lost (w_entries w)))" and ?n = "int (length (w_entries w))"
  have "int (length (w_entries w)) < int (2 ^ 53)" using assms by (simp only: of_nat_less_iff)
  then obtain r where r: "fdiv (f_of_int ?l) (f_of_int ?n) = Fin r" "0 \<le> r" "r \<le> 1"
    using fdiv_unit [of ?l ?n] False by auto
  obtain s where "fmul (Fin r) (Fin 100) = Fin s" "0 \<le> s" "s \<le> 100"
    using fmul_100_bounds [OF r(2,3)] by blast
  with r(1) False show ?thesis by (auto simp: Stats_def Let_def)
qed (simp add: Stats_def)

lemma f_of_int_pos:
  assumes "0 < n" "n < 2 ^ 53"
  shows "\<exists>b > 0. f_of_int n = Fin b"
  using assms by (auto simp: f_of_int_def f64_small)

lemma f_of_int64_fin:
  assumes "0 \<le> n" "in_int64 n"
  shows "\<exists>r \<ge> 0. f_of_int n = Fin r \<and> r \<le> 2 ^ 63"
proof -
  have n: "n \<le> 2 ^ 63" using assms by (simp add: go_arith)
  have le: "(of_int n :: rat) \<le> 2 ^ 63"
    using of_int_le_iff [where ?'a = rat, of n "2 ^ 63"] n by simp
  have "f64 (of_int n) = Fin (rnd64 (of_int n))" by (rule f64_fin [OF _ le]) (use assms in auto)
  moreover have "0 \<le> rnd64 (of_int n)" using assms by (intro rnd64_nonneg) simp
  moreover have "rnd64 (of_int n) \<le> 2 ^ 63" by (rule rnd64_le_pow2 [OF le])
  ultimately show ?thesis by (auto simp: f_of_int_def)
qed

lemma rtt_ms_fin:
  assumes "0 \<le> d" "in_int64 d"
  shows "\<exists>r \<ge> 0. rtt_ms d = Fin r"
proof -
  have g: "0 \<le> go_div d 1000" "in_int64 (go_div d 1000)"
    using assms by (auto simp: go_div_nonneg go_arith)
  then obtain r where r: "0 \<le> r" "f_of_int (go_div d 1000) = Fin r" "r \<le> 2 ^ 63"
    using f_of_int64_fin by blast
  have le: "r / 1000 \<le> 2 ^ 63" using r(1,3) by simp
  have "f64 (r / 1000) = Fin (rnd64 (r / 1000))" by (rule f64_fin [OF _ le]) (use r in auto)
  moreover have "0 \<le> rnd64 (r / 1000)" using r by (intro rnd64_nonneg) simp
  ultimately show ?thesis using r by (auto simp: rtt_ms_def)
qed

lemma fabs_dev_nonneg: "fnonneg mean \<Longrightarrow> fnonneg (fabs_dev mean (Fin v))"
proof (cases mean)
  case (Fin m)
  show ?thesis
  proof (cases "m \<le> v")
    case True
    then have "fnonneg (f64 (v - m))" by (intro f64_nonneg) simp
    then show ?thesis using Fin by (cases "f64 (v - m)") (auto simp: fabs_dev_def fsub_def Let_def)
  next
    case False
    then have "fnonneg (f64 (m - v))" by (intro f64_nonneg) simp
    moreover have "f64 (v - m) = fneg (f64 (m - v))"
      using rnd64_neg [of "m - v"] by (auto simp: f64_def Let_def f64_bound_def)
    ultimately show ?thesis using Fin
      by (cases "f64 (m - v)") (auto simp: fabs_dev_def fsub_def Let_def)
  qed
qed (auto simp: fabs_dev_def fsub_def Let_def)

text \<open>Round trips of a window are measured with the monotonic clock.\<close>

definition window_sane :: "Window \<Rightarrow> bool" where
  "window_sane w \<longleftrightarrow> length (w_entries w) < 2 ^ 53 \<and>
     list_all (\<lambda>r. 0 \<le> r_RTT r \<and> in_int64 (r_RTT r)) (w_entries w)"

lemma Stats_nonneg:
  assumes "window_sane w"
  shows "\<exists>loss rtt jit. Stats w = (Fin loss, rtt, jit) \<and> 0 \<le> loss \<and> loss \<le> 100 \<and>
           fnonneg rtt \<and> fnonneg jit"
proof -
  let ?ok = "filter (\<lambda>e. \<not> r_Lost e) (w_entries w)"
  let ?rtts = "map (\<lambda>e. rtt_ms (r_RTT e)) ?ok"
  let ?rtt = "fdiv (foldl fadd (Fin 0) ?rtts) (f_of_int (int (length ?rtts)))"
  let ?dev = "Float64s (map (fabs_dev ?rtt) ?rtts)"
  have len: "length (w_entries w) < 2 ^ 53"
    and fin: "\<And>r. r \<in> set (w_entries w) \<Longrightarrow> \<exists>x \<ge> 0. rtt_ms (r_RTT r) = Fin x"
    using assms rtt_ms_fin by (auto simp: window_sane_def list_all_iff)
  obtain loss rtt jit where s: "Stats w = (Fin loss, rtt, jit)" "0 \<le> loss" "loss \<le> 100"
    using Stats_loss_bounds [OF len] by blast
  show ?thesis
  proof (cases "?rtts = []")
    case True
    then have "rtt = Fin 0" "jit = Fin 0" using s by (auto simp: Stats_def Let_def split: if_splits)
    then show ?thesis using s by simp
  next
    case False
    have "length ?rtts < 2 ^ 53" using len length_filter_le [of "\<lambda>e. \<not> r_Lost e" "w_entries w"]
      by (simp only: length_map)
    then have "int (length ?rtts) < int (2 ^ 53)" by (simp only: of_nat_less_iff)
    then obtain b where b: "b > 0" "f_of_int (int (length ?rtts)) = Fin b"
      using f_of_int_pos [of "int (length ?rtts)"] False by auto
    have "fnonneg (foldl fadd (Fin 0) ?rtts)"
      by (intro foldl_fadd_nonneg) (auto dest: fin)
    then have mean: "fnonneg ?rtt" using fdiv_nonneg [OF _ b(1)] by (simp only: b(2))
    have "fnonneg (fabs_dev ?rtt (rtt_ms (r_RTT r)))" if "r \<in> set (w_entries w)" for r
      using fin [OF that] fabs_dev_nonneg [OF mean] by fastforce
    then have "\<forall>x \<in> set ?dev. fnonneg x" by auto
    moreover have "?dev ! (length ?dev div 2) \<in> set ?dev"
      using False by (intro nth_mem) (simp only: length_Float64s length_map, simp)
    ultimately have "fnonneg (?dev ! (length ?dev div 2))" by blast
    moreover have "rtt = ?rtt" "jit = ?dev ! (length ?dev div 2)"
      using s(1) False by (auto simp: Stats_def Let_def split: if_splits)
    ultimately show ?thesis using s mean by simp
  qed
qed

section \<open>Properties\<close>

text \<open>C7. The two edges of the health machine, over every trace of probe results from a new
  tracker: a path is condemned by exactly the result that brings the run of losses to the
  failure threshold, and it comes up by exactly the result that brings the run of replies to
  the recovery threshold. Nothing else moves a path into or out of \<open>down\<close> and \<open>up\<close>.\<close>

theorem health_edges:
  "(t_health (observe_all (NewTracker p pc fc) tr) \<noteq> HealthDown \<and>
      t_health (observe_all (NewTracker p pc fc) (tr @ [x])) = HealthDown \<longleftrightarrow>
    t_health (observe_all (NewTracker p pc fc) tr) \<noteq> HealthDown \<and> r_Lost (fst x) \<and>
      pb_FailThreshold pc \<le> int (lost_streak (tr @ [x]))) \<and>
   (t_health (observe_all (NewTracker p pc fc) tr) \<noteq> HealthUp \<and>
      t_health (observe_all (NewTracker p pc fc) (tr @ [x])) = HealthUp \<longleftrightarrow>
    t_health (observe_all (NewTracker p pc fc) tr) \<noteq> HealthUp \<and> \<not> r_Lost (fst x) \<and>
      pb_RecoverThreshold pc \<le> int (ok_streak (tr @ [x]))) \<and>
   (t_health (observe_all (NewTracker p pc fc) tr) = HealthUp \<and>
      t_health (observe_all (NewTracker p pc fc) (tr @ [x])) \<noteq> HealthUp \<longleftrightarrow>
    t_health (observe_all (NewTracker p pc fc) tr) = HealthUp \<and> r_Lost (fst x))"
  by (cases "r_Lost (fst x)")
     (simp_all add: Observe_lost Observe_ok streaks_counted lost_streak_snoc ok_streak_snoc)

text \<open>Every run of a tracker through observations, re-tunings, quarantine clears and
  handshake reports keeps the tracker invariant: bounded window, exclusive streaks, an up
  path has lost nothing since it came up, only an up path has a clean streak.\<close>

theorem tracker_run_invariant: "tracker_inv (foldl tracker_step (NewTracker p pc fc) es)"
  by (rule tracker_runs.run_inv) (rule tracker_inv_New)

text \<open>What the failback hold-down buys: when \<open>CleanFor\<close> reports at least \<open>d > 0\<close> at time
  \<open>now\<close>, the path is up and no probe folded in during the last \<open>d\<close> nanoseconds was lost.\<close>

theorem CleanFor_no_loss:
  assumes "times_sorted tr" and "0 < d"
    and "d \<le> CleanFor (observe_all (NewTracker p pc fc) tr) now"
  shows "t_health (observe_all (NewTracker p pc fc) tr) = HealthUp \<and>
         (\<forall>x \<in> set tr. r_Lost (fst x) \<longrightarrow> snd x \<le> now - d)"
proof -
  let ?t = "observe_all (NewTracker p pc fc) tr"
  have nz: "t_cleanSince ?t \<noteq> 0" and le: "d \<le> time_Sub now (t_cleanSince ?t)"
    using assms(2,3) by (auto simp: CleanFor_def IsZero_def split: if_splits)
  have "d \<le> now - t_cleanSince ?t"
    using time_Sub_ge [OF le] assms(2) by (simp add: minInt64_def)
  moreover have "t_health ?t = HealthUp"
    using observe_all_inv [OF tracker_inv_New] nz by (auto simp: tracker_inv_def)
  ultimately show ?thesis using clean_since_after_losses [OF assms(1) nz] by fastforce
qed

theorem CleanFor_no_loss_witness:
  "t_health (observe_all (NewTracker (hd default_paths) default_probe default_failover)
     (map (\<lambda>n. (\<lparr>r_PathID = 1, r_Seq = 1, r_RTT = 5, r_Lost = n < 3, r_At = n\<rparr>, n)) [1..15])) = HealthUp"
  by (rule CleanFor_no_loss [where d = 5 and now = 20, THEN conjunct1]) code_simp+

text \<open>The circuit breaker: when the failures inside the flap window reach the threshold, the
  path is quarantined for the base time doubled once per earlier quarantine, capped at the
  configured maximum; the list of failures starts again and the level rises by one.\<close>

theorem quarantine_backoff:
  assumes "0 < fo_FlapThreshold (t_failCfg t)"
    and "fo_FlapThreshold (t_failCfg t) \<le>
           int (length (filter (\<lambda>f. now - fo_FlapWindowSec (t_failCfg t) * 1000000000 < f)
             (t_failures t @ [now])))"
    and "0 < fo_QuarantineSec (t_failCfg t)"
    and "fo_QuarantineSec (t_failCfg t) \<le> fo_QuarantineMaxSec (t_failCfg t)"
    and "fo_QuarantineMaxSec (t_failCfg t) \<le> 4611686018"
    and "0 \<le> fo_FlapWindowSec (t_failCfg t)" and "fo_FlapWindowSec (t_failCfg t) \<le> 9223372036"
  shows "tr_recordFailure t now =
     t\<lparr>t_quarantineUntil := now + min (fo_QuarantineMaxSec (t_failCfg t) * 1000000000)
          (fo_QuarantineSec (t_failCfg t) * 1000000000 * 2 ^ t_quarantineLevel t),
       t_quarantineLevel := t_quarantineLevel t + 1, t_failures := []\<rparr>"
proof -
  have s: "seconds (fo_QuarantineSec (t_failCfg t)) = fo_QuarantineSec (t_failCfg t) * 1000000000"
    "seconds (fo_QuarantineMaxSec (t_failCfg t)) = fo_QuarantineMaxSec (t_failCfg t) * 1000000000"
    "seconds (fo_FlapWindowSec (t_failCfg t)) = fo_FlapWindowSec (t_failCfg t) * 1000000000"
    using assms by (simp_all add: seconds_small)
  have w: "wrap64 (- (fo_FlapWindowSec (t_failCfg t) * 1000000000)) =
      - (fo_FlapWindowSec (t_failCfg t) * 1000000000)"
    using assms by (intro wrap64_id) (simp add: go_arith)
  show ?thesis
    using assms quarantine_for_exact
      [of "fo_QuarantineSec (t_failCfg t) * 1000000000" "fo_QuarantineMaxSec (t_failCfg t) * 1000000000"]
    by (simp add: tr_recordFailure_def Let_def s w time_Add_def del: filter_append)
qed

theorem quarantine_backoff_witness:
  "t_quarantineUntil (tr_recordFailure
     ((NewTracker (hd default_paths) default_probe default_failover)
       \<lparr>t_failures := [6000000000, 7000000000, 8000000000, 9000000000, 9500000000], t_quarantineLevel := 3\<rparr>) 10000000000) =
   10000000000 + min (fo_QuarantineMaxSec default_failover * 1000000000)
     (fo_QuarantineSec default_failover * 1000000000 * 2 ^ 3)"
  by (subst quarantine_backoff) code_simp+

text \<open>Measurements stay in range: over a window of fewer than \<open>2\<^sup>5\<^sup>3\<close> results with round
  trips that are non-negative durations, the loss percentage is a number between 0 and
  100, and the mean round trip and the jitter are never negative and never \<open>NaN\<close>, rounding
  of every floating-point step included.\<close>

theorem Stats_in_range:
  assumes "window_sane w"
  shows "\<exists>loss rtt jit. Stats w = (Fin loss, rtt, jit) \<and> 0 \<le> loss \<and> loss \<le> 100 \<and>
           fnonneg rtt \<and> fnonneg jit"
  using assms by (rule Stats_nonneg)

theorem Stats_in_range_witness:
  "\<exists>loss rtt jit. Stats \<lparr>w_size = 5, w_entries =
       [\<lparr>r_PathID = 1, r_Seq = 1, r_RTT = 12345678, r_Lost = False, r_At = 1\<rparr>,
        \<lparr>r_PathID = 1, r_Seq = 2, r_RTT = 0, r_Lost = True, r_At = 2\<rparr>]\<rparr> = (Fin loss, rtt, jit) \<and>
     0 \<le> loss \<and> loss \<le> 100 \<and> fnonneg rtt \<and> fnonneg jit"
  by (rule Stats_in_range) (simp add: window_sane_def go_arith)

text \<open>Re-tuning a running tracker forgets no verdict: health, both streaks, the clean streak,
  the circuit breaker and the newest results that fit the new window all survive.\<close>

theorem Retune_keeps:
  assumes "tracker_inv t"
  shows "t_health (Retune t p pc fc) = t_health t \<and>
    t_consecLoss (Retune t p pc fc) = t_consecLoss t \<and> t_consecOK (Retune t p pc fc) = t_consecOK t \<and>
    t_cleanSince (Retune t p pc fc) = t_cleanSince t \<and> t_failures (Retune t p pc fc) = t_failures t \<and>
    t_quarantineUntil (Retune t p pc fc) = t_quarantineUntil t \<and>
    t_quarantineLevel (Retune t p pc fc) = t_quarantineLevel t \<and>
    w_entries (t_window (Retune t p pc fc)) =
      last_n (nat (max 5 (pb_WindowSize pc))) (w_entries (t_window t))"
proof -
  have "w_entries (foldl Window_Add (NewWindow (pb_WindowSize pc)) (w_entries (t_window t))) =
      last_n (nat (max 5 (pb_WindowSize pc))) (w_entries (t_window t))"
    using foldl_Window_Add [of "NewWindow (pb_WindowSize pc)" "[]" "w_entries (t_window t)"]
    by (auto simp: NewWindow_def last_n_def max_def)
  moreover have "length (w_entries (t_window t)) \<le> nat (w_size (t_window t))" "5 \<le> w_size (t_window t)"
    using assms by (auto simp: tracker_inv_def)
  ultimately show ?thesis by (auto simp: Retune_def Let_def last_n_all max_def)
qed

theorem Retune_keeps_witness:
  "t_health (Retune (NewTracker (hd default_paths) default_probe default_failover)
      (hd default_paths) default_probe default_failover) = HealthUnknown"
  using Retune_keeps [OF tracker_inv_New, of "hd default_paths" default_probe default_failover
      "hd default_paths" default_probe default_failover]
  by (simp add: NewTracker_def)

end
