(* ===== verification/Calendar.thy ===== *)
theory Calendar
  imports Prelude
begin

text \<open>
  The civil calendar and the zone handling of Go's \<open>time\<close> package, as far as the billing
  periods use them: \<open>time.Date\<close> with its normalisation, the date parts of a time in a
  location, and locations as their list of zone transitions. Days count from January 1 of
  year 1, the zero \<open>Time\<close>.
\<close>

section \<open>Days and civil dates\<close>

definition is_leap :: "int \<Rightarrow> bool" where
  "is_leap y \<longleftrightarrow> 4 dvd y \<and> (\<not> 100 dvd y \<or> 400 dvd y)"

definition days_before_year :: "int \<Rightarrow> int" where
  "days_before_year y = 365 * (y - 1) + (y - 1) div 4 - (y - 1) div 100 + (y - 1) div 400"

definition days_before_month :: "int \<Rightarrow> int \<Rightarrow> int" where
  "days_before_month y m =
     [0, 31, 59, 90, 120, 151, 181, 212, 243, 273, 304, 334] ! nat (m - 1)
     + (if is_leap y \<and> 3 \<le> m then 1 else 0)"

definition month_len :: "int \<Rightarrow> int \<Rightarrow> int" where
  "month_len y m =
     [31, if is_leap y then 29 else 28, 31, 30, 31, 30, 31, 31, 30, 31, 30, 31] ! nat (m - 1)"

text \<open>\<open>time.Date\<close> normalises a month outside 1 to 12 into the year, and takes any day.\<close>

definition Date_days :: "int \<Rightarrow> int \<Rightarrow> int \<Rightarrow> int" where
  "Date_days year month day =
     (let m = month - 1; y = year + m div 12; m = m mod 12 + 1
      in days_before_year y + days_before_month y m + (day - 1))"

definition year_of :: "int \<Rightarrow> int" where
  "year_of d = (let y = (400 * d) div 146097 + 1 in
     if d < days_before_year y then y - 1
     else if days_before_year (y + 1) \<le> d then y + 1 else y)"

text \<open>The month of a day of the year, searched from December down.\<close>

fun month_scan :: "int \<Rightarrow> int \<Rightarrow> nat \<Rightarrow> int" where
  "month_scan y doy 0 = 1"
| "month_scan y doy (Suc n) =
     (if days_before_month y (int n + 2) \<le> doy then int n + 2 else month_scan y doy n)"

definition month_of :: "int \<Rightarrow> int" where
  "month_of d = (let y = year_of d in month_scan y (d - days_before_year y) 11)"

definition day_of :: "int \<Rightarrow> int" where
  "day_of d = d - days_before_year (year_of d) - days_before_month (year_of d) (month_of d) + 1"

lemma div_step: "0 < k \<Longrightarrow> (y::int) div k = (y - 1) div k + (if k dvd y then 1 else 0)"
proof -
  assume k: "0 < k"
  show ?thesis
  proof (cases "k dvd y")
    case True
    then obtain q where "y = k * q" by blast
    moreover have "(k * q - 1) div k = q - 1"
      using k by (intro int_div_pos_eq [of _ _ _ "k - 1"]) (simp_all add: algebra_simps)
    ultimately show ?thesis using k True by simp
  next
    case False
    then have "y mod k \<noteq> 0" by (simp add: dvd_eq_mod_eq_0)
    then have "(y - 1) div k = y div k"
      using k pos_mod_bound [OF k, of y] pos_mod_sign [OF k, of y] mult_div_mod_eq [of k y]
      by (intro int_div_pos_eq [of _ _ _ "y mod k - 1"]) linarith+
    then show ?thesis using False by simp
  qed
qed

lemma days_before_year_Suc:
  "days_before_year (y + 1) = days_before_year y + (if is_leap y then 366 else 365)"
proof -
  define a b c :: int where "a = (if 4 dvd y then 1 else 0)"
    and "b = (if 100 dvd y then 1 else 0)" and "c = (if 400 dvd y then 1 else 0)"
  have "y div 4 = (y - 1) div 4 + a" "y div 100 = (y - 1) div 100 + b" "y div 400 = (y - 1) div 400 + c"
    unfolding a_def b_def c_def by (simp_all only: div_step [symmetric] zero_less_numeral)
  then have "days_before_year (y + 1) = days_before_year y + 365 + a - b + c"
    by (simp add: days_before_year_def)
  moreover have "100 dvd y \<Longrightarrow> 4 dvd y" "400 dvd y \<Longrightarrow> 100 dvd y"
    by (rule dvd_trans [rotated], assumption, simp)+
  then have "a - b + c = (if is_leap y then 1 else 0)"
    by (cases "400 dvd y"; cases "100 dvd y"; cases "4 dvd y")
      (simp_all only: a_def b_def c_def is_leap_def simp_thms if_True if_False, simp_all)
  ultimately show ?thesis by (cases "is_leap y") simp_all
qed

lemma div_between:
  "4 * ((x::int) div 4) \<le> x" "x < 4 * (x div 4) + 4"
  "100 * (x div 100) \<le> x" "x < 100 * (x div 100) + 100"
  "400 * (x div 400) \<le> x" "x < 400 * (x div 400) + 400"
  by linarith+

text \<open>The count of leap days as a linear bound, the divisions abstracted.\<close>

lemma days_before_year_linear:
  "400 * days_before_year y \<le> 146097 * y - 145701"
  "146097 * y - 146796 \<le> 400 * days_before_year y"
proof -
  define a b c where "a = (y - 1) div 4" and "b = (y - 1) div 100" and "c = (y - 1) div 400"
  have f: "4 * a \<le> y - 1" "y - 1 < 4 * a + 4" "100 * b \<le> y - 1" "y - 1 < 100 * b + 100"
    "400 * c \<le> y - 1" "y - 1 < 400 * c + 400"
    using div_between [of "y - 1"] by (simp_all only: a_def b_def c_def)
  have g: "days_before_year y = 365 * y - 365 + a - b + c"
    by (simp add: days_before_year_def a_def b_def c_def)
  show "400 * days_before_year y \<le> 146097 * y - 145701" using f g by linarith
  show "146097 * y - 146796 \<le> 400 * days_before_year y" using f g by linarith
qed

lemma year_of_bounds: "days_before_year (year_of d) \<le> d \<and> d < days_before_year (year_of d + 1)"
proof -
  define z where "z = (400 * d) div 146097"
  have z: "146097 * z \<le> 400 * d" "400 * d < 146097 * z + 146097"
    unfolding z_def by linarith+
  have a: "days_before_year z \<le> d"
    using z days_before_year_linear(1) [of z] by linarith
  have b: "d < days_before_year (z + 3)"
    using z days_before_year_linear(2) [of "z + 3"] by (simp add: distrib_left)
  show ?thesis
    using a b unfolding year_of_def Let_def z_def [symmetric] by (auto simp: add.commute)
qed

lemma month_cases:
  assumes "1 \<le> m" "m \<le> (12::int)"
  shows "m = 1 \<or> m = 2 \<or> m = 3 \<or> m = 4 \<or> m = 5 \<or> m = 6
    \<or> m = 7 \<or> m = 8 \<or> m = 9 \<or> m = 10 \<or> m = 11 \<or> m = 12"
  using assms by presburger

lemma days_before_month_Suc:
  "1 \<le> m \<Longrightarrow> m \<le> 11 \<Longrightarrow> days_before_month y (m + 1) = days_before_month y m + month_len y m"
  by (drule month_cases [of m], simp, elim disjE)
    (simp_all add: days_before_month_def month_len_def)

lemma days_before_year_month:
  "days_before_year (y + 1) = days_before_year y + days_before_month y 12 + month_len y 12"
  by (simp add: days_before_year_Suc days_before_month_def month_len_def)

lemma month_len_bounds: "1 \<le> m \<Longrightarrow> m \<le> 12 \<Longrightarrow> 28 \<le> month_len y m \<and> month_len y m \<le> 31"
  by (drule month_cases [of m], simp, elim disjE) (simp_all add: month_len_def)

lemma month_scan_bounds:
  assumes "0 \<le> doy"
  shows "1 \<le> month_scan y doy n \<and> month_scan y doy n \<le> int n + 1 \<and>
         days_before_month y (month_scan y doy n) \<le> doy \<and>
         (month_scan y doy n \<le> int n \<longrightarrow> doy < days_before_month y (month_scan y doy n + 1))"
proof (induction n)
  case 0
  then show ?case using assms by (simp add: days_before_month_def)
next
  case (Suc n)
  show ?case
  proof (cases "days_before_month y (int n + 2) \<le> doy")
    case True
    then show ?thesis by simp
  next
    case False
    with Suc show ?thesis
      by (cases "month_scan y doy n = int n + 1") (simp_all add: add.commute)
  qed
qed

lemma month_of_bounds:
  "1 \<le> month_of d \<and> month_of d \<le> 12 \<and> 1 \<le> day_of d \<and> day_of d \<le> month_len (year_of d) (month_of d)"
proof -
  define y where "y = year_of d"
  define m where "m = month_of d"
  have y: "days_before_year y \<le> d" "d < days_before_year (y + 1)"
    using year_of_bounds [of d] by (simp_all add: y_def)
  have "month_of d = month_scan y (d - days_before_year y) 11"
    by (simp add: month_of_def y_def Let_def del: month_scan.simps)
  then have m: "1 \<le> m" "m \<le> 12" "days_before_month y m \<le> d - days_before_year y"
      "m \<le> 11 \<longrightarrow> d - days_before_year y < days_before_month y (m + 1)"
    using month_scan_bounds [of "d - days_before_year y" y 11] y(1) by (simp_all add: m_def)
  have "d - days_before_year y < days_before_month y m + month_len y m"
  proof (cases "m \<le> 11")
    case True
    then show ?thesis using m days_before_month_Suc [of m y] by simp
  next
    case False
    then have "m = 12" using m by simp
    then show ?thesis using y(2) days_before_year_month [of y] by simp
  qed
  with m show ?thesis by (simp add: day_of_def m_def [symmetric] y_def [symmetric])
qed

text \<open>The first day of the month of a day, and of the next month.\<close>

lemma Date_days_in:
  "1 \<le> m \<Longrightarrow> m \<le> 12 \<Longrightarrow> Date_days y m d = days_before_year y + days_before_month y m + (d - 1)"
  by (simp add: Date_days_def Let_def)

lemma Date_days_year: "Date_days (y + 1) m d = Date_days y (m + 12) d"
proof -
  have e: "m + 12 - 1 = (m - 1) + 12" by simp
  have "(m + 12 - 1) div 12 = (m - 1) div 12 + 1" "(m + 12 - 1) mod 12 = (m - 1) mod 12"
    unfolding e by (simp_all only: div_add_self2 mod_add_self2)
  then show ?thesis by (simp only: Date_days_def Let_def) (simp add: ac_simps)
qed

lemma Date_days_next:
  assumes "1 \<le> m" "m \<le> 12"
  shows "Date_days y (m + 1) d = Date_days y m d + month_len y m"
proof (cases "m = 12")
  case True
  then have "Date_days y (m + 1) d = Date_days (y + 1) 1 d"
    using Date_days_year [of y 1 d] by simp
  then show ?thesis
    using True days_before_year_month [of y] by (simp add: Date_days_in days_before_month_def)
next
  case False
  then show ?thesis using assms by (simp add: Date_days_in days_before_month_Suc)
qed

lemma Date_days_id: "Date_days (year_of d) (month_of d) (day_of d) = d"
  using month_of_bounds [of d] by (simp add: Date_days_in day_of_def)

lemma Date_days_shift: "Date_days y m d = Date_days y m 1 + (d - 1)"
  by (simp add: Date_days_def Let_def)

lemma Date_days_month_bounds:
  "Date_days (year_of d) (month_of d) 1 \<le> d \<and> d < Date_days (year_of d) (month_of d + 1) 1"
  using month_of_bounds [of d] Date_days_id [of d]
    Date_days_shift [of "year_of d" "month_of d" "day_of d"]
  by (simp add: Date_days_next)

text \<open>Reading the date back: the parts of a valid date are its own.\<close>

lemma days_before_year_mono: "y \<le> z \<Longrightarrow> days_before_year y \<le> days_before_year z"
proof (induction z rule: int_ge_induct)
  case (step i)
  then show ?case using days_before_year_Suc [of i] by (simp split: if_splits)
qed simp

lemma year_of_unique:
  assumes "days_before_year y \<le> d" and "d < days_before_year (y + 1)"
  shows "year_of d = y"
proof (rule antisym)
  show "year_of d \<le> y"
  proof (rule ccontr)
    assume "\<not> year_of d \<le> y"
    then have "days_before_year (y + 1) \<le> days_before_year (year_of d)"
      by (intro days_before_year_mono) simp
    then show False using assms year_of_bounds [of d] by linarith
  qed
  show "y \<le> year_of d"
  proof (rule ccontr)
    assume "\<not> y \<le> year_of d"
    then have "days_before_year (year_of d + 1) \<le> days_before_year y"
      by (intro days_before_year_mono) simp
    then show False using assms year_of_bounds [of d] by linarith
  qed
qed

lemma days_before_month_mono:
  assumes "1 \<le> m" "m \<le> k" "k \<le> 12"
  shows "days_before_month y m \<le> days_before_month y k"
proof -
  have "k \<le> 12 \<longrightarrow> days_before_month y m \<le> days_before_month y k"
    using assms(2)
  proof (induction k rule: int_ge_induct)
    case (step i)
    show ?case
    proof
      assume "i + 1 \<le> 12"
      then have "days_before_month y (i + 1) = days_before_month y i + month_len y i"
        using assms(1) step by (intro days_before_month_Suc) simp_all
      then show "days_before_month y m \<le> days_before_month y (i + 1)"
        using step \<open>i + 1 \<le> 12\<close> assms(1) month_len_bounds [of i y] by simp
    qed
  qed simp
  with assms(3) show ?thesis by simp
qed

lemma month_of_unique:
  assumes "1 \<le> m" "m \<le> 12" "year_of d = y"
    and "days_before_year y + days_before_month y m \<le> d"
    and "d < days_before_year y + days_before_month y m + month_len y m"
  shows "month_of d = m"
proof -
  let ?k = "month_of d"
  have k: "1 \<le> ?k" "?k \<le> 12"
    and lo: "days_before_year y + days_before_month y ?k \<le> d"
    and hi: "d < days_before_year y + days_before_month y ?k + month_len y ?k"
    using month_of_bounds [of d] assms(3) by (simp_all add: day_of_def)
  have "\<not> ?k < m"
  proof
    assume "?k < m"
    then have "days_before_month y (?k + 1) \<le> days_before_month y m"
      using k assms by (intro days_before_month_mono) simp_all
    then show False using days_before_month_Suc [of ?k y] \<open>?k < m\<close> k assms hi by simp
  qed
  moreover have "\<not> m < ?k"
  proof
    assume "m < ?k"
    then have "days_before_month y (m + 1) \<le> days_before_month y ?k"
      using k assms by (intro days_before_month_mono) simp_all
    then show False using days_before_month_Suc [of m y] \<open>m < ?k\<close> k assms lo by simp
  qed
  ultimately show ?thesis by simp
qed

lemma date_read_back:
  assumes "1 \<le> m" "m \<le> 12" "1 \<le> d" "d \<le> month_len y m"
  shows "year_of (Date_days y m d) = y" and "month_of (Date_days y m d) = m"
    and "day_of (Date_days y m d) = d"
proof -
  let ?D = "Date_days y m d"
  have D: "?D = days_before_year y + days_before_month y m + (d - 1)"
    using assms by (simp add: Date_days_in)
  have "days_before_month y 1 \<le> days_before_month y m" "days_before_month y m \<le> days_before_month y 12"
    using assms by (auto intro: days_before_month_mono)
  moreover have "days_before_month y m + month_len y m \<le> days_before_month y 12 + month_len y 12"
  proof (cases "m = 12")
    case False
    then have "days_before_month y (m + 1) \<le> days_before_month y 12"
      using assms by (intro days_before_month_mono) simp_all
    then show ?thesis
      using False assms days_before_month_Suc [of m y] month_len_bounds [of 12 y] by simp
  qed simp
  ultimately show y: "year_of ?D = y"
    using D assms days_before_year_month [of y]
    by (intro year_of_unique) (simp_all add: days_before_month_def)
  show "month_of ?D = m"
  proof (rule month_of_unique [OF assms(1,2) y])
    show "days_before_year y + days_before_month y m \<le> ?D" using D assms by linarith
    show "?D < days_before_year y + days_before_month y m + month_len y m" using D assms by linarith
  qed
  then show "day_of ?D = d" using D y by (simp add: day_of_def)
qed

section \<open>Locations\<close>

text \<open>
  A location is the list of its zone transitions, the Unix second each begins at with its
  offset, in increasing order; the first one holds from the beginning of time. \<open>lookup\<close>
  returns the offset in force and the bounds of the zone it is in force for.
\<close>

type_synonym Location = "(int \<times> int) list"

definition UTC :: Location where
  "UTC = [(minInt64, 0)]"

fun zone_lookup :: "Location \<Rightarrow> int \<Rightarrow> int \<times> int \<times> int" where
  "zone_lookup [] t = (0, minInt64, maxInt64)"
| "zone_lookup [(s, off)] t = (off, s, maxInt64)"
| "zone_lookup ((s, off) # (s', off') # zs) t =
     (if t < s' then (off, s, s') else zone_lookup ((s', off') # zs) t)"

definition zone_offset :: "Location \<Rightarrow> int \<Rightarrow> int" where
  "zone_offset loc t = fst (zone_lookup loc t)"

text \<open>Seconds from the zero \<open>Time\<close> to the Unix epoch.\<close>

abbreviation epoch_secs :: int where
  "epoch_secs \<equiv> 62135596800"

text \<open>\<open>time.Date(year, month, day, 0, 0, 0, 0, loc)\<close>\<close>

definition Date_at :: "int \<Rightarrow> int \<Rightarrow> int \<Rightarrow> Location \<Rightarrow> gotime" where
  "Date_at year month day loc =
     (let unix = Date_days year month day * 86400 - epoch_secs;
          (offset, start, end) = zone_lookup loc unix
      in if offset = 0 then time_Unix unix
         else let utc = unix - offset;
                  offset = (if utc < start \<or> end \<le> utc then zone_offset loc utc else offset)
              in time_Unix (unix - offset))"

text \<open>The civil day of a time in a location (\<open>t.In(loc)\<close> and its date parts).\<close>

definition local_day :: "Location \<Rightarrow> gotime \<Rightarrow> int" where
  "local_day loc t = (to_unix t + zone_offset loc (to_unix t) + epoch_secs) div 86400"

lemma before_time_Unix: "t < time_Unix u \<longleftrightarrow> to_unix t < u"
proof -
  have "to_unix t < u \<longleftrightarrow> t - unix_epoch < u * 1000000000"
    unfolding to_unix_def by (rule int_div_less_iff) simp
  then show ?thesis unfolding time_Unix_def by linarith
qed

section \<open>Zones whose changes leave midnight alone\<close>

text \<open>
  The clock on the wall, in seconds, and its day. A change of offset that skips midnight or strikes it twice leaves
  \<open>time.Date\<close> no such moment, or two; two changes within two days defeat its single correction. \<open>steady c\<close> says that
  neither happens from the second \<open>c\<close> on, as in every zone that changes at one, two or three in the morning twice a
  year; what the zone did before does not matter.
\<close>

definition wall_clock :: "Location \<Rightarrow> int \<Rightarrow> int" where
  "wall_clock loc t = t + zone_offset loc t + epoch_secs"

definition wall_day :: "Location \<Rightarrow> int \<Rightarrow> int" where
  "wall_day loc t = wall_clock loc t div 86400"

abbreviation day_secs :: int where
  "day_secs \<equiv> 86400"

fun steady :: "int \<Rightarrow> Location \<Rightarrow> bool" where
  "steady c [] = True"
| "steady c [(s, off)] = (\<bar>off\<bar> < day_secs)"
| "steady c ((s, off) # (s', off') # zs) =
     (\<bar>off\<bar> < day_secs \<and> s < s' \<and> (c < s \<longrightarrow> s + 2 * day_secs < s') \<and>
      (c < s' \<longrightarrow> (s' - 1 + off + epoch_secs) div day_secs = (s' - 1 + off' + epoch_secs) div day_secs) \<and>
      steady c ((s', off') # zs))"

lemma local_day_wall: "local_day loc t = wall_day loc (to_unix t)"
  by (simp add: local_day_def wall_day_def wall_clock_def)

text \<open>The zone found for one moment is in force for every moment of its interval.\<close>

lemma steady_zones:
  assumes "steady c ((s, off) # zs)" and "zone_lookup ((s, off) # zs) t = (a, lo, hi)"
  shows "s \<le> lo" and "lo \<le> u \<Longrightarrow> u < hi \<Longrightarrow> zone_offset ((s, off) # zs) u = a"
proof -
  have "s \<le> lo \<and> (\<forall>u. lo \<le> u \<longrightarrow> u < hi \<longrightarrow> zone_offset ((s, off) # zs) u = a)"
    using assms
  proof (induction zs arbitrary: s off)
    case Nil
    then show ?case by (simp add: zone_offset_def)
  next
    case (Cons z zs)
    obtain s' off' where z: "z = (s', off')" by fastforce
    show ?case
    proof (cases "t < s'")
      case True
      then show ?thesis using Cons.prems by (auto simp: z zone_offset_def)
    next
      case False
      then show ?thesis using Cons.IH [of s' off'] Cons.prems by (auto simp: z zone_offset_def)
    qed
  qed
  then show "s \<le> lo" and "lo \<le> u \<Longrightarrow> u < hi \<Longrightarrow> zone_offset ((s, off) # zs) u = a" by auto
qed

lemma steady_offset: "steady c loc \<Longrightarrow> \<bar>zone_offset loc t\<bar> < day_secs"
proof (induction c loc rule: steady.induct)
  case (3 c s off s' off' zs)
  then show ?case by (cases "t < s'") (simp_all add: zone_offset_def)
qed (simp_all add: zone_offset_def)

text \<open>What \<open>steady\<close> gives of the offset: it does not change between two moments, or there is one change between them.\<close>

lemma steady_change:
  assumes "steady c loc" and "c \<le> t"
  shows "(t + zone_offset loc t + epoch_secs) div day_secs = (t + zone_offset loc (t + 1) + epoch_secs) div day_secs"
  using assms
proof (induction c loc rule: steady.induct)
  case (3 c s off s' off' zs)
  consider "t + 1 < s'" | "t + 1 = s'" | "s' \<le> t" by linarith
  then show ?case
  proof cases
    case 2
    have first: "zone_offset ((s', off') # zs) s' = off'"
      using 3(2) by (cases zs) (auto simp: zone_offset_def)
    have eq: "zone_offset ((s, off) # (s', off') # zs) t = off" "zone_offset ((s, off) # (s', off') # zs) (t + 1) = off'"
      using 2 first by (simp_all add: zone_offset_def)
    have "t = s' - 1" using 2 by simp
    then show ?thesis unfolding eq using 3(2,3) by auto
  qed (use 3 in \<open>simp_all add: zone_offset_def\<close>)
qed (simp_all add: zone_offset_def)

text \<open>One change at most within two days: of three moments so close, the middle one has the offset of one of the others.\<close>

lemma zone_offset_tail: "s' \<le> t \<Longrightarrow> zone_offset ((s, off) # (s', off') # zs) t = zone_offset ((s', off') # zs) t"
  and zone_offset_head: "t < s' \<Longrightarrow> zone_offset ((s, off) # (s', off') # zs) t = off"
  by (simp_all add: zone_offset_def)

lemma steady_before: "steady c ((s, off) # zs) \<Longrightarrow> c < s \<Longrightarrow> t \<le> s + 2 * day_secs \<Longrightarrow> zone_offset ((s, off) # zs) t = off"
  by (cases zs) (auto simp: zone_offset_def)

lemma steady_close:
  assumes "steady c loc" and "c \<le> t" "t \<le> u" "u \<le> v" "v \<le> t + 2 * day_secs"
  shows "zone_offset loc u \<in> {zone_offset loc t, zone_offset loc v}"
  using assms
proof (induction c loc rule: steady.induct)
  case (3 c s off s' off' zs)
  consider "s' \<le> t" | "u < s'" "t < s'" | "t < s'" "s' \<le> u" by linarith
  then show ?case
  proof cases
    case 1
    then show ?thesis using 3 by (simp add: zone_offset_tail)
  next
    case 2
    then show ?thesis by (simp add: zone_offset_head)
  next
    case c: 3
    have "zone_offset ((s', off') # zs) x = off'" if "s' \<le> x" "x \<le> v" for x
      using 3(2-6) c that by (intro steady_before [of c]) auto
    then show ?thesis using 3(2-6) c by (simp add: zone_offset_tail)
  qed
qed (simp_all add: zone_offset_def)

text \<open>From \<open>c\<close> on the day on the wall never goes back, and a new day starts at its first second.\<close>

lemma steady_tick:
  assumes "steady c loc" and "c \<le> t"
  shows "wall_day loc (t + 1) = wall_day loc t \<or>
    wall_day loc (t + 1) = wall_day loc t + 1 \<and> wall_clock loc (t + 1) = wall_day loc (t + 1) * day_secs"
proof -
  have "(t + zone_offset loc (t + 1) + epoch_secs) div day_secs = wall_day loc t"
    using steady_change [OF assms] by (simp add: wall_day_def wall_clock_def)
  moreover have "wall_clock loc (t + 1) = t + zone_offset loc (t + 1) + epoch_secs + 1" by (simp add: wall_clock_def)
  ultimately show ?thesis unfolding wall_day_def by linarith
qed

lemma wall_day_mono:
  assumes "steady c loc" and "c \<le> t" and "t \<le> u"
  shows "wall_day loc t \<le> wall_day loc u"
  using assms(3)
proof (induction u rule: int_ge_induct)
  case (step i)
  then show ?case using steady_tick [OF assms(1), of i] assms(2) by auto
qed simp

text \<open>Every day after that of \<open>c\<close> begins at exactly one moment.\<close>

lemma day_begins:
  assumes "steady c loc" and "wall_day loc c < d"
  shows "\<exists>t > c. wall_clock loc t = d * day_secs \<and> (\<forall>u \<ge> c. u < t \<longleftrightarrow> wall_day loc u < d)"
proof -
  let ?u = "d * day_secs + day_secs + \<bar>c\<bar>"
  have off: "\<bar>zone_offset loc u\<bar> < day_secs" for u using steady_offset [OF assms(1)] .
  have "d \<le> wall_day loc u" if "d * day_secs - epoch_secs + day_secs \<le> u" for u
    using off [of u] that unfolding wall_day_def wall_clock_def by linarith
  then obtain n :: nat where n: "d \<le> wall_day loc (c + int n)"
    using that [of "nat (d * day_secs - epoch_secs + day_secs - c)"] by fastforce
  define k where "k = (LEAST n. d \<le> wall_day loc (c + int n))"
  have k: "d \<le> wall_day loc (c + int k)" unfolding k_def by (rule LeastI [of "\<lambda>n. d \<le> wall_day loc (c + int n)", OF n])
  have least: "wall_day loc (c + int j) < d" if "j < k" for j using not_less_Least [of j, folded k_def] that k_def by fastforce
  have "k \<noteq> 0" using k assms(2) by (cases k) auto
  then obtain j where j: "k = Suc j" by (cases k) auto
  then have lt: "wall_day loc (c + int j) < d" and eq: "c + int k = c + int j + 1" using least by simp_all
  have "wall_clock loc (c + int k) = d * day_secs"
    using steady_tick [OF assms(1), of "c + int j"] k lt unfolding eq by auto
  moreover have "u < c + int k \<longleftrightarrow> wall_day loc u < d" if "c \<le> u" for u
  proof
    assume "u < c + int k"
    then show "wall_day loc u < d" using least [of "nat (u - c)"] that by simp
  next
    assume "wall_day loc u < d"
    then show "u < c + int k" using wall_day_mono [OF assms(1), of "c + int k" u] k by (cases "u < c + int k") auto
  qed
  ultimately show ?thesis using j by (intro exI [of _ "c + int k"]) simp
qed


text \<open>\<open>time.Date\<close> finds it.\<close>

lemma Date_at_offset:
  fixes y m d
  assumes "steady c loc"
  defines "u \<equiv> Date_days y m d * day_secs - epoch_secs"
  shows "Date_at y m d loc = time_Unix (u - zone_offset loc (u - zone_offset loc u))"
proof (cases loc)
  case Nil
  then show ?thesis by (simp add: Date_at_def u_def zone_offset_def)
next
  case (Cons z zs)
  obtain s off where z: "z = (s, off)" by fastforce
  obtain a lo hi where l: "zone_lookup loc u = (a, lo, hi)" using prod_cases3 by blast
  have a: "zone_offset loc u = a" by (simp add: zone_offset_def l)
  have "zone_offset loc (u - a) = a" if "lo \<le> u - a" "u - a < hi"
    using steady_zones(2) [of c s off zs u a lo hi "u - a"] assms(1) l that by (simp add: Cons z)
  then have inside: "zone_offset loc (u - a) = a" if "\<not> (u - a < lo \<or> hi \<le> u - a)" using that by simp
  have "Date_at y m d loc = (if a = 0 then time_Unix u
      else time_Unix (u - (if u - a < lo \<or> hi \<le> u - a then zone_offset loc (u - a) else a)))"
    unfolding Date_at_def u_def [symmetric] by (simp add: l Let_def)
  also have "\<dots> = time_Unix (u - zone_offset loc (u - a))"
    using a inside by (cases "a = 0") auto
  finally show ?thesis by (simp only: a)
qed

lemma Date_at_begins:
  assumes "steady c loc" and "c + 2 * day_secs \<le> Date_days y m d * day_secs - epoch_secs"
  shows "\<exists>t > c. Date_at y m d loc = time_Unix t \<and> wall_clock loc t = Date_days y m d * day_secs \<and>
    (\<forall>u \<ge> c. u < t \<longleftrightarrow> wall_day loc u < Date_days y m d)"
proof -
  let ?f = "zone_offset loc" and ?D = "Date_days y m d"
  define M where "M = ?D * day_secs - epoch_secs"
  have off: "\<bar>?f v\<bar> < day_secs" for v using steady_offset [OF assms(1)] .
  have "wall_day loc c < ?D"
    using off [of c] assms(2) unfolding wall_day_def wall_clock_def by linarith
  from day_begins [OF assms(1) this] obtain t where t: "c < t" "wall_clock loc t = ?D * day_secs"
    "\<forall>u \<ge> c. u < t \<longleftrightarrow> wall_day loc u < ?D" by blast
  have tM: "t = M - ?f t" using t(2) by (simp add: wall_clock_def M_def)
  define u where "u = M - ?f M"
  have only: "v = t" if "c < v" "wall_clock loc v = ?D * day_secs" for v
  proof (rule ccontr)
    assume "v \<noteq> t"
    moreover have "\<not> wall_day loc v < ?D" using that(2) by (simp add: wall_day_def)
    moreover have "v < t \<longleftrightarrow> wall_day loc v < ?D" using t(3) that(1) by simp
    ultimately have "t \<le> v - 1" by linarith
    then have le: "c \<le> v - 1" "\<not> v - 1 < t" using t(1) by linarith+
    then have D: "?D \<le> wall_day loc (v - 1)" using t(3) by (simp add: not_less [symmetric])
    have same: "(v - 1 + ?f (v - 1) + epoch_secs) div day_secs = (v - 1 + ?f v + epoch_secs) div day_secs"
      using steady_change [OF assms(1) le(1)] by simp
    have "v - 1 + ?f v + epoch_secs = ?D * day_secs - 1" using that(2) by (simp add: wall_clock_def)
    then have "wall_day loc (v - 1) = (?D * day_secs - 1) div day_secs" using same by (simp add: wall_day_def wall_clock_def)
    then show False using D by linarith
  qed
  have near: "c \<le> x \<and> M - day_secs \<le> x \<and> x \<le> M + day_secs" if "x \<in> {M, t, u}" for x
    using that tM off [of t] off [of M] assms(2) by (auto simp: M_def u_def)
  have close: "?f x \<in> {?f v, ?f w}" if "v \<le> x" "x \<le> w" "v \<in> {M, t, u}" "w \<in> {M, t, u}" for v x w
    using near [OF that(3)] near [OF that(4)] by (intro steady_close [OF assms(1) _ that(1,2)]) linarith+
  have "?f u = ?f M \<or> ?f u = ?f t \<or> ?f M = ?f t"
  proof -
    consider "M \<le> u" "u \<le> t" | "t \<le> u" "u \<le> M" | "u \<le> M" "M \<le> t" | "t \<le> M" "M \<le> u"
      | "u \<le> t" "t \<le> M" | "M \<le> t" "t \<le> u" by linarith
    then show ?thesis by cases (drule (1) close; auto)+
  qed
  moreover have "?f u = ?f t" if "?f u = ?f M"
  proof -
    have "wall_clock loc u = ?D * day_secs" using that by (simp add: wall_clock_def M_def u_def)
    moreover have "c < u" using off [of M] assms(2) by (simp add: M_def u_def)
    ultimately show ?thesis using only by simp
  qed
  moreover have "u = t" if "?f M = ?f t" using tM that by (simp add: u_def)
  ultimately have "?f u = ?f t" by auto
  then have "?f (M - ?f M) = ?f t" by (simp add: u_def)
  then have "Date_at y m d loc = time_Unix t"
    using Date_at_offset [OF assms(1), of y m d] tM by (simp add: M_def [symmetric])
  then show ?thesis using t by blast
qed

end
