(* ===== verification/QuotaPolicy.thy ===== *)
theory QuotaPolicy
  imports Config Calendar
begin

text \<open>
  Metering and quota policy (\<open>src/internal/quota/quota.go\<close>): what the carrier will bill for a
  count of payload bytes and packets, the billing period a moment falls in, and whether a
  metered path may carry traffic. The time zone database is a parameter: \<open>tz\<close> is
  \<open>time.LoadLocation\<close>, \<open>None\<close> for a name it cannot load. The human-readable reason of a
  block is kept as the data it is printed from.
\<close>

section \<open>Metering\<close>

definition MaxOverheadPerPacket :: int where "MaxOverheadPerPacket = 65535"
definition MaxCalibration :: float64 where "MaxCalibration = Fin 1000"
definition MinCalibration :: float64 where "MinCalibration = Fin 10"

text \<open>Go's \<open>*\<close> and \<open>/\<close> on \<open>int64\<close> wrap; so does \<open>MinInt64 / -1\<close>.\<close>

definition saturatingMul :: "int \<Rightarrow> int \<Rightarrow> int" where
  "saturatingMul a b =
     (if a = 0 \<or> b = 0 then 0
      else let c = wrap64 (a * b) in
        if wrap64 (go_div c b) \<noteq> a \<or> (a = minInt64 \<and> b = -1)
        then (if (a > 0) = (b > 0) then maxInt64 else minInt64)
        else c)"

definition saturatingAdd :: "int \<Rightarrow> int \<Rightarrow> int" where
  "saturatingAdd a b =
     (if b > 0 \<and> a > wrap64 (maxInt64 - b) then maxInt64
      else if b < 0 \<and> a < wrap64 (minInt64 - b) then minInt64
      else wrap64 (a + b))"

definition cal_of :: "float64 \<Rightarrow> float64" where
  "cal_of cal = (if cal = NaN \<or> flt cal MinCalibration \<or> fgt cal MaxCalibration then Fin 100 else cal)"

definition Metered :: "int \<Rightarrow> int \<Rightarrow> Quota \<Rightarrow> int" where
  "Metered bytes packets q =
     (let overhead = q_OverheadPerPacket q;
          overhead = (if overhead < 0 then 0
                      else if overhead > MaxOverheadPerPacket then MaxOverheadPerPacket else overhead);
          bytes = (if bytes < 0 then 0 else bytes);
          packets = (if packets < 0 then 0 else packets);
          cal = cal_of (q_Calibration q);
          total = saturatingAdd bytes (saturatingMul packets overhead);
          scaled = fdiv (fmul (f_of_int total) cal) (Fin 100)
      in if fge scaled (Fin 9223372036854775808) then maxInt64 else int64_of scaled)"

section \<open>Billing periods\<close>

definition Location_of :: "(string \<Rightarrow> Location option) \<Rightarrow> Quota \<Rightarrow> Location" where
  "Location_of tz q =
     (if q_Timezone q = '''' then UTC
      else case tz (q_Timezone q) of None \<Rightarrow> UTC | Some loc \<Rightarrow> loc)"

definition daysIn :: "int \<Rightarrow> int \<Rightarrow> int" where
  "daysIn year month = day_of (Date_days year (month + 1) 0)"

definition reset_boundary :: "int \<Rightarrow> Location \<Rightarrow> int \<Rightarrow> int \<Rightarrow> gotime" where
  "reset_boundary day loc year month =
     (let d = day; d = (if d > daysIn year month then daysIn year month else d)
      in Date_at year month d loc)"

text \<open>A nil location (\<open>None\<close>) is answered as UTC.\<close>

definition PeriodBoundsIn :: "int \<Rightarrow> Location option \<Rightarrow> gotime \<Rightarrow> gotime \<times> gotime" where
  "PeriodBoundsIn day oloc now =
     (let loc = (case oloc of None \<Rightarrow> UTC | Some l \<Rightarrow> l);
          n = local_day loc now;
          day = (if day < 1 then 1 else day);
          day = (if day > 31 then 31 else day);
          start = reset_boundary day loc (year_of n) (month_of n);
          start = (if now < start
                   then if month_of n = 1 then reset_boundary day loc (year_of n - 1) 12
                        else reset_boundary day loc (year_of n) (month_of n - 1)
                   else start);
          s = local_day loc start;
          end = (if month_of s = 12 then reset_boundary day loc (year_of s + 1) 1
                 else reset_boundary day loc (year_of s) (month_of s + 1))
      in (start, end))"

definition PeriodBounds :: "(string \<Rightarrow> Location option) \<Rightarrow> Quota \<Rightarrow> gotime \<Rightarrow> gotime \<times> gotime" where
  "PeriodBounds tz q now = PeriodBoundsIn (q_ResetDay q) (Some (Location_of tz q)) now"

section \<open>The decision\<close>

record Grant =
  g_PathID :: int
  g_Until :: int
  g_ExtraBytes :: int
  g_StartBytes :: int

datatype quota_reason =
    NoReason
  | CeilingReached int int
  | OverMonthly int int gotime

record Decision =
  d_Blocked :: bool
  d_Reason :: quota_reason
  d_Used :: int
  d_Limit :: int
  d_PeriodStart :: gotime
  d_PeriodEnd :: gotime
  d_GrantUntil :: gotime
  d_GrantBytes :: int
  d_OverQuota :: bool

definition zero_decision :: Decision where
  "zero_decision = \<lparr>d_Blocked = False, d_Reason = NoReason, d_Used = 0, d_Limit = 0,
     d_PeriodStart = 0, d_PeriodEnd = 0, d_GrantUntil = 0, d_GrantBytes = 0, d_OverQuota = False\<rparr>"

text \<open>\<open>hasGrant\<close> and \<open>grant\<close> together are the option \<open>og\<close>.\<close>

definition Evaluate ::
    "(string \<Rightarrow> Location option) \<Rightarrow> PathConfig \<Rightarrow> int \<Rightarrow> Grant option \<Rightarrow> gotime \<Rightarrow> Decision" where
  "Evaluate tz p used og now =
     (let (start, end) = PeriodBounds tz (p_Quota p) now;
          limit = q_LimitBytes (p_Quota p);
          d = zero_decision\<lparr>d_Used := used, d_Limit := limit, d_PeriodStart := start, d_PeriodEnd := end\<rparr>
      in if \<not> p_Metered p \<or> limit \<le> 0 then d
         else
           let d = d\<lparr>d_OverQuota := used \<ge> limit\<rparr>;
               ceiling = q_CeilingBytes (p_Quota p)
           in if ceiling > 0 \<and> used \<ge> ceiling
              then d\<lparr>d_Blocked := True, d_Reason := CeilingReached used ceiling\<rparr>
              else if \<not> d_OverQuota d then d
              else
                let blocked = (\<lambda>d. d\<lparr>d_Blocked := True, d_Reason := OverMonthly used limit end\<rparr>)
                in case og of
                     None \<Rightarrow> blocked d
                   | Some g \<Rightarrow>
                       let until = time_Unix (g_Until g);
                           d = d\<lparr>d_GrantUntil := until, d_GrantBytes := g_ExtraBytes g\<rparr>;
                           expired = (\<not> now < until);
                           exhausted = (g_ExtraBytes g > 0 \<and>
                                        used \<ge> wrap64 (g_StartBytes g + g_ExtraBytes g))
                       in if \<not> expired \<and> \<not> exhausted then d else blocked d)"

section \<open>Saturating arithmetic\<close>

definition sat64 :: "int \<Rightarrow> int" where
  "sat64 x = max minInt64 (min maxInt64 x)"

lemma saturatingAdd_sat:
  assumes "in_int64 a" and "in_int64 b"
  shows "saturatingAdd a b = sat64 (a + b)"
proof -
  have "b > 0 \<Longrightarrow> wrap64 (maxInt64 - b) = maxInt64 - b"
    and "b < 0 \<Longrightarrow> wrap64 (minInt64 - b) = minInt64 - b"
    using assms by (auto intro!: wrap64_id simp: go_arith)
  moreover have "in_int64 (a + b) \<Longrightarrow> wrap64 (a + b) = a + b" by (rule wrap64_id)
  ultimately show ?thesis
    using assms by (auto simp: saturatingAdd_def sat64_def go_arith)
qed

text \<open>Truncating division leaves a remainder smaller than the divisor.\<close>

lemma go_div_remainder:
  assumes "b \<noteq> 0"
  shows "\<bar>c - go_div c b * b\<bar> < \<bar>b\<bar>"
proof -
  have "c - go_div c b * b = sgn c * (\<bar>c\<bar> mod \<bar>b\<bar>)"
  proof -
    have "\<bar>c\<bar> = (\<bar>c\<bar> div \<bar>b\<bar>) * \<bar>b\<bar> + \<bar>c\<bar> mod \<bar>b\<bar>" by simp
    then have "sgn c * \<bar>c\<bar> = sgn c * ((\<bar>c\<bar> div \<bar>b\<bar>) * \<bar>b\<bar>) + sgn c * (\<bar>c\<bar> mod \<bar>b\<bar>)"
      by (metis distrib_left)
    moreover have "sgn c * \<bar>c\<bar> = c" by (rule sgn_mult_abs)
    moreover have "\<bar>b\<bar> = sgn b * b" by (simp add: abs_sgn mult.commute)
    ultimately show ?thesis unfolding go_div_def by (simp add: ac_simps)
  qed
  then have "\<bar>c - go_div c b * b\<bar> \<le> \<bar>c\<bar> mod \<bar>b\<bar>"
    using assms by (simp add: abs_mult abs_sgn_eq)
  also have "\<dots> < \<bar>b\<bar>" using assms by simp
  finally show ?thesis .
qed

lemma go_div_exact: "b \<noteq> 0 \<Longrightarrow> go_div (a * b) b = a"
  by (simp add: go_div_def abs_mult sgn_mult mult.assoc) (metis abs_mult_sgn mult.commute sgn_mult_self_eq mult.assoc mult_1_right sgn_eq_0_iff)

lemma go_div_bound: "\<bar>go_div c b\<bar> \<le> \<bar>c\<bar>"
proof -
  have "\<bar>c\<bar> div \<bar>b\<bar> \<le> \<bar>c\<bar>"
    using zdiv_mono2 [of "\<bar>c\<bar>" 1 "\<bar>b\<bar>"] by (cases "b = 0") simp_all
  moreover have "0 \<le> \<bar>c\<bar> div \<bar>b\<bar>" by (simp add: div_int_pos_iff)
  ultimately show ?thesis by (auto simp: go_div_def abs_mult abs_sgn_eq)
qed

text \<open>The overflow test of \<open>saturatingMul\<close> misses no overflow.\<close>

lemma mul_overflow_detected:
  assumes a: "in_int64 a" and b: "in_int64 b" and b0: "b \<noteq> 0"
    and eq: "wrap64 (go_div (wrap64 (a * b)) b) = a" and nospecial: "\<not> (a = minInt64 \<and> b = -1)"
  shows "in_int64 (a * b)"
proof -
  let ?c = "wrap64 (a * b)"
  have c: "in_int64 ?c" by simp
  have d: "in_int64 (go_div ?c b)"
  proof (rule ccontr)
    assume n: "\<not> in_int64 (go_div ?c b)"
    have le: "\<bar>go_div ?c b\<bar> \<le> 9223372036854775808"
      using go_div_bound [of ?c b] c by (auto simp: go_arith)
    with n have g: "go_div ?c b = 9223372036854775808" by (auto simp: go_arith)
    then have "a = minInt64" using eq by (simp add: wrap64_def minInt64_def)
    moreover have "\<bar>?c - 9223372036854775808 * b\<bar> < \<bar>b\<bar>"
      using go_div_remainder [OF b0, of ?c] g by simp
    then have "b = -1" using c b0 by (auto simp: go_arith)
    ultimately show False using nospecial by simp
  qed
  then have "go_div ?c b = a" using eq by (simp add: wrap64_id)
  then have "\<bar>?c - a * b\<bar> < \<bar>b\<bar>" using go_div_remainder [OF b0, of ?c] by simp
  then have small: "\<bar>?c - a * b\<bar> < 18446744073709551616" using b by (auto simp: go_arith)
  have "(?c - a * b) mod 18446744073709551616 = 0"
    using wrap64_cong [of "a * b"] by (simp add: mod_diff_cong)
  then obtain k where "?c - a * b = 18446744073709551616 * k" by (metis mod_0_imp_dvd dvdE)
  with small have "?c = a * b" by (cases "k = 0") auto
  with c show ?thesis by simp
qed

lemma saturatingMul_sat:
  assumes a: "in_int64 a" and b: "in_int64 b"
  shows "saturatingMul a b = sat64 (a * b)"
proof (cases "a = 0 \<or> b = 0")
  case True
  then show ?thesis by (auto simp: saturatingMul_def sat64_def go_arith)
next
  case False
  show ?thesis
  proof (cases "in_int64 (a * b)")
    case True
    then have "\<not> (a = minInt64 \<and> b = -1)" by (auto simp: go_arith)
    moreover have "wrap64 (a * b) = a * b" "wrap64 a = a" using True a by (simp_all add: wrap64_id)
    moreover have "go_div (a * b) b = a" using False by (simp add: go_div_exact)
    moreover have "sat64 (a * b) = a * b" using True by (simp add: sat64_def in_int64_def)
    ultimately show ?thesis using False by (simp only: saturatingMul_def Let_def) auto
  next
    case over: False
    have "wrap64 (go_div (wrap64 (a * b)) b) \<noteq> a \<or> (a = minInt64 \<and> b = -1)"
      using mul_overflow_detected [OF a b] False over by blast
    moreover have "(a > 0) = (b > 0) \<Longrightarrow> 0 < a * b" "(a > 0) \<noteq> (b > 0) \<Longrightarrow> a * b < 0"
      using False by (auto simp: zero_less_mult_iff mult_less_0_iff)
    moreover have "0 < a * b \<Longrightarrow> sat64 (a * b) = maxInt64" "a * b < 0 \<Longrightarrow> sat64 (a * b) = minInt64"
      using over by (simp_all add: sat64_def in_int64_def minInt64_def maxInt64_def)
    ultimately show ?thesis using False by (simp only: saturatingMul_def Let_def) auto
  qed
qed

section \<open>What is billed\<close>

definition clamp_overhead :: "int \<Rightarrow> int" where
  "clamp_overhead n = max 0 (min 65535 n)"

definition billed_total :: "int \<Rightarrow> int \<Rightarrow> Quota \<Rightarrow> int" where
  "billed_total bytes packets q =
     min maxInt64 (max 0 bytes + max 0 packets * clamp_overhead (q_OverheadPerPacket q))"

lemma cal_of_range: "\<exists>c. cal_of cal = Fin c \<and> 10 \<le> c \<and> c \<le> 1000"
  by (cases cal) (auto simp: cal_of_def MinCalibration_def MaxCalibration_def fgt_def)

definition bill :: "float64 \<Rightarrow> int \<Rightarrow> int" where
  "bill cal tot =
     (let scaled = fdiv (fmul (f_of_int tot) cal) (Fin 100)
      in if fge scaled (Fin 9223372036854775808) then maxInt64 else int64_of scaled)"

lemma Metered_bill:
  assumes "in_int64 bytes" and "in_int64 packets"
  shows "Metered bytes packets q = bill (cal_of (q_Calibration q)) (billed_total bytes packets q)"
proof -
  let ?o = "clamp_overhead (q_OverheadPerPacket q)"
  have o: "(if q_OverheadPerPacket q < 0 then 0
      else if q_OverheadPerPacket q > MaxOverheadPerPacket then MaxOverheadPerPacket
      else q_OverheadPerPacket q) = ?o"
    by (simp add: clamp_overhead_def MaxOverheadPerPacket_def)
  have bnd: "0 \<le> ?o" "in_int64 ?o" "in_int64 (max 0 bytes)" "in_int64 (max 0 packets)"
    using assms by (auto simp: clamp_overhead_def go_arith)
  have m: "saturatingMul (max 0 packets) ?o = sat64 (max 0 packets * ?o)"
    by (rule saturatingMul_sat) (use bnd in auto)
  have pos: "0 \<le> max 0 packets * ?o" using bnd by simp
  then have s: "in_int64 (sat64 (max 0 packets * ?o))" "0 \<le> sat64 (max 0 packets * ?o)"
    by (auto simp: sat64_def go_arith)
  have "saturatingAdd (max 0 bytes) (sat64 (max 0 packets * ?o))
      = sat64 (max 0 bytes + sat64 (max 0 packets * ?o))"
    by (rule saturatingAdd_sat) (use bnd s in auto)
  also have "\<dots> = billed_total bytes packets q"
  proof -
    define x where "x = max 0 packets * ?o"
    show ?thesis using pos unfolding billed_total_def x_def [symmetric] by (auto simp: sat64_def go_arith)
  qed
  finally have t: "saturatingAdd (max 0 bytes) (saturatingMul (max 0 packets) ?o)
      = billed_total bytes packets q" by (simp only: m)
  have "(if bytes < 0 then 0 else bytes) = max 0 bytes" "(if packets < 0 then 0 else packets) = max 0 packets"
    by auto
  then show ?thesis unfolding Metered_def bill_def Let_def o by (simp only: t)
qed

lemma billed_total_range: "0 \<le> billed_total b p q \<and> billed_total b p q \<le> maxInt64"
  by (simp add: billed_total_def clamp_overhead_def maxInt64_def)

lemma billed_total_mono:
  "b \<le> b' \<Longrightarrow> p \<le> p' \<Longrightarrow> billed_total b p q \<le> billed_total b' p' q"
  unfolding billed_total_def clamp_overhead_def
  by (intro min.mono add_mono mult_right_mono order_refl) auto

text \<open>The scaled figure of a non-negative total is a finite non-negative float.\<close>

definition scaled_rat :: "rat \<Rightarrow> int \<Rightarrow> rat" where
  "scaled_rat c n = rnd64 (rnd64 (rnd64 (of_int n) * c) / 100)"

lemma scaled_fin:
  assumes "0 \<le> n" and "n \<le> maxInt64" and "0 \<le> c" and "c \<le> 1000"
  shows "fdiv (fmul (f_of_int n) (Fin c)) (Fin 100) = Fin (scaled_rat c n)"
proof -
  have "(of_int n :: rat) \<le> of_int (2 ^ 63)" using assms(2)
    by (simp only: of_int_le_iff) (simp add: maxInt64_def)
  then have n: "0 \<le> (of_int n :: rat)" "(of_int n :: rat) \<le> 2 ^ 63" using assms(1) by simp_all
  have 1: "0 \<le> rnd64 (of_int n)" "rnd64 (of_int n) \<le> 2 ^ 63"
    using n by (blast intro: rnd64_nonneg rnd64_le_pow2)+
  have "rnd64 (of_int n) * c \<le> 2 ^ 63 * 2 ^ 10"
    using 1 assms by (intro mult_mono) simp_all
  then have 2: "0 \<le> rnd64 (of_int n) * c" "rnd64 (of_int n) * c \<le> 2 ^ 73"
    using 1 assms by simp_all
  then have 3: "0 \<le> rnd64 (rnd64 (of_int n) * c)" "rnd64 (rnd64 (of_int n) * c) \<le> 2 ^ 73"
    by (blast intro: rnd64_nonneg rnd64_le_pow2)+
  then have 4: "0 \<le> rnd64 (rnd64 (of_int n) * c) / 100" "rnd64 (rnd64 (of_int n) * c) / 100 \<le> 2 ^ 73"
    by simp_all
  show ?thesis
    using f64_fin [OF n] f64_fin [OF 2] f64_fin [OF 4] by (simp add: f_of_int_def scaled_rat_def)
qed

lemma scaled_rat_mono: "0 \<le> c \<Longrightarrow> n \<le> m \<Longrightarrow> scaled_rat c n \<le> scaled_rat c m"
  unfolding scaled_rat_def
  by (intro rnd64_mono divide_right_mono mult_right_mono) simp_all

lemma scaled_rat_nonneg: "0 \<le> c \<Longrightarrow> 0 \<le> n \<Longrightarrow> 0 \<le> scaled_rat c n"
  unfolding scaled_rat_def by (intro rnd64_nonneg divide_nonneg_nonneg mult_nonneg_nonneg) simp_all

lemma bill_eq:
  assumes "0 \<le> n" and "n \<le> maxInt64" and "0 \<le> c" and "c \<le> 1000"
  shows "bill (Fin c) n = min maxInt64 \<lfloor>scaled_rat c n\<rfloor>"
proof -
  have nn: "0 \<le> scaled_rat c n" using assms by (simp add: scaled_rat_nonneg)
  have f: "9223372036854775808 \<le> scaled_rat c n \<longleftrightarrow> 9223372036854775808 \<le> \<lfloor>scaled_rat c n\<rfloor>"
    by (simp add: le_floor_iff)
  have nf: "0 \<le> \<lfloor>scaled_rat c n\<rfloor>" using nn by simp
  have b: "bill (Fin c) n = (if 9223372036854775808 \<le> scaled_rat c n then maxInt64
      else if in_int64 \<lfloor>scaled_rat c n\<rfloor> then \<lfloor>scaled_rat c n\<rfloor> else minInt64)"
    using nn scaled_fin [OF assms] by (auto simp: bill_def Let_def fge_def int64_of_def rat_trunc_def)
  show ?thesis
  proof (cases "9223372036854775808 \<le> scaled_rat c n")
    case True
    then show ?thesis using b f by (simp only: if_True) (simp add: maxInt64_def)
  next
    case False
    then have "\<lfloor>scaled_rat c n\<rfloor> \<le> maxInt64" using f unfolding maxInt64_def by linarith
    then show ?thesis using False b nf by (simp only: if_False) (simp add: in_int64_def minInt64_def)
  qed
qed

lemma scaled_rat_neutral:
  assumes "0 \<le> n" and "n * 100 < 2 ^ 53"
  shows "scaled_rat 100 n = of_int n"
proof -
  have "rnd64 (of_int n) = of_int n" using assms by (intro rnd64_int) simp
  moreover have "rnd64 (of_int (n * 100)) = of_int (n * 100)" using assms by (intro rnd64_int) simp
  ultimately show ?thesis by (simp add: scaled_rat_def)
qed

section \<open>Days in a month and reset boundaries\<close>

lemma daysIn_month_len: "1 \<le> m \<Longrightarrow> m \<le> 12 \<Longrightarrow> daysIn y m = month_len y m"
proof -
  assume m: "1 \<le> m" "m \<le> 12"
  have "Date_days y (m + 1) 0 = Date_days y m (month_len y m)"
    using Date_days_next [OF m, of y 0] Date_days_shift [of y m 0] Date_days_shift [of y m "month_len y m"]
    by simp
  then show ?thesis
    using date_read_back(3) [OF m, of "month_len y m" y] month_len_bounds [OF m, of y]
    by (simp add: daysIn_def)
qed

definition reset_day :: "int \<Rightarrow> int \<Rightarrow> int \<Rightarrow> int" where
  "reset_day day y m = Date_days y m (min day (month_len y m))"

lemma reset_boundary_Date:
  "1 \<le> m \<Longrightarrow> m \<le> 12 \<Longrightarrow>
   reset_boundary day loc y m = Date_at y m (min day (month_len y m)) loc"
  by (simp add: reset_boundary_def Let_def daysIn_month_len min_def)

lemma reset_day_read:
  assumes "1 \<le> m" "m \<le> 12" "1 \<le> day"
  shows "year_of (reset_day day y m) = y" "month_of (reset_day day y m) = m"
  unfolding reset_day_def using assms month_len_bounds [of m y]
  by (auto intro!: date_read_back)

lemma reset_day_in_month:
  assumes "1 \<le> m" "m \<le> 12" "1 \<le> day"
  shows "Date_days y m 1 \<le> reset_day day y m" "reset_day day y m < Date_days y (m + 1) 1"
  unfolding reset_day_def
  using assms month_len_bounds [of m y] Date_days_next [of m y 1]
    Date_days_shift [of y m "min day (month_len y m)"]
  by simp_all

text \<open>The month after and the month before.\<close>

definition next_month :: "int \<Rightarrow> int \<Rightarrow> int \<times> int" where
  "next_month y m = (if m = 12 then (y + 1, 1) else (y, m + 1))"

definition prev_month :: "int \<Rightarrow> int \<Rightarrow> int \<times> int" where
  "prev_month y m = (if m = 1 then (y - 1, 12) else (y, m - 1))"

lemma next_month_Date:
  "1 \<le> m \<Longrightarrow> m \<le> 12 \<Longrightarrow> next_month y m = (y', m') \<Longrightarrow>
   1 \<le> m' \<and> m' \<le> 12 \<and> Date_days y' m' d = Date_days y (m + 1) d"
  using Date_days_year [of y 1 d] by (auto simp: next_month_def split: if_splits)

lemma prev_next_month: "1 \<le> m \<Longrightarrow> m \<le> 12 \<Longrightarrow> prev_month y m = (y', m') \<Longrightarrow>
   1 \<le> m' \<and> m' \<le> 12 \<and> next_month y' m' = (y, m)"
  by (auto simp: next_month_def prev_month_def split: if_splits)

text \<open>The reset boundaries of consecutive months increase.\<close>

lemma reset_day_next:
  assumes "1 \<le> m" "m \<le> 12" "1 \<le> day" "next_month y m = (y', m')"
  shows "reset_day day y m < reset_day day y' m'"
    and "Date_days y (m + 1) 1 \<le> reset_day day y' m'"
  using reset_day_in_month [of m day y] reset_day_in_month [of m' day y']
    next_month_Date [OF assms(1,2,4), of 1] assms by linarith+

definition clamp_day :: "int \<Rightarrow> int" where
  "clamp_day day = max 1 (min 31 day)"

text \<open>In a steady zone the days reset on begin where \<open>time.Date\<close> says, and a moment is before that exactly if its local
  day is.\<close>

lemma Date_at_steady:
  assumes "steady c loc" and "c + 66 * day_secs \<le> to_unix now" and "local_day loc now - 62 \<le> Date_days y m d"
  shows "now < Date_at y m d loc \<longleftrightarrow> local_day loc now < Date_days y m d"
    and "local_day loc (Date_at y m d loc) = Date_days y m d"
    and "wall_clock loc (to_unix (Date_at y m d loc)) = Date_days y m d * day_secs"
proof -
  have "c + 2 * day_secs \<le> Date_days y m d * day_secs - epoch_secs"
    using steady_offset [OF assms(1), of "to_unix now"] assms(2,3)
    unfolding local_day_wall wall_day_def wall_clock_def by linarith
  from Date_at_begins [OF assms(1) this] obtain t where t: "Date_at y m d loc = time_Unix t"
    "wall_clock loc t = Date_days y m d * day_secs" "\<forall>u \<ge> c. u < t \<longleftrightarrow> wall_day loc u < Date_days y m d" by blast
  show "now < Date_at y m d loc \<longleftrightarrow> local_day loc now < Date_days y m d"
    using t(3) assms(2) by (simp add: t(1) before_time_Unix local_day_wall)
  show "local_day loc (Date_at y m d loc) = Date_days y m d"
    using t(2) by (simp add: t(1) local_day_wall wall_day_def)
  show "wall_clock loc (to_unix (Date_at y m d loc)) = Date_days y m d * day_secs" using t(2) by (simp add: t(1))
qed

text \<open>The month of a day and the one before it reset within 62 days of it.\<close>

lemma reset_day_near:
  assumes "1 \<le> rd" and "(y, m) = (year_of n, month_of n) \<or> prev_month (year_of n) (month_of n) = (y, m)"
  shows "1 \<le> m \<and> m \<le> 12 \<and> n - 62 \<le> reset_day rd y m"
  using assms(2)
proof
  assume "(y, m) = (year_of n, month_of n)"
  then have m: "1 \<le> m" "m \<le> 12" and e: "y = year_of n" "m = month_of n" using month_of_bounds [of n] by auto
  then show ?thesis using reset_day_in_month(1) [OF m assms(1), of y] Date_days_month_bounds [of n]
      Date_days_next [OF m, of y 1] month_len_bounds [OF m, of y] by (simp add: e)
next
  assume p: "prev_month (year_of n) (month_of n) = (y, m)"
  have n: "1 \<le> month_of n" "month_of n \<le> 12" using month_of_bounds by simp_all
  note m = prev_next_month [OF n p]
  have "Date_days (year_of n) (month_of n) 1 = Date_days y m 1 + month_len y m"
    using next_month_Date [of m y _ _ 1] m Date_days_next [of m y 1] by metis
  then show ?thesis using m reset_day_in_month(1) [of m rd y] assms(1) Date_days_month_bounds [of n] month_len_bounds [of m y]
      Date_days_next [OF n, of "year_of n" 1] month_len_bounds [OF n, of "year_of n"] by auto
qed

text \<open>So the whole computation is on local days.\<close>

lemma PeriodBoundsIn_steady:
  fixes loc now day
  assumes st: "steady c loc" "c + 66 * day_secs \<le> to_unix now"
  defines "n \<equiv> local_day loc now" and "rd \<equiv> clamp_day day"
  defines "ym \<equiv> (if n < reset_day rd (year_of n) (month_of n)
                then prev_month (year_of n) (month_of n) else (year_of n, month_of n))"
  defines "nx \<equiv> next_month (fst ym) (snd ym)"
  shows "PeriodBoundsIn day (Some loc) now =
           (Date_at (fst ym) (snd ym) (min rd (month_len (fst ym) (snd ym))) loc,
            Date_at (fst nx) (snd nx) (min rd (month_len (fst nx) (snd nx))) loc)"
proof -
  have rd: "1 \<le> rd" "(if (if day < 1 then 1 else day) > 31 then 31 else (if day < 1 then 1 else day)) = rd"
    by (simp_all add: rd_def clamp_day_def)
  have m: "1 \<le> month_of n" "month_of n \<le> 12" using month_of_bounds by simp_all
  note begins = Date_at_steady [OF st, folded n_def]
  have lt: "now < reset_boundary rd loc (year_of n) (month_of n) \<longleftrightarrow>
      n < reset_day rd (year_of n) (month_of n)"
    using m reset_day_near [OF rd(1), of "year_of n" "month_of n" n]
    by (simp add: reset_boundary_Date begins(1) reset_day_def)
  have ym: "1 \<le> snd ym" "snd ym \<le> 12" "n - 62 \<le> reset_day rd (fst ym) (snd ym)"
    using reset_day_near [OF rd(1), of "fst ym" "snd ym" n] by (auto simp: ym_def)
  let ?st = "Date_at (fst ym) (snd ym) (min rd (month_len (fst ym) (snd ym))) loc"
  have st: "(if now < reset_boundary rd loc (year_of n) (month_of n)
       then if month_of n = 1 then reset_boundary rd loc (year_of n - 1) 12
            else reset_boundary rd loc (year_of n) (month_of n - 1)
       else reset_boundary rd loc (year_of n) (month_of n)) = ?st"
    unfolding lt ym_def prev_month_def using m
    by (cases "n < reset_day rd (year_of n) (month_of n)"; cases "month_of n = 1")
      (simp_all add: reset_boundary_Date)
  have ld: "local_day loc ?st = reset_day rd (fst ym) (snd ym)"
    using begins(2) ym(3) by (simp add: reset_day_def)
  have rb: "year_of (local_day loc ?st) = fst ym" "month_of (local_day loc ?st) = snd ym"
    using reset_day_read [OF ym(1,2) rd(1)] by (simp_all add: ld)
  have nx: "1 \<le> snd nx" "snd nx \<le> 12"
    using ym by (auto simp: nx_def next_month_def)
  have "(if snd ym = 12 then reset_boundary rd loc (fst ym + 1) 1
         else reset_boundary rd loc (fst ym) (snd ym + 1)) = reset_boundary rd loc (fst nx) (snd nx)"
    by (simp add: nx_def next_month_def)
  then show ?thesis
    unfolding PeriodBoundsIn_def Let_def option.case n_def [symmetric] rd(2) st rb
    using nx by (simp add: reset_boundary_Date)
qed

lemma reset_period_contains:
  fixes n rd :: int
  assumes "1 \<le> rd"
  defines "ym \<equiv> (if n < reset_day rd (year_of n) (month_of n)
                then prev_month (year_of n) (month_of n) else (year_of n, month_of n))"
  defines "nx \<equiv> next_month (fst ym) (snd ym)"
  shows "reset_day rd (fst ym) (snd ym) \<le> n \<and> n < reset_day rd (fst nx) (snd nx)"
proof -
  have m: "1 \<le> month_of n" "month_of n \<le> 12" using month_of_bounds by simp_all
  have bnd: "Date_days (year_of n) (month_of n) 1 \<le> n" "n < Date_days (year_of n) (month_of n + 1) 1"
    using Date_days_month_bounds [of n] by simp_all
  show ?thesis
  proof (cases "n < reset_day rd (year_of n) (month_of n)")
    case True
    obtain y' m' where p: "prev_month (year_of n) (month_of n) = (y', m')" by fastforce
    have p': "1 \<le> m'" "m' \<le> 12" "next_month y' m' = (year_of n, month_of n)"
      using prev_next_month [OF m p] by simp_all
    have "Date_days (year_of n) (month_of n) 1 = Date_days y' (m' + 1) 1"
      using next_month_Date [OF p'(1,2,3), of 1] by simp
    then have "reset_day rd y' m' \<le> n"
      using reset_day_in_month(2) [OF p'(1,2) assms(1), of y'] bnd by linarith
    then show ?thesis using True p p' by (simp add: ym_def nx_def)
  next
    case False
    obtain y' m' where q: "next_month (year_of n) (month_of n) = (y', m')" by fastforce
    have "n < reset_day rd y' m'"
      using reset_day_next(2) [OF m assms(1) q] bnd by linarith
    then show ?thesis using False q by (simp add: ym_def nx_def)
  qed
qed

text \<open>When a decision blocks.\<close>

lemma blocked_iff:
  "d_Blocked (Evaluate tz p used og now) \<longleftrightarrow>
     p_Metered p \<and> q_LimitBytes (p_Quota p) > 0 \<and>
     (q_CeilingBytes (p_Quota p) > 0 \<and> used \<ge> q_CeilingBytes (p_Quota p) \<or>
      used \<ge> q_LimitBytes (p_Quota p) \<and>
      (og = None \<or> (\<exists>g. og = Some g \<and>
         (time_Unix (g_Until g) \<le> now \<or>
          g_ExtraBytes g > 0 \<and> used \<ge> wrap64 (g_StartBytes g + g_ExtraBytes g)))))"
  by (cases "PeriodBounds tz (p_Quota p) now"; cases og)
    (auto simp: Evaluate_def zero_decision_def Let_def)

section \<open>Properties\<close>

text \<open>The overflow test of \<open>saturatingMul\<close> and the guards of \<open>saturatingAdd\<close> are exact: for
  every pair of \<open>int64\<close> operands the results are the true product and sum clamped to the
  range of \<open>int64\<close>.\<close>

theorem saturating_exact:
  assumes "in_int64 a" and "in_int64 b"
  shows "saturatingMul a b = max minInt64 (min maxInt64 (a * b)) \<and>
         saturatingAdd a b = max minInt64 (min maxInt64 (a + b))"
  using saturatingMul_sat [OF assms] saturatingAdd_sat [OF assms] by (simp add: sat64_def)

theorem saturating_exact_witness:
  "saturatingMul minInt64 (-1) = maxInt64 \<and> saturatingAdd maxInt64 1 = maxInt64"
proof -
  have "in_int64 minInt64" "in_int64 (-1)" "in_int64 maxInt64" "in_int64 1"
    by (simp_all add: go_arith)
  then show ?thesis
    using saturating_exact [of minInt64 "-1"] saturating_exact [of maxInt64 1] by (simp add: go_arith)
qed

text \<open>C40. \<open>Metered\<close> never credits the ledger and never wraps: whatever the counts and whatever the
  stored overhead and calibration (\<open>NaN\<close> and infinities included), the billed figure is
  between 0 and \<open>MaxInt64\<close>, and it does not fall when more bytes and packets are counted.\<close>

theorem Metered_bounded_monotone:
  assumes "in_int64 b" "in_int64 p" "in_int64 b'" "in_int64 p'" and "b \<le> b'" and "p \<le> p'"
  shows "0 \<le> Metered b p q \<and> Metered b p q \<le> Metered b' p' q \<and> Metered b' p' q \<le> maxInt64"
proof -
  obtain c where c: "cal_of (q_Calibration q) = Fin c" "10 \<le> c" "c \<le> 1000"
    using cal_of_range by blast
  have "billed_total b p q \<le> billed_total b' p' q" using assms by (intro billed_total_mono)
  then have "scaled_rat c (billed_total b p q) \<le> scaled_rat c (billed_total b' p' q)"
    using c by (intro scaled_rat_mono) simp_all
  moreover have "0 \<le> scaled_rat c (billed_total b p q)"
    using c billed_total_range by (intro scaled_rat_nonneg) simp_all
  ultimately show ?thesis
    using assms c billed_total_range [of b p q] billed_total_range [of b' p' q]
    by (simp add: Metered_bill bill_eq floor_mono maxInt64_def min.coboundedI2)
qed

theorem Metered_bounded_monotone_witness:
  "0 \<le> Metered (-5) 3 (default_quota 0) \<and>
   Metered (-5) 3 (default_quota 0) \<le> Metered 1000 10 (default_quota 0) \<and>
   Metered 1000 10 (default_quota 0) \<le> maxInt64"
  by (rule Metered_bounded_monotone) (simp_all add: go_arith)

text \<open>With no correction (calibration 100, or a stored value outside 10 to 1000 percent, \<open>NaN\<close>
  included, which counts as 100) the billed figure is exactly payload plus overhead per
  packet, for every total below \<open>2\<^sup>5\<^sup>3 / 100\<close> bytes (90 TB).\<close>

theorem Metered_neutral_exact:
  assumes "0 \<le> b" "0 \<le> p" "0 \<le> q_OverheadPerPacket q" "q_OverheadPerPacket q \<le> 65535"
    and cal: "q_Calibration q = Fin 100 \<or> q_Calibration q = NaN \<or> flt (q_Calibration q) (Fin 10)
              \<or> flt (Fin 1000) (q_Calibration q)"
    and small: "(b + p * q_OverheadPerPacket q) * 100 < 2 ^ 53"
    and range: "in_int64 b" "in_int64 p"
  shows "Metered b p q = b + p * q_OverheadPerPacket q"
proof -
  let ?t = "b + p * q_OverheadPerPacket q"
  have pos: "0 \<le> ?t" using assms by simp
  have c: "cal_of (q_Calibration q) = Fin 100"
    using cal by (auto simp: cal_of_def MinCalibration_def MaxCalibration_def fgt_def)
  have t: "billed_total b p q = ?t"
    using assms pos by (simp add: billed_total_def clamp_overhead_def maxInt64_def)
  have "bill (Fin 100) ?t = min maxInt64 \<lfloor>scaled_rat 100 ?t\<rfloor>"
    using pos small by (intro bill_eq) (simp_all add: maxInt64_def)
  also have "\<dots> = ?t"
    unfolding scaled_rat_neutral [OF pos small] floor_of_int using small by (simp add: maxInt64_def)
  finally show ?thesis using range by (simp only: Metered_bill c t)
qed

theorem Metered_neutral_exact_witness:
  "Metered 1000000 1000 (default_quota 0) = 1060000 \<and>
   Metered 1000000 1000 ((default_quota 0)\<lparr>q_Calibration := NaN\<rparr>) = 1060000"
  using Metered_neutral_exact [of 1000000 1000 "default_quota 0"]
    Metered_neutral_exact [of 1000000 1000 "(default_quota 0)\<lparr>q_Calibration := NaN\<rparr>"]
  by (simp add: default_quota_def go_arith)

text \<open>C39. Whatever the configured reset day, and in every zone whose changes of offset leave local midnight alone and are
  two days apart, from a hundred days before the moment asked for on (the condition \<open>steady\<close>; Melbourne's daylight saving
  meets it, and so does every fixed offset below a day): the billing period contains that moment, starts at local
  midnight of the reset day clamped to the length of the month, and the period computed at its end starts there, so that
  the periods tile the time line.\<close>

theorem PeriodBoundsIn_tiles:
  fixes loc :: Location and day :: int and now :: gotime
  assumes "steady (to_unix now - 100 * day_secs) loc"
  defines "start \<equiv> fst (PeriodBoundsIn day (Some loc) now)"
  defines "stop \<equiv> snd (PeriodBoundsIn day (Some loc) now)"
  shows "start \<le> now \<and> now < stop \<and>
         fst (PeriodBoundsIn day (Some loc) stop) = stop \<and>
         wall_clock loc (to_unix start) mod day_secs = 0 \<and>
         day_of (local_day loc start) =
           min (max 1 (min 31 day)) (daysIn (year_of (local_day loc start)) (month_of (local_day loc start)))"
proof -
  define n rd where "n = local_day loc now" and "rd = clamp_day day"
  have rd: "1 \<le> rd" "rd = max 1 (min 31 day)" by (simp_all add: rd_def clamp_day_def)
  obtain y m where ym: "(if n < reset_day rd (year_of n) (month_of n)
      then prev_month (year_of n) (month_of n) else (year_of n, month_of n)) = (y, m)" by fastforce
  obtain y' m' where nx: "next_month y m = (y', m')" by fastforce
  have m: "1 \<le> m" "m \<le> 12" and near: "n - 62 \<le> reset_day rd y m"
    using reset_day_near [OF rd(1), of y m n] ym by (auto split: if_splits)
  have m': "1 \<le> m'" "m' \<le> 12" using next_month_Date [OF m nx, of 1] by simp_all
  have room: "to_unix now - 100 * day_secs + 66 * day_secs \<le> to_unix now" by simp
  note begins = Date_at_steady [OF assms(1) room, folded n_def]
  have pb: "PeriodBoundsIn day (Some loc) now =
      (Date_at y m (min rd (month_len y m)) loc, Date_at y' m' (min rd (month_len y' m')) loc)"
    using PeriodBoundsIn_steady [OF assms(1) room, of day, folded n_def rd_def] ym nx by simp
  have start: "start = Date_at y m (min rd (month_len y m)) loc"
    and stop: "stop = Date_at y' m' (min rd (month_len y' m')) loc"
    using pb by (simp_all add: start_def stop_def)
  have bnd: "reset_day rd y m \<le> n \<and> n < reset_day rd y' m'"
    using reset_period_contains [OF rd(1), of n] ym nx by simp
  note start_day = begins [of y m "min rd (month_len y m)", folded reset_day_def start, OF near]
    and stop_day = begins [of y' m' "min rd (month_len y' m')", folded reset_day_def stop]
  have "start \<le> now" "now < stop" using bnd start_day(1) stop_day(1) by (auto simp: not_less [symmetric])
  moreover have "to_unix now \<le> to_unix stop" using \<open>now < stop\<close> unfolding to_unix_def by (intro zdiv_mono1) simp_all
  then have "fst (PeriodBoundsIn day (Some loc) stop) = stop"
    using PeriodBoundsIn_steady [OF assms(1), of stop day, folded rd_def] reset_day_read [OF m' rd(1), of y'] stop_day(2) bnd
    by simp (simp add: stop)
  moreover have "day_of (local_day loc start) =
      min rd (daysIn (year_of (local_day loc start)) (month_of (local_day loc start)))"
    using reset_day_read [OF m rd(1), of y] date_read_back(3) [OF m, of "min rd (month_len y m)" y]
      month_len_bounds [OF m, of y] rd(1) m
    by (simp add: start_day(2) daysIn_month_len) (simp add: reset_day_def)
  moreover have "wall_clock loc (to_unix start) mod day_secs = 0" using start_day(3) by simp
  ultimately show ?thesis by (simp add: rd(2))
qed

theorem PeriodBoundsIn_tiles_witness:
  fixes now :: gotime
  defines "now \<equiv> time_Unix 1760000000"
    and "melbourne \<equiv> [(minInt64, 34792), (-2364111592, 36000), (1743868800, 36000), (1759593600, 39600), (1775318400, 36000)]"
  shows "steady (to_unix now - 100 * day_secs) melbourne \<and>
    PeriodBoundsIn 31 (Some melbourne) now = (time_Unix 1759154400, time_Unix 1761829200) \<and>
    fst (PeriodBoundsIn 31 (Some melbourne) (time_Unix 1761829200)) = time_Unix 1761829200"
proof -
  have st: "steady (to_unix now - 100 * day_secs) melbourne" by (simp add: now_def melbourne_def minInt64_def)
  have pb: "PeriodBoundsIn 31 (Some melbourne) now = (time_Unix 1759154400, time_Unix 1761829200)"
    unfolding now_def melbourne_def by code_simp
  show ?thesis using PeriodBoundsIn_tiles [OF st, of 31] st pb by simp
qed

text \<open>When a path is blocked for its quota: exactly if it is metered with a limit and
  either the absolute ceiling is reached, whatever was approved, or the limit is reached and
  no approval covers it: none given, expired, or its extra bytes used up.\<close>

theorem Evaluate_blocked_iff:
  "d_Blocked (Evaluate tz p used og now) \<longleftrightarrow>
     p_Metered p \<and> q_LimitBytes (p_Quota p) > 0 \<and>
     (q_CeilingBytes (p_Quota p) > 0 \<and> used \<ge> q_CeilingBytes (p_Quota p) \<or>
      used \<ge> q_LimitBytes (p_Quota p) \<and>
      (og = None \<or> (\<exists>g. og = Some g \<and>
         (time_Unix (g_Until g) \<le> now \<or>
          g_ExtraBytes g > 0 \<and> used \<ge> wrap64 (g_StartBytes g + g_ExtraBytes g)))))"
  by (rule blocked_iff)

text \<open>Usage only closes the door: with the same approval, a path that is blocked at one usage
  and moment stays blocked at any higher usage and later moment.\<close>

theorem Evaluate_blocked_stays:
  assumes "d_Blocked (Evaluate tz p used og now)" and "used \<le> used'" and "now \<le> now'"
  shows "d_Blocked (Evaluate tz p used' og now')"
  using assms unfolding blocked_iff by fastforce

theorem Evaluate_blocked_stays_witness:
  "d_Blocked (Evaluate (\<lambda>_. None) ((default_paths ! 1)\<lparr>p_Quota := default_quota 1000\<rparr>) 2000 None 5)"
  by (rule Evaluate_blocked_stays [of _ _ 1000 _ 5])
    (simp_all add: blocked_iff default_paths_def default_quota_def)

end
