(* ===== verification/Selector.thy ===== *)
theory Selector
  imports Tracker QuotaPolicy
begin

text \<open>
  The frontend's decision (\<open>src/internal/engine/engine.go\<close>): policy blocks, path selection with
  its failback hold-down and quality mode, and the evaluation pass that installs a route
  and records the switch, with the operator actions that feed it. The state is the part of
  \<open>Engine\<close> these functions read and write, plus the kernel facts they change: the interface
  of the main-table route and of the control route, and the log of events.

  \<open>ip\<close> and \<open>ctl\<close> are parameters: whether the kernel accepts \<open>ip route replace\<close> through an
  interface, and whether the control route can be moved to it. An evaluation pass holds the
  engine lock while it decides and takes it again to apply, so it is modelled as those two
  steps, between which any other operation may run.
  \<open>sort.Slice\<close> is the stable insertion sort Go runs on up to twelve elements.
\<close>

section \<open>State\<close>

datatype held_reason =
    HeldNone
  | HeldPinned string string
  | HeldQuota "string list"
  | HeldBlocked "string list"
  | HeldUnreachable

datatype engine_event =
    EvSwitch int int bool
  | EvInstallFailed int string
  | EvHeld held_reason int
  | EvRecovered
  | EvPathDown int int
  | EvQuarantine int duration
  | EvQuarantineCleared int
  | EvPathUp int
  | EvPinned int
  | EvQuota int quota_reason
  | EvQuotaOK int
  | EvGrant int duration int
  | EvRevoked int
  | EvConfig string
  | EvDisarmed
  | EvReverted
  | EvReinstallFailed int string
  | EvRulesetFailed
  | EvRestored int
  | EvStarted string

text \<open>What the decision loop touches of a prober: its cadence flag and its nudge slot.\<close>

record prober_ctl =
  pr_active :: bool
  pr_nudge :: bool

record Engine =
  e_cfg :: Config
  e_trackers :: "int \<Rightarrow> Tracker option"
  e_blocks :: "int \<Rightarrow> Block"
  e_quotaDec :: "int \<Rightarrow> Decision option"
  e_active :: int
  e_pinned :: int
  e_held :: bool
  e_heldReason :: held_reason
  e_decisionSeq :: uint64
  e_lastSwitch :: gotime
  e_beatenSince :: gotime
  e_reverted :: bool
  e_applying :: bool
  e_dataPlane :: bool
  e_cfgVersion :: uint64
  e_probers :: "int \<Rightarrow> prober_ctl option"
  e_wake :: bool
  e_grants :: "int \<Rightarrow> Grant option"
  e_route :: string
  e_ctlRoute :: string
  e_events :: "engine_event list"

definition AddEvent :: "engine_event \<Rightarrow> Engine \<Rightarrow> Engine" where
  "AddEvent ev e = e\<lparr>e_events := e_events e @ [ev]\<rparr>"

definition wakeDecision :: "Engine \<Rightarrow> Engine" where
  "wakeDecision e = e\<lparr>e_wake := True\<rparr>"

section \<open>Policy blocks\<close>

definition quota_blocked :: "Engine \<Rightarrow> int \<Rightarrow> bool" where
  "quota_blocked e i = (case e_quotaDec e i of None \<Rightarrow> False | Some d \<Rightarrow> d_Blocked d)"

definition block_of :: "Engine \<Rightarrow> PathConfig \<Rightarrow> Tracker \<Rightarrow> gotime \<Rightarrow> Block" where
  "block_of e p tr now =
     (if \<not> p_Enabled p then BlockDisabled
      else if Quarantined tr now then BlockQuarantine
      else if quota_blocked e (p_ID p) then BlockQuota
      else if Degraded tr then BlockDegraded
      else BlockNone)"

definition update_block :: "gotime \<Rightarrow> Engine \<Rightarrow> PathConfig \<Rightarrow> Engine" where
  "update_block now e p =
     (case e_trackers e (p_ID p) of
        None \<Rightarrow> e
      | Some tr \<Rightarrow> e\<lparr>e_blocks := (e_blocks e)(p_ID p := block_of e p tr now)\<rparr>)"

section \<open>Selection\<close>

definition may_carry :: "Engine \<Rightarrow> int \<Rightarrow> bool" where
  "may_carry e i = (case e_trackers e i of
      None \<Rightarrow> False
    | Some tr \<Rightarrow> Usable tr \<and> e_blocks e i = BlockNone)"

fun preferred_loop :: "PathConfig list \<Rightarrow> int \<Rightarrow> int \<Rightarrow> int" where
  "preferred_loop [] best bestPrio = best"
| "preferred_loop (p # ps) best bestPrio =
     (if \<not> p_Enabled p then preferred_loop ps best bestPrio
      else if best = 0 \<or> p_Priority p < bestPrio
           then preferred_loop ps (p_ID p) (p_Priority p)
           else preferred_loop ps best bestPrio)"

definition preferredPathID :: "Config \<Rightarrow> int" where
  "preferredPathID cfg = preferred_loop (c_Paths cfg) 0 0"

definition score :: "Engine \<Rightarrow> int \<Rightarrow> Config \<Rightarrow> float64" where
  "score e i cfg = (case e_trackers e i of
      None \<Rightarrow> PInf
    | Some tr \<Rightarrow> Score tr (fo_Quality (c_Failover cfg)))"

fun best_loop :: "Engine \<Rightarrow> Config \<Rightarrow> PathConfig list \<Rightarrow> PathConfig \<Rightarrow> float64 \<Rightarrow> PathConfig" where
  "best_loop e cfg [] best bestScore = best"
| "best_loop e cfg (p # ps) best bestScore =
     (let s = score e (p_ID p) cfg in
      if flt s bestScore then best_loop e cfg ps p s else best_loop e cfg ps best bestScore)"

text \<open>\<open>eligible\<close> is not empty and sorted by priority.\<close>

definition qualityTarget :: "Engine \<Rightarrow> PathConfig list \<Rightarrow> Config \<Rightarrow> PathConfig" where
  "qualityTarget e eligible cfg =
     (let top = hd eligible in
      if p_ID top = preferredPathID cfg then top
      else best_loop e cfg eligible top (score e (p_ID top) cfg))"

definition beatsByMargin :: "Engine \<Rightarrow> int \<Rightarrow> int \<Rightarrow> Config \<Rightarrow> bool" where
  "beatsByMargin e candidate incumbent cfg =
     (case (e_trackers e candidate, e_trackers e incumbent) of
        (Some ct, Some it) \<Rightarrow>
          let q = fo_Quality (c_Failover cfg);
              margin = fdiv (ql_MarginPct q) (Fin 100);
              margin = (if flt margin (Fin 0) then Fin 0 else margin)
          in flt (Score ct q) (fmul (Score it q) (fsub (Fin 1) margin))
      | _ \<Rightarrow> False)"

definition heldReasonFor :: "Engine \<Rightarrow> Config \<Rightarrow> held_reason" where
  "heldReasonFor e cfg =
     (let tracked = filter (\<lambda>p. e_trackers e (p_ID p) \<noteq> None) (c_Paths cfg);
          quotaBlocked = map p_Name (filter (\<lambda>p. e_blocks e (p_ID p) = BlockQuota \<and>
                           (case e_trackers e (p_ID p) of None \<Rightarrow> False | Some tr \<Rightarrow> Usable tr)) tracked);
          otherBlocked = map p_Name (filter (\<lambda>p. e_blocks e (p_ID p) \<noteq> BlockQuota \<and>
                           e_blocks e (p_ID p) \<noteq> BlockNone) tracked)
      in if quotaBlocked \<noteq> [] then HeldQuota quotaBlocked
         else if otherBlocked \<noteq> [] then HeldBlocked otherBlocked
         else HeldUnreachable)"

definition eligible_paths :: "Engine \<Rightarrow> Config \<Rightarrow> PathConfig list" where
  "eligible_paths e cfg = filter (\<lambda>p. may_carry e (p_ID p)) (sort_key p_Priority (c_Paths cfg))"

text \<open>
  The choice among the eligible paths for an engine that is not pinned: the chosen path and
  the new \<open>beatenSince\<close>.
\<close>

definition select_target :: "Engine \<Rightarrow> Config \<Rightarrow> PathConfig list \<Rightarrow> gotime \<Rightarrow> int \<times> gotime" where
  "select_target e cfg eligible now =
     (let quality = (fo_Selection (c_Failover cfg) = SelectionQuality);
          target = (if quality then qualityTarget e eligible cfg else hd eligible);
          keep = e_beatenSince e
      in if e_active e = 0 then (p_ID target, keep)
         else case PathByID cfg (e_active e) of
           None \<Rightarrow> (p_ID target, keep)
         | Some activeCfg \<Rightarrow>
             if \<not> list_ex (\<lambda>p. p_ID p = e_active e) eligible then (p_ID target, 0)
             else if p_ID target = e_active e then (e_active e, 0)
             else
               let hold = seconds (fo_HoldDownSec (c_Failover cfg));
                   failback = (case e_trackers e (p_ID target) of
                       None \<Rightarrow> (e_active e, 0)
                     | Some tr \<Rightarrow> if CleanFor tr now \<ge> hold then (p_ID target, 0) else (e_active e, 0))
               in if \<not> quality then
                    (if p_Priority target < p_Priority activeCfg then failback else (e_active e, keep))
                  else if p_ID target = preferredPathID cfg then failback
                  else if \<not> beatsByMargin e (p_ID target) (e_active e) cfg then (e_active e, 0)
                  else
                    let beaten = (if IsZero keep then now else keep);
                        dwell = seconds (ql_MinDwellSec (fo_Quality (c_Failover cfg)))
                    in if time_Sub now beaten < hold then (e_active e, beaten)
                       else if dwell > 0 \<and> \<not> IsZero (e_lastSwitch e) \<and>
                               time_Sub now (e_lastSwitch e) < dwell then (e_active e, beaten)
                       else (p_ID target, beaten))"

text \<open>The result is the chosen path (0 for none), whether the route is held, why, and the new \<open>beatenSince\<close>.\<close>

definition selectPath :: "Engine \<Rightarrow> Config \<Rightarrow> gotime \<Rightarrow> int \<times> bool \<times> held_reason \<times> gotime" where
  "selectPath e cfg now =
     (case (if e_pinned e \<noteq> 0 then PathByID cfg (e_pinned e) else None) of
        Some p \<Rightarrow>
          if may_carry e (e_pinned e) then (e_pinned e, False, HeldNone, e_beatenSince e)
          else
            let why = (if e_trackers e (e_pinned e) \<noteq> None \<and> e_blocks e (e_pinned e) \<noteq> BlockNone
                       then block_string (e_blocks e (e_pinned e)) else ''unreachable'')
            in (e_pinned e, True, HeldPinned (p_Name p) why, e_beatenSince e)
      | None \<Rightarrow>
          let eligible = eligible_paths e cfg in
          if eligible = [] then (0, True, heldReasonFor e cfg, e_beatenSince e)
          else case select_target e cfg eligible now of (chosen, beaten) \<Rightarrow>
            (chosen, False, HeldNone, beaten))"

section \<open>Evaluation\<close>

record decision_plan =
  pl_cfg :: Config
  pl_chosen :: int
  pl_prevActive :: int
  pl_held :: bool
  pl_prevHeld :: bool
  pl_reason :: held_reason
  pl_now :: gotime

definition evaluate_decide :: "Engine \<Rightarrow> gotime \<Rightarrow> Engine \<times> decision_plan option" where
  "evaluate_decide e now =
     (if e_reverted e then (e, None)
      else
        let cfg = e_cfg e;
            e = foldl (update_block now) e (c_Paths cfg)
        in case selectPath e cfg now of (chosen, held, reason, beaten) \<Rightarrow>
             (e\<lparr>e_beatenSince := beaten, e_held := held, e_heldReason := reason\<rparr>,
              Some \<lparr>pl_cfg = cfg, pl_chosen = chosen, pl_prevActive = e_active e, pl_held = held,
                    pl_prevHeld = e_held e, pl_reason = reason, pl_now = now\<rparr>))"

text \<open>
  \<open>applyActivePath\<close>: the control route first, through the real runner and only warned about,
  then the main route through the runner of the mode, which in observe mode runs nothing
  and succeeds.
\<close>

definition applyActivePath ::
    "(string \<Rightarrow> bool) \<Rightarrow> (string \<Rightarrow> bool) \<Rightarrow> PathConfig \<Rightarrow> Engine \<Rightarrow> Engine \<times> bool" where
  "applyActivePath ctl ip p e =
     (let e = (if ctl (p_Iface p) then e\<lparr>e_ctlRoute := p_Iface p\<rparr> else e)
      in if \<not> e_applying e then (e, True)
         else if ip (p_Iface p) then (e\<lparr>e_route := p_Iface p\<rparr>, True)
         else (e, False))"

definition commitSwitch :: "int \<Rightarrow> int \<Rightarrow> gotime \<Rightarrow> Engine \<Rightarrow> Engine" where
  "commitSwitch chosen prev now e =
     AddEvent (EvSwitch prev chosen (e_applying e))
       (e\<lparr>e_active := chosen, e_decisionSeq := e_decisionSeq e + 1, e_lastSwitch := now,
          e_probers := (\<lambda>i. case e_probers e i of None \<Rightarrow> None
             | Some pr \<Rightarrow> Some \<lparr>pr_active = (i = chosen), pr_nudge = True\<rparr>)\<rparr>)"

definition held_events :: "decision_plan \<Rightarrow> Engine \<Rightarrow> Engine" where
  "held_events pl e =
     (let e = (if pl_held pl \<and> \<not> pl_prevHeld pl then AddEvent (EvHeld (pl_reason pl) (e_active e)) e else e)
      in if \<not> pl_held pl \<and> pl_prevHeld pl then AddEvent EvRecovered e else e)"

definition zero_path :: PathConfig where
  "zero_path = \<lparr>p_ID = 0, p_Name = '''', p_Iface = '''', p_Priority = 0, p_Table = 0, p_Mark = 0,
     p_Enabled = False, p_Metered = False, p_Quota = zero_quota, p_Shape = no_shape\<rparr>"

definition evaluate_apply ::
    "(string \<Rightarrow> bool) \<Rightarrow> (string \<Rightarrow> bool) \<Rightarrow> decision_plan \<Rightarrow> Engine \<Rightarrow> Engine" where
  "evaluate_apply ctl ip pl e =
     (if pl_chosen pl \<noteq> 0 \<and> pl_chosen pl \<noteq> pl_prevActive pl then
        let newCfg = (case PathByID (pl_cfg pl) (pl_chosen pl) of None \<Rightarrow> zero_path | Some p \<Rightarrow> p) in
        if e_reverted e then e
        else case applyActivePath ctl ip newCfg e of (e, ok) \<Rightarrow>
          held_events pl
            (if ok then commitSwitch (pl_chosen pl) (pl_prevActive pl) (pl_now pl) e
             else AddEvent (EvInstallFailed (pl_chosen pl) (p_Iface newCfg)) e)
      else held_events pl e)"

definition evaluate ::
    "(string \<Rightarrow> bool) \<Rightarrow> (string \<Rightarrow> bool) \<Rightarrow> Engine \<Rightarrow> gotime \<Rightarrow> Engine" where
  "evaluate ctl ip e now = (case evaluate_decide e now of
      (e, None) \<Rightarrow> e
    | (e, Some pl) \<Rightarrow> evaluate_apply ctl ip pl e)"

section \<open>Probe results and operator actions\<close>

definition onResult :: "Engine \<Rightarrow> Result \<Rightarrow> gotime \<Rightarrow> Engine" where
  "onResult e r now =
     (case e_trackers e (r_PathID r) of
        None \<Rightarrow> e
      | Some tr \<Rightarrow>
          case Observe tr r now of (tr', tn) \<Rightarrow>
            let failThreshold = pb_FailThreshold (c_Probe (e_cfg e));
                e = e\<lparr>e_trackers := (e_trackers e)(r_PathID r \<mapsto> tr')\<rparr>
            in if \<not> tn_Changed tn then e
               else
                 let e = (if usableHealth (tn_To tn) \<noteq> usableHealth (tn_From tn) then wakeDecision e else e)
                 in case tn_To tn of
                      HealthDown \<Rightarrow>
                        let e = AddEvent (EvPathDown (r_PathID r) failThreshold) e
                        in if tn_Quarantine tn > 0
                           then AddEvent (EvQuarantine (r_PathID r) (tn_Quarantine tn)) e else e
                    | HealthUp \<Rightarrow> AddEvent (EvPathUp (r_PathID r)) e
                    | _ \<Rightarrow> e)"

datatype pin_error = UnknownPath int | PinOverQuota string | PinDisabled string

definition Pin :: "Engine \<Rightarrow> int \<Rightarrow> pin_error + Engine" where
  "Pin e pathID =
     (if pathID \<noteq> 0 \<and> PathByID (e_cfg e) pathID = None then Inl (UnknownPath pathID)
      else
        let name = (case PathByID (e_cfg e) pathID of None \<Rightarrow> '''' | Some p \<Rightarrow> p_Name p) in
        if pathID \<noteq> 0 \<and> e_blocks e pathID = BlockQuota then Inl (PinOverQuota name)
        else if pathID \<noteq> 0 \<and> e_blocks e pathID = BlockDisabled then Inl (PinDisabled name)
        else Inr (wakeDecision (AddEvent (EvPinned pathID) (e\<lparr>e_pinned := pathID\<rparr>))))"

definition eng_ClearQuarantine :: "Engine \<Rightarrow> int \<Rightarrow> Engine" where
  "eng_ClearQuarantine e pathID =
     (let e = (case e_trackers e pathID of
                 None \<Rightarrow> e
               | Some tr \<Rightarrow> e\<lparr>e_trackers := (e_trackers e)(pathID \<mapsto> tr_ClearQuarantine tr)\<rparr>)
      in wakeDecision (AddEvent (EvQuarantineCleared pathID) e))"

text \<open>
  Quota verdicts. \<open>usage\<close> is the ledger read (\<open>None\<close> where the store reports an error), a
  function of the path and the period start; \<open>gr\<close>, \<open>sg\<close> and \<open>cg\<close> say whether the store could
  read the grants, write one and delete one. \<open>Go\<close> ranges over the decisions in map order; the
  model logs them in the order of the paths.
\<close>

fun quota_decisions ::
    "(string \<Rightarrow> Location option) \<Rightarrow> (int \<Rightarrow> gotime \<Rightarrow> int option) \<Rightarrow> Engine \<Rightarrow> gotime \<Rightarrow>
     PathConfig list \<Rightarrow> (int \<Rightarrow> Decision option) \<Rightarrow> (int \<Rightarrow> Decision option)" where
  "quota_decisions tz usage e now [] dec = dec"
| "quota_decisions tz usage e now (p # ps) dec =
     quota_decisions tz usage e now ps
       (case usage (p_ID p) (fst (PeriodBounds tz (p_Quota p) now)) of
          None \<Rightarrow> (case e_quotaDec e (p_ID p) of None \<Rightarrow> dec | Some d \<Rightarrow> dec(p_ID p \<mapsto> d))
        | Some used \<Rightarrow> dec(p_ID p \<mapsto> Evaluate tz p used (e_grants e (p_ID p)) now))"

definition quota_change_event :: "(int \<Rightarrow> bool) \<Rightarrow> Engine \<Rightarrow> PathConfig \<Rightarrow> Engine" where
  "quota_change_event prevBlocked e p =
     (case e_quotaDec e (p_ID p) of
        None \<Rightarrow> e
      | Some d \<Rightarrow>
          if d_Blocked d \<and> \<not> prevBlocked (p_ID p) then AddEvent (EvQuota (p_ID p) (d_Reason d)) e
          else if \<not> d_Blocked d \<and> prevBlocked (p_ID p) then AddEvent (EvQuotaOK (p_ID p)) e
          else e)"

definition refreshQuota ::
    "(string \<Rightarrow> Location option) \<Rightarrow> (int \<Rightarrow> gotime \<Rightarrow> int option) \<Rightarrow> bool \<Rightarrow> Engine \<Rightarrow> gotime \<Rightarrow> Engine" where
  "refreshQuota tz usage gr e now =
     (if \<not> gr then e
      else foldl (quota_change_event (quota_blocked e))
             (e\<lparr>e_quotaDec := quota_decisions tz usage e now (c_Paths (e_cfg e)) (\<lambda>_. None)\<rparr>)
             (c_Paths (e_cfg e)))"

datatype approve_error = ApproveUnknown int | ApproveStore

definition Approve ::
    "(string \<Rightarrow> Location option) \<Rightarrow> (int \<Rightarrow> gotime \<Rightarrow> int option) \<Rightarrow> bool \<Rightarrow> bool \<Rightarrow> Engine \<Rightarrow> int \<Rightarrow>
     duration \<Rightarrow> int \<Rightarrow> gotime \<Rightarrow> approve_error + Engine" where
  "Approve tz usage sg gr e pathID dur extraBytes now =
     (case PathByID (e_cfg e) pathID of
        None \<Rightarrow> Inl (ApproveUnknown pathID)
      | Some p \<Rightarrow>
          case usage pathID (fst (PeriodBounds tz (p_Quota p) now)) of
            None \<Rightarrow> Inl ApproveStore
          | Some used \<Rightarrow>
              if \<not> sg then Inl ApproveStore
              else
              let g = \<lparr>g_PathID = pathID, g_Until = to_unix (time_Add now dur),
                       g_ExtraBytes = extraBytes, g_StartBytes = used\<rparr>;
                  e = AddEvent (EvGrant pathID dur extraBytes) (e\<lparr>e_grants := (e_grants e)(pathID \<mapsto> g)\<rparr>)
              in Inr (wakeDecision (refreshQuota tz usage gr e now)))"

definition RevokeApproval ::
    "(string \<Rightarrow> Location option) \<Rightarrow> (int \<Rightarrow> gotime \<Rightarrow> int option) \<Rightarrow> bool \<Rightarrow> bool \<Rightarrow> Engine \<Rightarrow> int \<Rightarrow>
     gotime \<Rightarrow> approve_error + Engine" where
  "RevokeApproval tz usage cg gr e pathID now =
     (if \<not> cg then Inl ApproveStore
      else Inr (wakeDecision (refreshQuota tz usage gr
             (AddEvent (EvRevoked pathID) (e\<lparr>e_grants := (e_grants e)(pathID := None)\<rparr>)) now)))"

text \<open>\<open>seedActiveFromKernel\<close>: adopt the path whose interface the kernel already routes through.\<close>

definition seedActiveFromKernel :: "string option \<Rightarrow> Engine \<Rightarrow> Engine" where
  "seedActiveFromKernel iface e =
     (case iface of
        None \<Rightarrow> e
      | Some i \<Rightarrow> if i = '''' then e
          else case find (\<lambda>p. p_Iface p = i) (c_Paths (e_cfg e)) of
                 None \<Rightarrow> e
               | Some p \<Rightarrow> e\<lparr>e_active := p_ID p\<rparr>)"

definition decision :: "Engine \<Rightarrow> uint16 \<times> uint64" where
  "decision e = (word_of_int (e_active e), e_decisionSeq e)"

section \<open>Construction\<close>

definition runnerFor :: "string \<Rightarrow> bool" where
  "runnerFor mode \<longleftrightarrow> mode = ModeArmed"

text \<open>
  \<open>New\<close>. The sequence of decisions is seeded with the milliseconds of the wall clock; the
  revert latch and the grants come back from the store, the routes are what the kernel has.
\<close>

definition New :: "Config \<Rightarrow> gotime \<Rightarrow> bool \<Rightarrow> (int \<Rightarrow> Grant option) \<Rightarrow> string \<Rightarrow> string \<Rightarrow> Engine" where
  "New cfg now latched grants route ctlRoute =
     \<lparr>e_cfg = cfg, e_trackers = (\<lambda>_. None), e_blocks = (\<lambda>_. BlockNone), e_quotaDec = (\<lambda>_. None),
      e_active = 0, e_pinned = 0, e_held = False, e_heldReason = HeldNone,
      e_decisionSeq = push_bit 16 (word_of_int ((now - unix_epoch) div 1000000)),
      e_lastSwitch = 0, e_beatenSince = 0, e_reverted = latched, e_applying = runnerFor (c_Mode cfg),
      e_dataPlane = False, e_cfgVersion = 0, e_probers = (\<lambda>_. None), e_wake = False,
      e_grants = grants, e_route = route, e_ctlRoute = ctlRoute, e_events = []\<rparr>"

text \<open>
  \<open>startProbers\<close>: health is carried across for a path whose interface is the same; \<open>np\<close> says
  whether a prober could be built for the path.
\<close>

definition start_path :: "(PathConfig \<Rightarrow> bool) \<Rightarrow> (int \<Rightarrow> Tracker option) \<Rightarrow> Engine \<Rightarrow> PathConfig \<Rightarrow> Engine" where
  "start_path np previous e p =
     (let cfg = e_cfg e;
          fresh = NewTracker p (c_Probe cfg) (c_Failover cfg);
          tr = (case previous (p_ID p) of
                  None \<Rightarrow> fresh
                | Some old \<Rightarrow> if p_Iface (t_cfg old) = p_Iface p
                             then Retune old p (c_Probe cfg) (c_Failover cfg) else fresh);
          e = e\<lparr>e_trackers := (e_trackers e)(p_ID p \<mapsto> tr)\<rparr>
      in if np p
         then e\<lparr>e_probers := (e_probers e)(p_ID p \<mapsto> \<lparr>pr_active = (p_ID p = e_active e), pr_nudge = False\<rparr>)\<rparr>
         else e)"

definition startProbers :: "(PathConfig \<Rightarrow> bool) \<Rightarrow> Engine \<Rightarrow> Engine" where
  "startProbers np e =
     foldl (start_path np (e_trackers e)) (e\<lparr>e_trackers := (\<lambda>_. None), e_probers := (\<lambda>_. None)\<rparr>)
       (c_Paths (e_cfg e))"

section \<open>The eligible paths\<close>

lemma set_eligible: "set (eligible_paths e cfg) = {p \<in> set (c_Paths cfg). may_carry e (p_ID p)}"
  by (auto simp: eligible_paths_def)

lemma eligible_hd_min:
  assumes "eligible_paths e cfg \<noteq> []"
  shows "hd (eligible_paths e cfg) \<in> set (eligible_paths e cfg)"
    and "\<forall>q \<in> set (eligible_paths e cfg). p_Priority (hd (eligible_paths e cfg)) \<le> p_Priority q"
proof -
  have "sorted (map p_Priority (eligible_paths e cfg))"
    unfolding eligible_paths_def by (rule sorted_filter) simp
  then show "\<forall>q \<in> set (eligible_paths e cfg). p_Priority (hd (eligible_paths e cfg)) \<le> p_Priority q"
    using assms by (cases "eligible_paths e cfg") auto
qed (use assms in simp)

lemma best_loop_mem: "best_loop e cfg ps b s \<in> insert b (set ps)"
  by (induction ps arbitrary: b s) (auto simp: Let_def)

lemma best_loop_le:
  "s = score e (p_ID b) cfg \<Longrightarrow> score e (p_ID (best_loop e cfg ps b s)) cfg = s \<or>
   flt (score e (p_ID (best_loop e cfg ps b s)) cfg) s"
proof (induction ps arbitrary: b s)
  case (Cons x ps)
  show ?case
    using Cons.IH [OF Cons.prems] Cons.IH [OF refl, of x] flt_trans by (auto simp: Let_def)
qed simp

lemma best_loop_min:
  "s = score e (p_ID b) cfg \<Longrightarrow> p \<in> insert b (set ps) \<Longrightarrow>
   \<not> flt (score e (p_ID p) cfg) (score e (p_ID (best_loop e cfg ps b s)) cfg)"
proof (induction ps arbitrary: b s p)
  case (Cons x ps)
  show ?case
  proof (cases "flt (score e (p_ID x) cfg) s")
    case True
    have x: "\<not> flt (score e (p_ID x) cfg) (score e (p_ID (best_loop e cfg ps x (score e (p_ID x) cfg))) cfg)"
      by (rule Cons.IH) simp_all
    show ?thesis
    proof (cases "p = b")
      case pb: True
      have "\<not> flt s (score e (p_ID (best_loop e cfg ps x (score e (p_ID x) cfg))) cfg)"
        using x True flt_trans by blast
      then show ?thesis using True pb Cons.prems(1) by (simp add: Let_def)
    next
      case False
      then show ?thesis using Cons.IH [OF refl, of p x] Cons.prems True by (auto simp: Let_def)
    qed
  next
    case False
    show ?thesis
    proof (cases "p = x")
      case px: True
      have b: "\<not> flt s (score e (p_ID (best_loop e cfg ps b s)) cfg)"
        using Cons.IH [OF Cons.prems(1), of b] Cons.prems(1) by simp
      have "score e (p_ID (best_loop e cfg ps b s)) cfg = s \<or> flt (score e (p_ID (best_loop e cfg ps b s)) cfg) s"
        using best_loop_le [OF Cons.prems(1), of ps] by simp
      then show ?thesis using False px flt_trans by (auto simp: Let_def)
    next
      case False2: False
      then show ?thesis using Cons.IH [OF Cons.prems(1), of p] Cons.prems(2) False by (auto simp: Let_def)
    qed
  qed
qed simp

lemma qualityTarget_mem:
  "eligible \<noteq> [] \<Longrightarrow> qualityTarget e eligible cfg \<in> set eligible"
  using best_loop_mem [of e cfg eligible "hd eligible" "score e (p_ID (hd eligible)) cfg"]
  by (auto simp: qualityTarget_def Let_def insert_absorb)

lemma select_target_mem:
  assumes "el \<noteq> []"
  shows "fst (select_target e cfg el now) \<in> p_ID ` set el"
proof -
  let ?t = "if fo_Selection (c_Failover cfg) = SelectionQuality then qualityTarget e el cfg else hd el"
  have t: "?t \<in> set el" using assms qualityTarget_mem by simp
  have "fst (select_target e cfg el now) = p_ID ?t \<or>
        (fst (select_target e cfg el now) = e_active e \<and> list_ex (\<lambda>p. p_ID p = e_active e) el)"
    by (auto simp: select_target_def Let_def split: option.split)
  then show ?thesis using t by (auto simp: list_ex_iff intro: rev_image_eqI)
qed

lemma selectPath_unpinned:
  assumes "e_pinned e = 0 \<or> PathByID cfg (e_pinned e) = None"
  shows "selectPath e cfg now =
     (if eligible_paths e cfg = [] then (0, True, heldReasonFor e cfg, e_beatenSince e)
      else (fst (select_target e cfg (eligible_paths e cfg) now), False, HeldNone,
            snd (select_target e cfg (eligible_paths e cfg) now)))"
  using assms by (auto simp: selectPath_def Let_def split: prod.split)

section \<open>Policy blocks after a pass\<close>

lemma update_block_frame [simp]:
  "e_trackers (update_block now e p) = e_trackers e"
  "e_quotaDec (update_block now e p) = e_quotaDec e"
  "e_active (update_block now e p) = e_active e"
  "e_pinned (update_block now e p) = e_pinned e"
  "e_held (update_block now e p) = e_held e"
  "e_cfg (update_block now e p) = e_cfg e"
  "e_beatenSince (update_block now e p) = e_beatenSince e"
  "e_lastSwitch (update_block now e p) = e_lastSwitch e"
  "e_reverted (update_block now e p) = e_reverted e"
  "e_applying (update_block now e p) = e_applying e"
  "e_decisionSeq (update_block now e p) = e_decisionSeq e"
  "e_route (update_block now e p) = e_route e"
  "e_ctlRoute (update_block now e p) = e_ctlRoute e"
  "e_events (update_block now e p) = e_events e"
  "e_probers (update_block now e p) = e_probers e"
  "e_dataPlane (update_block now e p) = e_dataPlane e"
  by (simp_all add: update_block_def split: option.split)

lemma update_blocks_frame [simp]:
  "e_trackers (foldl (update_block now) e ps) = e_trackers e"
  "e_quotaDec (foldl (update_block now) e ps) = e_quotaDec e"
  "e_active (foldl (update_block now) e ps) = e_active e"
  "e_pinned (foldl (update_block now) e ps) = e_pinned e"
  "e_held (foldl (update_block now) e ps) = e_held e"
  "e_cfg (foldl (update_block now) e ps) = e_cfg e"
  "e_beatenSince (foldl (update_block now) e ps) = e_beatenSince e"
  "e_lastSwitch (foldl (update_block now) e ps) = e_lastSwitch e"
  "e_reverted (foldl (update_block now) e ps) = e_reverted e"
  "e_applying (foldl (update_block now) e ps) = e_applying e"
  "e_decisionSeq (foldl (update_block now) e ps) = e_decisionSeq e"
  "e_route (foldl (update_block now) e ps) = e_route e"
  "e_ctlRoute (foldl (update_block now) e ps) = e_ctlRoute e"
  "e_events (foldl (update_block now) e ps) = e_events e"
  "e_probers (foldl (update_block now) e ps) = e_probers e"
  "e_dataPlane (foldl (update_block now) e ps) = e_dataPlane e"
  by (induction ps arbitrary: e) simp_all

lemma block_of_cong:
  "e_quotaDec e = e_quotaDec e' \<Longrightarrow> block_of e p tr now = block_of e' p tr now"
  by (simp add: block_of_def quota_blocked_def)

lemma update_blocks_other:
  "i \<notin> p_ID ` set ps \<Longrightarrow> e_blocks (foldl (update_block now) e ps) i = e_blocks e i"
  by (induction ps arbitrary: e) (auto simp: update_block_def split: option.split)

lemma update_blocks_at:
  "distinct (map p_ID ps) \<Longrightarrow> p \<in> set ps \<Longrightarrow> e_trackers e (p_ID p) = Some tr \<Longrightarrow>
   e_blocks (foldl (update_block now) e ps) (p_ID p) = block_of e p tr now"
proof (induction ps arbitrary: e)
  case (Cons q ps)
  show ?case
  proof (cases "p = q")
    case True
    then have "p_ID p \<notin> p_ID ` set ps" using Cons.prems(1) by auto
    moreover have "e_blocks (update_block now e q) (p_ID q) = block_of e q tr now"
      using True Cons.prems(3) by (simp add: update_block_def)
    ultimately show ?thesis using True by (simp add: update_blocks_other)
  next
    case False
    then show ?thesis
      using Cons.IH [of "update_block now e q"] Cons.prems
        block_of_cong [of "update_block now e q" e p tr now] by auto
  qed
qed simp

text \<open>What a path must satisfy to be given the traffic, read off the state before the pass.\<close>

definition carries_at :: "Engine \<Rightarrow> PathConfig \<Rightarrow> gotime \<Rightarrow> bool" where
  "carries_at e p now \<longleftrightarrow> p_Enabled p \<and> \<not> quota_blocked e (p_ID p) \<and>
     (case e_trackers e (p_ID p) of None \<Rightarrow> False
      | Some tr \<Rightarrow> Usable tr \<and> \<not> Quarantined tr now \<and> \<not> Degraded tr)"

lemma may_carry_iff:
  assumes "distinct (map p_ID ps)" and "p \<in> set ps"
  shows "may_carry (foldl (update_block now) e ps) (p_ID p) \<longleftrightarrow> carries_at e p now"
  using update_blocks_at [OF assms, of e _ now]
  by (auto simp: may_carry_def carries_at_def block_of_def split: option.split)

lemma find_distinct_key:
  "distinct (map f xs) \<Longrightarrow> x \<in> set xs \<Longrightarrow> find (\<lambda>y. f y = f x) xs = Some x"
  by (induction xs) (auto simp: image_iff)

lemma PathByID_distinct:
  "distinct (map p_ID (c_Paths cfg)) \<Longrightarrow> p \<in> set (c_Paths cfg) \<Longrightarrow> PathByID cfg (p_ID p) = Some p"
  unfolding PathByID_def by (rule find_distinct_key)

section \<open>The preferred path\<close>

lemma hd_sort_key_Cons:
  "hd (sort_key f (x # xs)) =
     (if xs = [] \<or> f x \<le> f (hd (sort_key f xs)) then x else hd (sort_key f xs))"
proof -
  have "hd (insort_key f x ys) = (if ys = [] \<or> f x \<le> f (hd ys) then x else hd ys)" for ys
    by (cases ys) simp_all
  from this [of "sort_key f xs"] show ?thesis by (simp flip: length_0_conv)
qed

lemma hd_sort_key_Cons2:
  "hd (sort_key f (x # y # ys)) =
     (if f y < f x then hd (sort_key f (y # ys)) else hd (sort_key f (x # ys)))"
  by (cases "ys = []") (simp_all only: hd_sort_key_Cons, auto)

lemma preferred_loop_hd:
  assumes "\<forall>p \<in> set (x # ps). p_ID p \<noteq> 0"
  shows "preferred_loop ps (p_ID x) (p_Priority x) =
         p_ID (hd (sort_key p_Priority (x # filter p_Enabled ps)))"
  using assms
proof (induction ps arbitrary: x)
  case (Cons p ps)
  then show ?case by (simp add: hd_sort_key_Cons2 del: sort_key_simps)
qed simp

lemma preferredPathID_hd:
  assumes "\<forall>p \<in> set (c_Paths cfg). p_ID p \<noteq> 0" and "filter p_Enabled (c_Paths cfg) \<noteq> []"
  shows "preferredPathID cfg = p_ID (hd (sort_key p_Priority (filter p_Enabled (c_Paths cfg))))"
proof -
  have "preferred_loop ps 0 0 = p_ID (hd (sort_key p_Priority (filter p_Enabled ps)))"
    if "\<forall>p \<in> set ps. p_ID p \<noteq> 0" "filter p_Enabled ps \<noteq> []" for ps
    using that by (induction ps) (auto simp: preferred_loop_hd simp del: sort_key_simps)
  then show ?thesis using assms by (simp add: preferredPathID_def)
qed

text \<open>While the preferred path may carry traffic it heads the eligible list.\<close>

lemma preferred_heads_eligible:
  assumes ids: "\<forall>p \<in> set (c_Paths cfg). p_ID p \<noteq> 0" and dist: "distinct (map p_ID (c_Paths cfg))"
    and en: "\<forall>p \<in> set (c_Paths cfg). may_carry e (p_ID p) \<longrightarrow> p_Enabled p"
    and pref: "may_carry e (preferredPathID cfg)" "PathByID cfg (preferredPathID cfg) \<noteq> None"
  shows "eligible_paths e cfg \<noteq> [] \<and> p_ID (hd (eligible_paths e cfg)) = preferredPathID cfg"
proof -
  let ?E = "filter p_Enabled (c_Paths cfg)" and ?Q = "\<lambda>p. may_carry e (p_ID p)"
  obtain q where q: "q \<in> set (c_Paths cfg)" "p_ID q = preferredPathID cfg"
    using pref(2) PathByID_Some by fastforce
  then have ne: "?E \<noteq> []" using en pref(1) by (auto simp: filter_empty_conv)
  have "filter ?Q (sort_key p_Priority ?E) = sort_key p_Priority (filter ?Q ?E)"
    by (rule filter_sort)
  also have "filter ?Q ?E = filter ?Q (c_Paths cfg)"
    using en by (induction "c_Paths cfg") (auto intro: filter_cong)
  finally have "eligible_paths e cfg = filter ?Q (sort_key p_Priority ?E)"
    by (simp add: eligible_paths_def filter_sort)
  moreover have "sort_key p_Priority ?E = hd (sort_key p_Priority ?E) # tl (sort_key p_Priority ?E)"
    using ne by (metis hd_Cons_tl length_0_conv length_sort)
  moreover have "?Q (hd (sort_key p_Priority ?E))"
    using pref(1) preferredPathID_hd [OF ids ne] by simp
  ultimately have "eligible_paths e cfg = hd (sort_key p_Priority ?E) # filter ?Q (tl (sort_key p_Priority ?E))"
    by (metis filter.simps(2))
  then show ?thesis using preferredPathID_hd [OF ids ne] by simp
qed

section \<open>The margin\<close>

lemma fmul_le_one:
  assumes "fnonneg s" "representable s" "c = NaN \<or> fle c (Fin 1)" "flt x (fmul s c)"
  shows "flt x s"
proof (cases s)
  case (Fin a)
  show ?thesis
  proof (cases c)
    case c: (Fin b)
    have "a * b \<le> a" using assms(1,3) Fin c by (auto simp: mult_left_le)
    then have "fle (fmul s c) s" using f64_mono [of "a * b" a] f64_id [of a] Fin c assms(2) by simp
    then show ?thesis using flt_fle_trans assms(4) by blast
  qed (use assms Fin in \<open>cases x; auto simp: finf_def split: if_splits\<close>)+
next
  case PInf
  then show ?thesis using assms by (cases c; cases x) (auto simp: finf_def split: if_splits)
qed (use assms in simp_all)

text \<open>\<open>1 - margin\<close> is at most 1, whatever the configured percentage.\<close>

lemma one_minus_margin:
  "let m = (if flt m (Fin 0) then Fin 0 else m) in fsub (Fin 1) m = NaN \<or> fle (fsub (Fin 1) m) (Fin 1)"
proof (cases m)
  case (Fin a)
  have "fle (f64 (1 - max 0 a)) (f64 1)" by (rule f64_mono) simp
  moreover have "f64 1 = Fin 1" using f64_small [of 1] by simp
  ultimately show ?thesis using Fin by (auto simp: fsub_def Let_def max_def split: if_splits)
qed (use f64_small [of 1] in \<open>simp_all add: fsub_def\<close>)

lemma fadd_nn: "fnonneg a \<or> a = NaN \<Longrightarrow> fnonneg b \<or> b = NaN \<Longrightarrow> fnonneg (fadd a b) \<or> fadd a b = NaN"
  by (cases a; cases b) (auto simp: f64_nonneg)

lemma fmul_nn: "fnonneg a \<Longrightarrow> fnonneg b \<Longrightarrow> fnonneg (fmul a b) \<or> fmul a b = NaN"
  by (cases a; cases b) (auto simp: f64_nonneg finf_def)

definition weights_ok :: "QualityConfig \<Rightarrow> bool" where
  "weights_ok q \<longleftrightarrow> fnonneg (ql_LossWeight q) \<and> fnonneg (ql_RTTWeight q) \<and> fnonneg (ql_JitterWeight q)"

lemma Score_nonneg:
  assumes "window_sane (t_window t)" and "weights_ok q"
  shows "fnonneg (Score t q) \<or> Score t q = NaN"
proof -
  obtain loss rtt jit where s: "Stats (t_window t) = (Fin loss, rtt, jit)" "0 \<le> loss" "fnonneg rtt" "fnonneg jit"
    using Stats_nonneg [OF assms(1)] by blast
  have "fnonneg (Fin loss)" using s(2) by simp
  with s assms(2) show ?thesis unfolding Score_def weights_ok_def s(1) prod.case
    by (intro fadd_nn fmul_nn) simp_all
qed

lemma Score_representable: "representable (Score t q)"
  by (simp add: Score_def split: prod.split)

lemma beatsByMargin_lt:
  assumes "beatsByMargin e a b cfg" and "e_trackers e b = Some tb"
    and "window_sane (t_window tb)" and "weights_ok (fo_Quality (c_Failover cfg))"
  shows "flt (score e a cfg) (score e b cfg)"
proof -
  let ?q = "fo_Quality (c_Failover cfg)"
  let ?m = "fdiv (ql_MarginPct ?q) (Fin 100)"
  let ?c = "fsub (Fin 1) (if flt ?m (Fin 0) then Fin 0 else ?m)"
  obtain ta where ta: "e_trackers e a = Some ta" "flt (Score ta ?q) (fmul (Score tb ?q) ?c)"
    using assms(1,2) by (auto simp: beatsByMargin_def Let_def split: option.splits)
  have "Score tb ?q \<noteq> NaN" using ta(2) by (cases "Score ta ?q") auto
  then have "fnonneg (Score tb ?q)" using Score_nonneg [OF assms(3,4)] by blast
  then have "flt (Score ta ?q) (Score tb ?q)"
    using fmul_le_one [OF _ Score_representable _ ta(2)] one_minus_margin [of ?m]
    by (simp add: Let_def)
  then show ?thesis using ta(1) assms(2) by (simp add: score_def)
qed

end
