(* ===== verification/SelectorProps.thy ===== *)
theory SelectorProps
  imports Selector
begin

text \<open>
  What path selection and the evaluation pass guarantee (\<open>selectPath\<close>, \<open>beatsByMargin\<close> and
  \<open>evaluate\<close> of \<open>src/internal/engine/engine.go\<close>), with the small deployments the examples
  run on.
\<close>

section \<open>Sample deployments\<close>

text \<open>With both guards off no measurement is taken.\<close>

lemma Degraded_code [code]:
  "Degraded t =
     (if Usable t then
        if fgt (pb_MaxLossPct (t_probeCfg t)) (Fin 0) \<or> pb_MaxRTTMs (t_probeCfg t) > 0
        then case Stats (t_window t) of (loss, rtt, _) \<Rightarrow>
          (fgt (pb_MaxLossPct (t_probeCfg t)) (Fin 0) \<and> fgt loss (pb_MaxLossPct (t_probeCfg t))) \<or>
          (pb_MaxRTTMs (t_probeCfg t) > 0 \<and> fgt rtt (f_of_int (pb_MaxRTTMs (t_probeCfg t))))
        else False
      else False)"
  by (auto simp: Degraded_def split: prod.split)

text \<open>A small deployment the examples below run on: three paths, the guards off, recovery after
  two replies.\<close>

definition sample_cfg :: Config where
  "sample_cfg = Defaults\<lparr>c_Mode := ModeArmed, c_Probe := default_probe
     \<lparr>pb_RecoverThreshold := 2, pb_FailThreshold := 2, pb_MaxLossPct := Fin 0, pb_MaxRTTMs := 0\<rparr>\<rparr>"

definition t0 :: gotime where "t0 = 63900000000 * 1000000000"

definition sample_feed :: "Engine \<Rightarrow> (int \<times> bool \<times> duration \<times> gotime) list \<Rightarrow> Engine" where
  "sample_feed e evs = foldl (\<lambda>e (i, lost, rtt, t). onResult e
     \<lparr>r_PathID = i, r_Seq = 1, r_RTT = rtt, r_Lost = lost, r_At = t\<rparr> t) e evs"

definition sample_engine :: Engine where
  "sample_engine = sample_feed
     (startProbers (\<lambda>_. True) (New sample_cfg t0 False (\<lambda>_. None) ''wg-lte1'' ''wg-lte1'')\<lparr>e_active := 2\<rparr>)
     [(1, False, 0, t0 + 1), (1, False, 0, t0 + 2), (2, False, 0, t0 + 3), (2, False, 0, t0 + 4)]"

lemma select_target_fallback:
  assumes "fo_Selection (c_Failover cfg) = SelectionQuality" and "e_active e \<noteq> 0"
    and "PathByID cfg (e_active e) = Some a" and "list_ex (\<lambda>p. p_ID p = e_active e) el"
    and "p_ID (qualityTarget e el cfg) \<noteq> e_active e" and "p_ID (qualityTarget e el cfg) \<noteq> preferredPathID cfg"
  shows "fst (select_target e cfg el now) =
    (if beatsByMargin e (p_ID (qualityTarget e el cfg)) (e_active e) cfg \<and>
        \<not> time_Sub now (if IsZero (e_beatenSince e) then now else e_beatenSince e)
            < seconds (fo_HoldDownSec (c_Failover cfg)) \<and>
        \<not> (seconds (ql_MinDwellSec (fo_Quality (c_Failover cfg))) > 0 \<and> \<not> IsZero (e_lastSwitch e) \<and>
           time_Sub now (e_lastSwitch e) < seconds (ql_MinDwellSec (fo_Quality (c_Failover cfg))))
     then p_ID (qualityTarget e el cfg) else e_active e)"
  using assms by (simp add: select_target_def Let_def)

lemma time_Sub_self [simp]: "time_Sub t t = 0"
  by (simp add: time_Sub_def minInt64_def maxInt64_def)

text \<open>Two fallbacks measured at 2 ms and at 0 ms, the preferred path silent, quality selection.\<close>

definition sample_quality_cfg :: Config where
  "sample_quality_cfg = sample_cfg\<lparr>c_Failover := default_failover
     \<lparr>fo_Selection := SelectionQuality, fo_Quality := default_quality\<lparr>ql_MarginPct := Fin 0\<rparr>\<rparr>\<rparr>"

definition sample_quality :: Engine where
  "sample_quality = (sample_feed (startProbers (\<lambda>_. True) (New sample_quality_cfg t0 False (\<lambda>_. None) [] []))
     [(2, False, 2000000, t0 + 1), (2, False, 2000000, t0 + 2), (3, False, 0, t0 + 3), (3, False, 0, t0 + 4)])
     \<lparr>e_active := 2, e_beatenSince := t0\<rparr>"

lemma sample_quality_windows:
  "map_option (\<lambda>t. w_entries (t_window t)) (e_trackers sample_quality 2) =
     Some (map (\<lambda>k. \<lparr>r_PathID = 2, r_Seq = 1, r_RTT = 2000000, r_Lost = False, r_At = t0 + k\<rparr>) [1, 2])"
  "map_option (\<lambda>t. w_entries (t_window t)) (e_trackers sample_quality 3) =
     Some (map (\<lambda>k. \<lparr>r_PathID = 3, r_Seq = 1, r_RTT = 0, r_Lost = False, r_At = t0 + k\<rparr>) [3, 4])"
  by code_simp+

lemma f64_numerals: "f64 0 = Fin 0" "f64 1 = Fin 1" "numeral k < (2 ^ 53 :: int) \<Longrightarrow> f64 (numeral k) = Fin (numeral k)"
  using f64_small [of 0] f64_small [of 1] f64_small [of "numeral k"] by simp_all

lemma sample_quality_scores:
  assumes "e_trackers sample_quality 2 = Some t2" "e_trackers sample_quality 3 = Some t3"
  shows "Score t2 (fo_Quality (c_Failover sample_quality_cfg)) = Fin 2"
    and "Score t3 (fo_Quality (c_Failover sample_quality_cfg)) = Fin 0"
  using sample_quality_windows assms
  by (simp_all add: Score_def Stats_def Let_def f64_numerals f_of_int_def rtt_ms_def go_div_nonneg fabs_dev_def
      fsub_def sample_quality_cfg_def default_quality_def)

lemma sample_quality_trackers:
  obtains t2 t3 where "e_trackers sample_quality 2 = Some t2" "e_trackers sample_quality 3 = Some t3"
  using sample_quality_windows by auto

lemma sample_quality_score:
  "score sample_quality 2 sample_quality_cfg = Fin 2" "score sample_quality 3 sample_quality_cfg = Fin 0"
proof -
  obtain t2 t3 where t: "e_trackers sample_quality 2 = Some t2" "e_trackers sample_quality 3 = Some t3"
    by (rule sample_quality_trackers)
  show "score sample_quality 2 sample_quality_cfg = Fin 2" "score sample_quality 3 sample_quality_cfg = Fin 0"
    by (simp_all add: score_def t sample_quality_scores [OF t])
qed

lemma sample_quality_beats: "beatsByMargin sample_quality 3 2 sample_quality_cfg"
proof -
  obtain t2 t3 where t: "e_trackers sample_quality 2 = Some t2" "e_trackers sample_quality 3 = Some t3"
    by (rule sample_quality_trackers)
  have "ql_MarginPct (fo_Quality (c_Failover sample_quality_cfg)) = Fin 0"
    by (simp add: sample_quality_cfg_def)
  then show ?thesis
    by (simp add: beatsByMargin_def t sample_quality_scores [OF t] Let_def fsub_def f64_numerals)
qed

definition sample_p2 :: PathConfig where "sample_p2 = default_paths ! 1"
definition sample_p3 :: PathConfig where "sample_p3 = default_paths ! 2"

lemma sample_quality_eligible: "eligible_paths sample_quality sample_quality_cfg = [sample_p2, sample_p3]"
  by code_simp

lemma sample_quality_ids: "p_ID sample_p2 = 2" "p_ID sample_p3 = 3"
  "preferredPathID sample_quality_cfg = 1" "e_active sample_quality = 2" "e_pinned sample_quality = 0"
  "PathByID sample_quality_cfg 2 = Some sample_p2"
  "fo_Selection (c_Failover sample_quality_cfg) = SelectionQuality"
  by code_simp+

lemma sample_quality_target: "qualityTarget sample_quality [sample_p2, sample_p3] sample_quality_cfg = sample_p3"
  by (simp add: qualityTarget_def sample_quality_ids sample_quality_score Let_def)

lemma sample_quality_times:
  "\<not> time_Sub (t0 + seconds 100) (if IsZero (e_beatenSince sample_quality) then t0 + seconds 100
     else e_beatenSince sample_quality) < seconds (fo_HoldDownSec (c_Failover sample_quality_cfg))"
  "IsZero (e_lastSwitch sample_quality)"
  by code_simp+

lemma sample_quality_choice:
  "fst (selectPath sample_quality sample_quality_cfg (t0 + seconds 100)) = 3"
proof -
  have "fst (select_target sample_quality sample_quality_cfg [sample_p2, sample_p3] (t0 + seconds 100)) = 3"
    using sample_quality_beats sample_quality_times
    by (subst select_target_fallback [where a = sample_p2])
       (simp_all add: sample_quality_target sample_quality_ids)
  then show ?thesis
    by (simp add: selectPath_unpinned sample_quality_ids sample_quality_eligible)
qed

section \<open>One evaluation pass\<close>

definition chosen_iface :: "Config \<Rightarrow> int \<Rightarrow> string" where
  "chosen_iface cfg i = p_Iface (case PathByID cfg i of None \<Rightarrow> zero_path | Some p \<Rightarrow> p)"

definition pass_choice :: "Engine \<Rightarrow> gotime \<Rightarrow> int" where
  "pass_choice e now = fst (selectPath (foldl (update_block now) e (c_Paths (e_cfg e))) (e_cfg e) now)"

definition pass_switches :: "(string \<Rightarrow> bool) \<Rightarrow> Engine \<Rightarrow> gotime \<Rightarrow> bool" where
  "pass_switches ip e now \<longleftrightarrow> \<not> e_reverted e \<and> pass_choice e now \<noteq> 0 \<and> pass_choice e now \<noteq> e_active e \<and>
     (e_applying e \<longrightarrow> ip (chosen_iface (e_cfg e) (pass_choice e now)))"

lemma held_events_frame [simp]:
  "e_active (held_events pl e) = e_active e"
  "e_route (held_events pl e) = e_route e"
  "e_ctlRoute (held_events pl e) = e_ctlRoute e"
  "e_decisionSeq (held_events pl e) = e_decisionSeq e"
  "e_lastSwitch (held_events pl e) = e_lastSwitch e"
  "e_probers (held_events pl e) = e_probers e"
  "e_held (held_events pl e) = e_held e"
  "e_reverted (held_events pl e) = e_reverted e"
  "e_applying (held_events pl e) = e_applying e"
  "e_cfg (held_events pl e) = e_cfg e"
  "e_pinned (held_events pl e) = e_pinned e"
  by (simp_all add: held_events_def AddEvent_def Let_def)

lemma evaluate_spec:
  "e_active (evaluate ctl ip e now) = (if pass_switches ip e now then pass_choice e now else e_active e)"
  "e_decisionSeq (evaluate ctl ip e now) = (if pass_switches ip e now then e_decisionSeq e + 1 else e_decisionSeq e)"
  "e_lastSwitch (evaluate ctl ip e now) = (if pass_switches ip e now then now else e_lastSwitch e)"
  "e_route (evaluate ctl ip e now) =
     (if pass_switches ip e now \<and> e_applying e then chosen_iface (e_cfg e) (pass_choice e now) else e_route e)"
  "\<not> pass_switches ip e now \<Longrightarrow> e_probers (evaluate ctl ip e now) = e_probers e"
  by (auto simp: evaluate_def evaluate_decide_def evaluate_apply_def applyActivePath_def commitSwitch_def
      AddEvent_def Let_def pass_switches_def pass_choice_def chosen_iface_def split: prod.splits)

lemma evaluate_held:
  "\<not> e_reverted e \<Longrightarrow> e_held (evaluate ctl ip e now) =
     fst (snd (selectPath (foldl (update_block now) e (c_Paths (e_cfg e))) (e_cfg e) now))"
  by (auto simp: evaluate_def evaluate_decide_def evaluate_apply_def applyActivePath_def commitSwitch_def
      AddEvent_def Let_def split: prod.splits)

lemma evaluate_ctlRoute:
  "pass_choice e now = 0 \<or> pass_choice e now = e_active e \<Longrightarrow>
   e_ctlRoute (evaluate ctl ip e now) = e_ctlRoute e"
  by (auto simp: evaluate_def evaluate_decide_def evaluate_apply_def Let_def pass_choice_def split: prod.splits)

lemma pass_choice_cases:
  assumes dist: "distinct (map p_ID (c_Paths (e_cfg e)))" and pin: "e_pinned e = 0"
  shows "(pass_choice e now = 0 \<and> (\<forall>p \<in> set (c_Paths (e_cfg e)). \<not> carries_at e p now)) \<or>
         (\<exists>p \<in> set (c_Paths (e_cfg e)). p_ID p = pass_choice e now \<and> carries_at e p now)"
proof -
  let ?e = "foldl (update_block now) e (c_Paths (e_cfg e))" and ?cfg = "e_cfg e"
  have mc: "may_carry ?e (p_ID p) \<longleftrightarrow> carries_at e p now" if "p \<in> set (c_Paths ?cfg)" for p
    using may_carry_iff [OF dist that] .
  show ?thesis
  proof (cases "eligible_paths ?e ?cfg = []")
    case True
    then have "\<forall>p \<in> set (c_Paths ?cfg). \<not> carries_at e p now"
      using set_eligible [of ?e ?cfg] mc by auto
    then show ?thesis using True pin by (simp add: pass_choice_def selectPath_unpinned)
  next
    case False
    obtain p where p: "p \<in> set (eligible_paths ?e ?cfg)" "p_ID p = pass_choice e now"
      using select_target_mem [OF False, of ?e ?cfg now] pin False
      by (auto simp: pass_choice_def selectPath_unpinned)
    have m: "p \<in> set (c_Paths ?cfg)" "may_carry ?e (p_ID p)" using p(1) unfolding set_eligible by blast+
    have "carries_at e p now" using mc [OF m(1)] m(2) by blast
    then show ?thesis using p(2) m(1) by blast
  qed
qed

section \<open>Properties\<close>

text \<open>Only a path that is usable and not blocked by policy is ever chosen automatically, and
  the engine is held exactly when there is none; then no path is named, so the last route
  stays installed (the dead-man behaviour).\<close>

theorem selectPath_only_usable:
  assumes "e_pinned e = 0"
  shows "case selectPath e cfg now of (chosen, held, _, _) \<Rightarrow>
    (held \<longleftrightarrow> (\<forall>p \<in> set (c_Paths cfg). \<not> may_carry e (p_ID p))) \<and>
    (if held then chosen = 0
     else (\<exists>p \<in> set (c_Paths cfg). p_ID p = chosen \<and> may_carry e chosen))"
proof (cases "eligible_paths e cfg = []")
  case True
  then show ?thesis
    using assms set_eligible [of e cfg] by (auto simp: selectPath_unpinned)
next
  case False
  obtain p where p: "p \<in> set (eligible_paths e cfg)"
    "p_ID p = fst (select_target e cfg (eligible_paths e cfg) now)"
    using select_target_mem [OF False, of e cfg now] by auto
  then have "p \<in> set (c_Paths cfg)" "may_carry e (p_ID p)" by (simp_all add: set_eligible)
  moreover from this have "\<not> (\<forall>p \<in> set (c_Paths cfg). \<not> may_carry e (p_ID p))" by blast
  ultimately show ?thesis using False p(2) assms by (auto simp: selectPath_unpinned)
qed

theorem selectPath_only_usable_witness:
  "case selectPath sample_engine sample_cfg t0 of (chosen, held, _, _) \<Rightarrow>
    (held \<longleftrightarrow> (\<forall>p \<in> set (c_Paths sample_cfg). \<not> may_carry sample_engine (p_ID p))) \<and>
    (if held then chosen = 0
     else (\<exists>p \<in> set (c_Paths sample_cfg). p_ID p = chosen \<and> may_carry sample_engine chosen))"
  by (rule selectPath_only_usable) code_simp

text \<open>Failover is immediate: in priority mode, when the active path may no longer carry
  traffic and some path may, the choice is a path that may carry it of the best priority
  there is, with no hold-down.\<close>

theorem failover_immediate:
  assumes "e_pinned e = 0" and "fo_Selection (c_Failover cfg) \<noteq> SelectionQuality"
    and "\<not> may_carry e (e_active e)" and "q \<in> set (c_Paths cfg)" and "may_carry e (p_ID q)"
  shows "\<exists>p \<in> set (c_Paths cfg). fst (selectPath e cfg now) = p_ID p \<and> may_carry e (p_ID p) \<and>
           (\<forall>r \<in> set (c_Paths cfg). may_carry e (p_ID r) \<longrightarrow> p_Priority p \<le> p_Priority r)"
proof -
  let ?el = "eligible_paths e cfg"
  have ne: "?el \<noteq> []" using assms(4,5) set_eligible [of e cfg] by (metis (mono_tags, lifting) empty_iff empty_set mem_Collect_eq)
  have "\<not> list_ex (\<lambda>p. p_ID p = e_active e) ?el"
    using assms(3) by (auto simp: list_ex_iff set_eligible)
  then have "fst (selectPath e cfg now) = p_ID (hd ?el)"
    using assms(1,2) ne by (auto simp: selectPath_unpinned select_target_def Let_def split: option.split)
  then show ?thesis using eligible_hd_min [OF ne] by (auto simp: set_eligible)
qed

theorem failover_immediate_witness:
  "\<exists>p \<in> set (c_Paths sample_cfg).
     fst (selectPath (sample_engine\<lparr>e_active := 3\<rparr>) sample_cfg t0) = p_ID p \<and>
     may_carry (sample_engine\<lparr>e_active := 3\<rparr>) (p_ID p) \<and>
     (\<forall>r \<in> set (c_Paths sample_cfg). may_carry (sample_engine\<lparr>e_active := 3\<rparr>) (p_ID r) \<longrightarrow>
        p_Priority p \<le> p_Priority r)"
  by (rule failover_immediate [where q = "hd (c_Paths sample_cfg)"]) code_simp+

text \<open>C8. Failback waits: in priority mode a working active path is left for exactly one reason, a
  path that may carry traffic, has strictly better priority than the active one and the best
  there is, and whose clean streak is at least the hold-down; when the best path meets that
  condition it is taken.\<close>

theorem failback_hold_down:
  assumes "e_pinned e = 0" and "fo_Selection (c_Failover cfg) \<noteq> SelectionQuality"
    and "e_active e \<noteq> 0" and "PathByID cfg (e_active e) = Some a" and "may_carry e (e_active e)"
  shows "\<exists>best tr. best \<in> set (c_Paths cfg) \<and> e_trackers e (p_ID best) = Some tr \<and> may_carry e (p_ID best) \<and>
    (\<forall>r \<in> set (c_Paths cfg). may_carry e (p_ID r) \<longrightarrow> p_Priority best \<le> p_Priority r) \<and>
    fst (selectPath e cfg now) =
      (if p_Priority best < p_Priority a \<and> CleanFor tr now \<ge> seconds (fo_HoldDownSec (c_Failover cfg))
       then p_ID best else e_active e)"
proof -
  let ?el = "eligible_paths e cfg"
  have a: "a \<in> set ?el" "p_ID a = e_active e"
    using PathByID_Some [OF assms(4)] assms(5) by (auto simp: set_eligible)
  then have ne: "?el \<noteq> []" and ex: "list_ex (\<lambda>p. p_ID p = e_active e) ?el" by (auto simp: list_ex_iff)
  obtain tr where tr: "e_trackers e (p_ID (hd ?el)) = Some tr"
    using eligible_hd_min(1) [OF ne] by (auto simp: set_eligible may_carry_def split: option.splits)
  have "fst (selectPath e cfg now) =
      (if p_Priority (hd ?el) < p_Priority a \<and> CleanFor tr now \<ge> seconds (fo_HoldDownSec (c_Failover cfg))
       then p_ID (hd ?el) else e_active e)"
    using assms ne ex tr by (auto simp: selectPath_unpinned select_target_def Let_def)
  then show ?thesis using eligible_hd_min [OF ne] tr by (auto simp: set_eligible intro!: exI [of _ "hd ?el"])
qed

theorem failback_hold_down_witness:
  "\<exists>best tr. best \<in> set (c_Paths sample_cfg) \<and> e_trackers sample_engine (p_ID best) = Some tr \<and>
    may_carry sample_engine (p_ID best) \<and>
    (\<forall>r \<in> set (c_Paths sample_cfg). may_carry sample_engine (p_ID r) \<longrightarrow> p_Priority best \<le> p_Priority r) \<and>
    fst (selectPath sample_engine sample_cfg (t0 + 1)) =
      (if p_Priority best < p_Priority (c_Paths sample_cfg ! 1) \<and>
          CleanFor tr (t0 + 1) \<ge> seconds (fo_HoldDownSec (c_Failover sample_cfg))
       then p_ID best else e_active sample_engine)"
  by (rule failback_hold_down) code_simp+

text \<open>Quality mode moves traffic between two working fallbacks only when it is earned: the new
  path has the best score of all eligible paths, beats the active one by the configured
  margin, has done so for the whole hold-down, and the minimum dwell since the last switch
  has passed.\<close>

theorem quality_switch_earned:
  assumes "e_pinned e = 0" and "fo_Selection (c_Failover cfg) = SelectionQuality"
    and "e_active e \<noteq> 0" and "PathByID cfg (e_active e) \<noteq> None" and "may_carry e (e_active e)"
    and "chosen = fst (selectPath e cfg now)" and "chosen \<noteq> e_active e" and "chosen \<noteq> preferredPathID cfg"
  shows "may_carry e chosen \<and> beatsByMargin e chosen (e_active e) cfg \<and>
    (\<forall>r \<in> set (c_Paths cfg). may_carry e (p_ID r) \<longrightarrow> \<not> flt (score e (p_ID r) cfg) (score e chosen cfg)) \<and>
    seconds (fo_HoldDownSec (c_Failover cfg)) \<le>
      (if IsZero (e_beatenSince e) then 0 else time_Sub now (e_beatenSince e)) \<and>
    (IsZero (e_lastSwitch e) \<or>
       seconds (ql_MinDwellSec (fo_Quality (c_Failover cfg))) \<le> max 0 (time_Sub now (e_lastSwitch e)))"
proof -
  let ?el = "eligible_paths e cfg"
  obtain a where a: "PathByID cfg (e_active e) = Some a" using assms(4) by blast
  have "a \<in> set ?el" "p_ID a = e_active e"
    using PathByID_Some [OF a] assms(5) by (auto simp: set_eligible)
  then have ne: "?el \<noteq> []" and ex: "list_ex (\<lambda>p. p_ID p = e_active e) ?el" by (auto simp: list_ex_iff)
  have c: "chosen = fst (select_target e cfg ?el now)"
    using assms(1,6) ne by (simp add: selectPath_unpinned)
  have "p_ID (qualityTarget e ?el cfg) \<noteq> preferredPathID cfg \<and> chosen = p_ID (qualityTarget e ?el cfg)"
    using c assms(2,3,7,8) ex a by (auto simp: select_target_def Let_def split: if_splits option.splits)
  then have t: "chosen = p_ID (qualityTarget e ?el cfg)" and
    bl: "qualityTarget e ?el cfg = best_loop e cfg ?el (hd ?el) (score e (p_ID (hd ?el)) cfg)"
    by (auto simp: qualityTarget_def Let_def split: if_splits)
  have best: "\<forall>r \<in> set ?el. \<not> flt (score e (p_ID r) cfg) (score e chosen cfg)"
    using best_loop_min [OF refl, of _ "hd ?el" ?el e cfg] unfolding t bl by blast
  have "beatsByMargin e chosen (e_active e) cfg \<and>
    seconds (fo_HoldDownSec (c_Failover cfg)) \<le>
      (if IsZero (e_beatenSince e) then 0 else time_Sub now (e_beatenSince e)) \<and>
    (IsZero (e_lastSwitch e) \<or>
       seconds (ql_MinDwellSec (fo_Quality (c_Failover cfg))) \<le> max 0 (time_Sub now (e_lastSwitch e)))"
    using select_target_fallback [OF assms(2,3) a ex, of now] c t assms(7,8)
    by (auto split: if_splits)
  moreover have "qualityTarget e ?el cfg \<in> set ?el" by (rule qualityTarget_mem [OF ne])
  ultimately show ?thesis using best t by (auto simp: set_eligible)
qed

text \<open>The margin is a strict order on the scores: a path that beats another by the margin has a
  strictly lower score, so the other does not beat it back, with floating-point rounding
  and every configured percentage included.\<close>

theorem beatsByMargin_strict:
  assumes "beatsByMargin e a b cfg" and "weights_ok (fo_Quality (c_Failover cfg))"
    and "e_trackers e a = Some ta" and "window_sane (t_window ta)"
    and "e_trackers e b = Some tb" and "window_sane (t_window tb)"
  shows "flt (score e a cfg) (score e b cfg) \<and> \<not> beatsByMargin e b a cfg"
  using beatsByMargin_lt [OF assms(1,5,6,2)] beatsByMargin_lt [OF _ assms(3,4,2)] flt_asym by blast


theorem beatsByMargin_strict_witness:
  "flt (score sample_quality 3 sample_quality_cfg) (score sample_quality 2 sample_quality_cfg) \<and>
   \<not> beatsByMargin sample_quality 2 3 sample_quality_cfg"
proof -
  obtain t2 t3 where t: "e_trackers sample_quality 2 = Some t2" "e_trackers sample_quality 3 = Some t3"
    by (rule sample_quality_trackers)
  show ?thesis
    using sample_quality_windows t
    by (intro beatsByMargin_strict [OF sample_quality_beats _ t(2) _ t(1)])
       (simp_all add: window_sane_def go_arith weights_ok_def sample_quality_cfg_def default_quality_def)
qed

theorem quality_switch_earned_witness:
  "beatsByMargin sample_quality 3 (e_active sample_quality) sample_quality_cfg"
proof (rule quality_switch_earned [where now = "t0 + seconds 100", THEN conjunct2, THEN conjunct1])
  show "may_carry sample_quality (e_active sample_quality)" by code_simp
qed (simp_all add: sample_quality_choice sample_quality_ids)

text \<open>A pass of the decision loop on an engine that is not pinned moves the traffic only onto a
  configured path that is enabled, within quota, reachable, not quarantined and not
  degraded; it advances the decision sequence by one with it, and when armed the kernel
  has accepted the route through that path's interface and the main route points there.\<close>

theorem evaluate_switch_safe:
  assumes "distinct (map p_ID (c_Paths (e_cfg e)))" and "\<forall>p \<in> set (c_Paths (e_cfg e)). p_ID p \<noteq> 0"
    and "e_pinned e = 0" and "e_active (evaluate ctl ip e now) \<noteq> e_active e"
  shows "\<not> e_reverted e \<and>
    (\<exists>p \<in> set (c_Paths (e_cfg e)). p_ID p = e_active (evaluate ctl ip e now) \<and> carries_at e p now \<and>
       e_decisionSeq (evaluate ctl ip e now) = e_decisionSeq e + 1 \<and>
       (e_applying e \<longrightarrow> ip (p_Iface p) \<and> e_route (evaluate ctl ip e now) = p_Iface p))"
proof -
  have sw: "pass_switches ip e now" using assms(4) by (simp add: evaluate_spec split: if_splits)
  then have "pass_choice e now \<noteq> 0" by (simp add: pass_switches_def)
  then obtain p where p: "p \<in> set (c_Paths (e_cfg e))" "p_ID p = pass_choice e now" "carries_at e p now"
    using pass_choice_cases [OF assms(1,3)] by blast
  then have "chosen_iface (e_cfg e) (pass_choice e now) = p_Iface p"
    using PathByID_distinct [OF assms(1) p(1)] by (simp add: chosen_iface_def)
  then show ?thesis using sw p by (auto simp: evaluate_spec pass_switches_def intro!: bexI [of _ p])
qed

theorem evaluate_switch_safe_witness:
  "\<exists>p \<in> set (c_Paths (e_cfg sample_engine)). p_ID p = 1 \<and> carries_at sample_engine p (t0 + seconds 100) \<and>
     e_route (evaluate (\<lambda>_. True) (\<lambda>_. True) sample_engine (t0 + seconds 100)) = p_Iface p"
proof -
  let ?e' = "evaluate (\<lambda>_. True) (\<lambda>_. True) sample_engine (t0 + seconds 100)"
  have "e_active ?e' = 1" "e_active sample_engine = 2" "e_applying sample_engine" by code_simp+
  moreover have "distinct (map p_ID (c_Paths (e_cfg sample_engine)))"
    "\<forall>p \<in> set (c_Paths (e_cfg sample_engine)). p_ID p \<noteq> 0" "e_pinned sample_engine = 0" by code_simp+
  ultimately show ?thesis
    using evaluate_switch_safe [of sample_engine "\<lambda>_. True" "\<lambda>_. True" "t0 + seconds 100"] by auto
qed

text \<open>The dead-man rule: when no path may carry traffic, a pass keeps the active path, both
  routes, the decision sequence and every prober as they are and reports the engine held.\<close>

theorem evaluate_dead_man:
  assumes "distinct (map p_ID (c_Paths (e_cfg e)))" and "e_pinned e = 0" and "\<not> e_reverted e"
    and "\<forall>p \<in> set (c_Paths (e_cfg e)). p_ID p \<noteq> 0 \<and> \<not> carries_at e p now"
  shows "e_held (evaluate ctl ip e now) \<and> e_active (evaluate ctl ip e now) = e_active e \<and>
    e_route (evaluate ctl ip e now) = e_route e \<and> e_ctlRoute (evaluate ctl ip e now) = e_ctlRoute e \<and>
    e_decisionSeq (evaluate ctl ip e now) = e_decisionSeq e \<and>
    e_probers (evaluate ctl ip e now) = e_probers e"
proof -
  let ?e = "foldl (update_block now) e (c_Paths (e_cfg e))"
  have el: "eligible_paths ?e (e_cfg e) = []"
    using assms(4) may_carry_iff [OF assms(1), of _ now e] set_eligible [of ?e "e_cfg e"]
    by (metis (mono_tags, lifting) list.set_sel(1) mem_Collect_eq)
  have c0: "pass_choice e now = 0" using pass_choice_cases [OF assms(1,2)] assms(4) by auto
  then have "\<not> pass_switches ip e now" by (simp add: pass_switches_def)
  moreover have "e_held (evaluate ctl ip e now)"
    using el assms(2,3) by (simp add: evaluate_held selectPath_unpinned)
  ultimately show ?thesis using c0 by (simp add: evaluate_spec evaluate_ctlRoute)
qed

theorem evaluate_dead_man_witness:
  "e_held (evaluate (\<lambda>_. True) (\<lambda>_. True) (sample_engine\<lparr>e_trackers := (\<lambda>_. None)\<rparr>) t0)"
  by (rule evaluate_dead_man [THEN conjunct1]) code_simp+

text \<open>The preferred path is never displaced while it may carry the traffic: if the active path
  is the enabled path of the best priority and may carry traffic, a pass leaves it active
  whatever the other paths measure, in both selection modes.\<close>

theorem preferred_not_displaced:
  assumes "distinct (map p_ID (c_Paths (e_cfg e)))" and "\<forall>p \<in> set (c_Paths (e_cfg e)). p_ID p \<noteq> 0"
    and "e_pinned e = 0" and "p \<in> set (c_Paths (e_cfg e))" and "carries_at e p now"
    and "p_ID p = preferredPathID (e_cfg e)" and "e_active e = p_ID p"
  shows "e_active (evaluate ctl ip e now) = e_active e \<and> e_route (evaluate ctl ip e now) = e_route e \<and>
    e_decisionSeq (evaluate ctl ip e now) = e_decisionSeq e"
proof -
  let ?e = "foldl (update_block now) e (c_Paths (e_cfg e))" and ?cfg = "e_cfg e"
  have mc: "may_carry ?e (p_ID q) \<longleftrightarrow> carries_at e q now" if "q \<in> set (c_Paths ?cfg)" for q
    using may_carry_iff [OF assms(1) that] .
  have "eligible_paths ?e ?cfg \<noteq> [] \<and> p_ID (hd (eligible_paths ?e ?cfg)) = preferredPathID ?cfg"
    using mc [OF assms(4)] assms(5,6) PathByID_distinct [OF assms(1,4)]
    by (intro preferred_heads_eligible [OF assms(2,1)]) (auto simp: mc carries_at_def)
  then have el: "eligible_paths ?e ?cfg \<noteq> []" "p_ID (hd (eligible_paths ?e ?cfg)) = e_active e"
    using assms(6,7) by simp_all
  then have "qualityTarget ?e (eligible_paths ?e ?cfg) ?cfg = hd (eligible_paths ?e ?cfg)"
    using assms(6,7) by (simp add: qualityTarget_def Let_def)
  then have "fst (select_target ?e ?cfg (eligible_paths ?e ?cfg) now) = e_active e"
    using el by (auto simp: select_target_def Let_def split: option.split)
  then have "pass_choice e now = e_active e"
    using el(1) assms(3) by (simp add: pass_choice_def selectPath_unpinned)
  then show ?thesis by (simp add: evaluate_spec pass_switches_def)
qed

theorem preferred_not_displaced_witness:
  "e_active (evaluate (\<lambda>_. True) (\<lambda>_. True) (sample_engine\<lparr>e_active := 1\<rparr>) t0) = 1"
proof -
  let ?e = "sample_engine\<lparr>e_active := 1\<rparr>"
  have "e_active (evaluate (\<lambda>_. True) (\<lambda>_. True) ?e t0) = e_active ?e"
    by (rule preferred_not_displaced [where p = "hd (c_Paths (e_cfg sample_engine))", THEN conjunct1]) code_simp+
  then show ?thesis by simp
qed

end
