(* ===== verification/EngineLife.thy ===== *)
theory EngineLife
  imports SelectorProps
begin

text \<open>
  The life of the frontend engine around the decision loop (\<open>src/internal/engine/engine.go\<close>):
  the startup and settings-save sequence (\<open>Reconfigure\<close>, \<open>applySystemConfig\<close>,
  \<open>startProbers\<close>), the repair of lost routes (\<open>reconcileRouting\<close>) and \<open>Revert\<close>, as operations on
  the state of \<open>Selector\<close>, and the interleavings of all of them.

  Modelled of the kernel are the main-table route and the control route. The overlay address,
  sysctls, probe tables, nftables tables and queue disciplines have no state here; what of
  them the engine remembers is the data-plane flag. \<open>ctl\<close>, \<open>ip\<close>, \<open>nft\<close>, \<open>ifx\<close>, \<open>rd\<close>, \<open>del\<close> are the
  answers of the system: whether the control route, the main route and the ruleset are
  accepted, whether an interface exists, a route can be read back, and deletes take.
\<close>

section \<open>Applying a configuration\<close>

definition seed_control :: "(string \<Rightarrow> bool) \<Rightarrow> (string \<Rightarrow> bool) \<Rightarrow> Engine \<Rightarrow> Engine" where
  "seed_control ifx ctl e =
     (if e_active e = 0 then
        case find (\<lambda>p. ifx (p_Iface p)) (c_Paths (e_cfg e)) of
          None \<Rightarrow> e
        | Some p \<Rightarrow> if ctl (p_Iface p) then e\<lparr>e_ctlRoute := p_Iface p\<rparr> else e
      else e)"

definition applySystemConfig ::
    "(string \<Rightarrow> bool) \<Rightarrow> (string \<Rightarrow> bool) \<Rightarrow> (string \<Rightarrow> bool) \<Rightarrow> bool \<Rightarrow> Engine \<Rightarrow> Engine" where
  "applySystemConfig ifx ctl ip nft e =
     (let e = seed_control ifx ctl e;
          e = (case PathByID (e_cfg e) (e_active e) of
                 None \<Rightarrow> e
               | Some p \<Rightarrow> (case applyActivePath ctl ip p e of (e, ok) \<Rightarrow>
                   if ok then e else AddEvent (EvReinstallFailed (e_active e) (p_Iface p)) e))
      in if \<not> nft then AddEvent EvRulesetFailed e
         else if e_applying e then e\<lparr>e_dataPlane := True\<rparr> else e)"

text \<open>The swap of a settings save, made under both locks.\<close>

definition reconfigure_swap :: "Config \<Rightarrow> Engine \<Rightarrow> Engine" where
  "reconfigure_swap cfg e = e\<lparr>e_cfg := cfg, e_applying := runnerFor (c_Mode cfg),
     e_cfgVersion := e_cfgVersion e + 1, e_reverted := False\<rparr>"

definition reconfigure_finish ::
    "(string \<Rightarrow> Location option) \<Rightarrow> (int \<Rightarrow> gotime \<Rightarrow> int option) \<Rightarrow> bool \<Rightarrow> string \<Rightarrow> bool \<Rightarrow> gotime \<Rightarrow>
     Engine \<Rightarrow> Engine" where
  "reconfigure_finish tz usage gr prevMode dataPlane now e =
     (let e = wakeDecision (refreshQuota tz usage gr e now);
          e = AddEvent (EvConfig (c_Mode (e_cfg e))) e
      in if prevMode = ModeArmed \<and> c_Mode (e_cfg e) = ModeObserve \<and> dataPlane
         then AddEvent EvDisarmed e else e)"

datatype reconfigure_error = SaveConfigFailed

definition Reconfigure ::
    "(string \<Rightarrow> bool) \<Rightarrow> (string \<Rightarrow> bool) \<Rightarrow> (string \<Rightarrow> bool) \<Rightarrow> bool \<Rightarrow> (PathConfig \<Rightarrow> bool) \<Rightarrow>
     (string \<Rightarrow> Location option) \<Rightarrow> (int \<Rightarrow> gotime \<Rightarrow> int option) \<Rightarrow> bool \<Rightarrow> bool \<Rightarrow>
     Config \<Rightarrow> gotime \<Rightarrow> Engine \<Rightarrow> reconfigure_error + Engine" where
  "Reconfigure ifx ctl ip nft np tz usage gr sv cfg now e =
     (if \<not> sv then Inl SaveConfigFailed
      else
        let prevMode = c_Mode (e_cfg e);
            e1 = reconfigure_swap cfg e;
            e2 = startProbers np (applySystemConfig ifx ctl ip nft e1)
        in Inr (reconfigure_finish tz usage gr prevMode (e_dataPlane e1) now e2))"

text \<open>\<open>Run\<close> up to its loop: a latched engine installs and measures nothing.\<close>

definition Run_start ::
    "(string \<Rightarrow> bool) \<Rightarrow> (string \<Rightarrow> bool) \<Rightarrow> (string \<Rightarrow> bool) \<Rightarrow> bool \<Rightarrow> (PathConfig \<Rightarrow> bool) \<Rightarrow>
     string option \<Rightarrow> (string \<Rightarrow> Location option) \<Rightarrow> (int \<Rightarrow> gotime \<Rightarrow> int option) \<Rightarrow> bool \<Rightarrow> gotime \<Rightarrow>
     Engine \<Rightarrow> Engine" where
  "Run_start ifx ctl ip nft np seen tz usage gr now e =
     (let e = (if e_reverted e then e
               else startProbers np (seedActiveFromKernel seen (applySystemConfig ifx ctl ip nft e)))
      in AddEvent (EvStarted (c_Mode (e_cfg e))) (refreshQuota tz usage gr e now))"

section \<open>Repair\<close>

definition reconcileRouting ::
    "(string \<Rightarrow> bool) \<Rightarrow> (string \<Rightarrow> bool) \<Rightarrow> (string \<Rightarrow> bool) \<Rightarrow> bool \<Rightarrow> Engine \<Rightarrow> Engine" where
  "reconcileRouting ifx ctl ip rd e =
     (if e_reverted e then e
      else case PathByID (e_cfg e) (e_active e) of
        None \<Rightarrow> e
      | Some ap \<Rightarrow>
          if \<not> ifx (p_Iface ap) then e
          else
            let e = (if rd \<and> e_ctlRoute e \<noteq> p_Iface ap \<and> ctl (p_Iface ap)
                     then e\<lparr>e_ctlRoute := p_Iface ap\<rparr> else e)
            in if \<not> e_applying e then e
               else if rd \<and> e_route e \<noteq> p_Iface ap
                    then (if ip (p_Iface ap)
                          then AddEvent (EvRestored (e_active e)) (e\<lparr>e_route := p_Iface ap\<rparr>)
                          else AddEvent (EvReinstallFailed (e_active e) (p_Iface ap)) e)
                    else e)"

section \<open>Revert\<close>

definition Revert :: "bool \<Rightarrow> Engine \<Rightarrow> Engine" where
  "Revert del e =
     AddEvent EvReverted
       (e\<lparr>e_reverted := True,
          e_route := (if del then '''' else e_route e), e_ctlRoute := (if del then '''' else e_ctlRoute e),
          e_cfg := (e_cfg e)\<lparr>c_Mode := ModeObserve\<rparr>, e_applying := runnerFor ModeObserve,
          e_cfgVersion := e_cfgVersion e + 1, e_active := 0, e_pinned := 0, e_dataPlane := False\<rparr>)"

section \<open>Interleavings\<close>

text \<open>
  The engine as a system of steps. The decision loop runs \<open>evaluate\<close> in its two steps, folds
  results in and reconciles on one goroutine, so none of these runs while a decision waits to
  be applied; every operator action may. A settings save is three steps under \<open>reconfMu\<close>
  (\<open>sy_reconf\<close> counts them), which \<open>Revert\<close> takes as well.
\<close>

record engine_sys =
  sy_engine :: Engine
  sy_plan :: "decision_plan option"
  sy_reconf :: nat

datatype engine_op =
    OpDecide gotime
  | OpApply "string \<Rightarrow> bool" "string \<Rightarrow> bool"
  | OpResult Result gotime
  | OpReconcile "string \<Rightarrow> bool" "string \<Rightarrow> bool" "string \<Rightarrow> bool" bool
  | OpPin int
  | OpClearQuarantine int
  | OpRefresh "string \<Rightarrow> Location option" "int \<Rightarrow> gotime \<Rightarrow> int option" bool gotime
  | OpApprove "string \<Rightarrow> Location option" "int \<Rightarrow> gotime \<Rightarrow> int option" bool bool int duration int gotime
  | OpRevoke "string \<Rightarrow> Location option" "int \<Rightarrow> gotime \<Rightarrow> int option" bool bool int gotime
  | OpRevert bool
  | OpSwap Config
  | OpApplySystem "string \<Rightarrow> bool" "string \<Rightarrow> bool" "string \<Rightarrow> bool" bool
  | OpStartProbers "PathConfig \<Rightarrow> bool"
  | OpRouteLost string

definition on_engine :: "engine_sys \<Rightarrow> (Engine \<Rightarrow> Engine) \<Rightarrow> engine_sys" where
  "on_engine s f = s\<lparr>sy_engine := f (sy_engine s)\<rparr>"

text \<open>The kernel drops the routes of an interface that is deleted.\<close>

definition route_lost :: "string \<Rightarrow> Engine \<Rightarrow> Engine" where
  "route_lost i e = e\<lparr>e_route := (if e_route e = i then '''' else e_route e),
     e_ctlRoute := (if e_ctlRoute e = i then '''' else e_ctlRoute e)\<rparr>"

definition keep_error :: "Engine \<Rightarrow> 'x + Engine \<Rightarrow> Engine" where
  "keep_error e r = (case r of Inl _ \<Rightarrow> e | Inr e' \<Rightarrow> e')"

fun engine_step :: "engine_sys \<Rightarrow> engine_op \<Rightarrow> engine_sys" where
  "engine_step s (OpDecide now) =
     (case sy_plan s of
        Some _ \<Rightarrow> s
      | None \<Rightarrow> (case evaluate_decide (sy_engine s) now of (e, pl) \<Rightarrow> s\<lparr>sy_engine := e, sy_plan := pl\<rparr>))"
| "engine_step s (OpApply ctl ip) =
     (case sy_plan s of
        None \<Rightarrow> s
      | Some pl \<Rightarrow> s\<lparr>sy_engine := evaluate_apply ctl ip pl (sy_engine s), sy_plan := None\<rparr>)"
| "engine_step s (OpResult r now) = (if sy_plan s = None then on_engine s (\<lambda>e. onResult e r now) else s)"
| "engine_step s (OpReconcile ifx ctl ip rd) =
     (if sy_plan s = None then on_engine s (reconcileRouting ifx ctl ip rd) else s)"
| "engine_step s (OpPin i) = on_engine s (\<lambda>e. keep_error e (Pin e i))"
| "engine_step s (OpClearQuarantine i) = on_engine s (\<lambda>e. eng_ClearQuarantine e i)"
| "engine_step s (OpRefresh tz usage gr now) = on_engine s (\<lambda>e. refreshQuota tz usage gr e now)"
| "engine_step s (OpApprove tz usage sg gr i dur extra now) =
     on_engine s (\<lambda>e. keep_error e (Approve tz usage sg gr e i dur extra now))"
| "engine_step s (OpRevoke tz usage cg gr i now) =
     on_engine s (\<lambda>e. keep_error e (RevokeApproval tz usage cg gr e i now))"
| "engine_step s (OpRevert del) = (if sy_reconf s = 0 then on_engine s (Revert del) else s)"
| "engine_step s (OpSwap cfg) =
     (if sy_reconf s = 0 then (on_engine s (reconfigure_swap cfg))\<lparr>sy_reconf := 1\<rparr> else s)"
| "engine_step s (OpApplySystem ifx ctl ip nft) =
     (if sy_reconf s = 1 then (on_engine s (applySystemConfig ifx ctl ip nft))\<lparr>sy_reconf := 2\<rparr> else s)"
| "engine_step s (OpStartProbers np) =
     (if sy_reconf s = 2 then (on_engine s (startProbers np))\<lparr>sy_reconf := 0\<rparr> else s)"
| "engine_step s (OpRouteLost i) = on_engine s (route_lost i)"

section \<open>What the operator actions leave alone\<close>

text \<open>The part of the state that only decisions, repairs, saves and reverts write.\<close>

definition placement :: "Engine \<Rightarrow> int \<times> uint64 \<times> string \<times> string \<times> bool \<times> bool \<times> Config" where
  "placement e = (e_active e, e_decisionSeq e, e_route e, e_ctlRoute e, e_applying e, e_reverted e, e_cfg e)"

lemma placement_simps [simp]:
  "placement (AddEvent ev e) = placement e"
  "placement (wakeDecision e) = placement e"
  "placement (e\<lparr>e_trackers := t\<rparr>) = placement e"
  "placement (e\<lparr>e_quotaDec := q\<rparr>) = placement e"
  "placement (e\<lparr>e_grants := g\<rparr>) = placement e"
  "placement (e\<lparr>e_pinned := i\<rparr>) = placement e"
  "placement (held_events pl e) = placement e"
  "placement (e\<lparr>e_beatenSince := b, e_held := h, e_heldReason := r\<rparr>) = placement e"
  by (simp_all add: placement_def AddEvent_def wakeDecision_def held_events_def)

lemma placement_onResult [simp]: "placement (onResult e r now) = placement e"
  by (simp add: onResult_def Let_def split: option.split prod.split Health.split)

lemma placement_quota_events [simp]: "placement (foldl (quota_change_event f) e ps) = placement e"
  by (induction ps arbitrary: e) (simp_all add: quota_change_event_def split: option.split)

lemma placement_refreshQuota [simp]: "placement (refreshQuota tz usage gr e now) = placement e"
  by (simp add: refreshQuota_def)

lemma placement_actions [simp]:
  "placement (keep_error e (Pin e i)) = placement e"
  "placement (eng_ClearQuarantine e i) = placement e"
  "placement (keep_error e (Approve tz usage sg gr e i dur extra now)) = placement e"
  "placement (keep_error e (RevokeApproval tz usage cg gr e i now)) = placement e"
  by (simp_all add: keep_error_def Pin_def eng_ClearQuarantine_def Approve_def RevokeApproval_def Let_def
      split: option.split)

lemma placement_update_blocks [simp]: "placement (foldl (update_block now) e ps) = placement e"
  by (simp add: placement_def)

lemma placement_decide [simp]: "placement (fst (evaluate_decide e now)) = placement e"
  by (simp add: evaluate_decide_def Let_def split: prod.split)

lemma placement_startProbers [simp]: "placement (startProbers np e) = placement e"
proof -
  have "placement (foldl (start_path np prev) e' ps) = placement e'" for prev e' ps
    by (induction ps arbitrary: e') (simp_all add: start_path_def placement_def Let_def)
  then show ?thesis by (simp add: startProbers_def placement_def)
qed

lemma placement_eqD:
  assumes "placement a = placement b"
  shows "e_active a = e_active b" "e_decisionSeq a = e_decisionSeq b" "e_route a = e_route b"
    "e_ctlRoute a = e_ctlRoute b" "e_applying a = e_applying b" "e_reverted a = e_reverted b" "e_cfg a = e_cfg b"
  using assms by (simp_all add: placement_def)

text \<open>The operations that leave the placement alone, and what the others do to it.\<close>

fun quiet_op :: "engine_op \<Rightarrow> bool" where
  "quiet_op (OpApply _ _) = False"
| "quiet_op (OpReconcile _ _ _ _) = False"
| "quiet_op (OpRevert _) = False"
| "quiet_op (OpSwap _) = False"
| "quiet_op (OpApplySystem _ _ _ _) = False"
| "quiet_op (OpRouteLost _) = False"
| "quiet_op _ = True"

lemma sy_on_engine [simp]:
  "sy_engine (on_engine s f) = f (sy_engine s)" "sy_plan (on_engine s f) = sy_plan s"
  "sy_reconf (on_engine s f) = sy_reconf s"
  by (simp_all add: on_engine_def)

lemma quiet_step: "quiet_op x \<Longrightarrow> placement (sy_engine (engine_step s x)) = placement (sy_engine s)"
  by (cases x) (auto split: option.split prod.split dest: arg_cong [where f = "\<lambda>z. placement (fst z)"])

definition apply_commits :: "(string \<Rightarrow> bool) \<Rightarrow> decision_plan \<Rightarrow> Engine \<Rightarrow> bool" where
  "apply_commits ip pl e \<longleftrightarrow> pl_chosen pl \<noteq> 0 \<and> pl_chosen pl \<noteq> pl_prevActive pl \<and> \<not> e_reverted e \<and>
     (e_applying e \<longrightarrow> ip (chosen_iface (pl_cfg pl) (pl_chosen pl)))"

lemma apply_spec:
  "e_active (evaluate_apply ctl ip pl e) = (if apply_commits ip pl e then pl_chosen pl else e_active e)"
  "e_decisionSeq (evaluate_apply ctl ip pl e) =
     (if apply_commits ip pl e then e_decisionSeq e + 1 else e_decisionSeq e)"
  "e_route (evaluate_apply ctl ip pl e) =
     (if apply_commits ip pl e \<and> e_applying e then chosen_iface (pl_cfg pl) (pl_chosen pl) else e_route e)"
  "e_applying (evaluate_apply ctl ip pl e) = e_applying e"
  "e_reverted (evaluate_apply ctl ip pl e) = e_reverted e"
  "e_cfg (evaluate_apply ctl ip pl e) = e_cfg e"
  "e_reverted e \<Longrightarrow> e_ctlRoute (evaluate_apply ctl ip pl e) = e_ctlRoute e"
  by (auto simp: evaluate_apply_def applyActivePath_def commitSwitch_def chosen_iface_def Let_def
      apply_commits_def AddEvent_def)

lemma reconcile_frame [simp]:
  "e_active (reconcileRouting ifx ctl ip rd e) = e_active e"
  "e_cfg (reconcileRouting ifx ctl ip rd e) = e_cfg e"
  "e_applying (reconcileRouting ifx ctl ip rd e) = e_applying e"
  "e_reverted (reconcileRouting ifx ctl ip rd e) = e_reverted e"
  by (simp_all add: reconcileRouting_def Let_def AddEvent_def split: option.split)

lemma reconcile_route:
  "e_route (reconcileRouting ifx ctl ip rd e) = e_route e \<or>
   (e_applying e \<and> \<not> e_reverted e \<and> (\<exists>p. PathByID (e_cfg e) (e_active e) = Some p \<and>
      e_route (reconcileRouting ifx ctl ip rd e) = p_Iface p))"
  by (auto simp: reconcileRouting_def Let_def AddEvent_def split: option.split)

lemma reconcile_latched: "e_reverted e \<Longrightarrow> reconcileRouting ifx ctl ip rd e = e"
  by (simp add: reconcileRouting_def)

lemma seed_control_frame [simp]:
  "e_active (seed_control ifx ctl e) = e_active e"
  "e_cfg (seed_control ifx ctl e) = e_cfg e"
  "e_applying (seed_control ifx ctl e) = e_applying e"
  "e_reverted (seed_control ifx ctl e) = e_reverted e"
  "e_route (seed_control ifx ctl e) = e_route e"
  by (simp_all add: seed_control_def split: option.split)

lemma applySystem_frame [simp]:
  "e_active (applySystemConfig ifx ctl ip nft e) = e_active e"
  "e_cfg (applySystemConfig ifx ctl ip nft e) = e_cfg e"
  "e_applying (applySystemConfig ifx ctl ip nft e) = e_applying e"
  "e_reverted (applySystemConfig ifx ctl ip nft e) = e_reverted e"
  by (simp_all add: applySystemConfig_def applyActivePath_def Let_def AddEvent_def
      split: option.split)

lemma applySystem_route:
  "e_route (applySystemConfig ifx ctl ip nft e) =
     (case PathByID (e_cfg e) (e_active e) of
        None \<Rightarrow> e_route e
      | Some p \<Rightarrow> if e_applying e \<and> ip (p_Iface p) then p_Iface p else e_route e)"
  by (simp add: applySystemConfig_def applyActivePath_def Let_def AddEvent_def
      split: option.split)

section \<open>Invariants of the interleavings\<close>

definition latched_inv :: "string \<Rightarrow> string \<Rightarrow> engine_sys \<Rightarrow> bool" where
  "latched_inv r c s \<longleftrightarrow> e_reverted (sy_engine s) \<and> sy_reconf s = 0 \<and>
     e_route (sy_engine s) \<in> {r, ''''} \<and> e_ctlRoute (sy_engine s) \<in> {c, ''''}"

fun no_save :: "engine_op \<Rightarrow> bool" where
  "no_save (OpSwap _) = False"
| "no_save _ = True"

lemma sy_reconf_step: "no_save x \<Longrightarrow> sy_reconf s = 0 \<Longrightarrow> sy_reconf (engine_step s x) = 0"
  by (cases x) (auto split: option.split prod.split)

lemma latched_step:
  assumes "no_save x" and inv: "latched_inv r c s"
  shows "latched_inv r c (engine_step s x)"
proof (cases "quiet_op x")
  case True
  then show ?thesis
    using placement_eqD [OF quiet_step [OF True, of s]] sy_reconf_step [OF assms(1)] inv
    by (simp add: latched_inv_def)
next
  case False
  show ?thesis
  proof (cases x)
    case (OpApply ctl ip)
    then show ?thesis
      using inv by (auto simp: latched_inv_def apply_spec apply_commits_def split: option.split)
  qed (use assms False in \<open>auto simp: latched_inv_def reconcile_latched Revert_def AddEvent_def route_lost_def\<close>)
qed

interpretation latched_runs: guarded_run engine_step no_save "latched_inv r c"
  by unfold_locales (rule latched_step)

definition observe_inv :: "string \<Rightarrow> engine_sys \<Rightarrow> bool" where
  "observe_inv r s \<longleftrightarrow> \<not> e_applying (sy_engine s) \<and> e_route (sy_engine s) \<in> {r, ''''}"

fun no_arming :: "engine_op \<Rightarrow> bool" where
  "no_arming (OpSwap cfg) = (c_Mode cfg \<noteq> ModeArmed)"
| "no_arming _ = True"

lemma observe_step:
  assumes "no_arming x" and inv: "observe_inv r s"
  shows "observe_inv r (engine_step s x)"
proof (cases "quiet_op x")
  case True
  then show ?thesis
    using placement_eqD [OF quiet_step [OF True, of s]] inv by (simp add: observe_inv_def)
next
  case False
  show ?thesis
  proof (cases x)
    case (OpApply ctl ip)
    then show ?thesis
      using inv by (auto simp: observe_inv_def apply_spec split: option.split)
  next
    case (OpReconcile ifx ctl ip rd)
    then show ?thesis using inv reconcile_route [of ifx ctl ip rd "sy_engine s"]
      by (auto simp: observe_inv_def)
  qed (use assms False in \<open>auto simp: observe_inv_def Revert_def AddEvent_def route_lost_def runnerFor_def
        reconfigure_swap_def applySystem_route ModeArmed_def ModeObserve_def split: option.split\<close>)
qed

interpretation observe_runs: guarded_run engine_step no_arming "observe_inv r"
  by unfold_locales (rule observe_step)

text \<open>
  The route and the record. What has to agree is read through the interfaces the paths are
  configured with: a save that gives a path another interface, and one that arms the engine,
  leaves the route behind until it is installed again.
\<close>

definition wiring :: "Config \<Rightarrow> (int \<times> string) list" where
  "wiring c = map (\<lambda>p. (p_ID p, p_Iface p)) (c_Paths c)"

lemma wiring_mode [simp]: "wiring (c\<lparr>c_Mode := m\<rparr>) = wiring c"
  by (simp add: wiring_def)

lemma PathByID_mode [simp]: "PathByID (c\<lparr>c_Mode := m\<rparr>) i = PathByID c i"
  by (simp add: PathByID_def)

lemma find_iface: "map_option p_Iface (find (\<lambda>p. p_ID p = i) ps) =
    map_option snd (find (\<lambda>w. fst w = i) (map (\<lambda>p. (p_ID p, p_Iface p)) ps))"
  by (induction ps) simp_all

lemma wiring_iface:
  "wiring a = wiring b \<Longrightarrow> map_option p_Iface (PathByID a i) = map_option p_Iface (PathByID b i)"
  by (simp add: PathByID_def find_iface wiring_def)

definition known_plan :: "engine_sys \<Rightarrow> bool" where
  "known_plan s \<longleftrightarrow> (case sy_plan s of None \<Rightarrow> True
     | Some pl \<Rightarrow> pl_chosen pl = 0 \<or> PathByID (pl_cfg pl) (pl_chosen pl) \<noteq> None)"

definition current_plan :: "engine_sys \<Rightarrow> bool" where
  "current_plan s \<longleftrightarrow> (case sy_plan s of None \<Rightarrow> True
     | Some pl \<Rightarrow> wiring (pl_cfg pl) = wiring (e_cfg (sy_engine s)))"

lemma selectPath_known:
  "fst (selectPath e cfg now) = 0 \<or> PathByID cfg (fst (selectPath e cfg now)) \<noteq> None"
proof (cases "e_pinned e = 0 \<or> PathByID cfg (e_pinned e) = None")
  case True
  show ?thesis
  proof (cases "eligible_paths e cfg = []")
    case False
    then show ?thesis using select_target_mem [OF False, of e cfg now] True
      by (auto simp: selectPath_unpinned PathByID_None set_eligible)
  qed (use True in \<open>simp add: selectPath_unpinned\<close>)
qed (auto simp: selectPath_def Let_def)

lemma decide_plan:
  "evaluate_decide e now = (e', Some pl) \<Longrightarrow> pl_cfg pl = e_cfg e' \<and> e_cfg e' = e_cfg e \<and>
     (pl_chosen pl = 0 \<or> PathByID (pl_cfg pl) (pl_chosen pl) \<noteq> None)"
  using selectPath_known [of "foldl (update_block now) e (c_Paths (e_cfg e))" "e_cfg e" now]
  by (auto simp: evaluate_decide_def Let_def split: if_splits prod.splits)

lemma quiet_plan:
  "quiet_op x \<Longrightarrow> sy_plan (engine_step s x) = sy_plan s \<or>
   (\<exists>now. evaluate_decide (sy_engine s) now = (sy_engine (engine_step s x), sy_plan (engine_step s x)))"
  by (cases x) (auto split: option.split prod.split)

lemma known_plan_step:
  assumes "known_plan s"
  shows "known_plan (engine_step s x)"
proof (cases "quiet_op x")
  case True
  then show ?thesis
    using quiet_plan [OF True, of s] assms
    by (cases "sy_plan (engine_step s x)") (auto simp: known_plan_def split: option.splits dest: decide_plan)
next
  case False
  then show ?thesis using assms by (cases x) (auto simp: known_plan_def split: option.split)
qed

interpretation known_plans: invariant_run engine_step known_plan
  by unfold_locales (rule known_plan_step)

definition active_configured :: "Engine \<Rightarrow> bool" where
  "active_configured e \<longleftrightarrow> e_active e = 0 \<or> PathByID (e_cfg e) (e_active e) \<noteq> None"

definition route_agrees :: "Engine \<Rightarrow> bool" where
  "route_agrees e \<longleftrightarrow> e_active e = 0 \<or>
     (\<exists>p. PathByID (e_cfg e) (e_active e) = Some p \<and> e_route e = p_Iface p)"

text \<open>
  The steps after which they agree: a repair that reads the route, and the install of a save,
  each made while armed and accepted by the system for the interface of the active path, with
  no decision taken under other interfaces still waiting to be applied.
\<close>

definition install_accepted :: "(string \<Rightarrow> bool) \<Rightarrow> Engine \<Rightarrow> bool" where
  "install_accepted ok e \<longleftrightarrow> e_active e = 0 \<or>
     (case PathByID (e_cfg e) (e_active e) of None \<Rightarrow> False | Some p \<Rightarrow> ok (p_Iface p))"

fun settles :: "engine_sys \<Rightarrow> engine_op \<Rightarrow> bool" where
  "settles s (OpReconcile ifx ctl ip rd) \<longleftrightarrow>
     sy_plan s = None \<and> rd \<and> e_applying (sy_engine s) \<and> \<not> e_reverted (sy_engine s) \<and>
     install_accepted (\<lambda>i. ifx i \<and> ip i) (sy_engine s)"
| "settles s (OpApplySystem ifx ctl ip nft) \<longleftrightarrow>
     sy_reconf s = 1 \<and> current_plan s \<and> e_applying (sy_engine s) \<and> install_accepted ip (sy_engine s)"
| "settles s _ \<longleftrightarrow> False"

text \<open>What follows may be anything but a lost route, a save that changes a path's interface, and
  one that leaves armed mode (the save that arms again is a new start).\<close>

fun keeps_wiring :: "(int \<times> string) list \<Rightarrow> engine_op \<Rightarrow> bool" where
  "keeps_wiring w (OpSwap cfg) \<longleftrightarrow> wiring cfg = w \<and> c_Mode cfg = ModeArmed"
| "keeps_wiring w (OpRouteLost _) \<longleftrightarrow> False"
| "keeps_wiring w _ \<longleftrightarrow> True"

definition route_inv :: "(int \<times> string) list \<Rightarrow> engine_sys \<Rightarrow> bool" where
  "route_inv w s \<longleftrightarrow> wiring (e_cfg (sy_engine s)) = w \<and> known_plan s \<and> current_plan s \<and>
     route_agrees (sy_engine s) \<and>
     (e_applying (sy_engine s) \<or> (e_reverted (sy_engine s) \<and> e_active (sy_engine s) = 0))"

lemma route_step_quiet:
  assumes "quiet_op x" and "route_inv w s"
  shows "route_inv w (engine_step s x)"
proof -
  note same = placement_eqD [OF quiet_step [OF assms(1), of s]]
  have "current_plan (engine_step s x)"
    using quiet_plan [OF assms(1), of s] assms(2) same(7)
    by (cases "sy_plan (engine_step s x)") (auto simp: current_plan_def route_inv_def split: option.splits dest: decide_plan)
  then show ?thesis
    using assms(2) same known_plan_step [of s x] by (simp add: route_inv_def route_agrees_def)
qed

lemma route_apply:
  assumes "route_inv w s" and "sy_plan s = Some pl"
  shows "route_agrees (evaluate_apply ctl ip pl (sy_engine s))"
proof (cases "apply_commits ip pl (sy_engine s)")
  case True
  let ?e = "sy_engine s"
  from True assms obtain p where p: "PathByID (pl_cfg pl) (pl_chosen pl) = Some p"
    by (auto simp: route_inv_def known_plan_def apply_commits_def)
  moreover have "wiring (pl_cfg pl) = wiring (e_cfg ?e)"
    using assms by (simp add: route_inv_def current_plan_def)
  ultimately obtain q where "PathByID (e_cfg ?e) (pl_chosen pl) = Some q" "p_Iface q = p_Iface p"
    using wiring_iface [of "pl_cfg pl" "e_cfg ?e" "pl_chosen pl"]
    by (cases "PathByID (e_cfg ?e) (pl_chosen pl)") auto
  moreover have "e_applying ?e" using True assms by (auto simp: route_inv_def apply_commits_def)
  ultimately show ?thesis using True p by (simp add: route_agrees_def apply_spec chosen_iface_def)
next
  case False
  then show ?thesis using assms by (simp add: route_agrees_def apply_spec route_inv_def)
qed

lemma route_step:
  assumes "keeps_wiring w x" and inv: "route_inv w s"
  shows "route_inv w (engine_step s x)"
proof (cases "quiet_op x")
  case True
  then show ?thesis using inv by (rule route_step_quiet)
next
  case False
  have known: "known_plan (engine_step s x)"
    using inv by (simp add: route_inv_def known_plan_step)
  show ?thesis
  proof (cases x)
    case (OpApply ctl ip)
    then show ?thesis
      using inv route_apply [OF inv, of _ ctl ip]
      by (auto simp: route_inv_def apply_spec apply_commits_def current_plan_def known_plan_def
          split: option.splits)
  next
    case (OpReconcile ifx ctl ip rd)
    then show ?thesis using inv known reconcile_route [of ifx ctl ip rd "sy_engine s"]
      by (auto simp: route_inv_def route_agrees_def current_plan_def split: option.splits)
  next
    case (OpApplySystem ifx ctl ip nft)
    then show ?thesis using inv known
      by (auto simp: route_inv_def route_agrees_def current_plan_def applySystem_route split: option.splits)
  next
    case (OpRevert del)
    then show ?thesis using inv known
      by (auto simp: route_inv_def route_agrees_def current_plan_def Revert_def AddEvent_def
          split: option.splits)
  next
    case (OpSwap cfg)
    then show ?thesis
      using inv known assms(1) wiring_iface [of cfg "e_cfg (sy_engine s)" "e_active (sy_engine s)"]
      by (auto simp: route_inv_def route_agrees_def current_plan_def reconfigure_swap_def runnerFor_def
          split: option.splits)
  qed (use assms False in simp_all)
qed

interpretation route_runs: guarded_run engine_step "keeps_wiring w" "route_inv w"
  by unfold_locales (rule route_step)

lemma settles_route_inv:
  assumes "settles s x" and "known_plan s"
  shows "route_inv (wiring (e_cfg (sy_engine s))) (engine_step s x)"
proof (cases x)
  case (OpReconcile ifx ctl ip rd)
  then show ?thesis using assms
    by (auto simp: route_inv_def route_agrees_def current_plan_def known_plan_def install_accepted_def
        reconcileRouting_def Let_def AddEvent_def split: option.splits)
next
  case (OpApplySystem ifx ctl ip nft)
  then show ?thesis using assms
    by (auto simp: route_inv_def route_agrees_def current_plan_def known_plan_def install_accepted_def
        applySystem_route split: option.splits)
qed (use assms in simp_all)

text \<open>The decision sequence counts the switches in the log.\<close>

fun is_switch :: "engine_event \<Rightarrow> bool" where
  "is_switch (EvSwitch _ _ _) = True"
| "is_switch _ = False"

definition switches :: "Engine \<Rightarrow> nat" where
  "switches e = length (filter is_switch (e_events e))"

definition switch_base :: "Engine \<Rightarrow> uint64" where
  "switch_base e = e_decisionSeq e - of_nat (switches e)"

lemma switch_base_simps [simp]:
  "\<not> is_switch ev \<Longrightarrow> switch_base (AddEvent ev e) = switch_base e"
  "switch_base (wakeDecision e) = switch_base e"
  "switch_base (e\<lparr>e_trackers := t\<rparr>) = switch_base e"
  "switch_base (e\<lparr>e_quotaDec := q\<rparr>) = switch_base e"
  "switch_base (e\<lparr>e_grants := g\<rparr>) = switch_base e"
  "switch_base (e\<lparr>e_pinned := i\<rparr>) = switch_base e"
  "switch_base (e\<lparr>e_ctlRoute := c\<rparr>) = switch_base e"
  "switch_base (e\<lparr>e_route := r\<rparr>) = switch_base e"
  "switch_base (e\<lparr>e_dataPlane := d\<rparr>) = switch_base e"
  "switch_base (e\<lparr>e_beatenSince := b, e_held := h, e_heldReason := rs\<rparr>) = switch_base e"
  by (simp_all add: switch_base_def switches_def AddEvent_def wakeDecision_def)

lemma switch_base_commit [simp]: "switch_base (commitSwitch c p now e) = switch_base e"
  by (simp add: commitSwitch_def switch_base_def switches_def AddEvent_def)

lemma switch_base_updates [simp]:
  "switch_base (foldl (update_block now) e ps) = switch_base e"
  "switch_base (held_events pl e) = switch_base e"
  "switch_base (onResult e r now) = switch_base e"
  "switch_base (route_lost i e) = switch_base e"
  "switch_base (seed_control ifx ctl e) = switch_base e"
  "switch_base (reconfigure_swap cfg e) = switch_base e"
  "switch_base (Revert del e) = switch_base e"
  subgoal by (simp add: switch_base_def switches_def)
  subgoal by (simp add: held_events_def Let_def)
  subgoal by (simp add: onResult_def Let_def split: option.split prod.split Health.split)
  subgoal by (simp add: route_lost_def switch_base_def switches_def)
  subgoal by (simp add: seed_control_def split: option.split)
  subgoal by (simp add: reconfigure_swap_def switch_base_def switches_def)
  subgoal by (simp add: Revert_def switch_base_def switches_def AddEvent_def)
  done

lemma switch_base_quota_events [simp]: "switch_base (foldl (quota_change_event f) e ps) = switch_base e"
  by (induction ps arbitrary: e) (simp_all add: quota_change_event_def split: option.split)

lemma switch_base_startProbers [simp]: "switch_base (startProbers np e) = switch_base e"
proof -
  have "switch_base (foldl (start_path np prev) e' ps) = switch_base e'" for prev e' ps
    by (induction ps arbitrary: e') (simp_all add: start_path_def switch_base_def switches_def Let_def)
  then show ?thesis by (simp add: startProbers_def switch_base_def switches_def)
qed

lemma switch_base_actions [simp]:
  "switch_base (refreshQuota tz usage gr e now) = switch_base e"
  "switch_base (keep_error e (Pin e i)) = switch_base e"
  "switch_base (eng_ClearQuarantine e i) = switch_base e"
  "switch_base (keep_error e (Approve tz usage sg gr e i dur extra now)) = switch_base e"
  "switch_base (keep_error e (RevokeApproval tz usage sg gr e i now)) = switch_base e"
  by (simp_all add: refreshQuota_def keep_error_def Pin_def eng_ClearQuarantine_def Approve_def
      RevokeApproval_def Let_def split: option.split)

lemma switch_base_routing [simp]:
  "switch_base (fst (evaluate_decide e now)) = switch_base e"
  "switch_base (evaluate_apply ctl ip pl e) = switch_base e"
  "switch_base (reconcileRouting ifx ctl ip rd e) = switch_base e"
  "switch_base (applySystemConfig ifx ctl ip nft e) = switch_base e"
  subgoal by (simp add: evaluate_decide_def Let_def split: prod.split)
  subgoal by (simp add: evaluate_apply_def applyActivePath_def Let_def)
  subgoal by (simp add: reconcileRouting_def Let_def split: option.split)
  subgoal by (simp add: applySystemConfig_def applyActivePath_def Let_def split: option.split)
  done

lemma switch_base_step: "switch_base (sy_engine (engine_step s x)) = switch_base (sy_engine s)"
  by (cases x) (auto split: option.split prod.split dest: arg_cong [where f = "\<lambda>z. switch_base (fst z)"])

interpretation counted_runs: invariant_run engine_step "\<lambda>s. switch_base (sy_engine s) = b"
  by unfold_locales (simp add: switch_base_step)

lemma quota_decisions_other:
  "i \<notin> p_ID ` set ps \<Longrightarrow> quota_decisions tz usage e now ps dec i = dec i"
  by (induction ps arbitrary: dec) (auto split: option.split)

lemma quota_decisions_at:
  "distinct (map p_ID ps) \<Longrightarrow> p \<in> set ps \<Longrightarrow>
   quota_decisions tz usage e now ps dec (p_ID p) =
     (case usage (p_ID p) (fst (PeriodBounds tz (p_Quota p) now)) of
        None \<Rightarrow> (case e_quotaDec e (p_ID p) of None \<Rightarrow> dec (p_ID p) | Some d \<Rightarrow> Some d)
      | Some used \<Rightarrow> Some (Evaluate tz p used (e_grants e (p_ID p)) now))"
proof (induction ps arbitrary: dec)
  case (Cons q ps)
  show ?case
  proof (cases "p = q")
    case True
    then have "p_ID p \<notin> p_ID ` set ps" using Cons.prems(1) by auto
    then show ?thesis using True by (auto simp: quota_decisions_other split: option.split)
  next
    case False
    then have "p \<in> set ps" "p_ID p \<noteq> p_ID q" using Cons.prems by (auto simp: image_iff)
    then show ?thesis using Cons.IH Cons.prems(1) by (auto split: option.split)
  qed
qed simp

lemma quota_events_dec [simp]: "e_quotaDec (foldl (quota_change_event f) e ps) = e_quotaDec e"
  by (induction ps arbitrary: e) (simp_all add: quota_change_event_def AddEvent_def split: option.split)

lemma start_path_other: "i \<notin> p_ID ` set ps \<Longrightarrow> e_trackers (foldl (start_path np prev) e ps) i = e_trackers e i"
  by (induction ps arbitrary: e) (auto simp: start_path_def Let_def)

lemma start_path_cfg [simp]: "e_cfg (start_path np prev e p) = e_cfg e"
  by (simp add: start_path_def Let_def)

lemma start_paths_at:
  "distinct (map p_ID ps) \<Longrightarrow> p \<in> set ps \<Longrightarrow>
   e_trackers (foldl (start_path np prev) e ps) (p_ID p) =
     Some (case prev (p_ID p) of
        None \<Rightarrow> NewTracker p (c_Probe (e_cfg e)) (c_Failover (e_cfg e))
      | Some old \<Rightarrow> if p_Iface (t_cfg old) = p_Iface p
                   then Retune old p (c_Probe (e_cfg e)) (c_Failover (e_cfg e))
                   else NewTracker p (c_Probe (e_cfg e)) (c_Failover (e_cfg e)))"
proof (induction ps arbitrary: e)
  case (Cons q ps)
  show ?case
  proof (cases "p = q")
    case True
    then have "p_ID p \<notin> p_ID ` set ps" using Cons.prems(1) by auto
    then show ?thesis using True by (simp add: start_path_other) (simp add: start_path_def Let_def split: option.split)
  next
    case False
    then show ?thesis using Cons.IH [of "start_path np prev e q"] Cons.prems by (simp split: option.split)
  qed
qed simp

section \<open>Properties\<close>

text \<open>C1. The revert latch: from a reverted engine, whatever the decision loop, the reconciler and
  the operator do in whatever order, a decision taken before the revert and still waiting to
  be applied included, no route is installed and the latch stays until settings are saved.\<close>

theorem latched_installs_nothing:
  assumes "e_reverted (sy_engine s)" and "sy_reconf s = 0" and "list_all no_save ops"
  shows "e_reverted (sy_engine (foldl engine_step s ops)) \<and>
    e_route (sy_engine (foldl engine_step s ops)) \<in> {e_route (sy_engine s), ''''} \<and>
    e_ctlRoute (sy_engine (foldl engine_step s ops)) \<in> {e_ctlRoute (sy_engine s), ''''}"
  using latched_runs.guarded_run_inv [OF assms(3), of "e_route (sy_engine s)" "e_ctlRoute (sy_engine s)" s]
    assms(1,2) by (simp add: latched_inv_def)

definition sample_sys :: engine_sys where
  "sample_sys = engine_step
     \<lparr>sy_engine = sample_engine, sy_plan = None, sy_reconf = 0\<rparr> (OpDecide (t0 + seconds 100))"

theorem latched_installs_nothing_witness:
  "e_route (sy_engine (foldl engine_step (engine_step sample_sys (OpRevert True))
     [OpApply (\<lambda>_. True) (\<lambda>_. True), OpDecide (t0 + seconds 101), OpApply (\<lambda>_. True) (\<lambda>_. True)])) = ''''"
proof -
  let ?s = "engine_step sample_sys (OpRevert True)"
  have s: "e_reverted (sy_engine ?s)" "sy_reconf ?s = 0" "e_route (sy_engine ?s) = ''''" by code_simp+
  show ?thesis
    using latched_installs_nothing [OF s(1,2),
        of "[OpApply (\<lambda>_. True) (\<lambda>_. True), OpDecide (t0 + seconds 101), OpApply (\<lambda>_. True) (\<lambda>_. True)]"] s(3)
    by simp
qed

text \<open>Observe mode never moves traffic: however the steps interleave, and across any settings
  save that does not arm the engine, the main route is never written, only lost or removed.\<close>

theorem observe_never_routes:
  assumes "\<not> e_applying (sy_engine s)" and "list_all no_arming ops"
  shows "\<not> e_applying (sy_engine (foldl engine_step s ops)) \<and>
    e_route (sy_engine (foldl engine_step s ops)) \<in> {e_route (sy_engine s), ''''}"
  using observe_runs.guarded_run_inv [OF assms(2), of "e_route (sy_engine s)" s] assms(1)
  by (simp add: observe_inv_def)

theorem observe_never_routes_witness:
  "e_route (sy_engine (foldl engine_step (engine_step sample_sys (OpSwap Defaults))
     [OpApply (\<lambda>_. True) (\<lambda>_. True)])) \<in> {''wg-lte1'', ''''}"
proof -
  let ?s = "engine_step sample_sys (OpSwap Defaults)"
  have s: "\<not> e_applying (sy_engine ?s)" "e_route (sy_engine ?s) = ''wg-lte1''" by code_simp+
  show ?thesis
    using observe_never_routes [OF s(1), of "[OpApply (\<lambda>_. True) (\<lambda>_. True)]"] s(2) by simp
qed

text \<open>C2. The route and the record agree. Start a process in any state with no decision waiting
  (\<open>before\<close> then holds any steps at all: saves, lost routes, reverts, refused installs), and
  let one repair, or one save's install, be accepted while armed, with the active path
  configured and no decision taken under other interfaces still waiting. From there on, in
  every interleaving of decisions, results, operator actions, repairs, reverts, refused
  installs and saves that stay armed and keep the paths' interfaces, whenever the engine is
  armed with a path active, that path is configured and the main route leaves through its
  interface. A lost route, a path given another interface and the save that arms the engine
  are outside \<open>after\<close>: each of them parts the two until the next accepted install.\<close>

theorem armed_route_follows_active:
  assumes "sy_plan s = None"
    and "settles (foldl engine_step s before) x"
    and "list_all (keeps_wiring (wiring (e_cfg (sy_engine (foldl engine_step s before))))) after"
    and "e_applying (sy_engine (foldl engine_step s (before @ x # after)))"
    and "e_active (sy_engine (foldl engine_step s (before @ x # after))) \<noteq> 0"
  shows "\<exists>p. PathByID (e_cfg (sy_engine (foldl engine_step s (before @ x # after))))
      (e_active (sy_engine (foldl engine_step s (before @ x # after)))) = Some p \<and>
    e_route (sy_engine (foldl engine_step s (before @ x # after))) = p_Iface p"
  using route_runs.guarded_run_inv [OF assms(3) settles_route_inv [OF assms(2)]]
    known_plans.run_inv [of s before] assms(1,4,5)
  by (simp add: route_inv_def route_agrees_def known_plan_def)

text \<open>An engine in observe mode loses the route, is armed by a save whose install is accepted, and
  then switches.\<close>

abbreviation sample_arming :: "engine_op list" where
  "sample_arming \<equiv> [OpSwap (sample_cfg\<lparr>c_Mode := ModeObserve\<rparr>), OpRouteLost ''wg-lte1'',
     OpApplySystem (\<lambda>_. True) (\<lambda>_. True) (\<lambda>_. True) True, OpStartProbers (\<lambda>_. True), OpSwap sample_cfg]"

abbreviation sample_install :: engine_op where
  "sample_install \<equiv> OpApplySystem (\<lambda>_. True) (\<lambda>_. True) (\<lambda>_. True) True"

abbreviation sample_switching :: "engine_op list" where
  "sample_switching \<equiv> [OpDecide (t0 + seconds 100), OpStartProbers (\<lambda>_. True), OpSwap sample_cfg,
     OpApply (\<lambda>_. True) (\<lambda>_. True)]"

theorem armed_route_follows_active_witness:
  "e_route (sy_engine (foldl engine_step \<lparr>sy_engine = sample_engine, sy_plan = None, sy_reconf = 0\<rparr>
     sample_arming)) = '''' \<and>
   (\<exists>p. PathByID (e_cfg (sy_engine (foldl engine_step
       \<lparr>sy_engine = sample_engine, sy_plan = None, sy_reconf = 0\<rparr>
       (sample_arming @ sample_install # sample_switching)))) 1 = Some p \<and>
     e_route (sy_engine (foldl engine_step \<lparr>sy_engine = sample_engine, sy_plan = None, sy_reconf = 0\<rparr>
       (sample_arming @ sample_install # sample_switching))) = p_Iface p)"
proof -
  let ?s = "\<lparr>sy_engine = sample_engine, sy_plan = None, sy_reconf = 0\<rparr>"
  let ?t = "foldl engine_step ?s (sample_arming @ sample_install # sample_switching)"
  have "settles (foldl engine_step ?s sample_arming) sample_install"
    "list_all (keeps_wiring (wiring (e_cfg (sy_engine (foldl engine_step ?s sample_arming))))) sample_switching"
    "e_applying (sy_engine ?t)" and one: "e_active (sy_engine ?t) = 1"
    and lost: "e_route (sy_engine (foldl engine_step ?s sample_arming)) = ''''" by code_simp+
  then show ?thesis
    using armed_route_follows_active [of ?s sample_arming sample_install sample_switching] one
    by (simp del: foldl_append foldl_Cons append.simps)
qed

text \<open>The decision sequence the backend orders decisions by advances by exactly one for every
  switch recorded and by nothing else, in every interleaving.\<close>

theorem decision_seq_counts_switches:
  "e_decisionSeq (sy_engine (foldl engine_step s ops)) =
     e_decisionSeq (sy_engine s) +
     (of_nat (switches (sy_engine (foldl engine_step s ops))) - of_nat (switches (sy_engine s)))"
  using counted_runs.run_inv [of s "switch_base (sy_engine s)" ops] by (simp add: switch_base_def algebra_simps)

text \<open>Repair: once the interface of the active path is back and the system accepts commands, one
  pass of the reconciler on an armed engine points both routes at it, whatever they were.\<close>

theorem reconcile_repairs:
  assumes "\<not> e_reverted e" and "e_applying e" and "PathByID (e_cfg e) (e_active e) = Some p"
    and "ifx (p_Iface p)" and "ctl (p_Iface p)" and "ip (p_Iface p)"
  shows "e_route (reconcileRouting ifx ctl ip True e) = p_Iface p \<and>
         e_ctlRoute (reconcileRouting ifx ctl ip True e) = p_Iface p"
  using assms by (simp add: reconcileRouting_def Let_def AddEvent_def)

theorem reconcile_repairs_witness:
  "e_route (reconcileRouting (\<lambda>_. True) (\<lambda>_. True) (\<lambda>_. True) True (route_lost ''wg-lte1'' sample_engine)) =
   p_Iface sample_p2"
  by (rule reconcile_repairs [THEN conjunct1]) code_simp+

text \<open>A database error never unblocks a path: when its usage cannot be read the path keeps the
  quota verdict it had, and when the grants cannot be read every path does.\<close>

theorem refreshQuota_keeps_verdict:
  assumes "distinct (map p_ID (c_Paths (e_cfg e)))" and "p \<in> set (c_Paths (e_cfg e))"
    and "\<not> gr \<or> usage (p_ID p) (fst (PeriodBounds tz (p_Quota p) now)) = None"
  shows "e_quotaDec (refreshQuota tz usage gr e now) (p_ID p) = e_quotaDec e (p_ID p)"
  using assms quota_decisions_at [OF assms(1,2), of tz usage e now "\<lambda>_. None"]
  by (auto simp: refreshQuota_def split: option.split)

theorem refreshQuota_keeps_verdict_witness:
  "e_quotaDec (refreshQuota (\<lambda>_. Some UTC) (\<lambda>_ _. None) True sample_engine t0) (p_ID sample_p2) =
   e_quotaDec sample_engine (p_ID sample_p2)"
proof (rule refreshQuota_keeps_verdict)
  show "sample_p2 \<in> set (c_Paths (e_cfg sample_engine))"
    using PathByID_Some [of "e_cfg sample_engine" 2 sample_p2] by code_simp
qed (code_simp, simp)

text \<open>A settings save keeps what the links have shown: every configured path whose interface is
  unchanged keeps its health, streaks and quarantine across the restart of the probers, and
  every other one starts unknown.\<close>

theorem startProbers_keeps_health:
  assumes "distinct (map p_ID (c_Paths (e_cfg e)))" and "p \<in> set (c_Paths (e_cfg e))"
  shows "\<exists>tr. e_trackers (startProbers np e) (p_ID p) = Some tr \<and> t_cfg tr = p \<and>
    (case e_trackers e (p_ID p) of
       Some old \<Rightarrow> if p_Iface (t_cfg old) = p_Iface p
                  then t_health tr = t_health old \<and> t_consecLoss tr = t_consecLoss old \<and>
                       t_consecOK tr = t_consecOK old \<and> t_cleanSince tr = t_cleanSince old \<and>
                       t_quarantineUntil tr = t_quarantineUntil old
                  else t_health tr = HealthUnknown
     | None \<Rightarrow> t_health tr = HealthUnknown)"
  using start_paths_at [OF assms, of np "e_trackers e" "e\<lparr>e_trackers := (\<lambda>_. None), e_probers := (\<lambda>_. None)\<rparr>"]
  by (auto simp: startProbers_def Retune_def NewTracker_def Let_def split: option.split)

theorem startProbers_keeps_health_witness:
  "\<exists>tr. e_trackers (startProbers (\<lambda>_. True) sample_engine) (p_ID sample_p2) = Some tr \<and> t_health tr = HealthUp"
proof -
  have "sample_p2 \<in> set (c_Paths (e_cfg sample_engine))"
    using PathByID_Some [of "e_cfg sample_engine" 2 sample_p2] by code_simp
  moreover have "distinct (map p_ID (c_Paths (e_cfg sample_engine)))" by code_simp
  moreover have "map_option t_health (e_trackers sample_engine (p_ID sample_p2)) = Some HealthUp"
    "map_option (\<lambda>t. p_Iface (t_cfg t)) (e_trackers sample_engine (p_ID sample_p2)) = Some (p_Iface sample_p2)"
    by code_simp+
  ultimately show ?thesis
    using startProbers_keeps_health [of sample_engine sample_p2 "\<lambda>_. True"] by auto
qed

end
