(* ===== verification/Sha256.thy ===== *)
theory Sha256
  imports Prelude
begin

text \<open>
  The standard library's \<open>crypto/sha256\<close> and \<open>crypto/hmac\<close> as \<open>src/internal/proto\<close> uses them:
  SHA-256 (FIPS 180-4) over lists of bytes and HMAC (RFC 2104) over it.
\<close>

unbundle bit_operations_syntax

type_synonym w32 = "32 word"

section \<open>Big-endian integers\<close>

text \<open>\<open>binary.BigEndian.PutUint\<close> of the \<open>n\<close> low bytes, and the read of a byte string.\<close>

primrec be_bytes :: "nat \<Rightarrow> 'a::len word \<Rightarrow> bytes" where
  "be_bytes 0 w = []"
| "be_bytes (Suc n) w = ucast (drop_bit (8 * n) w) # be_bytes n w"

definition be_read :: "bytes \<Rightarrow> 'a::len word" where
  "be_read bs = foldl (\<lambda>acc b. push_bit 8 acc OR ucast b) 0 bs"

section \<open>SHA-256\<close>

definition sha_K :: "w32 list" where
  "sha_K = [
    1116352408, 1899447441, 3049323471, 3921009573, 961987163, 1508970993,
    2453635748, 2870763221, 3624381080, 310598401, 607225278, 1426881987,
    1925078388, 2162078206, 2614888103, 3248222580, 3835390401, 4022224774,
    264347078, 604807628, 770255983, 1249150122, 1555081692, 1996064986,
    2554220882, 2821834349, 2952996808, 3210313671, 3336571891, 3584528711,
    113926993, 338241895, 666307205, 773529912, 1294757372, 1396182291,
    1695183700, 1986661051, 2177026350, 2456956037, 2730485921, 2820302411,
    3259730800, 3345764771, 3516065817, 3600352804, 4094571909, 275423344,
    430227734, 506948616, 659060556, 883997877, 958139571, 1322822218,
    1537002063, 1747873779, 1955562222, 2024104815, 2227730452, 2361852424,
    2428436474, 2756734187, 3204031479, 3329325298]"

definition sha_H0 :: "w32 list" where
  "sha_H0 = [1779033703, 3144134277, 1013904242, 2773480762, 1359893119, 2600822924, 528734635, 1541459225]"

definition rotr32 :: "nat \<Rightarrow> w32 \<Rightarrow> w32" where
  "rotr32 n x = drop_bit n x OR push_bit (32 - n) x"

definition big_sigma0 :: "w32 \<Rightarrow> w32" where
  "big_sigma0 x = rotr32 2 x XOR rotr32 13 x XOR rotr32 22 x"

definition big_sigma1 :: "w32 \<Rightarrow> w32" where
  "big_sigma1 x = rotr32 6 x XOR rotr32 11 x XOR rotr32 25 x"

definition small_sigma0 :: "w32 \<Rightarrow> w32" where
  "small_sigma0 x = rotr32 7 x XOR rotr32 18 x XOR drop_bit 3 x"

definition small_sigma1 :: "w32 \<Rightarrow> w32" where
  "small_sigma1 x = rotr32 17 x XOR rotr32 19 x XOR drop_bit 10 x"

definition sha_ch :: "w32 \<Rightarrow> w32 \<Rightarrow> w32 \<Rightarrow> w32" where
  "sha_ch x y z = (x AND y) XOR (NOT x AND z)"

definition sha_maj :: "w32 \<Rightarrow> w32 \<Rightarrow> w32 \<Rightarrow> w32" where
  "sha_maj x y z = (x AND y) XOR (x AND z) XOR (y AND z)"

text \<open>The message schedule: \<open>n\<close> words are added to the sixteen of the block.\<close>

primrec sha_schedule :: "nat \<Rightarrow> w32 list \<Rightarrow> w32 list" where
  "sha_schedule 0 ws = ws"
| "sha_schedule (Suc n) ws =
     (let t = length ws in
      sha_schedule n (ws @ [small_sigma1 (ws ! (t - 2)) + ws ! (t - 7) + small_sigma0 (ws ! (t - 15)) + ws ! (t - 16)]))"

fun block_words :: "bytes \<Rightarrow> w32 list" where
  "block_words (a # b # c # d # bs) = be_read [a, b, c, d] # block_words bs"
| "block_words _ = []"

type_synonym sha_state = "w32 \<times> w32 \<times> w32 \<times> w32 \<times> w32 \<times> w32 \<times> w32 \<times> w32"

fun sha_round :: "sha_state \<Rightarrow> w32 \<times> w32 \<Rightarrow> sha_state" where
  "sha_round (a, b, c, d, e, f, g, h) (k, w) =
     (let t1 = h + big_sigma1 e + sha_ch e f g + k + w;
          t2 = big_sigma0 a + sha_maj a b c
      in (t1 + t2, a, b, c, d + t1, e, f, g))"

fun sha_block :: "sha_state \<Rightarrow> bytes \<Rightarrow> sha_state" where
  "sha_block (a, b, c, d, e, f, g, h) blk =
     (case foldl sha_round (a, b, c, d, e, f, g, h) (zip sha_K (sha_schedule 48 (block_words blk))) of
        (a', b', c', d', e', f', g', h') \<Rightarrow> (a + a', b + b', c + c', d + d', e + e', f + f', g + g', h + h'))"

function sha_blocks :: "bytes \<Rightarrow> bytes list" where
  "sha_blocks bs = (if bs = [] then [] else take 64 bs # sha_blocks (drop 64 bs))"
  by auto
termination by (relation "measure length") auto

declare sha_blocks.simps [simp del]

definition sha_pad :: "bytes \<Rightarrow> bytes" where
  "sha_pad msg = msg @ [0x80] @ replicate ((119 - length msg mod 64) mod 64) 0 @
     be_bytes 8 (of_nat (8 * length msg) :: 64 word)"

fun sha_out :: "sha_state \<Rightarrow> bytes" where
  "sha_out (a, b, c, d, e, f, g, h) = concat (map (be_bytes 4) [a, b, c, d, e, f, g, h])"

definition sha_init :: sha_state where
  "sha_init = (case sha_H0 of [a, b, c, d, e, f, g, h] \<Rightarrow> (a, b, c, d, e, f, g, h))"

definition sha256 :: "bytes \<Rightarrow> bytes" where
  "sha256 msg = sha_out (foldl sha_block sha_init (sha_blocks (sha_pad msg)))"

section \<open>HMAC\<close>

definition hmac_key :: "bytes \<Rightarrow> bytes" where
  "hmac_key key = (let k = (if length key > 64 then sha256 key else key) in k @ replicate (64 - length k) 0)"

definition hmac_sha256 :: "bytes \<Rightarrow> bytes \<Rightarrow> bytes" where
  "hmac_sha256 key msg =
     (let k = hmac_key key
      in sha256 (map (\<lambda>b. b XOR 0x5c) k @ sha256 (map (\<lambda>b. b XOR 0x36) k @ msg)))"

section \<open>Lemmas\<close>

lemma length_be_bytes [simp]: "length (be_bytes n w) = n"
  by (induction n) simp_all

lemma length_sha256 [simp]: "length (sha256 msg) = 32"
  unfolding sha256_def by (cases "foldl sha_block sha_init (sha_blocks (sha_pad msg))" rule: sha_out.cases) simp

lemma length_hmac [simp]: "length (hmac_sha256 key msg) = 32"
  by (simp add: hmac_sha256_def Let_def)

lemma length_hmac_key: "length (hmac_key key) = 64"
  by (simp add: hmac_key_def Let_def)

lemma pad_zeros:
  "k \<le> 55 \<Longrightarrow> (119 - k) mod 64 = 55 - (k::nat)" "55 < k \<Longrightarrow> (119 - k) mod 64 = 119 - (k::nat)"
proof -
  assume "k \<le> 55"
  then have "119 - k = (55 - k) + 64" by simp
  then have "(119 - k) mod 64 = (55 - k) mod 64" by (simp only: mod_add_self2)
  then show "(119 - k) mod 64 = 55 - k" by simp
qed simp

lemma pad_total:
  "m = 64 * q + k \<Longrightarrow> k < 64 \<Longrightarrow> \<exists>c. m + 9 + (119 - k) mod 64 = 64 * (c::nat)"
proof -
  assume m: "m = 64 * q + k" and k: "k < 64"
  show ?thesis
  proof (cases "k \<le> 55")
    case True
    then have "m + 9 + (119 - k) mod 64 = 64 * (q + 1)" by (simp add: m pad_zeros(1))
    then show ?thesis by blast
  next
    case False
    then have "m + 9 + (119 - k) mod 64 = 64 * (q + 2)" using k by (simp add: m pad_zeros(2))
    then show ?thesis by blast
  qed
qed

lemma sha_pad_blocks: "64 dvd length (sha_pad msg)"
  using pad_total [of "length msg" "length msg div 64" "length msg mod 64"]
  by (auto simp: sha_pad_def dvd_def ac_simps)

text \<open>Reading back what was written.\<close>

lemma push_byte:
  "push_bit m (push_bit 8 acc OR ucast (ucast (drop_bit m (w :: 'a::len word)) :: byte)) OR take_bit m w =
   push_bit (m + 8) acc OR take_bit (m + 8) w"
  by (rule bit_word_eqI) (auto simp: bit_simps diff_diff_left)

lemma be_read_from:
  "foldl (\<lambda>acc b. push_bit 8 acc OR ucast b) acc (be_bytes n (w :: 'a::len word)) =
   push_bit (8 * n) acc OR take_bit (8 * n) w"
proof (induction n arbitrary: acc)
  case (Suc n)
  show ?case using Suc.IH push_byte [of "8 * n" acc w] by (simp add: add.commute)
qed (simp add: bit_eq_iff bit_simps)

lemma be_read_be_bytes: "be_read (be_bytes n (w :: 'a::len word)) = take_bit (8 * n) w"
  unfolding be_read_def by (simp add: be_read_from)

lemma be_read_16 [simp]: "be_read (be_bytes 2 (w :: 16 word)) = w"
  by (simp add: be_read_be_bytes take_bit_word_eq_self)

lemma be_read_64 [simp]: "be_read (be_bytes 8 (w :: 64 word)) = w"
  by (simp add: be_read_be_bytes take_bit_word_eq_self)

text \<open>Writing back what was read.\<close>

lemma be_bytes_push:
  "length bs = n \<Longrightarrow> 8 * n \<le> LENGTH('a) \<Longrightarrow>
   be_bytes n (foldl (\<lambda>acc b. push_bit 8 acc OR ucast b) (acc :: 'a::len word) bs) = bs"
proof (induction bs arbitrary: n acc rule: rev_induct)
  case (snoc b bs)
  then obtain m where m: "n = Suc m" "length bs = m" by auto
  let ?w = "foldl (\<lambda>acc b. push_bit 8 acc OR ucast b) acc bs :: 'a word"
  have shift: "be_bytes (Suc k) (push_bit 8 v OR ucast b) = be_bytes k v @ [b]"
    if "8 * Suc k \<le> LENGTH('a)" for k and v :: "'a word"
    using that
  proof (induction k)
    case 0
    then show ?case by (auto simp: bit_simps intro!: bit_word_eqI)
  next
    case (Suc k)
    have "(ucast (drop_bit (8 * Suc k) (push_bit 8 v OR ucast b)) :: byte) = ucast (drop_bit (8 * k) v)"
      using Suc.prems by (intro bit_word_eqI) (auto simp: bit_simps dest: bit_imp_le_length)
    then show ?case using Suc by simp
  qed
  show ?case using shift [of m ?w] snoc.IH [of m] snoc.prems m by simp
qed simp

lemma be_bytes_be_read_16 [simp]: "length bs = 2 \<Longrightarrow> be_bytes 2 (be_read bs :: 16 word) = bs"
  unfolding be_read_def by (rule be_bytes_push) simp_all

lemma be_bytes_be_read_64 [simp]: "length bs = 8 \<Longrightarrow> be_bytes 8 (be_read bs :: 64 word) = bs"
  unfolding be_read_def by (rule be_bytes_push) simp_all

lemma be_bytes_inj: "be_bytes n (v :: 'a::len word) = be_bytes n w \<Longrightarrow> LENGTH('a) \<le> 8 * n \<Longrightarrow> v = w"
  by (metis be_read_be_bytes take_bit_word_eq_self)

end
