(* ===== verification/Wire.thy ===== *)
theory Wire
  imports Sha256
begin

text \<open>
  The wire formats between the agents (\<open>src/internal/proto/proto.go\<close>): the authenticated probe
  packet, the control handshake, the bounded line reader and the authenticated session
  frames. Go strings are lists of characters, byte slices lists of bytes. The JSON encoder and
  decoder of an envelope are parameters (\<open>enc\<close>, \<open>dec\<close>).
\<close>

unbundle bit_operations_syntax

definition bytes_of :: "string \<Rightarrow> bytes" where
  "bytes_of s = map (\<lambda>c. word_of_nat (of_char c)) s"

definition slice :: "nat \<Rightarrow> nat \<Rightarrow> 'a list \<Rightarrow> 'a list" where
  "slice i j b = take (j - i) (drop i b)"

section \<open>The probe packet\<close>

definition ProbeSize :: nat where "ProbeSize = 66"
definition offMAC :: nat where "offMAC = 50"
definition TypeProbe :: byte where "TypeProbe = 1"
definition TypeReply :: byte where "TypeReply = 2"
definition wire_Version :: byte where "wire_Version = 2"

definition wire_magic :: bytes where
  "wire_magic = bytes_of ''FOVR''"

definition probeLabel :: string where "probeLabel = ''homeport-probe-v2''"
definition controlLabel :: string where "controlLabel = ''homeport-control-client-v2''"
definition controlAckLabel :: string where "controlAckLabel = ''homeport-control-server-v2''"
definition sessionLabel :: string where "sessionLabel = ''homeport-control-session-v2''"
definition frameToServer :: string where "frameToServer = ''homeport-frame-to-server-v2''"
definition frameToClient :: string where "frameToClient = ''homeport-frame-to-client-v2''"

record Probe =
  m_Type :: byte
  m_PathID :: uint16
  m_Seq :: uint64
  m_TxNanos :: int
  m_EchoNanos :: int
  m_ActivePath :: uint16
  m_DecisionSeq :: uint64
  m_Nonce :: uint64

datatype probe_error = ErrBadProbe | ErrProbeVersion

definition probeMAC :: "bytes \<Rightarrow> bytes \<Rightarrow> bytes" where
  "probeMAC psk body = take 16 (hmac_sha256 psk (bytes_of probeLabel @ body))"

definition probe_body :: "Probe \<Rightarrow> bytes" where
  "probe_body p = wire_magic @ [wire_Version, m_Type p] @ be_bytes 2 (m_PathID p) @ be_bytes 8 (m_Seq p) @
     be_bytes 8 (word_of_int (m_TxNanos p) :: uint64) @ be_bytes 8 (word_of_int (m_EchoNanos p) :: uint64) @
     be_bytes 2 (m_ActivePath p) @ be_bytes 8 (m_DecisionSeq p) @ be_bytes 8 (m_Nonce p)"

definition Marshal :: "Probe \<Rightarrow> bytes \<Rightarrow> bytes" where
  "Marshal p psk = probe_body p @ probeMAC psk (probe_body p)"

definition Unmarshal :: "bytes \<Rightarrow> bytes \<Rightarrow> probe_error + Probe" where
  "Unmarshal b psk =
     (if length b \<noteq> ProbeSize then Inl ErrBadProbe
      else if slice 0 4 b \<noteq> wire_magic then Inl ErrBadProbe
      else if b ! 4 \<noteq> wire_Version then Inl ErrProbeVersion
      else if probeMAC psk (slice 0 offMAC b) \<noteq> slice offMAC ProbeSize b then Inl ErrBadProbe
      else Inr \<lparr>m_Type = b ! 5, m_PathID = be_read (slice 6 8 b), m_Seq = be_read (slice 8 16 b),
                m_TxNanos = sint (be_read (slice 16 24 b) :: uint64),
                m_EchoNanos = sint (be_read (slice 24 32 b) :: uint64),
                m_ActivePath = be_read (slice 32 34 b), m_DecisionSeq = be_read (slice 34 42 b),
                m_Nonce = be_read (slice 42 50 b)\<rparr>)"

section \<open>The handshake\<close>

definition nonceLen :: nat where "nonceLen = 32"

definition validNonce :: "string \<Rightarrow> bool" where
  "validNonce s \<longleftrightarrow> length s = nonceLen \<and>
     list_all (\<lambda>ch. let c = (of_char ch :: nat) in (48 \<le> c \<and> c \<le> 57) \<or> (97 \<le> c \<and> c \<le> 102)) s"

definition hexDigits :: string where "hexDigits = ''0123456789abcdef''"

definition hexEncode :: "bytes \<Rightarrow> string" where
  "hexEncode b = concat (map (\<lambda>c. [hexDigits ! unat (drop_bit 4 c), hexDigits ! unat (c AND 15)]) b)"

text \<open>\<open>RandomNonce\<close>, of the sixteen bytes the random source gave.\<close>

definition RandomNonce :: "bytes \<Rightarrow> string" where
  "RandomNonce rnd = hexEncode (slice 0 16 rnd)"

datatype nonce_error = ErrBadNonce

definition controlMAC :: "bytes \<Rightarrow> string \<Rightarrow> string \<Rightarrow> string \<Rightarrow> nonce_error + string" where
  "controlMAC psk label serverNonce clientNonce =
     (if \<not> validNonce serverNonce \<or> \<not> validNonce clientNonce then Inl ErrBadNonce
      else Inr (hexEncode (hmac_sha256 psk (bytes_of label @ bytes_of serverNonce @ bytes_of clientNonce))))"

definition verifyControl :: "bytes \<Rightarrow> string \<Rightarrow> string \<Rightarrow> string \<Rightarrow> string \<Rightarrow> bool" where
  "verifyControl psk label serverNonce clientNonce got =
     (case controlMAC psk label serverNonce clientNonce of Inl _ \<Rightarrow> False | Inr want \<Rightarrow> want = got)"

definition SignAuth :: "bytes \<Rightarrow> string \<Rightarrow> string \<Rightarrow> nonce_error + string" where
  "SignAuth psk = controlMAC psk controlLabel"

definition VerifyAuth :: "bytes \<Rightarrow> string \<Rightarrow> string \<Rightarrow> string \<Rightarrow> bool" where
  "VerifyAuth psk = verifyControl psk controlLabel"

definition SignAuthAck :: "bytes \<Rightarrow> string \<Rightarrow> string \<Rightarrow> nonce_error + string" where
  "SignAuthAck psk = controlMAC psk controlAckLabel"

definition VerifyAuthAck :: "bytes \<Rightarrow> string \<Rightarrow> string \<Rightarrow> string \<Rightarrow> bool" where
  "VerifyAuthAck psk = verifyControl psk controlAckLabel"

section \<open>Frames\<close>

definition MaxFrameBytes :: nat where "MaxFrameBytes = 1048576"

record Envelope =
  en_Type :: string
  en_Data :: bytes
  en_Seq :: uint64
  en_MAC :: string

datatype frame_error = ErrMarshal | ErrFrameTooLarge | ErrWrite | ErrEOF | ErrSyntax | ErrBadFrame

definition newline :: byte where "newline = 10"

text \<open>
  \<open>bufio.Reader.ReadSlice\<close> over the bytes still to come: up to the delimiter, or a full buffer
  of the default size, or what is left before the end of the stream.
\<close>

definition bufSize :: nat where "bufSize = 4096"

datatype slice_end = Delim | BufferFull | StreamEnd

definition ReadSlice :: "bytes \<Rightarrow> bytes \<times> slice_end \<times> bytes" where
  "ReadSlice bs =
     (let pre = takeWhile (\<lambda>b. b \<noteq> newline) bs; n = length pre in
      if n < bufSize \<and> n < length bs then (take (Suc n) bs, Delim, drop (Suc n) bs)
      else if bufSize \<le> length bs then (take bufSize bs, BufferFull, drop bufSize bs)
      else (bs, StreamEnd, []))"

function readLine :: "bytes \<Rightarrow> bytes \<Rightarrow> frame_error + (bytes \<times> bytes)" where
  "readLine line bs =
     (case ReadSlice bs of (chunk, stop, rest) \<Rightarrow>
        if length line + length chunk > MaxFrameBytes then Inl ErrFrameTooLarge
        else case stop of
               Delim \<Rightarrow> Inr (line @ chunk, rest)
             | BufferFull \<Rightarrow> readLine (line @ chunk) rest
             | StreamEnd \<Rightarrow> Inl ErrEOF)"
  by pat_completeness auto
termination
  by (relation "measure (\<lambda>(line, bs). length bs)")
     (auto simp: ReadSlice_def Let_def bufSize_def split: if_splits)

declare readLine.simps [simp del]

text \<open>The payload is \<open>None\<close> for nil, \<open>Some None\<close> where its encoding fails; \<open>wr\<close> says whether the write succeeds.\<close>

definition WriteFrame ::
    "(Envelope \<Rightarrow> bytes option) \<Rightarrow> bool \<Rightarrow> string \<Rightarrow> bytes option option \<Rightarrow> frame_error + bytes" where
  "WriteFrame enc wr typ payload =
     (case payload of
        Some None \<Rightarrow> Inl ErrMarshal
      | _ \<Rightarrow>
        let env = \<lparr>en_Type = typ, en_Data = (case payload of Some (Some raw) \<Rightarrow> raw | _ \<Rightarrow> []),
                   en_Seq = 0, en_MAC = ''''\<rparr>
        in case enc env of
             None \<Rightarrow> Inl ErrMarshal
           | Some line \<Rightarrow> if length line + 1 > MaxFrameBytes then Inl ErrFrameTooLarge
                          else if \<not> wr then Inl ErrWrite else Inr (line @ [newline]))"

definition ReadFrame :: "(bytes \<Rightarrow> Envelope option) \<Rightarrow> bytes \<Rightarrow> frame_error + (Envelope \<times> bytes)" where
  "ReadFrame dec bs =
     (case readLine [] bs of
        Inl err \<Rightarrow> Inl err
      | Inr (line, rest) \<Rightarrow> (case dec line of None \<Rightarrow> Inl ErrSyntax | Some env \<Rightarrow> Inr (env, rest)))"

section \<open>Sessions\<close>

record Session =
  ss_key :: bytes
  ss_txLabel :: string
  ss_rxLabel :: string
  ss_tx :: uint64
  ss_rx :: uint64

definition NewSession :: "bytes \<Rightarrow> string \<Rightarrow> string \<Rightarrow> bool \<Rightarrow> nonce_error + Session" where
  "NewSession psk serverNonce clientNonce dialler =
     (if \<not> validNonce serverNonce \<or> \<not> validNonce clientNonce then Inl ErrBadNonce
      else Inr \<lparr>ss_key = hmac_sha256 psk (bytes_of sessionLabel @ bytes_of serverNonce @ bytes_of clientNonce),
                ss_txLabel = (if dialler then frameToServer else frameToClient),
                ss_rxLabel = (if dialler then frameToClient else frameToServer), ss_tx = 0, ss_rx = 0\<rparr>)"

definition frame_preimage :: "string \<Rightarrow> uint64 \<Rightarrow> string \<Rightarrow> bytes \<Rightarrow> bytes" where
  "frame_preimage label seq typ data = bytes_of label @ be_bytes 8 seq @
     be_bytes 8 (of_nat (length typ) :: uint64) @ bytes_of typ @
     be_bytes 8 (of_nat (length data) :: uint64) @ data"

definition frameMAC :: "bytes \<Rightarrow> string \<Rightarrow> uint64 \<Rightarrow> string \<Rightarrow> bytes \<Rightarrow> string" where
  "frameMAC key label seq typ data = hexEncode (take 16 (hmac_sha256 key (frame_preimage label seq typ data)))"

definition session_envelope :: "Session \<Rightarrow> string \<Rightarrow> bytes \<Rightarrow> Envelope" where
  "session_envelope s typ data = \<lparr>en_Type = typ, en_Data = data, en_Seq = ss_tx s,
     en_MAC = frameMAC (ss_key s) (ss_txLabel s) (ss_tx s) typ data\<rparr>"

definition Session_WriteFrame ::
    "(Envelope \<Rightarrow> bytes option) \<Rightarrow> bool \<Rightarrow> Session \<Rightarrow> string \<Rightarrow> bytes option option \<Rightarrow> frame_error + (bytes \<times> Session)" where
  "Session_WriteFrame enc wr s typ payload =
     (case payload of
        Some None \<Rightarrow> Inl ErrMarshal
      | _ \<Rightarrow>
        let env = session_envelope s typ (case payload of Some (Some raw) \<Rightarrow> raw | _ \<Rightarrow> [])
        in case enc env of
             None \<Rightarrow> Inl ErrMarshal
           | Some line \<Rightarrow> if length line + 1 > MaxFrameBytes then Inl ErrFrameTooLarge
                          else if \<not> wr then Inl ErrWrite
                          else Inr (line @ [newline], s\<lparr>ss_tx := ss_tx s + 1\<rparr>))"

text \<open>The authentication of a parsed envelope, and the read around it.\<close>

definition session_accept :: "Session \<Rightarrow> Envelope \<Rightarrow> frame_error + Session" where
  "session_accept s env =
     (if en_Seq env \<noteq> ss_rx s then Inl ErrBadFrame
      else if frameMAC (ss_key s) (ss_rxLabel s) (en_Seq env) (en_Type env) (en_Data env) \<noteq> en_MAC env
           then Inl ErrBadFrame
           else Inr (s\<lparr>ss_rx := ss_rx s + 1\<rparr>))"

definition Session_ReadFrame ::
    "(bytes \<Rightarrow> Envelope option) \<Rightarrow> Session \<Rightarrow> bytes \<Rightarrow> frame_error + (Envelope \<times> Session \<times> bytes)" where
  "Session_ReadFrame dec s bs =
     (case readLine [] bs of
        Inl err \<Rightarrow> Inl err
      | Inr (line, rest) \<Rightarrow>
          (case dec line of
             None \<Rightarrow> Inl ErrSyntax
           | Some env \<Rightarrow> (case session_accept s env of
               Inl err \<Rightarrow> Inl err
             | Inr s' \<Rightarrow> Inr (env, s', rest))))"

section \<open>Slices and strings\<close>

lemma length_bytes_of [simp]: "length (bytes_of s) = length s"
  by (simp add: bytes_of_def)

lemma byte_of_char_inj: "(word_of_nat (of_char c) :: byte) = word_of_nat (of_char d) \<Longrightarrow> c = d"
proof -
  assume e: "(word_of_nat (of_char c) :: byte) = word_of_nat (of_char d)"
  have n: "unat (word_of_nat (of_char x) :: byte) = of_char x" for x
    using nat_of_char_less_256 [of x] by (simp add: unat_of_nat)
  have "(of_char c :: nat) = of_char d" using n [of c] n [of d] e by metis
  then show "c = d" by (metis of_char_eq_iff)
qed

lemma bytes_of_inj: "bytes_of s = bytes_of t \<longleftrightarrow> s = t"
  using byte_of_char_inj inj_map_eq_map [of "\<lambda>c. word_of_nat (of_char c) :: byte" s t]
  by (auto simp: bytes_of_def inj_def)

lemma slice_append: "i \<le> j \<Longrightarrow> j \<le> k \<Longrightarrow> slice i j b @ slice j k b = slice i k b"
proof -
  assume a: "i \<le> j" "j \<le> k"
  have "take (j - i + (k - j)) (drop i b) = take (j - i) (drop i b) @ take (k - j) (drop (j - i) (drop i b))"
    by (rule take_add)
  moreover have "j - i + (k - j) = k - i" "j - i + i = j" using a by simp_all
  ultimately show ?thesis by (simp add: slice_def)
qed

lemma slice_nth: "i < length b \<Longrightarrow> slice i (Suc i) b = [b ! i]"
  by (simp add: slice_def take_Suc_conv_app_nth hd_drop_conv_nth flip: Cons_nth_drop_Suc)

lemma length_slice [simp]: "length (slice i j b) = min (j - i) (length b - i)"
  by (simp add: slice_def min.commute)

lemma slice_all: "length b = n \<Longrightarrow> slice 0 n b = b"
  by (simp add: slice_def)

lemma slice_skip: "length xs \<le> i \<Longrightarrow> slice i j (xs @ ys) = slice (i - length xs) (j - length xs) ys"
  by (simp add: slice_def)

lemma slice_here: "length xs = j \<Longrightarrow> slice 0 j (xs @ ys) = xs"
  by (simp add: slice_def)

section \<open>The probe packet\<close>

lemma length_probe_body [simp]: "length (probe_body p) = 50"
  by (simp add: probe_body_def wire_magic_def)

lemma length_probeMAC [simp]: "length (probeMAC psk b) = 16"
  by (simp add: probeMAC_def)

lemma sint_int64: "in_int64 x \<Longrightarrow> sint (word_of_int x :: uint64) = x"
  by (simp add: sint_sbintrunc' signed_take_bit_int_eq_self go_arith)

lemma wire_magic_length [simp]: "length wire_magic = 4"
  by (simp add: wire_magic_def)

lemma Unmarshal_Marshal:
  assumes "in_int64 (m_TxNanos p)" and "in_int64 (m_EchoNanos p)"
  shows "Unmarshal (Marshal p psk) psk = Inr p"
proof -
  let ?b = "Marshal p psk"
  have body: "slice 0 offMAC ?b = probe_body p" "slice offMAC ProbeSize ?b = probeMAC psk (probe_body p)"
    by (simp_all add: Marshal_def offMAC_def ProbeSize_def slice_def)
  have nth: "?b ! 4 = wire_Version" "?b ! 5 = m_Type p"
    by (simp_all add: Marshal_def probe_body_def nth_append)
  have "slice 0 4 ?b = wire_magic" "slice 6 8 ?b = be_bytes 2 (m_PathID p)" "slice 8 16 ?b = be_bytes 8 (m_Seq p)"
    "slice 16 24 ?b = be_bytes 8 (word_of_int (m_TxNanos p) :: uint64)"
    "slice 24 32 ?b = be_bytes 8 (word_of_int (m_EchoNanos p) :: uint64)"
    "slice 32 34 ?b = be_bytes 2 (m_ActivePath p)" "slice 34 42 ?b = be_bytes 8 (m_DecisionSeq p)"
    "slice 42 50 ?b = be_bytes 8 (m_Nonce p)"
    by (simp_all add: Marshal_def probe_body_def slice_def)
  with body nth assms show ?thesis by (simp add: Unmarshal_def sint_int64) (simp add: Marshal_def ProbeSize_def)
qed

lemma Marshal_Unmarshal:
  assumes "Unmarshal b psk = Inr p"
  shows "Marshal p psk = b"
proof -
  have len: "length b = 66" and mag: "slice 0 4 b = wire_magic" and ver: "b ! 4 = wire_Version"
    and mac: "probeMAC psk (slice 0 50 b) = slice 50 66 b"
    and p: "p = \<lparr>m_Type = b ! 5, m_PathID = be_read (slice 6 8 b), m_Seq = be_read (slice 8 16 b),
                m_TxNanos = sint (be_read (slice 16 24 b) :: uint64),
                m_EchoNanos = sint (be_read (slice 24 32 b) :: uint64),
                m_ActivePath = be_read (slice 32 34 b), m_DecisionSeq = be_read (slice 34 42 b),
                m_Nonce = be_read (slice 42 50 b)\<rparr>"
    using assms by (auto simp: Unmarshal_def ProbeSize_def offMAC_def split: if_splits)
  have v: "[wire_Version] = slice 4 5 b" "[b ! 5] = slice 5 6 b"
    using slice_nth [of 4 b] slice_nth [of 5 b] len ver by simp_all
  have "probe_body p = slice 0 4 b @ slice 4 5 b @ slice 5 6 b @ slice 6 8 b @ slice 8 16 b @ slice 16 24 b @
      slice 24 32 b @ slice 32 34 b @ slice 34 42 b @ slice 42 50 b"
    unfolding probe_body_def p v [symmetric] mag using len by simp
  also have "\<dots> = slice 0 50 b" by (simp add: slice_append)
  finally have "Marshal p psk = slice 0 50 b @ slice 50 66 b" using mac by (simp add: Marshal_def)
  then show ?thesis using len by (simp add: slice_append slice_all)
qed

section \<open>Preimages\<close>

definition wire_labels :: "string list" where
  "wire_labels = [probeLabel, controlLabel, controlAckLabel, sessionLabel, frameToServer, frameToClient]"

definition prefix_free :: "string list \<Rightarrow> bool" where
  "prefix_free ls \<longleftrightarrow> list_all (\<lambda>a. list_all (\<lambda>b. a = b \<or> take (min (length a) (length b)) a \<noteq> take (min (length a) (length b)) b) ls) ls"

lemma wire_labels_prefix_free: "prefix_free wire_labels"
  by code_simp

lemma labels_separate:
  assumes "a \<in> set wire_labels" "b \<in> set wire_labels" "bytes_of a @ x = bytes_of b @ y"
  shows "a = b \<and> x = y"
proof -
  let ?n = "min (length a) (length b)"
  have "take ?n (bytes_of a @ x) = bytes_of (take ?n a)" "take ?n (bytes_of b @ y) = bytes_of (take ?n b)"
    by (simp_all add: bytes_of_def take_map)
  then have "take ?n a = take ?n b" using assms(3) bytes_of_inj by metis
  then have "a = b"
    using wire_labels_prefix_free assms(1,2) by (auto simp: prefix_free_def list_all_iff)
  with assms(3) show ?thesis by simp
qed

lemma len64_inj: "of_nat m = (of_nat n :: uint64) \<Longrightarrow> m < 2 ^ 64 \<Longrightarrow> n < 2 ^ 64 \<Longrightarrow> m = n"
  by (simp add: word_of_nat_eq_iff take_bit_nat_eq_self)

lemma frame_preimage_inj:
  assumes "frame_preimage l s t d = frame_preimage l' s' t' d'"
    and "l \<in> set wire_labels" "l' \<in> set wire_labels"
    and "length t < 2 ^ 64" "length t' < 2 ^ 64"
  shows "l = l' \<and> s = s' \<and> t = t' \<and> d = d'"
proof -
  note eq = labels_separate [OF assms(2,3) assms(1) [unfolded frame_preimage_def]]
  then have s: "be_bytes 8 s = be_bytes 8 s'" and
    n: "be_bytes 8 (of_nat (length t) :: uint64) = be_bytes 8 (of_nat (length t') :: uint64)" and
    r: "bytes_of t @ be_bytes 8 (of_nat (length d) :: uint64) @ d =
        bytes_of t' @ be_bytes 8 (of_nat (length d') :: uint64) @ d'"
    by (simp_all add: append_eq_append_conv)
  have "length t = length t'" using be_bytes_inj [OF n] len64_inj assms(4,5) by simp
  then have "bytes_of t = bytes_of t'" "d = d'" using r by (simp_all add: append_eq_append_conv)
  then show ?thesis using eq be_bytes_inj [OF s] bytes_of_inj by simp
qed

section \<open>Nonces\<close>

lemma hexEncode_Nil [simp]: "hexEncode [] = []"
  by (simp add: hexEncode_def)

lemma hexEncode_Cons: "hexEncode (c # cs) = [hexDigits ! unat (drop_bit 4 c), hexDigits ! unat (c AND 15)] @ hexEncode cs"
  by (simp add: hexEncode_def)

lemma length_hexEncode [simp]: "length (hexEncode b) = 2 * length b"
  by (induction b) (simp_all add: hexEncode_Cons)

definition hex_char :: "char \<Rightarrow> bool" where
  "hex_char ch = (let c = (of_char ch :: nat) in (48 \<le> c \<and> c \<le> 57) \<or> (97 \<le> c \<and> c \<le> 102))"

lemma hexDigits_hex: "i < 16 \<Longrightarrow> hex_char (hexDigits ! i)"
proof -
  have "list_all (\<lambda>i. hex_char (hexDigits ! i)) [0..<16]" by code_simp
  then show "i < 16 \<Longrightarrow> ?thesis" by (simp add: list_all_iff)
qed

lemma nibbles: "unat (drop_bit 4 (c :: byte)) < 16" "unat ((c :: byte) AND 15) < 16"
proof -
  have "unat c < 256" using unsigned_less [of c, where ?'a = nat] by simp
  then show "unat (drop_bit 4 c) < 16" unfolding unat_drop_bit_eq by (simp add: drop_bit_eq_div)
  have "c AND 15 = take_bit 4 c" by (simp add: take_bit_eq_mask mask_eq_exp_minus_1)
  then have "unat (c AND 15) = take_bit 4 (unat c)" by (simp only: unsigned_take_bit_eq)
  then show "unat (c AND 15) < 16" by (simp add: take_bit_eq_mod)
qed

lemma hexEncode_hex: "list_all hex_char (hexEncode b)"
  by (induction b) (simp_all add: hexEncode_Cons hexDigits_hex nibbles)

lemma validNonce_alt: "validNonce s \<longleftrightarrow> length s = 32 \<and> list_all hex_char s"
  unfolding validNonce_def nonceLen_def hex_char_def by (simp add: list_all_iff)

lemma validNonce_RandomNonce: "length rnd = 16 \<Longrightarrow> validNonce (RandomNonce rnd)"
  by (simp add: validNonce_alt RandomNonce_def hexEncode_hex)

section \<open>Lines\<close>

lemma ReadSlice_split: "ReadSlice bs = (chunk, stop, rest) \<Longrightarrow> chunk @ rest = bs"
  by (auto simp: ReadSlice_def Let_def split: if_splits)

lemma takeWhile_end:
  "length (takeWhile P bs) < length bs \<Longrightarrow>
   take (Suc (length (takeWhile P bs))) bs = takeWhile P bs @ [bs ! length (takeWhile P bs)]"
  by (metis take_Suc_conv_app_nth takeWhile_eq_take)

lemma ReadSlice_Delim:
  assumes "ReadSlice bs = (chunk, Delim, rest)"
  shows "\<exists>l. chunk = l @ [newline] \<and> newline \<notin> set l"
proof -
  let ?l = "takeWhile (\<lambda>b. b \<noteq> newline) bs"
  have n: "length ?l < length bs" "chunk = take (Suc (length ?l)) bs"
    using assms by (auto simp: ReadSlice_def Let_def split: if_splits)
  then have "chunk = ?l @ [newline]"
    using takeWhile_end [OF n(1)] nth_length_takeWhile [OF n(1)] by simp
  moreover have "newline \<notin> set ?l" by (auto dest: set_takeWhileD)
  ultimately show ?thesis by blast
qed

lemma ReadSlice_Full: "ReadSlice bs = (chunk, BufferFull, rest) \<Longrightarrow> newline \<notin> set chunk"
proof -
  assume "ReadSlice bs = (chunk, BufferFull, rest)"
  then have c: "chunk = take bufSize bs" "bufSize \<le> length bs" "\<not> length (takeWhile (\<lambda>b. b \<noteq> newline) bs) < bufSize"
    by (auto simp: ReadSlice_def Let_def split: if_splits)
  have "take bufSize bs = take bufSize (takeWhile (\<lambda>b. b \<noteq> newline) bs)"
    using c(3) by (metis takeWhile_eq_take min.absorb1 not_le take_take)
  then show ?thesis using c(1) by (metis in_set_takeD set_takeWhileD)
qed

text \<open>A line that is returned is a bounded prefix of the stream up to its first newline.\<close>

lemma readLine_sound:
  assumes "readLine line bs = Inr (l, rest)" and "newline \<notin> set line"
  shows "length l \<le> MaxFrameBytes \<and> l @ rest = line @ bs \<and> (\<exists>f. l = f @ [newline] \<and> newline \<notin> set f)"
  using assms
proof (induction line bs rule: readLine.induct)
  case (1 line bs)
  obtain chunk stop rst where rs: "ReadSlice bs = (chunk, stop, rst)" by (cases "ReadSlice bs") auto
  note split = ReadSlice_split [OF rs]
  have ok: "\<not> length line + length chunk > MaxFrameBytes"
    using "1.prems"(1) rs by (auto simp: readLine.simps [of line bs])
  show ?case
  proof (cases stop)
    case Delim
    then have "l = line @ chunk" "rest = rst"
      using "1.prems"(1) rs ok by (auto simp: readLine.simps [of line bs])
    moreover obtain f where "chunk = f @ [newline]" "newline \<notin> set f"
      using ReadSlice_Delim rs Delim by blast
    ultimately show ?thesis
      using ok split "1.prems"(2) by (auto intro!: exI [of _ "line @ f"])
  next
    case BufferFull
    then have "readLine (line @ chunk) rst = Inr (l, rest)"
      using "1.prems"(1) rs ok by (auto simp: readLine.simps [of line bs])
    then show ?thesis
      using "1.IH" [OF rs [symmetric] refl ok BufferFull] BufferFull rs ReadSlice_Full "1.prems"(2) split
      by auto
  next
    case StreamEnd
    then show ?thesis using "1.prems"(1) rs ok by (auto simp: readLine.simps [of line bs])
  qed
qed

lemma takeWhile_line: "newline \<notin> set f \<Longrightarrow> takeWhile (\<lambda>b. b \<noteq> newline) (f @ newline # rest) = f"
  by (induction f) auto

text \<open>A line within the bound is returned whole.\<close>

lemma readLine_complete:
  assumes "newline \<notin> set f" and "length line + length f + 1 \<le> MaxFrameBytes"
  shows "readLine line (f @ newline # rest) = Inr (line @ f @ [newline], rest)"
  using assms
proof (induction "length f" arbitrary: f line rule: less_induct)
  case less
  show ?case
  proof (cases "length f < bufSize")
    case True
    then have "ReadSlice (f @ newline # rest) = (f @ [newline], Delim, rest)"
      by (simp add: ReadSlice_def takeWhile_line [OF less.prems(1)] Let_def)
    then show ?thesis using less.prems(2) by (simp add: readLine.simps)
  next
    case False
    let ?d = "drop bufSize f"
    have rs: "ReadSlice (f @ newline # rest) = (take bufSize f, BufferFull, ?d @ newline # rest)"
      using False by (simp add: ReadSlice_def takeWhile_line [OF less.prems(1)] Let_def)
    have "readLine (line @ take bufSize f) (?d @ newline # rest) = Inr ((line @ take bufSize f) @ ?d @ [newline], rest)"
      using False less.prems by (intro less.hyps) (auto simp: bufSize_def dest: in_set_dropD)
    moreover have "\<not> length line + length (take bufSize f) > MaxFrameBytes"
      using less.prems(2) False by simp
    ultimately show ?thesis using rs by (simp add: readLine.simps [of line])
  qed
qed

section \<open>Runs of a session\<close>

text \<open>The frames a receiver accepts of a sequence of parsed envelopes, up to the first refusal.\<close>

fun accept_all :: "Session \<Rightarrow> Envelope list \<Rightarrow> Envelope list \<times> Session" where
  "accept_all s [] = ([], s)"
| "accept_all s (env # envs) = (case session_accept s env of
      Inl _ \<Rightarrow> ([], s)
    | Inr s' \<Rightarrow> (case accept_all s' envs of (acc, s'') \<Rightarrow> (env # acc, s'')))"

lemma accept_all_spec:
  "accept_all s envs = (acc, s') \<Longrightarrow>
   map en_Seq acc = map (\<lambda>i. ss_rx s + of_nat i) [0..<length acc] \<and>
   ss_rx s' = ss_rx s + of_nat (length acc) \<and> acc = take (length acc) envs \<and>
   list_all (\<lambda>env. en_MAC env = frameMAC (ss_key s) (ss_rxLabel s) (en_Seq env) (en_Type env) (en_Data env)) acc"
proof (induction envs arbitrary: s acc)
  case (Cons env envs)
  show ?case
  proof (cases "session_accept s env")
    case (Inl x)
    then show ?thesis using Cons.prems by auto
  next
    case (Inr s1)
    then obtain acc1 where a: "accept_all s1 envs = (acc1, s')" "acc = env # acc1"
      using Cons.prems by (auto split: prod.splits)
    have s1: "s1 = s\<lparr>ss_rx := ss_rx s + 1\<rparr>" "en_Seq env = ss_rx s"
      "en_MAC env = frameMAC (ss_key s) (ss_rxLabel s) (en_Seq env) (en_Type env) (en_Data env)"
      using Inr by (auto simp: session_accept_def split: if_splits)
    have "map en_Seq acc = map (\<lambda>i. ss_rx s + of_nat i) [0..<length acc]"
      using Cons.IH [OF a(1)] a(2) s1
      by (simp add: upt_conv_Cons map_Suc_upt [symmetric] add.assoc del: upt_Suc)
    then show ?thesis using Cons.IH [OF a(1)] a(2) s1 by (auto simp: add.assoc)
  qed
qed auto

text \<open>The frames a sender puts on the wire, with their envelopes and its final state.\<close>

fun send_all :: "Session \<Rightarrow> (string \<times> bytes) list \<Rightarrow> Envelope list \<times> Session" where
  "send_all s [] = ([], s)"
| "send_all s ((typ, data) # msgs) =
     (case send_all (s\<lparr>ss_tx := ss_tx s + 1\<rparr>) msgs of (envs, s') \<Rightarrow> (session_envelope s typ data # envs, s'))"

fun write_all ::
    "(Envelope \<Rightarrow> bytes option) \<Rightarrow> Session \<Rightarrow> (string \<times> bytes) list \<Rightarrow> (frame_error + bytes \<times> Session)" where
  "write_all enc s [] = Inr ([], s)"
| "write_all enc s ((typ, data) # msgs) =
     (case Session_WriteFrame enc True s typ (Some (Some data)) of
        Inl err \<Rightarrow> Inl err
      | Inr (line, s') \<Rightarrow> (case write_all enc s' msgs of
          Inl err \<Rightarrow> Inl err
        | Inr (bs, s'') \<Rightarrow> Inr (line @ bs, s'')))"

fun read_all ::
    "(bytes \<Rightarrow> Envelope option) \<Rightarrow> nat \<Rightarrow> Session \<Rightarrow> bytes \<Rightarrow> (frame_error + Envelope list \<times> Session \<times> bytes)" where
  "read_all dec 0 s bs = Inr ([], s, bs)"
| "read_all dec (Suc n) s bs =
     (case Session_ReadFrame dec s bs of
        Inl err \<Rightarrow> Inl err
      | Inr (env, s', rest) \<Rightarrow> (case read_all dec n s' rest of
          Inl err \<Rightarrow> Inl err
        | Inr (envs, s'', rest') \<Rightarrow> Inr (env # envs, s'', rest')))"

text \<open>What is asked of the encoding of the envelopes of a run: it fits, has no newline and is read back.\<close>

definition codec_ok :: "(Envelope \<Rightarrow> bytes option) \<Rightarrow> (bytes \<Rightarrow> Envelope option) \<Rightarrow> Envelope \<Rightarrow> bool" where
  "codec_ok enc dec env \<longleftrightarrow> (case enc env of
      None \<Rightarrow> False
    | Some line \<Rightarrow> newline \<notin> set line \<and> length line + 1 \<le> MaxFrameBytes \<and> dec (line @ [newline]) = Some env)"

definition paired :: "Session \<Rightarrow> Session \<Rightarrow> bool" where
  "paired tx rx \<longleftrightarrow> ss_key tx = ss_key rx \<and> ss_txLabel tx = ss_rxLabel rx \<and> ss_tx tx = ss_rx rx"

lemma session_deliver:
  assumes "paired s r" and "list_all (codec_ok enc dec) (fst (send_all s msgs))"
  shows "\<exists>bs. write_all enc s msgs = Inr (bs, snd (send_all s msgs)) \<and>
    (\<forall>rest. \<exists>r'. read_all dec (length msgs) r (bs @ rest) = Inr (fst (send_all s msgs), r', rest) \<and>
       paired (snd (send_all s msgs)) r')"
  using assms
proof (induction msgs arbitrary: s r)
  case (Cons msg msgs)
  obtain ty data where m: "msg = (ty, data)" by (cases msg)
  let ?env = "session_envelope s ty data" and ?s' = "s\<lparr>ss_tx := ss_tx s + 1\<rparr>" and ?r' = "r\<lparr>ss_rx := ss_rx r + 1\<rparr>"
  have sa: "fst (send_all s (msg # msgs)) = ?env # fst (send_all ?s' msgs)"
    "snd (send_all s (msg # msgs)) = snd (send_all ?s' msgs)"
    by (simp_all add: m split: prod.split)
  obtain line where l: "enc ?env = Some line" "newline \<notin> set line" "length line + 1 \<le> MaxFrameBytes"
    "dec (line @ [newline]) = Some ?env"
    using Cons.prems(2) by (auto simp: sa(1) codec_ok_def split: option.splits)
  have w: "Session_WriteFrame enc True s ty (Some (Some data)) = Inr (line @ [newline], ?s')"
    using l by (simp add: Session_WriteFrame_def)
  have acc: "session_accept r ?env = Inr ?r'"
    using Cons.prems(1) by (simp add: session_accept_def session_envelope_def paired_def)
  have rd: "Session_ReadFrame dec r (line @ newline # z) = Inr (?env, ?r', z)" for z
    using readLine_complete [OF l(2), of "[]" z] l(3,4) acc by (simp add: Session_ReadFrame_def)
  have "paired ?s' ?r'" using Cons.prems(1) by (simp add: paired_def)
  with Cons.IH [of ?s' ?r'] Cons.prems(2) sa(1) obtain bs where bs:
    "write_all enc ?s' msgs = Inr (bs, snd (send_all ?s' msgs))"
    "\<forall>rest. \<exists>r'. read_all dec (length msgs) ?r' (bs @ rest) = Inr (fst (send_all ?s' msgs), r', rest) \<and>
       paired (snd (send_all ?s' msgs)) r'"
    by auto
  have "write_all enc s (msg # msgs) = Inr (line @ newline # bs, snd (send_all s (msg # msgs)))"
    using w bs(1) sa(2) by (simp add: m)
  moreover have "\<exists>r'. read_all dec (length (msg # msgs)) r ((line @ newline # bs) @ rest) =
      Inr (fst (send_all s (msg # msgs)), r', rest) \<and> paired (snd (send_all s (msg # msgs))) r'" for rest
    using spec [OF bs(2), of rest] rd [of "bs @ rest"] sa by auto
  ultimately show ?case by blast
qed simp

section \<open>Properties\<close>

text \<open>A probe survives the wire: decoding what \<open>Marshal\<close> wrote under the same key gives the
  probe back, for every field value.\<close>

theorem probe_roundtrip:
  assumes "in_int64 (m_TxNanos p)" and "in_int64 (m_EchoNanos p)"
  shows "Unmarshal (Marshal p psk) psk = Inr p"
  using assms by (rule Unmarshal_Marshal)

theorem probe_roundtrip_witness:
  "Unmarshal (Marshal \<lparr>m_Type = TypeProbe, m_PathID = 3, m_Seq = 7, m_TxNanos = -5, m_EchoNanos = 0,
     m_ActivePath = 1, m_DecisionSeq = 9, m_Nonce = 11\<rparr> [1, 2, 3]) [1, 2, 3] =
   Inr \<lparr>m_Type = TypeProbe, m_PathID = 3, m_Seq = 7, m_TxNanos = -5, m_EchoNanos = 0,
     m_ActivePath = 1, m_DecisionSeq = 9, m_Nonce = 11\<rparr>"
  by (rule probe_roundtrip) (simp_all add: go_arith)

text \<open>A packet is accepted only if it is byte for byte what a holder of the key would write for
  the probe it decodes to, so no second encoding of a probe is ever accepted and every bit
  of the packet is covered.\<close>

theorem probe_canonical:
  assumes "Unmarshal b psk = Inr p"
  shows "b = Marshal p psk \<and> length b = ProbeSize"
  using Marshal_Unmarshal [OF assms] by (auto simp: Marshal_def ProbeSize_def)

theorem probe_canonical_witness:
  "length (Marshal \<lparr>m_Type = TypeReply, m_PathID = 3, m_Seq = 7, m_TxNanos = 0, m_EchoNanos = 0,
     m_ActivePath = 1, m_DecisionSeq = 9, m_Nonce = 11\<rparr> [1]) = ProbeSize"
  by (rule probe_canonical [OF Unmarshal_Marshal, THEN conjunct2]) (simp_all add: go_arith)

text \<open>Domain separation: what the key authenticates for one purpose is never what it
  authenticates for another. Two preimages under labels of the protocol are equal only if
  the labels are, and the rest of the preimage with them.\<close>

theorem mac_domains_separate:
  assumes "a \<in> set wire_labels" and "b \<in> set wire_labels"
  shows "bytes_of a @ x = bytes_of b @ y \<longleftrightarrow> a = b \<and> x = y"
  using labels_separate [OF assms] by auto

theorem mac_domains_separate_witness:
  "bytes_of probeLabel @ [1] \<noteq> bytes_of controlLabel @ [1]"
  using mac_domains_separate [of probeLabel controlLabel "[1]" "[1]"]
  by (simp add: wire_labels_def) (simp add: probeLabel_def controlLabel_def)

text \<open>A session frame's MAC binds direction, position, type and payload: two frames present
  the same bytes to the MAC only if all four agree.\<close>

theorem frame_preimage_binds:
  assumes "l \<in> {frameToServer, frameToClient}" and "l' \<in> {frameToServer, frameToClient}"
    and "length t < 2 ^ 64" and "length t' < 2 ^ 64"
  shows "frame_preimage l s t d = frame_preimage l' s' t' d' \<longleftrightarrow> l = l' \<and> s = s' \<and> t = t' \<and> d = d'"
  using assms frame_preimage_inj [of l s t d l' s' t' d'] by (auto simp: wire_labels_def)

theorem frame_preimage_binds_witness:
  "frame_preimage frameToServer 5 ''ping'' [] \<noteq> frame_preimage frameToServer 5 ''pin'' [103]"
  by (subst frame_preimage_binds) simp_all

text \<open>C38. Frames of a session arrive whole and in order: whatever messages one end writes, the other
  end, created from the same handshake, reads exactly those envelopes from the stream, and
  leaves what follows them unread. The encoding of each envelope is asked to be read back,
  to hold no newline and to fit the bound.\<close>

theorem session_delivers:
  assumes "NewSession psk sn cn dial = Inr s" and "NewSession psk sn cn (\<not> dial) = Inr r"
    and "list_all (codec_ok enc dec) (fst (send_all s msgs))"
  shows "\<exists>bs. write_all enc s msgs = Inr (bs, snd (send_all s msgs)) \<and>
    (\<forall>rest. \<exists>r'. read_all dec (length msgs) r (bs @ rest) = Inr (fst (send_all s msgs), r', rest) \<and>
       ss_rx r' = ss_tx (snd (send_all s msgs)))"
proof -
  have "paired s r" using assms(1,2) by (cases dial) (auto simp: NewSession_def paired_def split: if_splits)
  from session_deliver [OF this assms(3)] show ?thesis unfolding paired_def by metis
qed

theorem session_delivers_witness:
  "\<exists>s bs. NewSession [1] (RandomNonce (replicate 16 0)) (RandomNonce (replicate 16 1)) True = Inr s \<and>
     write_all (\<lambda>_. Some [7]) s [(''ping'', [])] = Inr (bs, snd (send_all s [(''ping'', [])]))"
proof -
  obtain s where s: "NewSession [1] (RandomNonce (replicate 16 0)) (RandomNonce (replicate 16 1)) True = Inr s"
    and r: "\<exists>r. NewSession [1] (RandomNonce (replicate 16 0)) (RandomNonce (replicate 16 1)) (\<not> True) = Inr r"
    by (simp add: NewSession_def validNonce_RandomNonce)
  have "list_all (codec_ok (\<lambda>_. Some [7]) (\<lambda>_. Some (session_envelope s ''ping'' []))) (fst (send_all s [(''ping'', [])]))"
    by (simp add: codec_ok_def newline_def MaxFrameBytes_def)
  with session_delivers [OF s] r s show ?thesis by metis
qed

text \<open>Nothing is replayed, reordered or skipped: of any sequence of envelopes put in front of a
  session, the accepted ones are a prefix, carry consecutive sequence numbers from the
  receiver's counter and the MAC of their own direction and content, so no envelope is
  accepted twice in \<open>2\<^sup>6\<^sup>4\<close> frames.\<close>

theorem session_no_replay:
  assumes "accept_all s envs = (acc, s')" and "length acc \<le> 2 ^ 64"
  shows "acc = take (length acc) envs \<and> distinct (map en_Seq acc) \<and>
    map en_Seq acc = map (\<lambda>i. ss_rx s + of_nat i) [0..<length acc] \<and>
    list_all (\<lambda>env. en_MAC env =
      frameMAC (ss_key s) (ss_rxLabel s) (en_Seq env) (en_Type env) (en_Data env)) acc"
proof -
  have "inj_on (\<lambda>i. ss_rx s + of_nat i) (set [0..<length acc])"
  proof (rule inj_onI)
    fix i j
    assume "i \<in> set [0..<length acc]" "j \<in> set [0..<length acc]" "ss_rx s + of_nat i = ss_rx s + of_nat j"
    then have "i < length acc" "j < length acc" and e: "(of_nat i :: uint64) = of_nat j" by simp_all
    then have "i < 2 ^ 64" "j < 2 ^ 64" using assms(2) by (metis less_le_trans)+
    with e show "i = j" by (rule len64_inj)
  qed
  then have "distinct (map (\<lambda>i. ss_rx s + of_nat i) [0..<length acc])" by (simp add: distinct_map)
  then show ?thesis using accept_all_spec [OF assms(1)] by simp
qed

theorem session_no_replay_witness:
  "distinct (map en_Seq (fst (send_all \<lparr>ss_key = [1], ss_txLabel = frameToClient, ss_rxLabel = frameToServer,
     ss_tx = 4, ss_rx = 0\<rparr> [(''ping'', []), (''pong'', [])])))"
proof -
  let ?r = "\<lparr>ss_key = [1], ss_txLabel = frameToServer, ss_rxLabel = frameToClient, ss_tx = 0, ss_rx = 4\<rparr>"
  let ?envs = "fst (send_all \<lparr>ss_key = [1], ss_txLabel = frameToClient, ss_rxLabel = frameToServer,
     ss_tx = 4, ss_rx = 0\<rparr> [(''ping'', []), (''pong'', [])])"
  have "accept_all ?r ?envs = (?envs, ?r\<lparr>ss_rx := 6\<rparr>)"
    by (simp add: session_accept_def session_envelope_def)
  from session_no_replay [OF this, THEN conjunct2, THEN conjunct1] show ?thesis by simp
qed

text \<open>The line reader is bounded and exact: what it returns is at most \<open>MaxFrameBytes\<close> long,
  is a prefix of the stream and ends at its first newline, however the stream is cut into
  buffers; and a stream whose first line fits is never refused.\<close>

theorem readLine_bounded_exact:
  "(case readLine [] bs of
      Inl _ \<Rightarrow> \<not> (\<exists>f rest. bs = f @ newline # rest \<and> newline \<notin> set f \<and> length f + 1 \<le> MaxFrameBytes)
    | Inr (l, rest) \<Rightarrow> l @ rest = bs \<and> length l \<le> MaxFrameBytes \<and> (\<exists>f. l = f @ [newline] \<and> newline \<notin> set f))"
proof (cases "readLine [] bs")
  case (Inl err)
  then show ?thesis using readLine_complete [of _ "[]"] by fastforce
next
  case (Inr a)
  then show ?thesis using readLine_sound [of "[]" bs] by (cases a) auto
qed

end
