(* ===== verification/Prober.thy ===== *)
theory Prober
  imports Tracker Wire
begin

text \<open>
  The prober of one path (\<open>src/internal/engine/prober.go\<close>): numbering and sending probes, matching
  replies, expiring what was not answered, and handing results on in the order the probes
  were sent. The results channel is the list of what was handed on. A step is one of the
  locked sections of the send loop, the read loop and the sweep.
\<close>

unbundle bit_operations_syntax

section \<open>State and operations\<close>

record pendingProbe =
  pp_sent :: gotime
  pp_nonce :: uint64

record Prober =
  pv_path :: PathConfig
  pv_probeCfg :: ProbeConfig
  pv_seq :: uint64
  pv_pending :: "uint64 \<Rightarrow> pendingProbe option"
  pv_resolved :: "uint64 \<Rightarrow> Result option"
  pv_deliver :: uint64
  pv_active :: bool
  pv_nudge :: bool
  pv_results :: "Result list"

text \<open>\<open>seedSeq\<close>, of the random word the source gave.\<close>

definition seedSeq :: "uint64 \<Rightarrow> uint64" where
  "seedSeq rnd = rnd AND (push_bit 62 1 - 1)"

definition NewProber :: "PathConfig \<Rightarrow> ProbeConfig \<Rightarrow> uint64 \<Rightarrow> Prober" where
  "NewProber p probeCfg rnd =
     (let seq = seedSeq rnd in
      \<lparr>pv_path = p, pv_probeCfg = probeCfg, pv_seq = seq, pv_pending = (\<lambda>_. None),
       pv_resolved = (\<lambda>_. None), pv_deliver = seq + 1, pv_active = False, pv_nudge = False, pv_results = []\<rparr>)"

definition Nudge :: "Prober \<Rightarrow> Prober" where
  "Nudge p = p\<lparr>pv_nudge := True\<rparr>"

definition SetActive :: "Prober \<Rightarrow> bool \<Rightarrow> Prober" where
  "SetActive p a = p\<lparr>pv_active := a\<rparr>"

definition interval :: "Prober \<Rightarrow> duration" where
  "interval p = (if pv_active p then milliseconds (pb_ActiveIntervalMs (pv_probeCfg p))
                 else milliseconds (pb_StandbyIntervalMs (pv_probeCfg p)))"

definition markLost :: "Prober \<Rightarrow> uint64 \<Rightarrow> gotime \<Rightarrow> Prober" where
  "markLost p seq now =
     p\<lparr>pv_pending := (pv_pending p)(seq := None),
       pv_resolved := (pv_resolved p)(seq \<mapsto>
         \<lparr>r_PathID = p_ID (pv_path p), r_Seq = seq, r_RTT = 0, r_Lost = True, r_At = now\<rparr>)\<rparr>"

text \<open>The probe \<open>send\<close> books and the packet it writes for the decision \<open>(activePath, decisionSeq)\<close>.\<close>

definition send :: "bytes \<Rightarrow> uint16 \<times> uint64 \<Rightarrow> uint64 \<Rightarrow> gotime \<Rightarrow> int \<Rightarrow> Prober \<Rightarrow> Prober \<times> uint64 \<times> bytes" where
  "send psk dec nonce now txNanos p =
     (let seq = pv_seq p + 1;
          p' = p\<lparr>pv_seq := seq, pv_pending := (pv_pending p)(seq \<mapsto> \<lparr>pp_sent = now, pp_nonce = nonce\<rparr>)\<rparr>
      in (p', seq,
          Marshal \<lparr>m_Type = TypeProbe, m_PathID = word_of_int (p_ID (pv_path p)), m_Seq = seq,
            m_TxNanos = txNanos, m_EchoNanos = 0, m_ActivePath = fst dec, m_DecisionSeq = snd dec,
            m_Nonce = nonce\<rparr> psk))"

definition resolve :: "Prober \<Rightarrow> Probe \<Rightarrow> gotime \<Rightarrow> Prober \<times> bool" where
  "resolve p msg now =
     (if m_Type msg \<noteq> TypeReply \<or> m_PathID msg \<noteq> word_of_int (p_ID (pv_path p)) then (p, False)
      else case pv_pending p (m_Seq msg) of
             None \<Rightarrow> (p, False)
           | Some entry \<Rightarrow>
               if pp_nonce entry \<noteq> m_Nonce msg then (p, False)
               else (p\<lparr>pv_pending := (pv_pending p)(m_Seq msg := None),
                       pv_resolved := (pv_resolved p)(m_Seq msg \<mapsto>
                         \<lparr>r_PathID = p_ID (pv_path p), r_Seq = m_Seq msg, r_RTT = time_Sub now (pp_sent entry),
                          r_Lost = False, r_At = now\<rparr>)\<rparr>, True))"

text \<open>\<open>readLoop\<close> on one datagram.\<close>

definition read_packet :: "bytes \<Rightarrow> Prober \<Rightarrow> bytes \<Rightarrow> gotime \<Rightarrow> Prober" where
  "read_packet psk p buf now = (case Unmarshal buf psk of Inl _ \<Rightarrow> p | Inr msg \<Rightarrow> fst (resolve p msg now))"

definition expired :: "Prober \<Rightarrow> gotime \<Rightarrow> uint64 \<Rightarrow> bool" where
  "expired p now seq = (case pv_pending p seq of
      None \<Rightarrow> False
    | Some entry \<Rightarrow> pp_sent entry < time_Add now (wrap64 (- milliseconds (pb_TimeoutMs (pv_probeCfg p)))))"

definition expire :: "Prober \<Rightarrow> gotime \<Rightarrow> Prober" where
  "expire p now =
     p\<lparr>pv_pending := (\<lambda>s. if expired p now s then None else pv_pending p s),
       pv_resolved := (\<lambda>s. if expired p now s
          then Some \<lparr>r_PathID = p_ID (pv_path p), r_Seq = s, r_RTT = 0, r_Lost = True, r_At = now\<rparr>
          else pv_resolved p s)\<rparr>"

text \<open>
  The loop of \<open>flush\<close>, one unit of fuel per turn. \<open>room\<close> is \<open>None\<close> while the context lives,
  otherwise how many more results the channel takes before the context ends; the result in
  hand is then dropped.
\<close>

fun flush_loop :: "nat \<Rightarrow> nat option \<Rightarrow> Prober \<Rightarrow> Prober option" where
  "flush_loop 0 room p = None"
| "flush_loop (Suc n) room p =
     (case pv_resolved p (pv_deliver p) of
        None \<Rightarrow>
          if pv_pending p (pv_deliver p) = None \<and> pv_deliver p < pv_seq p
          then flush_loop n room (p\<lparr>pv_deliver := pv_deliver p + 1\<rparr>)
          else Some p
      | Some r \<Rightarrow>
          let p' = p\<lparr>pv_resolved := (pv_resolved p)(pv_deliver p := None), pv_deliver := pv_deliver p + 1\<rparr>
          in if room = Some 0 then Some p'
             else flush_loop n (map_option (\<lambda>k. k - 1) room) (p'\<lparr>pv_results := pv_results p' @ [r]\<rparr>))"

text \<open>Every turn moves \<open>deliver\<close> up, and it stops above \<open>seq\<close>.\<close>

definition flush_fuel :: "Prober \<Rightarrow> nat" where
  "flush_fuel p = unat (pv_seq p) + 2 - unat (pv_deliver p)"

definition flush :: "nat option \<Rightarrow> Prober \<Rightarrow> Prober option" where
  "flush room p = flush_loop (flush_fuel p) room p"

text \<open>A send the kernel refuses, and a socket that will not open (after its hold).\<close>

definition sendFailed :: "Prober \<Rightarrow> uint64 \<Rightarrow> gotime \<Rightarrow> Prober option" where
  "sendFailed p seq now = flush None (markLost p seq now)"

definition sweep :: "Prober \<Rightarrow> gotime \<Rightarrow> Prober option" where
  "sweep p now = flush None (expire p now)"

definition reportUnreachable :: "Prober \<Rightarrow> gotime \<Rightarrow> gotime \<Rightarrow> Prober option" where
  "reportUnreachable p held now =
     (case sweep p held of
        None \<Rightarrow> None
      | Some p \<Rightarrow> let p = p\<lparr>pv_seq := pv_seq p + 1\<rparr> in flush None (markLost p (pv_seq p) now))"

section \<open>The invariant\<close>

text \<open>
  \<open>b\<close> is the seed. Between \<open>deliver\<close> and \<open>seq\<close> every probe is either in flight or resolved, never
  both, and nothing else is; everything below \<open>deliver\<close> has been handed on, in order and
  once. The sequence has not wrapped.
\<close>

definition prober_inv :: "nat \<Rightarrow> Prober \<Rightarrow> bool" where
  "prober_inv b p \<longleftrightarrow>
     b < unat (pv_deliver p) \<and> unat (pv_deliver p) \<le> unat (pv_seq p) + 1 \<and> unat (pv_seq p) + 1 < 2 ^ 64 \<and>
     (\<forall>k. (pv_pending p k \<noteq> None \<or> pv_resolved p k \<noteq> None) \<longleftrightarrow>
          unat (pv_deliver p) \<le> unat k \<and> unat k \<le> unat (pv_seq p)) \<and>
     (\<forall>k. pv_pending p k = None \<or> pv_resolved p k = None) \<and>
     (\<forall>k r. pv_resolved p k = Some r \<longrightarrow> r_Seq r = k \<and> r_PathID r = p_ID (pv_path p)) \<and>
     map (\<lambda>r. unat (r_Seq r)) (pv_results p) = [Suc b..<unat (pv_deliver p)] \<and>
     (\<forall>r \<in> set (pv_results p). r_PathID r = p_ID (pv_path p))"

lemma prober_inv_range:
  "prober_inv b p \<Longrightarrow> (pv_pending p k \<noteq> None \<or> pv_resolved p k \<noteq> None) \<longleftrightarrow>
     unat (pv_deliver p) \<le> unat k \<and> unat k \<le> unat (pv_seq p)"
  by (simp only: prober_inv_def)

lemma unat_plus_1: "unat (w :: uint64) + 1 < 2 ^ 64 \<Longrightarrow> unat (w + 1) = unat w + 1"
  by (simp add: unat_word_ariths)

lemma seed_small: "unat (seedSeq rnd) < 2 ^ 62"
proof -
  have "seedSeq rnd = take_bit 62 rnd" by (simp add: seedSeq_def take_bit_eq_mask mask_eq_decr_exp)
  then have "unat (seedSeq rnd) = take_bit 62 (unat rnd)" by (simp only: unsigned_take_bit_eq)
  then show ?thesis using take_bit_nat_less_exp [of 62 "unat rnd"] by simp
qed

lemma prober_inv_New: "prober_inv (unat (seedSeq rnd)) (NewProber pc probeCfg rnd)"
proof -
  have "unat (seedSeq rnd + 1) = unat (seedSeq rnd) + 1" "unat (seedSeq rnd) + 1 < 2 ^ 64"
    using seed_small [of rnd] by (simp_all add: unat_plus_1)
  then show ?thesis by (simp add: prober_inv_def NewProber_def Let_def)
qed

section \<open>Handing on\<close>

lemma unat_eq_iff: "unat a = unat b \<longleftrightarrow> (a :: uint64) = b"
  by (simp add: word_unat_eq_iff)

lemma deliver_one:
  assumes inv: "prober_inv b p" and r: "pv_resolved p (pv_deliver p) = Some r"
  shows "prober_inv b (p\<lparr>pv_resolved := (pv_resolved p)(pv_deliver p := None), pv_deliver := pv_deliver p + 1,
           pv_results := pv_results p @ [r]\<rparr>)" (is "prober_inv b ?p")
    and "unat (pv_deliver p + 1) = unat (pv_deliver p) + 1"
    and "unat (pv_deliver p) \<le> unat (pv_seq p)"
proof -
  show le: "unat (pv_deliver p) \<le> unat (pv_seq p)" using inv r by (auto simp: prober_inv_def)
  then show d: "unat (pv_deliver p + 1) = unat (pv_deliver p) + 1"
    using inv by (intro unat_plus_1) (simp add: prober_inv_def)
  have np: "pv_pending p (pv_deliver p) = None" using inv r by (auto simp: prober_inv_def dest: spec [of _ "pv_deliver p"])
  have rs: "r_Seq r = pv_deliver p" "r_PathID r = p_ID (pv_path p)" using inv r by (auto simp: prober_inv_def)
  have iff: "(pv_pending p k \<noteq> None \<or> ((pv_resolved p)(pv_deliver p := None)) k \<noteq> None) \<longleftrightarrow>
      unat (pv_deliver p + 1) \<le> unat k \<and> unat k \<le> unat (pv_seq p)" for k
  proof (cases "k = pv_deliver p")
    case True
    then show ?thesis using np d by simp
  next
    case False
    then have "unat k \<noteq> unat (pv_deliver p)" by (simp add: unat_eq_iff)
    then show ?thesis using inv False d by (auto simp: prober_inv_def)
  qed
  show "prober_inv b ?p"
    using inv iff rs d le by (auto simp: prober_inv_def)
qed

lemma flush_loop_spec:
  assumes "prober_inv b p" and "unat (pv_seq p) + 2 - unat (pv_deliver p) \<le> n"
  shows "\<exists>p' more. flush_loop n None p = Some p' \<and> prober_inv b p' \<and> pv_seq p' = pv_seq p \<and>
    pv_pending p' = pv_pending p \<and> pv_path p' = pv_path p \<and> pv_probeCfg p' = pv_probeCfg p \<and>
    pv_results p' = pv_results p @ more \<and>
    (unat (pv_deliver p') = unat (pv_seq p') + 1 \<or> pv_pending p' (pv_deliver p') \<noteq> None)"
  using assms
proof (induction n arbitrary: p)
  case 0
  then show ?case by (simp add: prober_inv_def)
next
  case (Suc n)
  show ?case
  proof (cases "pv_resolved p (pv_deliver p)")
    case None
    have "unat (pv_deliver p) = unat (pv_seq p) + 1 \<or> pv_pending p (pv_deliver p) \<noteq> None"
      using Suc.prems(1) None by (auto simp: prober_inv_def)
    moreover from this have "\<not> (pv_pending p (pv_deliver p) = None \<and> pv_deliver p < pv_seq p)"
      by (auto simp: word_less_nat_alt)
    ultimately show ?thesis using None Suc.prems(1) by auto
  next
    case (Some r)
    let ?p = "p\<lparr>pv_resolved := (pv_resolved p)(pv_deliver p := None), pv_deliver := pv_deliver p + 1,
           pv_results := pv_results p @ [r]\<rparr>"
    have "unat (pv_seq ?p) + 2 - unat (pv_deliver ?p) \<le> n"
      using deliver_one(2,3) [OF Suc.prems(1) Some] Suc.prems(2) by simp
    from Suc.IH [OF deliver_one(1) [OF Suc.prems(1) Some] this] show ?thesis using Some by auto
  qed
qed

text \<open>\<open>flush\<close> always returns, and stops only before a probe still in flight or with nothing left.\<close>

lemma flush_spec:
  assumes "prober_inv b p"
  shows "\<exists>p' more. flush None p = Some p' \<and> prober_inv b p' \<and> pv_seq p' = pv_seq p \<and>
    pv_pending p' = pv_pending p \<and> pv_path p' = pv_path p \<and> pv_probeCfg p' = pv_probeCfg p \<and>
    pv_results p' = pv_results p @ more \<and>
    (unat (pv_deliver p') = unat (pv_seq p') + 1 \<or> pv_pending p' (pv_deliver p') \<noteq> None)"
  unfolding flush_def using flush_loop_spec [OF assms, of "flush_fuel p"] by (simp add: flush_fuel_def)

section \<open>Every operation keeps the invariant\<close>

lemma prober_inv_send:
  assumes "prober_inv b p" and "unat (pv_seq p) + 2 < 2 ^ 64"
  shows "prober_inv b (fst (send psk dec nonce now tx p))"
proof -
  have s: "unat (pv_seq p + 1) = unat (pv_seq p) + 1" using assms(2) by (intro unat_plus_1) simp
  have r: "pv_resolved p (pv_seq p + 1) = None"
    using prober_inv_range [OF assms(1), of "pv_seq p + 1"] s by auto
  have "(((pv_pending p)(pv_seq p + 1 \<mapsto> \<lparr>pp_sent = now, pp_nonce = nonce\<rparr>)) k \<noteq> None \<or> pv_resolved p k \<noteq> None) \<longleftrightarrow>
      unat (pv_deliver p) \<le> unat k \<and> unat k \<le> unat (pv_seq p + 1)" for k
  proof (cases "k = pv_seq p + 1")
    case True
    then show ?thesis using assms(1) s by (simp add: prober_inv_def)
  next
    case False
    then have "unat k \<noteq> unat (pv_seq p) + 1" using s unat_eq_iff [of k "pv_seq p + 1"] by simp
    then show ?thesis using assms(1) False s by (auto simp: prober_inv_def)
  qed
  then show ?thesis using assms r s by (auto simp: prober_inv_def send_def Let_def)
qed

lemma prober_inv_book:
  assumes inv: "prober_inv b p" and k: "unat (pv_deliver p) \<le> unat k" "unat k \<le> unat (pv_seq p)"
    and r: "r_Seq r = k" "r_PathID r = p_ID (pv_path p)"
  shows "prober_inv b (p\<lparr>pv_pending := (pv_pending p)(k := None), pv_resolved := (pv_resolved p)(k \<mapsto> r)\<rparr>)"
  using assms by (auto simp: prober_inv_def)

lemma prober_inv_resolve: "prober_inv b p \<Longrightarrow> prober_inv b (fst (resolve p msg now))"
proof -
  assume inv: "prober_inv b p"
  show ?thesis
  proof (cases "pv_pending p (m_Seq msg)")
    case None
    then show ?thesis using inv by (simp add: resolve_def)
  next
    case (Some en)
    then have "unat (pv_deliver p) \<le> unat (m_Seq msg)" "unat (m_Seq msg) \<le> unat (pv_seq p)"
      using inv by (auto simp: prober_inv_def)
    then show ?thesis using inv Some prober_inv_book [OF inv, of "m_Seq msg"] by (simp add: resolve_def)
  qed
qed

lemma prober_inv_expire: "prober_inv b p \<Longrightarrow> prober_inv b (expire p now)"
  unfolding prober_inv_def expire_def
  by (auto simp: expired_def split: option.splits if_splits)

lemma prober_inv_markLost:
  "prober_inv b p \<Longrightarrow> unat (pv_deliver p) \<le> unat k \<Longrightarrow> unat k \<le> unat (pv_seq p) \<Longrightarrow> prober_inv b (markLost p k now)"
  unfolding markLost_def by (rule prober_inv_book) simp_all

section \<open>The prober as a state machine\<close>

text \<open>
  One step of the goroutines of a generation while its context lives: a probe sent, a send
  refused, a datagram read, a sweep, an unreachable socket reported, the cadence switched.
\<close>

inductive prober_step :: "bytes \<Rightarrow> Prober \<Rightarrow> Prober \<Rightarrow> bool" for psk where
  Sent: "prober_step psk p (fst (send psk dec nonce now tx p))"
| Refused: "send psk dec nonce now tx p = (p1, seq, pkt) \<Longrightarrow> sendFailed p1 seq now' = Some p2 \<Longrightarrow> prober_step psk p p2"
| Read: "prober_step psk p (read_packet psk p buf now)"
| Swept: "sweep p now = Some p' \<Longrightarrow> prober_step psk p p'"
| Unreachable: "reportUnreachable p held now = Some p' \<Longrightarrow> prober_step psk p p'"
| Cadence: "prober_step psk p (Nudge (SetActive p a))"

inductive prober_run :: "bytes \<Rightarrow> nat \<Rightarrow> Prober \<Rightarrow> Prober \<Rightarrow> bool" for psk where
  Start: "prober_run psk 0 p p"
| Step: "prober_run psk n p q \<Longrightarrow> prober_step psk q r \<Longrightarrow> prober_run psk (Suc n) p r"

lemma flushD:
  "prober_inv b p \<Longrightarrow> flush None p = Some p' \<Longrightarrow> prober_inv b p' \<and> pv_seq p' = pv_seq p \<and> pv_pending p' = pv_pending p"
  using flush_spec by fastforce

lemma frame_seq [simp]:
  "pv_seq (expire p now) = pv_seq p" "pv_seq (markLost p k now) = pv_seq p"
  "pv_seq (fst (resolve p msg now)) = pv_seq p" "pv_seq (read_packet psk p buf now) = pv_seq p"
  "pv_seq (fst (send psk dec nonce now tx p)) = pv_seq p + 1"
  by (auto simp: expire_def markLost_def resolve_def read_packet_def send_def Let_def split: option.split sum.split)

lemma prober_inv_nudge: "prober_inv b p \<Longrightarrow> prober_inv b (Nudge (SetActive p a))"
  by (simp add: prober_inv_def Nudge_def SetActive_def)

lemma prober_step_keeps:
  assumes "prober_step psk p p'" and inv: "prober_inv b p" and room: "unat (pv_seq p) + 2 < 2 ^ 64"
  shows "prober_inv b p' \<and> unat (pv_seq p') \<le> unat (pv_seq p) + 1"
  using assms(1)
proof (cases rule: prober_step.cases)
  case (Sent dec nonce now tx)
  then show ?thesis using prober_inv_send [OF inv room] room by (simp add: unat_plus_1)
next
  case (Refused dec nonce now tx p1 seq pkt now')
  have e: "p1 = fst (send psk dec nonce now tx p)" "seq = pv_seq p + 1"
    using Refused(1) by (auto simp: send_def Let_def)
  have p1: "prober_inv b p1" "pv_seq p1 = pv_seq p + 1"
    unfolding e(1) using prober_inv_send [OF inv room] by simp_all
  have "pv_pending p1 seq \<noteq> None" unfolding e by (simp add: send_def Let_def)
  then have "unat (pv_deliver p1) \<le> unat seq" "unat seq \<le> unat (pv_seq p1)"
    using prober_inv_range [OF p1(1), of seq] by auto
  then have "prober_inv b (markLost p1 seq now')" by (rule prober_inv_markLost [OF p1(1)])
  from flushD [OF this Refused(2) [unfolded sendFailed_def]] show ?thesis using p1(2) room by (simp add: unat_plus_1)
next
  case (Read buf now)
  then show ?thesis using inv prober_inv_resolve by (auto simp: read_packet_def split: sum.split)
next
  case (Swept now)
  then show ?thesis using flushD [OF prober_inv_expire [OF inv]] by (auto simp: sweep_def)
next
  case (Unreachable held now)
  obtain q where q: "sweep p held = Some q"
    "flush None (markLost (q\<lparr>pv_seq := pv_seq q + 1\<rparr>) (pv_seq q + 1) now) = Some p'"
    using Unreachable by (auto simp: reportUnreachable_def Let_def split: option.splits)
  have qi: "prober_inv b q" "pv_seq q = pv_seq p"
    using flushD [OF prober_inv_expire [OF inv]] q(1) by (auto simp: sweep_def)
  let ?s = "fst (send psk (0, 0) 0 0 0 q)"
  have s: "prober_inv b ?s" "pv_seq ?s = pv_seq q + 1" using prober_inv_send [OF qi(1)] room qi(2) by simp_all
  have "markLost (q\<lparr>pv_seq := pv_seq q + 1\<rparr>) (pv_seq q + 1) now = markLost ?s (pv_seq q + 1) now"
    by (simp add: markLost_def send_def Let_def)
  moreover have "unat (pv_deliver ?s) \<le> unat (pv_seq q + 1)" "unat (pv_seq q + 1) \<le> unat (pv_seq ?s)"
    using prober_inv_range [OF s(1), of "pv_seq q + 1"] by (auto simp: send_def Let_def)
  ultimately have "prober_inv b (markLost (q\<lparr>pv_seq := pv_seq q + 1\<rparr>) (pv_seq q + 1) now)"
    using prober_inv_markLost [OF s(1)] by simp
  from flushD [OF this q(2)] show ?thesis using qi(2) room by (simp add: unat_plus_1)
next
  case (Cadence a)
  then show ?thesis using prober_inv_nudge [OF inv] by (simp add: Nudge_def SetActive_def)
qed

lemma prober_run_keeps:
  assumes "prober_run psk n p q" and "prober_inv b p" and "unat (pv_seq p) + n + 1 < 2 ^ 64"
  shows "prober_inv b q \<and> unat (pv_seq q) \<le> unat (pv_seq p) + n"
  using assms
proof (induction rule: prober_run.induct)
  case (Step n p q r)
  then have "prober_inv b q" "unat (pv_seq q) \<le> unat (pv_seq p) + n" by auto
  then show ?case using prober_step_keeps [OF Step.hyps(2), of b] Step.prems(2) by auto
qed simp

lemma reachable_inv:
  assumes "prober_run psk n (NewProber pc cfg rnd) p" and "n < 2 ^ 63"
  shows "prober_inv (unat (seedSeq rnd)) p"
proof -
  have "unat (pv_seq (NewProber pc cfg rnd)) + n + 1 < 2 ^ 64"
    using seed_small [of rnd] assms(2) by (simp add: NewProber_def Let_def)
  from prober_run_keeps [OF assms(1) prober_inv_New this] show ?thesis by simp
qed

section \<open>Properties\<close>

text \<open>Results leave a prober in the order the probes were sent, none twice and none missing:
  after any interleaving of sends, refused sends, datagrams, sweeps and unreachable
  sockets, the results handed on carry the consecutive sequence numbers from the seed up,
  all for this path. That is what makes counting consecutive losses meaningful.\<close>

theorem results_in_order:
  assumes "prober_run psk n (NewProber pc cfg rnd) p" and "n < 2 ^ 63"
  shows "map (\<lambda>r. unat (r_Seq r)) (pv_results p) = [unat (seedSeq rnd) + 1..<unat (pv_deliver p)] \<and>
    (\<forall>r \<in> set (pv_results p). r_PathID r = p_ID (pv_path p)) \<and>
    unat (pv_deliver p) \<le> unat (pv_seq p) + 1"
  using reachable_inv [OF assms] by (simp add: prober_inv_def)

theorem results_in_order_witness:
  "\<exists>p. prober_run [1] 1 (NewProber (hd default_paths) default_probe 7) p \<and> pv_seq p = 8 \<and>
     unat (pv_deliver p) \<le> 9"
proof -
  let ?p = "fst (send [1] (1, 5) 3 100 100 (NewProber (hd default_paths) default_probe 7))"
  have run: "prober_run [1] 1 (NewProber (hd default_paths) default_probe 7) ?p"
    using prober_run.Step [OF prober_run.Start prober_step.Sent] by simp
  have seq: "pv_seq ?p = 8" by (simp add: NewProber_def seedSeq_def Let_def)
  have "unat (pv_deliver ?p) \<le> unat (pv_seq ?p) + 1"
    using results_in_order [OF run] by simp
  then show ?thesis using run seq by (intro exI [of _ ?p]) simp
qed

text \<open>C37. No result is withheld: on a reachable prober whose probes in flight are all past the
  timeout, one sweep terminates, hands on every result up to the last probe sent and leaves
  nothing in flight.\<close>

theorem sweep_delivers_all:
  assumes "prober_run psk n (NewProber pc cfg rnd) p" and "n < 2 ^ 63"
    and "\<forall>k. pv_pending p k \<noteq> None \<longrightarrow> expired p now k"
  shows "\<exists>p'. sweep p now = Some p' \<and> unat (pv_deliver p') = unat (pv_seq p) + 1 \<and>
    (\<forall>k. pv_pending p' k = None) \<and>
    map (\<lambda>r. unat (r_Seq r)) (pv_results p') = [unat (seedSeq rnd) + 1..<unat (pv_seq p) + 1]"
proof -
  have none: "pv_pending (expire p now) k = None" for k
    using assms(3) by (auto simp: expire_def)
  obtain p' where p': "flush None (expire p now) = Some p'" "prober_inv (unat (seedSeq rnd)) p'"
    "pv_seq p' = pv_seq (expire p now)" "pv_pending p' = pv_pending (expire p now)"
    "unat (pv_deliver p') = unat (pv_seq p') + 1 \<or> pv_pending p' (pv_deliver p') \<noteq> None"
    using flush_spec [OF prober_inv_expire [OF reachable_inv [OF assms(1,2)]]] by metis
  then have "unat (pv_deliver p') = unat (pv_seq p) + 1" using none by simp
  with p' none show ?thesis by (auto simp: sweep_def prober_inv_def)
qed

theorem sweep_delivers_all_witness:
  "\<exists>p p'. prober_run [1] 1 (NewProber (hd default_paths) default_probe 7) p \<and> pv_pending p 8 \<noteq> None \<and>
     expired p 1000000000 8 \<and> sweep p 1000000000 = Some p' \<and>
     map (\<lambda>r. unat (r_Seq r)) (pv_results p') = [8] \<and> unat (pv_deliver p') = 9"
proof -
  let ?p = "fst (send [1] (1, 5) 3 100 100 (NewProber (hd default_paths) default_probe 7))"
  have run: "prober_run [1] 1 (NewProber (hd default_paths) default_probe 7) ?p"
    using prober_run.Step [OF prober_run.Start prober_step.Sent] by simp
  have seq: "pv_seq ?p = 8" and sent: "pv_pending ?p = (\<lambda>_. None)(8 \<mapsto> \<lparr>pp_sent = 100, pp_nonce = 3\<rparr>)"
    by (simp_all add: NewProber_def seedSeq_def send_def Let_def)
  have late: "expired ?p 1000000000 8"
    unfolding expired_def sent by (simp add: NewProber_def send_def default_probe_def Let_def)
      (simp add: time_Add_def milliseconds_def wrap64_def)
  then have "\<forall>k. pv_pending ?p k \<noteq> None \<longrightarrow> expired ?p 1000000000 k" by (simp add: sent)
  from sweep_delivers_all [OF run _ this] obtain p' where "sweep ?p 1000000000 = Some p'"
    "unat (pv_deliver p') = 9" "map (\<lambda>r. unat (r_Seq r)) (pv_results p') = [8]"
    unfolding seq by (auto simp: seedSeq_def)
  then show ?thesis using run late by (intro exI [of _ ?p] exI [of _ p']) (simp add: sent)
qed

text \<open>A reply is believed once and only for the probe it answers: \<open>resolve\<close> books a round trip
  exactly when the message is a reply for this path that names a probe in flight and echoes
  its nonce, the round trip is measured from that probe's own send time, and the same
  reply is refused ever after.\<close>

theorem resolve_once:
  assumes "resolve p msg now = (p', True)"
  shows "m_Type msg = TypeReply \<and> m_PathID msg = word_of_int (p_ID (pv_path p)) \<and>
    (\<exists>en. pv_pending p (m_Seq msg) = Some en \<and> pp_nonce en = m_Nonce msg \<and>
       pv_resolved p' (m_Seq msg) = Some \<lparr>r_PathID = p_ID (pv_path p), r_Seq = m_Seq msg,
         r_RTT = time_Sub now (pp_sent en), r_Lost = False, r_At = now\<rparr>) \<and>
    resolve p' msg later = (p', False)"
proof -
  have c: "\<not> (m_Type msg \<noteq> TypeReply \<or> m_PathID msg \<noteq> word_of_int (p_ID (pv_path p)))"
    using assms unfolding resolve_def by (metis prod.inject)
  obtain en where en: "pv_pending p (m_Seq msg) = Some en" "pp_nonce en = m_Nonce msg"
    using assms c unfolding resolve_def by (cases "pv_pending p (m_Seq msg)") (auto split: if_splits)
  have "p' = p\<lparr>pv_pending := (pv_pending p)(m_Seq msg := None),
       pv_resolved := (pv_resolved p)(m_Seq msg \<mapsto>
         \<lparr>r_PathID = p_ID (pv_path p), r_Seq = m_Seq msg, r_RTT = time_Sub now (pp_sent en),
          r_Lost = False, r_At = now\<rparr>)\<rparr>"
    using assms c en by (simp add: resolve_def)
  then show ?thesis using c en by (simp add: resolve_def)
qed

theorem resolve_once_witness:
  "resolve (fst (resolve (fst (send [1] (1, 5) 3 100 100 (NewProber (hd default_paths) default_probe 7)))
     \<lparr>m_Type = TypeReply, m_PathID = 1, m_Seq = 8, m_TxNanos = 0, m_EchoNanos = 0, m_ActivePath = 0,
      m_DecisionSeq = 0, m_Nonce = 3\<rparr> 150))
     \<lparr>m_Type = TypeReply, m_PathID = 1, m_Seq = 8, m_TxNanos = 0, m_EchoNanos = 0, m_ActivePath = 0,
      m_DecisionSeq = 0, m_Nonce = 3\<rparr> 160 =
   (fst (resolve (fst (send [1] (1, 5) 3 100 100 (NewProber (hd default_paths) default_probe 7)))
     \<lparr>m_Type = TypeReply, m_PathID = 1, m_Seq = 8, m_TxNanos = 0, m_EchoNanos = 0, m_ActivePath = 0,
      m_DecisionSeq = 0, m_Nonce = 3\<rparr> 150), False)"
proof -
  let ?p = "fst (send [1] (1, 5) 3 100 100 (NewProber (hd default_paths) default_probe 7))"
  let ?m = "\<lparr>m_Type = TypeReply, m_PathID = 1, m_Seq = 8, m_TxNanos = 0, m_EchoNanos = 0, m_ActivePath = 0,
      m_DecisionSeq = 0, m_Nonce = 3\<rparr>"
  have "snd (resolve ?p ?m 150)"
    by (simp add: resolve_def send_def NewProber_def seedSeq_def Let_def default_paths_def)
  then have "resolve ?p ?m 150 = (fst (resolve ?p ?m 150), True)" by (simp add: prod_eq_iff)
  from resolve_once [OF this, of 160] show ?thesis by blast
qed

end
