(* ===== verification/Messages.thy ===== *)
theory Messages
  imports Config Wire
begin

text \<open>
  The payloads of the control channel (\<open>proto/proto.go\<close>) and what the frontend puts into the
  configurations it pushes down it (\<open>engine/control.go\<close>, \<open>engine/engine.go\<close>).
\<close>

record Hello =
  he_Version :: string
  he_Hostname :: string
  he_Role :: string
  he_OverlayIP :: string
  he_Table :: int

record LinkerConfig =
  lc_EgressCIDRs :: "string list"

record LinkerRoute =
  lr_OverlayIP :: string
  lr_LanIP :: string

record UsageDelta =
  ud_PathID :: int
  ud_Bytes :: int
  ud_Packets :: int
  ud_AtUnix :: int
  ud_Sequence :: uint64

text \<open>\<open>Usage\<close> and \<open>UsageAck\<close> hold one field each: the deltas, and the highest recorded sequence
  per path.\<close>

type_synonym UsageMsg = "UsageDelta list"
type_synonym UsageAck = "int \<rightharpoonup> uint64"

record LinkInfo =
  li_PathID :: int
  li_HandshakeAgeSec :: float64
  li_Exists :: bool

record OverlayInfo =
  oi_FrontendIP :: string
  oi_BackendIP :: string
  oi_Device :: string
  oi_Subnet :: string

record PathInfo =
  pi_ID :: int
  pi_Name :: string
  pi_Iface :: string
  pi_Table :: int
  pi_Mark :: int
  pi_Metered :: bool
  pi_ShapeMbit :: float64

record BackendConfig =
  bc_Overlay :: OverlayInfo
  bc_Paths :: "PathInfo list"
  bc_Mode :: string
  bc_SampleMs :: int
  bc_Linkers :: "LinkerRoute list"
  bc_EgressCIDRs :: "string list"

text \<open>The deltas of one path in a list of deltas.\<close>

definition of_path :: "int \<Rightarrow> UsageDelta list \<Rightarrow> UsageDelta list" where
  "of_path i ds = filter (\<lambda>d. ud_PathID d = i) ds"

lemma of_path_simps [simp]:
  "of_path i [] = []"
  "of_path i (d # ds) = (if ud_PathID d = i then d # of_path i ds else of_path i ds)"
  "of_path i (xs @ ys) = of_path i xs @ of_path i ys"
  by (simp_all add: of_path_def)

section \<open>What is pushed\<close>

definition path_info :: "PathConfig \<Rightarrow> PathInfo" where
  "path_info p = \<lparr>pi_ID = p_ID p, pi_Name = p_Name p, pi_Iface = p_Iface p, pi_Table = p_Table p,
     pi_Mark = p_Mark p, pi_Metered = p_Metered p, pi_ShapeMbit = sh_ToFrontendMbit (p_Shape p)\<rparr>"

definition backendConfig :: "Config \<Rightarrow> BackendConfig" where
  "backendConfig cfg =
     \<lparr>bc_Overlay = \<lparr>oi_FrontendIP = ov_FrontendIP (c_Overlay cfg), oi_BackendIP = ov_BackendIP (c_Overlay cfg),
        oi_Device = ov_Device (c_Overlay cfg), oi_Subnet = ov_Subnet (c_Overlay cfg)\<rparr>,
      bc_Paths = map path_info (c_Paths cfg),
      bc_Mode = c_Mode cfg,
      bc_SampleMs = 10000,
      bc_Linkers = map (\<lambda>l. \<lparr>lr_OverlayIP = lk_OverlayIP l, lr_LanIP = lk_LanIP l\<rparr>)
        (filter lk_Enabled (c_Linkers cfg)),
      bc_EgressCIDRs =
        (if fe_BackendEgress (c_Frontend cfg)
         then map es_CIDR (filter (\<lambda>s. es_Enabled s \<and> es_CIDR s \<noteq> '''' \<and>
                HostOr s (ov_BackendIP (c_Overlay cfg)) = ov_BackendIP (c_Overlay cfg)) (c_Egress cfg))
         else [])\<rparr>"

definition LinkerConfigFor :: "Config \<Rightarrow> string \<Rightarrow> LinkerConfig" where
  "LinkerConfigFor cfg overlayIP =
     \<lparr>lc_EgressCIDRs =
        (if \<not> fe_BackendEgress (c_Frontend cfg) then []
         else map es_CIDR (filter (\<lambda>s. es_Enabled s \<and> es_CIDR s \<noteq> '''' \<and> es_Host s = overlayIP) (c_Egress cfg)))\<rparr>"

definition KnownBackend :: "Config \<Rightarrow> string \<Rightarrow> bool" where
  "KnownBackend cfg host \<longleftrightarrow> ov_BackendIP (c_Overlay cfg) \<noteq> '''' \<and> host = ov_BackendIP (c_Overlay cfg)"

definition KnownLinker :: "Config \<Rightarrow> string \<Rightarrow> bool" where
  "KnownLinker cfg overlayIP \<longleftrightarrow> list_ex (\<lambda>l. lk_Enabled l \<and> lk_OverlayIP l = overlayIP) (c_Linkers cfg)"

definition HasPath :: "Config \<Rightarrow> int \<Rightarrow> bool" where
  "HasPath cfg i \<longleftrightarrow> PathByID cfg i \<noteq> None"

text \<open>The networks of a row go to one agent: the backend or the linker it names.\<close>

lemma egress_rows_split:
  assumes "fe_BackendEgress (c_Frontend cfg)" and "s \<in> set (c_Egress cfg)" and "es_Enabled s" and "es_CIDR s \<noteq> ''''"
  shows "es_CIDR s \<in> set (if HostOr s (ov_BackendIP (c_Overlay cfg)) = ov_BackendIP (c_Overlay cfg)
            then bc_EgressCIDRs (backendConfig cfg)
            else lc_EgressCIDRs (LinkerConfigFor cfg (es_Host s)))"
  using assms by (auto simp: backendConfig_def LinkerConfigFor_def HostOr_def)

end
