(* ===== verification/Meter.thy ===== *)
theory Meter
  imports Messages "HOL-Library.Multiset"
begin

text \<open>
  The backend's usage meter (\<open>agent/meter.go\<close>): sampling of interface counters into numbered
  deltas, the buffer that keeps them until the frontend has recorded them, the fair batches
  sent from it, and the two files it is restored from.
\<close>

section \<open>Counters\<close>

record Counters =
  ct_RxBytes :: int
  ct_TxBytes :: int
  ct_RxPackets :: int
  ct_TxPackets :: int

definition Counters_Bytes :: "Counters \<Rightarrow> int" where
  "Counters_Bytes c = wrap64 (ct_RxBytes c + ct_TxBytes c)"

definition Counters_Packets :: "Counters \<Rightarrow> int" where
  "Counters_Packets c = wrap64 (ct_RxPackets c + ct_TxPackets c)"

section \<open>State\<close>

definition maxBuffered :: nat where "maxBuffered = 50000"

record Meter =
  m_last :: "string \<rightharpoonup> Counters"
  m_nextSeq :: "int \<Rightarrow> uint64"
  m_pending :: "UsageDelta list"

text \<open>
  The buffer file as its decoder sees it: one entry per line, \<open>None\<close> for a line that is not a
  delta, or the array older builds wrote, with what \<open>json.Unmarshal\<close> makes of it and whether
  it reports an error. The state file holds the baselines and the counters.
\<close>

datatype buffer_file = JSONLines "UsageDelta option list" | LegacyArray "UsageDelta list" bool

record meter_disk =
  dk_buffer :: "buffer_file option"
  dk_state :: "((string \<rightharpoonup> Counters) \<times> (int \<Rightarrow> uint64)) option"

section \<open>Sampling\<close>

text \<open>\<open>rd\<close> answers \<open>ReadCounters\<close>; \<open>None\<close> is an absent interface. One turn of the loop and the loop.\<close>

definition sample_path ::
    "(string \<Rightarrow> Counters option) \<Rightarrow> int \<Rightarrow> PathInfo \<Rightarrow> Meter \<Rightarrow> UsageDelta option \<times> Meter" where
  "sample_path rd now p m =
     (if \<not> pi_Metered p then (None, m)
      else case rd (pi_Iface p) of
        None \<Rightarrow> (None, m)
      | Some cur \<Rightarrow>
          (let seen = m_last m (pi_Iface p);
               m = m\<lparr>m_last := (m_last m)(pi_Iface p \<mapsto> cur)\<rparr>
           in case seen of
                None \<Rightarrow> (None, m)
              | Some prev \<Rightarrow>
                  (let dBytes = wrap64 (Counters_Bytes cur - Counters_Bytes prev);
                       dPackets = wrap64 (Counters_Packets cur - Counters_Packets prev)
                   in if dBytes < 0 \<or> dPackets < 0 then (None, m)
                      else if dBytes = 0 \<and> dPackets = 0 then (None, m)
                      else let sq = m_nextSeq m (pi_ID p) + 1
                           in (Some \<lparr>ud_PathID = pi_ID p, ud_Bytes = dBytes, ud_Packets = dPackets,
                                 ud_AtUnix = now, ud_Sequence = sq\<rparr>,
                               m\<lparr>m_nextSeq := (m_nextSeq m)(pi_ID p := sq)\<rparr>))))"

fun sample_paths ::
    "(string \<Rightarrow> Counters option) \<Rightarrow> int \<Rightarrow> PathInfo list \<Rightarrow> Meter \<Rightarrow> UsageDelta list \<times> Meter" where
  "sample_paths rd now [] m = ([], m)"
| "sample_paths rd now (p # ps) m =
     (let (od, m) = sample_path rd now p m; (fresh, m) = sample_paths rd now ps m
      in (case od of None \<Rightarrow> fresh | Some d \<Rightarrow> d # fresh, m))"

text \<open>The append with its cap, which drops the oldest.\<close>

definition buffer_add :: "UsageDelta list \<Rightarrow> Meter \<Rightarrow> Meter" where
  "buffer_add fresh m =
     (if fresh \<noteq> [] then m\<lparr>m_pending := last_n maxBuffered (m_pending m @ fresh)\<rparr> else m)"

section \<open>Files\<close>

definition persist :: "bool \<Rightarrow> Meter \<Rightarrow> meter_disk \<Rightarrow> meter_disk" where
  "persist ok m dk = (if ok then dk\<lparr>dk_buffer := Some (JSONLines (map Some (m_pending m)))\<rparr> else dk)"

definition meter_save :: "bool \<Rightarrow> Meter \<Rightarrow> meter_disk \<Rightarrow> meter_disk" where
  "meter_save ok m dk = (if ok then dk\<lparr>dk_state := Some (m_last m, m_nextSeq m)\<rparr> else dk)"

fun decode_lines :: "UsageDelta option list \<Rightarrow> UsageDelta list \<times> bool" where
  "decode_lines [] = ([], True)"
| "decode_lines (None # ls) = ([], False)"
| "decode_lines (Some d # ls) = (let (ds, ok) = decode_lines ls in (d # ds, ok))"

fun decodeBuffer :: "buffer_file \<Rightarrow> UsageDelta list \<times> bool" where
  "decodeBuffer (JSONLines ls) = decode_lines ls"
| "decodeBuffer (LegacyArray ds ok) = (ds, ok)"

definition meter_load :: "meter_disk \<Rightarrow> Meter \<Rightarrow> Meter" where
  "meter_load dk m =
     (let m = (case dk_buffer dk of None \<Rightarrow> m
               | Some f \<Rightarrow> let ds = fst (decodeBuffer f) in if ds \<noteq> [] then m\<lparr>m_pending := ds\<rparr> else m)
      in case dk_state dk of None \<Rightarrow> m | Some (l, n) \<Rightarrow> m\<lparr>m_last := l, m_nextSeq := n\<rparr>)"

definition NewMeter :: "meter_disk \<Rightarrow> Meter" where
  "NewMeter dk = meter_load dk \<lparr>m_last = Map.empty, m_nextSeq = (\<lambda>_. 0), m_pending = []\<rparr>"

text \<open>One tick of \<open>sample\<close>, files included; \<open>pok\<close> and \<open>sok\<close> are the fates of the two writes. No
  configuration yet means no sample.\<close>

definition sample ::
    "(string \<Rightarrow> Counters option) \<Rightarrow> gotime \<Rightarrow> BackendConfig option \<Rightarrow> bool \<Rightarrow> bool \<Rightarrow> Meter \<times> meter_disk
     \<Rightarrow> Meter \<times> meter_disk" where
  "sample rd now ocfg pok sok md =
     (case ocfg of None \<Rightarrow> md
      | Some cfg \<Rightarrow>
          let (m, dk) = md;
              (fresh, m) = sample_paths rd (to_unix now) (bc_Paths cfg) m;
              m = buffer_add fresh m;
              dk = (if fresh \<noteq> [] then persist pok m dk else dk)
          in (m, meter_save sok m dk))"

section \<open>Delivery\<close>

definition Pending :: "Meter \<Rightarrow> UsageDelta list" where
  "Pending m = m_pending m"

text \<open>The two passes of \<open>PendingBatch\<close>; \<open>room\<close> is what is left of the batch.\<close>

fun batch_share :: "nat \<Rightarrow> nat \<Rightarrow> (int \<Rightarrow> nat) \<Rightarrow> UsageDelta list \<Rightarrow> UsageDelta list \<times> (int \<Rightarrow> nat)" where
  "batch_share share room taken [] = ([], taken)"
| "batch_share share room taken (d # ds) =
     (if room = 0 then ([], taken)
      else if taken (ud_PathID d) \<ge> share then batch_share share room taken ds
      else let (out, taken) = batch_share share (room - 1) (taken(ud_PathID d := taken (ud_PathID d) + 1)) ds
           in (d # out, taken))"

fun batch_fill :: "nat \<Rightarrow> (int \<Rightarrow> nat) \<Rightarrow> (int \<Rightarrow> nat) \<Rightarrow> UsageDelta list \<Rightarrow> UsageDelta list" where
  "batch_fill room taken seen [] = []"
| "batch_fill room taken seen (d # ds) =
     (if room = 0 then []
      else let seen = seen(ud_PathID d := seen (ud_PathID d) + 1)
           in if seen (ud_PathID d) \<le> taken (ud_PathID d) then batch_fill room taken seen ds
              else d # batch_fill (room - 1) taken seen ds)"

definition batch_paths :: "UsageDelta list \<Rightarrow> nat" where
  "batch_paths ds = length (remdups (map ud_PathID ds))"

definition PendingBatch :: "int \<Rightarrow> Meter \<Rightarrow> UsageDelta list" where
  "PendingBatch n m =
     (let n = (if n > int (length (m_pending m)) then int (length (m_pending m)) else n)
      in if n \<le> 0 then []
         else if batch_paths (m_pending m) = 1 then take (nat n) (m_pending m)
         else let share = nat n div batch_paths (m_pending m);
                  share = (if share < 1 then 1 else share);
                  (out, taken) = batch_share share (nat n) (\<lambda>_. 0) (m_pending m)
              in out @ batch_fill (nat n - length out) taken (\<lambda>_. 0) (m_pending m))"

definition acked :: "UsageAck \<Rightarrow> UsageDelta \<Rightarrow> bool" where
  "acked seqs d \<longleftrightarrow> (case seqs (ud_PathID d) of None \<Rightarrow> False | Some upTo \<Rightarrow> ud_Sequence d \<le> upTo)"

definition AckApplied :: "UsageAck \<Rightarrow> bool \<Rightarrow> Meter \<times> meter_disk \<Rightarrow> Meter \<times> meter_disk" where
  "AckApplied seqs pok md =
     (let (m, dk) = md;
          kept = filter (\<lambda>d. \<not> acked seqs d) (m_pending m);
          changed = (length kept \<noteq> length (m_pending m));
          m = m\<lparr>m_pending := kept\<rparr>
      in (m, if changed then persist pok m dk else dk))"

section \<open>Batches are fair prefixes\<close>

lemma filter_take_prefix: "\<exists>j \<le> n. filter P (take n xs) = take j (filter P xs)"
proof (induction xs arbitrary: n)
  case Nil
  show ?case by (intro exI [of _ 0]) simp
next
  case (Cons x xs)
  show ?case
  proof (cases n)
    case (Suc k)
    obtain j where "j \<le> k" "filter P (take k xs) = take j (filter P xs)" using Cons.IH by blast
    then show ?thesis using Suc by (intro exI [of _ "if P x then Suc j else j"]) simp
  qed simp
qed

lemma of_path_take: "\<exists>j. of_path i (take n ds) = take j (of_path i ds)"
  unfolding of_path_def using filter_take_prefix by blast

lemma batch_share_prefix:
  assumes "batch_share share room taken ds = (out, t)"
  shows "taken i \<le> t i \<and> t i \<le> max share (taken i) \<and> t i - taken i \<le> length (of_path i ds) \<and>
    of_path i out = take (t i - taken i) (of_path i ds) \<and> length out \<le> room"
  using assms
proof (induction share room taken ds arbitrary: out t rule: batch_share.induct)
  case (2 share room taken d ds)
  note ih_skip = 2(1) and ih_take = 2(2) and run = 2(3)
  consider "room = 0" | "room \<noteq> 0" "share \<le> taken (ud_PathID d)" | "room \<noteq> 0" "taken (ud_PathID d) < share"
    by linarith
  then show ?case
  proof cases
    case 1
    with run show ?thesis by simp
  next
    case 2
    with ih_skip [of out t] run show ?thesis by (auto simp: max_def)
  next
    case 3
    obtain o' t' where r: "batch_share share (room - 1) (taken(ud_PathID d := taken (ud_PathID d) + 1)) ds = (o', t')"
      by fastforce
    have eq: "out = d # o'" "t = t'" using run 3 r by (simp_all add: Let_def)
    have ih: "(taken(ud_PathID d := taken (ud_PathID d) + 1)) i \<le> t' i \<and>
        t' i \<le> max share ((taken(ud_PathID d := taken (ud_PathID d) + 1)) i) \<and>
        t' i - (taken(ud_PathID d := taken (ud_PathID d) + 1)) i \<le> length (of_path i ds) \<and>
        of_path i o' = take (t' i - (taken(ud_PathID d := taken (ud_PathID d) + 1)) i) (of_path i ds) \<and>
        length o' \<le> room - 1"
      using ih_take 3 r by (simp add: fun_upd_def)
    show ?thesis
    proof (cases "ud_PathID d = i")
      case True
      with ih have "Suc (taken i) \<le> t' i" by simp
      then have "t' i - taken i = Suc (t' i - Suc (taken i))" by linarith
      with True ih 3 show ?thesis unfolding eq by (auto simp: max_def split: if_splits)
    qed (use ih 3 in \<open>auto simp: eq\<close>)
  qed
qed simp

text \<open>Pass two without its bound: of each path, what pass one left.\<close>

fun fill_all :: "(int \<Rightarrow> nat) \<Rightarrow> (int \<Rightarrow> nat) \<Rightarrow> UsageDelta list \<Rightarrow> UsageDelta list" where
  "fill_all taken seen [] = []"
| "fill_all taken seen (d # ds) =
     (let seen = seen(ud_PathID d := seen (ud_PathID d) + 1)
      in if seen (ud_PathID d) \<le> taken (ud_PathID d) then fill_all taken seen ds
         else d # fill_all taken seen ds)"

lemma batch_fill_take: "batch_fill room taken seen ds = take room (fill_all taken seen ds)"
  by (induction room taken seen ds rule: batch_fill.induct) (auto simp: Let_def fun_upd_def take_Cons split: nat.splits)

lemma of_path_fill_all: "of_path i (fill_all taken seen ds) = drop (taken i - seen i) (of_path i ds)"
proof (induction taken seen ds rule: fill_all.induct)
  case (2 taken seen d ds)
  show ?case
  proof (cases "ud_PathID d = i")
    case True
    show ?thesis
    proof (cases "Suc (seen i) \<le> taken i")
      case le: True
      then have "taken i - seen i = Suc (taken i - Suc (seen i))" by simp
      with 2(1) [OF refl] True le show ?thesis by (simp add: Let_def fun_upd_def)
    qed (use 2(2) [OF refl] True in \<open>simp add: Let_def fun_upd_def\<close>)
  qed (use 2 in \<open>auto simp: Let_def fun_upd_def\<close>)
qed simp

lemma length_by_paths:
  assumes "\<And>i. length (of_path i xs) = length (of_path i ys)"
  shows "length xs = length ys"
proof -
  have c: "count (mset (map ud_PathID zs)) i = length (of_path i zs)" for zs i
    by (induction zs) simp_all
  have "mset (map ud_PathID xs) = mset (map ud_PathID ys)"
    by (rule multiset_eqI) (simp only: c assms)
  then have "length (map ud_PathID xs) = length (map ud_PathID ys)" by (rule mset_eq_length)
  then show ?thesis by simp
qed

text \<open>The room an equal share needs: pass one never runs out of it before every path has had its
  share.\<close>

lemma batch_share_fair:
  assumes "batch_share share room taken ds = (out, t)" and "finite P" and "ud_PathID ` set ds \<subseteq> P"
    and "(\<Sum>q\<in>P. share - taken q) \<le> room" and "i \<in> P"
  shows "min share (taken i + length (of_path i ds)) \<le> t i"
  using assms
proof (induction share room taken ds arbitrary: out t rule: batch_share.induct)
  case (1 share room taken)
  then show ?case by simp
next
  case (2 share room taken d ds)
  let ?p = "ud_PathID d"
  note ih_skip = 2(1) and ih_take = 2(2) and run = 2(3) and prems = 2(4-7)
  have p: "?p \<in> P" using prems(2) by simp
  consider "room = 0" | "room \<noteq> 0" "share \<le> taken ?p" | "room \<noteq> 0" "taken ?p < share"
    by linarith
  then show ?case
  proof cases
    case 1
    with prems have "share - taken i = 0" by simp
    with 1 run show ?thesis by auto
  next
    case 2
    with ih_skip [of out t] run prems batch_share_prefix [of share room taken ds out t i]
    show ?thesis by (cases "?p = i") auto
  next
    case 3
    let ?taken = "taken(?p := taken ?p + 1)"
    obtain o' t' where r: "batch_share share (room - 1) ?taken ds = (o', t')" by fastforce
    have eq: "t = t'" using run 3 r by (simp add: Let_def)
    have "(\<Sum>q\<in>P. share - ?taken q) = (share - ?taken ?p) + (\<Sum>q\<in>P - {?p}. share - taken q)"
      using prems(1) p by (simp add: sum.remove)
    moreover have "(\<Sum>q\<in>P. share - taken q) = (share - taken ?p) + (\<Sum>q\<in>P - {?p}. share - taken q)"
      using prems(1) p by (simp add: sum.remove)
    ultimately have "(\<Sum>q\<in>P. share - ?taken q) \<le> room - 1" using 3 prems(3) by simp
    with ih_take [of o' t'] r prems(1,2,4) 3 have "min share (?taken i + length (of_path i ds)) \<le> t' i"
      by (simp add: fun_upd_def)
    then show ?thesis by (auto simp: eq)
  qed
qed

lemma of_path_empty_sum: "of_path i ds \<noteq> [] \<Longrightarrow> i \<in> ud_PathID ` set ds"
  unfolding of_path_def by (metis (mono_tags, lifting) filter_False image_eqI)

lemma batch_paths_card: "batch_paths ds = card (ud_PathID ` set ds)"
  unfolding batch_paths_def by (metis length_remdups_card_conv list.set_map)

lemma share_all:
  assumes "ds \<noteq> []" and "batch_share share room (\<lambda>_. 0) ds = (out, t)"
  shows "length (out @ batch_fill (room - length out) t (\<lambda>_. 0) ds) = min room (length ds)"
proof -
  have "length (of_path i (out @ fill_all t (\<lambda>_. 0) ds)) = length (of_path i ds)" for i
    using batch_share_prefix [OF assms(2), of i] by (simp add: of_path_fill_all)
  then have "length (out @ fill_all t (\<lambda>_. 0) ds) = length ds" by (rule length_by_paths)
  moreover have "length out \<le> room" using batch_share_prefix [OF assms(2)] by blast
  ultimately show ?thesis by (simp add: batch_fill_take)
qed

text \<open>The three promises of a batch, separately.\<close>

lemma PendingBatch_eq:
  "PendingBatch n m =
     (let N = min (nat n) (length (m_pending m)); k = batch_paths (m_pending m)
      in if N = 0 then [] else if k = 1 then take N (m_pending m)
         else case batch_share (max 1 (N div k)) N (\<lambda>_. 0) (m_pending m) of
           (out, t) \<Rightarrow> out @ batch_fill (N - length out) t (\<lambda>_. 0) (m_pending m))"
proof -
  let ?n = "if n > int (length (m_pending m)) then int (length (m_pending m)) else n"
  have N: "nat ?n = min (nat n) (length (m_pending m))" by auto
  have z: "?n \<le> 0 \<longleftrightarrow> nat ?n = 0" by linarith
  have sh: "(if s < 1 then 1 else s) = max 1 s" for s :: nat by simp
  show ?thesis unfolding PendingBatch_def Let_def z unfolding N sh ..
qed

lemma PendingBatch_prefix: "\<exists>j. of_path i (PendingBatch n m) = take j (of_path i (m_pending m))"
proof -
  have two: "\<exists>j. of_path i (out @ batch_fill room t (\<lambda>_. 0) ds) = take j (of_path i ds)"
    if "batch_share share k (\<lambda>_. 0) ds = (out, t)" for out t room share k ds
  proof -
    from batch_share_prefix [OF that, of i] have p: "of_path i out = take (t i) (of_path i ds)" by simp
    obtain j where "of_path i (take room (fill_all t (\<lambda>_. 0) ds)) = take j (of_path i (fill_all t (\<lambda>_. 0) ds))"
      using of_path_take by blast
    then have "of_path i (out @ batch_fill room t (\<lambda>_. 0) ds) = take (t i + j) (of_path i ds)"
      by (simp add: batch_fill_take p of_path_fill_all take_add)
    then show ?thesis by blast
  qed
  have empty: "\<exists>j. of_path i [] = take j (of_path i (m_pending m))" by (rule exI [of _ 0]) simp
  show ?thesis
    unfolding PendingBatch_eq Let_def by (simp only: empty of_path_take split: prod.split if_split) (use two in blast)
qed

lemma PendingBatch_length: "length (PendingBatch n m) = min (nat n) (length (m_pending m))"
proof -
  have "length (case batch_share share N (\<lambda>_. 0) (m_pending m) of
      (out, t) \<Rightarrow> out @ batch_fill (N - length out) t (\<lambda>_. 0) (m_pending m)) = N"
    if "N = min (nat n) (length (m_pending m))" "N \<noteq> 0" for share N
    using share_all [of "m_pending m" share N] that by (auto split: prod.split)
  then show ?thesis by (simp add: PendingBatch_eq Let_def)
qed

lemma PendingBatch_share:
  assumes "batch_paths (m_pending m) \<le> length (PendingBatch n m)"
  shows "min (length (PendingBatch n m) div batch_paths (m_pending m)) (length (of_path i (m_pending m)))
           \<le> length (of_path i (PendingBatch n m))"
proof -
  let ?ds = "m_pending m" and ?P = "ud_PathID ` set (m_pending m)"
  let ?k = "batch_paths ?ds"
  define N where "N = length (PendingBatch n m)"
  have Neq: "N = min (nat n) (length ?ds)" by (simp add: N_def PendingBatch_length)
  consider "of_path i ?ds = []" | "of_path i ?ds \<noteq> []" "?k = 1" | "of_path i ?ds \<noteq> []" "?k \<noteq> 1" by blast
  then show ?thesis
  proof cases
    case 2
    then obtain q where "?P = {q}" using card_1_singletonE [of ?P] by (auto simp: batch_paths_card)
    moreover have "i \<in> ?P" using of_path_empty_sum 2(1) by blast
    ultimately have "?P = {i}" by simp
    then have "\<forall>d \<in> set ?ds. ud_PathID d = i" by (metis imageI singletonD)
    then have "of_path i xs = xs" if "set xs \<subseteq> set ?ds" for xs
      using that unfolding of_path_def by (intro filter_True) blast
    then have "of_path i (PendingBatch n m) = PendingBatch n m"
      using 2 by (auto simp: PendingBatch_eq Let_def dest: in_set_takeD)
    then show ?thesis using 2 by simp
  next
    case 3
    have i: "i \<in> ?P" using of_path_empty_sum 3 by blast
    have kpos: "0 < ?k" using i by (auto simp: batch_paths_card card_gt_0_iff)
    have share: "1 \<le> N div ?k" using assms kpos unfolding N_def [symmetric] by (simp add: Suc_le_eq div_greater_zero_iff)
    obtain out t where r: "batch_share (N div ?k) N (\<lambda>_. 0) ?ds = (out, t)" by fastforce
    have batch: "PendingBatch n m = out @ batch_fill (N - length out) t (\<lambda>_. 0) ?ds"
    proof -
      have "N \<noteq> 0" using share by (cases "N = 0") simp_all
      with 3 share r show ?thesis
        unfolding PendingBatch_eq Let_def Neq [symmetric] by (simp add: max_absorb2)
    qed
    have "(\<Sum>q\<in>?P. N div ?k - 0) \<le> N" by (simp add: batch_paths_card [symmetric])
    then have "min (N div ?k) (length (of_path i ?ds)) \<le> t i"
      using batch_share_fair [OF r _ order_refl _ i] by simp
    moreover have "length (of_path i out) = min (t i) (length (of_path i ?ds))"
      using batch_share_prefix [OF r, of i] by simp
    ultimately show ?thesis unfolding N_def [symmetric] by (simp add: batch)
  qed simp
qed

section \<open>Numbering\<close>

lemma sample_path_cases:
  assumes "sample_path rd now p m = (od, m')"
  shows "m_pending m' = m_pending m"
    and "(od = None \<and> m_nextSeq m' = m_nextSeq m) \<or>
      (\<exists>d. od = Some d \<and> ud_PathID d = pi_ID p \<and> ud_Sequence d = m_nextSeq m (pi_ID p) + 1 \<and>
         m_nextSeq m' = (m_nextSeq m)(pi_ID p := m_nextSeq m (pi_ID p) + 1) \<and>
         0 \<le> ud_Bytes d \<and> 0 \<le> ud_Packets d)"
  using assms by (auto simp: sample_path_def Let_def split: if_splits option.splits)

text \<open>The \<open>n\<close> sequence numbers after \<open>x\<close>.\<close>

fun seqs_after :: "uint64 \<Rightarrow> nat \<Rightarrow> uint64 list" where
  "seqs_after x 0 = []"
| "seqs_after x (Suc n) = (x + 1) # seqs_after (x + 1) n"

lemma length_seqs_after [simp]: "length (seqs_after x n) = n"
  by (induction n arbitrary: x) simp_all

lemma seqs_after_add: "seqs_after x (a + b) = seqs_after x a @ seqs_after (x + of_nat a) b"
  by (induction a arbitrary: x) (simp_all add: add.assoc)

lemma nth_seqs_after: "k < n \<Longrightarrow> seqs_after x n ! k = x + of_nat (Suc k)"
proof (induction n arbitrary: x k)
  case (Suc n)
  then show ?case by (cases k) (simp_all add: add.assoc)
qed simp

lemma sample_paths_seq:
  assumes "sample_paths rd now ps m = (fresh, m')"
  shows "m_pending m' = m_pending m \<and>
    m_nextSeq m' i = m_nextSeq m i + of_nat (length (of_path i fresh)) \<and>
    map ud_Sequence (of_path i fresh) = seqs_after (m_nextSeq m i) (length (of_path i fresh))"
  using assms
proof (induction ps arbitrary: m fresh)
  case (Cons p ps)
  obtain od m1 where 1: "sample_path rd now p m = (od, m1)" by fastforce
  obtain fr m2 where 2: "sample_paths rd now ps m1 = (fr, m2)" by fastforce
  have eq: "fresh = (case od of None \<Rightarrow> fr | Some d \<Rightarrow> d # fr)" "m' = m2"
    using Cons.prems 1 2 by simp_all
  note ih = Cons.IH [OF 2 [folded eq(2)]]
  consider "od = None" "m_nextSeq m1 = m_nextSeq m" | d where "od = Some d" "ud_PathID d = pi_ID p"
    "ud_Sequence d = m_nextSeq m (pi_ID p) + 1" "m_nextSeq m1 = (m_nextSeq m)(pi_ID p := m_nextSeq m (pi_ID p) + 1)"
    using sample_path_cases(2) [OF 1] by blast
  then show ?case
  proof cases
    case 1
    with ih sample_path_cases(1) [OF \<open>sample_path rd now p m = (od, m1)\<close>] show ?thesis by (simp add: eq)
  next
    case 2
    show ?thesis
    proof (cases "pi_ID p = i")
      case True
      with ih 2 sample_path_cases(1) [OF \<open>sample_path rd now p m = (od, m1)\<close>] show ?thesis
        by (simp add: eq add.assoc)
    next
      case False
      with ih 2 sample_path_cases(1) [OF \<open>sample_path rd now p m = (od, m1)\<close>] show ?thesis by (simp add: eq)
    qed
  qed
qed simp

text \<open>Batches are fair: a batch fills its size from the buffer, holds of every path a prefix of
  that path's buffered deltas in order (which the frontend's watermark needs), and, once it
  is at least as large as the number of paths, holds of every path an equal share of it or
  all there is, so no path that is never acknowledged can crowd out the others.\<close>

theorem PendingBatch_fair:
  "length (PendingBatch n m) = min (nat n) (length (m_pending m)) \<and>
   (\<exists>j. of_path i (PendingBatch n m) = take j (of_path i (m_pending m))) \<and>
   (batch_paths (m_pending m) \<le> length (PendingBatch n m) \<longrightarrow>
    min (length (PendingBatch n m) div batch_paths (m_pending m)) (length (of_path i (m_pending m)))
      \<le> length (of_path i (PendingBatch n m)))"
  using PendingBatch_length PendingBatch_prefix PendingBatch_share by blast

definition sample_meter :: Meter where
  "sample_meter = \<lparr>m_last = Map.empty, m_nextSeq = (\<lambda>_. 3),
     m_pending = map (\<lambda>(p, s). \<lparr>ud_PathID = p, ud_Bytes = 1, ud_Packets = 1, ud_AtUnix = 0, ud_Sequence = s\<rparr>)
       [(1, 1), (1, 2), (1, 3), (2, 1)]\<rparr>"

theorem PendingBatch_fair_witness: "1 \<le> length (of_path 2 (PendingBatch 2 sample_meter))"
proof -
  have "batch_paths (m_pending sample_meter) = 2" "length (of_path 2 (m_pending sample_meter)) = 1"
    "length (m_pending sample_meter) = 4"
    by (simp_all add: sample_meter_def batch_paths_def)
  with PendingBatch_fair [of 2 sample_meter 2] show ?thesis by simp
qed

section \<open>Conservation\<close>

text \<open>A series of samples, with everything emitted along the way.\<close>

fun sample_series ::
    "((string \<Rightarrow> Counters option) \<times> int) list \<Rightarrow> PathInfo list \<Rightarrow> Meter \<Rightarrow> UsageDelta list \<times> Meter" where
  "sample_series [] ps m = ([], m)"
| "sample_series ((rd, now) # ticks) ps m =
     (let (fresh, m) = sample_paths rd now ps m; (more, m) = sample_series ticks ps m in (fresh @ more, m))"

definition bytes_sum :: "UsageDelta list \<Rightarrow> int" where "bytes_sum ds = (\<Sum>d\<leftarrow>ds. ud_Bytes d)"
definition packets_sum :: "UsageDelta list \<Rightarrow> int" where "packets_sum ds = (\<Sum>d\<leftarrow>ds. ud_Packets d)"

text \<open>Counters that only count up, from the reading \<open>c\<close> on.\<close>

definition counted_from :: "Counters \<Rightarrow> Counters \<Rightarrow> bool" where
  "counted_from c c' \<longleftrightarrow> 0 \<le> Counters_Bytes c \<and> Counters_Bytes c \<le> Counters_Bytes c' \<and>
     0 \<le> Counters_Packets c \<and> Counters_Packets c \<le> Counters_Packets c'"

fun counting_up :: "string \<Rightarrow> Counters \<Rightarrow> ((string \<Rightarrow> Counters option) \<times> int) list \<Rightarrow> bool" where
  "counting_up iface c [] \<longleftrightarrow> True"
| "counting_up iface c ((rd, _) # ticks) \<longleftrightarrow>
     (case rd iface of None \<Rightarrow> counting_up iface c ticks
      | Some c' \<Rightarrow> counted_from c c' \<and> counting_up iface c' ticks)"

lemma wrap64_diff:
  assumes "in_int64 b" and "0 \<le> a" and "a \<le> b"
  shows "wrap64 (b - a) = b - a"
  by (rule wrap64_id) (use assms in \<open>simp add: int64_bounds\<close>)

lemma sample_path_other:
  "pi_ID p \<noteq> i \<Longrightarrow> pi_Iface p \<noteq> iface \<Longrightarrow> sample_path rd now p m = (od, m') \<Longrightarrow>
     m_last m' iface = m_last m iface \<and> (\<forall>d. od = Some d \<longrightarrow> ud_PathID d \<noteq> i)"
  by (auto simp: sample_path_def Let_def split: if_splits option.splits)

lemma sample_paths_other:
  assumes "sample_paths rd now ps m = (fresh, m')" and "i \<notin> pi_ID ` set ps" and "iface \<notin> pi_Iface ` set ps"
  shows "m_last m' iface = m_last m iface \<and> of_path i fresh = []"
  using assms
proof (induction ps arbitrary: m fresh)
  case (Cons p ps)
  obtain od m1 where 1: "sample_path rd now p m = (od, m1)" by fastforce
  obtain fr m2 where 2: "sample_paths rd now ps m1 = (fr, m2)" by fastforce
  have "m_last m1 iface = m_last m iface \<and> (\<forall>d. od = Some d \<longrightarrow> ud_PathID d \<noteq> i)"
    using Cons.prems by (intro sample_path_other [OF _ _ 1]) auto
  moreover have "m' = m2" using Cons.prems(1) 1 2 by simp
  moreover have "m_last m' iface = m_last m1 iface \<and> of_path i fr = []"
    using Cons.prems 2 \<open>m' = m2\<close> by (intro Cons.IH [of m1 fr]) auto
  ultimately show ?case using Cons.prems(1) 1 2 by (auto split: option.split)
qed simp

lemma sample_path_conserves:
  assumes "sample_path rd now p m = (od, m')" and "pi_Metered p" and "m_last m (pi_Iface p) = Some c"
    and "case rd (pi_Iface p) of None \<Rightarrow> True | Some c' \<Rightarrow> counted_from c c'"
  shows "\<exists>c'. m_last m' (pi_Iface p) = Some c' \<and> c' = (case rd (pi_Iface p) of None \<Rightarrow> c | Some c' \<Rightarrow> c') \<and>
    bytes_sum (case od of None \<Rightarrow> [] | Some d \<Rightarrow> [d]) = Counters_Bytes c' - Counters_Bytes c \<and>
    packets_sum (case od of None \<Rightarrow> [] | Some d \<Rightarrow> [d]) = Counters_Packets c' - Counters_Packets c"
proof (cases "rd (pi_Iface p)")
  case None
  with assms show ?thesis by (simp add: sample_path_def bytes_sum_def packets_sum_def)
next
  case (Some c')
  then have d: "wrap64 (Counters_Bytes c' - Counters_Bytes c) = Counters_Bytes c' - Counters_Bytes c"
    "wrap64 (Counters_Packets c' - Counters_Packets c) = Counters_Packets c' - Counters_Packets c"
    using assms(4) by (auto simp: counted_from_def Counters_Bytes_def Counters_Packets_def intro!: wrap64_diff)
  have up: "Counters_Bytes c \<le> Counters_Bytes c'" "Counters_Packets c \<le> Counters_Packets c'"
    using Some assms(4) by (simp_all add: counted_from_def)
  from assms(1-3) Some up show ?thesis
    by (auto simp: sample_path_def d bytes_sum_def packets_sum_def Let_def split: if_splits)
qed

lemma sum_append [simp]:
  "bytes_sum (xs @ ys) = bytes_sum xs + bytes_sum ys" "packets_sum (xs @ ys) = packets_sum xs + packets_sum ys"
  by (simp_all add: bytes_sum_def packets_sum_def)

lemma sample_paths_append:
  "sample_paths rd now (ps @ qs) m =
     (let (f1, m1) = sample_paths rd now ps m; (f2, m2) = sample_paths rd now qs m1 in (f1 @ f2, m2))"
  by (induction ps arbitrary: m) (auto simp: Let_def split: prod.splits option.split)

lemma sample_paths_conserves:
  assumes run: "sample_paths rd now ps m = (fresh, m')"
    and dist: "distinct (map pi_ID ps)" "distinct (map pi_Iface ps)" and p: "p \<in> set ps" "pi_Metered p"
    and c: "m_last m (pi_Iface p) = Some c"
    and up: "case rd (pi_Iface p) of None \<Rightarrow> True | Some c' \<Rightarrow> counted_from c c'"
  shows "\<exists>c'. m_last m' (pi_Iface p) = Some c' \<and> c' = (case rd (pi_Iface p) of None \<Rightarrow> c | Some c' \<Rightarrow> c') \<and>
    bytes_sum (of_path (pi_ID p) fresh) = Counters_Bytes c' - Counters_Bytes c \<and>
    packets_sum (of_path (pi_ID p) fresh) = Counters_Packets c' - Counters_Packets c"
proof -
  obtain xs ys where ps: "ps = xs @ p # ys" using split_list [OF p(1)] by blast
  obtain f1 m1 where 1: "sample_paths rd now xs m = (f1, m1)" by fastforce
  obtain od m2 where 2: "sample_path rd now p m1 = (od, m2)" by fastforce
  obtain f3 m3 where 3: "sample_paths rd now ys m2 = (f3, m3)" by fastforce
  have eq: "fresh = f1 @ (case od of None \<Rightarrow> [] | Some d \<Rightarrow> [d]) @ f3" "m' = m3"
    using run 1 2 3 by (auto simp: ps sample_paths_append split: option.splits)
  have o1: "m_last m1 (pi_Iface p) = m_last m (pi_Iface p) \<and> of_path (pi_ID p) f1 = []"
    using dist by (intro sample_paths_other [OF 1]) (auto simp: ps)
  have o3: "m_last m3 (pi_Iface p) = m_last m2 (pi_Iface p) \<and> of_path (pi_ID p) f3 = []"
    using dist by (intro sample_paths_other [OF 3]) (auto simp: ps)
  have id: "of_path (pi_ID p) (case od of None \<Rightarrow> [] | Some d \<Rightarrow> [d]) = (case od of None \<Rightarrow> [] | Some d \<Rightarrow> [d])"
    using sample_path_cases(2) [OF 2] by auto
  show ?thesis
    using sample_path_conserves [OF 2 p(2) _ up] c o1 o3 by (simp add: eq id)
qed

text \<open>Nothing is lost between samples: over any series of samples in which the counters of a
  metered path's interface only count up (the interface may be absent at times), the deltas
  emitted for the path add up to exactly the last reading less the baseline, in bytes and in
  packets.\<close>

theorem meter_conserves:
  assumes "sample_series ticks ps m = (emitted, m')"
    and "distinct (map pi_ID ps)" "distinct (map pi_Iface ps)" and "p \<in> set ps" "pi_Metered p"
    and "m_last m (pi_Iface p) = Some c" and "counting_up (pi_Iface p) c ticks"
  shows "\<exists>c'. m_last m' (pi_Iface p) = Some c' \<and>
    bytes_sum (of_path (pi_ID p) emitted) = Counters_Bytes c' - Counters_Bytes c \<and>
    packets_sum (of_path (pi_ID p) emitted) = Counters_Packets c' - Counters_Packets c"
  using assms
proof (induction ticks arbitrary: m c emitted)
  case Nil
  then show ?case by (simp add: bytes_sum_def packets_sum_def)
next
  case (Cons tick ticks)
  obtain rd now where t: "tick = (rd, now)" by (cases tick)
  obtain f1 m1 where 1: "sample_paths rd now ps m = (f1, m1)" by fastforce
  obtain f2 m2 where 2: "sample_series ticks ps m1 = (f2, m2)" by fastforce
  have eq: "emitted = f1 @ f2" "m' = m2" using Cons.prems(1) 1 2 by (simp_all add: t)
  have up: "case rd (pi_Iface p) of None \<Rightarrow> True | Some c' \<Rightarrow> counted_from c c'"
    using Cons.prems(7) by (auto simp: t split: option.splits)
  obtain c1 where c1: "m_last m1 (pi_Iface p) = Some c1" "c1 = (case rd (pi_Iface p) of None \<Rightarrow> c | Some c' \<Rightarrow> c')"
    "bytes_sum (of_path (pi_ID p) f1) = Counters_Bytes c1 - Counters_Bytes c"
    "packets_sum (of_path (pi_ID p) f1) = Counters_Packets c1 - Counters_Packets c"
    using sample_paths_conserves [OF 1 Cons.prems(2-6) up] by blast
  have "counting_up (pi_Iface p) c1 ticks" using Cons.prems(7) c1(2) by (auto simp: t split: option.splits)
  with Cons.IH [OF 2 [folded eq(2)] Cons.prems(2-5) c1(1)] show ?case using c1(3,4) by (auto simp: eq)
qed

definition sample_path_info :: PathInfo where
  "sample_path_info = \<lparr>pi_ID = 2, pi_Name = ''lte'', pi_Iface = ''wg1'', pi_Table = 0, pi_Mark = 0,
     pi_Metered = True, pi_ShapeMbit = Fin 0\<rparr>"

definition reading :: "int \<Rightarrow> int \<Rightarrow> Counters" where
  "reading b p = \<lparr>ct_RxBytes = b, ct_TxBytes = 0, ct_RxPackets = p, ct_TxPackets = 0\<rparr>"

theorem meter_conserves_witness:
  "bytes_sum (of_path 2 (fst (sample_series
     [(\<lambda>_. Some (reading 150 3), 0), (\<lambda>_. None, 10), (\<lambda>_. Some (reading 400 5), 20)]
     [sample_path_info] \<lparr>m_last = [''wg1'' \<mapsto> reading 100 2], m_nextSeq = (\<lambda>_. 0), m_pending = []\<rparr>))) = 300"
proof -
  let ?m = "\<lparr>m_last = [''wg1'' \<mapsto> reading 100 2], m_nextSeq = (\<lambda>_. 0), m_pending = []\<rparr>"
  let ?t = "[(\<lambda>_. Some (reading 150 3), 0), (\<lambda>_. None, 10), (\<lambda>_. Some (reading 400 5), 20)]"
  obtain em m' where r: "sample_series ?t [sample_path_info] ?m = (em, m')" by fastforce
  have last: "m_last m' ''wg1'' = Some (reading 400 5)"
    using r by (auto simp: sample_path_def sample_path_info_def Let_def split: if_splits)
  have b: "Counters_Bytes (reading x y) = x" "Counters_Packets (reading x y) = y"
    if "0 \<le> x" "x < 1000" "0 \<le> y" "y < 1000" for x y
    using that by (simp_all add: Counters_Bytes_def Counters_Packets_def reading_def wrap64_id int64_bounds)
  have up: "counting_up ''wg1'' (reading 100 2) ?t" by (simp add: counted_from_def b)
  show ?thesis
    using meter_conserves [OF r, of sample_path_info "reading 100 2"] last up r
    by (simp add: sample_path_info_def b)
qed

section \<open>The two files\<close>

text \<open>With both writes done, a restart restores the meter exactly.\<close>

lemma decode_lines_map [simp]: "decode_lines (map Some ds) = (ds, True)"
  by (induction ds) simp_all

definition in_sync :: "Meter \<times> meter_disk \<Rightarrow> bool" where
  "in_sync md \<longleftrightarrow> NewMeter (snd md) = fst md"

lemma NewMeter_buffer:
  "dk_buffer dk = Some (JSONLines (map Some ds)) \<Longrightarrow> NewMeter dk =
     (case dk_state dk of None \<Rightarrow> \<lparr>m_last = Map.empty, m_nextSeq = (\<lambda>_. 0), m_pending = ds\<rparr>
      | Some (l, n) \<Rightarrow> \<lparr>m_last = l, m_nextSeq = n, m_pending = ds\<rparr>)"
  by (simp add: NewMeter_def meter_load_def Let_def split: option.split)

lemma sync_after_writes: "in_sync (m, meter_save True m (persist True m dk))"
proof -
  have "NewMeter (meter_save True m (persist True m dk)) =
      \<lparr>m_last = m_last m, m_nextSeq = m_nextSeq m, m_pending = m_pending m\<rparr>"
    by (subst NewMeter_buffer [of _ "m_pending m"]) (simp_all add: meter_save_def persist_def)
  then show ?thesis by (simp add: in_sync_def)
qed

lemma sample_in_sync:
  assumes "in_sync (m, dk)" and "sample rd now ocfg True True (m, dk) = (m', dk')"
  shows "in_sync (m', dk')"
proof (cases ocfg)
  case None
  with assms show ?thesis by (simp add: sample_def)
next
  case (Some cfg)
  obtain fresh m1 where s: "sample_paths rd (to_unix now) (bc_Paths cfg) m = (fresh, m1)" by fastforce
  show ?thesis
  proof (cases "fresh = []")
    case False
    then show ?thesis using assms(2) Some s sync_after_writes by (auto simp: sample_def Let_def)
  next
    case True
    have "m_pending m1 = m_pending m" using sample_paths_seq [OF s] by blast
    with True assms Some s show ?thesis
      by (auto simp: sample_def buffer_add_def in_sync_def NewMeter_def meter_load_def meter_save_def Let_def
        split: option.splits if_splits)
  qed
qed

lemma ack_in_sync:
  assumes "in_sync (m, dk)" and "AckApplied seqs True (m, dk) = (m', dk')"
  shows "in_sync (m', dk')"
proof -
  let ?k = "filter (\<lambda>d. \<not> acked seqs d) (m_pending m)"
  show ?thesis
  proof (cases "length ?k = length (m_pending m)")
    case True
    then have "?k = m_pending m" by (metis filter_id_conv length_filter_less less_irrefl)
    then show ?thesis using assms by (auto simp: AckApplied_def)
  next
    case False
    then show ?thesis using assms
      by (auto simp: AckApplied_def in_sync_def NewMeter_def meter_load_def persist_def Let_def split: option.splits)
  qed
qed

text \<open>The order of the two writes leaves a window: a crash, or a failed write, after \<open>persist\<close> and
  before \<open>save\<close> restores the buffered delta with the counter behind it, and the next delta of
  the path carries its sequence number again.\<close>

lemma save_lost_reuses_sequence:
  assumes "sample_paths rd (to_unix now) (bc_Paths cfg) m = (fresh, m1)" and "of_path i fresh = [d]"
    and "length (m_pending m @ fresh) \<le> maxBuffered"
    and "dk_state dk = Some (m_last m, m_nextSeq m)"
    and "sample rd now (Some cfg) True False (m, dk) = (m', dk')"
  shows "d \<in> set (m_pending (NewMeter dk')) \<and> m_nextSeq (NewMeter dk') i + 1 = ud_Sequence d"
proof -
  have "ud_Sequence d = m_nextSeq m i + 1" and p: "m_pending m1 = m_pending m"
    using sample_paths_seq [OF assms(1), of i] assms(2) by simp_all
  moreover have ne: "fresh \<noteq> []" and df: "d \<in> set fresh"
    using assms(2) unfolding of_path_def by (auto dest: filter_eq_ConsD)
  moreover have "dk' = dk\<lparr>dk_buffer := Some (JSONLines (map Some (m_pending m @ fresh)))\<rparr>"
    using assms(1,3,5) ne p by (simp add: sample_def buffer_add_def persist_def meter_save_def last_n_all Let_def)
  then have "NewMeter dk' = \<lparr>m_last = m_last m, m_nextSeq = m_nextSeq m, m_pending = m_pending m @ fresh\<rparr>"
    using assms(4) by (subst NewMeter_buffer [of _ "m_pending m @ fresh"]) simp_all
  ultimately show ?thesis by simp
qed

end
