(* ===== verification/Strconv.thy ===== *)
theory Strconv
  imports Prelude
begin

text \<open>
  What the agents use of Go's \<open>strconv\<close> and \<open>encoding/hex\<close>: decimal printing and parsing of
  integers and hexadecimal text. The usage watermarks go through the database as decimal
  text, so the round trips of this theory carry the metering proofs.
\<close>

section \<open>Decimal text\<close>

definition digit_char :: "nat \<Rightarrow> char" where
  "digit_char n = char_of (48 + n)"

definition is_digit :: "char \<Rightarrow> bool" where
  "is_digit c \<longleftrightarrow> 48 \<le> (of_char c :: nat) \<and> (of_char c :: nat) \<le> 57"

definition digit_val :: "char \<Rightarrow> nat" where
  "digit_val c = of_char c - 48"

fun dec_digits :: "nat \<Rightarrow> string" where
  "dec_digits n = (if n < 10 then [digit_char n] else dec_digits (n div 10) @ [digit_char (n mod 10)])"

declare dec_digits.simps [simp del]

definition dec_value :: "string \<Rightarrow> nat" where
  "dec_value s = foldl (\<lambda>a c. 10 * a + digit_val c) 0 s"

text \<open>\<open>strconv.FormatUint(u, 10)\<close>, \<open>strconv.Itoa\<close>, \<open>strconv.ParseUint(s, 10, 64)\<close> and
  \<open>strconv.Atoi\<close> (a 64-bit \<open>int\<close>); \<open>None\<close> is a syntax or range error.\<close>

definition FormatUint :: "uint64 \<Rightarrow> string" where
  "FormatUint u = dec_digits (unat u)"

definition Itoa :: "int \<Rightarrow> string" where
  "Itoa i = (if i < 0 then CHR ''-'' # dec_digits (nat (- i)) else dec_digits (nat i))"

definition ParseUint :: "string \<Rightarrow> uint64 option" where
  "ParseUint s =
     (if s = [] \<or> \<not> list_all is_digit s then None
      else if dec_value s < 2 ^ 64 then Some (of_nat (dec_value s)) else None)"

definition Atoi :: "string \<Rightarrow> int option" where
  "Atoi s =
     (let (neg, t) = (case s of [] \<Rightarrow> (False, s)
                      | c # cs \<Rightarrow> if c = CHR ''-'' then (True, cs) else if c = CHR ''+'' then (False, cs) else (False, s));
          v = (if neg then - int (dec_value t) else int (dec_value t))
      in if t = [] \<or> \<not> list_all is_digit t then None else if in_int64 v then Some v else None)"

lemma of_char_digit [simp]: "n < 10 \<Longrightarrow> (of_char (digit_char n) :: nat) = 48 + n"
  by (simp add: digit_char_def)

lemma digit_val_digit [simp]: "n < 10 \<Longrightarrow> digit_val (digit_char n) = n"
  by (simp add: digit_val_def)

lemma is_digit_digit [simp]: "n < 10 \<Longrightarrow> is_digit (digit_char n)"
  by (simp add: is_digit_def)

lemma dec_value_snoc [simp]: "dec_value (s @ [c]) = 10 * dec_value s + digit_val c"
  by (simp add: dec_value_def)

lemma dec_value_digits [simp]: "dec_value (dec_digits n) = n"
proof (induction n rule: dec_digits.induct)
  case (1 n)
  show ?case
  proof (cases "n < 10")
    case True
    then show ?thesis by (simp add: dec_digits.simps [of n] dec_value_def)
  next
    case False
    with 1 show ?thesis by (subst dec_digits.simps) simp
  qed
qed

lemma dec_digits_digit: "list_all is_digit (dec_digits n)"
proof (induction n rule: dec_digits.induct)
  case (1 n)
  then show ?case by (subst dec_digits.simps) simp
qed

lemma dec_digits_nonempty [simp]: "dec_digits n \<noteq> []"
  by (subst dec_digits.simps) simp

lemma hd_dec_digits: "is_digit (hd (dec_digits n))"
  using dec_digits_digit [of n] by (cases "dec_digits n") auto

lemma minus_no_digit [simp]: "\<not> is_digit (CHR ''-'')" "\<not> is_digit (CHR ''+'')"
  by (simp_all add: is_digit_def)

lemma dec_digits_inj: "dec_digits m = dec_digits n \<longleftrightarrow> m = n"
  by (metis dec_value_digits)

lemma ParseUint_FormatUint [simp]: "ParseUint (FormatUint u) = Some u"
  using unsigned_less [of u, where ?'a = nat] by (simp add: ParseUint_def FormatUint_def dec_digits_digit)

lemma FormatUint_nonempty [simp]: "FormatUint u \<noteq> []"
  by (simp add: FormatUint_def)

lemma Itoa_inj: "Itoa i = Itoa j \<longleftrightarrow> i = j"
proof
  assume eq: "Itoa i = Itoa j"
  have sign: "i < 0 \<longleftrightarrow> j < 0"
  proof (rule ccontr)
    assume "\<not> (i < 0 \<longleftrightarrow> j < 0)"
    then obtain m n where "CHR ''-'' # dec_digits m = dec_digits n"
      using eq unfolding Itoa_def by (metis (full_types))
    then have "is_digit (CHR ''-'')" using hd_dec_digits [of n] by (metis list.sel(1))
    then show False by simp
  qed
  with eq show "i = j" by (auto simp: Itoa_def dec_digits_inj split: if_splits)
qed simp

lemma Atoi_Itoa: "in_int64 i \<Longrightarrow> Atoi (Itoa i) = Some i"
proof -
  assume r: "in_int64 i"
  obtain c cs where cs: "dec_digits (nat i) = c # cs" by (cases "dec_digits (nat i)") simp_all
  then have "is_digit c" using hd_dec_digits [of "nat i"] by simp
  then have "c \<noteq> CHR ''-''" "c \<noteq> CHR ''+''" by auto
  with r cs show ?thesis
    using dec_digits_digit [of "nat i"] dec_value_digits [of "nat i"]
    by (cases "i < 0") (auto simp: Atoi_def Itoa_def dec_digits_digit)
qed

section \<open>Hexadecimal text\<close>

text \<open>\<open>hex.DecodeString\<close>: both cases are read, an odd length or a foreign character is an error.\<close>

definition hex_val :: "char \<Rightarrow> nat option" where
  "hex_val ch =
     (let c = (of_char ch :: nat)
      in if 48 \<le> c \<and> c \<le> 57 then Some (c - 48)
         else if 97 \<le> c \<and> c \<le> 102 then Some (c - 87)
         else if 65 \<le> c \<and> c \<le> 70 then Some (c - 55) else None)"

fun hexDecode :: "string \<Rightarrow> bytes option" where
  "hexDecode [] = Some []"
| "hexDecode [_] = None"
| "hexDecode (a # b # s) =
     (case (hex_val a, hex_val b, hexDecode s) of
        (Some x, Some y, Some bs) \<Rightarrow> Some (of_nat (16 * x + y) # bs)
      | _ \<Rightarrow> None)"

end
