(* ===== verification/Store.thy ===== *)
theory Store
  imports QuotaPolicy Wire Strconv
begin

text \<open>
  The frontend's database (\<open>store/store.go\<close>): one record field per table, one operation per
  method. A query is told whether the read succeeds and a statement what became of it, so
  every error return of the methods is a value of the model; a transaction that does not
  reach its commit leaves the tables as they were.
\<close>

section \<open>Tables\<close>

definition MaxLedgerValue :: int where "MaxLedgerValue = 2 ^ 60"

record UsageEntry =
  ue_PeriodStart :: gotime
  ue_At :: gotime
  ue_Bytes :: int
  ue_Packets :: int

record usage_row =
  ur_ts :: int
  ur_path :: int
  ur_bytes :: int
  ur_packets :: int

record PathSample =
  ps_PathID :: int
  ps_RTT :: float64
  ps_Loss :: float64
  ps_Jitter :: float64
  ps_Health :: Health

record Event =
  ev_ID :: int
  ev_TS :: int
  ev_Kind :: string
  ev_PathID :: int
  ev_Message :: string

record Store =
  st_config :: "string option"
  st_users :: "string \<rightharpoonup> string \<times> string"
  st_sessions :: "string \<rightharpoonup> string \<times> int"
  st_ledger :: "int \<times> int \<rightharpoonup> int \<times> int"
  st_usage :: "usage_row list"
  st_paths :: "(int \<times> PathSample) list"
  st_events :: "Event list"
  st_eventSeq :: int
  st_grants :: "int \<rightharpoonup> Grant"
  st_meta :: "string \<rightharpoonup> string"

definition empty_store :: Store where
  "empty_store = \<lparr>st_config = None, st_users = Map.empty, st_sessions = Map.empty,
     st_ledger = Map.empty, st_usage = [], st_paths = [], st_events = [], st_eventSeq = 0,
     st_grants = Map.empty, st_meta = Map.empty\<rparr>"

text \<open>
  What becomes of a statement or a commit: it is applied, it fails, or it is applied and an
  error is reported all the same (an error after the commit reached the disk), which no
  caller can tell from a failure. The result is whether no error was returned.
\<close>

datatype exec = Applied | Failed | Unreported

fun run_exec :: "exec \<Rightarrow> (Store \<Rightarrow> Store) \<Rightarrow> Store \<Rightarrow> bool \<times> Store" where
  "run_exec Applied f st = (True, f st)"
| "run_exec Failed f st = (False, st)"
| "run_exec Unreported f st = (False, f st)"

section \<open>Configuration\<close>

datatype config_error = LoadFailed | DecodeFailed | SaveFailed

definition HasConfig :: "bool \<Rightarrow> Store \<Rightarrow> bool option" where
  "HasConfig ok st = (if ok then Some (st_config st \<noteq> None) else None)"

definition SaveConfig :: "(Config \<Rightarrow> string option) \<Rightarrow> exec \<Rightarrow> Config \<Rightarrow> Store \<Rightarrow> bool \<times> Store" where
  "SaveConfig enc x cfg st =
     (case enc cfg of None \<Rightarrow> (False, st)
      | Some raw \<Rightarrow> run_exec x (\<lambda>st. st\<lparr>st_config := Some raw\<rparr>) st)"

definition LoadConfig ::
    "(Config \<Rightarrow> string option) \<Rightarrow> (string \<Rightarrow> Config option) \<Rightarrow> bool \<Rightarrow> exec \<Rightarrow> Store
     \<Rightarrow> (config_error + Config) \<times> Store" where
  "LoadConfig enc dec ok x st =
     (if \<not> ok then (Inl LoadFailed, st)
      else case st_config st of
        None \<Rightarrow> (case SaveConfig enc x Defaults st of
                   (True, st') \<Rightarrow> (Inr Defaults, st')
                 | (False, st') \<Rightarrow> (Inl SaveFailed, st'))
      | Some raw \<Rightarrow> (case dec raw of None \<Rightarrow> (Inl DecodeFailed, st)
                     | Some cfg \<Rightarrow> (Inr (Normalise cfg), st)))"

section \<open>Meta\<close>

definition put_meta :: "string \<Rightarrow> string \<Rightarrow> Store \<Rightarrow> Store" where
  "put_meta key value st = st\<lparr>st_meta := (st_meta st)(key \<mapsto> value)\<rparr>"

definition SetMeta :: "exec \<Rightarrow> string \<Rightarrow> string \<Rightarrow> Store \<Rightarrow> bool \<times> Store" where
  "SetMeta x key value st = run_exec x (put_meta key value) st"

text \<open>An absent row is the empty string; \<open>None\<close> is a failed read.\<close>

definition MetaChecked :: "bool \<Rightarrow> Store \<Rightarrow> string \<Rightarrow> string option" where
  "MetaChecked ok st key =
     (if ok then Some (case st_meta st key of None \<Rightarrow> [] | Some v \<Rightarrow> v) else None)"

definition Meta :: "bool \<Rightarrow> Store \<Rightarrow> string \<Rightarrow> string" where
  "Meta ok st key = (case MetaChecked ok st key of None \<Rightarrow> [] | Some v \<Rightarrow> v)"

section \<open>Usage ledger\<close>

definition clampLedger :: "int \<Rightarrow> int" where
  "clampLedger v = (if v < 0 then 0 else if v > MaxLedgerValue then MaxLedgerValue else v)"

text \<open>The two statements of the batch: the saturating upsert and the sample row. The column
  holds an exact sum here; \<open>ledger_inv\<close> below keeps every sum inside \<open>int64\<close>, so SQLite's
  change of an overflowing sum to a floating-point value is never reached.\<close>

definition ledger_upsert :: "int \<Rightarrow> int \<Rightarrow> int \<Rightarrow> int \<Rightarrow> Store \<Rightarrow> Store" where
  "ledger_upsert pathID period b pk st =
     st\<lparr>st_ledger := (st_ledger st)((pathID, period) \<mapsto>
        (case st_ledger st (pathID, period) of
           None \<Rightarrow> (b, pk)
         | Some (bytes, packets) \<Rightarrow>
             (max (min (bytes + b) MaxLedgerValue) 0, max (min (packets + pk) MaxLedgerValue) 0)))\<rparr>"

definition insert_sample :: "int \<Rightarrow> int \<Rightarrow> int \<Rightarrow> int \<Rightarrow> Store \<Rightarrow> Store" where
  "insert_sample ts pathID b pk st =
     st\<lparr>st_usage := st_usage st @ [\<lparr>ur_ts = ts, ur_path = pathID, ur_bytes = b, ur_packets = pk\<rparr>]\<rparr>"

text \<open>The loop of the transaction; \<open>ok i\<close> says whether the \<open>i\<close>th call of the transaction
  succeeds (0 is \<open>Begin\<close>, 1 and 2 the two \<open>Prepare\<close>s).\<close>

fun tx_entries :: "(nat \<Rightarrow> bool) \<Rightarrow> nat \<Rightarrow> int \<Rightarrow> UsageEntry list \<Rightarrow> Store \<Rightarrow> Store option" where
  "tx_entries ok i pathID [] st = Some st"
| "tx_entries ok i pathID (e # es) st =
     (let b = clampLedger (ue_Bytes e); pk = clampLedger (ue_Packets e)
      in if \<not> ok i then None
         else let st = ledger_upsert pathID (to_unix (ue_PeriodStart e)) b pk st
              in if \<not> ok (i + 1) then None
                 else tx_entries ok (i + 2) pathID es (insert_sample (to_unix (ue_At e)) pathID b pk st))"

definition AddUsageBatch ::
    "(nat \<Rightarrow> bool) \<Rightarrow> exec \<Rightarrow> int \<Rightarrow> UsageEntry list \<Rightarrow> string \<Rightarrow> string \<Rightarrow> Store \<Rightarrow> bool \<times> Store" where
  "AddUsageBatch ok x pathID entries metaKey metaValue st =
     (if entries = [] then (if metaKey = [] then (True, st) else SetMeta x metaKey metaValue st)
      else if \<not> (ok 0 \<and> ok 1 \<and> ok 2) then (False, st)
      else case tx_entries ok 3 pathID entries st of
        None \<Rightarrow> (False, st)
      | Some st1 \<Rightarrow>
          if metaKey \<noteq> [] \<and> \<not> ok (3 + 2 * length entries) then (False, st)
          else run_exec x (\<lambda>_. if metaKey = [] then st1 else put_meta metaKey metaValue st1) st)"

definition AddUsage ::
    "(nat \<Rightarrow> bool) \<Rightarrow> exec \<Rightarrow> int \<Rightarrow> gotime \<Rightarrow> int \<Rightarrow> int \<Rightarrow> gotime \<Rightarrow> string \<Rightarrow> string \<Rightarrow> Store
     \<Rightarrow> bool \<times> Store" where
  "AddUsage ok x pathID periodStart bytes packets stamp metaKey metaValue =
     AddUsageBatch ok x pathID
       [\<lparr>ue_PeriodStart = periodStart, ue_At = stamp, ue_Bytes = bytes, ue_Packets = packets\<rparr>]
       metaKey metaValue"

definition Usage :: "bool \<Rightarrow> Store \<Rightarrow> int \<Rightarrow> gotime \<Rightarrow> int option" where
  "Usage ok st pathID periodStart =
     (if ok then Some (case st_ledger st (pathID, to_unix periodStart) of None \<Rightarrow> 0 | Some (b, _) \<Rightarrow> b)
      else None)"

definition UsagePackets :: "bool \<Rightarrow> Store \<Rightarrow> int \<Rightarrow> gotime \<Rightarrow> int option" where
  "UsagePackets ok st pathID periodStart =
     (if ok then Some (case st_ledger st (pathID, to_unix periodStart) of None \<Rightarrow> 0 | Some (_, p) \<Rightarrow> p)
      else None)"

section \<open>Path history, events and approvals\<close>

text \<open>One transaction for the rows of a tick; the first call is \<open>Begin\<close>, the second \<open>Prepare\<close>.\<close>

definition AddPathSamples ::
    "(nat \<Rightarrow> bool) \<Rightarrow> exec \<Rightarrow> gotime \<Rightarrow> PathSample list \<Rightarrow> Store \<Rightarrow> bool \<times> Store" where
  "AddPathSamples ok x stamp samples st =
     (if samples = [] then (True, st)
      else if \<not> list_all ok [0..<2 + length samples] then (False, st)
      else run_exec x (\<lambda>st. st\<lparr>st_paths := st_paths st @ map (Pair (to_unix stamp)) samples\<rparr>) st)"

definition st_AddEvent :: "exec \<Rightarrow> gotime \<Rightarrow> string \<Rightarrow> int \<Rightarrow> string \<Rightarrow> Store \<Rightarrow> bool \<times> Store" where
  "st_AddEvent x now kind pathID message st =
     run_exec x (\<lambda>st. st\<lparr>st_eventSeq := st_eventSeq st + 1,
        st_events := st_events st @ [\<lparr>ev_ID = st_eventSeq st + 1, ev_TS = to_unix now, ev_Kind = kind,
          ev_PathID = pathID, ev_Message = message\<rparr>]\<rparr>) st"

text \<open>\<open>ORDER BY id DESC LIMIT ?\<close>; a negative limit is no limit.\<close>

definition Events :: "bool \<Rightarrow> int \<Rightarrow> Store \<Rightarrow> Event list option" where
  "Events ok limit st =
     (if ok then Some (let rows = rev (sort_key ev_ID (st_events st))
                       in if limit < 0 then rows else take (nat limit) rows)
      else None)"

definition SetGrant :: "exec \<Rightarrow> Grant \<Rightarrow> Store \<Rightarrow> bool \<times> Store" where
  "SetGrant x g st = run_exec x (\<lambda>st. st\<lparr>st_grants := (st_grants st)(g_PathID g \<mapsto> g)\<rparr>) st"

definition ClearGrant :: "exec \<Rightarrow> int \<Rightarrow> Store \<Rightarrow> bool \<times> Store" where
  "ClearGrant x pathID st = run_exec x (\<lambda>st. st\<lparr>st_grants := (st_grants st)(pathID := None)\<rparr>) st"

definition Grants :: "bool \<Rightarrow> Store \<Rightarrow> (int \<rightharpoonup> Grant) option" where
  "Grants ok st = (if ok then Some (st_grants st) else None)"

section \<open>Users and sessions\<close>

definition pbkdf2Iterations :: nat where "pbkdf2Iterations = 600000"

text \<open>PBKDF2 with HMAC-SHA-256 for a key of one block: \<open>u\<close> is the last \<open>U\<close>, \<open>acc\<close> the exclusive
  or of all of them.\<close>

fun pbkdf2_loop :: "nat \<Rightarrow> bytes \<Rightarrow> bytes \<Rightarrow> bytes \<Rightarrow> bytes" where
  "pbkdf2_loop 0 password u acc = acc"
| "pbkdf2_loop (Suc n) password u acc =
     (let u = hmac_sha256 password u in pbkdf2_loop n password u (map2 (XOR) acc u))"

definition pbkdf2_Key :: "bytes \<Rightarrow> bytes \<Rightarrow> nat \<Rightarrow> bytes" where
  "pbkdf2_Key password salt iterations =
     (let u = hmac_sha256 password (salt @ be_bytes 4 (1 :: 32 word))
      in pbkdf2_loop (iterations - 1) password u u)"

definition derive :: "string \<Rightarrow> bytes \<Rightarrow> bytes" where
  "derive password salt = pbkdf2_Key (bytes_of password) salt pbkdf2Iterations"

text \<open>\<open>rnd\<close> is what the random source gives for the salt or the token, \<open>None\<close> its failure.\<close>

definition CreateUser :: "bytes option \<Rightarrow> exec \<Rightarrow> string \<Rightarrow> string \<Rightarrow> Store \<Rightarrow> bool \<times> Store" where
  "CreateUser rnd x username password st =
     (case rnd of None \<Rightarrow> (False, st)
      | Some salt \<Rightarrow>
          run_exec x (\<lambda>st. st\<lparr>st_users := (st_users st)(username \<mapsto>
             (hexEncode salt, hexEncode (derive password salt)))\<rparr>) st)"

definition HasUsers :: "bool \<Rightarrow> Store \<Rightarrow> bool option" where
  "HasUsers ok st = (if ok then Some (dom (st_users st) \<noteq> {}) else None)"

definition credentials :: "bool \<Rightarrow> Store \<Rightarrow> string \<Rightarrow> (bytes \<times> bytes) option" where
  "credentials ok st username =
     (if \<not> ok then None
      else case st_users st username of None \<Rightarrow> None
      | Some (saltHex, hashHex) \<Rightarrow>
          (case hexDecode saltHex of None \<Rightarrow> None
           | Some salt \<Rightarrow> (case hexDecode hashHex of None \<Rightarrow> None | Some hash \<Rightarrow> Some (salt, hash))))"

text \<open>The salts \<open>derive\<close> is run on, in order, come back with the answer: the cost of a check.\<close>

definition CheckPassword :: "bool \<Rightarrow> Store \<Rightarrow> string \<Rightarrow> string \<Rightarrow> bool \<times> bytes list" where
  "CheckPassword ok st username password =
     (let cr = credentials ok st username;
          salt = (case cr of None \<Rightarrow> bytes_of ''no-such-account-'' | Some (s, _) \<Rightarrow> s);
          got = derive password salt
      in ((case cr of None \<Rightarrow> False | Some (_, want) \<Rightarrow> got = want), [salt]))"

definition st_NewSession ::
    "bytes option \<Rightarrow> exec \<Rightarrow> gotime \<Rightarrow> string \<Rightarrow> duration \<Rightarrow> Store \<Rightarrow> string option \<times> Store" where
  "st_NewSession rnd x now username ttl st =
     (case rnd of None \<Rightarrow> (None, st)
      | Some b \<Rightarrow>
          let token = hexEncode b
          in if st_sessions st token \<noteq> None then (None, st)
             else case run_exec x (\<lambda>st. st\<lparr>st_sessions := (st_sessions st)(token \<mapsto>
                    (username, to_unix (time_Add now ttl)))\<rparr>) st of
               (True, st') \<Rightarrow> (Some token, st') | (False, st') \<Rightarrow> (None, st'))"

definition DeleteSession :: "exec \<Rightarrow> string \<Rightarrow> Store \<Rightarrow> bool \<times> Store" where
  "DeleteSession x token st = run_exec x (\<lambda>st. st\<lparr>st_sessions := (st_sessions st)(token := None)\<rparr>) st"

definition DeleteSessionsFor :: "exec \<Rightarrow> string \<Rightarrow> Store \<Rightarrow> bool \<times> Store" where
  "DeleteSessionsFor x username st =
     run_exec x (\<lambda>st. st\<lparr>st_sessions := (\<lambda>t. case st_sessions st t of
        Some (u, ex) \<Rightarrow> if u = username then None else Some (u, ex) | None \<Rightarrow> None)\<rparr>) st"

datatype session_error = ErrNotFound | ErrSessionRead

definition Session_of :: "bool \<Rightarrow> exec \<Rightarrow> gotime \<Rightarrow> string \<Rightarrow> Store \<Rightarrow> (session_error + string) \<times> Store" where
  "Session_of ok x now token st =
     (if \<not> ok then (Inl ErrSessionRead, st)
      else case st_sessions st token of
        None \<Rightarrow> (Inl ErrNotFound, st)
      | Some (username, expires) \<Rightarrow>
          if to_unix now > expires then (Inl ErrNotFound, snd (DeleteSession x token st))
          else (Inr username, st))"

section \<open>Retention\<close>

text \<open>\<open>Time.AddDate\<close> in the process's location: the civil date is moved and normalised, the time
  of day kept, by the two-step offset search of \<open>time.Date\<close>.\<close>

definition AddDate :: "Location \<Rightarrow> gotime \<Rightarrow> int \<Rightarrow> int \<Rightarrow> int \<Rightarrow> gotime" where
  "AddDate loc t years months days =
     (let n = local_day loc t;
          secs = (to_unix t + zone_offset loc (to_unix t) + epoch_secs) mod 86400;
          nanos = (t - unix_epoch) mod 1000000000;
          unix = Date_days (year_of n + years) (month_of n + months) (day_of n + days) * 86400 + secs - epoch_secs;
          (offset, start, end) = zone_lookup loc unix;
          utc = unix - offset;
          offset = (if offset \<noteq> 0 \<and> (utc < start \<or> end \<le> utc) then zone_offset loc utc else offset)
      in time_Unix (unix - offset) + nanos)"

text \<open>The four deletes, each its own statement; the first error ends the pass.\<close>

definition prune_steps :: "Location \<Rightarrow> gotime \<Rightarrow> (Store \<Rightarrow> Store) list" where
  "prune_steps loc now =
     [\<lambda>st. st\<lparr>st_paths := filter (\<lambda>r. \<not> fst r < to_unix (AddDate loc now 0 0 (-30))) (st_paths st)\<rparr>,
      \<lambda>st. st\<lparr>st_usage := filter (\<lambda>r. \<not> ur_ts r < to_unix (AddDate loc now 0 (-13) 0)) (st_usage st)\<rparr>,
      \<lambda>st. st\<lparr>st_events := filter (\<lambda>r. \<not> ev_TS r < to_unix (AddDate loc now 0 0 (-90))) (st_events st)\<rparr>,
      \<lambda>st. st\<lparr>st_sessions := (\<lambda>t. case st_sessions st t of
         Some (u, ex) \<Rightarrow> if ex < to_unix now then None else Some (u, ex) | None \<Rightarrow> None)\<rparr>]"

fun prune_run :: "exec list \<Rightarrow> (Store \<Rightarrow> Store) list \<Rightarrow> Store \<Rightarrow> bool \<times> Store" where
  "prune_run (x # xs) (f # fs) st =
     (case run_exec x f st of (True, st') \<Rightarrow> prune_run xs fs st' | (False, st') \<Rightarrow> (False, st'))"
| "prune_run _ _ st = (True, st)"

definition Prune :: "Location \<Rightarrow> gotime \<Rightarrow> exec list \<Rightarrow> Store \<Rightarrow> bool \<times> Store" where
  "Prune loc now xs st = prune_run xs (prune_steps loc now) st"

section \<open>The ledger\<close>

text \<open>What one entry of a committed batch does to the tables.\<close>

definition apply_entry :: "int \<Rightarrow> Store \<Rightarrow> UsageEntry \<Rightarrow> Store" where
  "apply_entry pathID st e =
     insert_sample (to_unix (ue_At e)) pathID (clampLedger (ue_Bytes e)) (clampLedger (ue_Packets e))
       (ledger_upsert pathID (to_unix (ue_PeriodStart e)) (clampLedger (ue_Bytes e)) (clampLedger (ue_Packets e)) st)"

lemmas store_steps [step_defs] = apply_entry_def insert_sample_def ledger_upsert_def put_meta_def

lemma tx_entries_foldl:
  "tx_entries ok i pathID es st = Some st' \<Longrightarrow> st' = foldl (apply_entry pathID) st es"
  by (induction es arbitrary: i st) (auto simp: Let_def apply_entry_def split: if_splits)

lemma tx_entries_ok: "(\<And>i. ok i) \<Longrightarrow> tx_entries ok i pathID es st = Some (foldl (apply_entry pathID) st es)"
  by (induction es arbitrary: i st) (auto simp: Let_def apply_entry_def)

lemma run_exec_cases: "run_exec x f st = (b, st') \<Longrightarrow> (\<not> b \<and> st' = st) \<or> st' = f st"
  by (cases x) auto

lemma run_exec_True: "run_exec x f st = (True, st') \<Longrightarrow> st' = f st"
  by (cases x) auto

lemma AddUsageBatch_outcome:
  assumes "AddUsageBatch ok x pathID es key val st = (b, st')" and "key \<noteq> []"
  shows "(\<not> b \<and> st' = st) \<or> st' = put_meta key val (foldl (apply_entry pathID) st es)"
proof (cases "es = []")
  case True
  then show ?thesis using assms run_exec_cases [of x "put_meta key val" st b st']
    by (auto simp: AddUsageBatch_def SetMeta_def)
next
  case False
  then show ?thesis using assms
    by (cases x) (auto simp: AddUsageBatch_def split: if_splits option.splits dest!: tx_entries_foldl)
qed

lemma AddUsageBatch_commits:
  assumes "\<And>i. ok i" and "key \<noteq> []"
  shows "AddUsageBatch ok Applied pathID es key val st = (True, put_meta key val (foldl (apply_entry pathID) st es))"
  using assms
  by (cases "es = []") (simp_all add: AddUsageBatch_def SetMeta_def tx_entries_ok del: tx_entries.simps)

text \<open>Every figure of the ledger and of the sample rows stays between 0 and \<open>2\<^sup>6\<^sup>0\<close>, so the sum
  of a stored figure and a new one is an \<open>int64\<close> and the column stays an integer.\<close>

definition ledger_inv :: "Store \<Rightarrow> bool" where
  "ledger_inv st \<longleftrightarrow>
     (\<forall>k b p. st_ledger st k = Some (b, p) \<longrightarrow>
        0 \<le> b \<and> b \<le> MaxLedgerValue \<and> 0 \<le> p \<and> p \<le> MaxLedgerValue) \<and>
     (\<forall>r \<in> set (st_usage st). 0 \<le> ur_bytes r \<and> ur_bytes r \<le> MaxLedgerValue \<and>
        0 \<le> ur_packets r \<and> ur_packets r \<le> MaxLedgerValue)"

lemma clampLedger_range: "0 \<le> clampLedger v" "clampLedger v \<le> MaxLedgerValue"
  by (simp_all add: clampLedger_def MaxLedgerValue_def)

lemma clampLedger_id: "0 \<le> v \<Longrightarrow> v \<le> MaxLedgerValue \<Longrightarrow> clampLedger v = v"
  by (simp add: clampLedger_def)

lemma MaxLedger_pos: "0 \<le> MaxLedgerValue"
  by (simp add: MaxLedgerValue_def)

lemma apply_entry_inv: "ledger_inv st \<Longrightarrow> ledger_inv (apply_entry pathID st e)"
  unfolding ledger_inv_def
  by (auto simp: step_defs clampLedger_range MaxLedger_pos split: option.splits if_splits)

lemma put_meta_inv: "ledger_inv st \<Longrightarrow> ledger_inv (put_meta k v st)"
  by (simp add: ledger_inv_def put_meta_def)

interpretation ledger_runs: invariant_run "apply_entry pathID" ledger_inv
  for pathID by unfold_locales (rule apply_entry_inv)

lemma ledger_sum_fits:
  assumes "ledger_inv st" and "st_ledger st k = Some (b, p)"
  shows "in_int64 (b + clampLedger v) \<and> in_int64 (p + clampLedger w)"
proof -
  have "0 \<le> b \<and> b \<le> MaxLedgerValue \<and> 0 \<le> p \<and> p \<le> MaxLedgerValue"
    using assms unfolding ledger_inv_def by blast
  with clampLedger_range [of v] clampLedger_range [of w] show ?thesis
    by (simp add: int64_bounds MaxLedgerValue_def)
qed

lemma ledger_inv_empty: "ledger_inv empty_store"
  by (simp add: ledger_inv_def empty_store_def)

text \<open>The bytes of a path and period after a batch: the old figure and the new ones, capped.\<close>

definition ledger_bytes :: "Store \<Rightarrow> int \<Rightarrow> int \<Rightarrow> int" where
  "ledger_bytes st pathID period = (case st_ledger st (pathID, period) of None \<Rightarrow> 0 | Some (b, _) \<Rightarrow> b)"

definition entry_sum :: "int \<Rightarrow> UsageEntry list \<Rightarrow> int" where
  "entry_sum period es = (\<Sum>e\<leftarrow>es. if to_unix (ue_PeriodStart e) = period then clampLedger (ue_Bytes e) else 0)"

lemma entry_sum_nonneg: "0 \<le> entry_sum period es"
  by (induction es) (auto simp: entry_sum_def clampLedger_range)

lemma ledger_bytes_range: "ledger_inv st \<Longrightarrow> 0 \<le> ledger_bytes st i k \<and> ledger_bytes st i k \<le> MaxLedgerValue"
  unfolding ledger_inv_def ledger_bytes_def by (fastforce simp: MaxLedger_pos split: option.split)

lemma ledger_bytes_apply_entry:
  assumes "ledger_inv st"
  shows "ledger_bytes (apply_entry pathID st e) pathID period =
    min MaxLedgerValue (ledger_bytes st pathID period +
      (if to_unix (ue_PeriodStart e) = period then clampLedger (ue_Bytes e) else 0))"
  using ledger_bytes_range [OF assms, of pathID period] clampLedger_range [of "ue_Bytes e"]
  by (auto simp: ledger_bytes_def step_defs min_def max_def split: option.splits)

lemma ledger_bytes_foldl:
  assumes "ledger_inv st"
  shows "ledger_bytes (foldl (apply_entry pathID) st es) pathID period =
    min MaxLedgerValue (ledger_bytes st pathID period + entry_sum period es)"
  using assms
proof (induction es arbitrary: st)
  case Nil
  then show ?case using ledger_bytes_range [of st pathID period] by (simp add: entry_sum_def)
next
  case (Cons e es)
  have "ledger_inv (apply_entry pathID st e)" by (rule apply_entry_inv [OF Cons.prems])
  from Cons.IH [OF this] show ?case
    using entry_sum_nonneg [of period es]
    by (simp add: ledger_bytes_apply_entry [OF Cons.prems] entry_sum_def)
qed

lemma ledger_bytes_other:
  "i \<noteq> pathID \<Longrightarrow> ledger_bytes (foldl (apply_entry pathID) st es) i period = ledger_bytes st i period"
  by (induction es arbitrary: st) (auto simp: ledger_bytes_def step_defs)

lemma put_meta_ledger [simp]: "ledger_bytes (put_meta k v st) = ledger_bytes st"
  by (simp add: ledger_bytes_def put_meta_def fun_eq_iff)

text \<open>C36. The ledger and the watermark move together or not at all: whatever call of the
  transaction fails, and even if the commit lands and still reports an error, either nothing
  changed or the watermark is recorded with every figure of the batch added to its own
  period, capped at \<open>2\<^sup>6\<^sup>0\<close>, and no other path touched; no error means the second.\<close>

theorem AddUsageBatch_all_or_nothing:
  assumes "ledger_inv st" and "key \<noteq> []" and "AddUsageBatch ok x i es key val st = (b, st')"
  shows "ledger_inv st' \<and>
    (\<not> b \<and> st' = st \<or>
     MetaChecked True st' key = Some val \<and>
     (\<forall>period. ledger_bytes st' i period =
        min MaxLedgerValue (ledger_bytes st i period + entry_sum period es)) \<and>
     (\<forall>j period. j \<noteq> i \<longrightarrow> ledger_bytes st' j period = ledger_bytes st j period))"
  using AddUsageBatch_outcome [OF assms(3,2)]
proof
  assume "\<not> b \<and> st' = st"
  with assms(1) show ?thesis by simp
next
  assume st': "st' = put_meta key val (foldl (apply_entry i) st es)"
  have "ledger_inv st'" unfolding st' by (intro put_meta_inv ledger_runs.run_inv assms(1))
  moreover have "MetaChecked True st' key = Some val"
    by (simp add: st' MetaChecked_def put_meta_def)
  ultimately show ?thesis
    by (simp add: st' ledger_bytes_foldl [OF assms(1)] ledger_bytes_other)
qed

theorem AddUsageBatch_all_or_nothing_witness:
  "MetaChecked True (snd (AddUsageBatch (\<lambda>_. True) Applied 3
      [\<lparr>ue_PeriodStart = unix_epoch, ue_At = unix_epoch, ue_Bytes = 7, ue_Packets = 1\<rparr>] ''k'' ''9'' empty_store)) ''k''
     = Some ''9'' \<and>
   ledger_bytes (snd (AddUsageBatch (\<lambda>_. True) Applied 3
      [\<lparr>ue_PeriodStart = unix_epoch, ue_At = unix_epoch, ue_Bytes = 7, ue_Packets = 1\<rparr>] ''k'' ''9'' empty_store)) 3 0 = 7"
proof -
  let ?e = "\<lparr>ue_PeriodStart = unix_epoch, ue_At = unix_epoch, ue_Bytes = 7, ue_Packets = 1\<rparr>"
  let ?r = "AddUsageBatch (\<lambda>_. True) Applied 3 [?e] ''k'' ''9'' empty_store"
  have b: "fst ?r" by (simp add: AddUsageBatch_commits)
  have t: "to_unix unix_epoch = 0" by (simp add: to_unix_def)
  have z: "ledger_bytes empty_store 3 0 = 0" by (simp add: ledger_bytes_def empty_store_def)
  have e: "entry_sum 0 [?e] = 7" by (simp add: entry_sum_def t clampLedger_def MaxLedgerValue_def)
  show ?thesis
    using AddUsageBatch_all_or_nothing [OF ledger_inv_empty _ surjective_pairing, of "''k''" "\<lambda>_. True" Applied 3 "[?e]" "''9''"] b
    by (auto simp: z e MaxLedgerValue_def)
qed

section \<open>Accounts\<close>

lemma hex_val_digits: "n < 16 \<Longrightarrow> hex_val (hexDigits ! n) = Some n"
proof -
  assume "n < 16"
  then have "n \<in> set [0..<16]" by simp
  moreover have "list_all (\<lambda>n. hex_val (hexDigits ! n) = Some n) [0..<16]" by code_simp
  ultimately show ?thesis unfolding list_all_iff by blast
qed

lemma unat_high_nibble: "unat (drop_bit 4 (c :: byte)) = unat c div 16"
  using unat_drop_bit_eq [of 4 c] by (simp add: drop_bit_eq_div [where 'a = nat])

lemma unat_low_nibble: "unat ((c :: byte) AND 15) = unat c mod 16"
proof -
  have "unat (c AND 15) = unat c AND 15" by (simp add: unsigned_and_eq)
  also have "\<dots> = take_bit 4 (unat c)" by (simp add: take_bit_eq_mask mask_eq_exp_minus_1)
  finally show ?thesis by (simp add: take_bit_eq_mod)
qed

lemma nibble_split: "16 * drop_bit 4 (c :: byte) + (c AND 15) = c"
proof -
  have "16 * drop_bit 4 c + (c AND 15) = of_nat (16 * unat (drop_bit 4 c) + unat (c AND 15))" by simp
  also have "\<dots> = c" unfolding unat_high_nibble unat_low_nibble by (simp only: mult_div_mod_eq) simp
  finally show ?thesis .
qed

lemma hexDecode_hexEncode [simp]: "hexDecode (hexEncode bs) = Some bs"
proof (induction bs)
  case Nil
  then show ?case by (simp add: hexEncode_def)
next
  case (Cons c bs)
  have "unat (drop_bit 4 c) < 16" "unat (c AND 15) < 16"
    using unsigned_less [of c, where ?'a = nat] word_and_le1 [of c 15]
    by (simp_all only: unat_high_nibble word_le_nat_alt) simp_all
  with Cons show ?case by (simp add: hexEncode_def hex_val_digits nibble_split)
qed

text \<open>Accounts: after an account is stored, its password check accepts exactly the passwords
  whose derived key is the stored one, every other account answers as before, and every check,
  of a missing account too, costs exactly one derivation.\<close>

theorem CheckPassword_spec:
  assumes "CreateUser (Some salt) x u p st = (True, st')"
  shows "(fst (CheckPassword True st' v q) \<longleftrightarrow>
      (if v = u then derive q salt = derive p salt else fst (CheckPassword True st v q))) \<and>
    length (snd (CheckPassword ok st' v q)) = 1"
proof -
  have "st' = st\<lparr>st_users := (st_users st)(u \<mapsto> (hexEncode salt, hexEncode (derive p salt)))\<rparr>"
    using run_exec_True assms unfolding CreateUser_def by fastforce
  then show ?thesis by (simp add: CheckPassword_def credentials_def Let_def)
qed

theorem CheckPassword_spec_witness:
  "fst (CheckPassword True (snd (CreateUser (Some [1]) Applied ''a'' ''pw'' empty_store)) ''a'' ''pw'') \<and>
   \<not> fst (CheckPassword True (snd (CreateUser (Some [1]) Applied ''a'' ''pw'' empty_store)) ''b'' ''pw'')"
proof -
  have c: "CreateUser (Some [1]) Applied ''a'' ''pw'' empty_store =
      (True, snd (CreateUser (Some [1]) Applied ''a'' ''pw'' empty_store))"
    by (simp add: CreateUser_def)
  have "\<not> fst (CheckPassword True empty_store ''b'' ''pw'')"
    by (simp add: CheckPassword_def credentials_def empty_store_def Let_def)
  then show ?thesis
    using CheckPassword_spec [OF c, of "''a''" "''pw''" True] CheckPassword_spec [OF c, of "''b''" "''pw''" True] by simp
qed

text \<open>Sessions: a token resolves to the account it was issued for until its expiry and not
  after; logging an account out ends every session of it and of no other account.\<close>

theorem sessions_revoked:
  assumes "DeleteSessionsFor x u st = (True, st')"
  shows "(\<forall>token y. fst (Session_of True y now token st') \<noteq> Inr u) \<and>
    (\<forall>token y v. v \<noteq> u \<longrightarrow>
       (fst (Session_of True y now token st') = Inr v \<longleftrightarrow> fst (Session_of True y now token st) = Inr v)) \<and>
    (\<forall>token y v. fst (Session_of True y now token st) = Inr v \<longleftrightarrow>
       (\<exists>ex. st_sessions st token = Some (v, ex) \<and> to_unix now \<le> ex))"
proof -
  have st': "st' = st\<lparr>st_sessions := (\<lambda>t. case st_sessions st t of
        Some (v, ex) \<Rightarrow> if v = u then None else Some (v, ex) | None \<Rightarrow> None)\<rparr>"
    using run_exec_True [OF assms [unfolded DeleteSessionsFor_def]] .
  show ?thesis by (auto simp: st' Session_of_def split: option.splits if_splits)
qed

theorem sessions_revoked_witness:
  "fst (Session_of True Applied 0 ''t''
     (snd (DeleteSessionsFor Applied ''a'' (empty_store\<lparr>st_sessions := [''t'' \<mapsto> (''a'', 5)]\<rparr>)))) \<noteq> Inr ''a''"
  using sessions_revoked [of Applied "''a''" "empty_store\<lparr>st_sessions := [''t'' \<mapsto> (''a'', 5)]\<rparr>"
      "snd (DeleteSessionsFor Applied ''a'' (empty_store\<lparr>st_sessions := [''t'' \<mapsto> (''a'', 5)]\<rparr>))" 0]
  by (simp add: DeleteSessionsFor_def)

end
