(* ===== verification/UsageLedger.thy ===== *)
theory UsageLedger
  imports Store Messages
begin

text \<open>
  The frontend's half of usage metering: the bounds on a reported delta, the per-path dedupe by
  sequence number and the commit of a frame (\<open>applyUsage\<close> and its helpers in
  \<open>engine/control.go\<close>, \<open>addUsageBatch\<close> in \<open>engine/engine.go\<close>), with the log throttles and the
  per-address connection limit of the control server.
\<close>

section \<open>Log throttles and the connection limit\<close>

definition throttleWindow :: duration where "throttleWindow = 30 * 1000000000"

record throttle =
  th_at :: gotime
  th_seen :: int

definition throttle_take :: "gotime \<Rightarrow> throttle \<Rightarrow> int \<times> throttle" where
  "throttle_take now t =
     (let t = t\<lparr>th_seen := th_seen t + 1\<rparr>
      in if time_Sub now (th_at t) < throttleWindow then (0, t)
         else (th_seen t, t\<lparr>th_at := now, th_seen := 0\<rparr>))"

definition throttle_flush :: "gotime \<Rightarrow> throttle \<Rightarrow> int \<times> throttle" where
  "throttle_flush now t =
     (if th_seen t = 0 \<or> time_Sub now (th_at t) < throttleWindow then (0, t)
      else (th_seen t, t\<lparr>th_at := now, th_seen := 0\<rparr>))"

definition maxControlConns :: nat where "maxControlConns = 64"
definition maxPerSource :: int where "maxPerSource = 4"

record ControlServer =
  cs_perSource :: "string \<rightharpoonup> int"
  cs_rejected :: throttle
  cs_refused :: throttle
  cs_oversubbed :: throttle
  cs_notBackend :: throttle
  cs_unknownIP :: throttle
  cs_wrongIP :: throttle
  cs_clamped :: throttle
  cs_badPath :: throttle
  cs_badSeq :: throttle
  cs_oversized :: throttle
  cs_badFrame :: throttle
  cs_tampered :: throttle

definition no_throttle :: throttle where
  "no_throttle = \<lparr>th_at = 0, th_seen = 0\<rparr>"

definition NewControlServer :: ControlServer where
  "NewControlServer = \<lparr>cs_perSource = Map.empty, cs_rejected = no_throttle, cs_refused = no_throttle,
     cs_oversubbed = no_throttle, cs_notBackend = no_throttle, cs_unknownIP = no_throttle,
     cs_wrongIP = no_throttle, cs_clamped = no_throttle, cs_badPath = no_throttle, cs_badSeq = no_throttle,
     cs_oversized = no_throttle, cs_badFrame = no_throttle, cs_tampered = no_throttle\<rparr>"

text \<open>An absent entry of the Go map reads as 0.\<close>

definition perSource :: "ControlServer \<Rightarrow> string \<Rightarrow> int" where
  "perSource cs ip = (case cs_perSource cs ip of None \<Rightarrow> 0 | Some n \<Rightarrow> n)"

definition claimSource :: "string \<Rightarrow> ControlServer \<Rightarrow> bool \<times> ControlServer" where
  "claimSource ip cs =
     (if perSource cs ip \<ge> maxPerSource then (False, cs)
      else (True, cs\<lparr>cs_perSource := (cs_perSource cs)(ip \<mapsto> perSource cs ip + 1)\<rparr>))"

definition releaseSource :: "string \<Rightarrow> ControlServer \<Rightarrow> ControlServer" where
  "releaseSource ip cs =
     (if perSource cs ip \<le> 1 then cs\<lparr>cs_perSource := (cs_perSource cs)(ip := None)\<rparr>
      else cs\<lparr>cs_perSource := (cs_perSource cs)(ip \<mapsto> perSource cs ip - 1)\<rparr>)"

section \<open>Bounds of a delta\<close>

definition maxDeltaBytes :: int where "maxDeltaBytes = 2 ^ 44"
definition maxDeltaPackets :: int where "maxDeltaPackets = 2 ^ 40"
definition maxDeltaSequence :: uint64 where "maxDeltaSequence = 2 ^ 40"
definition maxSequenceJump :: uint64 where "maxSequenceJump = 2 ^ 27"
definition maxDeltaSkew :: duration where "maxDeltaSkew = 3600 * 1000000000"
definition maxDeltaAge :: duration where "maxDeltaAge = 7 * 24 * 3600 * 1000000000"
definition maxDeltaPathID :: int where "maxDeltaPathID = 100"
definition maxDeltasPerFrame :: nat where "maxDeltasPerFrame = 1000"

datatype stamp_reason = StampFine | StampFuture | StampPast
datatype count_reason = NegativeBytes | ImplausibleBytes | NegativePackets | ImplausiblePackets

definition clampStamp :: "int \<Rightarrow> gotime \<Rightarrow> int \<times> stamp_reason" where
  "clampStamp atUnix now =
     (if atUnix > to_unix (time_Add now maxDeltaSkew) then (to_unix now, StampFuture)
      else if atUnix < to_unix (time_Add now (- maxDeltaAge)) then (to_unix now, StampPast)
      else (atUnix, StampFine))"

definition clampCounts :: "int \<Rightarrow> int \<Rightarrow> int \<times> int \<times> count_reason list" where
  "clampCounts bytes packets =
     (let (bytes, why) = (if bytes < 0 then (0, [NegativeBytes])
                          else if bytes > maxDeltaBytes then (maxDeltaBytes, [ImplausibleBytes])
                          else (bytes, []))
      in if packets < 0 then (bytes, 0, why @ [NegativePackets])
         else if packets > maxDeltaPackets then (bytes, maxDeltaPackets, why @ [ImplausiblePackets])
         else (bytes, packets, why))"

text \<open>The delta and the server with its throttle; every clock read of a frame is the frame's \<open>now\<close>.\<close>

definition checkDelta :: "gotime \<Rightarrow> UsageDelta \<Rightarrow> ControlServer \<Rightarrow> UsageDelta \<times> ControlServer" where
  "checkDelta now d cs =
     (let (bytes, packets, why) = clampCounts (ud_Bytes d) (ud_Packets d);
          out = d\<lparr>ud_Bytes := bytes, ud_Packets := packets\<rparr>;
          (st, reason) = clampStamp (ud_AtUnix out) now;
          out = (if reason \<noteq> StampFine then out\<lparr>ud_AtUnix := st\<rparr> else out)
      in if why = [] \<and> reason = StampFine then (out, cs)
         else (out, cs\<lparr>cs_clamped := snd (throttle_take now (cs_clamped cs))\<rparr>))"

section \<open>Recording a path's batch\<close>

record usageSample =
  us_Bytes :: int
  us_Packets :: int
  us_At :: gotime

definition usage_entry :: "(string \<Rightarrow> Location option) \<Rightarrow> PathConfig \<Rightarrow> gotime \<Rightarrow> usageSample \<Rightarrow> UsageEntry" where
  "usage_entry tz p now s =
     (let (bytes, packets, _) = clampCounts (us_Bytes s) (us_Packets s);
          (st, _) = clampStamp (to_unix (us_At s)) now;
          (start, _) = PeriodBoundsIn (q_ResetDay (p_Quota p)) (Some (Location_of tz (p_Quota p))) (time_Unix st)
      in \<lparr>ue_PeriodStart = start, ue_At = time_Unix st, ue_Bytes = Metered bytes packets (p_Quota p),
          ue_Packets = packets\<rparr>)"

text \<open>What the database does with the transaction of a path, and the clock when it runs.\<close>

type_synonym commit_fate = "gotime \<times> (nat \<Rightarrow> bool) \<times> exec"

definition addUsageBatch ::
    "(string \<Rightarrow> Location option) \<Rightarrow> Config \<Rightarrow> commit_fate \<Rightarrow> int \<Rightarrow> usageSample list \<Rightarrow> string \<Rightarrow> string
     \<Rightarrow> Store \<Rightarrow> bool \<times> Store" where
  "addUsageBatch tz cfg fate pathID samples seqKey seqVal st =
     (let (now, ok, x) = fate
      in case PathByID cfg pathID of
           None \<Rightarrow> SetMeta x seqKey seqVal st
         | Some p \<Rightarrow> if \<not> p_Metered p then SetMeta x seqKey seqVal st
                     else AddUsageBatch ok x pathID (map (usage_entry tz p now) samples) seqKey seqVal st)"

section \<open>Applying a frame\<close>

record pathBatch =
  ub_key :: string
  ub_base :: uint64
  ub_seen :: uint64
  ub_samples :: "usageSample list"

record usage_frame =
  uf_batches :: "int \<rightharpoonup> pathBatch"
  uf_order :: "int list"
  uf_unread :: "int list"
  uf_ack :: UsageAck
  uf_cs :: ControlServer

definition usage_key :: "int \<Rightarrow> string" where
  "usage_key i = ''usage_seq:'' @ Itoa i"

text \<open>The watermark of a path: an absent row is 0, a row that does not parse or cannot be read is
  an error.\<close>

definition read_watermark :: "(string \<Rightarrow> bool) \<Rightarrow> Store \<Rightarrow> int \<Rightarrow> uint64 option" where
  "read_watermark rok st i =
     (case MetaChecked (rok (usage_key i)) st (usage_key i) of
        None \<Rightarrow> None
      | Some raw \<Rightarrow> if raw = [] then Some 0 else ParseUint raw)"

definition seed_batch :: "(string \<Rightarrow> bool) \<Rightarrow> Store \<Rightarrow> int \<Rightarrow> usage_frame \<Rightarrow> usage_frame" where
  "seed_batch rok st i uf =
     (case read_watermark rok st i of
        None \<Rightarrow> uf\<lparr>uf_unread := i # uf_unread uf\<rparr>
      | Some w \<Rightarrow>
          uf\<lparr>uf_batches := (uf_batches uf)(i \<mapsto>
               \<lparr>ub_key = usage_key i, ub_base = w, ub_seen = w, ub_samples = []\<rparr>),
             uf_order := uf_order uf @ [i], uf_ack := (uf_ack uf)(i \<mapsto> w)\<rparr>)"

definition count_badPath :: "gotime \<Rightarrow> ControlServer \<Rightarrow> ControlServer" where
  "count_badPath now cs = cs\<lparr>cs_badPath := snd (throttle_take now (cs_badPath cs))\<rparr>"

definition count_badSeq :: "gotime \<Rightarrow> ControlServer \<Rightarrow> ControlServer" where
  "count_badSeq now cs = cs\<lparr>cs_badSeq := snd (throttle_take now (cs_badSeq cs))\<rparr>"

definition usage_delta ::
    "Config \<Rightarrow> (string \<Rightarrow> bool) \<Rightarrow> Store \<Rightarrow> gotime \<Rightarrow> usage_frame \<Rightarrow> UsageDelta \<Rightarrow> usage_frame" where
  "usage_delta cfg rok st now uf d =
     (let i = ud_PathID d
      in if \<not> HasPath cfg i \<and> (i \<le> 0 \<or> i \<ge> maxDeltaPathID)
         then uf\<lparr>uf_cs := count_badPath now (uf_cs uf)\<rparr>
         else if ud_Sequence d > maxDeltaSequence
         then uf\<lparr>uf_cs := count_badSeq now (uf_cs uf)\<rparr>
         else if i \<in> set (uf_unread uf) then uf
         else let uf = (if uf_batches uf i = None then seed_batch rok st i uf else uf)
              in case uf_batches uf i of
                   None \<Rightarrow> uf
                 | Some b \<Rightarrow>
                     if ud_Sequence d \<le> ub_seen b then uf
                     else if ud_Sequence d - ub_base b > maxSequenceJump
                     then uf\<lparr>uf_cs := count_badSeq now (uf_cs uf)\<rparr>
                     else let (d, cs) = checkDelta now d (uf_cs uf);
                              b = b\<lparr>ub_seen := ud_Sequence d, ub_samples := ub_samples b @
                                [\<lparr>us_Bytes = ud_Bytes d, us_Packets = ud_Packets d, us_At = time_Unix (ud_AtUnix d)\<rparr>]\<rparr>
                          in uf\<lparr>uf_cs := cs, uf_batches := (uf_batches uf)(i \<mapsto> b)\<rparr>)"

definition commit_path ::
    "(string \<Rightarrow> Location option) \<Rightarrow> Config \<Rightarrow> (int \<Rightarrow> commit_fate) \<Rightarrow> (int \<rightharpoonup> pathBatch)
     \<Rightarrow> Store \<times> UsageAck \<Rightarrow> int \<Rightarrow> Store \<times> UsageAck" where
  "commit_path tz cfg fate batches sa i =
     (let (st, ack) = sa
      in case batches i of
           None \<Rightarrow> (st, ack)
         | Some b \<Rightarrow>
             if ub_samples b = [] then (st, ack)
             else case addUsageBatch tz cfg (fate i) i (ub_samples b) (ub_key b) (FormatUint (ub_seen b)) st of
                    (True, st') \<Rightarrow> (st', ack(i \<mapsto> ub_seen b))
                  | (False, st') \<Rightarrow> (st', ack))"

definition empty_frame :: "ControlServer \<Rightarrow> usage_frame" where
  "empty_frame cs = \<lparr>uf_batches = Map.empty, uf_order = [], uf_unread = [], uf_ack = Map.empty, uf_cs = cs\<rparr>"

definition scan_frame ::
    "Config \<Rightarrow> (string \<Rightarrow> bool) \<Rightarrow> gotime \<Rightarrow> UsageMsg \<Rightarrow> ControlServer \<Rightarrow> Store \<Rightarrow> usage_frame" where
  "scan_frame cfg rok now u cs st =
     (let cs = (if length u > maxDeltasPerFrame
                then cs\<lparr>cs_oversized := snd (throttle_take now (cs_oversized cs))\<rparr> else cs);
          deltas = (if length u > maxDeltasPerFrame then take maxDeltasPerFrame u else u)
      in foldl (usage_delta cfg rok st now) (empty_frame cs) deltas)"

definition applyUsage ::
    "(string \<Rightarrow> Location option) \<Rightarrow> Config \<Rightarrow> (string \<Rightarrow> bool) \<Rightarrow> (int \<Rightarrow> commit_fate) \<Rightarrow> gotime
     \<Rightarrow> UsageMsg \<Rightarrow> ControlServer \<Rightarrow> Store \<Rightarrow> UsageAck \<times> ControlServer \<times> Store" where
  "applyUsage tz cfg rok fate now u cs st =
     (let uf = scan_frame cfg rok now u cs st;
          (st', ack) = foldl (commit_path tz cfg fate (uf_batches uf)) (st, uf_ack uf) (uf_order uf)
      in (ack, uf_cs uf, st'))"

section \<open>The scan, path by path\<close>

text \<open>
  What a frame does to one path depends on that path's deltas and watermark alone: \<open>accept\<close> is
  the running watermark and the samples collected so far, over the watermark \<open>w\<close> the frame
  began with.
\<close>

definition sample_of :: "gotime \<Rightarrow> UsageDelta \<Rightarrow> usageSample" where
  "sample_of now d =
     (let (bytes, packets, _) = clampCounts (ud_Bytes d) (ud_Packets d)
      in \<lparr>us_Bytes = bytes, us_Packets = packets, us_At = time_Unix (fst (clampStamp (ud_AtUnix d) now))\<rparr>)"

definition accept :: "gotime \<Rightarrow> uint64 \<Rightarrow> uint64 \<times> usageSample list \<Rightarrow> UsageDelta \<Rightarrow> uint64 \<times> usageSample list" where
  "accept now w a d =
     (if ud_Sequence d > maxDeltaSequence \<or> ud_Sequence d \<le> fst a \<or> ud_Sequence d - w > maxSequenceJump then a
      else (ud_Sequence d, snd a @ [sample_of now d]))"

definition admissible :: "Config \<Rightarrow> int \<Rightarrow> bool" where
  "admissible cfg i \<longleftrightarrow> HasPath cfg i \<or> 0 < i \<and> i < maxDeltaPathID"

lemma checkDelta_sample:
  "checkDelta now d cs = (d', cs') \<Longrightarrow>
     ud_Sequence d' = ud_Sequence d \<and>
     \<lparr>us_Bytes = ud_Bytes d', us_Packets = ud_Packets d', us_At = time_Unix (ud_AtUnix d')\<rparr> = sample_of now d"
  by (auto simp: checkDelta_def sample_of_def clampStamp_def Let_def split: prod.splits if_splits)

text \<open>The state of path \<open>i\<close> after a scan of \<open>ds\<close>.\<close>

definition frame_wf :: "usage_frame \<Rightarrow> bool" where
  "frame_wf uf \<longleftrightarrow> distinct (uf_order uf) \<and> set (uf_order uf) = dom (uf_batches uf)"

definition scanned ::
    "Config \<Rightarrow> (string \<Rightarrow> bool) \<Rightarrow> Store \<Rightarrow> gotime \<Rightarrow> int \<Rightarrow> UsageDelta list \<Rightarrow> usage_frame \<Rightarrow> bool" where
  "scanned cfg rok st now i ds uf \<longleftrightarrow>
     (i \<in> set (uf_unread uf) \<longrightarrow> read_watermark rok st i = None) \<and>
     (case uf_batches uf i of
        None \<Rightarrow> uf_ack uf i = None \<and>
          (\<forall>w. admissible cfg i \<and> read_watermark rok st i = Some w \<longrightarrow>
             list_all (\<lambda>d. maxDeltaSequence < ud_Sequence d) (of_path i ds))
      | Some b \<Rightarrow> ub_key b = usage_key i \<and> admissible cfg i \<and> read_watermark rok st i = Some (ub_base b) \<and>
          uf_ack uf i = Some (ub_base b) \<and>
          (ub_seen b, ub_samples b) = foldl (accept now (ub_base b)) (ub_base b, []) (of_path i ds))"

lemma scanned_start: "scanned cfg rok st now i [] (empty_frame cs)" "frame_wf (empty_frame cs)"
  by (simp_all add: scanned_def frame_wf_def empty_frame_def)

lemma seed_batch_wf: "frame_wf uf \<Longrightarrow> uf_batches uf i = None \<Longrightarrow> frame_wf (seed_batch rok st i uf)"
  by (auto simp: frame_wf_def seed_batch_def split: option.split)

lemma usage_delta_wf:
  assumes "frame_wf uf"
  shows "frame_wf (usage_delta cfg rok st now uf d)"
proof -
  define uf' where "uf' = (if uf_batches uf (ud_PathID d) = None then seed_batch rok st (ud_PathID d) uf else uf)"
  have "frame_wf uf'" using assms seed_batch_wf by (simp add: uf'_def)
  then show ?thesis
    using assms unfolding usage_delta_def Let_def uf'_def [symmetric]
    by (auto simp: frame_wf_def split: option.split prod.split)
qed

text \<open>Deltas of another path leave path \<open>i\<close> alone.\<close>

lemma usage_delta_other:
  assumes "ud_PathID d \<noteq> i"
  shows "uf_batches (usage_delta cfg rok st now uf d) i = uf_batches uf i"
    and "uf_ack (usage_delta cfg rok st now uf d) i = uf_ack uf i"
    and "i \<in> set (uf_unread (usage_delta cfg rok st now uf d)) \<longleftrightarrow> i \<in> set (uf_unread uf)"
  using assms by (auto simp: usage_delta_def seed_batch_def Let_def split: option.splits prod.splits)

lemma scanned_step_other:
  "scanned cfg rok st now i ds uf \<Longrightarrow> ud_PathID d \<noteq> i \<Longrightarrow>
     scanned cfg rok st now i (ds @ [d]) (usage_delta cfg rok st now uf d)"
  by (cases "uf_batches uf i") (auto simp: scanned_def usage_delta_other)

text \<open>A delta of path \<open>i\<close> itself: refused before the batch is opened, or met by an open batch.\<close>

lemma scanned_step_refused:
  assumes "scanned cfg rok st now i ds uf" and "ud_PathID d = i"
    and "\<not> admissible cfg i \<or> ud_Sequence d > maxDeltaSequence"
  shows "scanned cfg rok st now i (ds @ [d]) (usage_delta cfg rok st now uf d)"
proof -
  have "\<exists>cs. usage_delta cfg rok st now uf d = uf\<lparr>uf_cs := cs\<rparr>"
    using assms(2,3) by (auto simp: usage_delta_def admissible_def Let_def)
  moreover have "accept now w a d = a" if "admissible cfg i" for w a
    using that assms(3) by (simp add: accept_def)
  ultimately show ?thesis using assms by (auto simp: scanned_def split: option.splits)
qed

lemma accept_none: "list_all (\<lambda>d. maxDeltaSequence < ud_Sequence d) ds \<Longrightarrow> foldl (accept now w) a ds = a"
  by (induction ds) (simp_all add: accept_def)

lemma scanned_seed:
  assumes "scanned cfg rok st now i ds uf" and "admissible cfg i" and "uf_batches uf i = None"
  shows "scanned cfg rok st now i ds (seed_batch rok st i uf)"
  using assms by (auto simp: scanned_def seed_batch_def accept_none split: option.splits)

lemma scanned_step_open:
  assumes "scanned cfg rok st now i ds uf" and d: "ud_PathID d = i"
    and "uf_batches uf i = Some b" and "\<not> ud_Sequence d > maxDeltaSequence"
  shows "scanned cfg rok st now i (ds @ [d])
    (if ud_Sequence d \<le> ub_seen b then uf
     else if ud_Sequence d - ub_base b > maxSequenceJump then uf\<lparr>uf_cs := count_badSeq now (uf_cs uf)\<rparr>
     else let (d, cs) = checkDelta now d (uf_cs uf);
              b = b\<lparr>ub_seen := ud_Sequence d, ub_samples := ub_samples b @
                [\<lparr>us_Bytes = ud_Bytes d, us_Packets = ud_Packets d, us_At = time_Unix (ud_AtUnix d)\<rparr>]\<rparr>
          in uf\<lparr>uf_cs := cs, uf_batches := (uf_batches uf)(i \<mapsto> b)\<rparr>)"
proof -
  obtain d' cs' where c: "checkDelta now d (uf_cs uf) = (d', cs')" by fastforce
  have acc: "foldl (accept now (ub_base b)) (ub_base b, []) (of_path i ds) = (ub_seen b, ub_samples b)"
    using assms(1,3) by (simp add: scanned_def)
  have step: "foldl (accept now (ub_base b)) (ub_base b, []) (of_path i (ds @ [d])) =
      accept now (ub_base b) (ub_seen b, ub_samples b) d"
    using d acc by simp
  show ?thesis
    using assms checkDelta_sample [OF c] unfolding scanned_def
    by (auto simp: step accept_def c Let_def acc simp del: foldl_append of_path_simps(3))
qed

lemma scanned_step:
  assumes s: "scanned cfg rok st now i ds uf"
  shows "scanned cfg rok st now i (ds @ [d]) (usage_delta cfg rok st now uf d)"
proof (cases "ud_PathID d = i \<and> admissible cfg i \<and> \<not> ud_Sequence d > maxDeltaSequence")
  case False
  then show ?thesis using scanned_step_other [OF s] scanned_step_refused [OF s] by blast
next
  case True
  then have ok: "\<not> (\<not> HasPath cfg i \<and> (i \<le> 0 \<or> i \<ge> maxDeltaPathID))" by (auto simp: admissible_def)
  show ?thesis
  proof (cases "i \<in> set (uf_unread uf)")
    case unread: True
    then have "uf_batches uf i = None" "read_watermark rok st i = None"
      using s by (auto simp: scanned_def split: option.splits)
    then show ?thesis using s True ok unread by (simp add: usage_delta_def scanned_def Let_def)
  next
    case False
    define uf' where "uf' = (if uf_batches uf i = None then seed_batch rok st i uf else uf)"
    have s': "scanned cfg rok st now i ds uf'" using scanned_seed s True by (simp add: uf'_def)
    have run: "usage_delta cfg rok st now uf d = (case uf_batches uf' i of None \<Rightarrow> uf' | Some b \<Rightarrow>
       (if ud_Sequence d \<le> ub_seen b then uf'
        else if ud_Sequence d - ub_base b > maxSequenceJump then uf'\<lparr>uf_cs := count_badSeq now (uf_cs uf')\<rparr>
        else let (d, cs) = checkDelta now d (uf_cs uf');
                 b = b\<lparr>ub_seen := ud_Sequence d, ub_samples := ub_samples b @
                   [\<lparr>us_Bytes = ud_Bytes d, us_Packets = ud_Packets d, us_At = time_Unix (ud_AtUnix d)\<rparr>]\<rparr>
             in uf'\<lparr>uf_cs := cs, uf_batches := (uf_batches uf')(i \<mapsto> b)\<rparr>))"
    proof -
      have "ud_PathID d = i" "\<not> maxDeltaSequence < ud_Sequence d" using True by simp_all
      then show ?thesis unfolding usage_delta_def Let_def uf'_def by (simp only: ok False if_False)
    qed
    show ?thesis
    proof (cases "uf_batches uf' i")
      case None
      then have "read_watermark rok st i = None"
        by (auto simp: uf'_def seed_batch_def split: option.splits if_splits)
      with None s' show ?thesis unfolding run by (simp add: scanned_def)
    next
      case (Some b)
      with scanned_step_open [OF s' _ Some, of d] True show ?thesis unfolding run by simp
    qed
  qed
qed

lemma scan_foldl:
  "scanned cfg rok st now i ds (foldl (usage_delta cfg rok st now) (empty_frame cs) ds) \<and>
   frame_wf (foldl (usage_delta cfg rok st now) (empty_frame cs) ds)"
  by (induction ds rule: rev_induct) (simp_all add: scanned_start scanned_step usage_delta_wf)

text \<open>Over deltas in increasing sequence, what is accepted is what is new and within the bounds.\<close>

definition fresh_delta :: "uint64 \<Rightarrow> uint64 \<Rightarrow> UsageDelta \<Rightarrow> bool" where
  "fresh_delta w s d \<longleftrightarrow>
     s < ud_Sequence d \<and> ud_Sequence d \<le> maxDeltaSequence \<and> ud_Sequence d - w \<le> maxSequenceJump"

lemma accept_increasing:
  assumes "sorted_wrt (<) (map ud_Sequence ds)"
  shows "foldl (accept now w) (s, acc) ds =
    (if filter (fresh_delta w s) ds = [] then s else ud_Sequence (last (filter (fresh_delta w s) ds)),
     acc @ map (sample_of now) (filter (fresh_delta w s) ds))"
  using assms
proof (induction ds arbitrary: s acc)
  case (Cons d ds)
  have later: "\<forall>x \<in> set ds. ud_Sequence d < ud_Sequence x" using Cons.prems by simp
  have ih: "foldl (accept now w) (t, ac) ds =
    (if filter (fresh_delta w t) ds = [] then t else ud_Sequence (last (filter (fresh_delta w t) ds)),
     ac @ map (sample_of now) (filter (fresh_delta w t) ds))" for t ac
    using Cons.IH Cons.prems by simp
  show ?case
  proof (cases "fresh_delta w s d")
    case True
    then have "filter (fresh_delta w (ud_Sequence d)) ds = filter (fresh_delta w s) ds"
      using later by (intro filter_cong refl) (auto simp: fresh_delta_def)
    moreover have "accept now w (s, acc) d = (ud_Sequence d, acc @ [sample_of now d])"
      using True by (auto simp: accept_def fresh_delta_def)
    ultimately show ?thesis using True by (simp add: ih)
  next
    case False
    then have "accept now w (s, acc) d = (s, acc)" by (auto simp: accept_def fresh_delta_def)
    with False show ?thesis by (simp add: ih)
  qed
qed simp

section \<open>The commit, path by path\<close>

text \<open>
  The contract between \<open>applyUsage\<close> and the ledger: an entry operation that either leaves a
  path's watermark and rows alone and reports an error, or moves both together, and never
  touches another path. The loop that commits one job per path is proved against it once.
\<close>

locale batch_ledger =
  fixes add :: "'o \<Rightarrow> 'i \<Rightarrow> 'e list \<Rightarrow> 'w \<Rightarrow> 's \<Rightarrow> bool \<times> 's"
    and mark :: "'s \<Rightarrow> 'i \<Rightarrow> 'w option"
    and rows :: "'s \<Rightarrow> 'i \<Rightarrow> 'r list"
    and recorded :: "'i \<Rightarrow> 'e list \<Rightarrow> 'r list"
  assumes add_outcome: "add fate i es w s = (b, s') \<Longrightarrow>
      (\<not> b \<and> mark s' i = mark s i \<and> rows s' i = rows s i) \<or>
      (mark s' i = Some w \<and> rows s' i = rows s i @ recorded i es)"
    and add_frame: "add fate i es w s = (b, s') \<Longrightarrow> j \<noteq> i \<Longrightarrow> mark s' j = mark s j \<and> rows s' j = rows s j"
begin

lemma commit_other:
  assumes "i \<notin> set order"
    and "foldl (\<lambda>(s, ack) j. case job j of None \<Rightarrow> (s, ack) | Some (es, w) \<Rightarrow>
           (case add (fate j) j es w s of (b, s') \<Rightarrow> (s', if b then ack(j \<mapsto> w) else ack))) (s, ack) order = (s', ack')"
  shows "mark s' i = mark s i \<and> rows s' i = rows s i \<and> ack' i = ack i"
  using assms
proof (induction order arbitrary: s ack)
  case (Cons j order)
  show ?case
  proof (cases "job j")
    case None
    then show ?thesis using Cons by simp
  next
    case (Some ew)
    obtain es w where ew: "ew = (es, w)" by (cases ew)
    obtain b t where a: "add (fate j) j es w s = (b, t)" by fastforce
    have "mark s' i = mark t i \<and> rows s' i = rows t i \<and> ack' i = (if b then ack(j \<mapsto> w) else ack) i"
      using Cons.IH Cons.prems Some ew a by simp
    moreover have "mark t i = mark s i \<and> rows t i = rows s i" using add_frame [OF a] Cons.prems(1) by simp
    ultimately show ?thesis using Cons.prems(1) by auto
  qed
qed simp

lemma commit_one:
  assumes "i \<in> set order" and "distinct order"
    and "foldl (\<lambda>(s, ack) j. case job j of None \<Rightarrow> (s, ack) | Some (es, w) \<Rightarrow>
           (case add (fate j) j es w s of (b, s') \<Rightarrow> (s', if b then ack(j \<mapsto> w) else ack))) (s, ack) order = (s', ack')"
  shows "case job i of
      None \<Rightarrow> mark s' i = mark s i \<and> rows s' i = rows s i \<and> ack' i = ack i
    | Some (es, w) \<Rightarrow> (mark s' i = mark s i \<and> rows s' i = rows s i \<and> ack' i = ack i) \<or>
        (mark s' i = Some w \<and> rows s' i = rows s i @ recorded i es \<and> (ack' i = ack i \<or> ack' i = Some w))"
  using assms
proof (induction order arbitrary: s ack)
  case (Cons j order)
  let ?f = "\<lambda>(s, ack) j. case job j of None \<Rightarrow> (s, ack) | Some (es, w) \<Rightarrow>
           (case add (fate j) j es w s of (b, s') \<Rightarrow> (s', if b then ack(j \<mapsto> w) else ack))"
  show ?case
  proof (cases "j = i")
    case True
    then have ni: "i \<notin> set order" using Cons.prems(2) by simp
    show ?thesis
    proof (cases "job i")
      case None
      then show ?thesis using commit_other [OF ni, where job = job and fate = fate and s = s and ack = ack and s' = s' and ack' = ack'] Cons.prems(3) True by simp
    next
      case (Some ew)
      obtain es w where ew: "ew = (es, w)" by (cases ew)
      obtain b t where a: "add (fate i) i es w s = (b, t)" by fastforce
      have "mark s' i = mark t i \<and> rows s' i = rows t i \<and> ack' i = (if b then ack(i \<mapsto> w) else ack) i"
        using commit_other [OF ni, where job = job and fate = fate and s = t
              and ack = "if b then ack(i \<mapsto> w) else ack" and s' = s' and ack' = ack']
          Cons.prems(3) Some ew a True by simp
      then show ?thesis using add_outcome [OF a] Some ew by (auto split: if_splits)
    qed
  next
    case False
    obtain t ak where st: "?f (s, ack) j = (t, ak)" by fastforce
    have "mark t i = mark s i \<and> rows t i = rows s i \<and> ak i = ack i"
      using commit_other [of i "[j]", where job = job and fate = fate and s = s and ack = ack and s' = t and ack' = ak] st False by simp
    moreover have "foldl ?f (t, ak) order = (s', ack')" using Cons.prems(3) st by simp
    ultimately show ?thesis using Cons.IH [of t ak] Cons.prems(1,2) False by (auto split: option.splits)
  qed
qed simp

end

text \<open>A ledger whose entry operation also succeeds when nothing goes wrong.\<close>

locale committing_ledger = batch_ledger add mark rows recorded
  for add :: "'o \<Rightarrow> 'i \<Rightarrow> 'e list \<Rightarrow> 'w \<Rightarrow> 's \<Rightarrow> bool \<times> 's"
    and mark :: "'s \<Rightarrow> 'i \<Rightarrow> 'w option"
    and rows :: "'s \<Rightarrow> 'i \<Rightarrow> 'r list"
    and recorded :: "'i \<Rightarrow> 'e list \<Rightarrow> 'r list" +
  fixes good :: "'o \<Rightarrow> bool"
  assumes add_good: "good fate \<Longrightarrow> fst (add fate i es w s)"
begin

lemma commit_good:
  assumes "i \<in> set order" and "distinct order" and "job i = Some (es, w)" and "good (fate i)"
    and "foldl (\<lambda>(s, ack) j. case job j of None \<Rightarrow> (s, ack) | Some (es, w) \<Rightarrow>
           (case add (fate j) j es w s of (b, s') \<Rightarrow> (s', if b then ack(j \<mapsto> w) else ack))) (s, ack) order = (s', ack')"
  shows "mark s' i = Some w \<and> ack' i = Some w"
proof -
  let ?f = "\<lambda>(s, ack) j. case job j of None \<Rightarrow> (s, ack) | Some (es, w) \<Rightarrow>
           (case add (fate j) j es w s of (b, s') \<Rightarrow> (s', if b then ack(j \<mapsto> w) else ack))"
  obtain xs ys where o: "order = xs @ i # ys" using split_list [OF assms(1)] by blast
  then have ni: "i \<notin> set ys" using assms(2) by simp
  obtain t ak where 1: "foldl ?f (s, ack) xs = (t, ak)" by fastforce
  obtain b u where 2: "add (fate i) i es w t = (b, u)" by fastforce
  have b: b using add_good [OF assms(4), of i es w t] 2 by simp
  have "foldl ?f (u, ak(i \<mapsto> w)) ys = (s', ack')" using assms(3,5) b 2 by (simp add: o 1)
  from commit_other [OF ni this] add_outcome [OF 2] b show ?thesis by simp
qed

end

text \<open>The ledger's rows and watermark of a path in the tables, and what a batch records.\<close>

definition watermark :: "Store \<Rightarrow> int \<Rightarrow> uint64 option" where
  "watermark st i = read_watermark (\<lambda>_. True) st i"

definition usage_rows :: "Store \<Rightarrow> int \<Rightarrow> (int \<times> int) list" where
  "usage_rows st i = map (\<lambda>r. (ur_bytes r, ur_packets r)) (filter (\<lambda>r. ur_path r = i) (st_usage st))"

definition billed :: "Quota \<Rightarrow> usageSample \<Rightarrow> int \<times> int" where
  "billed q s =
     (let (bytes, packets, _) = clampCounts (us_Bytes s) (us_Packets s)
      in (clampLedger (Metered bytes packets q), clampLedger packets))"

definition recorded_rows :: "Config \<Rightarrow> int \<Rightarrow> usageSample list \<Rightarrow> (int \<times> int) list" where
  "recorded_rows cfg i ss =
     (case PathByID cfg i of None \<Rightarrow> [] | Some p \<Rightarrow> if p_Metered p then map (billed (p_Quota p)) ss else [])"

lemma usage_key_inj: "usage_key i = usage_key j \<longleftrightarrow> i = j"
  by (simp add: usage_key_def Itoa_inj)

lemma usage_key_nonempty [simp]: "usage_key i \<noteq> []"
  by (simp add: usage_key_def)

lemma apply_entry_meta [simp]: "st_meta (foldl (apply_entry i) st es) = st_meta st"
  by (induction es arbitrary: st) (simp_all add: step_defs)

lemma watermark_put [simp]:
  "watermark (put_meta (usage_key i) (FormatUint w) st) j = (if j = i then Some w else watermark st j)"
  by (auto simp: watermark_def read_watermark_def MetaChecked_def put_meta_def usage_key_inj)

lemma watermark_entries [simp]: "watermark (foldl (apply_entry i) st es) = watermark st"
  by (simp add: watermark_def read_watermark_def MetaChecked_def fun_eq_iff)

lemma usage_rows_put [simp]: "usage_rows (put_meta k v st) = usage_rows st"
  by (simp add: usage_rows_def put_meta_def fun_eq_iff)

lemma usage_rows_entries:
  "usage_rows (foldl (apply_entry i) st es) j =
     usage_rows st j @ (if j = i then map (\<lambda>e. (clampLedger (ue_Bytes e), clampLedger (ue_Packets e))) es else [])"
proof (induction es arbitrary: st)
  case (Cons e es)
  have "usage_rows (apply_entry i st e) j =
      usage_rows st j @ (if j = i then [(clampLedger (ue_Bytes e), clampLedger (ue_Packets e))] else [])"
    by (simp add: usage_rows_def step_defs)
  with Cons show ?case by simp
qed simp

lemma usage_entry_billed:
  "(clampLedger (ue_Bytes (usage_entry tz p now s)), clampLedger (ue_Packets (usage_entry tz p now s))) =
     billed (p_Quota p) s"
  by (simp add: usage_entry_def billed_def Let_def split: prod.split)

lemma addUsageBatch_outcome:
  assumes "addUsageBatch tz cfg fate i ss (usage_key i) (FormatUint w) st = (b, st')"
  shows "(\<not> b \<and> st' = st) \<or>
    (\<exists>es. st' = put_meta (usage_key i) (FormatUint w) (foldl (apply_entry i) st es) \<and>
       map (\<lambda>e. (clampLedger (ue_Bytes e), clampLedger (ue_Packets e))) es = recorded_rows cfg i ss)"
proof -
  obtain now ok x where fate: "fate = (now, ok, x)" by (metis prod_cases3)
  have sm: "(\<not> b \<and> st' = st) \<or> st' = put_meta (usage_key i) (FormatUint w) (foldl (apply_entry i) st [])"
    if "SetMeta x (usage_key i) (FormatUint w) st = (b, st')"
    using run_exec_cases [OF that [unfolded SetMeta_def]] by simp
  show ?thesis
  proof (cases "PathByID cfg i")
    case None
    then show ?thesis using assms sm unfolding fate by (auto simp: addUsageBatch_def recorded_rows_def)
  next
    case (Some p)
    show ?thesis
    proof (cases "p_Metered p")
      case False
      then show ?thesis using assms sm Some unfolding fate by (auto simp: addUsageBatch_def recorded_rows_def)
    next
      case True
      then have "AddUsageBatch ok x i (map (usage_entry tz p now) ss) (usage_key i) (FormatUint w) st = (b, st')"
        using assms Some by (simp add: fate addUsageBatch_def)
      from AddUsageBatch_outcome [OF this] show ?thesis
        using True Some by (auto simp: recorded_rows_def usage_entry_billed)
    qed
  qed
qed

interpretation ledger: batch_ledger
  "\<lambda>fate i ss w. addUsageBatch tz cfg fate i ss (usage_key i) (FormatUint w)"
  watermark usage_rows "recorded_rows cfg"
  for tz cfg
proof unfold_locales
  fix fate i ss w st b st'
  assume a: "addUsageBatch tz cfg fate i ss (usage_key i) (FormatUint w) st = (b, st')"
  show "\<not> b \<and> watermark st' i = watermark st i \<and> usage_rows st' i = usage_rows st i \<or>
      watermark st' i = Some w \<and> usage_rows st' i = usage_rows st i @ recorded_rows cfg i ss"
    using addUsageBatch_outcome [OF a] by (auto simp: usage_rows_entries)
  show "watermark st' j = watermark st j \<and> usage_rows st' j = usage_rows st j" if "j \<noteq> i" for j
    using addUsageBatch_outcome [OF a] that by (auto simp: usage_rows_entries)
qed

definition good_fate :: "commit_fate \<Rightarrow> bool" where
  "good_fate fate \<longleftrightarrow> fst (snd fate) = (\<lambda>_. True) \<and> snd (snd fate) = Applied"

interpretation good_ledger: committing_ledger
  "\<lambda>fate i ss w. addUsageBatch tz cfg fate i ss (usage_key i) (FormatUint w)"
  watermark usage_rows "recorded_rows cfg" good_fate
  for tz cfg
proof unfold_locales
  fix fate i ss w st
  assume "good_fate fate"
  then obtain now where "fate = (now, \<lambda>_. True, Applied)" unfolding good_fate_def by (metis prod.collapse)
  then show "fst (addUsageBatch tz cfg fate i ss (usage_key i) (FormatUint w) st)"
    by (simp add: addUsageBatch_def SetMeta_def AddUsageBatch_commits split: option.split)
qed

definition batch_job :: "(int \<rightharpoonup> pathBatch) \<Rightarrow> int \<Rightarrow> (usageSample list \<times> uint64) option" where
  "batch_job batches i =
     (case batches i of None \<Rightarrow> None
      | Some b \<Rightarrow> if ub_samples b = [] then None else Some (ub_samples b, ub_seen b))"

lemma commit_path_job:
  assumes "\<And>j b. batches j = Some b \<Longrightarrow> ub_key b = usage_key j"
  shows "commit_path tz cfg fate batches =
    (\<lambda>(s, ack) j. case batch_job batches j of None \<Rightarrow> (s, ack) | Some (es, w) \<Rightarrow>
       (case addUsageBatch tz cfg (fate j) j es (usage_key j) (FormatUint w) s of
          (b, s') \<Rightarrow> (s', if b then ack(j \<mapsto> w) else ack)))"
  using assms
  by (intro ext) (auto simp: commit_path_def batch_job_def Let_def split: option.splits prod.splits bool.splits)

lemma applyUsage_scan:
  assumes "applyUsage tz cfg rok fate now u cs st = (ack, cs', st')"
  obtains uf where "\<And>j. scanned cfg rok st now j (take maxDeltasPerFrame u) uf" and "frame_wf uf"
    and "foldl (\<lambda>(s, ack) j. case batch_job (uf_batches uf) j of None \<Rightarrow> (s, ack) | Some (es, w) \<Rightarrow>
       (case addUsageBatch tz cfg (fate j) j es (usage_key j) (FormatUint w) s of
          (b, s') \<Rightarrow> (s', if b then ack(j \<mapsto> w) else ack))) (st, uf_ack uf) (uf_order uf) = (st', ack)"
proof -
  define uf where "uf = scan_frame cfg rok now u cs st"
  have ds: "(if length u > maxDeltasPerFrame then take maxDeltasPerFrame u else u) = take maxDeltasPerFrame u"
    by simp
  have scan: "scanned cfg rok st now j (take maxDeltasPerFrame u) uf" "frame_wf uf" for j
    unfolding uf_def scan_frame_def Let_def ds using scan_foldl by blast+
  have c: "foldl (commit_path tz cfg fate (uf_batches uf)) (st, uf_ack uf) (uf_order uf) = (st', ack)"
    using assms by (auto simp: applyUsage_def uf_def Let_def split: prod.splits)
  have key: "ub_key b = usage_key j" if "uf_batches uf j = Some b" for j b
    using scan(1) [of j] that by (simp add: scanned_def)
  have loop: "commit_path tz cfg fate (uf_batches uf) =
    (\<lambda>(s, ack) j. case batch_job (uf_batches uf) j of None \<Rightarrow> (s, ack) | Some (es, w) \<Rightarrow>
       (case addUsageBatch tz cfg (fate j) j es (usage_key j) (FormatUint w) s of
          (b, s') \<Rightarrow> (s', if b then ack(j \<mapsto> w) else ack)))"
    by (rule commit_path_job) (rule key)
  show thesis by (rule that [OF scan c [unfolded loop]])
qed

text \<open>What a frame does to a path: nothing, or its watermark moves to the last accepted sequence
  and exactly the accepted deltas are recorded; no ack goes past the watermark.\<close>

lemma applyUsage_path:
  assumes run: "applyUsage tz cfg rok fate now u cs st = (ack, cs', st')"
    and w: "watermark st i = Some w"
    and acc: "foldl (accept now w) (w, []) (of_path i (take maxDeltasPerFrame u)) = (seen, ss)"
  shows "(watermark st' i = Some w \<and> usage_rows st' i = usage_rows st i \<and> ack i \<in> {None, Some w}) \<or>
    (ss \<noteq> [] \<and> watermark st' i = Some seen \<and> usage_rows st' i = usage_rows st i @ recorded_rows cfg i ss \<and>
     ack i \<in> {Some w, Some seen})"
proof -
  obtain uf where scan: "\<And>j. scanned cfg rok st now j (take maxDeltasPerFrame u) uf" "frame_wf uf"
    and c: "foldl (\<lambda>(s, ack) j. case batch_job (uf_batches uf) j of None \<Rightarrow> (s, ack) | Some (es, w) \<Rightarrow>
       (case addUsageBatch tz cfg (fate j) j es (usage_key j) (FormatUint w) s of
          (b, s') \<Rightarrow> (s', if b then ack(j \<mapsto> w) else ack))) (st, uf_ack uf) (uf_order uf) = (st', ack)"
    using applyUsage_scan [OF run] by blast
  have base: "read_watermark rok st i = Some v \<Longrightarrow> v = w" for v
    using w by (auto simp: watermark_def read_watermark_def MetaChecked_def split: if_splits)
  show ?thesis
  proof (cases "uf_batches uf i")
    case None
    then have "i \<notin> set (uf_order uf)" using scan(2) by (auto simp: frame_wf_def)
    from ledger.commit_other [OF this c] show ?thesis using None scan(1) [of i] w by (auto simp: scanned_def)
  next
    case (Some b)
    then have i: "i \<in> set (uf_order uf)" "distinct (uf_order uf)" using scan(2) by (auto simp: frame_wf_def)
    have "ub_base b = w" using scan(1) [of i] Some base by (simp add: scanned_def)
    then have b: "ub_seen b = seen" "ub_samples b = ss" "uf_ack uf i = Some w"
      using scan(1) [of i] Some acc by (simp_all add: scanned_def)
    show ?thesis
    proof (cases "ss = []")
      case True
      then have "batch_job (uf_batches uf) i = None" using Some b by (simp add: batch_job_def)
      with ledger.commit_one [OF i c] w b show ?thesis by simp
    next
      case False
      then have "batch_job (uf_batches uf) i = Some (ss, seen)" using Some b by (simp add: batch_job_def)
      with ledger.commit_one [OF i c] w b False show ?thesis by auto
    qed
  qed
qed

lemma applyUsage_unreadable:
  assumes run: "applyUsage tz cfg rok fate now u cs st = (ack, cs', st')"
    and w: "read_watermark rok st i = None"
  shows "watermark st' i = watermark st i \<and> usage_rows st' i = usage_rows st i \<and> ack i = None"
proof -
  obtain uf where scan: "\<And>j. scanned cfg rok st now j (take maxDeltasPerFrame u) uf" "frame_wf uf"
    and c: "foldl (\<lambda>(s, ack) j. case batch_job (uf_batches uf) j of None \<Rightarrow> (s, ack) | Some (es, w) \<Rightarrow>
       (case addUsageBatch tz cfg (fate j) j es (usage_key j) (FormatUint w) s of
          (b, s') \<Rightarrow> (s', if b then ack(j \<mapsto> w) else ack))) (st, uf_ack uf) (uf_order uf) = (st', ack)"
    using applyUsage_scan [OF run] by blast
  have n: "uf_batches uf i = None" "uf_ack uf i = None"
    using scan(1) [of i] w by (auto simp: scanned_def split: option.splits)
  then have "i \<notin> set (uf_order uf)" using scan(2) by (auto simp: frame_wf_def)
  from ledger.commit_other [OF this c] n show ?thesis by simp
qed

text \<open>With the watermark readable and the commit succeeding, the accepted deltas are recorded and
  acknowledged, and resent ones are acknowledged again.\<close>

lemma applyUsage_good:
  assumes run: "applyUsage tz cfg rok fate now u cs st = (ack, cs', st')"
    and w: "watermark st i = Some w" and rok: "rok (usage_key i)" and adm: "admissible cfg i" and good: "good_fate (fate i)"
    and acc: "foldl (accept now w) (w, []) (of_path i (take maxDeltasPerFrame u)) = (seen, ss)"
    and some: "\<exists>d \<in> set (of_path i (take maxDeltasPerFrame u)). ud_Sequence d \<le> maxDeltaSequence"
  shows "ack i = Some (if ss = [] then w else seen)"
proof -
  obtain uf where scan: "\<And>j. scanned cfg rok st now j (take maxDeltasPerFrame u) uf" "frame_wf uf"
    and c: "foldl (\<lambda>(s, ack) j. case batch_job (uf_batches uf) j of None \<Rightarrow> (s, ack) | Some (es, w) \<Rightarrow>
       (case addUsageBatch tz cfg (fate j) j es (usage_key j) (FormatUint w) s of
          (b, s') \<Rightarrow> (s', if b then ack(j \<mapsto> w) else ack))) (st, uf_ack uf) (uf_order uf) = (st', ack)"
    using applyUsage_scan [OF run] by blast
  have rw: "read_watermark rok st i = Some w"
    using w rok by (simp add: watermark_def read_watermark_def MetaChecked_def)
  obtain b where b: "uf_batches uf i = Some b"
    using scan(1) [of i] some adm rw by (auto simp: scanned_def list_all_iff not_less split: option.splits)
  then have i: "i \<in> set (uf_order uf)" "distinct (uf_order uf)" using scan(2) by (auto simp: frame_wf_def)
  have bb: "ub_base b = w" "ub_seen b = seen" "ub_samples b = ss" "uf_ack uf i = Some w"
    using scan(1) [of i] b acc rw by (simp_all add: scanned_def)
  show ?thesis
  proof (cases "ss = []")
    case True
    then have "batch_job (uf_batches uf) i = None" using b bb by (simp add: batch_job_def)
    with ledger.commit_one [OF i c] bb True show ?thesis by simp
  next
    case False
    then have j: "batch_job (uf_batches uf) i = Some (ss, seen)" using b bb by (simp add: batch_job_def)
    from good_ledger.commit_good [OF i j good c] False show ?thesis by simp
  qed
qed

end
