(* ===== verification/UsageChannel.thy ===== *)
theory UsageChannel
  imports Meter UsageLedger
begin

text \<open>
  The two halves of usage metering together: the backend's meter with its files, the frames and
  acks in flight between the hosts, and the frontend's ledger. Steps interleave freely: a frame
  may be delivered late, more than once (each reconnect resends) or never, a commit may fail or
  succeed without saying so, an ack may be lost or arrive late, and the agent may restart.
\<close>

section \<open>The system\<close>

text \<open>\<open>uc_emitted\<close> and \<open>uc_evicted\<close> are history: every delta ever sampled and every delta the
  full buffer dropped.\<close>

record usage_sys =
  uc_meter :: Meter
  uc_disk :: meter_disk
  uc_frames :: "UsageMsg list"
  uc_acks :: "UsageAck list"
  uc_server :: ControlServer
  uc_store :: Store
  uc_cfg :: Config
  uc_emitted :: "UsageDelta list"
  uc_evicted :: "UsageDelta list"

datatype usage_op =
    SampleTick "string \<Rightarrow> Counters option" gotime "BackendConfig option" bool bool
  | Report
  | Frame nat "string \<Rightarrow> bool" "int \<Rightarrow> commit_fate" gotime
  | Ack nat bool
  | AgentRestart
  | SaveSettings Config

definition reportBatch :: int where "reportBatch = 500"

definition tick_fresh :: "usage_sys \<Rightarrow> (string \<Rightarrow> Counters option) \<Rightarrow> gotime \<Rightarrow> BackendConfig option \<Rightarrow> UsageDelta list" where
  "tick_fresh s rd now ocfg =
     (case ocfg of None \<Rightarrow> [] | Some cfg \<Rightarrow> fst (sample_paths rd (to_unix now) (bc_Paths cfg) (uc_meter s)))"

fun usage_step :: "(string \<Rightarrow> Location option) \<Rightarrow> usage_sys \<Rightarrow> usage_op \<Rightarrow> usage_sys" where
  "usage_step tz s (SampleTick rd now ocfg pok sok) =
     (let fresh = tick_fresh s rd now ocfg;
          (m, dk) = sample rd now ocfg pok sok (uc_meter s, uc_disk s);
          old = m_pending (uc_meter s) @ fresh
      in s\<lparr>uc_meter := m, uc_disk := dk, uc_emitted := uc_emitted s @ fresh,
           uc_evicted := uc_evicted s @ (if fresh = [] then [] else take (length old - maxBuffered) old)\<rparr>)"
| "usage_step tz s Report =
     (let batch = PendingBatch reportBatch (uc_meter s)
      in if batch = [] then s else s\<lparr>uc_frames := uc_frames s @ [batch]\<rparr>)"
| "usage_step tz s (Frame k rok fate now) =
     (if length (uc_frames s) \<le> k then s
      else let (ack, cs, st) = applyUsage tz (uc_cfg s) rok fate now (uc_frames s ! k) (uc_server s) (uc_store s)
           in s\<lparr>uc_server := cs, uc_store := st, uc_acks := uc_acks s @ [ack]\<rparr>)"
| "usage_step tz s (Ack k pok) =
     (if length (uc_acks s) \<le> k then s
      else let (m, dk) = AckApplied (uc_acks s ! k) pok (uc_meter s, uc_disk s)
           in s\<lparr>uc_meter := m, uc_disk := dk\<rparr>)"
| "usage_step tz s AgentRestart = s\<lparr>uc_meter := NewMeter (uc_disk s)\<rparr>"
| "usage_step tz s (SaveSettings cfg) = s\<lparr>uc_cfg := cfg\<rparr>"

definition usage_start :: "Config \<Rightarrow> usage_sys" where
  "usage_start cfg = \<lparr>uc_meter = \<lparr>m_last = Map.empty, m_nextSeq = (\<lambda>_. 0), m_pending = []\<rparr>,
     uc_disk = \<lparr>dk_buffer = None, dk_state = None\<rparr>, uc_frames = [], uc_acks = [], uc_server = NewControlServer,
     uc_store = empty_store, uc_cfg = cfg, uc_emitted = [], uc_evicted = []\<rparr>"

text \<open>The steps under which path \<open>i\<close> is billed exactly once. The writes of the buffer and of the
  counters may fail at every tick and every ack; what a restart needs is that the files it
  reads are current for the path: the counter is the meter's, and the buffer file ends with
  the path's newest delta, or holds none of the path when nothing of it is buffered. Settings
  saved keep the path's configuration.\<close>

definition files_current :: "int \<Rightarrow> usage_sys \<Rightarrow> bool" where
  "files_current i s \<longleftrightarrow>
     (let kept = of_path i (m_pending (NewMeter (uc_disk s)))
      in m_nextSeq (NewMeter (uc_disk s)) i = m_nextSeq (uc_meter s) i \<and>
         (if kept = [] then of_path i (m_pending (uc_meter s)) = []
          else ud_Sequence (last kept) = m_nextSeq (uc_meter s) i))"

fun covered :: "int \<Rightarrow> PathConfig \<Rightarrow> usage_sys \<Rightarrow> usage_op \<Rightarrow> bool" where
  "covered i p s AgentRestart \<longleftrightarrow> files_current i s"
| "covered i p s (SaveSettings cfg) \<longleftrightarrow> PathByID cfg i = Some p"
| "covered i p s _ \<longleftrightarrow> True"


section \<open>The watermark only advances\<close>

lemma accept_mono: "s \<le> fst (foldl (accept now w) (s, acc) ds)"
proof (induction ds arbitrary: s acc)
  case (Cons d ds)
  obtain t ac where a: "accept now w (s, acc) d = (t, ac)" by fastforce
  have "s \<le> t" using a by (auto simp: accept_def split: if_splits)
  also have "t \<le> fst (foldl (accept now w) (t, ac) ds)" by (rule Cons.IH)
  finally show ?case using a by simp
qed simp

definition mark_nat :: "int \<Rightarrow> usage_sys \<Rightarrow> nat" where
  "mark_nat i s = (case watermark (uc_store s) i of None \<Rightarrow> 0 | Some w \<Rightarrow> unat w)"

lemma applyUsage_mark_mono:
  assumes "applyUsage tz cfg rok fate now u cs st = (ack, cs', st')" and "watermark st i = Some w"
  shows "\<exists>w'. watermark st' i = Some w' \<and> w \<le> w'"
proof -
  obtain seen ss where f: "foldl (accept now w) (w, []) (of_path i (take maxDeltasPerFrame u)) = (seen, ss)" by fastforce
  have "w \<le> seen" using accept_mono [of w now w "[]" "of_path i (take maxDeltasPerFrame u)"] f by simp
  then show ?thesis using applyUsage_path [OF assms f] by auto
qed

interpretation watermark_runs: monotone_run "usage_step tz" "mark_nat i" for tz i
proof unfold_locales
  fix s op
  show "mark_nat i s \<le> mark_nat i (usage_step tz s op)"
  proof (cases op)
    case (Frame k rok fate now)
    obtain ack cs st where a: "applyUsage tz (uc_cfg s) rok fate now (uc_frames s ! k) (uc_server s) (uc_store s) = (ack, cs, st)"
      by (metis prod_cases3)
    show ?thesis
    proof (cases "watermark (uc_store s) i")
      case (Some w)
      then obtain w' where "watermark st i = Some w'" "w \<le> w'" using applyUsage_mark_mono [OF a] by blast
      with Some show ?thesis using a by (simp add: Frame mark_nat_def word_le_nat_alt)
    qed (simp add: mark_nat_def)
  qed (simp_all add: mark_nat_def Let_def split: prod.split)
qed

section \<open>Exactly once\<close>

text \<open>What a delta is billed as, whenever it is applied.\<close>

definition billed_delta :: "Quota \<Rightarrow> UsageDelta \<Rightarrow> int \<times> int" where
  "billed_delta q d =
     (let (bytes, packets, _) = clampCounts (ud_Bytes d) (ud_Packets d)
      in (clampLedger (Metered bytes packets q), clampLedger packets))"

lemma clampCounts_eq:
  "fst (clampCounts b p) = max 0 (min maxDeltaBytes b)" "fst (snd (clampCounts b p)) = max 0 (min maxDeltaPackets p)"
  by (simp_all add: clampCounts_def Let_def maxDeltaBytes_def maxDeltaPackets_def)

lemma billed_sample [simp]: "billed q (sample_of now d) = billed_delta q d"
  by (simp add: billed_def sample_of_def billed_delta_def case_prod_beta clampCounts_eq Let_def
    maxDeltaBytes_def maxDeltaPackets_def)

text \<open>
  The invariant of path \<open>i\<close>: deltas are numbered from 1; the buffer holds a final part of them
  from index \<open>k\<close>; the ledger holds, in order, those of some indices \<open>ix\<close> below the watermark \<open>w\<close>;
  everything below \<open>w\<close>, and everything before the buffer, before a frame in flight or before
  the stretch the buffer file holds, is recorded or was evicted; no ack in flight is ahead of
  the watermark.
\<close>

definition numbered :: "UsageDelta list \<Rightarrow> bool" where
  "numbered E \<longleftrightarrow> length E < 2 ^ 64 \<and> map ud_Sequence E = seqs_after 0 (length E)"

definition settled :: "UsageDelta list \<Rightarrow> UsageDelta list \<Rightarrow> nat \<Rightarrow> nat \<Rightarrow> bool" where
  "settled E ev w n \<longleftrightarrow> (\<forall>j<n. j < w \<or> E ! j \<in> set ev)"

definition meter_ok :: "int \<Rightarrow> UsageDelta list \<Rightarrow> nat \<Rightarrow> usage_sys \<Rightarrow> bool" where
  "meter_ok i E k s \<longleftrightarrow>
     map ud_Sequence E = seqs_after 0 (length E) \<and>
     m_nextSeq (uc_meter s) i = of_nat (length E) \<and> k \<le> length E \<and>
     of_path i (m_pending (uc_meter s)) = drop k E"

definition ledger_ok :: "int \<Rightarrow> Quota \<Rightarrow> UsageDelta list \<Rightarrow> UsageDelta list \<Rightarrow> nat \<Rightarrow> nat list \<Rightarrow> Store \<Rightarrow> bool" where
  "ledger_ok i q E ev w ix st \<longleftrightarrow>
     w \<le> length E \<and> watermark st i = Some (of_nat w) \<and>
     usage_rows st i = map (\<lambda>j. billed_delta q (E ! j)) ix \<and>
     sorted_wrt (<) ix \<and> (\<forall>j \<in> set ix. j < w) \<and> (\<forall>j<w. j \<in> set ix \<or> E ! j \<in> set ev)"

definition frame_ok :: "int \<Rightarrow> UsageDelta list \<Rightarrow> UsageDelta list \<Rightarrow> nat \<Rightarrow> UsageMsg \<Rightarrow> bool" where
  "frame_ok i E ev w f \<longleftrightarrow> length f \<le> 500 \<and>
     (\<exists>a b. a \<le> b \<and> b \<le> length E \<and> of_path i f = map ((!) E) [a..<b] \<and> settled E ev w a)"

definition file_ok :: "int \<Rightarrow> UsageDelta list \<Rightarrow> UsageDelta list \<Rightarrow> nat \<Rightarrow> meter_disk \<Rightarrow> bool" where
  "file_ok i E ev w dk \<longleftrightarrow>
     (\<exists>a b. a \<le> b \<and> b \<le> length E \<and> of_path i (m_pending (NewMeter dk)) = map ((!) E) [a..<b] \<and> settled E ev w a)"

definition ack_ok :: "int \<Rightarrow> nat \<Rightarrow> UsageAck \<Rightarrow> bool" where
  "ack_ok i w a \<longleftrightarrow> (\<forall>u. a i = Some u \<longrightarrow> unat u \<le> w)"

definition chan_inv :: "int \<Rightarrow> PathConfig \<Rightarrow> UsageDelta list \<Rightarrow> nat \<Rightarrow> nat list \<Rightarrow> nat \<Rightarrow> usage_sys \<Rightarrow> bool" where
  "chan_inv i p E w ix k s \<longleftrightarrow>
     PathByID (uc_cfg s) i = Some p \<and> meter_ok i E k s \<and> settled E (uc_evicted s) w k \<and>
     ledger_ok i (p_Quota p) E (uc_evicted s) w ix (uc_store s) \<and>
     file_ok i E (uc_evicted s) w (uc_disk s) \<and>
     list_all (frame_ok i E (uc_evicted s) w) (uc_frames s) \<and> list_all (ack_ok i w) (uc_acks s)"

definition exactly_once :: "int \<Rightarrow> PathConfig \<Rightarrow> usage_sys \<Rightarrow> bool" where
  "exactly_once i p s \<longleftrightarrow>
     (length (of_path i (uc_emitted s)) < 2 ^ 64 \<longrightarrow>
      (\<exists>w ix k. chan_inv i p (of_path i (uc_emitted s)) w ix k s))"

lemma unat_seq: "j < n \<Longrightarrow> n < 2 ^ 64 \<Longrightarrow> unat (seqs_after 0 n ! j) = Suc j"
  by (simp add: nth_seqs_after unat_of_nat take_bit_nat_eq_self del: of_nat_Suc)

lemma numbered_nth: "numbered E \<Longrightarrow> j < length E \<Longrightarrow> unat (ud_Sequence (E ! j)) = Suc j"
  unfolding numbered_def by (metis nth_map unat_seq)

lemma numbered_le:
  "numbered E \<Longrightarrow> j < length E \<Longrightarrow> ud_Sequence (E ! j) \<le> u \<longleftrightarrow> j < unat u"
  by (simp add: word_le_nat_alt numbered_nth Suc_le_eq)

lemma drop_map_nth: "drop k E = map ((!) E) [k..<length E]"
  by (rule nth_equalityI) simp_all

lemma take_upt_min: "take j [k..<n] = [k..<min (k + j) n]"
  by (cases "k + j \<le> n") (simp_all add: min_def)

lemma filter_upt_interval: "filter (\<lambda>j. w \<le> j \<and> j < n) [a..<b] = [max a w..<min b n]"
proof (induction b)
  case (Suc b)
  then show ?case by (cases "a \<le> b"; cases "w \<le> b"; cases "b < n") (simp_all add: max_def min_def)
qed simp

text \<open>What an ack leaves of a numbered list's final part.\<close>

lemma ack_drop:
  assumes "numbered E"
  shows "filter (\<lambda>d. \<not> ud_Sequence d \<le> u) (drop k E) = drop (max k (unat u)) E"
proof -
  have "filter (\<lambda>d. \<not> ud_Sequence d \<le> u) (drop k E) =
      map ((!) E) (filter (\<lambda>j. \<not> ud_Sequence (E ! j) \<le> u) [k..<length E])"
    by (simp add: drop_map_nth filter_map comp_def)
  also have "filter (\<lambda>j. \<not> ud_Sequence (E ! j) \<le> u) [k..<length E] =
      filter (\<lambda>j. unat u \<le> j \<and> j < length E) [k..<length E]"
    by (rule filter_cong) (simp_all add: numbered_le [OF assms] not_less)
  also have "\<dots> = [max k (unat u)..<length E]" by (simp add: filter_upt_interval)
  finally show ?thesis by (simp add: drop_map_nth)
qed

text \<open>What a frame over a stretch of a numbered list brings in above watermark \<open>w\<close>.\<close>

lemma frame_fresh:
  assumes "numbered E" and "b \<le> length E" and "w \<le> length E"
  shows "filter (fresh_delta (of_nat w) (of_nat w)) (map ((!) E) [a..<b]) =
    map ((!) E) [max a w..<min b (min (2 ^ 40) (w + 2 ^ 27))]"
proof -
  have f: "fresh_delta (of_nat w) (of_nat w) (E ! j) \<longleftrightarrow> w \<le> j \<and> j < min (2 ^ 40) (w + 2 ^ 27)" if "j < b" for j
  proof -
    have j: "unat (ud_Sequence (E ! j)) = Suc j" using assms that by (simp add: numbered_nth)
    have uw: "unat (of_nat w :: uint64) = w"
      using assms(1,3) by (simp add: numbered_def unat_of_nat take_bit_nat_eq_self)
    show ?thesis
    proof (cases "w \<le> j")
      case True
      then have "of_nat w \<le> ud_Sequence (E ! j)" by (simp add: word_le_nat_alt uw j)
      then have "unat (ud_Sequence (E ! j) - of_nat w) = Suc j - w" by (simp add: unat_sub j uw)
      with True show ?thesis
        by (auto simp: fresh_delta_def word_less_nat_alt word_le_nat_alt j uw maxDeltaSequence_def maxSequenceJump_def)
    next
      case False
      then show ?thesis by (simp add: fresh_delta_def word_less_nat_alt uw j)
    qed
  qed
  have "filter (fresh_delta (of_nat w) (of_nat w)) (map ((!) E) [a..<b]) =
      map ((!) E) (filter (\<lambda>j. fresh_delta (of_nat w) (of_nat w) (E ! j)) [a..<b])"
    by (simp add: filter_map comp_def)
  also have "filter (\<lambda>j. fresh_delta (of_nat w) (of_nat w) (E ! j)) [a..<b] =
      filter (\<lambda>j. w \<le> j \<and> j < min (2 ^ 40) (w + 2 ^ 27)) [a..<b]"
    by (rule filter_cong [OF refl]) (simp only: f set_upt atLeastLessThan_iff)
  finally show ?thesis by (simp only: filter_upt_interval)
qed

lemma numbered_sorted: "numbered E \<Longrightarrow> b \<le> length E \<Longrightarrow> sorted_wrt (<) (map ud_Sequence (map ((!) E) [a..<b]))"
  by (auto simp: sorted_wrt_iff_nth_less word_less_nat_alt numbered_nth)

lemma settled_mono: "settled E ev w n \<Longrightarrow> w \<le> w' \<Longrightarrow> set ev \<subseteq> set ev' \<Longrightarrow> settled E ev' w' n"
  unfolding settled_def by (meson less_le_trans subsetD)

lemma frame_ok_mono: "frame_ok i E ev w f \<Longrightarrow> w \<le> w' \<Longrightarrow> set ev \<subseteq> set ev' \<Longrightarrow> frame_ok i E ev' w' f"
  unfolding frame_ok_def using settled_mono by blast

lemma file_ok_mono: "file_ok i E ev w dk \<Longrightarrow> w \<le> w' \<Longrightarrow> set ev \<subseteq> set ev' \<Longrightarrow> file_ok i E ev' w' dk"
  unfolding file_ok_def using settled_mono by blast

lemma ack_ok_mono: "ack_ok i w a \<Longrightarrow> w \<le> w' \<Longrightarrow> ack_ok i w' a"
  unfolding ack_ok_def by fastforce

text \<open>A frame applied: the ledger keeps its shape, the watermark does not fall, the ack is honest.\<close>

lemma ledger_frame:
  assumes ok: "ledger_ok i (p_Quota p) E ev w ix st" and num: "numbered E" and f: "frame_ok i E ev w f"
    and p: "PathByID cfg i = Some p" "p_Metered p"
    and run: "applyUsage tz cfg rok fate now f cs st = (ack, cs', st')"
  shows "\<exists>w' ix'. w \<le> w' \<and> ledger_ok i (p_Quota p) E ev w' ix' st' \<and> ack_ok i w' ack"
proof -
  have wE: "w \<le> length E" and wm: "watermark st i = Some (of_nat w)" using ok by (simp_all add: ledger_ok_def)
  have uw: "unat (of_nat w :: uint64) = w"
    using wE num by (simp add: numbered_def unat_of_nat take_bit_nat_eq_self)
  obtain a b where ab: "b \<le> length E" "of_path i f = map ((!) E) [a..<b]" "settled E ev w a"
    and "length f \<le> 500"
    using f unfolding frame_ok_def by blast
  then have tk: "take maxDeltasPerFrame f = f" by (simp add: maxDeltasPerFrame_def)
  define n where "n = min b (min (2 ^ 40) (w + 2 ^ 27))"
  let ?J = "[max a w..<n]"
  have acc: "foldl (accept now (of_nat w)) (of_nat w, []) (of_path i (take maxDeltasPerFrame f)) =
      (if ?J = [] then of_nat w else ud_Sequence (E ! (n - 1)), map (sample_of now) (map ((!) E) ?J))"
    unfolding tk ab(2) accept_increasing [OF numbered_sorted [OF num ab(1)]] frame_fresh [OF num ab(1) wE] n_def [symmetric]
    by (cases "max a w < n") (simp_all add: last_map del: max_less_iff_conj)
  have rec: "recorded_rows cfg i (map (sample_of now) (map ((!) E) ?J)) = map (\<lambda>j. billed_delta (p_Quota p) (E ! j)) ?J"
    using p by (simp add: recorded_rows_def)
  note out = applyUsage_path [OF run wm acc]
  show ?thesis
  proof (cases "watermark st' i = Some (of_nat w) \<and> usage_rows st' i = usage_rows st i \<and> ack i \<in> {None, Some (of_nat w)}")
    case True
    then have "ledger_ok i (p_Quota p) E ev w ix st' \<and> ack_ok i w ack" using ok uw by (auto simp: ledger_ok_def ack_ok_def)
    then show ?thesis by blast
  next
    case False
    then have ne: "?J \<noteq> []" using out by auto
    with False out rec have new: "watermark st' i = Some (ud_Sequence (E ! (n - 1)))"
      "usage_rows st' i = usage_rows st i @ map (\<lambda>j. billed_delta (p_Quota p) (E ! j)) ?J"
      "ack i \<in> {Some (of_nat w), Some (ud_Sequence (E ! (n - 1)))}"
      by (auto simp: comp_def)
    have n: "w < n" "n \<le> length E" using ne ab(1) by (auto simp: n_def)
    then have un: "unat (ud_Sequence (E ! (n - 1))) = n" using num by (simp add: numbered_nth)
    have "of_nat (unat (ud_Sequence (E ! (n - 1)))) = ud_Sequence (E ! (n - 1))" by simp
    then have sn: "ud_Sequence (E ! (n - 1)) = of_nat n" unfolding un by (rule sym)
    have "\<forall>j<n. j \<in> set (ix @ ?J) \<or> E ! j \<in> set ev"
      using ok ab(3) by (auto simp: ledger_ok_def settled_def not_less max_def)
    moreover have "sorted_wrt (<) (ix @ ?J)"
      using ok by (auto simp: ledger_ok_def sorted_wrt_append)
    ultimately have "ledger_ok i (p_Quota p) E ev n (ix @ ?J) st'"
      using ok n new sn by (auto simp: ledger_ok_def)
    moreover have "ack_ok i n ack" using new(3) un uw n by (auto simp: ack_ok_def)
    ultimately show ?thesis using n by (meson less_imp_le)
  qed
qed

text \<open>New deltas at the end leave everything said about the earlier ones true.\<close>

lemma settled_append: "settled E ev w n \<Longrightarrow> n \<le> length E \<Longrightarrow> settled (E @ F) (ev @ ev') w n"
  by (auto simp: settled_def nth_append)

lemma ledger_ok_append: "ledger_ok i q E ev w ix st \<Longrightarrow> ledger_ok i q (E @ F) (ev @ ev') w ix st"
  by (force simp: ledger_ok_def nth_append)

lemma frame_ok_append:
  assumes "frame_ok i E ev w f"
  shows "frame_ok i (E @ F) (ev @ ev') w f"
proof -
  obtain a b where ab: "a \<le> b" "b \<le> length E" "of_path i f = map ((!) E) [a..<b]" "settled E ev w a" "length f \<le> 500"
    using assms unfolding frame_ok_def by blast
  have "map ((!) E) [a..<b] = map ((!) (E @ F)) [a..<b]" using ab(2) by (simp add: nth_append)
  then show ?thesis using ab settled_append [OF ab(4), of F ev'] unfolding frame_ok_def by fastforce
qed

lemma file_ok_append:
  assumes "file_ok i E ev w dk"
  shows "file_ok i (E @ F) (ev @ ev') w dk"
proof -
  obtain a b where ab: "a \<le> b" "b \<le> length E" "of_path i (m_pending (NewMeter dk)) = map ((!) E) [a..<b]"
    "settled E ev w a"
    using assms unfolding file_ok_def by blast
  have "map ((!) E) [a..<b] = map ((!) (E @ F)) [a..<b]" using ab(2) by (simp add: nth_append)
  then show ?thesis using ab settled_append [OF ab(4), of F ev'] unfolding file_ok_def by fastforce
qed

text \<open>What a write leaves in the buffer file.\<close>

lemma NewMeter_pending:
  "m_pending (NewMeter dk) = (case dk_buffer dk of None \<Rightarrow> [] | Some f \<Rightarrow> fst (decodeBuffer f))"
  by (simp add: NewMeter_def meter_load_def Let_def split: option.split)

lemma written_pending:
  "m_pending (NewMeter (persist ok m dk)) = (if ok then m_pending m else m_pending (NewMeter dk))"
  "m_pending (NewMeter (meter_save ok m dk)) = m_pending (NewMeter dk)"
proof -
  have "m_pending (NewMeter (persist True m dk)) = m_pending m"
    by (subst NewMeter_buffer [of _ "m_pending m"]) (simp_all add: persist_def split: option.split)
  then show "m_pending (NewMeter (persist ok m dk)) = (if ok then m_pending m else m_pending (NewMeter dk))"
    by (simp add: persist_def)
  show "m_pending (NewMeter (meter_save ok m dk)) = m_pending (NewMeter dk)"
    by (simp add: NewMeter_pending meter_save_def)
qed

lemma file_ok_written:
  assumes "m_pending (NewMeter dk) \<in> {m_pending m, m_pending (NewMeter dk')}" and "file_ok i E ev w dk'"
    and "of_path i (m_pending m) = drop k E" and "k \<le> length E" and "settled E ev w k"
  shows "file_ok i E ev w dk"
proof (cases "m_pending (NewMeter dk) = m_pending m")
  case True
  then show ?thesis unfolding file_ok_def using assms(3-5)
    by (intro exI [of _ k] exI [of _ "length E"]) (simp add: drop_map_nth)
next
  case False
  then show ?thesis using assms(1,2) by (simp add: file_ok_def)
qed

text \<open>The buffer after a tick: what the cap drops is evicted, the rest is still a final part.\<close>

lemma buffer_step:
  assumes pend: "of_path i old = drop k E" and k: "k \<le> length E" and st: "settled E ev w k"
  shows "\<exists>k'. k' \<le> length E \<and> of_path i (drop n old) = drop k' E \<and> settled E (ev @ take n old) w k'"
proof -
  let ?c = "length (of_path i (take n old))"
  have split: "of_path i (take n old) @ of_path i (drop n old) = drop k E"
    using pend append_take_drop_id [of n old] by (metis of_path_simps(3))
  then have t: "of_path i (take n old) = take ?c (drop k E)" and d: "of_path i (drop n old) = drop (k + ?c) E"
    by (metis append_eq_conv_conj, metis append_eq_conv_conj drop_drop add.commute)
  have "?c + length (of_path i (drop n old)) = length E - k" using split by (metis length_append length_drop)
  then have "k + ?c \<le> length E" using k by linarith
  moreover have "settled E (ev @ take n old) w (k + ?c)"
    unfolding settled_def
  proof (intro allI impI)
    fix j assume j: "j < k + ?c"
    show "j < w \<or> E ! j \<in> set (ev @ take n old)"
    proof (cases "j < k")
      case True
      then show ?thesis using st by (auto simp: settled_def)
    next
      case False
      then have "E ! j = drop k E ! (j - k)" using k by simp
      also have "\<dots> = take ?c (drop k E) ! (j - k)" using j False by simp
      finally have "E ! j = of_path i (take n old) ! (j - k)" by (simp only: t [symmetric])
      moreover have "of_path i (take n old) ! (j - k) \<in> set (of_path i (take n old))" using j False by (intro nth_mem) simp
      ultimately show ?thesis by (auto simp: of_path_def)
    qed
  qed
  ultimately show ?thesis using d by blast
qed

lemma chan_sample:
  assumes inv: "chan_inv i p E w ix k s"
    and s': "s' = usage_step tz s (SampleTick rd now ocfg pok sok)"
  shows "\<exists>k'. chan_inv i p (E @ of_path i (tick_fresh s rd now ocfg)) w ix k' s'"
proof (cases ocfg)
  case None
  have "s' = s" unfolding s' None by (simp add: tick_fresh_def sample_def)
  then show ?thesis using inv None by (auto simp: tick_fresh_def)
next
  case (Some cfg)
  obtain fresh m1 where sp: "sample_paths rd (to_unix now) (bc_Paths cfg) (uc_meter s) = (fresh, m1)" by fastforce
  have fr: "tick_fresh s rd now ocfg = fresh" by (simp add: tick_fresh_def Some sp)
  obtain m dk where sm: "sample rd now ocfg pok sok (uc_meter s, uc_disk s) = (m, dk)" by fastforce
  have m: "m = buffer_add fresh m1" using sm Some sp by (simp add: sample_def Let_def)
  have dk: "m_pending (NewMeter dk) \<in> {m_pending m, m_pending (NewMeter (uc_disk s))}"
    using sm Some sp by (auto simp: sample_def Let_def written_pending)
  note seq = sample_paths_seq [OF sp, of i]
  let ?E = "E @ of_path i fresh" and ?old = "m_pending (uc_meter s) @ fresh"
  let ?ev = "uc_evicted s @ (if fresh = [] then [] else take (length ?old - maxBuffered) ?old)"
  have mok: "meter_ok i E k s" and st: "settled E (uc_evicted s) w k"
    using inv by (simp_all add: chan_inv_def)
  have num: "map ud_Sequence ?E = seqs_after 0 (length ?E)"
    using mok seq by (simp add: meter_ok_def seqs_after_add)
  have nx: "m_nextSeq m i = of_nat (length ?E)"
    using mok seq by (simp add: meter_ok_def m buffer_add_def)
  have old: "of_path i ?old = drop k ?E" and k: "k \<le> length ?E" using mok by (simp_all add: meter_ok_def)
  have "\<exists>k'. k' \<le> length ?E \<and> of_path i (m_pending m) = drop k' ?E \<and> settled ?E ?ev w k'"
  proof (cases "fresh = []")
    case True
    then show ?thesis using mok st seq by (intro exI [of _ k]) (simp add: meter_ok_def m buffer_add_def)
  next
    case False
    have "settled ?E (uc_evicted s) w k" using settled_append [OF st, of "of_path i fresh" "[]"] mok by (simp add: meter_ok_def)
    from buffer_step [OF old k this, of "length ?old - maxBuffered"] False seq show ?thesis
      by (simp add: m buffer_add_def last_n_def)
  qed
  then obtain k' where k': "k' \<le> length ?E" "of_path i (m_pending m) = drop k' ?E" "settled ?E ?ev w k'" by blast
  have "file_ok i ?E ?ev w (uc_disk s)" using inv by (auto simp: chan_inv_def intro: file_ok_append)
  then have "file_ok i ?E ?ev w dk" using k' by (intro file_ok_written [OF dk])
  moreover have "uc_meter s' = m" "uc_disk s' = dk" "uc_evicted s' = ?ev" "uc_store s' = uc_store s"
    "uc_frames s' = uc_frames s" "uc_acks s' = uc_acks s" "uc_cfg s' = uc_cfg s"
    by (simp_all add: s' sm fr Let_def)
  ultimately have "chan_inv i p ?E w ix k' s'"
    using inv k' num nx unfolding chan_inv_def meter_ok_def
    by (auto simp: ledger_ok_append list_all_iff intro: frame_ok_append)
  then show ?thesis unfolding fr by blast
qed

lemma chan_report:
  assumes inv: "chan_inv i p E w ix k s"
  shows "chan_inv i p E w ix k (usage_step tz s Report)"
proof -
  let ?f = "PendingBatch reportBatch (uc_meter s)"
  have pend: "of_path i (m_pending (uc_meter s)) = drop k E" "k \<le> length E"
    using inv by (simp_all add: chan_inv_def meter_ok_def)
  obtain j where j: "of_path i ?f = take j (drop k E)" using PendingBatch_prefix [of i reportBatch "uc_meter s"] pend by auto
  also have "\<dots> = map ((!) E) [k..<min (k + j) (length E)]"
    using pend(2) by (simp add: drop_map_nth take_map take_upt_min)
  finally have "frame_ok i E (uc_evicted s) w ?f"
    using inv pend(2) unfolding frame_ok_def chan_inv_def
    by (intro conjI exI [of _ k] exI [of _ "min (k + j) (length E)"]) (simp_all add: PendingBatch_length reportBatch_def)
  then show ?thesis using inv by (auto simp: chan_inv_def meter_ok_def Let_def)
qed

lemma chan_frame:
  assumes inv: "chan_inv i p E w ix k s" and len: "length E < 2 ^ 64" and met: "p_Metered p"
  shows "\<exists>w' ix'. chan_inv i p E w' ix' k (usage_step tz s (Frame n rok fate now))"
proof (cases "n < length (uc_frames s)")
  case False
  then show ?thesis using inv by auto
next
  case True
  obtain ack cs st where run: "applyUsage tz (uc_cfg s) rok fate now (uc_frames s ! n) (uc_server s) (uc_store s) = (ack, cs, st)"
    by (metis prod_cases3)
  have num: "numbered E" using inv len by (simp add: chan_inv_def meter_ok_def numbered_def)
  have "frame_ok i E (uc_evicted s) w (uc_frames s ! n)" using inv True by (simp add: chan_inv_def list_all_length)
  then obtain w' ix' where w': "w \<le> w'" "ledger_ok i (p_Quota p) E (uc_evicted s) w' ix' st" "ack_ok i w' ack"
    using ledger_frame [OF _ num _ _ met run] inv unfolding chan_inv_def by blast
  have "chan_inv i p E w' ix' k (usage_step tz s (Frame n rok fate now))"
    using inv w' True run settled_mono [OF _ w'(1)] frame_ok_mono [OF _ w'(1)] ack_ok_mono [OF _ w'(1)]
      file_ok_mono [OF _ w'(1)]
    unfolding chan_inv_def meter_ok_def list_all_iff by auto
  then show ?thesis by blast
qed

lemma chan_ack:
  assumes inv: "chan_inv i p E w ix k s" and len: "length E < 2 ^ 64"
  shows "\<exists>k'. chan_inv i p E w ix k' (usage_step tz s (Ack n pok))"
proof (cases "n < length (uc_acks s)")
  case False
  then show ?thesis using inv by auto
next
  case True
  let ?a = "uc_acks s ! n"
  obtain m dk where run: "AckApplied ?a pok (uc_meter s, uc_disk s) = (m, dk)" by fastforce
  have dk: "m_pending (NewMeter dk) \<in> {m_pending m, m_pending (NewMeter (uc_disk s))}"
    using run by (auto simp: AckApplied_def Let_def written_pending)
  have m: "m_pending m = filter (\<lambda>d. \<not> acked ?a d) (m_pending (uc_meter s))" "m_nextSeq m = m_nextSeq (uc_meter s)"
    using run by (auto simp: AckApplied_def Let_def)
  have mok: "meter_ok i E k s" and st: "settled E (uc_evicted s) w k" using inv by (simp_all add: chan_inv_def)
  have num: "numbered E" using mok len by (simp add: meter_ok_def numbered_def)
  have wE: "w \<le> length E" using inv by (simp add: chan_inv_def ledger_ok_def)
  define k' where "k' = (case ?a i of None \<Rightarrow> k | Some u \<Rightarrow> max k (unat u))"
  have uw: "unat u \<le> w" if "?a i = Some u" for u
    using inv True that by (auto simp: chan_inv_def ack_ok_def list_all_length)
  have "of_path i (m_pending m) = filter (\<lambda>d. \<not> acked ?a d) (of_path i (m_pending (uc_meter s)))"
    by (simp add: m of_path_def conj_commute)
  also have "\<dots> = filter (\<lambda>d. \<not> acked ?a d) (drop k E)" using mok by (simp add: meter_ok_def)
  also have "\<dots> = drop k' E"
  proof -
    have "ud_PathID d = i" if "d \<in> set (drop k E)" for d
    proof -
      have "d \<in> set (of_path i (m_pending (uc_meter s)))" using that mok by (simp add: meter_ok_def)
      then show ?thesis by (simp add: of_path_def)
    qed
    then have eq: "filter (\<lambda>d. \<not> acked ?a d) (drop k E) =
        filter (\<lambda>d. \<not> (case ?a i of None \<Rightarrow> False | Some u \<Rightarrow> ud_Sequence d \<le> u)) (drop k E)"
      by (intro filter_cong refl) (simp add: acked_def)
    show ?thesis unfolding eq k'_def by (cases "?a i") (simp_all add: ack_drop [OF num])
  qed
  finally have pend: "of_path i (m_pending m) = drop k' E" .
  have "k' \<le> length E" using mok uw wE by (auto simp: k'_def meter_ok_def split: option.split dest!: uw)
  moreover have "settled E (uc_evicted s) w k'"
    using st uw by (auto simp: k'_def settled_def less_max_iff_disj split: option.split dest!: uw)
  moreover have "file_ok i E (uc_evicted s) w (uc_disk s)" using inv by (simp add: chan_inv_def)
  then have "file_ok i E (uc_evicted s) w dk" using pend calculation by (intro file_ok_written [OF dk])
  ultimately have "chan_inv i p E w ix k' (usage_step tz s (Ack n pok))"
    using inv True run m pend by (simp add: chan_inv_def meter_ok_def)
  then show ?thesis by blast
qed

text \<open>A restart over current files: what comes back is again a final part.\<close>

lemma chan_restart:
  assumes inv: "chan_inv i p E w ix k s" and len: "length E < 2 ^ 64" and cur: "files_current i s"
  shows "\<exists>k'. chan_inv i p E w ix k' (usage_step tz s AgentRestart)"
proof -
  let ?r = "NewMeter (uc_disk s)"
  have mok: "meter_ok i E k s" and st: "settled E (uc_evicted s) w k" using inv by (simp_all add: chan_inv_def)
  have num: "numbered E" using mok len by (simp add: meter_ok_def numbered_def)
  obtain a b where ab: "a \<le> b" "b \<le> length E" "of_path i (m_pending ?r) = map ((!) E) [a..<b]"
    "settled E (uc_evicted s) w a"
    using inv unfolding chan_inv_def file_ok_def by blast
  have "\<exists>k'. k' \<le> length E \<and> of_path i (m_pending ?r) = drop k' E \<and> settled E (uc_evicted s) w k'"
  proof (cases "a < b")
    case True
    then have "last (of_path i (m_pending ?r)) = E ! (b - 1)" "of_path i (m_pending ?r) \<noteq> []"
      unfolding ab(3) by (simp_all add: last_map)
    then have "ud_Sequence (E ! (b - 1)) = of_nat (length E)"
      using cur mok by (simp add: files_current_def Let_def meter_ok_def)
    moreover have "unat (ud_Sequence (E ! (b - 1))) = b" using numbered_nth [OF num, of "b - 1"] True ab(2) by simp
    moreover have "unat (of_nat (length E) :: uint64) = length E" using len by (simp add: unat_of_nat take_bit_nat_eq_self)
    ultimately have "b = length E" by simp
    then show ?thesis using ab by (intro exI [of _ a]) (simp add: drop_map_nth)
  next
    case False
    then have "of_path i (m_pending ?r) = []" using ab by simp
    moreover from this have "drop k E = []" using cur mok by (simp add: files_current_def Let_def meter_ok_def)
    ultimately show ?thesis using st mok by (intro exI [of _ k]) (simp add: meter_ok_def)
  qed
  then obtain k' where "k' \<le> length E" "of_path i (m_pending ?r) = drop k' E" "settled E (uc_evicted s) w k'" by blast
  moreover have "m_nextSeq ?r i = of_nat (length E)" using cur mok by (simp add: files_current_def Let_def meter_ok_def)
  ultimately have "chan_inv i p E w ix k' (usage_step tz s AgentRestart)"
    using inv by (simp add: chan_inv_def meter_ok_def)
  then show ?thesis by blast
qed

lemma emitted_grows: "\<exists>more. uc_emitted (usage_step tz s op) = uc_emitted s @ more"
  by (cases op) (auto simp: Let_def split: prod.split)

lemma chan_step:
  assumes inv: "chan_inv i p E w ix k s" and E: "E = of_path i (uc_emitted s)"
    and len: "length E < 2 ^ 64" and met: "p_Metered p" and op: "covered i p s op"
  shows "\<exists>w' ix' k'. chan_inv i p (of_path i (uc_emitted (usage_step tz s op))) w' ix' k' (usage_step tz s op)"
proof (cases op)
  case (SampleTick rd now ocfg pok sok)
  then have "of_path i (uc_emitted (usage_step tz s op)) = E @ of_path i (tick_fresh s rd now ocfg)"
    by (simp add: E Let_def split: prod.split)
  then show ?thesis using chan_sample [OF inv, of "usage_step tz s op" tz rd now ocfg pok sok] SampleTick by metis
next
  case Report
  then have "uc_emitted (usage_step tz s op) = uc_emitted s" by (simp add: Let_def)
  with chan_report [OF inv] Report show ?thesis unfolding E by metis
next
  case (Frame n rok fate now)
  then have "uc_emitted (usage_step tz s op) = uc_emitted s" by (simp add: Let_def split: prod.split)
  with chan_frame [OF inv len met] Frame show ?thesis unfolding E by metis
next
  case (Ack n pok)
  then have "uc_emitted (usage_step tz s op) = uc_emitted s" by (simp add: Let_def split: prod.split)
  with chan_ack [OF inv len] Ack show ?thesis unfolding E by metis
next
  case AgentRestart
  moreover have "uc_emitted (usage_step tz s AgentRestart) = uc_emitted s" by simp
  ultimately show ?thesis using chan_restart [OF inv len, of tz] op by (metis E covered.simps(1))
next
  case (SaveSettings cfg)
  with inv op show ?thesis by (auto simp: E chan_inv_def meter_ok_def)
qed


interpretation usage_runs: admitted_run "usage_step tz" "covered i p" "\<lambda>s. p_Metered p \<and> exactly_once i p s" for tz i p
proof unfold_locales
  fix op s
  assume op: "covered i p s op" and inv: "p_Metered p \<and> exactly_once i p s"
  obtain more where more: "uc_emitted (usage_step tz s op) = uc_emitted s @ more" using emitted_grows by blast
  show "p_Metered p \<and> exactly_once i p (usage_step tz s op)"
    unfolding exactly_once_def
  proof (intro conjI impI)
    assume "length (of_path i (uc_emitted (usage_step tz s op))) < 2 ^ 64"
    then have len: "length (of_path i (uc_emitted s)) < 2 ^ 64" by (simp add: more)
    with inv obtain w ix k where "chan_inv i p (of_path i (uc_emitted s)) w ix k s"
      by (auto simp: exactly_once_def)
    from chan_step [OF this refl len _ op] inv
    show "\<exists>w ix k. chan_inv i p (of_path i (uc_emitted (usage_step tz s op))) w ix k (usage_step tz s op)" by blast
  qed (use inv in blast)
qed

lemma usage_start_ok: "PathByID cfg i = Some p \<Longrightarrow> exactly_once i p (usage_start cfg)"
  unfolding exactly_once_def chan_inv_def
  by (intro impI exI [of _ 0] exI [of _ "[]"])
    (simp add: usage_start_def meter_ok_def file_ok_def NewMeter_def meter_load_def settled_def ledger_ok_def
      watermark_def read_watermark_def MetaChecked_def empty_store_def usage_rows_def)

lemma start_exactly_once:
  "PathByID cfg i = Some p \<Longrightarrow> p_Metered p \<Longrightarrow> admitted (usage_step tz) (covered i p) (usage_start cfg) ops \<Longrightarrow>
   exactly_once i p (foldl (usage_step tz) (usage_start cfg) ops)"
  using usage_runs.admitted_run_inv [of tz i p "usage_start cfg" ops] usage_start_ok by blast





text \<open>C3. Metered usage is billed exactly once while the path stays configured as it is and the
  agent restarts only over files that are current for the path. However sampling, reporting,
  resends, late and repeated deliveries, failing or silently succeeding commits, late and lost
  acks, failed writes of the buffer and of the counters, such restarts and settings saves
  interleave, the ledger rows of a metered path are those of an increasing selection of the
  deltas sampled for it (fewer than 2^64), so none is billed twice or out of order, and every
  delta not among them is still buffered or was dropped by the full buffer. Over files that
  are not current the claim fails: \<open>Meter.save_lost_reuses_sequence\<close>.\<close>

theorem usage_exactly_once:
  assumes "PathByID cfg i = Some p" and "p_Metered p"
    and "admitted (usage_step tz) (covered i p) (usage_start cfg) ops"
    and "s = foldl (usage_step tz) (usage_start cfg) ops" and "E = of_path i (uc_emitted s)" and "length E < 2 ^ 64"
  shows "\<exists>ix. sorted_wrt (<) ix \<and> (\<forall>j \<in> set ix. j < length E) \<and>
    usage_rows (uc_store s) i = map (\<lambda>j. billed_delta (p_Quota p) (E ! j)) ix \<and>
    (\<forall>j < length E. j \<in> set ix \<or> E ! j \<in> set (m_pending (uc_meter s)) \<or> E ! j \<in> set (uc_evicted s))"
proof -
  have "exactly_once i p s" using start_exactly_once [OF assms(1-3)] assms(4) by simp
  then obtain w ix k where inv: "chan_inv i p E w ix k s" using assms(5,6) by (auto simp: exactly_once_def)
  then have led: "ledger_ok i (p_Quota p) E (uc_evicted s) w ix (uc_store s)"
    and st: "settled E (uc_evicted s) w k" and pend: "of_path i (m_pending (uc_meter s)) = drop k E"
    by (simp_all add: chan_inv_def meter_ok_def)
  have "E ! j \<in> set (m_pending (uc_meter s))" if "k \<le> j" "j < length E" for j
  proof -
    have "E ! j \<in> set (drop k E)" using that by (auto simp: drop_map_nth)
    then show ?thesis unfolding pend [symmetric] by (simp add: of_path_def)
  qed
  then have "\<forall>j < length E. j \<in> set ix \<or> E ! j \<in> set (m_pending (uc_meter s)) \<or> E ! j \<in> set (uc_evicted s)"
    using led st unfolding ledger_ok_def settled_def by (metis not_le)
  with led show ?thesis unfolding ledger_ok_def by (metis less_le_trans)
qed

text \<open>The watermark of every path only ever advances, whatever happens: failed writes, unreadable
  rows and settings that drop the path included.\<close>

theorem watermark_never_falls: "mark_nat i s \<le> mark_nat i (foldl (usage_step tz) s ops)"
  by (rule watermark_runs.run_mono)



section \<open>A concrete channel\<close>

definition metered_path :: PathConfig where
  "metered_path = \<lparr>p_ID = 2, p_Name = ''lte'', p_Iface = ''wg1'', p_Priority = 2, p_Table = 0, p_Mark = 0,
     p_Enabled = True, p_Metered = True, p_Quota = zero_quota, p_Shape = no_shape\<rparr>"

definition metered_cfg :: Config where
  "metered_cfg = Defaults\<lparr>c_Paths := [metered_path]\<rparr>"

text \<open>Two samples, so one delta; a report delivered with the commit refused, reported again and
  delivered twice; the ack, whose write of the buffer file fails; a restart, which brings the
  billed delta back; and that one reported and delivered once more.\<close>

definition two_ticks :: "usage_op list" where
  "two_ticks = [SampleTick (\<lambda>_. Some (reading 100 2)) 0 (Some (backendConfig metered_cfg)) True True,
     SampleTick (\<lambda>_. Some (reading 150 3)) 0 (Some (backendConfig metered_cfg)) True True]"

definition rough_ride :: "usage_op list" where
  "rough_ride = [Report, Frame 0 (\<lambda>_. True) (\<lambda>_. (0, \<lambda>_. True, Unreported)) 0, Report,
     Frame 1 (\<lambda>_. True) (\<lambda>_. (0, \<lambda>_. True, Applied)) 0, Frame 0 (\<lambda>_. True) (\<lambda>_. (0, \<lambda>_. True, Applied)) 0,
     Ack 1 False, AgentRestart, Report, Frame 2 (\<lambda>_. True) (\<lambda>_. (0, \<lambda>_. True, Applied)) 0]"

lemma metered_cfg_path: "PathByID metered_cfg 2 = Some metered_path"
  by (simp add: metered_cfg_def PathByID_def metered_path_def)

lemma two_ticks_state:
  "uc_emitted (foldl (usage_step tz) (usage_start metered_cfg) two_ticks) =
     [\<lparr>ud_PathID = 2, ud_Bytes = 50, ud_Packets = 1, ud_AtUnix = to_unix 0, ud_Sequence = 1\<rparr>]"
  "m_pending (uc_meter (foldl (usage_step tz) (usage_start metered_cfg) two_ticks)) =
     [\<lparr>ud_PathID = 2, ud_Bytes = 50, ud_Packets = 1, ud_AtUnix = to_unix 0, ud_Sequence = 1\<rparr>]"
  by (simp_all add: two_ticks_def tick_fresh_def usage_start_def sample_def sample_path_def backendConfig_def
    path_info_def metered_cfg_def metered_path_def reading_def Counters_Bytes_def Counters_Packets_def
    wrap64_def buffer_add_def last_n_def maxBuffered_def Let_def)

lemma emitted_same:
  "uc_emitted (usage_step tz s Report) = uc_emitted s"
  "uc_emitted (usage_step tz s (Frame k rok fate now)) = uc_emitted s"
  "uc_emitted (usage_step tz s (Ack k pok)) = uc_emitted s"
  "uc_emitted (usage_step tz s AgentRestart) = uc_emitted s"
  by (simp_all add: Let_def split: prod.split)

lemma rough_emitted: "uc_emitted (foldl (usage_step tz) s rough_ride) = uc_emitted s"
  unfolding rough_ride_def by (simp only: foldl.simps emitted_same)

text \<open>What a restart reads is written by ticks and acks alone.\<close>

lemma files_same:
  "uc_disk (usage_step tz s Report) = uc_disk s"
  "uc_disk (usage_step tz s (Frame k rok fate now)) = uc_disk s"
  "uc_disk (usage_step tz s (Ack k False)) = uc_disk s"
  "m_nextSeq (uc_meter (usage_step tz s Report)) = m_nextSeq (uc_meter s)"
  "m_nextSeq (uc_meter (usage_step tz s (Frame k rok fate now))) = m_nextSeq (uc_meter s)"
  "m_nextSeq (uc_meter (usage_step tz s (Ack k pok))) = m_nextSeq (uc_meter s)"
  by (simp_all add: AckApplied_def persist_def Let_def split: prod.split)

lemma two_ticks_files:
  "of_path 2 (m_pending (NewMeter (uc_disk (foldl (usage_step tz) (usage_start metered_cfg) two_ticks)))) =
     [\<lparr>ud_PathID = 2, ud_Bytes = 50, ud_Packets = 1, ud_AtUnix = to_unix 0, ud_Sequence = 1\<rparr>]"
  "m_nextSeq (NewMeter (uc_disk (foldl (usage_step tz) (usage_start metered_cfg) two_ticks))) 2 = 1"
  "m_nextSeq (uc_meter (foldl (usage_step tz) (usage_start metered_cfg) two_ticks)) 2 = 1"
  by (simp_all add: two_ticks_def tick_fresh_def usage_start_def sample_def sample_path_def backendConfig_def
    path_info_def metered_cfg_def metered_path_def reading_def Counters_Bytes_def Counters_Packets_def
    wrap64_def buffer_add_def last_n_def maxBuffered_def persist_def meter_save_def NewMeter_def meter_load_def
    Let_def)

lemma rough_admitted:
  "admitted (usage_step tz) (covered 2 metered_path) (usage_start metered_cfg) (two_ticks @ rough_ride)"
proof -
  let ?s = "foldl (usage_step tz) (usage_start metered_cfg) two_ticks"
  have "admitted (usage_step tz) (covered 2 metered_path) (usage_start metered_cfg) two_ticks"
    by (simp add: two_ticks_def)
  moreover have "admitted (usage_step tz) (covered 2 metered_path) ?s rough_ride"
    unfolding rough_ride_def admitted.simps covered.simps files_current_def files_same Let_def two_ticks_files by simp
  ultimately show ?thesis by (simp add: admitted_append)
qed

theorem usage_exactly_once_witness:
  "\<exists>ix. sorted_wrt (<) ix \<and> (\<forall>j \<in> set ix. j < Suc 0) \<and>
     length (usage_rows (uc_store (foldl (usage_step (\<lambda>_. None)) (usage_start metered_cfg) (two_ticks @ rough_ride))) 2) = length ix"
proof -
  let ?s = "foldl (usage_step (\<lambda>_. None)) (usage_start metered_cfg) (two_ticks @ rough_ride)"
  have E: "of_path 2 (uc_emitted ?s) = [\<lparr>ud_PathID = 2, ud_Bytes = 50, ud_Packets = 1, ud_AtUnix = to_unix 0, ud_Sequence = 1\<rparr>]"
    by (simp add: rough_emitted two_ticks_state)
  have met: "p_Metered metered_path" by (simp add: metered_path_def)
  have "length (of_path 2 (uc_emitted ?s)) < 2 ^ 64" unfolding E by simp
  from usage_exactly_once [OF metered_cfg_path met rough_admitted refl refl this] obtain ix
    where ix: "sorted_wrt (<) ix" "\<forall>j \<in> set ix. j < length (of_path 2 (uc_emitted ?s))"
      "usage_rows (uc_store ?s) 2 = map (\<lambda>j. billed_delta (p_Quota metered_path) (of_path 2 (uc_emitted ?s) ! j)) ix"
    by blast
  show ?thesis
  proof (intro exI [of _ ix] conjI)
    show "sorted_wrt (<) ix" by (rule ix(1))
    show "\<forall>j \<in> set ix. j < Suc 0" using ix(2) unfolding E by simp
    show "length (usage_rows (uc_store ?s) 2) = length ix" unfolding ix(3) by (rule length_map)
  qed
qed


end
