(* ===== verification/Backend.thy ===== *)
theory Backend
  imports Messages UsageLedger Selector
begin

text \<open>
  The backend agent (\<open>agent/agent.go\<close>, \<open>agent/responder.go\<close>, \<open>agent/client.go\<close>): how it accepts the
  routing decisions that ride on every probe, installs the return path for them, repairs what
  the kernel lost, takes pushed configurations, and answers probes.
\<close>

section \<open>State\<close>

record pathDecision =
  pd_pathID :: int
  pd_seq :: uint64

text \<open>
  The agent with the kernel routing it owns: \<open>ag_return\<close> is the default route of the return
  table, which carries published replies, \<open>ag_overlay\<close> the route to the frontend overlay, which
  carries probes and the control channel, \<open>ag_probe\<close> the per-path probe reply tables and
  \<open>ag_linkers\<close> the routes to extra hosts; the empty string is no route. \<open>ag_applying\<close> is the kind
  of the gated runner, \<open>ag_wake\<close> the token of the worker's channel.
\<close>

record Agent =
  ag_cfg :: BackendConfig
  ag_haveCfg :: bool
  ag_applying :: bool
  ag_active :: int
  ag_lastSeq :: uint64
  ag_pending :: pathDecision
  ag_wake :: bool
  ag_seqBase :: uint64
  ag_seqBaseAt :: gotime
  ag_implausible :: throttle
  ag_return :: string
  ag_overlay :: string
  ag_probe :: "int \<Rightarrow> string"
  ag_linkers :: "string \<rightharpoonup> string"
  ag_cache :: "BackendConfig option"

definition empty_backend_config :: BackendConfig where
  "empty_backend_config = \<lparr>bc_Overlay = \<lparr>oi_FrontendIP = '''', oi_BackendIP = '''', oi_Device = '''', oi_Subnet = ''''\<rparr>,
     bc_Paths = [], bc_Mode = '''', bc_SampleMs = 0, bc_Linkers = [], bc_EgressCIDRs = []\<rparr>"

text \<open>\<open>New\<close>, with \<open>cache\<close> on its disk. The routes are what the kernel holds when the process starts:
  a restarted agent meets the ones its predecessor installed.\<close>

definition ag_New :: "string \<Rightarrow> string \<Rightarrow> (int \<Rightarrow> string) \<Rightarrow> (string \<Rightarrow> string option) \<Rightarrow> BackendConfig option \<Rightarrow> Agent" where
  "ag_New ret overlay probe linkers cache = \<lparr>ag_cfg = empty_backend_config, ag_haveCfg = False, ag_applying = False, ag_active = 0, ag_lastSeq = 0,
     ag_pending = \<lparr>pd_pathID = 0, pd_seq = 0\<rparr>, ag_wake = False, ag_seqBase = 0, ag_seqBaseAt = 0,
     ag_implausible = no_throttle, ag_return = ret, ag_overlay = overlay, ag_probe = probe,
     ag_linkers = linkers, ag_cache = cache\<rparr>"

text \<open>A host with nothing of the agent's installed.\<close>

abbreviation clean_New :: "BackendConfig option \<Rightarrow> Agent" where
  "clean_New \<equiv> ag_New '''' '''' (\<lambda>_. '''') Map.empty"

section \<open>Plausible sequences\<close>

definition decisionSeqSkew :: duration where "decisionSeqSkew = 7 * 24 * 3600 * 1000000000"
definition decisionSeqHorizonMs :: int where "decisionSeqHorizonMs = 4102444800000"

text \<open>\<open>Duration.Milliseconds\<close> of a non-negative duration and \<open>Time.UnixMilli\<close>.\<close>

definition Milliseconds :: "duration \<Rightarrow> int" where "Milliseconds d = go_div d 1000000"
definition UnixMilli :: "gotime \<Rightarrow> int" where "UnixMilli t = wrap64 ((t - unix_epoch) div 1000000)"

text \<open>
  A Go time carries two readings: \<open>baseAt\<close> and \<open>now\<close> are the monotonic ones, which \<open>Sub\<close> uses;
  \<open>wall\<close> is the wall reading of \<open>now\<close>, which \<open>UnixMilli\<close> uses.
\<close>

definition plausibleDecisionSeq :: "uint64 \<Rightarrow> uint64 \<Rightarrow> gotime \<Rightarrow> gotime \<Rightarrow> gotime \<Rightarrow> bool" where
  "plausibleDecisionSeq sq base baseAt now wall =
     (if uint (drop_bit 16 sq) > decisionSeqHorizonMs then False
      else if base = 0 then True
      else let elapsed = time_Sub now baseAt;
               elapsed = (if elapsed < 0 then 0 else elapsed);
               ceiling = base + push_bit 16 (word_of_int (Milliseconds elapsed));
               ms = UnixMilli wall;
               ceiling = (if ms > 0 \<and> ms \<le> decisionSeqHorizonMs \<and> push_bit 16 (word_of_int ms) > ceiling
                          then push_bit 16 (word_of_int ms) else ceiling)
           in sq \<le> ceiling + push_bit 16 (word_of_int (Milliseconds decisionSeqSkew)))"

definition anchorDecisionSeq :: "uint64 \<Rightarrow> gotime \<Rightarrow> Agent \<Rightarrow> Agent" where
  "anchorDecisionSeq sq now ag =
     (if ag_seqBase ag = 0 then ag\<lparr>ag_seqBase := sq, ag_seqBaseAt := now\<rparr> else ag)"

definition warnImplausibleSeq :: "gotime \<Rightarrow> Agent \<Rightarrow> Agent" where
  "warnImplausibleSeq now ag = ag\<lparr>ag_implausible := snd (throttle_take now (ag_implausible ag))\<rparr>"

section \<open>Decisions\<close>

definition ag_SetActivePath :: "int \<Rightarrow> uint64 \<Rightarrow> gotime \<Rightarrow> gotime \<Rightarrow> Agent \<Rightarrow> Agent" where
  "ag_SetActivePath pathID decisionSeq now wall ag =
     (if pathID = 0 then ag
      else if \<not> plausibleDecisionSeq decisionSeq (ag_seqBase ag) (ag_seqBaseAt ag) now wall
      then warnImplausibleSeq now ag
      else let ag = (if ag_seqBase ag = 0 then anchorDecisionSeq decisionSeq now ag else ag)
           in if decisionSeq < ag_lastSeq ag \<or> (pathID = ag_active ag \<and> decisionSeq \<le> ag_lastSeq ag) then ag
              else let ag = (if decisionSeq \<ge> pd_seq (ag_pending ag)
                             then ag\<lparr>ag_pending := \<lparr>pd_pathID = pathID, pd_seq = decisionSeq\<rparr>\<rparr> else ag)
                   in ag\<lparr>ag_wake := True\<rparr>)"

text \<open>The interface of a path id: the last entry of the list wins, none is the empty string.\<close>

definition iface_of :: "BackendConfig \<Rightarrow> int \<Rightarrow> string" where
  "iface_of cfg i = foldl (\<lambda>acc p. if pi_ID p = i then pi_Iface p else acc) '''' (bc_Paths cfg)"

text \<open>\<open>rp\<close> and \<open>ov\<close> say whether the system takes a return or overlay route through an interface. The
  dry runner of observe mode reports success and installs nothing.\<close>

definition SetReturnPath :: "(string \<Rightarrow> bool) \<Rightarrow> string \<Rightarrow> Agent \<Rightarrow> bool \<times> Agent" where
  "SetReturnPath rp iface ag =
     (if \<not> ag_applying ag then (True, ag)
      else if rp iface then (True, ag\<lparr>ag_return := iface\<rparr>) else (False, ag))"

definition set_overlay :: "(string \<Rightarrow> bool) \<Rightarrow> string \<Rightarrow> Agent \<Rightarrow> Agent" where
  "set_overlay ov iface ag = (if ov iface then ag\<lparr>ag_overlay := iface\<rparr> else ag)"

definition note_seq :: "uint64 \<Rightarrow> Agent \<Rightarrow> Agent" where
  "note_seq sq ag = (if sq > ag_lastSeq ag then ag\<lparr>ag_lastSeq := sq\<rparr> else ag)"

definition applyDecision :: "(string \<Rightarrow> bool) \<Rightarrow> (string \<Rightarrow> bool) \<Rightarrow> int \<Rightarrow> uint64 \<Rightarrow> Agent \<Rightarrow> Agent" where
  "applyDecision rp ov pathID decisionSeq ag =
     (if pathID = 0 then ag
      else if decisionSeq < ag_lastSeq ag then ag
      else if pathID = ag_active ag then note_seq decisionSeq ag
      else let iface = iface_of (ag_cfg ag) pathID
           in if iface = '''' then ag
              else case SetReturnPath rp iface ag of
                     (False, ag) \<Rightarrow> ag
                   | (True, ag) \<Rightarrow> note_seq decisionSeq ((set_overlay ov iface ag)\<lparr>ag_active := pathID\<rparr>))"

text \<open>The two cases of \<open>applyLoop\<close> that act: the wake token is taken and the queued decision applied.\<close>

definition apply_wake :: "(string \<Rightarrow> bool) \<Rightarrow> (string \<Rightarrow> bool) \<Rightarrow> Agent \<Rightarrow> Agent" where
  "apply_wake rp ov ag =
     (if \<not> ag_wake ag then ag
      else let ag = ag\<lparr>ag_wake := False\<rparr>; d = ag_pending ag
           in if pd_pathID d \<noteq> 0 then applyDecision rp ov (pd_pathID d) (pd_seq d) ag else ag)"

text \<open>The route repairs of \<open>reconcileRouting\<close>; the reverse-path filter and the shaper, which hold no
  route, are left out. \<open>rd\<close> says whether the kernel could be asked, \<open>ifx\<close> which interfaces exist,
  \<open>pr\<close> and \<open>lk\<close> whether a probe table or a linker route is taken.\<close>

definition repair_probe :: "bool \<Rightarrow> (string \<Rightarrow> bool) \<Rightarrow> (string \<Rightarrow> bool) \<Rightarrow> Agent \<Rightarrow> PathInfo \<Rightarrow> Agent" where
  "repair_probe rd ifx pr ag p =
     (if \<not> ifx (pi_Iface p) then ag
      else if \<not> rd \<or> ag_probe ag (pi_Table p) = pi_Iface p then ag
      else if pr (pi_Iface p) then ag\<lparr>ag_probe := (ag_probe ag)(pi_Table p := pi_Iface p)\<rparr> else ag)"

definition repair_linker :: "bool \<Rightarrow> (string \<Rightarrow> bool) \<Rightarrow> Agent \<Rightarrow> LinkerRoute \<Rightarrow> Agent" where
  "repair_linker rd lk ag l =
     (if \<not> rd \<or> ag_linkers ag (lr_OverlayIP l) = Some (lr_LanIP l) then ag
      else if lk (lr_OverlayIP l) then ag\<lparr>ag_linkers := (ag_linkers ag)(lr_OverlayIP l \<mapsto> lr_LanIP l)\<rparr> else ag)"

definition ag_reconcileRouting ::
    "bool \<Rightarrow> (string \<Rightarrow> bool) \<Rightarrow> (string \<Rightarrow> bool) \<Rightarrow> (string \<Rightarrow> bool) \<Rightarrow> (string \<Rightarrow> bool) \<Rightarrow> (string \<Rightarrow> bool) \<Rightarrow> Agent \<Rightarrow> Agent" where
  "ag_reconcileRouting rd ifx pr lk rp ov ag =
     (if \<not> ag_haveCfg ag then ag
      else let cfg = ag_cfg ag;
               ag = foldl (repair_probe rd ifx pr) ag (bc_Paths cfg);
               iface = iface_of cfg (ag_active ag)
           in if iface = '''' \<or> \<not> ifx iface then ag
              else let ag = (if rd \<and> ag_overlay ag \<noteq> iface then set_overlay ov iface ag else ag);
                       ag = foldl (repair_linker rd lk) ag (bc_Linkers cfg)
                   in if \<not> ag_applying ag then ag
                      else if rd \<and> ag_return ag \<noteq> iface then snd (SetReturnPath rp iface ag) else ag)"

section \<open>Configuration\<close>

text \<open>The route half of \<open>applyPlumbing\<close>: probe tables, linker routes and the seed of the control
  channel's route before the first decision. Sysctls, rules, nftables and shaping hold no route.\<close>

definition seed_overlay :: "(string \<Rightarrow> bool) \<Rightarrow> (string \<Rightarrow> bool) \<Rightarrow> BackendConfig \<Rightarrow> Agent \<Rightarrow> Agent" where
  "seed_overlay ifx ov cfg ag =
     (if ag_active ag \<noteq> 0 then ag
      else case find (\<lambda>p. ifx (pi_Iface p)) (bc_Paths cfg) of
             None \<Rightarrow> ag | Some p \<Rightarrow> set_overlay ov (pi_Iface p) ag)"

definition applyPlumbing ::
    "(string \<Rightarrow> bool) \<Rightarrow> (string \<Rightarrow> bool) \<Rightarrow> (string \<Rightarrow> bool) \<Rightarrow> (string \<Rightarrow> bool) \<Rightarrow> BackendConfig \<Rightarrow> Agent \<Rightarrow> Agent" where
  "applyPlumbing ifx pr lk ov cfg ag =
     (let ag = foldl (\<lambda>ag p. if pr (pi_Iface p) then ag\<lparr>ag_probe := (ag_probe ag)(pi_Table p := pi_Iface p)\<rparr> else ag)
                 ag (bc_Paths cfg);
          ag = foldl (\<lambda>ag l. if lk (lr_OverlayIP l)
                 then ag\<lparr>ag_linkers := (ag_linkers ag)(lr_OverlayIP l \<mapsto> lr_LanIP l)\<rparr> else ag) ag (bc_Linkers cfg)
      in seed_overlay ifx ov cfg ag)"

definition withdrawRemovedLinkers :: "LinkerRoute list \<Rightarrow> LinkerRoute list \<Rightarrow> Agent \<Rightarrow> Agent" where
  "withdrawRemovedLinkers prev now ag =
     (if prev = [] then ag
      else ag\<lparr>ag_linkers := foldl (\<lambda>m l. if lr_OverlayIP l \<in> lr_OverlayIP ` set now then m else m(lr_OverlayIP l := None))
                (ag_linkers ag) prev\<rparr>)"

definition reassertReturnPath :: "(string \<Rightarrow> bool) \<Rightarrow> Agent \<Rightarrow> Agent" where
  "reassertReturnPath rp ag =
     (if ag_active ag = 0 then ag
      else case find (\<lambda>p. pi_ID p = ag_active ag) (bc_Paths (ag_cfg ag)) of
             None \<Rightarrow> ag | Some p \<Rightarrow> snd (SetReturnPath rp (pi_Iface p) ag))"

definition ApplyConfig ::
    "(string \<Rightarrow> bool) \<Rightarrow> (string \<Rightarrow> bool) \<Rightarrow> (string \<Rightarrow> bool) \<Rightarrow> (string \<Rightarrow> bool) \<Rightarrow> (string \<Rightarrow> bool) \<Rightarrow> bool
     \<Rightarrow> BackendConfig \<Rightarrow> Agent \<Rightarrow> Agent" where
  "ApplyConfig ifx pr lk rp ov cached cfg ag =
     (let prev = ag_cfg ag;
          ag = ag\<lparr>ag_cfg := cfg, ag_haveCfg := True, ag_applying := runnerFor (bc_Mode cfg)\<rparr>;
          ag = (if cached then ag\<lparr>ag_cache := Some cfg\<rparr> else ag);
          ag = applyPlumbing ifx pr lk ov cfg ag;
          ag = withdrawRemovedLinkers (bc_Linkers prev) (bc_Linkers cfg) ag
      in reassertReturnPath rp ag)"

definition loadCachedConfig :: "Agent \<Rightarrow> Agent" where
  "loadCachedConfig ag =
     (case ag_cache ag of None \<Rightarrow> ag
      | Some cfg \<Rightarrow> ag\<lparr>ag_cfg := cfg, ag_haveCfg := True, ag_applying := runnerFor (bc_Mode cfg)\<rparr>)"

section \<open>Startup and revert\<close>

text \<open>The overlay addressing: what was pushed, else what the bootstrap file \<open>boot\<close> says.\<close>

definition ag_Overlay :: "OverlayConfig \<Rightarrow> Agent \<Rightarrow> OverlayConfig" where
  "ag_Overlay boot ag =
     (if \<not> ag_haveCfg ag then boot
      else let o1 = (if oi_FrontendIP (bc_Overlay (ag_cfg ag)) \<noteq> ''''
                     then boot\<lparr>ov_FrontendIP := oi_FrontendIP (bc_Overlay (ag_cfg ag))\<rparr> else boot)
           in if oi_BackendIP (bc_Overlay (ag_cfg ag)) \<noteq> ''''
              then o1\<lparr>ov_BackendIP := oi_BackendIP (bc_Overlay (ag_cfg ag))\<rparr> else o1)"

definition provisionalConfig :: "OverlayConfig \<Rightarrow> Agent \<Rightarrow> BackendConfig" where
  "provisionalConfig boot ag =
     (let ov = ag_Overlay boot ag
      in empty_backend_config\<lparr>bc_Mode := ModeObserve,
           bc_Overlay := \<lparr>oi_FrontendIP = ov_FrontendIP ov, oi_BackendIP = ov_BackendIP ov,
             oi_Device = ov_Device ov, oi_Subnet = ov_Subnet ov\<rparr>,
           bc_Paths := map (\<lambda>p. \<lparr>pi_ID = p_ID p, pi_Name = p_Name p, pi_Iface = p_Iface p, pi_Table = p_Table p,
             pi_Mark = p_Mark p, pi_Metered = False, pi_ShapeMbit = Fin 0\<rparr>) (c_Paths Defaults)\<rparr>)"

text \<open>What \<open>Run\<close> does before its goroutines start.\<close>

definition ag_Run ::
    "(string \<Rightarrow> bool) \<Rightarrow> (string \<Rightarrow> bool) \<Rightarrow> (string \<Rightarrow> bool) \<Rightarrow> (string \<Rightarrow> bool) \<Rightarrow> OverlayConfig \<Rightarrow> Agent \<Rightarrow> Agent" where
  "ag_Run ifx pr lk ov boot ag =
     (let ag = loadCachedConfig ag;
          cfg = (if ag_haveCfg ag then ag_cfg ag else provisionalConfig boot ag)
      in applyPlumbing ifx pr lk ov cfg ag)"

text \<open>\<open>Revert\<close>, the routes: linker routes, the return route, the probe tables and the overlay route.\<close>

definition ag_Revert :: "OverlayConfig \<Rightarrow> Agent \<Rightarrow> Agent" where
  "ag_Revert boot ag =
     (let ag = (if ag_haveCfg ag then ag else loadCachedConfig ag);
          cfg = (if ag_haveCfg ag then ag_cfg ag else provisionalConfig boot ag);
          ag = ag\<lparr>ag_linkers := foldl (\<lambda>m l. m(lr_OverlayIP l := None)) (ag_linkers ag) (bc_Linkers cfg)\<rparr>;
          ag = ag\<lparr>ag_return := ''''\<rparr>;
          ag = ag\<lparr>ag_probe := foldl (\<lambda>m p. m(pi_Table p := '''')) (ag_probe ag) (bc_Paths cfg)\<rparr>
      in ag\<lparr>ag_overlay := ''''\<rparr>)"

section \<open>Answering probes\<close>

text \<open>The reply to a probe, \<open>echo\<close> being this host's clock.\<close>

definition reply_to :: "Probe \<Rightarrow> int \<Rightarrow> Probe" where
  "reply_to msg echo = msg\<lparr>m_Type := TypeReply, m_EchoNanos := echo\<rparr>"

text \<open>One datagram in the loop of \<open>listen\<close>: the decision is taken from it and the reply written on the
  socket of the probe's own path.\<close>

definition respond :: "bytes \<Rightarrow> bytes \<Rightarrow> int \<Rightarrow> gotime \<Rightarrow> gotime \<Rightarrow> Agent \<Rightarrow> (uint16 \<times> bytes) option \<times> Agent" where
  "respond psk pkt echo now wall ag =
     (case Unmarshal (take 512 pkt) psk of
        Inl _ \<Rightarrow> (None, ag)
      | Inr msg \<Rightarrow>
          if m_Type msg \<noteq> TypeProbe then (None, ag)
          else (Some (m_PathID msg, Marshal (reply_to msg echo) psk),
                ag_SetActivePath (uint (m_ActivePath msg)) (m_DecisionSeq msg) now wall ag))"

text \<open>The mark of the reply socket of a path; 0 means the unmarked listener answers.\<close>

definition reply_mark :: "BackendConfig \<Rightarrow> int \<Rightarrow> int" where
  "reply_mark cfg i = foldl (\<lambda>acc p. if pi_ID p = i then pi_Mark p else acc) 0 (bc_Paths cfg)"

section \<open>Dialling\<close>

definition dialBackoffMin :: duration where "dialBackoffMin = 1000000000"
definition dialBackoffMax :: duration where "dialBackoffMax = 30 * 1000000000"
definition sessionSettled :: duration where "sessionSettled = 60 * 1000000000"

definition nextDialBackoff :: "duration \<Rightarrow> duration \<Rightarrow> duration" where
  "nextDialBackoff previous sessionFor =
     (if sessionFor \<ge> sessionSettled then dialBackoffMin
      else let next = wrap64 (previous * 2);
               next = (if next > dialBackoffMax then dialBackoffMax else next)
           in if next < dialBackoffMin then dialBackoffMin else next)"

end
