(* ===== verification/BackendProps.thy ===== *)
theory BackendProps
  imports Backend
begin

text \<open>
  What the backend agent guarantees: the exact bound on decision sequences, that the newest
  decision wins however probes and the worker interleave, that the return route is never on a
  tunnel other than the active path's, and that a reconcile pass restores what the kernel lost.
\<close>

section \<open>The bound on decision sequences\<close>

lemma wallclock_bounds: "0 < ms \<Longrightarrow> ms \<le> decisionSeqHorizonMs \<Longrightarrow> uint (push_bit 16 (word_of_int ms :: uint64)) = ms * 65536"
  by (simp add: decisionSeqHorizonMs_def push_bit_eq_mult uint_word_ariths uint_word_of_int)

lemma Milliseconds_elapsed_bounds:
  "0 \<le> Milliseconds (max 0 (time_Sub now baseAt))" "Milliseconds (max 0 (time_Sub now baseAt)) \<le> 9223372036854"
proof -
  have *: "Milliseconds (max 0 (time_Sub now baseAt)) = max 0 (time_Sub now baseAt) div 1000000"
    by (simp add: Milliseconds_def go_div_nonneg)
  have "max 0 (time_Sub now baseAt) \<le> maxInt64" by (simp add: time_Sub_def minInt64_def maxInt64_def)
  then have "max 0 (time_Sub now baseAt) div 1000000 \<le> maxInt64 div 1000000" by (rule zdiv_mono1) simp
  with * show "Milliseconds (max 0 (time_Sub now baseAt)) \<le> 9223372036854" by (simp add: maxInt64_def)
  show "0 \<le> Milliseconds (max 0 (time_Sub now baseAt))" using * by simp
qed

lemma uint_shifted_ms: "0 \<le> ms \<Longrightarrow> ms \<le> 9223372036854 \<Longrightarrow> uint (push_bit 16 (word_of_int ms :: uint64)) = ms * 65536"
  by (simp add: push_bit_eq_mult uint_word_ariths uint_word_of_int)

lemma uint_add_small: "uint (a::uint64) + uint b < 18446744073709551616 \<Longrightarrow> uint (a + b) = uint a + uint b"
  by (simp add: uint_word_ariths)

text \<open>The ceiling of the elapsed-time reference and of the wall-clock reference, in exact arithmetic.\<close>

definition anchor_ceiling :: "uint64 \<Rightarrow> gotime \<Rightarrow> gotime \<Rightarrow> int" where
  "anchor_ceiling base baseAt now = uint base + 65536 * Milliseconds (max 0 (time_Sub now baseAt))"

definition wall_ceiling :: "gotime \<Rightarrow> int" where
  "wall_ceiling wall = (if 0 < UnixMilli wall \<and> UnixMilli wall \<le> decisionSeqHorizonMs then 65536 * UnixMilli wall else 0)"

lemma drop_bit_horizon: "uint (drop_bit 16 (sq::uint64)) = uint sq div 65536"
  by (simp add: drop_bit_eq_div uint_div)

lemma plausible_exact:
  assumes base: "uint base div 65536 \<le> decisionSeqHorizonMs"
  shows "plausibleDecisionSeq sq base baseAt now wall \<longleftrightarrow>
    uint sq div 65536 \<le> decisionSeqHorizonMs \<and>
    (base = 0 \<or> uint sq \<le> max (anchor_ceiling base baseAt now) (wall_ceiling wall) + 65536 * 604800000)"
proof -
  have clamp: "(if time_Sub now baseAt < 0 then 0 else time_Sub now baseAt) = max 0 (time_Sub now baseAt)" by (simp add: max_def)
  define e where "e = Milliseconds (max 0 (time_Sub now baseAt))"
  have e: "0 \<le> e" "e \<le> 9223372036854" using Milliseconds_elapsed_bounds e_def by auto
  have b: "uint base < (decisionSeqHorizonMs + 1) * 65536" using base by (simp add: decisionSeqHorizonMs_def)
  define w :: uint64 where "w = word_of_int e"
  have w: "uint (push_bit 16 w) = e * 65536" using e by (simp add: w_def uint_shifted_ms)
  define c where "c = base + push_bit 16 w"
  have c: "uint c = anchor_ceiling base baseAt now"
    using b e w by (simp add: c_def anchor_ceiling_def e_def [symmetric] uint_add_small decisionSeqHorizonMs_def)
  define d where "d = (if UnixMilli wall > 0 \<and> UnixMilli wall \<le> decisionSeqHorizonMs \<and>
      push_bit 16 (word_of_int (UnixMilli wall)) > c then push_bit 16 (word_of_int (UnixMilli wall)) else c)"
  have d: "uint d = max (uint c) (wall_ceiling wall)"
  proof (cases "0 < UnixMilli wall \<and> UnixMilli wall \<le> decisionSeqHorizonMs")
    case True
    then have "uint (push_bit 16 (word_of_int (UnixMilli wall) :: uint64)) = UnixMilli wall * 65536" by (simp add: wallclock_bounds)
    with True show ?thesis by (simp add: d_def wall_ceiling_def word_less_def max_def)
  qed (auto simp: d_def wall_ceiling_def max_def)
  have skew: "uint (push_bit 16 (word_of_int (Milliseconds decisionSeqSkew) :: uint64)) = 65536 * 604800000"
    by (simp add: Milliseconds_def decisionSeqSkew_def go_div_nonneg push_bit_eq_mult uint_word_ariths)
  have d_small: "uint d \<le> 900000000000000000"
    using d c b e by (simp add: anchor_ceiling_def e_def [symmetric] wall_ceiling_def decisionSeqHorizonMs_def)
  have "uint (d + push_bit 16 (word_of_int (Milliseconds decisionSeqSkew))) = uint d + 65536 * 604800000"
    using d_small skew by (simp add: uint_add_small)
  then have "sq \<le> d + push_bit 16 (word_of_int (Milliseconds decisionSeqSkew)) \<longleftrightarrow>
      uint sq \<le> max (anchor_ceiling base baseAt now) (wall_ceiling wall) + 65536 * 604800000"
    by (simp add: word_le_def d c)
  moreover have "plausibleDecisionSeq sq base baseAt now wall \<longleftrightarrow> \<not> uint sq div 65536 > decisionSeqHorizonMs \<and>
      (base = 0 \<or> sq \<le> d + push_bit 16 (word_of_int (Milliseconds decisionSeqSkew)))"
    unfolding plausibleDecisionSeq_def Let_def d_def c_def w_def e_def drop_bit_horizon clamp by simp
  ultimately show ?thesis by (simp add: not_less)
qed

text \<open>A decision sequence is accepted exactly when its millisecond part is before the year 2100
  and, once an anchor is recorded, it lies at most a week above the higher of the anchor moved on
  by the elapsed time and this host's wall clock; in particular a sequence a correct frontend
  could have sent since the anchor is accepted whatever the wall clock reads.\<close>

theorem plausible_wall_only_widens:
  assumes "uint base div 65536 \<le> decisionSeqHorizonMs"
  shows "(plausibleDecisionSeq sq base baseAt now wall \<longleftrightarrow>
       uint sq div 65536 \<le> decisionSeqHorizonMs \<and>
       (base = 0 \<or> uint sq \<le> max (anchor_ceiling base baseAt now) (wall_ceiling wall) + 65536 * 604800000)) \<and>
     (uint sq div 65536 \<le> decisionSeqHorizonMs \<and> uint sq \<le> anchor_ceiling base baseAt now \<longrightarrow>
       (\<forall>clock. plausibleDecisionSeq sq base baseAt now clock))"
  using plausible_exact [OF assms] by (auto simp: max_def)

theorem plausible_wall_only_widens_witness:
  "plausibleDecisionSeq (65536 * 1700000000000) (65536 * 1700000000000) 0 0 0 \<and>
   \<not> plausibleDecisionSeq (65536 * 1700604800001) (65536 * 1700000000000) 0 0 0"
  using plausible_wall_only_widens [of "65536 * 1700000000000" "65536 * 1700604800001" 0 0 0]
    plausible_wall_only_widens [of "65536 * 1700000000000" "65536 * 1700000000000" 0 0 0]
  by (simp add: decisionSeqHorizonMs_def anchor_ceiling_def wall_ceiling_def UnixMilli_def unix_epoch_def wrap64_def
      Milliseconds_def go_div_def time_Sub_def minInt64_def maxInt64_def)

section \<open>Steps of the agent\<close>

text \<open>
  The goroutines of the agent interleave at the granularity of \<open>applyMu\<close> and of the single probe:
  the read loop of the responder, the two cases of the worker and a push on the control channel.
  \<open>RouteLost\<close> is the kernel dropping the routes of a deleted interface.
\<close>

datatype agent_op =
    Probed int uint64 gotime gotime
  | Woken "string \<Rightarrow> bool" "string \<Rightarrow> bool"
  | Reconciled bool "string \<Rightarrow> bool" "string \<Rightarrow> bool" "string \<Rightarrow> bool" "string \<Rightarrow> bool" "string \<Rightarrow> bool"
  | Pushed "string \<Rightarrow> bool" "string \<Rightarrow> bool" "string \<Rightarrow> bool" "string \<Rightarrow> bool" "string \<Rightarrow> bool" bool BackendConfig
  | RouteLost

fun agent_step :: "Agent \<Rightarrow> agent_op \<Rightarrow> Agent" where
  "agent_step ag (Probed i sq now wall) = ag_SetActivePath i sq now wall ag"
| "agent_step ag (Woken rp ov) = apply_wake rp ov ag"
| "agent_step ag (Reconciled rd ifx pr lk rp ov) = ag_reconcileRouting rd ifx pr lk rp ov ag"
| "agent_step ag (Pushed ifx pr lk rp ov cached cfg) = ApplyConfig ifx pr lk rp ov cached cfg ag"
| "agent_step ag RouteLost = ag\<lparr>ag_return := '''', ag_overlay := ''''\<rparr>"

text \<open>What the decision logic reads: routes and repairs leave it alone.\<close>

definition control :: "Agent \<Rightarrow> BackendConfig \<times> bool \<times> int \<times> uint64 \<times> pathDecision \<times> bool \<times> uint64 \<times> gotime" where
  "control ag = (ag_cfg ag, ag_applying ag, ag_active ag, ag_lastSeq ag, ag_pending ag, ag_wake ag, ag_seqBase ag, ag_seqBaseAt ag)"

lemma foldl_keeps: "(\<And>s x. f (g s x) = f s) \<Longrightarrow> f (foldl g s xs) = f s"
  by (induction xs arbitrary: s) simp_all

lemma set_overlay_fields [simp]:
  "control (set_overlay ov i ag) = control ag" "ag_return (set_overlay ov i ag) = ag_return ag"
  "ag_haveCfg (set_overlay ov i ag) = ag_haveCfg ag"
  "ag_cfg (set_overlay ov i ag) = ag_cfg ag" "ag_active (set_overlay ov i ag) = ag_active ag"
  "ag_applying (set_overlay ov i ag) = ag_applying ag" "ag_lastSeq (set_overlay ov i ag) = ag_lastSeq ag"
  "ag_pending (set_overlay ov i ag) = ag_pending ag" "ag_wake (set_overlay ov i ag) = ag_wake ag"
  "ag_seqBase (set_overlay ov i ag) = ag_seqBase ag" "ag_seqBaseAt (set_overlay ov i ag) = ag_seqBaseAt ag"
  by (simp_all add: set_overlay_def control_def)

lemma repair_probe_keeps: "(control (repair_probe rd ifx pr ag p), ag_return (repair_probe rd ifx pr ag p)) = (control ag, ag_return ag)"
  by (simp add: repair_probe_def control_def)

lemma repair_linker_keeps: "(control (repair_linker rd lk ag l), ag_return (repair_linker rd lk ag l)) = (control ag, ag_return ag)"
  by (simp add: repair_linker_def control_def)

lemma repair_probes_keep [simp]:
  "control (foldl (repair_probe rd ifx pr) ag ps) = control ag"
  "ag_return (foldl (repair_probe rd ifx pr) ag ps) = ag_return ag"
  using foldl_keeps [of "\<lambda>ag. (control ag, ag_return ag)" "repair_probe rd ifx pr", OF repair_probe_keeps] by simp_all

lemma repair_linkers_keep [simp]:
  "control (foldl (repair_linker rd lk) ag ls) = control ag"
  "ag_return (foldl (repair_linker rd lk) ag ls) = ag_return ag"
  using foldl_keeps [of "\<lambda>ag. (control ag, ag_return ag)" "repair_linker rd lk", OF repair_linker_keeps] by simp_all

lemma control_fields:
  assumes "control ag = control ag'"
  shows "ag_cfg ag = ag_cfg ag'" "ag_applying ag = ag_applying ag'" "ag_active ag = ag_active ag'"
    "ag_lastSeq ag = ag_lastSeq ag'" "ag_pending ag = ag_pending ag'" "ag_wake ag = ag_wake ag'"
    "ag_seqBase ag = ag_seqBase ag'" "ag_seqBaseAt ag = ag_seqBaseAt ag'"
  using assms by (simp_all add: control_def)

lemmas repairs_fields [simp] = control_fields [OF repair_probes_keep(1)] control_fields [OF repair_linkers_keep(1)]

lemma SetReturnPath_keeps [simp]: "control (snd (SetReturnPath rp i ag)) = control ag"
  by (simp add: SetReturnPath_def control_def)

lemma reconcile_keeps [simp]: "control (ag_reconcileRouting rd ifx pr lk rp ov ag) = control ag"
  by (simp add: ag_reconcileRouting_def Let_def)

lemma reconcile_return:
  "ag_return (ag_reconcileRouting rd ifx pr lk rp ov ag) \<in>
     {ag_return ag} \<union> (if ag_applying ag then {iface_of (ag_cfg ag) (ag_active ag)} else {})"
  by (auto simp: ag_reconcileRouting_def Let_def SetReturnPath_def)

lemma plumbing_keeps [simp]:
  "control (applyPlumbing ifx pr lk ov cfg ag) = control ag"
  "ag_return (applyPlumbing ifx pr lk ov cfg ag) = ag_return ag"
proof -
  let ?f = "\<lambda>ag. (control ag, ag_return ag)"
  let ?p = "\<lambda>ag p. if pr (pi_Iface p) then ag\<lparr>ag_probe := (ag_probe ag)(pi_Table p := pi_Iface p)\<rparr> else ag"
  let ?l = "\<lambda>ag l. if lk (lr_OverlayIP l) then ag\<lparr>ag_linkers := (ag_linkers ag)(lr_OverlayIP l \<mapsto> lr_LanIP l)\<rparr> else ag"
  have p: "?f (foldl ?p ag xs) = ?f ag" for ag xs by (rule foldl_keeps) (simp add: control_def)
  have l: "?f (foldl ?l ag xs) = ?f ag" for ag xs by (rule foldl_keeps) (simp add: control_def)
  have s: "?f (seed_overlay ifx ov cfg ag) = ?f ag" for ag
    by (simp add: seed_overlay_def split: option.split)
  have "?f (applyPlumbing ifx pr lk ov cfg ag) = ?f ag"
    unfolding applyPlumbing_def Let_def by (simp only: s l p)
  then show "control (applyPlumbing ifx pr lk ov cfg ag) = control ag"
    "ag_return (applyPlumbing ifx pr lk ov cfg ag) = ag_return ag" by simp_all
qed

lemma withdraw_keeps [simp]:
  "control (withdrawRemovedLinkers a b ag) = control ag" "ag_return (withdrawRemovedLinkers a b ag) = ag_return ag"
  by (simp_all add: withdrawRemovedLinkers_def control_def)

lemma reassert_keeps [simp]: "control (reassertReturnPath rp ag) = control ag"
  by (simp add: reassertReturnPath_def split: option.split)

lemma push_control:
  "control (ApplyConfig ifx pr lk rp ov cached cfg ag) =
     control (ag\<lparr>ag_cfg := cfg, ag_applying := runnerFor (bc_Mode cfg)\<rparr>)"
  by (simp add: ApplyConfig_def Let_def) (simp add: control_def)

section \<open>The return route\<close>

lemma foldl_iface_find:
  "distinct (map pi_ID ps) \<Longrightarrow>
   foldl (\<lambda>acc p. if pi_ID p = i then pi_Iface p else acc) a ps =
     (case find (\<lambda>p. pi_ID p = i) ps of None \<Rightarrow> a | Some p \<Rightarrow> pi_Iface p)"
proof (induction ps arbitrary: a)
  case (Cons p ps)
  show ?case
  proof (cases "pi_ID p = i")
    case True
    with Cons.prems have "find (\<lambda>q. pi_ID q = i) ps = None" by (simp add: find_None_iff) (metis imageI)
    with True Cons show ?thesis by simp
  qed (use Cons in simp)
qed simp

lemma iface_of_find:
  "distinct (map pi_ID (bc_Paths cfg)) \<Longrightarrow>
   iface_of cfg i = (case find (\<lambda>p. pi_ID p = i) (bc_Paths cfg) of None \<Rightarrow> '''' | Some p \<Rightarrow> pi_Iface p)"
  by (simp add: iface_of_def foldl_iface_find)

text \<open>
  A push after which the route is right if it was: one that leaves or enters observe mode, or
  comes before the first decision; one whose re-assert the system takes for the path in use,
  still configured and its id distinct, as the portal enforces; or, on an armed agent, one that
  leaves that path its interface.
\<close>

fun push_fits :: "Agent \<Rightarrow> agent_op \<Rightarrow> bool" where
  "push_fits ag (Pushed ifx pr lk rp ov cached cfg) \<longleftrightarrow>
     \<not> runnerFor (bc_Mode cfg) \<or> ag_active ag = 0 \<or>
     distinct (map pi_ID (bc_Paths cfg)) \<and> ag_active ag \<in> pi_ID ` set (bc_Paths cfg) \<and>
       (rp (iface_of cfg (ag_active ag)) \<or>
        ag_applying ag \<and> iface_of cfg (ag_active ag) = iface_of (ag_cfg ag) (ag_active ag))"
| "push_fits ag _ \<longleftrightarrow> True"

fun drops_routes :: "agent_op \<Rightarrow> bool" where
  "drops_routes RouteLost \<longleftrightarrow> True"
| "drops_routes _ \<longleftrightarrow> False"

text \<open>\<open>lost\<close>: the kernel may have dropped the route since it was installed.\<close>

definition return_inv :: "bool \<Rightarrow> Agent \<Rightarrow> bool" where
  "return_inv lost ag \<longleftrightarrow>
     (ag_applying ag \<and> ag_active ag \<noteq> 0 \<longrightarrow>
       ag_return ag = iface_of (ag_cfg ag) (ag_active ag) \<or> lost \<and> ag_return ag = '''')"

lemma push_return:
  "ag_return (ApplyConfig ifx pr lk rp ov cached cfg ag) =
     (if ag_active ag \<noteq> 0 \<and> runnerFor (bc_Mode cfg)
      then (case find (\<lambda>p. pi_ID p = ag_active ag) (bc_Paths cfg) of None \<Rightarrow> ag_return ag
            | Some p \<Rightarrow> if rp (pi_Iface p) then pi_Iface p else ag_return ag)
      else ag_return ag)"
proof -
  let ?ag = "withdrawRemovedLinkers (bc_Linkers (ag_cfg ag)) (bc_Linkers cfg)
    (applyPlumbing ifx pr lk ov cfg (if cached
       then ag\<lparr>ag_cfg := cfg, ag_haveCfg := True, ag_applying := runnerFor (bc_Mode cfg), ag_cache := Some cfg\<rparr>
       else ag\<lparr>ag_cfg := cfg, ag_haveCfg := True, ag_applying := runnerFor (bc_Mode cfg)\<rparr>))"
  have c: "control ?ag = control (ag\<lparr>ag_cfg := cfg, ag_applying := runnerFor (bc_Mode cfg)\<rparr>)"
    by simp (simp add: control_def)
  obtain x where x: "x = ?ag" by blast
  note f = control_fields [OF c [folded x], simplified]
  have r: "ag_return x = ag_return ag" by (simp add: x)
  have eq: "ApplyConfig ifx pr lk rp ov cached cfg ag = reassertReturnPath rp x" by (simp add: ApplyConfig_def Let_def x)
  show ?thesis
    unfolding eq by (simp add: reassertReturnPath_def SetReturnPath_def f r split: option.split)
qed

lemma push_return_inv:
  assumes "return_inv lost ag" and "push_fits ag (Pushed ifx pr lk rp ov cached cfg)"
  shows "return_inv lost (ApplyConfig ifx pr lk rp ov cached cfg ag)"
proof (cases "runnerFor (bc_Mode cfg) \<and> ag_active ag \<noteq> 0")
  case True
  with assms(2) obtain p where p: "find (\<lambda>p. pi_ID p = ag_active ag) (bc_Paths cfg) = Some p"
    by (cases "find (\<lambda>p. pi_ID p = ag_active ag) (bc_Paths cfg)") (auto simp: find_None_iff)
  with assms(2) True have i: "iface_of cfg (ag_active ag) = pi_Iface p" by (simp add: iface_of_find)
  note f = control_fields [OF push_control, simplified]
  show ?thesis
    unfolding return_inv_def f push_return using assms True p i by (auto simp: return_inv_def)
qed (auto simp: return_inv_def control_fields [OF push_control, simplified])

lemma applyDecision_return_inv: "return_inv lost ag \<Longrightarrow> return_inv lost (applyDecision rp ov i sq ag)"
  by (auto simp: return_inv_def applyDecision_def note_seq_def SetReturnPath_def Let_def)

lemma SetActivePath_routes [simp]:
  "ag_return (ag_SetActivePath i sq now wall ag) = ag_return ag"
  "ag_active (ag_SetActivePath i sq now wall ag) = ag_active ag"
  "ag_lastSeq (ag_SetActivePath i sq now wall ag) = ag_lastSeq ag"
  "ag_applying (ag_SetActivePath i sq now wall ag) = ag_applying ag"
  "ag_cfg (ag_SetActivePath i sq now wall ag) = ag_cfg ag"
  by (simp_all add: ag_SetActivePath_def anchorDecisionSeq_def warnImplausibleSeq_def Let_def)

lemma step_return_inv:
  assumes "push_fits ag ev \<and> (drops_routes ev \<longrightarrow> lost)" and "return_inv lost ag"
  shows "return_inv lost (agent_step ag ev)"
proof (cases ev)
  case (Woken rp ov)
  have "return_inv lost (ag\<lparr>ag_wake := False\<rparr>)" using assms(2) by (simp add: return_inv_def)
  then show ?thesis using Woken assms(2) by (simp add: apply_wake_def Let_def applyDecision_return_inv)
next
  case (Reconciled rd ifx pr lk rp ov)
  note f = control_fields [OF reconcile_keeps]
  show ?thesis
    using assms(2) reconcile_return [of rd ifx pr lk rp ov ag] Reconciled
    by (auto simp: return_inv_def f split: if_splits)
next
  case (Pushed ifx pr lk rp ov cached cfg)
  then show ?thesis using assms push_return_inv by simp
qed (use assms in \<open>auto simp: return_inv_def\<close>)

interpretation return_runs:
  admitted_run agent_step "\<lambda>ag ev. push_fits ag ev \<and> (drops_routes ev \<longrightarrow> lost)" "return_inv lost" for lost
  by unfold_locales (rule step_return_inv)

lemma admitted_lost:
  "admitted agent_step push_fits ag evs \<Longrightarrow>
   admitted agent_step (\<lambda>ag ev. push_fits ag ev \<and> (drops_routes ev \<longrightarrow> list_ex drops_routes evs')) ag evs"
  if "list_ex drops_routes evs \<longrightarrow> list_ex drops_routes evs'"
  using that by (induction evs arbitrary: ag) auto

lemma Run_return_inv: "return_inv lost (ag_Run ifx pr lk ov boot (ag_New ret overlay probe linkers cache))"
proof -
  note f = control_fields [OF plumbing_keeps(1)]
  show ?thesis
    by (cases cache) (simp_all add: ag_Run_def Let_def return_inv_def f loadCachedConfig_def ag_New_def)
qed

text \<open>C5. Replies follow the active path. From startup on, whatever routes the kernel still holds
  from an earlier process and whatever configuration is cached, through any interleaving of
  probes, the worker, reconcile passes, lost routes, refused installs and configuration pushes, an
  armed backend that has taken a decision sends published replies by the tunnel of the path it
  reports active, or by no tunnel if the kernel has dropped the route. The pushes are those that
  leave armed mode, that come before the first decision, that keep the active path configured and
  have its route re-asserted successfully, or that reach an armed agent and leave the active path
  its interface: a push that arms the agent or moves or removes the active path while the system
  refuses the route parts the two until the next repair.\<close>

theorem replies_follow_active:
  assumes "admitted agent_step push_fits (ag_Run ifx pr lk ov boot (ag_New ret overlay probe linkers cache)) evs"
    and "ag = foldl agent_step (ag_Run ifx pr lk ov boot (ag_New ret overlay probe linkers cache)) evs"
    and "ag_applying ag" and "ag_active ag \<noteq> 0"
  shows "ag_return ag = iface_of (ag_cfg ag) (ag_active ag) \<or> list_ex drops_routes evs \<and> ag_return ag = ''''"
proof -
  have "return_inv (list_ex drops_routes evs) ag"
    unfolding assms(2) by (rule return_runs.admitted_run_inv [OF admitted_lost [OF _ assms(1)] Run_return_inv]) simp
  then show ?thesis using assms(3,4) by (simp add: return_inv_def)
qed

section \<open>Sequences only rise\<close>

lemma applyDecision_lastSeq: "ag_lastSeq ag \<le> ag_lastSeq (applyDecision rp ov i sq ag)"
  by (simp add: applyDecision_def note_seq_def SetReturnPath_def Let_def less_imp_le)

lemma wake_lastSeq: "ag_lastSeq ag \<le> ag_lastSeq (apply_wake rp ov ag)"
  using applyDecision_lastSeq [of "ag\<lparr>ag_wake := False\<rparr>"] by (simp add: apply_wake_def Let_def)

lemma step_lastSeq: "ag_lastSeq ag \<le> ag_lastSeq (agent_step ag ev)"
  by (cases ev) (simp_all add: wake_lastSeq control_fields(4) [OF reconcile_keeps] control_fields(4) [OF push_control])

interpretation decisions_rise: monotone_run agent_step ag_lastSeq
  by unfold_locales (rule step_lastSeq)

lemma applyDecision_stale: "sq < ag_lastSeq ag \<Longrightarrow> applyDecision rp ov i sq ag = ag"
  by (simp add: applyDecision_def)

text \<open>A decision older than one already applied changes neither the routes nor what is queued.\<close>

lemma stale_probe_ignored:
  "sq < ag_lastSeq ag \<Longrightarrow> ag_pending (ag_SetActivePath i sq now wall ag) = ag_pending ag \<and>
     ag_wake (ag_SetActivePath i sq now wall ag) = ag_wake ag"
  by (simp add: ag_SetActivePath_def anchorDecisionSeq_def warnImplausibleSeq_def Let_def)

section \<open>The newest decision wins\<close>

text \<open>Steps among which decision \<open>s\<close> for path \<open>i\<close> is the newest and the path stays known, and steps
  whose worker additionally finds the system taking routes.\<close>

fun no_newer :: "int \<Rightarrow> uint64 \<Rightarrow> agent_op \<Rightarrow> bool" where
  "no_newer i s (Probed j sq now wall) \<longleftrightarrow> sq < s \<or> sq = s \<and> j = i"
| "no_newer i s (Pushed ifx pr lk rp ov cached cfg) \<longleftrightarrow> iface_of cfg i \<noteq> ''''"
| "no_newer i s _ \<longleftrightarrow> True"

fun worker_works :: "agent_op \<Rightarrow> bool" where
  "worker_works (Woken rp ov) \<longleftrightarrow> (\<forall>f. rp f)"
| "worker_works _ \<longleftrightarrow> True"

definition newest_inv :: "int \<Rightarrow> uint64 \<Rightarrow> uint64 \<Rightarrow> gotime \<Rightarrow> Agent \<Rightarrow> bool" where
  "newest_inv i s b t ag \<longleftrightarrow>
     b \<noteq> 0 \<and> i \<noteq> 0 \<and> ag_seqBase ag = b \<and> ag_seqBaseAt ag = t \<and> iface_of (ag_cfg ag) i \<noteq> '''' \<and>
     (ag_lastSeq ag < s \<or> ag_lastSeq ag = s \<and> ag_active ag = i) \<and>
     (pd_seq (ag_pending ag) < s \<or> pd_seq (ag_pending ag) = s \<and> pd_pathID (ag_pending ag) = i)"

definition newest_seen :: "int \<Rightarrow> uint64 \<Rightarrow> uint64 \<Rightarrow> gotime \<Rightarrow> Agent \<Rightarrow> bool" where
  "newest_seen i s b t ag \<longleftrightarrow> newest_inv i s b t ag \<and>
     (ag_lastSeq ag = s \<or> pd_seq (ag_pending ag) = s \<and> ag_wake ag)"

lemma SetActivePath_newest_inv:
  assumes "newest_inv i s b t ag" and "sq < s \<or> sq = s \<and> j = i"
  shows "newest_inv i s b t (ag_SetActivePath j sq now wall ag)"
  using assms by (auto simp: newest_inv_def ag_SetActivePath_def anchorDecisionSeq_def warnImplausibleSeq_def Let_def)

lemma applyDecision_newest_inv:
  assumes "newest_inv i s b t ag" and "sq < s \<or> sq = s \<and> j = i"
  shows "newest_inv i s b t (applyDecision rp ov j sq ag)"
  using assms by (auto simp: newest_inv_def applyDecision_def note_seq_def SetReturnPath_def Let_def)

lemma applyDecision_installs:
  assumes "newest_inv i s b t ag" and "\<forall>f. rp f"
  shows "ag_lastSeq (applyDecision rp ov i s ag) = s"
  using assms by (auto simp: newest_inv_def applyDecision_def note_seq_def SetReturnPath_def Let_def)

lemma newest_inv_control: "control ag = control ag' \<Longrightarrow> newest_inv i s b t ag = newest_inv i s b t ag'"
  by (simp add: newest_inv_def control_fields [of ag ag'])

lemma wake_newest_inv:
  assumes "newest_inv i s b t ag"
  shows "newest_inv i s b t (apply_wake rp ov ag)"
proof -
  have "newest_inv i s b t (ag\<lparr>ag_wake := False\<rparr>)" using assms by (simp add: newest_inv_def)
  moreover have "pd_seq (ag_pending ag) < s \<or> pd_seq (ag_pending ag) = s \<and> pd_pathID (ag_pending ag) = i"
    using assms by (simp add: newest_inv_def)
  ultimately show ?thesis using assms by (simp add: apply_wake_def Let_def applyDecision_newest_inv)
qed

lemma step_newest_inv: "no_newer i s ev \<Longrightarrow> newest_inv i s b t ag \<Longrightarrow> newest_inv i s b t (agent_step ag ev)"
proof (cases ev)
  case (Pushed ifx pr lk rp ov cached cfg)
  assume "no_newer i s ev" "newest_inv i s b t ag"
  then show ?thesis using Pushed
    by (simp add: newest_inv_control [OF push_control]) (simp add: newest_inv_def)
qed (simp_all add: SetActivePath_newest_inv wake_newest_inv newest_inv_control [OF reconcile_keeps], simp add: newest_inv_def)

interpretation newest_runs: guarded_run agent_step "no_newer i s" "newest_inv i s b t" for i s b t
  by unfold_locales (rule step_newest_inv)

lemma wake_installs:
  assumes "newest_seen i s b t ag" and "\<forall>f. rp f"
  shows "ag_lastSeq (apply_wake rp ov ag) = s"
proof (cases "ag_lastSeq ag = s")
  case True
  have "newest_inv i s b t (apply_wake rp ov ag)" using assms(1) by (simp add: newest_seen_def wake_newest_inv)
  moreover have "s \<le> ag_lastSeq (apply_wake rp ov ag)" using True wake_lastSeq [of ag rp ov] by simp
  ultimately show ?thesis by (auto simp: newest_inv_def)
next
  case False
  with assms(1) have inv: "newest_inv i s b t ag" and p: "pd_seq (ag_pending ag) = s" and w: "ag_wake ag"
    by (auto simp: newest_seen_def)
  from inv p have q: "pd_pathID (ag_pending ag) = i" and i: "i \<noteq> 0" by (auto simp: newest_inv_def)
  have "newest_inv i s b t (ag\<lparr>ag_wake := False\<rparr>)" using inv by (simp add: newest_inv_def)
  with p q i w assms(2) show ?thesis by (simp add: apply_wake_def Let_def applyDecision_installs)
qed

lemma SetActivePath_pending_kept:
  assumes "pd_seq (ag_pending ag) = s" and "ag_wake ag" and "sq < s \<or> sq = s \<and> j = i"
  shows "pd_seq (ag_pending (ag_SetActivePath j sq now wall ag)) = s \<and> ag_wake (ag_SetActivePath j sq now wall ag)"
  using assms by (auto simp: ag_SetActivePath_def anchorDecisionSeq_def warnImplausibleSeq_def Let_def)

lemma step_newest_seen:
  assumes "no_newer i s ev \<and> worker_works ev" and seen: "newest_seen i s b t ag"
  shows "newest_seen i s b t (agent_step ag ev)"
proof -
  from assms have inv: "newest_inv i s b t (agent_step ag ev)" by (simp add: newest_seen_def step_newest_inv)
  have "ag_lastSeq (agent_step ag ev) = s \<or> pd_seq (ag_pending (agent_step ag ev)) = s \<and> ag_wake (agent_step ag ev)"
  proof (cases "ag_lastSeq ag = s")
    case True
    with step_lastSeq [of ag ev] inv show ?thesis by (auto simp: newest_inv_def)
  next
    case False
    with seen have p: "pd_seq (ag_pending ag) = s" "ag_wake ag" by (auto simp: newest_seen_def)
    show ?thesis
      by (cases ev) (use assms(1) p wake_installs [OF seen] in
        \<open>simp_all add: SetActivePath_pending_kept control_fields [OF reconcile_keeps] control_fields [OF push_control]\<close>)
  qed
  with inv show ?thesis by (simp add: newest_seen_def)
qed

interpretation seen_runs: guarded_run agent_step "\<lambda>ev. no_newer i s ev \<and> worker_works ev" "newest_seen i s b t" for i s b t
  by unfold_locales (rule step_newest_seen)

lemma probe_seen:
  assumes "newest_inv i s b t ag" and "plausibleDecisionSeq s b t now wall"
  shows "newest_seen i s b t (agent_step ag (Probed i s now wall))"
proof -
  have "newest_inv i s b t (agent_step ag (Probed i s now wall))" using assms(1) by (simp add: SetActivePath_newest_inv)
  moreover from assms have "ag_lastSeq ag = s \<or> pd_seq (ag_pending (agent_step ag (Probed i s now wall))) = s \<and>
      ag_wake (agent_step ag (Probed i s now wall))"
    by (auto simp: newest_inv_def ag_SetActivePath_def Let_def)
  ultimately show ?thesis by (auto simp: newest_seen_def)
qed

lemma installs_after_wake:
  assumes "newest_seen i s b t ag" and "list_all (\<lambda>ev. no_newer i s ev \<and> worker_works ev) (xs @ Woken rp ov # ys)"
  shows "ag_lastSeq (foldl agent_step ag (xs @ Woken rp ov # ys)) = s \<and>
     newest_inv i s b t (foldl agent_step ag (xs @ Woken rp ov # ys))"
proof -
  let ?m = "foldl agent_step ag xs"
  have m: "newest_seen i s b t ?m" using assms by (intro seen_runs.guarded_run_inv) auto
  have w: "ag_lastSeq (apply_wake rp ov ?m) = s" using assms(2) by (intro wake_installs [OF m]) simp
  have e: "newest_seen i s b t (foldl agent_step ag (xs @ Woken rp ov # ys))"
    using assms by (intro seen_runs.guarded_run_inv) auto
  have "s \<le> ag_lastSeq (foldl agent_step (apply_wake rp ov ?m) ys)" using decisions_rise.run_mono [of "apply_wake rp ov ?m" ys] w by simp
  with e show ?thesis by (auto simp: newest_seen_def newest_inv_def)
qed

text \<open>C4. The newest decision wins. Once a probe carrying decision \<open>s\<close> for path \<open>i\<close> is received on an
  anchored backend that knows the path, and the worker is woken afterwards with a system that
  takes routes, the backend reports path \<open>i\<close> active with sequence \<open>s\<close>, whatever older probes,
  reconcile passes, lost routes, configuration pushes and failed installs came before, in between
  or after, and however the goroutines interleave.\<close>

theorem newest_decision_wins:
  assumes "i \<noteq> 0" and "ag_seqBase ag \<noteq> 0" and "iface_of (ag_cfg ag) i \<noteq> ''''"
    and "ag_lastSeq ag < s" and "pd_seq (ag_pending ag) < s"
    and "plausibleDecisionSeq s (ag_seqBase ag) (ag_seqBaseAt ag) now wall"
    and "list_all (no_newer i s) before"
    and "list_all (\<lambda>ev. no_newer i s ev \<and> worker_works ev) (between @ Woken rp ov # after)"
  shows "ag_active (foldl agent_step ag (before @ Probed i s now wall # between @ Woken rp ov # after)) = i \<and>
    ag_lastSeq (foldl agent_step ag (before @ Probed i s now wall # between @ Woken rp ov # after)) = s"
proof -
  let ?b = "ag_seqBase ag" and ?t = "ag_seqBaseAt ag"
  have "newest_inv i s ?b ?t ag" using assms(1-5) by (simp add: newest_inv_def)
  then have "newest_inv i s ?b ?t (foldl agent_step ag before)" using assms(7) by (rule newest_runs.guarded_run_inv [rotated])
  from probe_seen [OF this assms(6)] have
    "newest_seen i s ?b ?t (foldl agent_step ag (before @ [Probed i s now wall]))" by simp
  from installs_after_wake [OF this assms(8)] show ?thesis by (auto simp: newest_inv_def)
qed

section \<open>Repair\<close>

lemma repair_probes_done:
  assumes "distinct (map pi_Table ps)" and "p \<in> set ps" and "ifx (pi_Iface p)"
  shows "ag_probe (foldl (repair_probe True ifx (\<lambda>_. True)) ag ps) (pi_Table p) = pi_Iface p"
proof -
  let ?r = "repair_probe True ifx (\<lambda>_. True)"
  have other: "t \<notin> pi_Table ` set qs \<Longrightarrow> ag_probe (foldl ?r ag qs) t = ag_probe ag t" for t qs ag
    by (induction qs arbitrary: ag) (simp_all add: repair_probe_def)
  show ?thesis using assms(1,2)
  proof (induction ps arbitrary: ag)
    case (Cons q qs)
    show ?case
    proof (cases "p = q")
      case True
      with Cons.prems(1) assms(3) show ?thesis by (simp add: other) (simp add: repair_probe_def)
    qed (use Cons in simp)
  qed simp
qed

lemma repair_linkers_done:
  assumes "distinct (map lr_OverlayIP ls)" and "l \<in> set ls"
  shows "ag_linkers (foldl (repair_linker True (\<lambda>_. True)) ag ls) (lr_OverlayIP l) = Some (lr_LanIP l)"
proof -
  let ?r = "repair_linker True (\<lambda>_. True)"
  have other: "x \<notin> lr_OverlayIP ` set ms \<Longrightarrow> ag_linkers (foldl ?r ag ms) x = ag_linkers ag x" for x ms ag
    by (induction ms arbitrary: ag) (simp_all add: repair_linker_def)
  show ?thesis using assms
  proof (induction ls arbitrary: ag)
    case (Cons m ms)
    show ?case
    proof (cases "l = m")
      case True
      with Cons.prems(1) show ?thesis by (simp add: other) (simp add: repair_linker_def)
    qed (use Cons in simp)
  qed simp
qed

lemma repair_linkers_rest [simp]:
  "ag_probe (foldl (repair_linker rd lk) ag ls) = ag_probe ag"
  "ag_overlay (foldl (repair_linker rd lk) ag ls) = ag_overlay ag"
proof -
  have "(ag_probe (foldl (repair_linker rd lk) ag ls), ag_overlay (foldl (repair_linker rd lk) ag ls)) =
      (ag_probe ag, ag_overlay ag)"
    by (rule foldl_keeps [where f = "\<lambda>ag. (ag_probe ag, ag_overlay ag)"]) (simp add: repair_linker_def)
  then show "ag_probe (foldl (repair_linker rd lk) ag ls) = ag_probe ag"
    "ag_overlay (foldl (repair_linker rd lk) ag ls) = ag_overlay ag" by simp_all
qed

lemma set_overlay_probe [simp]: "ag_probe (set_overlay ov i ag) = ag_probe ag"
  by (simp add: set_overlay_def)

text \<open>One reconcile pass on a system that answers and takes routes restores, for an armed
  backend whose active tunnel exists, the overlay route, the return route, the reply table of every
  existing tunnel and the route to every linker.\<close>

theorem backend_reconcile_restores:
  assumes "ag_haveCfg ag" and "ag_applying ag" and "iface_of (ag_cfg ag) (ag_active ag) \<noteq> ''''"
    and "ifx (iface_of (ag_cfg ag) (ag_active ag))"
    and "distinct (map pi_Table (bc_Paths (ag_cfg ag)))" and "distinct (map lr_OverlayIP (bc_Linkers (ag_cfg ag)))"
  defines "fixed \<equiv> ag_reconcileRouting True ifx (\<lambda>_. True) (\<lambda>_. True) (\<lambda>_. True) (\<lambda>_. True) ag"
  shows "ag_overlay fixed = iface_of (ag_cfg ag) (ag_active ag) \<and>
    ag_return fixed = iface_of (ag_cfg ag) (ag_active ag) \<and>
    (\<forall>p \<in> set (bc_Paths (ag_cfg ag)). ifx (pi_Iface p) \<longrightarrow> ag_probe fixed (pi_Table p) = pi_Iface p) \<and>
    (\<forall>l \<in> set (bc_Linkers (ag_cfg ag)). ag_linkers fixed (lr_OverlayIP l) = Some (lr_LanIP l))"
  using assms(1-4) repair_probes_done [OF assms(5)] repair_linkers_done [OF assms(6)]
  by (auto simp: fixed_def ag_reconcileRouting_def Let_def SetReturnPath_def set_overlay_def)

section \<open>A backend with two tunnels\<close>

text \<open>A concrete agent on which the guarantees above are exercised.\<close>

definition two_tunnels :: BackendConfig where
  "two_tunnels = empty_backend_config\<lparr>bc_Mode := ''armed'',
     bc_Paths := [\<lparr>pi_ID = 1, pi_Name = ''fibre'', pi_Iface = ''wg-main'', pi_Table = 101, pi_Mark = 1, pi_Metered = False, pi_ShapeMbit = Fin 0\<rparr>,
       \<lparr>pi_ID = 2, pi_Name = ''lte'', pi_Iface = ''wg-lte'', pi_Table = 102, pi_Mark = 2, pi_Metered = True, pi_ShapeMbit = Fin 0\<rparr>]\<rparr>"

definition anchored_agent :: Agent where
  "anchored_agent = (clean_New None)\<lparr>ag_cfg := two_tunnels, ag_haveCfg := True, ag_applying := True,
     ag_seqBase := 65536 * 1700000000000, ag_lastSeq := 65536 * 1700000000000, ag_active := 1\<rparr>"

lemmas two_tunnels_defs = two_tunnels_def anchored_agent_def ag_New_def empty_backend_config_def

lemma two_tunnels_iface [simp]:
  "iface_of two_tunnels 1 = ''wg-main''" "iface_of two_tunnels 2 = ''wg-lte''"
  by (simp_all add: iface_of_def two_tunnels_def)

lemma anchored_plausible [simp]: "plausibleDecisionSeq 111411200000000001 111411200000000000 0 0 0"
  using plausible_exact [of "65536 * 1700000000000" "65536 * 1700000000000 + 1" 0 0 0]
  by (simp add: decisionSeqHorizonMs_def anchor_ceiling_def wall_ceiling_def UnixMilli_def unix_epoch_def wrap64_def
      Milliseconds_def go_div_def time_Sub_def minInt64_def maxInt64_def)

theorem newest_decision_wins_witness:
  "ag_active (foldl agent_step anchored_agent
     [Probed 1 (65536 * 1700000000000) 0 0, Probed 2 (65536 * 1700000000000 + 1) 0 0, Woken (\<lambda>_. True) (\<lambda>_. True)]) = 2"
  using newest_decision_wins [of 2 anchored_agent "65536 * 1700000000000 + 1" 0 0
      "[Probed 1 (65536 * 1700000000000) 0 0]" "[]" "\<lambda>_. True" "\<lambda>_. True" "[]"]
  by (simp add: anchored_agent_def ag_New_def)

theorem backend_reconcile_restores_witness:
  "ag_return (ag_reconcileRouting True (\<lambda>_. True) (\<lambda>_. True) (\<lambda>_. True) (\<lambda>_. True) (\<lambda>_. True) anchored_agent) = ''wg-main''"
  using backend_reconcile_restores [of anchored_agent "\<lambda>_. True"]
  by (simp add: anchored_agent_def) (simp add: two_tunnels_def empty_backend_config_def)


text \<open>A process started over an old return route takes a decision in observe mode, is armed by a
  push, and switches.\<close>

definition restarted_agent :: Agent where
  "restarted_agent = ag_Run (\<lambda>_. True) (\<lambda>_. True) (\<lambda>_. True) (\<lambda>_. True) (c_Overlay Defaults)
     (ag_New ''wg-old'' ''wg-old'' (\<lambda>_. ''wg-old'') Map.empty (Some (two_tunnels\<lparr>bc_Mode := ''observe''\<rparr>)))"

abbreviation arm_and_switch :: "agent_op list" where
  "arm_and_switch \<equiv> [Probed 1 65536 0 0, Woken (\<lambda>_. True) (\<lambda>_. True),
     Pushed (\<lambda>_. True) (\<lambda>_. True) (\<lambda>_. True) (\<lambda>_. True) (\<lambda>_. True) True two_tunnels,
     Probed 2 65537 0 0, Woken (\<lambda>_. True) (\<lambda>_. True)]"

lemma arm_and_switch_admitted: "admitted agent_step push_fits restarted_agent arm_and_switch"
  by code_simp

lemma arm_and_switch_state:
  "ag_applying (foldl agent_step restarted_agent arm_and_switch)"
  "ag_active (foldl agent_step restarted_agent arm_and_switch) = 2"
  "iface_of (ag_cfg (foldl agent_step restarted_agent arm_and_switch)) 2 = ''wg-lte''"
  "list_ex drops_routes arm_and_switch = False"
  by code_simp+

theorem replies_follow_active_witness:
  "ag_return restarted_agent = ''wg-old'' \<and>
   ag_return (foldl agent_step restarted_agent arm_and_switch) = ''wg-lte''"
proof -
  have "ag_return restarted_agent = ''wg-old''" by code_simp
  then show ?thesis
    using replies_follow_active [OF arm_and_switch_admitted [unfolded restarted_agent_def] refl, folded restarted_agent_def]
      arm_and_switch_state by simp
qed

section \<open>Dialling\<close>

lemma nextDialBackoff_bounds: "dialBackoffMin \<le> nextDialBackoff previous sessionFor \<and> nextDialBackoff previous sessionFor \<le> dialBackoffMax"
  by (simp add: nextDialBackoff_def Let_def dialBackoffMin_def dialBackoffMax_def)

text \<open>The delay after a run of failed sessions: doubling from the minimum up to the maximum.\<close>

lemma nextDialBackoff_doubles:
  assumes "dialBackoffMin \<le> d" and "d \<le> dialBackoffMax" and "sessionFor < sessionSettled"
  shows "nextDialBackoff d sessionFor = min dialBackoffMax (2 * d)"
  using assms by (simp add: nextDialBackoff_def Let_def dialBackoffMin_def dialBackoffMax_def wrap64_def min_def)

end
