(* ===== verification/QueryCache.thy ===== *)
theory QueryCache
  imports Config Wire
begin

text \<open>
  The query cache (\<open>qcache/a2s.go\<close>, \<open>qcache/pace.go\<close>, \<open>qcache/qcache.go\<close>): the Source query protocol
  it speaks, the challenge that keeps spoofed sources unanswered, the per-source budget of reply
  bytes, the cached replies and the refresher that fetches them from the real server.
\<close>

section \<open>The query protocol\<close>

definition typeInfoRequest :: byte where "typeInfoRequest = 84"
definition typePlayerRequest :: byte where "typePlayerRequest = 85"
definition typeRulesRequest :: byte where "typeRulesRequest = 86"
definition typeChallenge :: byte where "typeChallenge = 65"

definition headerSingle :: bytes where "headerSingle = [255, 255, 255, 255]"
definition headerMulti :: bytes where "headerMulti = [254, 255, 255, 255]"
definition infoPayload :: bytes where "infoPayload = bytes_of ''Source Engine Query'' @ [0]"
definition noChallenge :: bytes where "noChallenge = [255, 255, 255, 255]"

definition maxFragments :: nat where "maxFragments = 16"

lemmas a2s_consts = typeInfoRequest_def typePlayerRequest_def typeRulesRequest_def typeChallenge_def
  headerSingle_def headerMulti_def noChallenge_def

datatype queryKind = queryNone | queryInfoBare | queryInfoChallenged | queryPlayerBare
  | queryPlayerChallenged | queryRulesBare | queryRulesChallenged

definition classify :: "bytes \<Rightarrow> queryKind \<times> bytes" where
  "classify b =
     (if length b < 5 \<or> take 4 b \<noteq> headerSingle then (queryNone, [])
      else let body = drop 5 b
           in if b ! 4 = typeInfoRequest
              then (if take (length infoPayload) body \<noteq> infoPayload then (queryNone, [])
                    else let rest = drop (length infoPayload) body
                         in if length rest = 0 then (queryInfoBare, [])
                            else if length rest = 4
                            then (if rest = noChallenge then (queryInfoBare, []) else (queryInfoChallenged, rest))
                            else (queryNone, []))
              else if b ! 4 = typePlayerRequest \<or> b ! 4 = typeRulesRequest
              then (if length body \<noteq> 4 then (queryNone, [])
                    else if b ! 4 = typeRulesRequest
                    then (if body = noChallenge then (queryRulesBare, []) else (queryRulesChallenged, body))
                    else (if body = noChallenge then (queryPlayerBare, []) else (queryPlayerChallenged, body)))
              else (queryNone, []))"

definition challengeReply :: "bytes \<Rightarrow> bytes" where
  "challengeReply ch = headerSingle @ [typeChallenge] @ ch"

text \<open>A nil challenge is \<open>None\<close>.\<close>

definition infoRequest :: "bytes option \<Rightarrow> bytes" where
  "infoRequest challenge = headerSingle @ [typeInfoRequest] @ infoPayload @ (case challenge of None \<Rightarrow> [] | Some c \<Rightarrow> c)"

definition challengedRequest :: "byte \<Rightarrow> bytes option \<Rightarrow> bytes" where
  "challengedRequest t challenge = headerSingle @ [t] @ (case challenge of None \<Rightarrow> noChallenge | Some c \<Rightarrow> c)"

definition playerRequest :: "bytes option \<Rightarrow> bytes" where
  "playerRequest challenge = challengedRequest typePlayerRequest challenge"

definition rulesRequest :: "bytes option \<Rightarrow> bytes" where
  "rulesRequest challenge = challengedRequest typeRulesRequest challenge"

definition isChallenge :: "bytes \<Rightarrow> bytes option" where
  "isChallenge b =
     (if length b = 9 \<and> take 4 b = headerSingle \<and> b ! 4 = typeChallenge then Some (slice 5 9 b) else None)"

definition fragmentMeta :: "bytes \<Rightarrow> (nat \<times> nat) option" where
  "fragmentMeta b =
     (if length b < 10 \<or> take 4 b \<noteq> headerMulti then None
      else let tot = unat (b ! 8); index = unat (b ! 9)
           in if tot < 1 \<or> tot > maxFragments \<or> index \<ge> tot then None else Some (tot, index))"

definition challengeBucketSecs :: int where "challengeBucketSecs = 30"

definition challengeFor :: "bytes \<Rightarrow> bytes \<Rightarrow> int \<Rightarrow> int \<Rightarrow> int \<Rightarrow> bytes" where
  "challengeFor secret srcIP srcPort dstPort bucket =
     (let mac = hmac_sha256 secret (srcIP @ be_bytes 2 (word_of_int srcPort :: uint16) @
            be_bytes 2 (word_of_int dstPort :: uint16) @ be_bytes 8 (word_of_int bucket :: uint64));
          sum = take 4 mac
      in if sum = noChallenge then [255, 255, 255, 254] else sum)"

section \<open>The budget of a source\<close>

text \<open>\<open>net.IP.To16\<close>: a 4-byte address is mapped, a 16-byte one is itself, anything else is nil.\<close>

definition To16 :: "bytes \<Rightarrow> bytes" where
  "To16 ip = (if length ip = 4 then replicate 10 0 @ [255, 255] @ ip
              else if length ip = 16 then ip else [])"

definition paceBurstBytes :: int where "paceBurstBytes = 524288"
definition paceRefillPerSec :: int where "paceRefillPerSec = 65536"
definition paceIdleAfter :: duration where "paceIdleAfter = 120 * 1000000000"
definition paceMaxSources :: int where "paceMaxSources = 4096"

record paceEntry =
  pe_key :: bytes
  pe_tokens :: float64
  pe_last :: gotime

text \<open>The list with its most recently seen entry first; the map of the source only indexes it.\<close>

record pacer =
  pa_burst :: float64
  pa_refill :: float64
  pa_idle :: duration
  pa_max :: int
  pa_lru :: "paceEntry list"

definition newPacer :: "int \<Rightarrow> int \<Rightarrow> duration \<Rightarrow> int \<Rightarrow> pacer" where
  "newPacer burst refillPerSec idle mx =
     \<lparr>pa_burst = f_of_int burst, pa_refill = f_of_int refillPerSec, pa_idle = idle, pa_max = mx, pa_lru = []\<rparr>"

definition paceKey :: "bytes \<Rightarrow> bytes" where
  "paceKey ip = take 16 (To16 ip) @ replicate (16 - length (To16 ip)) 0"

text \<open>\<open>Duration.Seconds\<close> and the builtin \<open>min\<close> of floats.\<close>

definition dur_Seconds :: "duration \<Rightarrow> float64" where
  "dur_Seconds d = fadd (f_of_int (go_div d 1000000000))
     (fdiv (f_of_int (d - go_div d 1000000000 * 1000000000)) (Fin 1000000000))"

definition fmin :: "float64 \<Rightarrow> float64 \<Rightarrow> float64" where
  "fmin a b = (if a = NaN \<or> b = NaN then NaN else if flt b a then b else a)"

definition prune :: "gotime \<Rightarrow> pacer \<Rightarrow> pacer" where
  "prune now p = p\<lparr>pa_lru := rev (dropWhile (\<lambda>e. \<not> time_Sub now (pe_last e) \<le> pa_idle p) (rev (pa_lru p)))\<rparr>"

definition pace_refilled :: "pacer \<Rightarrow> gotime \<Rightarrow> paceEntry \<Rightarrow> paceEntry" where
  "pace_refilled p now e =
     (let elapsed = time_Sub now (pe_last e)
      in if elapsed > 0
         then e\<lparr>pe_tokens := fmin (pa_burst p) (fadd (pe_tokens e) (fmul (dur_Seconds elapsed) (pa_refill p))),
                pe_last := now\<rparr>
         else e)"

definition pace_charge :: "int \<Rightarrow> paceEntry \<Rightarrow> bool \<times> paceEntry" where
  "pace_charge n e =
     (if flt (pe_tokens e) (f_of_int n) then (False, e)
      else (True, e\<lparr>pe_tokens := fsub (pe_tokens e) (f_of_int n)\<rparr>))"

definition pace_allow :: "bytes \<Rightarrow> int \<Rightarrow> gotime \<Rightarrow> pacer \<Rightarrow> bool \<times> pacer" where
  "pace_allow ip n now p =
     (let k = paceKey ip;
          p = prune now p;
          (e, rest) = (case find (\<lambda>e. pe_key e = k) (pa_lru p) of
               Some e \<Rightarrow> (pace_refilled p now e, filter (\<lambda>e. pe_key e \<noteq> k) (pa_lru p))
             | None \<Rightarrow> (\<lparr>pe_key = k, pe_tokens = pa_burst p, pe_last = now\<rparr>,
                        if int (length (pa_lru p)) \<ge> pa_max p then butlast (pa_lru p) else pa_lru p));
          (ok, e) = pace_charge n e
      in (ok, p\<lparr>pa_lru := e # rest\<rparr>))"

section \<open>Ports and their entries\<close>

record Port =
  pt_Port :: int
  pt_Target :: string
  pt_Service :: string
  pt_TargetPort :: int

record qConfig =
  qn_RefreshEvery :: duration
  qn_IdleAfter :: duration
  qn_StaleAfter :: duration
  qn_UpstreamTimeout :: duration
  qn_PaceBurst :: int
  qn_PaceRefill :: int

definition DefaultRefreshEvery :: duration where "DefaultRefreshEvery = 3 * 1000000000"
definition DefaultStaleAfter :: duration where "DefaultStaleAfter = 10 * 1000000000"
definition defaultIdleAfter :: duration where "defaultIdleAfter = 60 * 1000000000"
definition defaultUpstreamTimeout :: duration where "defaultUpstreamTimeout = 2 * 1000000000"
definition rulesRefreshMultiplier :: int where "rulesRefreshMultiplier = 5"

datatype fetch_error = DialFailed | WriteFailed | ReadFailed | OnlyChallenges | Unrecognised

record cacheEntry =
  ce_datagrams :: "bytes list"
  ce_fetched :: gotime
  ce_demand :: gotime
  ce_attempted :: gotime
  ce_fetchOK :: bool
  ce_fetchErr :: "fetch_error option"
  ce_scale :: int

record portCache =
  po_cfg :: Port
  po_answered :: uint64
  po_challenged :: uint64
  po_unanswered :: uint64
  po_paced :: uint64
  po_pace :: pacer
  po_nudge :: bool
  po_info :: cacheEntry
  po_player :: cacheEntry
  po_rules :: cacheEntry

record Cacher =
  cc_cfg :: qConfig
  cc_secret :: bytes

definition cacher_config :: "qConfig \<Rightarrow> qConfig" where
  "cacher_config cfg =
     cfg\<lparr>qn_RefreshEvery := (if qn_RefreshEvery cfg \<le> 0 then DefaultRefreshEvery else qn_RefreshEvery cfg),
         qn_IdleAfter := (if qn_IdleAfter cfg \<le> 0 then defaultIdleAfter else qn_IdleAfter cfg),
         qn_StaleAfter := (if qn_StaleAfter cfg \<le> 0 then DefaultStaleAfter else qn_StaleAfter cfg),
         qn_UpstreamTimeout := (if qn_UpstreamTimeout cfg \<le> 0 then defaultUpstreamTimeout else qn_UpstreamTimeout cfg),
         qn_PaceBurst := (if qn_PaceBurst cfg \<le> 0 then paceBurstBytes else qn_PaceBurst cfg),
         qn_PaceRefill := (if qn_PaceRefill cfg \<le> 0 then paceRefillPerSec else qn_PaceRefill cfg)\<rparr>"

definition new_entry :: "int \<Rightarrow> cacheEntry" where
  "new_entry scale = \<lparr>ce_datagrams = [], ce_fetched = 0, ce_demand = 0, ce_attempted = 0, ce_fetchOK = True,
     ce_fetchErr = None, ce_scale = scale\<rparr>"

definition new_port :: "qConfig \<Rightarrow> Port \<Rightarrow> portCache" where
  "new_port cfg p =
     \<lparr>po_cfg = p, po_answered = 0, po_challenged = 0, po_unanswered = 0, po_paced = 0,
      po_pace = newPacer (qn_PaceBurst cfg) (qn_PaceRefill cfg) paceIdleAfter paceMaxSources, po_nudge = False,
      po_info = new_entry 1, po_player = new_entry 1, po_rules = new_entry rulesRefreshMultiplier\<rparr>"

text \<open>\<open>New\<close>, of the random secret.\<close>

definition qcache_New :: "qConfig \<Rightarrow> Port list \<Rightarrow> bytes \<Rightarrow> Cacher \<times> portCache list" where
  "qcache_New cfg ports secret =
     (let cfg = cacher_config cfg in (\<lparr>cc_cfg = cfg, cc_secret = secret\<rparr>, map (new_port cfg) ports))"

definition entry_window :: "cacheEntry \<Rightarrow> duration \<Rightarrow> duration" where
  "entry_window e base = (if ce_scale e \<le> 1 then base else wrap64 (base * ce_scale e))"

definition stampDemand :: "gotime \<Rightarrow> cacheEntry \<Rightarrow> cacheEntry" where
  "stampDemand now e = e\<lparr>ce_demand := now\<rparr>"

definition fresh :: "cacheEntry \<Rightarrow> gotime \<Rightarrow> duration \<Rightarrow> bytes list option" where
  "fresh e now staleAfter =
     (if IsZero (ce_fetched e) \<or> time_Sub now (ce_fetched e) > staleAfter then None else Some (ce_datagrams e))"

text \<open>The three entries of a port, named by the query they answer.\<close>

datatype query = Info | Player | Rules

fun entry_of :: "query \<Rightarrow> portCache \<Rightarrow> cacheEntry" where
  "entry_of Info p = po_info p"
| "entry_of Player p = po_player p"
| "entry_of Rules p = po_rules p"

fun set_entry :: "query \<Rightarrow> cacheEntry \<Rightarrow> portCache \<Rightarrow> portCache" where
  "set_entry Info e p = p\<lparr>po_info := e\<rparr>"
| "set_entry Player e p = p\<lparr>po_player := e\<rparr>"
| "set_entry Rules e p = p\<lparr>po_rules := e\<rparr>"

section \<open>Answering\<close>

record UDPAddr =
  ua_IP :: bytes
  ua_Port :: int

definition bucket_of :: "gotime \<Rightarrow> int" where
  "bucket_of now = go_div (to_unix now) challengeBucketSecs"

definition challenge_at :: "Cacher \<Rightarrow> portCache \<Rightarrow> UDPAddr \<Rightarrow> int \<Rightarrow> bytes" where
  "challenge_at c p src bucket = challengeFor (cc_secret c) (To16 (ua_IP src)) (ua_Port src) (pt_Port (po_cfg p)) bucket"

definition sendChallenge :: "Cacher \<Rightarrow> UDPAddr \<Rightarrow> gotime \<Rightarrow> portCache \<Rightarrow> bytes list \<times> portCache" where
  "sendChallenge c src now p =
     ([challengeReply (challenge_at c p src (bucket_of now))], p\<lparr>po_challenged := po_challenged p + 1\<rparr>)"

definition qc_verify :: "Cacher \<Rightarrow> portCache \<Rightarrow> UDPAddr \<Rightarrow> bytes \<Rightarrow> gotime \<Rightarrow> bool" where
  "qc_verify c p src got now =
     list_ex (\<lambda>b. challenge_at c p src b = got) [bucket_of now, wrap64 (bucket_of now - 1)]"

definition total_len :: "bytes list \<Rightarrow> int" where
  "total_len ds = foldl (\<lambda>acc d. acc + int (length d)) 0 ds"

definition answerOrChallenge :: "Cacher \<Rightarrow> query \<Rightarrow> UDPAddr \<Rightarrow> bytes \<Rightarrow> gotime \<Rightarrow> portCache \<Rightarrow> bytes list \<times> portCache" where
  "answerOrChallenge c q src ch now p =
     (if \<not> qc_verify c p src ch now then sendChallenge c src now p
      else let e = stampDemand now (entry_of q p);
               p = set_entry q e p
           in case fresh e now (entry_window e (qn_StaleAfter (cc_cfg c))) of
                None \<Rightarrow> ([], p\<lparr>po_nudge := True, po_unanswered := po_unanswered p + 1\<rparr>)
              | Some ds \<Rightarrow>
                  (case pace_allow (ua_IP src) (total_len ds) now (po_pace p) of
                     (False, pa) \<Rightarrow> ([], p\<lparr>po_pace := pa, po_paced := po_paced p + 1\<rparr>)
                   | (True, pa) \<Rightarrow> (ds, p\<lparr>po_pace := pa, po_answered := po_answered p + 1\<rparr>)))"

text \<open>One datagram in the loop of \<open>serve\<close>, and the datagrams written back to its source.\<close>

definition serve_packet :: "Cacher \<Rightarrow> UDPAddr \<Rightarrow> bytes \<Rightarrow> gotime \<Rightarrow> portCache \<Rightarrow> bytes list \<times> portCache" where
  "serve_packet c src pkt now p =
     (case classify (take 4096 pkt) of
        (queryInfoBare, _) \<Rightarrow> sendChallenge c src now p
      | (queryPlayerBare, _) \<Rightarrow> sendChallenge c src now p
      | (queryRulesBare, _) \<Rightarrow> sendChallenge c src now p
      | (queryInfoChallenged, ch) \<Rightarrow> answerOrChallenge c Info src ch now p
      | (queryPlayerChallenged, ch) \<Rightarrow> answerOrChallenge c Player src ch now p
      | (queryRulesChallenged, ch) \<Rightarrow> answerOrChallenge c Rules src ch now p
      | (queryNone, _) \<Rightarrow> ([], p))"

section \<open>Refreshing\<close>

text \<open>
  An upstream exchange: whether it could be dialled, whether the n-th write succeeded, and the
  datagrams read in order, \<open>None\<close> being a read that failed. Past the end of the list the deadline
  has passed.
\<close>

record upstream =
  up_dial :: bool
  up_write :: "nat \<Rightarrow> bool"
  up_reads :: "bytes option list"

fun collect_loop :: "nat \<Rightarrow> bytes option list \<Rightarrow> nat \<Rightarrow> bytes option list \<Rightarrow> fetch_error + bytes list" where
  "collect_loop tot frags got reads =
     (if got \<ge> tot then Inr (map (case_option [] id) frags)
      else case reads of
             [] \<Rightarrow> Inl ReadFailed
           | None # _ \<Rightarrow> Inl ReadFailed
           | Some b # reads \<Rightarrow>
               (case fragmentMeta (take 4096 b) of
                  None \<Rightarrow> collect_loop tot frags got reads
                | Some (t, i) \<Rightarrow>
                    if t \<noteq> tot \<or> frags ! i \<noteq> None then collect_loop tot frags got reads
                    else collect_loop tot (frags[i := Some (take 4096 b)]) (got + 1) reads))"

definition collect :: "bytes \<Rightarrow> bytes option list \<Rightarrow> fetch_error + bytes list" where
  "collect first reads =
     (if length first \<ge> 5 \<and> take 4 first = headerSingle then Inr [first]
      else case fragmentMeta first of
             None \<Rightarrow> Inl Unrecognised
           | Some (tot, index) \<Rightarrow> collect_loop tot ((replicate tot None)[index := Some first]) 1 reads)"

text \<open>The rounds of \<open>fetch\<close>: \<open>left\<close> attempts remain, \<open>k\<close> have been made.\<close>

fun fetch_loop ::
    "(bytes option \<Rightarrow> bytes) \<Rightarrow> (nat \<Rightarrow> bool) \<Rightarrow> nat \<Rightarrow> nat \<Rightarrow> bytes option \<Rightarrow> bytes option list
     \<Rightarrow> bytes list \<times> (fetch_error + bytes list)" where
  "fetch_loop build wr 0 k challenge reads = ([], Inl OnlyChallenges)"
| "fetch_loop build wr (Suc left) k challenge reads =
     (if \<not> wr k then ([], Inl WriteFailed)
      else case reads of
             [] \<Rightarrow> ([build challenge], Inl ReadFailed)
           | None # _ \<Rightarrow> ([build challenge], Inl ReadFailed)
           | Some b # reads \<Rightarrow>
               (case isChallenge (take 4096 b) of
                  Some ch \<Rightarrow> (let (sent, r) = fetch_loop build wr left (k + 1) (Some ch) reads
                              in (build challenge # sent, r))
                | None \<Rightarrow> ([build challenge], collect (take 4096 b) reads)))"

definition fetch :: "(bytes option \<Rightarrow> bytes) \<Rightarrow> upstream \<Rightarrow> bytes list \<times> (fetch_error + bytes list)" where
  "fetch build up =
     (if \<not> up_dial up then ([], Inl DialFailed) else fetch_loop build (up_write up) 3 0 None (up_reads up))"

fun build_of :: "query \<Rightarrow> bytes option \<Rightarrow> bytes" where
  "build_of Info = infoRequest"
| "build_of Player = playerRequest"
| "build_of Rules = rulesRequest"

definition refresh_wanted :: "Cacher \<Rightarrow> cacheEntry \<Rightarrow> gotime \<Rightarrow> bool" where
  "refresh_wanted c e now \<longleftrightarrow> \<not> IsZero (ce_demand e) \<and> time_Sub now (ce_demand e) \<le> qn_IdleAfter (cc_cfg c)"

definition refresh_due :: "Cacher \<Rightarrow> cacheEntry \<Rightarrow> gotime \<Rightarrow> bool" where
  "refresh_due c e now \<longleftrightarrow> IsZero (ce_attempted e) \<or>
     time_Sub now (ce_attempted e) \<ge> entry_window e (qn_RefreshEvery (cc_cfg c))"

text \<open>\<open>later\<close> is the clock when the fetch has finished.\<close>

definition refreshEntry :: "Cacher \<Rightarrow> query \<Rightarrow> upstream \<Rightarrow> gotime \<Rightarrow> gotime \<Rightarrow> portCache \<Rightarrow> portCache" where
  "refreshEntry c q up now later p =
     (let e = entry_of q p
      in if \<not> refresh_wanted c e now \<or> \<not> refresh_due c e now then p
         else case snd (fetch (build_of q) up) of
                Inr ds \<Rightarrow> set_entry q (e\<lparr>ce_attempted := later, ce_datagrams := ds, ce_fetched := later,
                            ce_fetchOK := True, ce_fetchErr := None\<rparr>) p
              | Inl x \<Rightarrow> set_entry q (e\<lparr>ce_attempted := later, ce_fetchOK := False, ce_fetchErr := Some x\<rparr>) p)"

text \<open>One turn of the loop of \<open>refresh\<close>, which a tick or the nudge starts.\<close>

definition refresh_turn :: "Cacher \<Rightarrow> (query \<Rightarrow> upstream) \<Rightarrow> gotime \<Rightarrow> (query \<Rightarrow> gotime) \<Rightarrow> portCache \<Rightarrow> portCache" where
  "refresh_turn c up now later p =
     refreshEntry c Rules (up Rules) now (later Rules)
       (refreshEntry c Player (up Player) now (later Player)
         (refreshEntry c Info (up Info) now (later Info) (p\<lparr>po_nudge := False\<rparr>)))"

section \<open>The engine's side\<close>

text \<open>\<open>queryCacheTimings\<close> of \<open>engine/qcache.go\<close>.\<close>

definition queryCacheTimings :: "QueryCacheConfig \<Rightarrow> duration \<times> duration" where
  "queryCacheTimings qc =
     (let refresh = milliseconds (qc_RefreshMs qc);
          refresh = (if refresh > 0 \<and> refresh < 500000000 then 500000000 else refresh);
          refreshEff = (if refresh = 0 then DefaultRefreshEvery else refresh);
          stale = milliseconds (qc_StaleMs qc);
          stale = (if stale = 0 then DefaultStaleAfter else stale);
          stale = (if stale < wrap64 (3 * refreshEff) then wrap64 (3 * refreshEff) else stale)
      in (refresh, stale))"

end
