(* ===== verification/QueryCacheProps.thy ===== *)
theory QueryCacheProps
  imports QueryCache
begin

text \<open>
  What the query cache guarantees: a source that has not echoed its challenge draws no more than
  it sent and moves nothing upstream, one that has is recognised for at least thirty seconds, a
  multi-packet reply is stored whole or not at all, and every reply served came from the real
  server within the staleness window.
\<close>

section \<open>Challenges\<close>

lemma length_challengeFor [simp]: "length (challengeFor secret ip sp dp b) = 4"
  by (simp add: challengeFor_def Let_def)

lemma challengeFor_not_bare: "challengeFor secret ip sp dp b \<noteq> noChallenge"
  by (simp add: challengeFor_def Let_def noChallenge_def)

lemma length_challenge_at [simp]: "length (challenge_at c p src b) = 4"
  by (simp add: challenge_at_def)

lemma challengeReply_length [simp]: "length (challengeReply (challenge_at c p src b)) = 9"
  by (simp add: challengeReply_def a2s_consts)

lemma length_infoPayload [simp]: "length infoPayload = 20"
  by (simp add: infoPayload_def)

fun challenged_kind :: "query \<Rightarrow> queryKind" where
  "challenged_kind Info = queryInfoChallenged"
| "challenged_kind Player = queryPlayerChallenged"
| "challenged_kind Rules = queryRulesChallenged"

fun bare_kind :: "query \<Rightarrow> queryKind" where
  "bare_kind Info = queryInfoBare"
| "bare_kind Player = queryPlayerBare"
| "bare_kind Rules = queryRulesBare"

lemma classify_build:
  assumes "length ch = 4" and "ch \<noteq> noChallenge"
  shows "classify (build_of q (Some ch)) = (challenged_kind q, ch)"
proof -
  have "ch \<noteq> []" using assms(1) by auto
  with assms show ?thesis
    by (cases q) (simp_all add: classify_def infoRequest_def playerRequest_def rulesRequest_def challengedRequest_def
        Let_def headerSingle_def nth_append typeInfoRequest_def typePlayerRequest_def typeRulesRequest_def)
qed

lemma classify_bare: "classify (build_of q None) = (bare_kind q, [])"
  by (cases q) (simp_all add: classify_def infoRequest_def playerRequest_def rulesRequest_def challengedRequest_def
      Let_def headerSingle_def nth_append noChallenge_def typeInfoRequest_def typePlayerRequest_def typeRulesRequest_def)

lemma build_short: "length ch = 4 \<Longrightarrow> length (build_of q (Some ch)) \<le> 4096" "length (build_of q None) \<le> 4096"
  by (cases q; simp add: infoRequest_def playerRequest_def rulesRequest_def challengedRequest_def a2s_consts)+

lemma classify_long:
  assumes "fst (classify b) \<noteq> queryNone"
  shows "9 \<le> length b"
proof -
  have info: "25 \<le> length b" if "take 20 (drop 5 b) = infoPayload"
  proof -
    from that have "length (take 20 (drop 5 b)) = 20" by (simp only: length_infoPayload)
    then show ?thesis by simp
  qed
  show ?thesis
  proof (rule ccontr)
    assume short: "\<not> 9 \<le> length b"
    then have "take 20 (drop 5 b) \<noteq> infoPayload" "length (drop 5 b) \<noteq> 4" using info by auto
    with assms show False by (simp add: classify_def Let_def split: if_splits)
  qed
qed

text \<open>A packet counts as verified when it is a challenged query echoing this source's challenge.\<close>

definition verified :: "Cacher \<Rightarrow> portCache \<Rightarrow> UDPAddr \<Rightarrow> bytes \<Rightarrow> gotime \<Rightarrow> bool" where
  "verified c p src pkt now =
     (case classify (take 4096 pkt) of (k, ch) \<Rightarrow>
        k \<in> {queryInfoChallenged, queryPlayerChallenged, queryRulesChallenged} \<and> qc_verify c p src ch now)"

lemma verified_port: "po_cfg p = po_cfg p' \<Longrightarrow> verified c p src pkt now = verified c p' src pkt now"
  by (simp add: verified_def qc_verify_def challenge_at_def)

lemma serve_unverified:
  assumes "\<not> verified c p src pkt now"
  shows "serve_packet c src pkt now p =
    (if fst (classify (take 4096 pkt)) = queryNone then ([], p) else sendChallenge c src now p)"
  using assms
  by (cases "classify (take 4096 pkt)"; cases "fst (classify (take 4096 pkt))")
     (simp_all add: serve_packet_def verified_def answerOrChallenge_def)

text \<open>C29. No amplification: whatever a source sends that does not echo a challenge issued to that very
  address and port draws at most one datagram back, never longer than the packet that provoked
  it, and leaves the cached replies, the demand stamps and every budget as they were.\<close>

theorem unverified_not_amplified:
  assumes "\<not> verified c p src pkt now" and "serve_packet c src pkt now p = (out, p')"
  shows "length out \<le> 1 \<and> total_len out \<le> int (length pkt) \<and>
    entry_of q p' = entry_of q p \<and> po_pace p' = po_pace p"
proof -
  have "9 \<le> length pkt" if "fst (classify (take 4096 pkt)) \<noteq> queryNone"
    using classify_long [OF that] by simp
  then show ?thesis
    using assms serve_unverified [OF assms(1)]
    by (cases q) (auto simp: sendChallenge_def total_len_def split: if_splits)
qed

section \<open>A challenged client is served\<close>

lemma bucket_step:
  assumes "0 \<le> to_unix t" and "to_unix t \<le> to_unix t'" and "to_unix t' \<le> to_unix t + 30" and "to_unix t' < 2 ^ 62"
  shows "bucket_of t \<in> {bucket_of t', wrap64 (bucket_of t' - 1)}"
proof -
  have b: "bucket_of t = to_unix t div 30" "bucket_of t' = to_unix t' div 30"
    using assms by (simp_all add: bucket_of_def challengeBucketSecs_def go_div_nonneg)
  have "wrap64 (bucket_of t' - 1) = bucket_of t' - 1"
    using assms b by (intro wrap64_id) (simp add: in_int64_def minInt64_def maxInt64_def, linarith)
  with b assms show ?thesis by simp linarith
qed

lemma verified_echo:
  assumes "0 \<le> to_unix t" and "to_unix t \<le> to_unix t'" and "to_unix t' \<le> to_unix t + 30" and "to_unix t' < 2 ^ 62"
    and "po_cfg p' = po_cfg p"
  shows "qc_verify c p' src (challenge_at c p src (bucket_of t)) t'"
  using bucket_step [OF assms(1-4)] assms(5) by (auto simp: qc_verify_def challenge_at_def)

lemma serve_build:
  assumes "length ch = 4" and "ch \<noteq> noChallenge"
  shows "serve_packet c src (build_of q (Some ch)) now p = answerOrChallenge c q src ch now p"
  using classify_build [OF assms, of q] build_short(1) [OF assms(1), of q]
  by (cases q) (simp_all add: serve_packet_def)

text \<open>C30. A real client is served. A bare query draws a challenge, and the client that repeats its query
  with that challenge within thirty seconds gets the cached reply, whole and exactly as the
  server sent it, whenever one is fresh and the client's budget covers it, whatever the port
  has been through in between.\<close>

theorem challenged_client_served:
  assumes "serve_packet c src (build_of q None) t p = (out, p1)"
    and "0 \<le> to_unix t" and "to_unix t \<le> to_unix t'" and "to_unix t' \<le> to_unix t + 30" and "to_unix t' < 2 ^ 62"
    and "po_cfg p2 = po_cfg p"
    and "fresh (entry_of q p2) t' (entry_window (entry_of q p2) (qn_StaleAfter (cc_cfg c))) = Some ds"
    and "fst (pace_allow (ua_IP src) (total_len ds) t' (po_pace p2))"
  shows "\<exists>ch. out = [challengeReply ch] \<and> isChallenge (challengeReply ch) = Some ch \<and>
    fst (serve_packet c src (build_of q (Some ch)) t' p2) = ds"
proof -
  let ?ch = "challenge_at c p src (bucket_of t)"
  have "out = [challengeReply ?ch]"
    using assms(1) classify_bare [of q] build_short(2) [of q]
    by (cases q) (simp_all add: serve_packet_def sendChallenge_def)
  moreover have "isChallenge (challengeReply ?ch) = Some ?ch"
    by (simp add: isChallenge_def challengeReply_def headerSingle_def slice_def typeChallenge_def)
  moreover have "fst (serve_packet c src (build_of q (Some ?ch)) t' p2) = ds"
  proof -
    have v: "qc_verify c p2 src ?ch t'" using verified_echo [OF assms(2-6)] .
    have "challenge_at c p src (bucket_of t) \<noteq> noChallenge" by (simp add: challenge_at_def challengeFor_not_bare)
    moreover have "entry_of q (set_entry q e p2) = e" "po_pace (set_entry q e p2) = po_pace p2" for e
      by (cases q; simp)+
    moreover have "fresh (stampDemand t' e) = fresh e" "entry_window (stampDemand t' e) = entry_window e" for e
      by (simp_all add: fun_eq_iff fresh_def entry_window_def stampDemand_def)
    ultimately show ?thesis
      using v assms(7,8) by (cases "pace_allow (ua_IP src) (total_len ds) t' (po_pace p2)")
        (simp add: serve_build answerOrChallenge_def Let_def)
  qed
  ultimately show ?thesis by blast
qed

section \<open>Multi-packet replies\<close>

definition filled :: "bytes option list \<Rightarrow> nat" where
  "filled frags = length (filter (\<lambda>f. f \<noteq> None) frags)"

lemma filled_update: "i < length frags \<Longrightarrow> frags ! i = None \<Longrightarrow> filled (frags[i := Some b]) = filled frags + 1"
proof (induction frags arbitrary: i)
  case (Cons f fs)
  then show ?case by (cases i) (auto simp: filled_def)
qed simp

lemma filled_full: "filled frags \<ge> length frags \<longleftrightarrow> (\<forall>i < length frags. frags ! i \<noteq> None)"
proof -
  have "filled frags + length (filter (\<lambda>f. f = None) frags) = length frags"
    using sum_length_filter_compl [of "\<lambda>f. f \<noteq> None" frags] by (simp add: filled_def)
  then have "filled frags \<ge> length frags \<longleftrightarrow> length (filter (\<lambda>f. f = None) frags) = 0" by linarith
  also have "\<dots> \<longleftrightarrow> filter (\<lambda>f. f = None) frags = []" by simp
  also have "\<dots> \<longleftrightarrow> (\<forall>f \<in> set frags. f \<noteq> None)" by (simp only: filter_empty_conv)
  finally show ?thesis by (simp only: all_set_conv_all_nth)
qed

lemma fragmentMeta_index: "fragmentMeta b = Some (t, i) \<Longrightarrow> i < t \<and> 1 \<le> t \<and> t \<le> maxFragments"
  by (auto simp: fragmentMeta_def Let_def split: if_splits)

text \<open>Position \<open>i\<close> is provided by a list of reads, before any of them fails.\<close>

definition provides :: "bytes option list \<Rightarrow> nat \<Rightarrow> nat \<Rightarrow> bool" where
  "provides reads tot i \<longleftrightarrow>
     (\<exists>b. Some b \<in> set (takeWhile (\<lambda>r. r \<noteq> None) reads) \<and> fragmentMeta (take 4096 b) = Some (tot, i))"

lemma provides_simps [simp]:
  "\<not> provides [] tot i" "\<not> provides (None # reads) tot i"
  "provides (Some b # reads) tot i \<longleftrightarrow> fragmentMeta (take 4096 b) = Some (tot, i) \<or> provides reads tot i"
  by (auto simp: provides_def)

lemma collect_loop_spec:
  assumes "length frags = tot" and "got = filled frags"
  shows "((\<exists>ds. collect_loop tot frags got reads = Inr ds) \<longleftrightarrow> (\<forall>i < tot. frags ! i = None \<longrightarrow> provides reads tot i)) \<and>
    (\<forall>ds. collect_loop tot frags got reads = Inr ds \<longrightarrow> length ds = tot \<and>
       (\<forall>i < tot. frags ! i = Some (ds ! i) \<or> frags ! i = None \<and> fragmentMeta (ds ! i) = Some (tot, i)))"
  using assms
proof (induction reads arbitrary: frags got)
  case Nil
  show ?case
  proof (cases "got \<ge> tot")
    case True
    then have "\<forall>i < tot. frags ! i \<noteq> None" using Nil filled_full [of frags] by simp
    then show ?thesis using True Nil by (auto simp: collect_loop.simps [of tot frags got])
  next
    case False
    then obtain i where "i < tot" "frags ! i = None" using Nil filled_full [of frags] by auto
    then show ?thesis using False by (auto simp: collect_loop.simps [of tot frags got])
  qed
next
  case (Cons r reads)
  show ?case
  proof (cases "got \<ge> tot")
    case True
    then have "\<forall>i < tot. frags ! i \<noteq> None" using Cons.prems filled_full [of frags] by simp
    then show ?thesis using True Cons.prems by (auto simp: collect_loop.simps [of tot frags got])
  next
    case False
    then obtain j where j: "j < tot" "frags ! j = None" using Cons.prems filled_full [of frags] by auto
    show ?thesis
    proof (cases r)
      case None
      then show ?thesis using False j by (auto simp: collect_loop.simps [of tot frags got])
    next
      case (Some b)
      let ?b = "take 4096 b"
      show ?thesis
      proof (cases "\<exists>i. fragmentMeta ?b = Some (tot, i) \<and> frags ! i = None")
        case True
        then obtain i where i: "fragmentMeta ?b = Some (tot, i)" "frags ! i = None" by blast
        then have lt: "i < tot" using fragmentMeta_index by blast
        have eq: "collect_loop tot frags got (r # reads) = collect_loop tot (frags[i := Some ?b]) (got + 1) reads"
          using False Some i by (simp add: collect_loop.simps [of tot frags got])
        have "length (frags[i := Some ?b]) = tot" "got + 1 = filled (frags[i := Some ?b])"
          using Cons.prems i lt by (simp_all add: filled_update)
        from Cons.IH [OF this] show ?thesis
          unfolding eq using i lt Some Cons.prems(1) by (auto simp: nth_list_update split: if_splits)
      next
        case skip: False
        have eq: "collect_loop tot frags got (r # reads) = collect_loop tot frags got reads"
          using False Some skip by (auto simp: collect_loop.simps [of tot frags got "Some b # reads"] split: option.split)
        from Cons.IH [OF Cons.prems] show ?thesis unfolding eq using skip Some by auto
      qed
    qed
  qed
qed

text \<open>A multi-packet reply is complete. \<open>collect\<close> succeeds on a first fragment exactly when every other
  fragment of the same set is read before a read fails, out of order, repeated and foreign
  datagrams notwithstanding; what it returns has one datagram per announced fragment, each at the
  position its own header names, and at most sixteen of them.\<close>

theorem collect_complete:
  assumes "fragmentMeta first = Some (tot, index)"
  shows "((\<exists>ds. collect first reads = Inr ds) \<longleftrightarrow> (\<forall>i < tot. i \<noteq> index \<longrightarrow> provides reads tot i)) \<and>
    (\<forall>ds. collect first reads = Inr ds \<longrightarrow> length ds = tot \<and> tot \<le> maxFragments \<and> ds ! index = first \<and>
       (\<forall>i < tot. fragmentMeta (ds ! i) = Some (tot, i)))"
proof -
  let ?f = "(replicate tot None)[index := Some first]"
  have idx: "index < tot" "tot \<le> maxFragments" using fragmentMeta_index [OF assms] by auto
  have "filled (replicate tot None) = 0" by (simp add: filled_def)
  then have f: "length ?f = tot" "1 = filled ?f" using idx by (simp_all add: filled_update)
  have multi: "take 4 first \<noteq> headerSingle"
    using assms by (auto simp: fragmentMeta_def headerSingle_def headerMulti_def split: if_splits)
  have c: "collect first reads = collect_loop tot ?f 1 reads" using multi assms by (simp add: collect_def)
  from collect_loop_spec [OF f, of reads] idx assms show ?thesis
    unfolding c by (auto simp: nth_list_update split: if_splits)
qed

text \<open>An exchange writes at most three requests, each a query of the kind asked for.\<close>

lemma fetch_loop_sent: "length (fst (fetch_loop build wr n k ch reads)) \<le> n \<and> set (fst (fetch_loop build wr n k ch reads)) \<subseteq> range build"
proof (induction build wr n k ch reads rule: fetch_loop.induct)
  case (2 build wr left k challenge reads)
  then show ?case by (auto split: option.split prod.split list.split) (fastforce split: prod.splits)+
qed simp

section \<open>Upstream traffic\<close>

text \<open>The requests a refresh of one entry sends.\<close>

definition refresh_sent :: "Cacher \<Rightarrow> query \<Rightarrow> upstream \<Rightarrow> gotime \<Rightarrow> portCache \<Rightarrow> bytes list" where
  "refresh_sent c q up now p =
     (if refresh_wanted c (entry_of q p) now \<and> refresh_due c (entry_of q p) now then fst (fetch (build_of q) up) else [])"

text \<open>
  The two goroutines of a port: a datagram served, or a turn of the refresher. The history holds
  every fetch: its query, the exchange, when it started and when it had finished.
\<close>

record qc_sys =
  qs_port :: portCache
  qs_log :: "(query \<times> upstream \<times> gotime \<times> gotime) list"

datatype qc_op = Packet UDPAddr bytes gotime | Turn query upstream gotime gotime

fun qc_step :: "Cacher \<Rightarrow> qc_sys \<Rightarrow> qc_op \<Rightarrow> qc_sys" where
  "qc_step c s (Packet src pkt now) = s\<lparr>qs_port := snd (serve_packet c src pkt now (qs_port s))\<rparr>"
| "qc_step c s (Turn q up now later) =
     (let p = qs_port s
      in s\<lparr>qs_port := refreshEntry c q up now later p,
           qs_log := qs_log s @ (if refresh_wanted c (entry_of q p) now \<and> refresh_due c (entry_of q p) now
                                 then [(q, up, now, later)] else [])\<rparr>)"

lemma entry_set_entry [simp]:
  "entry_of q (set_entry q' e p) = (if q = q' then e else entry_of q p)"
  "po_cfg (set_entry q e p) = po_cfg p" "po_pace (set_entry q e p) = po_pace p"
  by (cases q; cases q'; simp) (cases q; simp)+

lemma entry_counters [simp]:
  "entry_of q (p\<lparr>po_nudge := b\<rparr>) = entry_of q p" "entry_of q (p\<lparr>po_unanswered := n\<rparr>) = entry_of q p"
  "entry_of q (p\<lparr>po_pace := pa\<rparr>) = entry_of q p" "entry_of q (p\<lparr>po_paced := n\<rparr>) = entry_of q p"
  "entry_of q (p\<lparr>po_answered := n\<rparr>) = entry_of q p" "entry_of q (p\<lparr>po_challenged := n\<rparr>) = entry_of q p"
  by (cases q; simp)+

lemma answer_entry:
  "entry_of q (snd (answerOrChallenge c q' src ch now p)) =
     (if q = q' \<and> qc_verify c p src ch now then stampDemand now (entry_of q p) else entry_of q p)"
  by (auto simp: answerOrChallenge_def sendChallenge_def Let_def split: option.split prod.split bool.split)

lemma answer_cfg: "po_cfg (snd (answerOrChallenge c q src ch now p)) = po_cfg p"
  by (auto simp: answerOrChallenge_def sendChallenge_def Let_def split: option.split prod.split bool.split)

lemma serve_entry:
  "entry_of q (snd (serve_packet c src pkt now p)) = entry_of q p \<or>
   verified c p src pkt now \<and> entry_of q (snd (serve_packet c src pkt now p)) = stampDemand now (entry_of q p)"
  by (cases "classify (take 4096 pkt)"; cases "fst (classify (take 4096 pkt))")
     (auto simp: serve_packet_def answer_entry sendChallenge_def verified_def)

lemma serve_cfg: "po_cfg (snd (serve_packet c src pkt now p)) = po_cfg p"
  by (cases "classify (take 4096 pkt)"; cases "fst (classify (take 4096 pkt))")
     (auto simp: serve_packet_def answer_cfg sendChallenge_def)

lemma refresh_entry_other: "q' \<noteq> q \<Longrightarrow> entry_of q' (refreshEntry c q up now later p) = entry_of q' p"
  by (auto simp: refreshEntry_def Let_def split: sum.split)

lemma refresh_entry_same:
  "entry_of q (refreshEntry c q up now later p) =
     (if refresh_wanted c (entry_of q p) now \<and> refresh_due c (entry_of q p) now
      then (case snd (fetch (build_of q) up) of
              Inr ds \<Rightarrow> (entry_of q p)\<lparr>ce_attempted := later, ce_datagrams := ds, ce_fetched := later, ce_fetchOK := True, ce_fetchErr := None\<rparr>
            | Inl x \<Rightarrow> (entry_of q p)\<lparr>ce_attempted := later, ce_fetchOK := False, ce_fetchErr := Some x\<rparr>)
      else entry_of q p)"
  by (auto simp: refreshEntry_def Let_def split: sum.split)

lemma refresh_demand: "ce_demand (entry_of q' (refreshEntry c q up now later p)) = ce_demand (entry_of q' p)"
  by (cases "q' = q") (simp_all add: refresh_entry_same refresh_entry_other split: sum.split)

lemma refresh_scale: "ce_scale (entry_of q' (refreshEntry c q up now later p)) = ce_scale (entry_of q' p)"
  by (cases "q' = q") (simp_all add: refresh_entry_same refresh_entry_other split: sum.split)

lemma refresh_cfg: "po_cfg (refreshEntry c q up now later p) = po_cfg p"
  by (simp add: refreshEntry_def Let_def split: sum.split)

text \<open>Steps in which no packet echoes a challenge of the port.\<close>

fun spoofed_op :: "Cacher \<Rightarrow> portCache \<Rightarrow> qc_op \<Rightarrow> bool" where
  "spoofed_op c p (Packet src pkt now) \<longleftrightarrow> \<not> verified c p src pkt now"
| "spoofed_op c p (Turn q up now later) \<longleftrightarrow> True"

definition demand_inv :: "portCache \<Rightarrow> qc_sys \<Rightarrow> bool" where
  "demand_inv p s \<longleftrightarrow> po_cfg (qs_port s) = po_cfg p \<and>
     (\<forall>q. ce_demand (entry_of q (qs_port s)) = ce_demand (entry_of q p))"

lemma demand_step:
  assumes "spoofed_op c p ev" and "demand_inv p s"
  shows "demand_inv p (qc_step c s ev)"
proof (cases ev)
  case (Packet src pkt now)
  have "\<not> verified c (qs_port s) src pkt now"
    using assms Packet verified_port [of "qs_port s" p] by (simp add: demand_inv_def)
  then have "entry_of q (snd (serve_packet c src pkt now (qs_port s))) = entry_of q (qs_port s)" for q
    using serve_entry [of q c src pkt now "qs_port s"] by blast
  then show ?thesis using assms(2) Packet by (simp add: demand_inv_def serve_cfg)
next
  case (Turn q up now later)
  then show ?thesis using assms(2) by (simp add: demand_inv_def refresh_demand refresh_cfg Let_def)
qed

interpretation spoofed_runs: guarded_run "qc_step c" "spoofed_op c p" "demand_inv p" for c p
  by unfold_locales (rule demand_step)

text \<open>A flood of spoofed queries moves nothing across the billed tunnel: however many packets that
  echo no challenge arrive, the refresher polls the real server for a query only while a
  verified client's demand from before the flood is younger than the idle bound, and never on a
  port that has seen no verified client.\<close>

theorem spoofed_never_polls:
  assumes "list_all (spoofed_op c (qs_port s)) ops"
    and "refresh_sent c q up now (qs_port (foldl (qc_step c) s ops)) \<noteq> []"
  shows "\<not> IsZero (ce_demand (entry_of q (qs_port s))) \<and>
    time_Sub now (ce_demand (entry_of q (qs_port s))) \<le> qn_IdleAfter (cc_cfg c)"
proof -
  have "demand_inv (qs_port s) (foldl (qc_step c) s ops)"
    using assms(1) by (rule spoofed_runs.guarded_run_inv) (simp add: demand_inv_def)
  then show ?thesis using assms(2) by (simp add: demand_inv_def refresh_sent_def refresh_wanted_def split: if_splits)
qed

section \<open>Pace and provenance of fetches\<close>

fun scale_of :: "query \<Rightarrow> int" where
  "scale_of Rules = rulesRefreshMultiplier"
| "scale_of _ = 1"

definition stretched :: "query \<Rightarrow> duration \<Rightarrow> duration" where
  "stretched q d = entry_window (new_entry (scale_of q)) d"

lemma entry_window_scale: "ce_scale e = scale_of q \<Longrightarrow> entry_window e d = stretched q d"
  by (simp add: entry_window_def stretched_def new_entry_def)

definition fetches :: "query \<Rightarrow> qc_sys \<Rightarrow> (query \<times> upstream \<times> gotime \<times> gotime) list" where
  "fetches q s = filter (\<lambda>f. fst f = q) (qs_log s)"

text \<open>The clock never reads zero, the value that stands for never.\<close>

fun clocked :: "qc_op \<Rightarrow> bool" where
  "clocked (Turn q up now later) \<longleftrightarrow> later \<noteq> 0"
| "clocked _ \<longleftrightarrow> True"

definition spaced :: "duration \<Rightarrow> (query \<times> upstream \<times> gotime \<times> gotime) list \<Rightarrow> bool" where
  "spaced w fs = successively (\<lambda>(_, _, _, done) (_, _, start, _). w \<le> time_Sub start done) fs"

definition entry_logged :: "Cacher \<Rightarrow> qc_sys \<Rightarrow> query \<Rightarrow> bool" where
  "entry_logged c s q \<longleftrightarrow>
     (let e = entry_of q (qs_port s)
      in ce_scale e = scale_of q \<and>
         (if fetches q s = [] then ce_attempted e = 0
          else ce_attempted e = snd (snd (snd (last (fetches q s)))) \<and> ce_attempted e \<noteq> 0) \<and>
         spaced (stretched q (qn_RefreshEvery (cc_cfg c))) (fetches q s) \<and>
         (ce_fetched e = 0 \<or> (\<exists>up now. (q, up, now, ce_fetched e) \<in> set (qs_log s) \<and>
            snd (fetch (build_of q) up) = Inr (ce_datagrams e))))"

lemma spaced_snoc: "spaced w (fs @ [(q, up, now, later)]) \<longleftrightarrow>
    spaced w fs \<and> (fs \<noteq> [] \<longrightarrow> w \<le> time_Sub now (snd (snd (snd (last fs)))))"
  by (cases fs rule: rev_cases) (auto simp: spaced_def successively_append_iff)

lemma logged_turn:
  assumes "later \<noteq> 0" and "entry_logged c s q" and "refresh_wanted c (entry_of q (qs_port s)) now"
    and due: "refresh_due c (entry_of q (qs_port s)) now"
  shows "entry_logged c (qc_step c s (Turn q up now later)) q"
proof -
  let ?e = "entry_of q (qs_port s)"
  define s' where s': "s' = qc_step c s (Turn q up now later)"
  have f: "fetches q s' = fetches q s @ [(q, up, now, later)]" using assms(3,4) by (simp add: s' fetches_def Let_def)
  have l: "qs_log s' = qs_log s @ [(q, up, now, later)]" using assms(3,4) by (simp add: s' Let_def)
  have e: "entry_of q (qs_port s') = (case snd (fetch (build_of q) up) of
      Inr ds \<Rightarrow> ?e\<lparr>ce_attempted := later, ce_datagrams := ds, ce_fetched := later, ce_fetchOK := True, ce_fetchErr := None\<rparr>
    | Inl x \<Rightarrow> ?e\<lparr>ce_attempted := later, ce_fetchOK := False, ce_fetchErr := Some x\<rparr>)"
    using assms(3,4) by (simp add: s' refresh_entry_same Let_def)
  have w: "entry_window ?e d = stretched q d" for d
    using assms(2) by (intro entry_window_scale) (simp add: entry_logged_def Let_def)
  have "spaced (stretched q (qn_RefreshEvery (cc_cfg c))) (fetches q s')"
    using assms(2) due unfolding f by (auto simp: spaced_snoc entry_logged_def refresh_due_def w IsZero_def Let_def split: if_splits)
  then show ?thesis
    using assms(1,2) unfolding s' [symmetric] entry_logged_def Let_def e
    by (cases "snd (fetch (build_of q) up)") (auto simp: f l)
qed

lemma logged_same:
  assumes "entry_logged c s q" and "fetches q s' = fetches q s" and "set (qs_log s) \<subseteq> set (qs_log s')"
    and "entry_of q (qs_port s') = entry_of q (qs_port s) \<or>
      entry_of q (qs_port s') = stampDemand t (entry_of q (qs_port s))"
  shows "entry_logged c s' q"
  using assms by (auto simp: entry_logged_def Let_def stampDemand_def) blast+

lemma logged_step:
  assumes "clocked ev" and "\<forall>q. entry_logged c s q"
  shows "\<forall>q. entry_logged c (qc_step c s ev) q"
proof
  fix q
  show "entry_logged c (qc_step c s ev) q"
  proof (cases ev)
    case (Packet src pkt now)
    show ?thesis
      by (rule logged_same [where s = s and t = now])
        (use assms(2) Packet serve_entry [of q c src pkt now "qs_port s"] in \<open>auto simp: fetches_def\<close>)
  next
    case (Turn q' up now later)
    show ?thesis
    proof (cases "q = q' \<and> refresh_wanted c (entry_of q' (qs_port s)) now \<and> refresh_due c (entry_of q' (qs_port s)) now")
      case True
      then show ?thesis using assms Turn logged_turn [of later c s q now up] by simp
    next
      case False
      have "entry_of q (qs_port (qc_step c s ev)) = entry_of q (qs_port s)"
        using Turn False by (cases "q = q'") (auto simp: Let_def refresh_entry_same refresh_entry_other)
      then show ?thesis
        by (intro logged_same [where s = s and s' = "qc_step c s ev" and t = now])
          (use assms(2) Turn False in \<open>auto simp: fetches_def Let_def\<close>)
    qed
  qed
qed

interpretation logged_runs: guarded_run "qc_step c" clocked "\<lambda>s. \<forall>q. entry_logged c s q" for c
  by unfold_locales (rule logged_step)

definition qc_start :: "qConfig \<Rightarrow> Port \<Rightarrow> qc_sys" where
  "qc_start cfg p = \<lparr>qs_port = new_port cfg p, qs_log = []\<rparr>"

lemma logged_start: "entry_logged c (qc_start cfg p) q"
  by (cases q) (simp_all add: entry_logged_def qc_start_def new_port_def new_entry_def fetches_def spaced_def Let_def)

text \<open>Polling keeps its pace: in every run, whether the real server answers, fails or is down, two
  fetches of the same query are at least a refresh interval apart, five intervals for the
  rules, measured from the end of one to the start of the next.\<close>

theorem fetches_paced:
  assumes "list_all clocked ops"
  shows "spaced (stretched q (qn_RefreshEvery (cc_cfg c))) (fetches q (foldl (qc_step c) (qc_start cfg p) ops))"
proof -
  have "entry_logged c (foldl (qc_step c) (qc_start cfg p) ops) q"
    using logged_runs.guarded_run_inv [OF assms, of c "qc_start cfg p"] logged_start by simp
  then show ?thesis by (simp add: entry_logged_def Let_def)
qed

lemma answer_out:
  assumes "qc_verify c p src ch now" and "fst (answerOrChallenge c q src ch now p) \<noteq> []"
  shows "fst (answerOrChallenge c q src ch now p) = ce_datagrams (entry_of q p) \<and> ce_fetched (entry_of q p) \<noteq> 0 \<and>
    time_Sub now (ce_fetched (entry_of q p)) \<le> entry_window (entry_of q p) (qn_StaleAfter (cc_cfg c))"
  using assms by (auto simp: answerOrChallenge_def Let_def fresh_def stampDemand_def entry_window_def IsZero_def
      split: option.splits prod.splits bool.splits if_splits)

lemma served_entry:
  assumes "verified c p src pkt now" and "fst (serve_packet c src pkt now p) \<noteq> []"
  shows "\<exists>q. fst (serve_packet c src pkt now p) = ce_datagrams (entry_of q p) \<and> ce_fetched (entry_of q p) \<noteq> 0 \<and>
    time_Sub now (ce_fetched (entry_of q p)) \<le> entry_window (entry_of q p) (qn_StaleAfter (cc_cfg c))"
proof -
  obtain k ch where k: "classify (take 4096 pkt) = (k, ch)" by fastforce
  with assms(1) have v: "qc_verify c p src ch now"
    and "k \<in> {queryInfoChallenged, queryPlayerChallenged, queryRulesChallenged}" by (auto simp: verified_def)
  then obtain q where "serve_packet c src pkt now p = answerOrChallenge c q src ch now p"
    using k by (auto simp: serve_packet_def)
  then show ?thesis using answer_out [OF v, of q] assms(2) by auto
qed

text \<open>Nothing stale is served: every payload a verified client receives is, datagram for datagram, the
  reply of one completed exchange with the real server that ended within the staleness window of
  that query.\<close>

theorem served_within_window:
  assumes "list_all clocked ops" and "s = foldl (qc_step c) (qc_start cfg prt) ops"
    and "verified c (qs_port s) src pkt now" and "fst (serve_packet c src pkt now (qs_port s)) \<noteq> []"
  shows "\<exists>q up start finish. (q, up, start, finish) \<in> set (qs_log s) \<and>
    snd (fetch (build_of q) up) = Inr (fst (serve_packet c src pkt now (qs_port s))) \<and>
    time_Sub now finish \<le> stretched q (qn_StaleAfter (cc_cfg c))"
proof -
  have logged: "\<forall>q. entry_logged c s q"
    using logged_runs.guarded_run_inv [OF assms(1), of c "qc_start cfg prt"] logged_start assms(2) by simp
  from served_entry [OF assms(3,4)] obtain q where
    q: "fst (serve_packet c src pkt now (qs_port s)) = ce_datagrams (entry_of q (qs_port s))"
      "ce_fetched (entry_of q (qs_port s)) \<noteq> 0"
      "time_Sub now (ce_fetched (entry_of q (qs_port s))) \<le> entry_window (entry_of q (qs_port s)) (qn_StaleAfter (cc_cfg c))"
    by blast
  have "ce_scale (entry_of q (qs_port s)) = scale_of q" using logged by (simp add: entry_logged_def Let_def)
  from entry_window_scale [OF this] q logged show ?thesis
    by (fastforce simp: entry_logged_def Let_def)
qed

section \<open>The timings a configuration gives\<close>

lemma milliseconds_range: "0 \<le> n \<Longrightarrow> n \<le> 3074457345618 \<Longrightarrow> milliseconds n = n * 1000000"
  by (simp add: milliseconds_small)

text \<open>Between polls every answer comes from the staleness window, so it covers three of the intervals
  the cache really polls at; the refresh interval is never below half a second.\<close>

lemma queryCacheTimings_floor:
  assumes "0 \<le> qc_RefreshMs qc" and "qc_RefreshMs qc \<le> 3074457345618"
    and "queryCacheTimings qc = (refresh, stale)"
  defines "every \<equiv> qn_RefreshEvery (cacher_config \<lparr>qn_RefreshEvery = refresh, qn_IdleAfter = 0, qn_StaleAfter = stale,
      qn_UpstreamTimeout = 0, qn_PaceBurst = 0, qn_PaceRefill = 0\<rparr>)"
  shows "3 * every \<le> stale \<and> 500000000 \<le> every"
proof -
  have m: "milliseconds (qc_RefreshMs qc) = qc_RefreshMs qc * 1000000" using assms(1,2) by (rule milliseconds_range)
  have w: "wrap64 (3 * x) = 3 * x" if "0 \<le> x" "x \<le> 3074457345618 * 1000000" for x
    using that by (intro wrap64_id) (simp add: in_int64_def minInt64_def maxInt64_def)
  show ?thesis
    using assms(1-3) w [of "qc_RefreshMs qc * 1000000"] w [of 500000000] w [of DefaultRefreshEvery]
    by (auto simp: queryCacheTimings_def every_def cacher_config_def Let_def m DefaultRefreshEvery_def split: if_splits)
qed

text \<open>The floor is lost for a negative stored interval: the cache falls back to its default interval
  while the comparison is made against the negative one.\<close>

lemma queryCacheTimings_negative:
  "queryCacheTimings \<lparr>qc_Enabled = True, qc_RefreshMs = - 1, qc_StaleMs = 1\<rparr> = (- 1000000, 1000000)"
  by (simp add: queryCacheTimings_def Let_def milliseconds_def wrap64_def)

section \<open>A port at work\<close>

definition demo_cacher :: Cacher where
  "demo_cacher = fst (qcache_New \<lparr>qn_RefreshEvery = 0, qn_IdleAfter = 0, qn_StaleAfter = 0, qn_UpstreamTimeout = 0,
     qn_PaceBurst = 0, qn_PaceRefill = 0\<rparr> [] [1, 2, 3])"

definition demo_port :: Port where
  "demo_port = \<lparr>pt_Port = 27015, pt_Target = ''10.99.0.2'', pt_Service = ''source'', pt_TargetPort = 0\<rparr>"

definition demo_client :: UDPAddr where
  "demo_client = \<lparr>ua_IP = [203, 0, 113, 7], ua_Port = 51000\<rparr>"

definition demo_start :: qc_sys where
  "demo_start = qc_start (cc_cfg demo_cacher) demo_port"

lemma demo_cfg [simp]:
  "qn_StaleAfter (cc_cfg demo_cacher) = 10000000000" "qn_IdleAfter (cc_cfg demo_cacher) = 60000000000"
  "qn_RefreshEvery (cc_cfg demo_cacher) = 3000000000" "qn_PaceBurst (cc_cfg demo_cacher) = 524288"
  by (simp_all add: demo_cacher_def qcache_New_def cacher_config_def Let_def DefaultStaleAfter_def defaultIdleAfter_def
      DefaultRefreshEvery_def paceBurstBytes_def)

theorem unverified_not_amplified_witness:
  "total_len (fst (serve_packet demo_cacher demo_client (playerRequest None) 0 (qs_port demo_start))) \<le> 9"
proof -
  let ?r = "serve_packet demo_cacher demo_client (playerRequest None) 0 (qs_port demo_start)"
  have "\<not> verified demo_cacher (qs_port demo_start) demo_client (playerRequest None) 0"
    using classify_bare [of Player] by (simp add: verified_def playerRequest_def challengedRequest_def a2s_consts)
  moreover have "length (playerRequest None) = 9" by (simp add: playerRequest_def challengedRequest_def a2s_consts)
  ultimately show ?thesis using unverified_not_amplified [of _ _ _ _ _ "fst ?r" "snd ?r"] by fastforce
qed

theorem collect_complete_witness:
  "\<exists>ds. collect [254, 255, 255, 255, 0, 0, 0, 0, 2, 1, 7]
     [Some [9], Some [254, 255, 255, 255, 0, 0, 0, 0, 2, 1, 8], Some [254, 255, 255, 255, 0, 0, 0, 0, 2, 0, 6]] = Inr ds \<and>
   length ds = 2 \<and> ds ! 1 = [254, 255, 255, 255, 0, 0, 0, 0, 2, 1, 7]"
proof -
  let ?f = "[254, 255, 255, 255, 0, 0, 0, 0, 2, 1, 7] :: bytes"
  let ?r = "[Some [9], Some [254, 255, 255, 255, 0, 0, 0, 0, 2, 1, 8], Some [254, 255, 255, 255, 0, 0, 0, 0, 2, 0, 6]] :: bytes option list"
  have m: "fragmentMeta ?f = Some (2, 1)" by code_simp
  have "fragmentMeta (take 4096 [254, 255, 255, 255, 0, 0, 0, 0, 2, 0, 6]) = Some (2, 0)" by code_simp
  then have p: "provides ?r 2 0" by simp
  have "\<forall>i < 2. i \<noteq> 1 \<longrightarrow> provides ?r 2 i" using p by (auto simp: less_2_cases_iff)
  then obtain ds where ds: "collect ?f ?r = Inr ds" using collect_complete [OF m, of ?r] by blast
  then show ?thesis using collect_complete [OF m, of ?r] by blast
qed

text \<open>A verified query asks for a refresh, the refresher fetches, and the next one is answered.\<close>

definition demo_echo :: bytes where
  "demo_echo = infoRequest (Some (challenge_at demo_cacher (qs_port demo_start) demo_client (bucket_of (time_Unix 100))))"

definition demo_ops :: "qc_op list" where
  "demo_ops = [Packet demo_client demo_echo (time_Unix 100),
     Turn Info \<lparr>up_dial = True, up_write = (\<lambda>_. True), up_reads = [Some [255, 255, 255, 255, 73, 1]]\<rparr> (time_Unix 101) (time_Unix 101)]"

lemma demo_verified:
  "po_cfg p = po_cfg (qs_port demo_start) \<Longrightarrow> verified demo_cacher p demo_client demo_echo (time_Unix 100)"
  "po_cfg p = po_cfg (qs_port demo_start) \<Longrightarrow> verified demo_cacher p demo_client demo_echo (time_Unix 102)"
proof -
  let ?ch = "challenge_at demo_cacher (qs_port demo_start) demo_client (bucket_of (time_Unix 100))"
  have ch: "?ch \<noteq> noChallenge" by (simp add: challenge_at_def challengeFor_not_bare)
  have c: "classify (take 4096 demo_echo) = (queryInfoChallenged, ?ch)"
    using classify_build [of ?ch Info] ch build_short(1) [of ?ch Info] by (simp add: demo_echo_def)
  assume p: "po_cfg p = po_cfg (qs_port demo_start)"
  show "verified demo_cacher p demo_client demo_echo (time_Unix 100)"
    using c verified_echo [of "time_Unix 100" "time_Unix 100" p "qs_port demo_start"] p by (simp add: verified_def)
  show "verified demo_cacher p demo_client demo_echo (time_Unix 102)"
    using c verified_echo [of "time_Unix 100" "time_Unix 102" p "qs_port demo_start"] p by (simp add: verified_def)
qed

definition demo_end :: qc_sys where
  "demo_end = foldl (qc_step demo_cacher) demo_start demo_ops"

lemma demo_serve:
  assumes "po_cfg p = po_cfg (qs_port demo_start)" and "t = time_Unix 100 \<or> t = time_Unix 102"
  shows "\<exists>ch. serve_packet demo_cacher demo_client demo_echo t p = answerOrChallenge demo_cacher Info demo_client ch t p \<and>
    qc_verify demo_cacher p demo_client ch t"
proof -
  let ?ch = "challenge_at demo_cacher (qs_port demo_start) demo_client (bucket_of (time_Unix 100))"
  have "?ch \<noteq> noChallenge" by (simp add: challenge_at_def challengeFor_not_bare)
  then have "serve_packet demo_cacher demo_client demo_echo t p = answerOrChallenge demo_cacher Info demo_client ?ch t p"
    using serve_build [of ?ch demo_cacher demo_client Info t p] by (simp add: demo_echo_def)
  moreover have "qc_verify demo_cacher p demo_client ?ch t"
    using assms verified_echo [of "time_Unix 100" t p "qs_port demo_start"] by auto
  ultimately show ?thesis by blast
qed

lemma demo_fetched:
  "ce_datagrams (entry_of Info (qs_port demo_end)) = [[255, 255, 255, 255, 73, 1]]"
  "ce_fetched (entry_of Info (qs_port demo_end)) = time_Unix 101" "ce_scale (entry_of Info (qs_port demo_end)) = 1"
  "po_cfg (qs_port demo_end) = po_cfg (qs_port demo_start)"
  "ce_demand (entry_of Info (qs_port demo_end)) = time_Unix 100"
proof -
  let ?p1 = "snd (serve_packet demo_cacher demo_client demo_echo (time_Unix 100) (qs_port demo_start))"
  have "entry_of Info (qs_port demo_start) = new_entry 1" by (simp add: demo_start_def qc_start_def new_port_def)
  moreover obtain ch where "?p1 = snd (answerOrChallenge demo_cacher Info demo_client ch (time_Unix 100) (qs_port demo_start))"
    "qc_verify demo_cacher (qs_port demo_start) demo_client ch (time_Unix 100)"
    using demo_serve [of "qs_port demo_start" "time_Unix 100"] by auto
  ultimately have e1: "entry_of Info ?p1 = stampDemand (time_Unix 100) (new_entry 1)"
    using answer_entry [of Info demo_cacher Info demo_client ch "time_Unix 100" "qs_port demo_start"] by simp
  have due: "refresh_wanted demo_cacher (stampDemand (time_Unix 100) (new_entry 1)) (time_Unix 101)"
    "refresh_due demo_cacher (stampDemand (time_Unix 100) (new_entry 1)) (time_Unix 101)"
    by (simp_all add: refresh_wanted_def refresh_due_def stampDemand_def new_entry_def IsZero_def time_Unix_def unix_epoch_def
        time_Sub_def minInt64_def maxInt64_def)
  have f: "snd (fetch infoRequest \<lparr>up_dial = True, up_write = (\<lambda>_. True), up_reads = [Some [255, 255, 255, 255, 73, 1]]\<rparr>) =
      Inr [[255, 255, 255, 255, 73, 1]]"
    by (simp add: fetch_def numeral_3_eq_3 isChallenge_def collect_def headerSingle_def)
  have e2: "entry_of Info (qs_port demo_end) = (stampDemand (time_Unix 100) (new_entry 1))\<lparr>ce_attempted := time_Unix 101,
      ce_datagrams := [[255, 255, 255, 255, 73, 1]], ce_fetched := time_Unix 101, ce_fetchOK := True, ce_fetchErr := None\<rparr>"
    using refresh_entry_same [of Info demo_cacher "\<lparr>up_dial = True, up_write = (\<lambda>_. True), up_reads = [Some [255, 255, 255, 255, 73, 1]]\<rparr>"
        "time_Unix 101" "time_Unix 101" ?p1] e1 due f by (simp add: demo_end_def demo_ops_def Let_def)
  show "po_cfg (qs_port demo_end) = po_cfg (qs_port demo_start)"
    by (simp add: demo_end_def demo_ops_def Let_def refresh_cfg serve_cfg)
  show "ce_datagrams (entry_of Info (qs_port demo_end)) = [[255, 255, 255, 255, 73, 1]]"
    "ce_fetched (entry_of Info (qs_port demo_end)) = time_Unix 101" "ce_scale (entry_of Info (qs_port demo_end)) = 1"
    "ce_demand (entry_of Info (qs_port demo_end)) = time_Unix 100"
    by (simp_all only: e2) (simp_all add: stampDemand_def new_entry_def)
qed

lemma demo_paced: "fst (pace_allow (ua_IP demo_client) 6 t (newPacer 524288 r i m))"
proof -
  have "f_of_int 524288 = Fin 524288" "f_of_int 6 = Fin 6" by (simp_all add: f_of_int_def f64_small [of 524288, simplified] f64_small [of 6, simplified])
  then show ?thesis by (simp add: pace_allow_def newPacer_def prune_def pace_charge_def Let_def split: prod.split)
qed

lemma demo_pacer: "po_pace (qs_port demo_end) = newPacer 524288 (qn_PaceRefill (cc_cfg demo_cacher)) paceIdleAfter paceMaxSources"
proof -
  let ?p0 = "qs_port demo_start"
  obtain ch where a: "serve_packet demo_cacher demo_client demo_echo (time_Unix 100) ?p0 =
      answerOrChallenge demo_cacher Info demo_client ch (time_Unix 100) ?p0" using demo_serve by blast
  have "fresh (stampDemand (time_Unix 100) (po_info ?p0)) t w = None" for t w
    by (simp add: fresh_def stampDemand_def demo_start_def qc_start_def new_port_def new_entry_def IsZero_def)
  then have "po_pace (snd (serve_packet demo_cacher demo_client demo_echo (time_Unix 100) ?p0)) = po_pace ?p0"
    unfolding a by (simp add: answerOrChallenge_def sendChallenge_def Let_def)
  moreover have "po_pace (refreshEntry c q up now later p) = po_pace p" for c q up now later p
    by (simp add: refreshEntry_def Let_def split: sum.split)
  ultimately show ?thesis by (simp add: demo_end_def demo_ops_def Let_def demo_start_def qc_start_def new_port_def)
qed

lemma demo_answer: "fst (serve_packet demo_cacher demo_client demo_echo (time_Unix 102) (qs_port demo_end)) \<noteq> []"
proof -
  obtain ch where a: "serve_packet demo_cacher demo_client demo_echo (time_Unix 102) (qs_port demo_end) =
      answerOrChallenge demo_cacher Info demo_client ch (time_Unix 102) (qs_port demo_end)"
    and v: "qc_verify demo_cacher (qs_port demo_end) demo_client ch (time_Unix 102)"
    using demo_serve [OF demo_fetched(4)] by blast
  have f: "fresh (stampDemand t (po_info (qs_port demo_end))) (time_Unix 102)
      (entry_window (stampDemand t (po_info (qs_port demo_end))) 10000000000) = Some [[255, 255, 255, 255, 73, 1]]" for t
    using demo_fetched by (simp add: fresh_def stampDemand_def entry_window_def IsZero_def time_Unix_def unix_epoch_def
        time_Sub_def minInt64_def maxInt64_def)
  obtain pa where "pace_allow (ua_IP demo_client) 6 (time_Unix 102) (po_pace (qs_port demo_end)) = (True, pa)"
    using demo_paced [of "time_Unix 102" "qn_PaceRefill (cc_cfg demo_cacher)" paceIdleAfter paceMaxSources]
    by (auto simp: demo_pacer split: prod.split) (metis prod.collapse)
  then show ?thesis unfolding a using v f by (simp add: answerOrChallenge_def Let_def total_len_def)
qed

theorem served_within_window_witness:
  "\<exists>q up start finish. (q, up, start, finish) \<in> set (qs_log demo_end) \<and>
    snd (fetch (build_of q) up) = Inr (fst (serve_packet demo_cacher demo_client demo_echo (time_Unix 102) (qs_port demo_end)))"
proof -
  have "list_all clocked demo_ops" by (simp add: demo_ops_def time_Unix_def unix_epoch_def)
  moreover have "demo_end = foldl (qc_step demo_cacher) (qc_start (cc_cfg demo_cacher) demo_port) demo_ops"
    by (simp add: demo_end_def demo_start_def)
  ultimately show ?thesis
    using served_within_window [OF _ _ demo_verified(2) [OF demo_fetched(4)] demo_answer] by blast
qed

theorem challenged_client_served_witness:
  "\<exists>ch. fst (serve_packet demo_cacher demo_client (infoRequest None) (time_Unix 100) (qs_port demo_start)) = [challengeReply ch] \<and>
    fst (serve_packet demo_cacher demo_client (infoRequest (Some ch)) (time_Unix 102) (qs_port demo_end)) = [[255, 255, 255, 255, 73, 1]]"
proof -
  let ?r = "serve_packet demo_cacher demo_client (build_of Info None) (time_Unix 100) (qs_port demo_start)"
  have s: "?r = (fst ?r, snd ?r)" by simp
  have f: "fresh (entry_of Info (qs_port demo_end)) (time_Unix 102)
      (entry_window (entry_of Info (qs_port demo_end)) (qn_StaleAfter (cc_cfg demo_cacher))) = Some [[255, 255, 255, 255, 73, 1]]"
    using demo_fetched by (simp add: fresh_def entry_window_def IsZero_def time_Unix_def unix_epoch_def time_Sub_def minInt64_def maxInt64_def)
  have p: "fst (pace_allow (ua_IP demo_client) (total_len [[255, 255, 255, 255, 73, 1]]) (time_Unix 102) (po_pace (qs_port demo_end)))"
    using demo_paced by (simp add: demo_pacer total_len_def)
  show ?thesis using challenged_client_served [OF s _ _ _ _ demo_fetched(4) f p] by auto
qed

theorem spoofed_never_polls_witness:
  "refresh_sent demo_cacher Info \<lparr>up_dial = True, up_write = (\<lambda>_. True), up_reads = []\<rparr> (time_Unix 200)
     (qs_port (foldl (qc_step demo_cacher) demo_end [Packet demo_client (infoRequest None) (time_Unix 150)])) = []"
proof (rule ccontr)
  let ?ops = "[Packet demo_client (infoRequest None) (time_Unix 150)]"
  have "\<not> verified demo_cacher (qs_port demo_end) demo_client (infoRequest None) (time_Unix 150)"
    using classify_bare [of Info] build_short(2) [of Info] by (simp add: verified_def)
  then have ops: "list_all (spoofed_op demo_cacher (qs_port demo_end)) ?ops" by simp
  assume "\<not> ?thesis"
  from spoofed_never_polls [OF ops this] demo_fetched(5) show False
    by (simp add: time_Unix_def time_Sub_def minInt64_def maxInt64_def unix_epoch_def)
qed

end
