(* ===== verification/PacerProps.thy ===== *)
theory PacerProps
  imports QueryCache
begin

text \<open>
  The byte budget of the query cache (\<open>qcache/pace.go\<close>), floating point included: over any run of
  queries a source is sent at most one burst plus the refill for the time that has passed, up to
  a rounding term of a millionth of a byte per query.
\<close>

section \<open>Rounding error\<close>

lemma round_half_even_error: "of_int (round_half_even r) \<le> r + 1 / 2"
proof -
  let ?f = "\<lfloor>r\<rfloor>"
  have d: "0 \<le> r - of_int ?f" "r - of_int ?f < 1" by linarith+
  show ?thesis
  proof (cases "r - of_int ?f < 1 / 2")
    case True
    then have "round_half_even r = ?f" by (simp add: round_half_even_def Let_def)
    then show ?thesis using of_int_floor_le [of r] by linarith
  next
    case False
    then have "round_half_even r \<le> ?f + 1" by (simp add: round_half_even_def Let_def)
    then have "(of_int (round_half_even r) :: rat) \<le> of_int (?f + 1)" by (simp only: of_int_le_iff)
    then show ?thesis using False by simp
  qed
qed

lemma rnd64_upper:
  assumes "0 \<le> x" and "x \<le> 2 powi k" and "- 1022 \<le> k"
  shows "rnd64 x \<le> x + 2 powi (k - 53)"
proof (cases "x = 0")
  case False
  with assms(1) have x: "0 < x" by simp
  let ?u = "(2::rat) powi ulp_exp x"
  have "ilog2 x \<le> k"
  proof -
    have "2 powi ilog2 x \<le> (2::rat) powi k" using ilog2_bounds(1) [OF x] assms(2) by linarith
    then show ?thesis by simp
  qed
  then have "ulp_exp x \<le> k - 52" using assms(3) by (simp add: ulp_exp_def)
  then have u: "?u \<le> 2 powi (k - 52)" by simp
  have up: "0 < ?u" by simp
  have "of_int (round_half_even (x / ?u)) * ?u \<le> (x / ?u + 1 / 2) * ?u"
    using round_half_even_error [of "x / ?u"] up by (intro mult_right_mono) simp_all
  also have "\<dots> = x + ?u / 2" by (simp add: field_simps)
  also have "\<dots> \<le> x + 2 powi (k - 52) / 2" using u by simp
  also have "2 powi (k - 52) / 2 = (2::rat) powi (k - 53)" using power_int_add [of "2::rat" "k - 53" 1] by simp
  finally show ?thesis using x by (simp add: rnd64_def rnd_pos_def)
qed simp

section \<open>One refill and one charge\<close>

lemma f_of_int_small: "0 \<le> n \<Longrightarrow> n < 2 ^ 53 \<Longrightarrow> f_of_int n = Fin (of_int n)"
  by (simp add: f_of_int_def f64_small)

lemma dur_Seconds_upper:
  assumes "0 < d" and "d \<le> 120000000000"
  shows "\<exists>s. dur_Seconds d = Fin s \<and> 0 \<le> s \<and> s \<le> of_int d / 1000000000 + 2 powi (-45) \<and> s \<le> 128"
proof -
  define sec ns where "sec = d div 1000000000" and "ns = d mod 1000000000"
  have sec: "0 \<le> sec" "sec \<le> 120" and ns: "0 \<le> ns" "ns < 1000000000" and d: "d = sec * 1000000000 + ns"
    using assms by (auto simp: sec_def ns_def)
  define y where "y = (of_int ns / 1000000000 :: rat)"
  have y: "0 \<le> y" "y \<le> 1" using ns by (simp_all add: y_def)
  define r where "r = rnd64 y"
  have r: "0 \<le> r" "r \<le> 1" "r \<le> y + 2 powi (-53)"
    using y rnd64_nonneg [of y] rnd64_le_pow2 [of y 0] rnd64_upper [of y 0] by (simp_all add: r_def)
  have fr: "f64 y = Fin r" unfolding r_def using y by (intro f64_fin [where k = 0]) simp_all
  have x: "0 \<le> of_int sec + r" "of_int sec + r \<le> 128" using sec r by linarith+
  define s where "s = rnd64 (of_int sec + r)"
  have s: "0 \<le> s" "s \<le> 128" "s \<le> of_int sec + r + 2 powi (-46)"
    using x rnd64_nonneg rnd64_le_pow2 [of "of_int sec + r" 7] rnd64_upper [of "of_int sec + r" 7] by (simp_all add: s_def)
  have "f64 (of_int sec + r) = Fin s" unfolding s_def using x by (intro f64_fin [where k = 7]) simp_all
  moreover have "dur_Seconds d = f64 (of_int sec + r)"
  proof -
    have "go_div d 1000000000 = sec" using assms(1) by (simp add: go_div_nonneg sec_def)
    moreover have "d - sec * 1000000000 = ns" using d by simp
    moreover have "f_of_int sec = Fin (of_int sec)" "f_of_int ns = Fin (of_int ns)"
      using sec ns by (simp_all add: f_of_int_small)
    ultimately show ?thesis using fr by (simp add: dur_Seconds_def y_def)
  qed
  moreover have "of_int sec + y = of_int d / 1000000000" unfolding y_def d by (simp add: field_simps)
  moreover have "(2::rat) powi (-53) + 2 powi (-46) \<le> 2 powi (-45)" by (simp add: power_int_def power_one_over)
  ultimately show ?thesis using s r by (intro exI [of _ s]) simp_all
qed

text \<open>The sizes for which the rounding terms are bounded; the shipped figures are far inside.\<close>

definition pace_sizes :: "int \<Rightarrow> int \<Rightarrow> bool" where
  "pace_sizes B R \<longleftrightarrow> 0 < B \<and> B \<le> 2 ^ 30 \<and> 0 < R \<and> R \<le> 2 ^ 20"

lemma refill_upper:
  assumes "pace_sizes B R" and "0 \<le> t" and "t \<le> of_int B" and "0 < d" and "d \<le> 120000000000"
  shows "\<exists>t'. fmin (Fin (of_int B)) (fadd (Fin t) (fmul (dur_Seconds d) (Fin (of_int R)))) = Fin t' \<and> 0 \<le> t' \<and>
    t' \<le> of_int B \<and> t' \<le> t + of_int R * of_int d / 1000000000 + 2 powi (-21)"
proof -
  have B: "0 < (of_int B :: rat)" "(of_int B :: rat) \<le> 2 ^ 30" and R: "0 < (of_int R :: rat)" "(of_int R :: rat) \<le> 2 ^ 20"
    using assms(1) of_int_le_iff [of B "2 ^ 30", where ?'a = rat] of_int_le_iff [of R "2 ^ 20", where ?'a = rat]
    by (simp_all add: pace_sizes_def)
  obtain s where s: "dur_Seconds d = Fin s" "0 \<le> s" "s \<le> of_int d / 1000000000 + 2 powi (-45)" "s \<le> 128"
    using dur_Seconds_upper [OF assms(4,5)] by blast
  have sR: "0 \<le> s * of_int R" "s * of_int R \<le> 2 ^ 27"
    using s R mult_mono [of s 128 "of_int R" "2 ^ 20"] by simp_all
  define m where "m = rnd64 (s * of_int R)"
  have m: "f64 (s * of_int R) = Fin m" "0 \<le> m" "m \<le> 2 ^ 27" "m \<le> s * of_int R + 2 powi (-26)"
    unfolding m_def using sR rnd64_nonneg [OF sR(1)] rnd64_le_pow2 [OF sR(2)] rnd64_upper [of "s * of_int R" 27]
    by (simp_all add: f64_fin [where k = 27])
  have tm: "0 \<le> t + m" "t + m \<le> 2 ^ 30 + 2 ^ 27" using assms(2,3) m B by linarith+
  then have tm: "0 \<le> t + m" "t + m \<le> 2 ^ 31" by simp_all
  define a where "a = rnd64 (t + m)"
  have a: "f64 (t + m) = Fin a" "0 \<le> a" "a \<le> t + m + 2 powi (-22)"
    unfolding a_def using tm rnd64_nonneg [OF tm(1)] rnd64_upper [of "t + m" 31] by (simp_all add: f64_fin [where k = 31])
  have "s * of_int R \<le> (of_int d / 1000000000 + 2 powi (-45)) * of_int R" using s R by (intro mult_right_mono) simp_all
  also have "\<dots> \<le> of_int R * of_int d / 1000000000 + 2 powi (-45) * 2 ^ 20"
    using R mult_left_mono [of "of_int R" "2 ^ 20" "(2::rat) powi (-45)"] by (simp add: field_simps)
  finally have "a \<le> t + of_int R * of_int d / 1000000000 + (2 powi (-45) * 2 ^ 20 + 2 powi (-26) + 2 powi (-22))"
    using a m by linarith
  moreover have "(2::rat) powi (-45) * 2 ^ 20 + 2 powi (-26) + 2 powi (-22) \<le> 2 powi (-21)" by (simp add: power_int_def power_one_over)
  ultimately have "a \<le> t + of_int R * of_int d / 1000000000 + 2 powi (-21)" by linarith
  then show ?thesis using s a m B by (auto simp: fmin_def)
qed

lemma charge_upper:
  assumes "pace_sizes B R" and "0 \<le> t" and "t \<le> of_int B" and "0 \<le> n" and "n < 2 ^ 53" and "pe_tokens e = Fin t"
    and "pace_charge n e = (ok, e')"
  shows "\<exists>t'. pe_tokens e' = Fin t' \<and> 0 \<le> t' \<and> t' \<le> of_int B \<and>
    t' \<le> t - (if ok then of_int n else 0) + 2 powi (-23) \<and> pe_key e' = pe_key e \<and> pe_last e' = pe_last e"
proof (cases "t < of_int n")
  case True
  then show ?thesis using assms by (auto simp: pace_charge_def f_of_int_small)
next
  case False
  have B: "(of_int B :: rat) \<le> 2 ^ 30" "\<bar>B\<bar> < 2 ^ 53"
    using assms(1) of_int_le_iff [of B "2 ^ 30", where ?'a = rat] by (simp_all add: pace_sizes_def)
  have x: "0 \<le> t - of_int n" "t - of_int n \<le> of_int B" "t - of_int n \<le> 2 ^ 30" using False assms B by simp_all
  have "rnd64 (t - of_int n) \<le> rnd64 (of_int B)" using x(2) by (rule rnd64_mono)
  then have "rnd64 (t - of_int n) \<le> of_int B" using rnd64_int [OF B(2)] by simp
  then show ?thesis
    using False assms x rnd64_nonneg [OF x(1)] rnd64_upper [of "t - of_int n" 30]
    by (auto simp: pace_charge_def f_of_int_small fsub_def f64_fin [OF x(1,3)])
qed

section \<open>What a source can still draw\<close>

definition pace_entry_ok :: "int \<Rightarrow> gotime \<Rightarrow> paceEntry \<Rightarrow> bool" where
  "pace_entry_ok B now e \<longleftrightarrow> (\<exists>t. pe_tokens e = Fin t \<and> 0 \<le> t \<and> t \<le> of_int B) \<and> pe_last e \<le> now"

definition pace_inv :: "int \<Rightarrow> int \<Rightarrow> gotime \<Rightarrow> pacer \<Rightarrow> bool" where
  "pace_inv B R now p \<longleftrightarrow>
     pa_burst p = Fin (of_int B) \<and> pa_refill p = Fin (of_int R) \<and> pa_idle p = paceIdleAfter \<and>
     distinct (map pe_key (pa_lru p)) \<and> sorted_wrt (\<lambda>a b. pe_last b \<le> pe_last a) (pa_lru p) \<and>
     (\<forall>e \<in> set (pa_lru p). pace_entry_ok B now e)"

definition tokens_of :: "paceEntry \<Rightarrow> rat" where
  "tokens_of e = (case pe_tokens e of Fin t \<Rightarrow> t | _ \<Rightarrow> 0)"

definition lookup :: "bytes \<Rightarrow> pacer \<Rightarrow> paceEntry option" where
  "lookup k p = find (\<lambda>e. pe_key e = k) (pa_lru p)"

text \<open>The budget of a key at a moment, in exact arithmetic: an address without an entry has a full burst.\<close>

definition budget :: "int \<Rightarrow> int \<Rightarrow> bytes \<Rightarrow> gotime \<Rightarrow> pacer \<Rightarrow> rat" where
  "budget B R k now p =
     (case lookup k p of
        None \<Rightarrow> of_int B
      | Some e \<Rightarrow> min (of_int B) (tokens_of e + of_int R * of_int (now - pe_last e) / 1000000000))"

lemma lookup_ok: "pace_inv B R now p \<Longrightarrow> lookup k p = Some e \<Longrightarrow> pace_entry_ok B now e \<and> pe_key e = k \<and> e \<in> set (pa_lru p)"
  by (auto simp: lookup_def pace_inv_def dest: find_Some_mem)

lemma budget_range:
  assumes "pace_inv B R now p" and "pace_sizes B R"
  shows "0 \<le> budget B R k now p \<and> budget B R k now p \<le> of_int B"
proof (cases "lookup k p")
  case (Some e)
  then have "pace_entry_ok B now e" using lookup_ok [OF assms(1)] by blast
  then have "0 \<le> tokens_of e" "0 \<le> (of_int (now - pe_last e) :: rat)" by (auto simp: pace_entry_ok_def tokens_of_def)
  then show ?thesis using Some assms(2) by (simp add: budget_def pace_sizes_def)
qed (use assms(2) in \<open>simp add: budget_def pace_sizes_def\<close>)

lemma budget_later:
  assumes "now \<le> later" and "pace_sizes B R"
  shows "budget B R k later p \<le> budget B R k now p + of_int R * of_int (later - now) / 1000000000"
proof (cases "lookup k p")
  case (Some e)
  have "(of_int R * of_int (later - pe_last e) :: rat) = of_int R * of_int (now - pe_last e) + of_int R * of_int (later - now)"
    by (simp add: algebra_simps)
  moreover have "0 \<le> (of_int R * of_int (later - now) :: rat)" using assms by (simp add: pace_sizes_def)
  ultimately show ?thesis using Some by (simp add: budget_def min_def add_divide_distrib)
next
  case None
  have "0 \<le> (of_int R * of_int (later - now) :: rat)" using assms by (simp add: pace_sizes_def)
  with None show ?thesis by (simp add: budget_def)
qed

lemma pace_inv_later: "pace_inv B R now p \<Longrightarrow> now \<le> later \<Longrightarrow> pace_inv B R later p"
  by (force simp: pace_inv_def pace_entry_ok_def)

lemma set_prune: "set (pa_lru (prune now p)) \<subseteq> set (pa_lru p)"
  using set_dropWhileD by (fastforce simp: prune_def)

lemma pace_inv_prune: "pace_inv B R now p \<Longrightarrow> pace_inv B R now (prune now p)"
proof -
  assume inv: "pace_inv B R now p"
  have "distinct (map pe_key (rev (pa_lru p)))" using inv by (simp add: pace_inv_def rev_map [symmetric])
  then have "distinct (map pe_key (dropWhile (\<lambda>e. \<not> time_Sub now (pe_last e) \<le> pa_idle p) (rev (pa_lru p))))"
    by (metis (no_types, lifting) distinct_append map_append takeWhile_dropWhile_id)
  moreover have "sorted_wrt (\<lambda>a b. pe_last b \<le> pe_last a) (pa_lru (prune now p))"
  proof -
    have "sorted_wrt (\<lambda>a b. pe_last a \<le> pe_last b) (rev (pa_lru p))" using inv by (simp add: pace_inv_def sorted_wrt_rev)
    then have "sorted_wrt (\<lambda>a b. pe_last a \<le> pe_last b) (dropWhile (\<lambda>e. \<not> time_Sub now (pe_last e) \<le> pa_idle p) (rev (pa_lru p)))"
      by (metis (no_types, lifting) sorted_wrt_append takeWhile_dropWhile_id)
    then show ?thesis by (simp add: prune_def sorted_wrt_rev)
  qed
  ultimately show ?thesis using inv set_prune [of now p] by (auto simp: pace_inv_def prune_def rev_map [symmetric])
qed

lemma distinct_lookup: "distinct (map pe_key (pa_lru p)) \<Longrightarrow> lookup k p = Some e \<longleftrightarrow> e \<in> set (pa_lru p) \<and> pe_key e = k"
proof -
  assume d: "distinct (map pe_key (pa_lru p))"
  have "find (\<lambda>e. pe_key e = k) es = Some e \<longleftrightarrow> e \<in> set es \<and> pe_key e = k" if "distinct (map pe_key es)" for es
    using that
  proof (induction es)
    case (Cons x xs)
    then show ?case by (auto intro: rev_image_eqI)
  qed simp
  from this [OF d] show ?thesis by (simp add: lookup_def)
qed

text \<open>An entry pruned for idleness had a full budget.\<close>

lemma prune_removed:
  assumes "e \<in> set (pa_lru p)" and "e \<notin> set (pa_lru (prune now p))"
  shows "pa_idle p < time_Sub now (pe_last e)"
proof -
  let ?P = "\<lambda>e. \<not> time_Sub now (pe_last e) \<le> pa_idle p"
  have "set (takeWhile ?P (rev (pa_lru p))) \<union> set (dropWhile ?P (rev (pa_lru p))) = set (pa_lru p)"
    by (metis set_append set_rev takeWhile_dropWhile_id)
  then have "e \<in> set (takeWhile ?P (rev (pa_lru p)))" using assms by (auto simp: prune_def)
  then show ?thesis using set_takeWhileD by fastforce
qed

definition idle_refills :: "int \<Rightarrow> int \<Rightarrow> bool" where
  "idle_refills B R \<longleftrightarrow> B \<le> R * 120"

lemma budget_prune:
  assumes "pace_inv B R now p" and "pace_sizes B R" and "idle_refills B R"
  shows "budget B R k now (prune now p) = budget B R k now p"
proof (cases "lookup k p")
  case None
  then have "lookup k (prune now p) = None"
    using set_prune [of now p] by (auto simp: lookup_def find_None_iff)
  with None show ?thesis by (simp add: budget_def)
next
  case (Some e)
  have e: "e \<in> set (pa_lru p)" "pe_key e = k" "pace_entry_ok B now e" using lookup_ok [OF assms(1) Some] by auto
  have d: "distinct (map pe_key (pa_lru (prune now p)))" using pace_inv_prune [OF assms(1)] by (simp add: pace_inv_def)
  show ?thesis
  proof (cases "e \<in> set (pa_lru (prune now p))")
    case True
    then have "lookup k (prune now p) = Some e" using distinct_lookup [OF d] e by simp
    with Some show ?thesis by (simp add: budget_def)
  next
    case False
    have gone: "lookup k (prune now p) = None"
    proof (rule ccontr)
      assume "lookup k (prune now p) \<noteq> None"
      then obtain a where a: "a \<in> set (pa_lru (prune now p))" "pe_key a = k" using distinct_lookup [OF d, of k] by auto
      then have "lookup k p = Some a" using distinct_lookup [of p k a] assms(1) set_prune [of now p] by (auto simp: pace_inv_def)
      with Some a False show False by simp
    qed
    have "120000000000 < time_Sub now (pe_last e)"
      using prune_removed [OF e(1) False] assms(1) by (simp add: pace_inv_def paceIdleAfter_def)
    then have "120000000000 < now - pe_last e" by (simp add: time_Sub_def maxInt64_def minInt64_def)
    then have "R * 120000000000 \<le> R * (now - pe_last e)" using assms(2) by (simp add: pace_sizes_def)
    then have "B * 1000000000 \<le> R * (now - pe_last e)" using assms(3) by (simp add: idle_refills_def)
    then have "(of_int (B * 1000000000) :: rat) \<le> of_int (R * (now - pe_last e))" by (simp only: of_int_le_iff)
    then have "(of_int B :: rat) \<le> of_int R * of_int (now - pe_last e) / 1000000000" by simp
    moreover have "0 \<le> tokens_of e" using e(3) by (auto simp: pace_entry_ok_def tokens_of_def)
    ultimately show ?thesis using Some gone by (simp add: budget_def)
  qed
qed

section \<open>One query\<close>

text \<open>The entry a query is charged to, and what it leaves.\<close>

lemma refilled_upper:
  assumes "pace_inv B R now p" and "pace_sizes B R" and "pace_entry_ok B now e" and "time_Sub now (pe_last e) \<le> paceIdleAfter"
  shows "\<exists>t. pe_tokens (pace_refilled p now e) = Fin t \<and> 0 \<le> t \<and> t \<le> of_int B \<and> pe_key (pace_refilled p now e) = pe_key e \<and>
    pe_last (pace_refilled p now e) = now \<and>
    t \<le> min (of_int B) (tokens_of e + of_int R * of_int (now - pe_last e) / 1000000000) + 2 powi (-21)"
proof -
  obtain x where x: "pe_tokens e = Fin x" "0 \<le> x" "x \<le> of_int B" and l: "pe_last e \<le> now"
    using assms(3) by (auto simp: pace_entry_ok_def)
  have ar: "pa_burst p = Fin (of_int B)" "pa_refill p = Fin (of_int R)" using assms(1) by (simp_all add: pace_inv_def)
  have sub: "time_Sub now (pe_last e) = now - pe_last e"
    using l assms(4) by (simp add: time_Sub_def paceIdleAfter_def maxInt64_def minInt64_def)
  have eps: "0 \<le> (2::rat) powi (-21)" by simp
  show ?thesis
  proof (cases "pe_last e = now")
    case True
    then have "pace_refilled p now e = e" using sub by (simp add: pace_refilled_def Let_def)
    then show ?thesis using True x eps by (simp add: tokens_of_def)
  next
    case False
    then have d: "0 < now - pe_last e" "now - pe_last e \<le> 120000000000"
      using l assms(4) sub by (simp_all add: paceIdleAfter_def)
    from refill_upper [OF assms(2) x(2,3) d] obtain t' where t': "fmin (Fin (of_int B)) (fadd (Fin x)
        (fmul (dur_Seconds (now - pe_last e)) (Fin (of_int R)))) = Fin t'" "0 \<le> t'" "t' \<le> of_int B"
        "t' \<le> x + of_int R * of_int (now - pe_last e) / 1000000000 + 2 powi (-21)" by blast
    have "t' \<le> min (of_int B) (x + of_int R * of_int (now - pe_last e) / 1000000000) + 2 powi (-21)"
      using t'(3,4) eps by (simp add: min_def)
    then show ?thesis using t' d x by (simp add: pace_refilled_def sub ar tokens_of_def)
  qed
qed

lemma prune_kept_young:
  assumes e: "e \<in> set (pa_lru (prune now p))" and inv: "pace_inv B R now p"
  shows "time_Sub now (pe_last e) \<le> paceIdleAfter"
proof -
  have s: "sorted_wrt (\<lambda>a b. pe_last b \<le> pe_last a) (pa_lru p)" using inv by (simp add: pace_inv_def)
  let ?P = "\<lambda>e. \<not> time_Sub now (pe_last e) \<le> pa_idle p" and ?r = "rev (pa_lru p)"
  have m: "e \<in> set (dropWhile ?P ?r)" using e by (simp add: prune_def)
  then have ne: "dropWhile ?P ?r \<noteq> []" by (metis emptyE list.set(1))
  then have hd: "time_Sub now (pe_last (hd (dropWhile ?P ?r))) \<le> pa_idle p" using hd_dropWhile [OF ne] by simp
  have "sorted_wrt (\<lambda>a b. pe_last a \<le> pe_last b) ?r" using s by (simp add: sorted_wrt_rev)
  then have "sorted_wrt (\<lambda>a b. pe_last a \<le> pe_last b) (dropWhile ?P ?r)"
    by (metis sorted_wrt_append takeWhile_dropWhile_id)
  then have "pe_last (hd (dropWhile ?P ?r)) \<le> pe_last e" using ne m
    by (cases "dropWhile ?P ?r") auto
  then have "time_Sub now (pe_last e) \<le> time_Sub now (pe_last (hd (dropWhile ?P ?r)))" by (simp add: time_Sub_def)
  with hd inv show ?thesis by (simp add: pace_inv_def)
qed

text \<open>Charging an entry whose budget is known and putting it in front of the others.\<close>

lemma charged:
  assumes "pace_inv B R now p" and "pace_sizes B R" and "0 \<le> n" and "n < 2 ^ 53"
    and e: "pe_tokens e = Fin t" "0 \<le> t" "t \<le> of_int B" "pe_key e = k" "pe_last e = now" "t \<le> budget B R k now p + 2 powi (-21)"
    and rest: "rest = filter (\<lambda>x. pe_key x \<noteq> k) (pa_lru p)"
    and c: "pace_charge n e = (ok, e')"
  defines "p' \<equiv> p\<lparr>pa_lru := e' # rest\<rparr>"
  shows "pace_inv B R now p' \<and> budget B R k now p' \<le> budget B R k now p - (if ok then of_int n else 0) + 2 powi (-20) \<and>
    (\<forall>k'. k' \<noteq> k \<longrightarrow> budget B R k' now p' = budget B R k' now p)"
proof -
  from charge_upper [OF assms(2) e(2,3) assms(3,4) e(1) c] obtain t' where t': "pe_tokens e' = Fin t'" "0 \<le> t'" "t' \<le> of_int B"
    "t' \<le> t - (if ok then of_int n else 0) + 2 powi (-23)" "pe_key e' = k" "pe_last e' = now" using e by auto
  have inv: "pace_inv B R now p'"
  proof -
    have "distinct (map pe_key rest)" "sorted_wrt (\<lambda>a b. pe_last b \<le> pe_last a) rest"
      using assms(1) by (simp_all add: rest pace_inv_def distinct_map_filter sorted_wrt_filter)
    then show ?thesis using assms(1) t' by (auto simp: p'_def pace_inv_def rest pace_entry_ok_def)
  qed
  have "lookup k p' = Some e'" using t' by (simp add: lookup_def p'_def)
  then have "budget B R k now p' = t'" using t' by (simp add: budget_def tokens_of_def)
  moreover have "(2::rat) powi (-21) + 2 powi (-23) \<le> 2 powi (-20)" by (simp add: power_int_def power_one_over)
  ultimately have "budget B R k now p' \<le> budget B R k now p - (if ok then of_int n else 0) + 2 powi (-20)"
    using t'(4) e(6) by linarith
  moreover have "budget B R k' now p' = budget B R k' now p" if "k' \<noteq> k" for k'
  proof -
    have "find (\<lambda>x. pe_key x = k') (filter (\<lambda>x. pe_key x \<noteq> k) xs) = find (\<lambda>x. pe_key x = k') xs" for xs
      using that by (induction xs) auto
    then have "lookup k' p' = lookup k' p" using that t' by (simp add: lookup_def p'_def rest)
    then show ?thesis by (simp add: budget_def)
  qed
  ultimately show ?thesis using inv by blast
qed

lemma allow_step:
  assumes "pace_inv B R now p" and "pace_sizes B R" and "idle_refills B R" and "0 \<le> n" and "n < 2 ^ 53"
    and room: "lookup (paceKey ip) (prune now p) = None \<longrightarrow> int (length (pa_lru (prune now p))) < pa_max p"
    and a: "pace_allow ip n now p = (ok, p')"
  shows "pace_inv B R now p' \<and>
    budget B R (paceKey ip) now p' \<le> budget B R (paceKey ip) now p - (if ok then of_int n else 0) + 2 powi (-20) \<and>
    (\<forall>k'. k' \<noteq> paceKey ip \<longrightarrow> budget B R k' now p' = budget B R k' now p) \<and>
    pe_key ` set (pa_lru p') \<subseteq> insert (paceKey ip) (pe_key ` set (pa_lru p)) \<and> pa_max p' = pa_max p"
proof -
  let ?k = "paceKey ip" and ?q = "prune now p"
  have q: "pace_inv B R now ?q" by (rule pace_inv_prune) (rule assms(1))
  have mx: "pa_max ?q = pa_max p" by (simp add: prune_def)
  obtain e rest where er: "(case find (\<lambda>e. pe_key e = ?k) (pa_lru ?q) of
       Some e \<Rightarrow> (pace_refilled ?q now e, filter (\<lambda>e. pe_key e \<noteq> ?k) (pa_lru ?q))
     | None \<Rightarrow> (\<lparr>pe_key = ?k, pe_tokens = pa_burst ?q, pe_last = now\<rparr>,
                if int (length (pa_lru ?q)) \<ge> pa_max ?q then butlast (pa_lru ?q) else pa_lru ?q)) = (e, rest)" by fastforce
  have e: "\<exists>t. pe_tokens e = Fin t \<and> 0 \<le> t \<and> t \<le> of_int B \<and> pe_key e = ?k \<and> pe_last e = now \<and>
      t \<le> budget B R ?k now ?q + 2 powi (-21) \<and> rest = filter (\<lambda>x. pe_key x \<noteq> ?k) (pa_lru ?q)"
  proof (cases "lookup ?k ?q")
    case None
    then have "e = \<lparr>pe_key = ?k, pe_tokens = pa_burst ?q, pe_last = now\<rparr>" "rest = pa_lru ?q"
      using er room mx by (auto simp: lookup_def)
    moreover have "filter (\<lambda>x. pe_key x \<noteq> ?k) (pa_lru ?q) = pa_lru ?q"
      using None by (auto simp: lookup_def find_None_iff filter_id_conv)
    ultimately show ?thesis
      using q None assms(2) by (simp add: pace_inv_def budget_def pace_sizes_def)
  next
    case (Some x)
    then have ex: "e = pace_refilled ?q now x" "rest = filter (\<lambda>x. pe_key x \<noteq> ?k) (pa_lru ?q)"
      using er by (auto simp: lookup_def)
    have x: "pace_entry_ok B now x" "pe_key x = ?k" "x \<in> set (pa_lru ?q)" using lookup_ok [OF q Some] by auto
    from refilled_upper [OF q assms(2) x(1) prune_kept_young [OF x(3) assms(1)]] Some x(2) show ?thesis
      unfolding ex by (simp add: budget_def)
  qed
  then obtain t where t: "pe_tokens e = Fin t" "0 \<le> t" "t \<le> of_int B" "pe_key e = ?k" "pe_last e = now"
      "t \<le> budget B R ?k now ?q + 2 powi (-21)" "rest = filter (\<lambda>x. pe_key x \<noteq> ?k) (pa_lru ?q)" by blast
  obtain ok' e' where c: "pace_charge n e = (ok', e')" by fastforce
  have p': "ok' = ok" "p' = ?q\<lparr>pa_lru := e' # rest\<rparr>"
    using a er c unfolding pace_allow_def Let_def by (simp_all add: er)
  have k': "pe_key e' = ?k" using c t(4) by (auto simp: pace_charge_def split: if_splits)
  have "set rest \<subseteq> set (pa_lru p)" using set_prune [of now p] t(7) by auto
  then have keys: "pe_key ` set (pa_lru p') \<subseteq> insert ?k (pe_key ` set (pa_lru p))" using k' by (auto simp: p')
  from charged [OF q assms(2,4,5) t c [unfolded p'(1)]] keys mx show ?thesis
    unfolding p'(2) by (simp add: budget_prune [OF assms(1-3)])
qed

lemmas allow_parts = allow_step [THEN conjunct1] allow_step [THEN conjunct2, THEN conjunct1]
  allow_step [THEN conjunct2, THEN conjunct2, THEN conjunct1, THEN spec, THEN mp]
  allow_step [THEN conjunct2, THEN conjunct2, THEN conjunct2, THEN conjunct1]
  allow_step [THEN conjunct2, THEN conjunct2, THEN conjunct2, THEN conjunct2]

section \<open>Runs\<close>

fun pace_run :: "pacer \<Rightarrow> (bytes \<times> int \<times> gotime) list \<Rightarrow> (bytes \<times> int) list \<times> pacer" where
  "pace_run p [] = ([], p)"
| "pace_run p ((ip, n, now) # cs) =
     (let (ok, p) = pace_allow ip n now p; (sent, p) = pace_run p cs
      in (if ok then (paceKey ip, n) # sent else sent, p))"

definition drawn :: "bytes \<Rightarrow> (bytes \<times> int) list \<Rightarrow> int" where
  "drawn k sent = sum_list (map snd (filter (\<lambda>s. fst s = k) sent))"

lemma drawn_simps [simp]:
  "drawn k [] = 0" "drawn k ((k', n) # sent) = (if k' = k then n else 0) + drawn k sent"
  by (simp_all add: drawn_def)

text \<open>Queries in the order of their times, from \<open>start\<close> to \<open>finish\<close>, of at most as many bytes as a
  reply can have.\<close>

fun in_order :: "gotime \<Rightarrow> gotime \<Rightarrow> (bytes \<times> int \<times> gotime) list \<Rightarrow> bool" where
  "in_order start finish [] \<longleftrightarrow> start \<le> finish"
| "in_order start finish ((ip, n, now) # cs) \<longleftrightarrow> start \<le> now \<and> 0 \<le> n \<and> n < 2 ^ 53 \<and> in_order now finish cs"

definition queries_of :: "bytes \<Rightarrow> (bytes \<times> int \<times> gotime) list \<Rightarrow> nat" where
  "queries_of k cs = length (filter (\<lambda>c. paceKey (fst c) = k) cs)"

lemma room_left:
  assumes "pace_inv B R now p" and "pe_key ` set (pa_lru p) \<subseteq> K" and "finite K" and "int (card K) \<le> pa_max p" and "k \<in> K"
    and "lookup k (prune now p) = None"
  shows "int (length (pa_lru (prune now p))) < pa_max p"
proof -
  have "distinct (map pe_key (pa_lru (prune now p)))" using pace_inv_prune [OF assms(1)] by (simp add: pace_inv_def)
  then have "length (pa_lru (prune now p)) = card (pe_key ` set (pa_lru (prune now p)))"
    by (metis distinct_card length_map set_map)
  also have "\<dots> \<le> card (K - {k})"
    using assms(2,3,6) set_prune [of now p] by (intro card_mono) (auto simp: lookup_def find_None_iff)
  also have "\<dots> < card K" using assms(3,5) by (rule card_Diff1_less)
  finally show ?thesis using assms(4) by simp
qed

lemma run_bound:
  assumes "pace_sizes B R" and "idle_refills B R" and "finite K"
    and "pace_inv B R start p" and "in_order start finish cs" and "pe_key ` set (pa_lru p) \<subseteq> K"
    and "(\<lambda>c. paceKey (fst c)) ` set cs \<subseteq> K" and "int (card K) \<le> pa_max p" and "pace_run p cs = (sent, p')"
  shows "of_int (drawn k sent) \<le> budget B R k start p + of_int R * of_int (finish - start) / 1000000000 +
    of_nat (queries_of k cs) * 2 powi (-20)"
  using assms(4-)
proof (induction cs arbitrary: p start sent)
  case Nil
  have "0 \<le> (of_int R * of_int (finish - start) :: rat)" using Nil.prems(2) assms(1) by (simp add: pace_sizes_def)
  then show ?case using Nil budget_range [OF Nil.prems(1) assms(1), of k] by (simp add: queries_of_def)
next
  case (Cons call cs)
  obtain ip n now where call: "call = (ip, n, now)" by (cases call)
  obtain ok p1 where a: "pace_allow ip n now p = (ok, p1)" by fastforce
  obtain out where r: "pace_run p1 cs = (out, p')" and s: "sent = (if ok then (paceKey ip, n) # out else out)"
    using Cons.prems(6) call a by (auto simp: Let_def split: prod.splits)
  have o: "start \<le> now" "0 \<le> n" "n < 2 ^ 53" "in_order now finish cs" using Cons.prems(2) call by simp_all
  have inv: "pace_inv B R now p" using Cons.prems(1) o(1) by (rule pace_inv_later)
  have kK: "paceKey ip \<in> K" using Cons.prems(4) call by simp
  have "lookup (paceKey ip) (prune now p) = None \<longrightarrow> int (length (pa_lru (prune now p))) < pa_max p"
    using room_left [OF inv Cons.prems(3) assms(3) Cons.prems(5) kK] by blast
  note st = allow_parts [OF inv assms(1,2) o(2,3) this a]
  have ih: "of_int (drawn k out) \<le> budget B R k now p1 + of_int R * of_int (finish - now) / 1000000000 +
      of_nat (queries_of k cs) * 2 powi (-20)"
  proof (rule Cons.IH)
    show "pe_key ` set (pa_lru p1) \<subseteq> K" by (rule order_trans [OF st(4)]) (use Cons.prems(3) kK in simp)
  qed (use st(1,5) Cons.prems(4,5) call o(4) r in auto)
  have later: "budget B R k now p \<le> budget B R k start p + of_int R * of_int (now - start) / 1000000000"
    by (rule budget_later [OF o(1) assms(1)])
  have split: "(of_int R * of_int (finish - start) / 1000000000 :: rat) =
      of_int R * of_int (now - start) / 1000000000 + of_int R * of_int (finish - now) / 1000000000"
    by (simp add: algebra_simps flip: add_divide_distrib)
  show ?case
  proof (cases "paceKey ip = k")
    case True
    then have "of_int (drawn k sent) = (if ok then of_int n else 0) + (of_int (drawn k out) :: rat)"
      and q1: "of_nat (queries_of k (call # cs)) = (1 + of_nat (queries_of k cs) :: rat)" by (simp_all add: s call queries_of_def)
    moreover have "budget B R k now p1 \<le> budget B R k now p - (if ok then of_int n else 0) + 2 powi (-20)" using st(2) True by simp
    moreover have "of_nat (queries_of k (call # cs)) * (2::rat) powi (-20) = 2 powi (-20) + of_nat (queries_of k cs) * 2 powi (-20)"
      by (simp only: q1 distrib_right mult_1)
    ultimately show ?thesis using ih later split by linarith
  next
    case False
    then have "drawn k sent = drawn k out" and q0: "queries_of k (call # cs) = queries_of k cs"
      by (simp_all add: s call queries_of_def)
    then have d0: "(of_int (drawn k sent) :: rat) = of_int (drawn k out)" by simp
    have "budget B R k now p1 = budget B R k now p" using False by (intro st(3)) simp
    then show ?thesis unfolding q0 d0 using ih later split by linarith
  qed
qed

lemma newPacer_inv: "pace_sizes B R \<Longrightarrow> pace_inv B R now (newPacer B R paceIdleAfter mx)"
  by (simp add: pace_inv_def newPacer_def f_of_int_small pace_sizes_def)

text \<open>C31. No source draws more than its budget. Of any interleaving of queries from at most as many
  addresses as the table holds, one address is sent no more than one burst plus the refill for
  the time elapsed, plus a millionth of a byte per query for the rounding of the floating-point
  bucket, however it spreads its queries and whether or not its bucket is dropped for idleness in
  between. With more addresses than that the claim ends: the table drops its least recently used
  bucket, and its source comes back to a fresh burst.\<close>

theorem pacer_bounds_source:
  assumes "pace_sizes B R" and "idle_refills B R" and "in_order start finish cs"
    and "int (card ((\<lambda>c. paceKey (fst c)) ` set cs)) \<le> mx"
    and "pace_run (newPacer B R paceIdleAfter mx) cs = (sent, p')"
  shows "of_int (drawn (paceKey ip) sent) \<le> (of_int B + of_int R * of_int (finish - start) / 1000000000 +
    of_nat (queries_of (paceKey ip) cs) / 2 ^ 20 :: rat)"
proof -
  let ?p = "newPacer B R paceIdleAfter mx" and ?K = "(\<lambda>c. paceKey (fst c)) ` set cs"
  have "pa_lru ?p = []" "pa_max ?p = mx" by (simp_all add: newPacer_def)
  then have "of_int (drawn (paceKey ip) sent) \<le> budget B R (paceKey ip) start ?p +
      of_int R * of_int (finish - start) / 1000000000 + of_nat (queries_of (paceKey ip) cs) * 2 powi (-20)"
    using assms(4,5) by (intro run_bound [OF assms(1,2) _ newPacer_inv [OF assms(1)] assms(3), where K = ?K]) auto
  moreover have "budget B R (paceKey ip) start ?p \<le> of_int B"
    using budget_range [OF newPacer_inv [OF assms(1)] assms(1)] by blast
  ultimately show ?thesis by (simp add: power_int_def power_one_over)
qed

theorem pacer_bounds_source_witness:
  "\<exists>sent p'. pace_run (newPacer paceBurstBytes paceRefillPerSec paceIdleAfter paceMaxSources)
       [([10, 0, 0, 1], 65536, 0), ([10, 0, 0, 2], 100, 500000000), ([10, 0, 0, 1], 65536, 1000000000)] = (sent, p') \<and>
     of_int (drawn (paceKey [10, 0, 0, 1]) sent) \<le> (589825 :: rat)"
proof -
  let ?cs = "[([10, 0, 0, 1], 65536, 0), ([10, 0, 0, 2], 100, 500000000), ([10, 0, 0, 1], 65536, 1000000000)] :: (bytes \<times> int \<times> gotime) list"
  obtain sent p' where r: "pace_run (newPacer paceBurstBytes paceRefillPerSec paceIdleAfter paceMaxSources) ?cs = (sent, p')" by fastforce
  have s: "pace_sizes paceBurstBytes paceRefillPerSec" "idle_refills paceBurstBytes paceRefillPerSec"
    by (simp_all add: pace_sizes_def idle_refills_def paceBurstBytes_def paceRefillPerSec_def)
  have o: "in_order 0 1000000000 ?cs" by simp
  have "card ((\<lambda>c. paceKey (fst c)) ` set ?cs) \<le> card (set ?cs)" by (rule card_image_le) simp
  also have "\<dots> \<le> length ?cs" by (rule card_length)
  finally have m: "int (card ((\<lambda>c. paceKey (fst c)) ` set ?cs)) \<le> paceMaxSources" by (simp add: paceMaxSources_def)
  have q: "queries_of (paceKey [10, 0, 0, 1]) ?cs \<le> 3" by (simp add: queries_of_def)
  have "of_int (drawn (paceKey [10, 0, 0, 1]) sent) \<le> (589824 + of_nat (queries_of (paceKey [10, 0, 0, 1]) ?cs) / 2 ^ 20 :: rat)"
    using pacer_bounds_source [OF s o m r, of "[10, 0, 0, 1]"] by (simp add: paceBurstBytes_def paceRefillPerSec_def)
  moreover have "of_nat (queries_of (paceKey [10, 0, 0, 1]) ?cs) \<le> (3 :: rat)" using q by simp
  ultimately show ?thesis using r by (intro exI [of _ sent] exI [of _ p']) simp
qed

end
