(* ===== verification/Netip.thy ===== *)
theory Netip
  imports Config Strconv
begin

text \<open>
  What the agents use of Go's \<open>strings\<close>, \<open>net\<close> and \<open>net/netip\<close> to read names, addresses and networks.
  A string is a list of characters up to 255; where the code counts bytes, \<open>byte_len\<close> counts those
  of the UTF-8 encoding. An address is its 4 or 16 bytes; \<open>To4\<close> flattens an IPv4-mapped one. The lemmas show
  that the text of an IPv4 network reads back as that network.
\<close>

unbundle bit_operations_syntax

section \<open>Text\<close>

text \<open>\<open>strings.ToLower\<close> on the ASCII letters, \<open>strings.TrimSpace\<close>, and \<open>len\<close>.\<close>

definition ToLower :: "string \<Rightarrow> string" where
  "ToLower s = map ascii_lower s"

definition is_space :: "char \<Rightarrow> bool" where
  "is_space ch = (of_char ch \<in> {9 :: nat, 10, 11, 12, 13, 32, 133, 160})"

definition TrimSpace :: "string \<Rightarrow> string" where
  "TrimSpace s = rev (dropWhile is_space (rev (dropWhile is_space s)))"

definition byte_len :: "string \<Rightarrow> nat" where
  "byte_len s = sum_list (map (\<lambda>ch. if (of_char ch :: nat) < 128 then 1 else 2) s)"

fun split_on :: "char \<Rightarrow> string \<Rightarrow> string list" where
  "split_on sep [] = [[]]"
| "split_on sep (ch # s) =
     (if ch = sep then [] # split_on sep s
      else (case split_on sep s of [] \<Rightarrow> [[ch]] | f # fs \<Rightarrow> (ch # f) # fs))"

definition parse_field :: "string \<Rightarrow> nat option" where
  "parse_field s =
     (if s \<noteq> [] \<and> list_all is_digit s \<and> (length s = 1 \<or> hd s \<noteq> CHR ''0'') \<and> dec_value s \<le> 255
      then Some (dec_value s) else None)"

definition parse_fields :: "string \<Rightarrow> nat list option" where
  "parse_fields s =
     (case map parse_field (split_on (CHR ''.'') s) of
        [Some a, Some b, Some c, Some d] \<Rightarrow> Some [a, b, c, d]
      | _ \<Rightarrow> None)"

section \<open>Addresses\<close>

text \<open>\<open>netip.ParseAddr\<close>: the first of a dot, a colon and a percent sign decides how the text is read. A zone is
  refused by both callers, so an address with one is \<open>None\<close>.\<close>

definition v4InV6Prefix :: bytes where
  "v4InV6Prefix = replicate 10 0 @ [255, 255]"

text \<open>The groups of an IPv6 address: at most \<open>k\<close> more, the bytes so far and where the ellipsis stood.\<close>

fun v6_groups :: "nat \<Rightarrow> bytes \<Rightarrow> nat option \<Rightarrow> string \<Rightarrow> (bytes \<times> nat option \<times> string) option" where
  "v6_groups 0 acc ell s = Some (acc, ell, s)"
| "v6_groups (Suc k) acc ell s =
     (let h = takeWhile (\<lambda>ch. hex_val ch \<noteq> None) s; rest = dropWhile (\<lambda>ch. hex_val ch \<noteq> None) s;
          v = foldl (\<lambda>n ch. 16 * n + the (hex_val ch)) 0 h
      in if h = [] \<or> length h > 4 then None
         else if rest \<noteq> [] \<and> hd rest = CHR ''.'' then
           (if ell = None \<and> length acc \<noteq> 12 then None
            else if length acc + 4 > 16 then None
            else case parse_fields s of None \<Rightarrow> None | Some fs \<Rightarrow> Some (acc @ map of_nat fs, ell, []))
         else let acc = acc @ [of_nat (v div 256), of_nat (v mod 256)] in
           if rest = [] then Some (acc, ell, [])
           else if hd rest \<noteq> CHR '':'' \<or> tl rest = [] then None
           else let s = tl rest in
             if hd s \<noteq> CHR '':'' then v6_groups k acc ell s
             else if ell \<noteq> None then None
             else if tl s = [] then Some (acc, Some (length acc), [])
             else v6_groups k acc (Some (length acc)) (tl s))"

definition parse_IPv6 :: "string \<Rightarrow> bytes option" where
  "parse_IPv6 s =
     (let (ell, s) = (if take 2 s = ''::'' then (Some 0, drop 2 s) else (None, s))
      in if ell = Some 0 \<and> s = [] then Some (replicate 16 0)
         else case v6_groups 8 [] ell s of
                None \<Rightarrow> None
              | Some (bs, ell, rest) \<Rightarrow>
                  if rest \<noteq> [] then None
                  else if length bs < 16 then
                    (case ell of None \<Rightarrow> None | Some i \<Rightarrow> Some (take i bs @ replicate (16 - length bs) 0 @ drop i bs))
                  else if ell \<noteq> None then None else Some bs)"

definition ParseAddr :: "string \<Rightarrow> bytes option" where
  "ParseAddr s =
     (if CHR ''%'' \<in> set s then None
      else case dropWhile (\<lambda>ch. ch \<noteq> CHR ''.'' \<and> ch \<noteq> CHR '':'') s of
             [] \<Rightarrow> None
           | c # _ \<Rightarrow> if c = CHR ''.'' then map_option (map of_nat) (parse_fields s) else parse_IPv6 s)"

text \<open>\<open>net.ParseIP\<close> gives the 16-byte form, \<open>IP.To4\<close> takes an IPv4 address out of it.\<close>

definition ParseIP :: "string \<Rightarrow> bytes option" where
  "ParseIP s = map_option (\<lambda>a. if length a = 4 then v4InV6Prefix @ a else a) (ParseAddr s)"

definition To4 :: "bytes \<Rightarrow> bytes option" where
  "To4 ip = (if length ip = 4 then Some ip
             else if length ip = 16 \<and> take 12 ip = v4InV6Prefix then Some (drop 12 ip) else None)"

definition dotted :: "bytes \<Rightarrow> string" where
  "dotted b = Itoa (uint (b ! 0)) @ ''.'' @ Itoa (uint (b ! 1)) @ ''.'' @ Itoa (uint (b ! 2)) @ ''.'' @ Itoa (uint (b ! 3))"

text \<open>\<open>AddressLiteral\<close> of \<open>sysx/nft.go\<close>.\<close>

definition AddressLiteral :: "string \<Rightarrow> string" where
  "AddressLiteral addr =
     (case ParseIP (TrimSpace addr) of None \<Rightarrow> ''''
      | Some ip \<Rightarrow> (case To4 ip of None \<Rightarrow> '''' | Some b \<Rightarrow> dotted b))"

section \<open>Networks\<close>

text \<open>\<open>net.CIDRMask\<close>, \<open>IP.Mask\<close>, and the prefix length after the slash of a network.\<close>

definition CIDRMask :: "nat \<Rightarrow> nat \<Rightarrow> bytes" where
  "CIDRMask ones bits = map (\<lambda>i. let n = ones - 8 * i in if n \<ge> 8 then 255 else NOT (drop_bit n 255)) [0..<bits div 8]"

definition mask_bytes :: "bytes \<Rightarrow> bytes \<Rightarrow> bytes" where
  "mask_bytes ip m = map2 (\<lambda>a b. a AND b) ip m"

definition prefix_len :: "string \<Rightarrow> nat \<Rightarrow> nat option" where
  "prefix_len s bits = (if s \<noteq> [] \<and> list_all is_digit s \<and> dec_value s \<le> bits then Some (dec_value s) else None)"

text \<open>\<open>net.ParseCIDR\<close>: the masked address and the mask.\<close>

definition ParseCIDR :: "string \<Rightarrow> (bytes \<times> bytes) option" where
  "ParseCIDR s =
     (let addr = takeWhile (\<lambda>ch. ch \<noteq> CHR ''/'') s; rest = dropWhile (\<lambda>ch. ch \<noteq> CHR ''/'') s
      in if rest = [] then None
         else case ParseAddr addr of None \<Rightarrow> None
         | Some a \<Rightarrow>
             (case prefix_len (tl rest) (8 * length a) of None \<Rightarrow> None
              | Some n \<Rightarrow> Some (mask_bytes a (CIDRMask n (8 * length a)), CIDRMask n (8 * length a))))"

text \<open>\<open>IPNet.Contains\<close>: both sides are flattened to four bytes where they are IPv4-mapped.\<close>

definition Contains :: "bytes \<times> bytes \<Rightarrow> bytes \<Rightarrow> bool" where
  "Contains net ip =
     (let (nip, m) = net;
          (nn, m) = (case To4 nip of None \<Rightarrow> (nip, m)
                     | Some b \<Rightarrow> (b, if length m = 16 then drop 12 m else m));
          ip = (case To4 ip of None \<Rightarrow> ip | Some b \<Rightarrow> b)
      in length ip = length nn \<and> mask_bytes nn m = mask_bytes ip m)"

text \<open>The same for a network of the IPv4 family alone, in words: the masked address and its prefix length. The
  text of an IPv6 network is \<open>None\<close> here.\<close>

definition parse_IPv4 :: "string \<Rightarrow> 32 word option" where
  "parse_IPv4 s =
     (case map parse_field (split_on (CHR ''.'') s) of
        [Some a, Some b, Some c, Some d] \<Rightarrow> Some (of_nat (((a * 256 + b) * 256 + c) * 256 + d))
      | _ \<Rightarrow> None)"

definition prefix_mask :: "nat \<Rightarrow> 32 word" where
  "prefix_mask ones = NOT (drop_bit ones (- 1))"

definition ParseCIDR4 :: "string \<Rightarrow> (32 word \<times> nat) option" where
  "ParseCIDR4 s =
     (let addr = takeWhile (\<lambda>ch. ch \<noteq> CHR ''/'') s; rest = dropWhile (\<lambda>ch. ch \<noteq> CHR ''/'') s
      in case parse_IPv4 addr of None \<Rightarrow> None
       | Some ip \<Rightarrow>
           if rest \<noteq> [] \<and> tl rest \<noteq> [] \<and> list_all is_digit (tl rest) \<and> dec_value (tl rest) \<le> 32
           then Some (ip AND prefix_mask (dec_value (tl rest)), dec_value (tl rest)) else None)"

definition byte_of :: "nat \<Rightarrow> 32 word \<Rightarrow> int" where
  "byte_of k w = uint (drop_bit (8 * k) w AND 255)"

definition net_String :: "32 word \<Rightarrow> nat \<Rightarrow> string" where
  "net_String ip ones =
     Itoa (byte_of 3 ip) @ ''.'' @ Itoa (byte_of 2 ip) @ ''.'' @ Itoa (byte_of 1 ip) @ ''.'' @ Itoa (byte_of 0 ip) @ ''/'' @
     Itoa (int ones)"


section \<open>Networks as text\<close>

lemma ones_mask: "drop_bit n (- 1 :: 32 word) = mask (32 - n)"
  by (rule bit_word_eqI) (auto simp: bit_simps)

lemma network_start: "take_bit (32 - n) (ip AND prefix_mask n) = 0"
  by (rule bit_word_eqI) (auto simp: prefix_mask_def ones_mask bit_simps)

lemma split_on_none: "sep \<notin> set xs \<Longrightarrow> split_on sep xs = [xs]"
  by (induction xs) auto

lemma split_on_sep: "sep \<notin> set xs \<Longrightarrow> split_on sep (xs @ sep # ys) = xs # split_on sep ys"
  by (induction xs) auto

lemma digit_not: "is_digit c \<Longrightarrow> c \<noteq> CHR ''.'' \<and> c \<noteq> CHR ''/'' \<and> \<not> is_space c"
  by (auto simp: is_digit_def is_space_def)

lemma dec_digits_chars: "c \<in> set (dec_digits n) \<Longrightarrow> is_digit c"
  using dec_digits_digit [of n] by (auto simp: list_all_iff)

lemma no_seps [simp]: "CHR ''.'' \<notin> set (dec_digits n)" "CHR ''/'' \<notin> set (dec_digits n)"
  using dec_digits_chars digit_not by blast+

lemma dec_digits_no_zero: "0 < n \<Longrightarrow> hd (dec_digits n) \<noteq> CHR ''0''"
proof (induction n rule: dec_digits.induct)
  case (1 n)
  show ?case
  proof (cases "n < 10")
    case True
    then have "(of_char (digit_char n) :: nat) = 48 + n" by simp
    then have "digit_char n \<noteq> CHR ''0''" using 1(2) by force
    then show ?thesis using True by (subst dec_digits.simps) simp
  next
    case False
    then show ?thesis using 1 by (subst dec_digits.simps) simp
  qed
qed

lemma dec_digits_one: "n < 10 \<Longrightarrow> length (dec_digits n) = 1"
  by (subst dec_digits.simps) simp

lemma parse_field_digits: "n \<le> 255 \<Longrightarrow> parse_field (dec_digits n) = Some n"
  using dec_digits_no_zero [of n] dec_digits_one [of n]
  by (cases "n = 0") (simp_all add: parse_field_def dec_digits_digit)

definition nat_byte :: "nat \<Rightarrow> 32 word \<Rightarrow> nat" where
  "nat_byte k w = unat w div 256 ^ k mod 256"

lemma byte_of_nat:
  assumes "k \<le> 3"
  shows "byte_of k w = int (nat_byte k w)"
proof -
  have "(255 :: 32 word) = mask 8" by (simp add: mask_eq_exp_minus_1)
  then have "drop_bit (8 * k) w AND 255 = take_bit 8 (drop_bit (8 * k) w)" by (simp add: take_bit_eq_mask)
  then have "uint (drop_bit (8 * k) w AND 255) = take_bit 8 (drop_bit (8 * k) (uint w))"
    using assms by (auto simp: unsigned_take_bit_eq unsigned_drop_bit_eq drop_bit_take_bit min_def)
  then show ?thesis
    by (simp add: byte_of_def nat_byte_def take_bit_eq_mod drop_bit_eq_div zmod_int zdiv_int power_mult)
qed

lemma nat_byte_le [simp]: "nat_byte k w \<le> 255"
  using mod_less_divisor [of 256 "unat w div 256 ^ k"] by (simp add: nat_byte_def)

lemma bytes_recompose:
  fixes w :: "32 word"
  shows "of_nat (((nat_byte 3 w * 256 + nat_byte 2 w) * 256 + nat_byte 1 w) * 256 + nat_byte 0 w) = w"
proof -
  define u where "u = unat w"
  define a b c where "a = u div 256" and "b = a div 256" and "c = b div 256"
  have "u < 2 ^ 32" using unsigned_less [of w, where ?'a = nat] by (simp add: u_def)
  then have "c < 256" unfolding c_def b_def a_def by (simp add: div_mult2_eq [symmetric] less_mult_imp_div_less)
  then have bytes: "nat_byte 3 w = c" "nat_byte 2 w = b mod 256" "nat_byte 1 w = a mod 256" "nat_byte 0 w = u mod 256"
    by (simp_all add: nat_byte_def u_def a_def b_def c_def div_mult2_eq [symmetric])
  have "c * 256 + b mod 256 = b" "b * 256 + a mod 256 = a" "a * 256 + u mod 256 = u"
    by (simp_all add: a_def b_def c_def)
  then have "((c * 256 + b mod 256) * 256 + a mod 256) * 256 + u mod 256 = u" by simp
  then have "((nat_byte 3 w * 256 + nat_byte 2 w) * 256 + nat_byte 1 w) * 256 + nat_byte 0 w = unat w"
    unfolding bytes u_def [symmetric] .
  then show ?thesis by (simp del: of_nat_add of_nat_mult)
qed

lemma net_String_digits:
  "net_String ip n = dec_digits (nat_byte 3 ip) @ CHR ''.'' # dec_digits (nat_byte 2 ip) @ CHR ''.'' # dec_digits (nat_byte 1 ip)
     @ CHR ''.'' # dec_digits (nat_byte 0 ip) @ CHR ''/'' # dec_digits n"
  by (simp add: net_String_def byte_of_nat Itoa_def)

lemma TrimSpace_id:
  assumes "s \<noteq> []" and "\<not> is_space (hd s)" and "\<not> is_space (last s)"
  shows "TrimSpace s = s"
proof -
  have "dropWhile is_space s = s" using assms(1,2) by (cases s) auto
  moreover have "dropWhile is_space (rev s) = rev s"
    using assms(1,3) by (cases s rule: rev_cases) auto
  ultimately show ?thesis by (simp add: TrimSpace_def)
qed

lemma TrimSpace_net: "TrimSpace (net_String ip n) = net_String ip n"
proof (rule TrimSpace_id)
  have dig: "\<not> is_space (hd (dec_digits k))" "\<not> is_space (last (dec_digits k))" for k
    using dec_digits_chars [OF hd_in_set [OF dec_digits_nonempty]] dec_digits_chars [OF last_in_set [OF dec_digits_nonempty]]
      digit_not by blast+
  show "net_String ip n \<noteq> []" "\<not> is_space (hd (net_String ip n))" "\<not> is_space (last (net_String ip n))"
    using dig by (simp_all add: net_String_digits)
qed

lemma parse_net_String:
  assumes "ip AND prefix_mask n = ip" and "n \<le> 32"
  shows "ParseCIDR4 (net_String ip n) = Some (ip, n)"
proof -
  define addr where "addr = dec_digits (nat_byte 3 ip) @ CHR ''.'' # dec_digits (nat_byte 2 ip) @ CHR ''.'' #
    dec_digits (nat_byte 1 ip) @ CHR ''.'' # dec_digits (nat_byte 0 ip)"
  have s: "net_String ip n = addr @ CHR ''/'' # dec_digits n" by (simp add: net_String_digits addr_def)
  have no: "\<And>c. c \<in> set addr \<Longrightarrow> c \<noteq> CHR ''/''" unfolding addr_def by auto
  have tk: "takeWhile (\<lambda>ch. ch \<noteq> CHR ''/'') (net_String ip n) = addr"
    "dropWhile (\<lambda>ch. ch \<noteq> CHR ''/'') (net_String ip n) = CHR ''/'' # dec_digits n"
    unfolding s using no by (simp_all add: takeWhile_append dropWhile_append)
  have "split_on (CHR ''.'') addr = [dec_digits (nat_byte 3 ip), dec_digits (nat_byte 2 ip), dec_digits (nat_byte 1 ip), dec_digits (nat_byte 0 ip)]"
    by (simp add: addr_def split_on_sep split_on_none)
  then have "parse_IPv4 addr = Some (of_nat (((nat_byte 3 ip * 256 + nat_byte 2 ip) * 256 + nat_byte 1 ip) * 256 + nat_byte 0 ip))"
    unfolding parse_IPv4_def by (simp add: parse_field_digits del: of_nat_add of_nat_mult)
  then have ip: "parse_IPv4 addr = Some ip" unfolding bytes_recompose .
  show ?thesis using assms unfolding ParseCIDR4_def Let_def tk ip by (simp add: dec_digits_digit)
qed


lemma TrimSpace_idem: "TrimSpace (TrimSpace s) = TrimSpace s"
proof -
  define t where "t = dropWhile is_space s"
  have t0: "t = [] \<or> \<not> is_space (hd t)" unfolding t_def by (metis hd_dropWhile)
  define r where "r = dropWhile is_space (rev t)"
  have eq: "TrimSpace s = rev r" by (simp add: TrimSpace_def r_def t_def)
  show ?thesis
  proof (cases "r = []")
    case True
    have "TrimSpace [] = []" by (simp add: TrimSpace_def)
    then show ?thesis unfolding eq True by simp
  next
    case False
    have "\<not> is_space (hd r)" using False unfolding r_def by (metis hd_dropWhile)
    moreover have "hd (rev r) = hd t"
    proof -
      obtain us where us: "rev t = us @ r" unfolding r_def by (metis takeWhile_dropWhile_id)
      then have "t = rev r @ rev us" by (metis rev_append rev_rev_ident)
      then show ?thesis using False by simp
    qed
    moreover have "t \<noteq> []" using False unfolding r_def by auto
    ultimately show ?thesis unfolding eq using False t0 by (intro TrimSpace_id) (auto simp: last_rev)
  qed
qed

lemma is_space_lower: "is_space (ascii_lower ch) = is_space ch"
proof (cases "65 \<le> (of_char ch :: nat) \<and> (of_char ch :: nat) \<le> 90")
  case True
  then have "(of_char (ascii_lower ch) :: nat) = of_char ch + 32" by (simp add: ascii_lower_def)
  then show ?thesis using True by (auto simp: is_space_def)
next
  case False
  then have "ascii_lower ch = ch" unfolding ascii_lower_def by (simp only: if_False)
  then show ?thesis by simp
qed

lemma ascii_lower_idem: "ascii_lower (ascii_lower ch) = ascii_lower ch"
proof (cases "65 \<le> (of_char ch :: nat) \<and> (of_char ch :: nat) \<le> 90")
  case True
  then have "(of_char (ascii_lower ch) :: nat) = of_char ch + 32" by (simp add: ascii_lower_def)
  then show ?thesis using True by (simp add: ascii_lower_def [of "ascii_lower ch"])
next
  case False
  then have "ascii_lower ch = ch" unfolding ascii_lower_def by (simp only: if_False)
  then show ?thesis by simp
qed

lemma dropWhile_space_lower: "dropWhile is_space (map ascii_lower s) = map ascii_lower (dropWhile is_space s)"
  by (simp add: dropWhile_map comp_def is_space_lower)

lemma lower_trim_idem: "ToLower (TrimSpace (ToLower (TrimSpace s))) = ToLower (TrimSpace s)"
proof -
  have "TrimSpace (ToLower t) = ToLower (TrimSpace t)" for t
    by (simp add: TrimSpace_def ToLower_def dropWhile_space_lower rev_map)
  then show ?thesis by (simp add: TrimSpace_idem) (simp add: ToLower_def comp_def ascii_lower_idem)
qed

lemma dotted_digits:
  "dotted b = dec_digits (unat (b ! 0)) @ CHR ''.'' # dec_digits (unat (b ! 1)) @ CHR ''.'' # dec_digits (unat (b ! 2)) @ CHR ''.'' #
     dec_digits (unat (b ! 3))"
  by (simp add: dotted_def Itoa_def)

lemma byte_le: "unat (w :: 8 word) \<le> 255"
  using unsigned_less [of w, where ?'a = nat] by simp

lemma ParseAddr_dotted:
  assumes "length b = 4"
  shows "ParseAddr (dotted b) = Some b"
proof -
  have pct: "CHR ''%'' \<notin> set (dec_digits n)" for n
    using dec_digits_chars [of "CHR ''%''" n] by (auto simp: is_digit_def)
  have nd: "ch \<noteq> CHR ''.'' \<and> ch \<noteq> CHR '':''" if "ch \<in> set (dec_digits n)" for ch n
    using dec_digits_chars [OF that] by (auto simp: is_digit_def)
  have dw: "dropWhile (\<lambda>ch. ch \<noteq> CHR ''.'' \<and> ch \<noteq> CHR '':'') (dotted b) =
      CHR ''.'' # dec_digits (unat (b ! 1)) @ CHR ''.'' # dec_digits (unat (b ! 2)) @ CHR ''.'' # dec_digits (unat (b ! 3))"
    unfolding dotted_digits using nd by (simp add: dropWhile_append)
  have "split_on (CHR ''.'') (dotted b) =
      [dec_digits (unat (b ! 0)), dec_digits (unat (b ! 1)), dec_digits (unat (b ! 2)), dec_digits (unat (b ! 3))]"
    unfolding dotted_digits by (simp add: split_on_sep split_on_none)
  then have pf: "parse_fields (dotted b) = Some [unat (b ! 0), unat (b ! 1), unat (b ! 2), unat (b ! 3)]"
    by (simp add: parse_fields_def parse_field_digits byte_le)
  have "CHR ''%'' \<notin> set (dotted b)" unfolding dotted_digits using pct by simp
  moreover have "b = [b ! 0, b ! 1, b ! 2, b ! 3]"
    using assms by (auto simp: list_eq_iff_nth_eq less_Suc_eq numeral_eq_Suc)
  ultimately show ?thesis unfolding ParseAddr_def dw by (simp add: pf)
qed

lemma AddressLiteral_dotted:
  assumes l: "length b = 4"
  shows "AddressLiteral (dotted b) = dotted b"
proof -
  have nsp: "\<not> is_space (hd (dec_digits k))" "\<not> is_space (last (dec_digits k))" for k
    using dec_digits_chars [OF hd_in_set [OF dec_digits_nonempty]] dec_digits_chars [OF last_in_set [OF dec_digits_nonempty]]
      digit_not by blast+
  have "TrimSpace (dotted b) = dotted b"
    by (rule TrimSpace_id) (simp_all add: dotted_digits nsp)
  moreover have "To4 (v4InV6Prefix @ b) = Some b" using l by (simp add: To4_def v4InV6Prefix_def)
  ultimately show ?thesis by (simp add: AddressLiteral_def ParseIP_def ParseAddr_dotted [OF l] l)
qed

lemma AddressLiteral_idem:
  assumes "AddressLiteral a \<noteq> []"
  shows "AddressLiteral (AddressLiteral a) = AddressLiteral a"
proof -
  obtain ip b where b: "To4 ip = Some b" and v: "AddressLiteral a = dotted b"
    using assms by (auto simp: AddressLiteral_def split: option.splits)
  have "length b = 4" using b by (auto simp: To4_def split: if_splits)
  then show ?thesis unfolding v by (rule AddressLiteral_dotted)
qed

end
