(* ===== verification/Protect.thy ===== *)
theory Protect
  imports Config Netip "HOL-Library.Product_Lexorder"
begin

text \<open>
  The edge filter of the frontend (\<open>sysx/protect.go\<close>): how a configuration is reduced to the sets and
  ports the nftables table is written from. nftables refuses a whole table over one overlapping or
  repeated element, so what is proved here is that the ports, networks and set names handed to it
  never overlap, and that they cover exactly what was configured.
\<close>

unbundle bit_operations_syntax

section \<open>The specification of the filter\<close>

record GeoRegion =
  gr_Name :: string
  gr_CIDRs :: "string list"
  gr_Countries :: "string list"

record ProtectConfig =
  pc_Enabled :: bool
  pc_NewConnsPerSec :: int
  pc_MaxConnsPerSource :: int
  pc_PacketsPerSec :: int
  pc_QueriesPerSec :: int
  pc_BlockSeconds :: int
  pc_DropInvalid :: bool
  pc_DropBogusTCP :: bool
  pc_DropSpoofed :: bool
  pc_DropLegacyQueries :: bool
  pc_GeoLockSeconds :: int
  pc_Regions :: "GeoRegion list"

record ProtectService =
  ps_Name :: string
  ps_Proto :: string
  ps_Port :: int
  ps_PortEnd :: int
  ps_SourceEngine :: bool
  ps_CeilingPPS :: int
  ps_GeoRegions :: "string list"
  ps_GeoBlock :: bool
  ps_GeoAutoPPS :: int
  ps_NewConnsPerSec :: int
  ps_MaxConnsPerSource :: int

record ProtectSpec =
  sp_PublicIface :: string
  sp_NewConnsPerSec :: int
  sp_MaxConnsPerSource :: int
  sp_PacketsPerSec :: int
  sp_QueriesPerSec :: int
  sp_BlockSeconds :: int
  sp_DropInvalid :: bool
  sp_DropBogusTCP :: bool
  sp_DropSpoofed :: bool
  sp_DropLegacyQueries :: bool
  sp_GeoLockSeconds :: int
  sp_Regions :: "GeoRegion list"
  sp_Services :: "ProtectService list"

definition empty_spec :: ProtectSpec where
  "empty_spec = \<lparr>sp_PublicIface = '''', sp_NewConnsPerSec = 0, sp_MaxConnsPerSource = 0, sp_PacketsPerSec = 0,
     sp_QueriesPerSec = 0, sp_BlockSeconds = 0, sp_DropInvalid = False, sp_DropBogusTCP = False, sp_DropSpoofed = False,
     sp_DropLegacyQueries = False, sp_GeoLockSeconds = 0, sp_Regions = [], sp_Services = []\<rparr>"

definition protect_service :: "Service \<Rightarrow> ProtectService" where
  "protect_service s = \<lparr>ps_Name = sv_Name s, ps_Proto = ToLower (sv_Proto s), ps_Port = sv_Port s, ps_PortEnd = sv_PortEnd s,
     ps_SourceEngine = sv_SourceEngine s, ps_CeilingPPS = sv_CeilingPPS s, ps_GeoRegions = sv_GeoRegions s,
     ps_GeoBlock = sv_GeoBlock s, ps_GeoAutoPPS = sv_GeoAutoPPS s, ps_NewConnsPerSec = sv_NewConnsPerSec s,
     ps_MaxConnsPerSource = sv_MaxConnsPerSource s\<rparr>"

text \<open>The configuration's \<open>Protect\<close> section is the first argument.\<close>

definition ProtectSpecFrom :: "ProtectConfig \<Rightarrow> Config \<Rightarrow> ProtectSpec" where
  "ProtectSpecFrom p cfg =
     (if \<not> pc_Enabled p then empty_spec
      else \<lparr>sp_PublicIface = fe_PublicIface (c_Frontend cfg), sp_NewConnsPerSec = pc_NewConnsPerSec p,
            sp_MaxConnsPerSource = pc_MaxConnsPerSource p, sp_PacketsPerSec = pc_PacketsPerSec p,
            sp_QueriesPerSec = pc_QueriesPerSec p, sp_BlockSeconds = pc_BlockSeconds p,
            sp_DropInvalid = pc_DropInvalid p, sp_DropBogusTCP = pc_DropBogusTCP p, sp_DropSpoofed = pc_DropSpoofed p,
            sp_DropLegacyQueries = pc_DropLegacyQueries p, sp_GeoLockSeconds = pc_GeoLockSeconds p, sp_Regions = pc_Regions p,
            sp_Services = map protect_service (filter (\<lambda>s. sv_Enabled s \<and> ToLower (sv_Proto s) \<in> {''tcp'', ''udp''})
              (c_Services cfg))\<rparr>)"

definition DefaultGeoLockSeconds :: int where "DefaultGeoLockSeconds = 60"

definition geoLockSeconds :: "ProtectSpec \<Rightarrow> int" where
  "geoLockSeconds s = (if sp_GeoLockSeconds s > 0 then sp_GeoLockSeconds s else DefaultGeoLockSeconds)"

section \<open>Ports\<close>

record portRange =
  rg_lo :: int
  rg_hi :: int

definition portSpec :: "int \<Rightarrow> int \<Rightarrow> string" where
  "portSpec port port_end = (if port_end > port then Itoa port @ ''-'' @ Itoa port_end else Itoa port)"

text \<open>The source computes the port after a range's last in an \<open>int\<close>, which wraps for a range that ends at the largest one;
  a port that passed the validation is at most 65535, and the model does not wrap.\<close>

fun merge_loop :: "portRange \<Rightarrow> portRange list \<Rightarrow> portRange list" where
  "merge_loop cur [] = [cur]"
| "merge_loop cur (r # rs) =
     (if rg_lo r \<le> rg_hi cur + 1
      then merge_loop (if rg_hi r > rg_hi cur then cur\<lparr>rg_hi := rg_hi r\<rparr> else cur) rs
      else cur # merge_loop r rs)"

definition merge_ranges :: "portRange list \<Rightarrow> portRange list" where
  "merge_ranges rs =
     (case sort_key (\<lambda>r. (rg_lo r, rg_hi r)) rs of [] \<Rightarrow> [] | r # rest \<Rightarrow> merge_loop r rest)"

definition mergePorts :: "portRange list \<Rightarrow> string list" where
  "mergePorts rs = map (\<lambda>r. portSpec (rg_lo r) (rg_hi r)) (merge_ranges rs)"

text \<open>\<open>strings.Join\<close>.\<close>

fun join_with :: "string \<Rightarrow> string list \<Rightarrow> string" where
  "join_with sep [] = []"
| "join_with sep [x] = x"
| "join_with sep (x # y # xs) = x @ sep @ join_with sep (y # xs)"

definition portSet :: "string list \<Rightarrow> string" where
  "portSet ports = (if length ports = 1 then hd ports else ''{ '' @ join_with '', '' ports @ '' }'')"

definition cut_segment :: "portRange \<Rightarrow> portRange \<Rightarrow> portRange list" where
  "cut_segment c s =
     (if rg_hi c < rg_lo s \<or> rg_lo c > rg_hi s then [s]
      else (if rg_lo c > rg_lo s then [\<lparr>rg_lo = rg_lo s, rg_hi = rg_lo c - 1\<rparr>] else []) @
           (if rg_hi c < rg_hi s then [\<lparr>rg_lo = rg_hi c + 1, rg_hi = rg_hi s\<rparr>] else []))"

definition subtractRanges :: "portRange list \<Rightarrow> portRange list \<Rightarrow> portRange list" where
  "subtractRanges base cuts = concat (map (\<lambda>b. foldl (\<lambda>segs c. concat (map (cut_segment c) segs)) [b] cuts) base)"

definition service_range :: "ProtectService \<Rightarrow> portRange" where
  "service_range sv = \<lparr>rg_lo = ps_Port sv, rg_hi = max (ps_Port sv) (ps_PortEnd sv)\<rparr>"

definition spec_ports :: "ProtectSpec \<Rightarrow> string \<Rightarrow> string list" where
  "spec_ports s proto = mergePorts (map service_range (filter (\<lambda>sv. EqualFold (ps_Proto sv) proto) (sp_Services s)))"

definition overridesConnRate :: "ProtectService \<Rightarrow> bool" where
  "overridesConnRate sv \<longleftrightarrow> EqualFold (ps_Proto sv) ''tcp'' \<and> ps_NewConnsPerSec sv > 0"

definition overridesConnCount :: "ProtectService \<Rightarrow> bool" where
  "overridesConnCount sv \<longleftrightarrow> EqualFold (ps_Proto sv) ''tcp'' \<and> ps_MaxConnsPerSource sv > 0"

definition shared_ranges :: "ProtectSpec \<Rightarrow> (ProtectService \<Rightarrow> bool) \<Rightarrow> portRange list" where
  "shared_ranges s overridden =
     (let tcp = filter (\<lambda>sv. EqualFold (ps_Proto sv) ''tcp'') (sp_Services s)
      in subtractRanges (map service_range (filter (\<lambda>sv. \<not> overridden sv) tcp)) (map service_range (filter overridden tcp)))"

definition sharedConnPorts :: "ProtectSpec \<Rightarrow> (ProtectService \<Rightarrow> bool) \<Rightarrow> string list" where
  "sharedConnPorts s overridden = mergePorts (shared_ranges s overridden)"

definition sourceEnginePorts :: "ProtectSpec \<Rightarrow> string list" where
  "sourceEnginePorts s =
     mergePorts (map service_range (filter (\<lambda>sv. ps_SourceEngine sv \<and> EqualFold (ps_Proto sv) ''udp'') (sp_Services s)))"

section \<open>Set names\<close>

definition foldSetName :: "string \<Rightarrow> string \<Rightarrow> string" where
  "foldSetName prefix name =
     prefix @ map (\<lambda>c. if (97 \<le> (of_char c :: nat) \<and> (of_char c :: nat) \<le> 122) \<or> (48 \<le> (of_char c :: nat) \<and> (of_char c :: nat) \<le> 57) then c else CHR ''_'')
       (ToLower name)"

definition foldGeoName :: "string \<Rightarrow> string" where "foldGeoName name = foldSetName ''geo_'' name"

definition geoLockSetName :: "string \<Rightarrow> string" where "geoLockSetName proto = ''geo_lockdown_'' @ ToLower proto"

definition geoNameFoldsToLockSet :: "string \<Rightarrow> bool" where
  "geoNameFoldsToLockSet folded \<longleftrightarrow> folded = geoLockSetName ''tcp'' \<or> folded = geoLockSetName ''udp''"

definition GeoSetName :: "string \<Rightarrow> string" where
  "GeoSetName name = (let folded = foldGeoName name in if geoNameFoldsToLockSet folded then folded @ ''_'' else folded)"

definition GeoNameReserved :: "string \<Rightarrow> bool" where
  "GeoNameReserved name = geoNameFoldsToLockSet (foldGeoName name)"

section \<open>Names claimed once\<close>

text \<open>\<open>uniqueName\<close>: the search from suffix 2 ends because the names held are finitely many.\<close>

definition suffixed :: "string \<Rightarrow> nat \<Rightarrow> string" where
  "suffixed base n = base @ ''_'' @ Itoa (int n)"

lemma suffixed_inj: "suffixed base n = suffixed base k \<longleftrightarrow> n = k"
  by (simp add: suffixed_def Itoa_inj)

lemma finite_suffixed: "finite {k. n \<le> k \<and> suffixed base k \<in> set taken}"
proof -
  have "inj_on (suffixed base) {k. suffixed base k \<in> set taken}" by (simp add: inj_on_def suffixed_inj)
  moreover have "finite (suffixed base ` {k. suffixed base k \<in> set taken})"
    by (rule finite_subset [of _ "set taken"]) auto
  ultimately have "finite {k. suffixed base k \<in> set taken}" by (rule finite_imageD [rotated])
  then show ?thesis by (rule rev_finite_subset) auto
qed

function uniqueName_from :: "string list \<Rightarrow> string \<Rightarrow> nat \<Rightarrow> string" where
  "uniqueName_from taken base n =
     (if suffixed base n \<in> set taken then uniqueName_from taken base (n + 1) else suffixed base n)"
  by pat_completeness auto
termination
proof (relation "measure (\<lambda>(taken, base, n). card {k. n \<le> k \<and> suffixed base k \<in> set taken})", goal_cases)
  case 1
  show ?case by simp
next
  case (2 taken base n)
  have "n \<in> {k. n \<le> k \<and> suffixed base k \<in> set taken}" "n \<notin> {k. n + 1 \<le> k \<and> suffixed base k \<in> set taken}"
    using 2 by auto
  moreover have "{k. n + 1 \<le> k \<and> suffixed base k \<in> set taken} \<subseteq> {k. n \<le> k \<and> suffixed base k \<in> set taken}"
    by auto
  ultimately have "{k. n + 1 \<le> k \<and> suffixed base k \<in> set taken} \<subset> {k. n \<le> k \<and> suffixed base k \<in> set taken}"
    by blast
  then show ?case using finite_suffixed by (simp add: psubset_card_mono)
qed

declare uniqueName_from.simps [simp del]

definition uniqueName :: "string list \<Rightarrow> string \<Rightarrow> string \<times> string list" where
  "uniqueName taken base =
     (let name = (if base \<in> set taken then uniqueName_from taken base 2 else base) in (name, name # taken))"

record connOverride =
  co_svc :: ProtectService
  co_rateSet :: string
  co_countSet :: string

definition conn_override :: "string list \<Rightarrow> ProtectService \<Rightarrow> connOverride \<times> string list" where
  "conn_override taken sv =
     (let (rate, taken1) = (if overridesConnRate sv then uniqueName taken (foldSetName ''conn_rate_'' (ps_Name sv))
                            else ('''', taken));
          (count, taken2) = (if overridesConnCount sv then uniqueName taken1 (foldSetName ''conn_count_'' (ps_Name sv))
                             else ('''', taken1))
      in (\<lparr>co_svc = sv, co_rateSet = rate, co_countSet = count\<rparr>, taken2))"

fun connOverrides_loop :: "string list \<Rightarrow> ProtectService list \<Rightarrow> connOverride list" where
  "connOverrides_loop taken [] = []"
| "connOverrides_loop taken (sv # svs) =
     (if \<not> overridesConnRate sv \<and> \<not> overridesConnCount sv then connOverrides_loop taken svs
      else (let (ov, taken') = conn_override taken sv in ov # connOverrides_loop taken' svs))"

definition connOverrides :: "ProtectSpec \<Rightarrow> connOverride list" where
  "connOverrides s = connOverrides_loop [] (sp_Services s)"

text \<open>The park chains: \<open>target\<close> registers one for a limiter's comment and hands back its name.\<close>

record parkChain =
  pk_name :: string
  pk_comment :: string

record parkChains =
  pks_chains :: "parkChain list"
  pks_used :: "string list"

definition park_target :: "string \<Rightarrow> parkChains \<Rightarrow> string \<times> parkChains" where
  "park_target comment p =
     (let (name, used) = uniqueName (pks_used p) (foldSetName ''park_'' comment)
      in (name, \<lparr>pks_chains = pks_chains p @ [\<lparr>pk_name = name, pk_comment = comment\<rparr>], pks_used = used\<rparr>))"

section \<open>Networks\<close>

text \<open>The blocks of \<open>mergeCIDRs\<close>: only networks of the IPv4 family make one.\<close>

record block =
  bl_start :: "32 word"
  bl_end :: "32 word"
  bl_text :: string

definition parse_block :: "string \<Rightarrow> block option" where
  "parse_block c =
     map_option (\<lambda>(ip, ones). \<lparr>bl_start = ip, bl_end = ip OR drop_bit ones (- 1), bl_text = net_String ip ones\<rparr>)
       (ParseCIDR4 (TrimSpace c))"

fun keep_blocks :: "int \<Rightarrow> block list \<Rightarrow> block list" where
  "keep_blocks lastEnd [] = []"
| "keep_blocks lastEnd (bl # bls) =
     (if uint (bl_end bl) \<le> lastEnd then keep_blocks lastEnd bls else bl # keep_blocks (uint (bl_end bl)) bls)"

definition mergeCIDRs_blocks :: "string list \<Rightarrow> block list" where
  "mergeCIDRs_blocks cidrs =
     keep_blocks (- 1) (sort_key (\<lambda>bl. (uint (bl_start bl), - uint (bl_end bl))) (List.map_filter parse_block cidrs))"

definition mergeCIDRs :: "string list \<Rightarrow> string list" where
  "mergeCIDRs cidrs = map bl_text (mergeCIDRs_blocks cidrs)"

fun geoElements_from :: "nat \<Rightarrow> string list \<Rightarrow> string" where
  "geoElements_from i [] = []"
| "geoElements_from i (e # es) =
     (if i = 0 then [] else if i mod 6 = 0 then '','' @ [CHR 10, CHR 9, CHR 9, CHR 9] else '', '') @ e @ geoElements_from (i + 1) es"

definition geoElements :: "string list \<Rightarrow> string" where "geoElements elems = geoElements_from 0 elems"

section \<open>Region locks\<close>

text \<open>\<open>geoRegionElems\<close> is a map; \<open>elems[name]\<close> of an absent name is the empty list.\<close>

definition geo_elems_step :: "(string \<Rightarrow> bool) \<Rightarrow> (string \<rightharpoonup> string list) \<Rightarrow> GeoRegion \<Rightarrow> (string \<rightharpoonup> string list)" where
  "geo_elems_step referenced out r =
     (if \<not> referenced (gr_Name r) then out
      else (let els = mergeCIDRs (gr_CIDRs r) in if length els > 0 then out(gr_Name r \<mapsto> els) else out))"

definition geoRegionElems :: "ProtectSpec \<Rightarrow> (string \<rightharpoonup> string list)" where
  "geoRegionElems s =
     foldl (geo_elems_step (\<lambda>n. \<exists>sv \<in> set (sp_Services s). n \<in> set (ps_GeoRegions sv))) Map.empty (sp_Regions s)"

definition elems_at :: "(string \<rightharpoonup> string list) \<Rightarrow> string \<Rightarrow> string list" where
  "elems_at elems name = (case elems name of None \<Rightarrow> [] | Some els \<Rightarrow> els)"

definition geo_live :: "(string \<rightharpoonup> string list) \<Rightarrow> ProtectService \<Rightarrow> bool" where
  "geo_live elems sv \<longleftrightarrow>
     (let resolved = length (filter (\<lambda>name. length (elems_at elems name) > 0) (ps_GeoRegions sv))
      in length (ps_GeoRegions sv) \<noteq> 0 \<and>
         (if ps_GeoBlock sv \<and> resolved > 0 then True else \<not> ps_GeoBlock sv \<and> resolved = length (ps_GeoRegions sv)))"

definition geoServices :: "ProtectSpec \<Rightarrow> (string \<rightharpoonup> string list) \<Rightarrow> ProtectService list" where
  "geoServices s elems = filter (geo_live elems) (sp_Services s)"

definition spec_active :: "ProtectSpec \<Rightarrow> string list \<Rightarrow> ProtectService list \<Rightarrow> connOverride list \<Rightarrow> bool" where
  "spec_active s sePorts geoSvcs overrides \<longleftrightarrow>
     (if sp_PublicIface s = '''' then False
      else if sp_DropInvalid s \<or> sp_DropBogusTCP s \<or> sp_DropSpoofed s then True
      else if sp_NewConnsPerSec s > 0 \<or> sp_MaxConnsPerSource s > 0 \<or> sp_PacketsPerSec s > 0 then True
      else if length overrides > 0 then True
      else if (sp_QueriesPerSec s > 0 \<or> sp_DropLegacyQueries s) \<and> length sePorts > 0 then True
      else list_ex (\<lambda>sv. ps_CeilingPPS sv > 0) (sp_Services s) \<or> length geoSvcs > 0)"

end
