(* ===== verification/Validate.thy ===== *)
theory Validate
  imports Protect QuotaPolicy Store QueryCache
begin

text \<open>
  The door of the configuration (\<open>web/api.go\<close>, \<open>web/geofetch.go\<close>): \<open>validate\<close> with its helpers, what a save and an import
  pin to the running host, and the endpoints around them. A refusal is a value of \<open>refusal\<close>, one constructor for
  each message. The checks stand in the order of the code, one definition for each of its parts; the time zone
  database and \<open>url.Parse\<close> (scheme and host of a URL) are arguments.
\<close>

section \<open>Settings\<close>

record NotifyConfig =
  nf_Enabled :: bool
  nf_Kind :: string
  nf_URL :: string
  nf_Token :: string
  nf_OnSwitch :: bool
  nf_OnPathDown :: bool
  nf_OnQuota :: bool
  nf_OnHeld :: bool

record BlocklistConfig =
  bk_Enabled :: bool
  bk_RefreshHours :: int
  bk_Exceptions :: "string list"

text \<open>The whole of \<open>model.Config\<close>: the part the engine's model reads and the three sections beside it.\<close>

record Settings =
  se_Config :: Config
  se_Protect :: ProtectConfig
  se_Blocklist :: BlocklistConfig
  se_Notify :: NotifyConfig

definition DefaultBlocklistRefreshHours :: int where "DefaultBlocklistRefreshHours = 4"
definition MinBlocklistRefreshHours :: int where "MinBlocklistRefreshHours = 1"
definition MaxBlocklistRefreshHours :: int where "MaxBlocklistRefreshHours = 168"
definition DefaultTimezone :: string where "DefaultTimezone = ''Australia/Melbourne''"

definition ProbeDenyBandSize :: int where "ProbeDenyBandSize = 100"
definition ControlTable :: int where "ControlTable = 100"
definition ReturnTable :: int where "ReturnTable = 100"
definition ControlMark :: int where "ControlMark = 256"
definition ReturnMark :: int where "ReturnMark = 512"
definition EgressMark :: int where "EgressMark = 768"
definition LinkerReturnMark :: int where "LinkerReturnMark = 513"
definition LinkerEgressMark :: int where "LinkerEgressMark = 769"

definition maxRegionName :: nat where "maxRegionName = 32"
definition maxBlocklistExceptions :: nat where "maxBlocklistExceptions = 256"
definition maxRegionsBytes :: nat where "maxRegionsBytes = 25165824"
definition maxServiceName :: nat where "maxServiceName = 64"

datatype host_refusal =
    BadMode | BadFrontendIP | BadBackendIP | ProbePortRange | ControlPortRange | PortsEqual | NoPaths | EgressNeedsIface
  | BadPublicIP

datatype iface_refusal = IfaceTooLong | IfaceDots | IfaceChars | IfaceVerb

datatype notify_refusal = NotifyKindMissing | NotifyKindUnknown | NotifyNoURL | NotifyBadURL | NotifyScheme | NotifyNoHost

datatype failover_refusal = BadSelection | NegativeWeight | BadMargin | NegativeDwell | NoWeights

datatype linker_refusal =
    NoBackendLAN | BadBackendLAN | BackendLANIsOverlay | LinkerUnnamed | NoSubnet | LinkerBadOverlay | LinkerBadLan
  | LinkerSameAddress | LinkerIsBackendLAN | LinkerTaken | LinkerOutsideSubnet | LinkerTableRange | LinkerTableReserved
  | LinkerTablePath | LinkerDuplicate

datatype egress_refusal = EgressNoCIDR | EgressBadHost | EgressNoLinker | EgressOutside | EgressDuplicate

datatype path_refusal =
    PathIDPositive | PathIDLarge | PathIDDuplicate | PathUnnamed | PathNoIface | PathIfaceDuplicate | PathTableRange
  | PathTableReserved | PathTableDuplicate | PathMarkZero | PathMarkReserved | PathMarkDuplicate

datatype quota_refusal = CalibrationNaN | CalibrationRange | OverheadRange | BadTimezone | CeilingBelowLimit | QuotaTooLarge

datatype shape_refusal = NegativeRate | RateTooSmall

datatype protect_refusal = ProtectNeedsIface | ProtectNegative

datatype cache_refusal =
  RefreshNegative | RefreshTooSmall | RefreshTooLarge | StaleNegative | StaleTooLarge | StaleUnderThree

datatype region_refusal =
    RegionUnnamed | RegionNameLong | RegionNameChars | RegionReserved | RegionDuplicate | BadCountryCode | RegionsTooLarge

datatype blocklist_refusal = BlocklistNeedsIface | BlocklistRefreshSmall | BlocklistRefreshLarge | TooManyExceptions

datatype probe_refusal = ActiveInterval | StandbyInterval | ProbeTimeout | BadThresholds

datatype service_refusal =
    ServiceNameLong | ServiceNameChars | ServiceProto | ServicePort | ServiceNeedsIface | ServiceRange | ServiceCeiling
  | ServiceNegativeLimit | ServiceNotTCP | ServiceBadTarget | ServiceTargetNoSubnet | ServiceTargetOutside | ServiceNoLinker

datatype geo_refusal = GeoUndefined | GeoEmpty | GeoAutoNegative | GeoAutoNoRegions

datatype refusal =
    Host host_refusal | Iface iface_refusal | Notify notify_refusal | Failover failover_refusal | Linkers linker_refusal
  | Egress egress_refusal | NotIPv4Network | Paths path_refusal | PathQuota quota_refusal | Shape shape_refusal
  | Protection protect_refusal | QueryCache cache_refusal | Regions region_refusal | Blocklist blocklist_refusal
  | Probing probe_refusal | Services service_refusal | Geo geo_refusal | ServicesOverlap

section \<open>Helpers\<close>

definition parseIPv4Network :: "string \<Rightarrow> refusal + string" where
  "parseIPv4Network c = (case ParseCIDR4 c of None \<Rightarrow> Inl NotIPv4Network | Some (ip, n) \<Rightarrow> Inr (net_String ip n))"

definition parseIPv4Address :: "string \<Rightarrow> refusal + string" where
  "parseIPv4Address a = (let v = AddressLiteral a in if v = '''' then Inl (Host BadPublicIP) else Inr v)"

fun cleanNetworkList :: "string list \<Rightarrow> refusal + string list" where
  "cleanNetworkList [] = Inr []"
| "cleanNetworkList (c # cs) =
     (let c = TrimSpace c
      in if c = '''' then cleanNetworkList cs
         else let c = (if CHR ''/'' \<in> set c then c else c @ ''/32'')
           in case parseIPv4Network c of Inl e \<Rightarrow> Inl e
              | Inr netw \<Rightarrow> (case cleanNetworkList cs of Inl e \<Rightarrow> Inl e | Inr rest \<Rightarrow> Inr (netw # rest)))"

definition IPReadVerb :: "string \<Rightarrow> bool" where
  "IPReadVerb word \<longleftrightarrow> word = ''show'' \<or> word = ''get'' \<or> word = ''list''"

definition iface_char :: "char \<Rightarrow> bool" where
  "iface_char ch \<longleftrightarrow> (let c = (of_char ch :: nat) in (97 \<le> c \<and> c \<le> 122) \<or> (65 \<le> c \<and> c \<le> 90) \<or> (48 \<le> c \<and> c \<le> 57)) \<or>
     ch \<in> set ''-_.:@''"

definition ifaceName :: "string \<Rightarrow> refusal option" where
  "ifaceName name =
     (if byte_len name > 15 then Some (Iface IfaceTooLong)
      else if name = ''.'' \<or> name = ''..'' then Some (Iface IfaceDots)
      else if \<not> list_all iface_char name then Some (Iface IfaceChars)
      else if IPReadVerb name then Some (Iface IfaceVerb) else None)"

definition validateNotify :: "(string \<Rightarrow> (string \<times> string) option) \<Rightarrow> NotifyConfig \<Rightarrow> refusal + NotifyConfig" where
  "validateNotify url n =
     (let n = n\<lparr>nf_Kind := ToLower (TrimSpace (nf_Kind n)), nf_URL := TrimSpace (nf_URL n)\<rparr>
      in if \<not> nf_Enabled n \<and> nf_URL n = '''' then Inr n
         else if nf_Kind n = '''' then Inl (Notify NotifyKindMissing)
         else if nf_Kind n \<notin> {''webhook'', ''ntfy'', ''telegram''} then Inl (Notify NotifyKindUnknown)
         else if nf_URL n = '''' then Inl (Notify NotifyNoURL)
         else case url (nf_URL n) of None \<Rightarrow> Inl (Notify NotifyBadURL)
         | Some (scheme, host) \<Rightarrow>
             if scheme \<noteq> ''http'' \<and> scheme \<noteq> ''https'' then Inl (Notify NotifyScheme)
             else if host = '''' then Inl (Notify NotifyNoHost) else Inr n)"

definition badCountryCode :: "string \<Rightarrow> bool" where
  "badCountryCode cc \<longleftrightarrow> byte_len cc \<noteq> 2 \<or> \<not> list_all (\<lambda>ch. 97 \<le> (of_char ch :: nat) \<and> (of_char ch :: nat) \<le> 122) cc"

fun cleanCountryCodes :: "string list \<Rightarrow> string list \<Rightarrow> refusal + string list" where
  "cleanCountryCodes seen [] = Inr []"
| "cleanCountryCodes seen (cc # ccs) =
     (let cc = ToLower (TrimSpace cc)
      in if cc = '''' \<or> cc \<in> set seen then cleanCountryCodes seen ccs
         else if badCountryCode cc then Inl (Regions BadCountryCode)
         else case cleanCountryCodes (cc # seen) ccs of Inl e \<Rightarrow> Inl e | Inr codes \<Rightarrow> Inr (cc # codes))"

definition region_char :: "char \<Rightarrow> bool" where
  "region_char ch \<longleftrightarrow> (let c = (of_char ch :: nat) in (97 \<le> c \<and> c \<le> 122) \<or> (48 \<le> c \<and> c \<le> 57)) \<or> ch = CHR ''-'' \<or> ch = CHR ''_''"

definition firstBadRegionRune :: "string \<Rightarrow> string" where
  "firstBadRegionRune s = take 1 (dropWhile region_char s)"

definition comment_char :: "char \<Rightarrow> bool" where
  "comment_char ch \<longleftrightarrow> \<not> ((of_char ch :: nat) = 34 \<or> (of_char ch :: nat) = 92 \<or> (of_char ch :: nat) < 32 \<or> (of_char ch :: nat) = 127)"

definition firstBadCommentRune :: "string \<Rightarrow> string" where
  "firstBadCommentRune s = take 1 (dropWhile comment_char s)"

definition overlayContains :: "OverlayConfig \<Rightarrow> string \<Rightarrow> bool" where
  "overlayContains ov ip =
     (if ip = ov_BackendIP ov then True
      else if ov_Subnet ov = '''' then False
      else case ParseCIDR (ov_Subnet ov) of None \<Rightarrow> False
           | Some netw \<Rightarrow> (case ParseIP ip of None \<Rightarrow> False | Some addr \<Rightarrow> Contains netw addr))"

text \<open>A loop over a list that may rewrite each element, carries a state and returns at the first refusal.\<close>

fun each :: "('s \<Rightarrow> 'a \<Rightarrow> 'e + ('s \<times> 'a)) \<Rightarrow> 's \<Rightarrow> 'a list \<Rightarrow> 'e + ('s \<times> 'a list)" where
  "each f s [] = Inr (s, [])"
| "each f s (x # xs) =
     (case f s x of Inl e \<Rightarrow> Inl e
      | Inr (s1, y) \<Rightarrow> (case each f s1 xs of Inl e \<Rightarrow> Inl e | Inr (s2, ys) \<Rightarrow> Inr (s2, y # ys)))"

section \<open>The host and its overlay\<close>

definition validate_overlay :: "Config \<Rightarrow> refusal option" where
  "validate_overlay cfg =
     (let ov = c_Overlay cfg; fe = c_Frontend cfg
      in if c_Mode cfg \<noteq> ModeObserve \<and> c_Mode cfg \<noteq> ModeArmed then Some (Host BadMode)
         else if ParseIP (ov_FrontendIP ov) = None then Some (Host BadFrontendIP)
         else if ParseIP (ov_BackendIP ov) = None then Some (Host BadBackendIP)
         else if ov_ProbePort ov < 1 \<or> ov_ProbePort ov > 65535 then Some (Host ProbePortRange)
         else if ov_ControlPort ov < 1 \<or> ov_ControlPort ov > 65535 then Some (Host ControlPortRange)
         else if ov_ProbePort ov = ov_ControlPort ov then Some (Host PortsEqual)
         else if c_Paths cfg = [] then Some (Host NoPaths)
         else if fe_BackendEgress fe \<and> TrimSpace (fe_PublicIface fe) = '''' then Some (Host EgressNeedsIface)
         else if fe_PublicIface fe \<noteq> '''' then ifaceName (fe_PublicIface fe)
         else None)"

definition validate_host :: "(string \<Rightarrow> (string \<times> string) option) \<Rightarrow> Settings \<Rightarrow> refusal + Settings" where
  "validate_host url s =
     (let cfg = se_Config s; fe = c_Frontend cfg
      in case validate_overlay cfg of
           Some e \<Rightarrow> Inl e
         | None \<Rightarrow>
           (case validateNotify url (se_Notify s) of
              Inl e \<Rightarrow> Inl e
            | Inr n \<Rightarrow>
              (case (if fe_PublicIP fe = '''' then Inr '''' else parseIPv4Address (fe_PublicIP fe)) of
                 Inl e \<Rightarrow> Inl e
               | Inr v \<Rightarrow> Inr (s\<lparr>se_Notify := n, se_Config := Normalise (cfg\<lparr>c_Frontend := fe\<lparr>fe_PublicIP := v\<rparr>\<rparr>)\<rparr>))))"

definition validate_failover :: "FailoverConfig \<Rightarrow> refusal option" where
  "validate_failover fo =
     (let q = fo_Quality fo; zero = Fin 0
      in if fo_Selection fo \<noteq> SelectionPriority \<and> fo_Selection fo \<noteq> SelectionQuality then Some (Failover BadSelection)
         else if flt (ql_LossWeight q) zero \<or> flt (ql_RTTWeight q) zero \<or> flt (ql_JitterWeight q) zero then Some (Failover NegativeWeight)
         else if flt (ql_MarginPct q) zero \<or> fge (ql_MarginPct q) (Fin 100) then Some (Failover BadMargin)
         else if ql_MinDwellSec q < 0 then Some (Failover NegativeDwell)
         else if fis0 (ql_LossWeight q) \<and> fis0 (ql_RTTWeight q) \<and> fis0 (ql_JitterWeight q) \<and> fo_Selection fo = SelectionQuality
         then Some (Failover NoWeights) else None)"

section \<open>Linkers and egress networks\<close>

definition validate_backend_lan :: "Config \<Rightarrow> refusal option" where
  "validate_backend_lan cfg =
     (if c_Linkers cfg = [] then None
      else if c_BackendLAN cfg = '''' then Some (Linkers NoBackendLAN)
      else if ParseIP (c_BackendLAN cfg) = None then Some (Linkers BadBackendLAN)
      else if c_BackendLAN cfg = ov_BackendIP (c_Overlay cfg) then Some (Linkers BackendLANIsOverlay) else None)"

text \<open>One linker: the state is the overlay addresses seen.\<close>

definition validate_linker :: "Config \<Rightarrow> string list \<Rightarrow> Linker \<Rightarrow> refusal + (string list \<times> Linker)" where
  "validate_linker cfg seen lk =
     (let lk = lk\<lparr>lk_Name := TrimSpace (lk_Name lk), lk_OverlayIP := TrimSpace (lk_OverlayIP lk), lk_LanIP := TrimSpace (lk_LanIP lk)\<rparr>;
          ov = c_Overlay cfg; t = TableOr lk 0
      in if lk_Name lk = '''' then Inl (Linkers LinkerUnnamed)
         else if ov_Subnet ov = '''' then Inl (Linkers NoSubnet)
         else if ParseIP (lk_OverlayIP lk) = None then Inl (Linkers LinkerBadOverlay)
         else if ParseIP (lk_LanIP lk) = None then Inl (Linkers LinkerBadLan)
         else if lk_OverlayIP lk = lk_LanIP lk then Inl (Linkers LinkerSameAddress)
         else if lk_LanIP lk = c_BackendLAN cfg then Inl (Linkers LinkerIsBackendLAN)
         else if lk_OverlayIP lk = ov_BackendIP ov \<or> lk_OverlayIP lk = ov_FrontendIP ov then Inl (Linkers LinkerTaken)
         else if \<not> overlayContains ov (lk_OverlayIP lk) then Inl (Linkers LinkerOutsideSubnet)
         else if lk_Table lk < 0 \<or> lk_Table lk > 252 then Inl (Linkers LinkerTableRange)
         else if t \<noteq> 0 \<and> (t = ReturnTable \<or> t = ControlTable) then Inl (Linkers LinkerTableReserved)
         else if t \<noteq> 0 \<and> list_ex (\<lambda>p. p_Table p = t) (c_Paths cfg) then Inl (Linkers LinkerTablePath)
         else if lk_OverlayIP lk \<in> set seen then Inl (Linkers LinkerDuplicate)
         else Inr (lk_OverlayIP lk # seen, lk))"

definition validate_source :: "Config \<Rightarrow> string list \<Rightarrow> unit \<Rightarrow> EgressSource \<Rightarrow> refusal + (unit \<times> EgressSource)" where
  "validate_source cfg linkers u s =
     (let s = s\<lparr>es_Name := TrimSpace (es_Name s), es_CIDR := TrimSpace (es_CIDR s)\<rparr>; ov = c_Overlay cfg
      in if es_CIDR s = '''' then Inl (Egress EgressNoCIDR)
         else case parseIPv4Network (es_CIDR s) of Inl e \<Rightarrow> Inl e
         | Inr netw \<Rightarrow>
           let s = s\<lparr>es_CIDR := netw, es_Host := TrimSpace (es_Host s)\<rparr>; h = es_Host s
           in if h = '''' then Inr ((), s)
              else if ParseIP h = None then Inl (Egress EgressBadHost)
              else if overlayContains ov h \<and> h \<noteq> ov_BackendIP ov \<and> h \<notin> set linkers then Inl (Egress EgressNoLinker)
              else if \<not> overlayContains ov h then Inl (Egress EgressOutside)
              else Inr ((), s))"

text \<open>The second pass: no network twice for one host. The key of the code joins host and network by a space.\<close>

definition source_key :: "Config \<Rightarrow> EgressSource \<Rightarrow> string" where
  "source_key cfg s = HostOr s (ov_BackendIP (c_Overlay cfg)) @ '' '' @ es_CIDR s"

definition validate_egress :: "Config \<Rightarrow> string list \<Rightarrow> refusal + EgressSource list" where
  "validate_egress cfg linkers =
     (case each (validate_source cfg linkers) () (c_Egress cfg) of Inl e \<Rightarrow> Inl e
      | Inr (_, ss) \<Rightarrow> if distinct (map (source_key cfg) ss) then Inr ss else Inl (Egress EgressDuplicate))"

section \<open>Paths\<close>

definition reserved_marks :: "int list" where
  "reserved_marks = [ControlMark, ReturnMark, EgressMark, LinkerReturnMark, LinkerEgressMark]"

record seen_paths =
  sn_ids :: "int list"
  sn_tables :: "int list"
  sn_ifaces :: "string list"
  sn_marks :: "int list"

definition nothing_seen :: seen_paths where
  "nothing_seen = \<lparr>sn_ids = [], sn_tables = [], sn_ifaces = [], sn_marks = []\<rparr>"

definition validate_identity :: "seen_paths \<Rightarrow> PathConfig \<Rightarrow> refusal option" where
  "validate_identity sn p =
     (if p_ID p \<le> 0 then Some (Paths PathIDPositive)
      else if p_ID p \<ge> ProbeDenyBandSize then Some (Paths PathIDLarge)
      else if p_ID p \<in> set (sn_ids sn) then Some (Paths PathIDDuplicate)
      else if TrimSpace (p_Name p) = '''' then Some (Paths PathUnnamed)
      else if TrimSpace (p_Iface p) = '''' then Some (Paths PathNoIface)
      else case ifaceName (p_Iface p) of Some e \<Rightarrow> Some e
      | None \<Rightarrow>
        if p_Iface p \<in> set (sn_ifaces sn) then Some (Paths PathIfaceDuplicate)
        else if p_Table p \<le> 0 \<or> p_Table p > 252 then Some (Paths PathTableRange)
        else if p_Table p = ControlTable then Some (Paths PathTableReserved)
        else if p_Table p \<in> set (sn_tables sn) then Some (Paths PathTableDuplicate)
        else if p_Mark p = 0 then Some (Paths PathMarkZero)
        else if p_Mark p \<in> set reserved_marks then Some (Paths PathMarkReserved)
        else if p_Mark p \<in> set (sn_marks sn) then Some (Paths PathMarkDuplicate)
        else None)"

definition validate_quota :: "(string \<Rightarrow> bool) \<Rightarrow> Quota \<Rightarrow> refusal + Quota" where
  "validate_quota tz q =
     (if q_Calibration q = NaN then Inl (PathQuota CalibrationNaN)
      else let q = q\<lparr>q_Calibration := (if fle (q_Calibration q) (Fin 0) then Fin 100 else q_Calibration q)\<rparr>
      in if fgt (q_Calibration q) MaxCalibration \<or> flt (q_Calibration q) MinCalibration then Inl (PathQuota CalibrationRange)
         else if q_OverheadPerPacket q < 0 \<or> q_OverheadPerPacket q > MaxOverheadPerPacket then Inl (PathQuota OverheadRange)
         else let q = q\<lparr>q_ResetDay := (if q_ResetDay q < 1 then 1 else q_ResetDay q),
                         q_Timezone := (if q_Timezone q = '''' then DefaultTimezone else q_Timezone q)\<rparr>
         in if \<not> tz (q_Timezone q) then Inl (PathQuota BadTimezone)
            else if q_CeilingBytes q > 0 \<and> q_CeilingBytes q < q_LimitBytes q then Inl (PathQuota CeilingBelowLimit)
            else if q_LimitBytes q > MaxLedgerValue \<or> q_CeilingBytes q > MaxLedgerValue then Inl (PathQuota QuotaTooLarge)
            else Inr q)"

definition validate_path :: "(string \<Rightarrow> bool) \<Rightarrow> seen_paths \<Rightarrow> PathConfig \<Rightarrow> refusal + (seen_paths \<times> PathConfig)" where
  "validate_path tz sn p =
     (case validate_identity sn p of Some e \<Rightarrow> Inl e
      | None \<Rightarrow>
        (case validate_quota tz (p_Quota p) of Inl e \<Rightarrow> Inl e
         | Inr q \<Rightarrow> Inr (\<lparr>sn_ids = p_ID p # sn_ids sn, sn_tables = p_Table p # sn_tables sn,
                         sn_ifaces = p_Iface p # sn_ifaces sn, sn_marks = p_Mark p # sn_marks sn\<rparr>, p\<lparr>p_Quota := q\<rparr>)))"

definition validate_rate :: "float64 \<Rightarrow> refusal option" where
  "validate_rate mbit = (if flt mbit (Fin 0) then Some (Shape NegativeRate)
     else if fgt mbit (Fin 0) \<and> flt mbit (Fin 1) then Some (Shape RateTooSmall) else None)"

fun validate_shapes :: "PathConfig list \<Rightarrow> refusal option" where
  "validate_shapes [] = None"
| "validate_shapes (p # ps) =
     (case validate_rate (sh_ToBackendMbit (p_Shape p)) of Some e \<Rightarrow> Some e
      | None \<Rightarrow> (case validate_rate (sh_ToFrontendMbit (p_Shape p)) of Some e \<Rightarrow> Some e | None \<Rightarrow> validate_shapes ps))"

section \<open>Protection, query cache, regions, blocklist, probing\<close>

definition validate_protect :: "Config \<Rightarrow> ProtectConfig \<Rightarrow> refusal option" where
  "validate_protect cfg pr =
     (if pc_Enabled pr \<and> TrimSpace (fe_PublicIface (c_Frontend cfg)) = '''' then Some (Protection ProtectNeedsIface)
      else if list_ex (\<lambda>n. n < 0) [pc_NewConnsPerSec pr, pc_MaxConnsPerSource pr, pc_PacketsPerSec pr, pc_QueriesPerSec pr,
             pc_BlockSeconds pr, pc_GeoLockSeconds pr] then Some (Protection ProtectNegative) else None)"

definition validate_cache :: "QueryCacheConfig \<Rightarrow> refusal option" where
  "validate_cache qc =
     (if qc_RefreshMs qc < 0 then Some (QueryCache RefreshNegative)
      else if qc_RefreshMs qc \<noteq> 0 \<and> qc_RefreshMs qc < 500 then Some (QueryCache RefreshTooSmall)
      else if qc_RefreshMs qc > 30000 then Some (QueryCache RefreshTooLarge)
      else if qc_StaleMs qc < 0 then Some (QueryCache StaleNegative)
      else if qc_StaleMs qc > 300000 then Some (QueryCache StaleTooLarge)
      else if qc_StaleMs qc \<noteq> 0 \<and> qc_StaleMs qc < 3 * (if qc_RefreshMs qc = 0 then go_div DefaultRefreshEvery 1000000 else qc_RefreshMs qc)
      then Some (QueryCache StaleUnderThree) else None)"

record region_state =
  rs_defined :: "string list"
  rs_networks :: "string list"
  rs_sets :: "string list"
  rs_bytes :: nat

definition no_regions :: region_state where
  "no_regions = \<lparr>rs_defined = [], rs_networks = [], rs_sets = [], rs_bytes = 0\<rparr>"

definition validate_region :: "region_state \<Rightarrow> GeoRegion \<Rightarrow> refusal + (region_state \<times> GeoRegion)" where
  "validate_region st rg =
     (let rg = rg\<lparr>gr_Name := TrimSpace (gr_Name rg)\<rparr>; name = gr_Name rg; key = GeoSetName name
      in if name = '''' then Inl (Regions RegionUnnamed)
         else if byte_len name > maxRegionName then Inl (Regions RegionNameLong)
         else if firstBadRegionRune name \<noteq> '''' then Inl (Regions RegionNameChars)
         else if GeoNameReserved name then Inl (Regions RegionReserved)
         else if key \<in> set (rs_sets st) then Inl (Regions RegionDuplicate)
         else case cleanNetworkList (gr_CIDRs rg) of Inl e \<Rightarrow> Inl e
         | Inr cleaned \<Rightarrow>
           (case cleanCountryCodes [] (gr_Countries rg) of Inl e \<Rightarrow> Inl e
            | Inr codes \<Rightarrow>
              Inr (\<lparr>rs_defined = name # rs_defined st,
                     rs_networks = (if cleaned \<noteq> [] then name # rs_networks st else rs_networks st),
                     rs_sets = key # rs_sets st,
                     rs_bytes = rs_bytes st + sum_list (map (\<lambda>netw. byte_len netw + 1) cleaned)\<rparr>,
                   rg\<lparr>gr_CIDRs := cleaned, gr_Countries := codes\<rparr>)))"

definition validate_regions :: "GeoRegion list \<Rightarrow> refusal + (region_state \<times> GeoRegion list)" where
  "validate_regions rgs =
     (case each validate_region no_regions rgs of Inl e \<Rightarrow> Inl e
      | Inr (st, rgs) \<Rightarrow> if rs_bytes st > maxRegionsBytes then Inl (Regions RegionsTooLarge) else Inr (st, rgs))"

definition validate_blocklist :: "Config \<Rightarrow> BlocklistConfig \<Rightarrow> refusal + BlocklistConfig" where
  "validate_blocklist cfg bl =
     (if bk_Enabled bl \<and> TrimSpace (fe_PublicIface (c_Frontend cfg)) = '''' then Inl (Blocklist BlocklistNeedsIface)
      else if bk_RefreshHours bl \<noteq> 0 \<and> bk_RefreshHours bl < MinBlocklistRefreshHours then Inl (Blocklist BlocklistRefreshSmall)
      else if bk_RefreshHours bl > MaxBlocklistRefreshHours then Inl (Blocklist BlocklistRefreshLarge)
      else if length (bk_Exceptions bl) > maxBlocklistExceptions then Inl (Blocklist TooManyExceptions)
      else case cleanNetworkList (bk_Exceptions bl) of Inl e \<Rightarrow> Inl e | Inr ex \<Rightarrow> Inr (bl\<lparr>bk_Exceptions := ex\<rparr>))"

definition validate_probe :: "ProbeConfig \<Rightarrow> refusal + ProbeConfig" where
  "validate_probe p =
     (if pb_ActiveIntervalMs p < 50 then Inl (Probing ActiveInterval)
      else if pb_StandbyIntervalMs p < pb_ActiveIntervalMs p then Inl (Probing StandbyInterval)
      else if pb_TimeoutMs p < 50 then Inl (Probing ProbeTimeout)
      else if pb_FailThreshold p < 1 \<or> pb_RecoverThreshold p < 1 then Inl (Probing BadThresholds)
      else Inr (if pb_WindowSize p < 5 then p\<lparr>pb_WindowSize := 5\<rparr> else p))"

section \<open>Services\<close>

text \<open>The loop over a row's region names: trimmed, blanks and repeats dropped.\<close>

fun validate_refs :: "region_state \<Rightarrow> string list \<Rightarrow> string list \<Rightarrow> refusal + string list" where
  "validate_refs st seen [] = Inr []"
| "validate_refs st seen (n # ns) =
     (let name = TrimSpace n
      in if name = '''' \<or> name \<in> set seen then validate_refs st seen ns
         else if name \<notin> set (rs_defined st) then Inl (Geo GeoUndefined)
         else if name \<notin> set (rs_networks st) then Inl (Geo GeoEmpty)
         else case validate_refs st (name # seen) ns of Inl e \<Rightarrow> Inl e | Inr refs \<Rightarrow> Inr (name # refs))"

definition validate_target :: "Config \<Rightarrow> string list \<Rightarrow> string \<Rightarrow> refusal option" where
  "validate_target cfg linkers target =
     (let ov = c_Overlay cfg
      in if target = '''' then None
         else if ParseIP target = None then Some (Services ServiceBadTarget)
         else if \<not> overlayContains ov target then
           Some (Services (if ov_Subnet ov = '''' then ServiceTargetNoSubnet else ServiceTargetOutside))
         else if target \<noteq> ov_BackendIP ov \<and> target \<notin> set linkers then Some (Services ServiceNoLinker)
         else None)"

definition validate_row :: "Config \<Rightarrow> Service \<Rightarrow> refusal option" where
  "validate_row cfg sv =
     (if byte_len (sv_Name sv) > maxServiceName then Some (Services ServiceNameLong)
      else if firstBadCommentRune (sv_Name sv) \<noteq> '''' then Some (Services ServiceNameChars)
      else if sv_Proto sv \<noteq> ''tcp'' \<and> sv_Proto sv \<noteq> ''udp'' then Some (Services ServiceProto)
      else if sv_Port sv < 1 \<or> sv_Port sv > 65535 then Some (Services ServicePort)
      else if sv_Enabled sv \<and> TrimSpace (fe_PublicIface (c_Frontend cfg)) = '''' then Some (Services ServiceNeedsIface)
      else if sv_PortEnd sv \<noteq> 0 \<and> (sv_PortEnd sv < sv_Port sv \<or> sv_PortEnd sv > 65535) then Some (Services ServiceRange)
      else if sv_CeilingPPS sv < 0 then Some (Services ServiceCeiling)
      else if sv_NewConnsPerSec sv < 0 \<or> sv_MaxConnsPerSource sv < 0 then Some (Services ServiceNegativeLimit)
      else if sv_Proto sv \<noteq> ''tcp'' \<and> (sv_NewConnsPerSec sv > 0 \<or> sv_MaxConnsPerSource sv > 0) then Some (Services ServiceNotTCP)
      else None)"

definition validate_service :: "Config \<Rightarrow> string list \<Rightarrow> region_state \<Rightarrow> unit \<Rightarrow> Service \<Rightarrow> refusal + (unit \<times> Service)" where
  "validate_service cfg linkers st u sv =
     (let sv = sv\<lparr>sv_Name := TrimSpace (sv_Name sv)\<rparr>
      in case validate_row cfg sv of Some e \<Rightarrow> Inl e
      | None \<Rightarrow>
        let sv = sv\<lparr>sv_Target := TrimSpace (sv_Target sv)\<rparr>
        in case validate_target cfg linkers (sv_Target sv) of Some e \<Rightarrow> Inl e
        | None \<Rightarrow>
          (case validate_refs st [] (sv_GeoRegions sv) of Inl e \<Rightarrow> Inl e
           | Inr refs \<Rightarrow>
             let sv = sv\<lparr>sv_GeoRegions := refs\<rparr>;
                 sv = (if refs = [] then sv\<lparr>sv_GeoBlock := False\<rparr> else sv)
             in if sv_GeoAutoPPS sv < 0 then Inl (Geo GeoAutoNegative)
                else if sv_GeoAutoPPS sv > 0 \<and> refs = [] then Inl (Geo GeoAutoNoRegions)
                else Inr ((), sv)))"

definition rows_overlap :: "Service \<Rightarrow> Service \<Rightarrow> bool" where
  "rows_overlap a b \<longleftrightarrow> sv_Enabled b \<and> sv_Proto b = sv_Proto a \<and>
     \<not> (sv_Port a > max (sv_Port b) (sv_PortEnd b) \<or> sv_Port b > max (sv_Port a) (sv_PortEnd a))"

fun validate_overlaps :: "Service list \<Rightarrow> Service list \<Rightarrow> refusal option" where
  "validate_overlaps before [] = None"
| "validate_overlaps before (a # rest) =
     (if sv_Enabled a \<and> list_ex (rows_overlap a) before then Some ServicesOverlap
      else validate_overlaps (before @ [a]) rest)"

section \<open>The whole check\<close>

definition validate_rest :: "(string \<Rightarrow> bool) \<Rightarrow> string list \<Rightarrow> Settings \<Rightarrow> refusal + Settings" where
  "validate_rest tz linkers s =
     (let cfg = se_Config s
      in case each (validate_path tz) nothing_seen (c_Paths cfg) of Inl e \<Rightarrow> Inl e
      | Inr (_, paths) \<Rightarrow>
        (case validate_shapes paths of Some e \<Rightarrow> Inl e
         | None \<Rightarrow>
         (case validate_protect cfg (se_Protect s) of Some e \<Rightarrow> Inl e
          | None \<Rightarrow>
          (case validate_cache (c_QueryCache cfg) of Some e \<Rightarrow> Inl e
           | None \<Rightarrow>
           (case validate_regions (pc_Regions (se_Protect s)) of Inl e \<Rightarrow> Inl e
            | Inr (st, rgs) \<Rightarrow>
            (case validate_blocklist cfg (se_Blocklist s) of Inl e \<Rightarrow> Inl e
             | Inr bl \<Rightarrow>
             (case validate_probe (c_Probe cfg) of Inl e \<Rightarrow> Inl e
              | Inr pb \<Rightarrow>
              (case each (validate_service cfg linkers st) () (c_Services cfg) of Inl e \<Rightarrow> Inl e
               | Inr (_, svs) \<Rightarrow>
               (case validate_overlaps [] svs of Some e \<Rightarrow> Inl e
                | None \<Rightarrow> Inr \<lparr>se_Config = cfg\<lparr>c_Paths := paths, c_Probe := pb, c_Services := svs\<rparr>,
                               se_Protect = (se_Protect s)\<lparr>pc_Regions := rgs\<rparr>,
                               se_Blocklist = bl, se_Notify = se_Notify s\<rparr>)))))))))"

definition validate :: "(string \<Rightarrow> bool) \<Rightarrow> (string \<Rightarrow> (string \<times> string) option) \<Rightarrow> Settings \<Rightarrow> refusal + Settings" where
  "validate tz url s =
     (case validate_host url s of Inl e \<Rightarrow> Inl e
      | Inr s \<Rightarrow>
        (case validate_failover (c_Failover (se_Config s)) of Some e \<Rightarrow> Inl e
         | None \<Rightarrow>
           let cfg = (se_Config s)\<lparr>c_BackendLAN := TrimSpace (c_BackendLAN (se_Config s))\<rparr>
           in case validate_backend_lan cfg of Some e \<Rightarrow> Inl e
           | None \<Rightarrow>
             (case each (validate_linker cfg) [] (c_Linkers cfg) of Inl e \<Rightarrow> Inl e
              | Inr (linkers, lks) \<Rightarrow>
                let cfg = cfg\<lparr>c_Linkers := lks\<rparr>
                in case validate_egress cfg linkers of Inl e \<Rightarrow> Inl e
                | Inr ss \<Rightarrow> validate_rest tz linkers (s\<lparr>se_Config := cfg\<lparr>c_Egress := ss\<rparr>\<rparr>))))"

section \<open>The endpoints\<close>

definition pinServerOwnedFields :: "Settings \<Rightarrow> Settings \<Rightarrow> Settings" where
  "pinServerOwnedFields s current =
     s\<lparr>se_Config := (se_Config s)\<lparr>c_Overlay := c_Overlay (se_Config current), c_Mode := c_Mode (se_Config current)\<rparr>\<rparr>"

definition pinHostIdentity :: "Settings \<Rightarrow> Settings \<Rightarrow> Settings" where
  "pinHostIdentity s current =
     (let fe = c_Frontend (se_Config s); cur = c_Frontend (se_Config current)
      in s\<lparr>se_Config := (se_Config s)\<lparr>c_Frontend := fe\<lparr>fe_PublicIface := fe_PublicIface cur, fe_PublicIP := fe_PublicIP cur\<rparr>\<rparr>\<rparr>)"

text \<open>\<open>decodeConfig\<close> of a body that is exactly one JSON object with known fields (\<open>None\<close> is any other body).\<close>

datatype http_refusal = InvalidConfiguration | Refused refusal

definition decodeConfig ::
    "(string \<Rightarrow> bool) \<Rightarrow> (string \<Rightarrow> (string \<times> string) option) \<Rightarrow> Settings \<Rightarrow> Settings option \<Rightarrow> http_refusal + Settings" where
  "decodeConfig tz url current body =
     (case body of None \<Rightarrow> Inl InvalidConfiguration
      | Some s \<Rightarrow> (case validate tz url (pinServerOwnedFields s current) of Inl e \<Rightarrow> Inl (Refused e) | Inr s \<Rightarrow> Inr s))"

text \<open>What the check answers with, and what a save hands to \<open>Reconfigure\<close>.\<close>

definition handleCheckConfig ::
    "(string \<Rightarrow> bool) \<Rightarrow> (string \<Rightarrow> (string \<times> string) option) \<Rightarrow> Settings \<Rightarrow> Settings option \<Rightarrow> http_refusal + Settings" where
  "handleCheckConfig tz url current body =
     (case decodeConfig tz url current body of Inl e \<Rightarrow> Inl e | Inr s \<Rightarrow> Inr (pinHostIdentity s current))"

definition handlePutConfig ::
    "(string \<Rightarrow> bool) \<Rightarrow> (string \<Rightarrow> (string \<times> string) option) \<Rightarrow> (Settings \<Rightarrow> 'e \<Rightarrow> 'e) \<Rightarrow> Settings \<Rightarrow> Settings option \<Rightarrow> 'e \<Rightarrow>
     http_refusal option \<times> 'e" where
  "handlePutConfig tz url reconfigure current body e =
     (case decodeConfig tz url current body of Inl x \<Rightarrow> (Some x, e) | Inr s \<Rightarrow> (None, reconfigure s e))"

end
