(* ===== verification/ProtectProps.thy ===== *)
theory ProtectProps
  imports Protect
begin

text \<open>
  What nftables is handed for the edge filter: port sets whose intervals neither overlap nor touch and
  cover exactly the published ports, connection limits that divide the TCP ports between the shared rule
  and the rows that override it, names declared once, and region networks reduced to disjoint blocks
  with the same addresses.
\<close>

unbundle bit_operations_syntax

section \<open>Intervals\<close>

definition in_ranges :: "int \<Rightarrow> portRange list \<Rightarrow> bool" where
  "in_ranges p rs \<longleftrightarrow> list_ex (\<lambda>r. rg_lo r \<le> p \<and> p \<le> rg_hi r) rs"

definition apart :: "portRange \<Rightarrow> portRange \<Rightarrow> bool" where
  "apart a b \<longleftrightarrow> rg_hi a + 1 < rg_lo b"

definition proper :: "portRange \<Rightarrow> bool" where
  "proper r \<longleftrightarrow> rg_lo r \<le> rg_hi r"

definition covers_port :: "ProtectService \<Rightarrow> int \<Rightarrow> bool" where
  "covers_port sv p \<longleftrightarrow> ps_Port sv \<le> p \<and> p \<le> max (ps_Port sv) (ps_PortEnd sv)"

lemma in_ranges_simps [simp]:
  "in_ranges p [] = False"
  "in_ranges p (r # rs) \<longleftrightarrow> (rg_lo r \<le> p \<and> p \<le> rg_hi r) \<or> in_ranges p rs"
  "in_ranges p (rs @ rs') \<longleftrightarrow> in_ranges p rs \<or> in_ranges p rs'"
  by (simp_all add: in_ranges_def)

lemma in_ranges_set: "in_ranges p rs \<longleftrightarrow> (\<exists>r \<in> set rs. rg_lo r \<le> p \<and> p \<le> rg_hi r)"
  by (simp add: in_ranges_def list_ex_iff)

lemma in_ranges_concat: "in_ranges p (concat rss) \<longleftrightarrow> (\<exists>rs \<in> set rss. in_ranges p rs)"
  by (induction rss) auto

lemma proper_service_range [simp]: "proper (service_range sv)"
  by (simp add: proper_def service_range_def)

lemma in_service_ranges: "in_ranges p (map service_range svs) \<longleftrightarrow> (\<exists>sv \<in> set svs. covers_port sv p)"
  by (auto simp: in_ranges_set service_range_def covers_port_def)

lemma merge_loop_exact:
  assumes "proper cur" and "list_all proper rs" and "sorted (map rg_lo (cur # rs))"
  shows "(in_ranges p (merge_loop cur rs) \<longleftrightarrow> in_ranges p (cur # rs)) \<and> sorted_wrt apart (merge_loop cur rs) \<and>
    list_all (\<lambda>r. rg_lo cur \<le> rg_lo r) (merge_loop cur rs) \<and> list_all proper (merge_loop cur rs)"
  using assms
proof (induction cur rs rule: merge_loop.induct)
  case (1 cur)
  then show ?case by simp
next
  case (2 cur r rs)
  show ?case
  proof (cases "rg_lo r \<le> rg_hi cur + 1")
    case True
    define cur' where "cur' = (if rg_hi r > rg_hi cur then cur\<lparr>rg_hi := rg_hi r\<rparr> else cur)"
    have lo: "rg_lo cur' = rg_lo cur" by (simp add: cur'_def)
    have "proper cur'" using 2(3) by (auto simp: cur'_def proper_def)
    moreover have "list_all proper rs" "sorted (map rg_lo (cur' # rs))" using 2(4,5) lo by auto
    ultimately have prem: "proper cur'" "list_all proper rs" "sorted (map rg_lo (cur' # rs))" by auto
    have ih: "(in_ranges p (merge_loop cur' rs) \<longleftrightarrow> in_ranges p (cur' # rs)) \<and> sorted_wrt apart (merge_loop cur' rs) \<and>
      list_all (\<lambda>r. rg_lo cur' \<le> rg_lo r) (merge_loop cur' rs) \<and> list_all proper (merge_loop cur' rs)"
      using 2(1) [OF True] prem unfolding cur'_def by blast
    have step: "merge_loop cur (r # rs) = merge_loop cur' rs" using True by (simp add: cur'_def)
    have cover: "(rg_lo cur' \<le> p \<and> p \<le> rg_hi cur') \<longleftrightarrow> (rg_lo cur \<le> p \<and> p \<le> rg_hi cur) \<or> (rg_lo r \<le> p \<and> p \<le> rg_hi r)"
      using True 2(3-5) by (auto simp: cur'_def proper_def)
    show ?thesis using ih step cover lo by auto
  next
    case False
    have ih: "(in_ranges p (merge_loop r rs) \<longleftrightarrow> in_ranges p (r # rs)) \<and> sorted_wrt apart (merge_loop r rs) \<and>
      list_all (\<lambda>q. rg_lo r \<le> rg_lo q) (merge_loop r rs) \<and> list_all proper (merge_loop r rs)"
      using 2(2) [OF False] 2(3-5) by auto
    have "rg_lo cur \<le> rg_lo r" using 2(5) by simp
    moreover have "list_all (apart cur) (merge_loop r rs)" using ih False by (auto simp: apart_def list_all_iff)
    ultimately show ?thesis using ih False 2(3) by (auto simp: list_all_iff)
  qed
qed

lemma sorted_lo: "sorted (map rg_lo (sort_key (\<lambda>r. (rg_lo r, rg_hi r)) rs))"
proof -
  have "sorted (map (\<lambda>r. (rg_lo r, rg_hi r)) (sort_key (\<lambda>r. (rg_lo r, rg_hi r)) rs))" by (rule sorted_sort_key)
  then show ?thesis by (auto simp: sorted_wrt_map sorted_map intro: sorted_wrt_mono_rel [rotated])
qed

lemma merge_ranges_exact:
  assumes "list_all proper rs"
  shows "in_ranges p (merge_ranges rs) \<longleftrightarrow> in_ranges p rs" and "sorted_wrt apart (merge_ranges rs)"
    and "list_all proper (merge_ranges rs)"
proof -
  let ?s = "sort_key (\<lambda>r. (rg_lo r, rg_hi r)) rs"
  have eq: "in_ranges p ?s \<longleftrightarrow> in_ranges p rs" by (simp add: in_ranges_set)
  have pr: "list_all proper ?s" using assms by (simp add: list_all_iff)
  have "(in_ranges p (merge_ranges rs) \<longleftrightarrow> in_ranges p ?s) \<and> sorted_wrt apart (merge_ranges rs) \<and> list_all proper (merge_ranges rs)"
  proof (cases ?s)
    case Nil
    then show ?thesis by (simp add: merge_ranges_def)
  next
    case (Cons c cs)
    then show ?thesis using merge_loop_exact [of c cs p] pr sorted_lo [of rs] by (simp add: merge_ranges_def)
  qed
  with eq show "in_ranges p (merge_ranges rs) \<longleftrightarrow> in_ranges p rs" "sorted_wrt apart (merge_ranges rs)"
    "list_all proper (merge_ranges rs)" by auto
qed

lemma cut_segment_exact:
  assumes "proper c" and "proper s"
  shows "in_ranges p (cut_segment c s) \<longleftrightarrow> (rg_lo s \<le> p \<and> p \<le> rg_hi s) \<and> \<not> (rg_lo c \<le> p \<and> p \<le> rg_hi c)"
    and "list_all proper (cut_segment c s)"
  using assms by (auto simp: cut_segment_def proper_def)

lemma cut_all_exact:
  assumes "list_all proper cuts" and "list_all proper segs"
  shows "(in_ranges p (foldl (\<lambda>segs c. concat (map (cut_segment c) segs)) segs cuts) \<longleftrightarrow> in_ranges p segs \<and> \<not> in_ranges p cuts) \<and>
    list_all proper (foldl (\<lambda>segs c. concat (map (cut_segment c) segs)) segs cuts)"
  using assms
proof (induction cuts arbitrary: segs)
  case Nil
  then show ?case by simp
next
  case (Cons c cuts)
  let ?segs = "concat (map (cut_segment c) segs)"
  have "in_ranges p ?segs \<longleftrightarrow> in_ranges p segs \<and> \<not> (rg_lo c \<le> p \<and> p \<le> rg_hi c)" and pr: "list_all proper ?segs"
    using Cons.prems cut_segment_exact [of c] unfolding in_ranges_concat
    by (auto simp: in_ranges_set [of p segs] list_all_iff)
  with Cons.IH [of ?segs] Cons.prems show ?case by auto
qed

lemma subtractRanges_exact:
  assumes "list_all proper base" and "list_all proper cuts"
  shows "in_ranges p (subtractRanges base cuts) \<longleftrightarrow> in_ranges p base \<and> \<not> in_ranges p cuts"
    and "list_all proper (subtractRanges base cuts)"
proof -
  have "\<And>b. b \<in> set base \<Longrightarrow> (in_ranges p (foldl (\<lambda>segs c. concat (map (cut_segment c) segs)) [b] cuts) \<longleftrightarrow>
      (rg_lo b \<le> p \<and> p \<le> rg_hi b) \<and> \<not> in_ranges p cuts) \<and>
    list_all proper (foldl (\<lambda>segs c. concat (map (cut_segment c) segs)) [b] cuts)"
    using cut_all_exact [OF assms(2), of "[_]" p] assms(1) by (auto simp: list_all_iff)
  then show "in_ranges p (subtractRanges base cuts) \<longleftrightarrow> in_ranges p base \<and> \<not> in_ranges p cuts"
    "list_all proper (subtractRanges base cuts)"
    unfolding subtractRanges_def in_ranges_concat by (auto simp: in_ranges_set [of p base] list_all_iff)
qed

text \<open>The port set of a protocol, as written for nftables: it denotes exactly the ports of the rows of that
  protocol, and its intervals are in order, none empty, none overlapping or touching the one after it, whatever overlaps
  the rows have.\<close>

theorem port_set_exact:
  "\<exists>rs. spec_ports s proto = map (\<lambda>r. portSpec (rg_lo r) (rg_hi r)) rs \<and> sorted_wrt apart rs \<and> list_all proper rs \<and>
     (\<forall>p. in_ranges p rs \<longleftrightarrow> (\<exists>sv. sv \<in> set (sp_Services s) \<and> EqualFold (ps_Proto sv) proto \<and> covers_port sv p))"
proof -
  let ?rows = "filter (\<lambda>sv. EqualFold (ps_Proto sv) proto) (sp_Services s)"
  have pr: "list_all proper (map service_range ?rows)" by (simp add: list_all_iff)
  show ?thesis
    by (rule exI [of _ "merge_ranges (map service_range ?rows)"])
      (use merge_ranges_exact [OF pr] in \<open>auto simp: spec_ports_def mergePorts_def in_service_ranges\<close>)
qed

section \<open>The connection limits\<close>

lemma shared_ranges_exact:
  "in_ranges p (shared_ranges s ov) \<longleftrightarrow>
     (\<exists>sv. sv \<in> set (sp_Services s) \<and> EqualFold (ps_Proto sv) ''tcp'' \<and> \<not> ov sv \<and> covers_port sv p) \<and>
     \<not> (\<exists>sv. sv \<in> set (sp_Services s) \<and> EqualFold (ps_Proto sv) ''tcp'' \<and> ov sv \<and> covers_port sv p)"
  "list_all proper (shared_ranges s ov)"
proof -
  have pr: "\<And>svs. list_all proper (map service_range svs)" by (simp add: list_all_iff)
  show "in_ranges p (shared_ranges s ov) \<longleftrightarrow>
     (\<exists>sv. sv \<in> set (sp_Services s) \<and> EqualFold (ps_Proto sv) ''tcp'' \<and> \<not> ov sv \<and> covers_port sv p) \<and>
     \<not> (\<exists>sv. sv \<in> set (sp_Services s) \<and> EqualFold (ps_Proto sv) ''tcp'' \<and> ov sv \<and> covers_port sv p)"
    unfolding shared_ranges_def Let_def subtractRanges_exact(1) [OF pr pr] in_service_ranges by auto
  show "list_all proper (shared_ranges s ov)"
    unfolding shared_ranges_def Let_def by (rule subtractRanges_exact(2) [OF pr pr])
qed

text \<open>C33. The connection limits divide the published TCP ports: a port stands in the shared rule of a limit exactly when a
  TCP row without an override publishes it and no overriding row does, so a port with an override faces that
  override alone, every other published TCP port faces the shared limit, and the shared set is one nftables accepts.\<close>

theorem conn_limit_partition:
  "\<exists>rs. sharedConnPorts s ov = map (\<lambda>r. portSpec (rg_lo r) (rg_hi r)) rs \<and> sorted_wrt apart rs \<and> list_all proper rs \<and>
     (\<forall>p. (\<exists>sv. sv \<in> set (sp_Services s) \<and> EqualFold (ps_Proto sv) ''tcp'' \<and> covers_port sv p) \<longleftrightarrow>
        (in_ranges p rs \<noteq> (\<exists>sv. sv \<in> set (sp_Services s) \<and> EqualFold (ps_Proto sv) ''tcp'' \<and> ov sv \<and> covers_port sv p)))"
proof -
  have m: "\<And>p. in_ranges p (merge_ranges (shared_ranges s ov)) \<longleftrightarrow> in_ranges p (shared_ranges s ov)"
    by (rule merge_ranges_exact(1)) (rule shared_ranges_exact(2))
  show ?thesis
    by (rule exI [of _ "merge_ranges (shared_ranges s ov)"])
      (use merge_ranges_exact(2,3) [OF shared_ranges_exact(2)] in
        \<open>auto simp: sharedConnPorts_def mergePorts_def m shared_ranges_exact(1)\<close>)
qed

section \<open>Names\<close>

lemma uniqueName_from_fresh: "uniqueName_from taken base n \<notin> set taken"
  by (induction taken base n rule: uniqueName_from.induct) (subst uniqueName_from.simps, simp)

lemma uniqueName_from_base: "\<exists>k. uniqueName_from taken base n = suffixed base k"
  by (induction taken base n rule: uniqueName_from.induct) (subst uniqueName_from.simps, auto)

lemma uniqueName_spec:
  assumes "uniqueName taken base = (name, taken')"
  shows "name \<notin> set taken \<and> taken' = name # taken \<and> (\<exists>x. name = base @ x)"
  using assms uniqueName_from_fresh [of taken base 2] uniqueName_from_base [of taken base 2]
  by (auto simp: uniqueName_def Let_def suffixed_def split: if_splits)

lemma uniqueName_fold:
  assumes "uniqueName taken (foldSetName pre nm) = (name, taken')"
  shows "name \<notin> set taken \<and> taken' = name # taken \<and> (\<exists>x. name = pre @ x)"
proof -
  have *: "name \<notin> set taken \<and> taken' = name # taken \<and> (\<exists>x. name = foldSetName pre nm @ x)"
    using assms by (rule uniqueName_spec)
  then obtain x where "name = foldSetName pre nm @ x" by blast
  then have "\<exists>x. name = pre @ x" unfolding foldSetName_def by auto
  with * show ?thesis by blast
qed

definition override_sets :: "connOverride list \<Rightarrow> string list" where
  "override_sets ovs = concat (map (\<lambda>ov. filter (\<lambda>n. n \<noteq> []) [co_rateSet ov, co_countSet ov]) ovs)"

lemma override_sets_simps [simp]:
  "override_sets [] = []"
  "override_sets (ov # ovs) = filter (\<lambda>n. n \<noteq> []) [co_rateSet ov, co_countSet ov] @ override_sets ovs"
  by (simp_all add: override_sets_def)

lemma conn_override_spec:
  assumes "conn_override taken sv = (ov, taken')"
  shows "co_svc ov = sv \<and> (co_rateSet ov \<noteq> [] \<longleftrightarrow> overridesConnRate sv) \<and> (co_countSet ov \<noteq> [] \<longleftrightarrow> overridesConnCount sv) \<and>
    set taken' = set (filter (\<lambda>n. n \<noteq> []) [co_rateSet ov, co_countSet ov]) \<union> set taken \<and>
    distinct (filter (\<lambda>n. n \<noteq> []) [co_rateSet ov, co_countSet ov]) \<and>
    set (filter (\<lambda>n. n \<noteq> []) [co_rateSet ov, co_countSet ov]) \<inter> set taken = {} \<and>
    ''conn_rate'' \<notin> set (filter (\<lambda>n. n \<noteq> []) [co_rateSet ov, co_countSet ov]) \<and>
    ''conn_count'' \<notin> set (filter (\<lambda>n. n \<noteq> []) [co_rateSet ov, co_countSet ov])"
proof -
  obtain rate taken1 where r: "(if overridesConnRate sv then uniqueName taken (foldSetName ''conn_rate_'' (ps_Name sv))
      else ('''', taken)) = (rate, taken1)" by (meson surj_pair)
  obtain cnt taken2 where c: "(if overridesConnCount sv then uniqueName taken1 (foldSetName ''conn_count_'' (ps_Name sv))
      else ('''', taken1)) = (cnt, taken2)" by (meson surj_pair)
  have ov: "ov = \<lparr>co_svc = sv, co_rateSet = rate, co_countSet = cnt\<rparr>" "taken' = taken2"
    using assms c unfolding conn_override_def r Let_def prod.case by (simp_all split: prod.splits)
  have R: "if overridesConnRate sv then rate \<notin> set taken \<and> taken1 = rate # taken \<and> (\<exists>x. rate = ''conn_rate_'' @ x)
           else rate = [] \<and> taken1 = taken"
    using r uniqueName_fold [of taken _ _ rate taken1] by (cases "overridesConnRate sv") (simp_all del: append.simps)
  have C: "if overridesConnCount sv then cnt \<notin> set taken1 \<and> taken2 = cnt # taken1 \<and> (\<exists>x. cnt = ''conn_count_'' @ x)
           else cnt = [] \<and> taken2 = taken1"
    using c uniqueName_fold [of taken1 _ _ cnt taken2] by (cases "overridesConnCount sv") (simp_all del: append.simps)
  show ?thesis using R C unfolding ov by (auto split: if_splits)
qed

lemma connOverrides_loop_spec:
  "map co_svc (connOverrides_loop taken svs) = filter (\<lambda>sv. overridesConnRate sv \<or> overridesConnCount sv) svs \<and>
   list_all (\<lambda>ov. (co_rateSet ov \<noteq> [] \<longleftrightarrow> overridesConnRate (co_svc ov)) \<and>
     (co_countSet ov \<noteq> [] \<longleftrightarrow> overridesConnCount (co_svc ov))) (connOverrides_loop taken svs) \<and>
   distinct (override_sets (connOverrides_loop taken svs)) \<and>
   set (override_sets (connOverrides_loop taken svs)) \<inter> set taken = {} \<and>
   ''conn_rate'' \<notin> set (override_sets (connOverrides_loop taken svs)) \<and>
   ''conn_count'' \<notin> set (override_sets (connOverrides_loop taken svs))"
proof (induction taken svs rule: connOverrides_loop.induct)
  case (1 taken)
  show ?case by simp
next
  case (2 taken sv svs)
  show ?case
  proof (cases "\<not> overridesConnRate sv \<and> \<not> overridesConnCount sv")
    case True
    then show ?thesis using 2(1) by simp
  next
    case False
    obtain ov taken' where ov: "conn_override taken sv = (ov, taken')" by (meson surj_pair)
    have eq: "connOverrides_loop taken (sv # svs) = ov # connOverrides_loop taken' svs"
      using False ov by (auto simp only: connOverrides_loop.simps Let_def prod.case if_False)
    have flt: "filter (\<lambda>sv. overridesConnRate sv \<or> overridesConnCount sv) (sv # svs) =
        sv # filter (\<lambda>sv. overridesConnRate sv \<or> overridesConnCount sv) svs" using False by auto
    show ?thesis
      using 2(2) [OF False ov [symmetric] refl] conn_override_spec [OF ov] unfolding eq flt
      by (simp only: list.map list.pred_inject override_sets_simps distinct_append set_append) blast
  qed
qed

text \<open>The override sets: exactly the rows that override a limit get one, in the order of the rows, a set for each limit
  they override and none for the other; no two sets share a name, whatever the rows are called, and none is called like
  the shared sets.\<close>

theorem override_sets_unique:
  "map co_svc (connOverrides s) = filter (\<lambda>sv. overridesConnRate sv \<or> overridesConnCount sv) (sp_Services s) \<and>
   list_all (\<lambda>ov. (co_rateSet ov \<noteq> [] \<longleftrightarrow> overridesConnRate (co_svc ov)) \<and>
     (co_countSet ov \<noteq> [] \<longleftrightarrow> overridesConnCount (co_svc ov))) (connOverrides s) \<and>
   distinct ([''conn_rate'', ''conn_count''] @ override_sets (connOverrides s))"
  using connOverrides_loop_spec [of "[]" "sp_Services s"] by (auto simp: connOverrides_def)

section \<open>Networks\<close>

text \<open>A block of \<open>2 ^ k\<close> addresses that starts at a multiple of its size.\<close>

definition dyadic :: "block \<Rightarrow> bool" where
  "dyadic b \<longleftrightarrow> (\<exists>k. uint (bl_start b) mod 2 ^ k = 0 \<and> uint (bl_end b) = uint (bl_start b) + 2 ^ k - 1)"

lemma network_bounds:
  fixes s :: "32 word"
  assumes "take_bit k s = 0" and "k \<le> 32"
  shows "uint s mod 2 ^ k = 0" and "uint (s OR mask k) = uint s + 2 ^ k - 1"
proof -
  have "uint (take_bit k s) = 0" using assms by simp
  then have z: "take_bit k (uint s) = 0" using assms(2) by (simp add: unsigned_take_bit_eq)
  then show "uint s mod 2 ^ k = 0" by (simp add: take_bit_eq_mod)
  have m: "uint (mask k :: 32 word) = mask k"
    using assms(2) by (simp add: uint_mask_eq min_def)
  have "uint s AND mask k = 0" using z by (simp add: take_bit_eq_mask)
  then have "uint s OR mask k = uint s + mask k" by (simp add: disjunctive_add_eq_or)
  then show "uint (s OR mask k) = uint s + 2 ^ k - 1" using m by (simp add: unsigned_or_eq mask_eq_exp_minus_1)
qed

lemma dyadic_nest:
  assumes "dyadic a" and "dyadic b" and "uint (bl_start a) \<le> uint (bl_start b)"
    and "uint (bl_start a) = uint (bl_start b) \<Longrightarrow> uint (bl_end b) \<le> uint (bl_end a)"
  shows "uint (bl_end b) \<le> uint (bl_end a) \<or> uint (bl_end a) < uint (bl_start b)"
proof -
  obtain k where k: "uint (bl_start a) mod 2 ^ k = 0" "uint (bl_end a) = uint (bl_start a) + 2 ^ k - 1"
    using assms(1) unfolding dyadic_def by auto
  obtain l where l: "uint (bl_start b) mod 2 ^ l = 0" "uint (bl_end b) = uint (bl_start b) + 2 ^ l - 1"
    using assms(2) unfolding dyadic_def by auto
  define x where "x = uint (bl_start a) div 2 ^ k"
  have x: "uint (bl_start a) = x * 2 ^ k" using k(1) unfolding x_def by (metis div_mult_mod_eq add_0_right)
  show ?thesis
  proof (cases "l \<le> k")
    case True
    then obtain d where d: "k = l + d" using le_Suc_ex by blast
    define y where "y = uint (bl_start b) div 2 ^ l"
    have y: "uint (bl_start b) = y * 2 ^ l" using l(1) unfolding y_def by (metis div_mult_mod_eq add_0_right)
    have p: "(0::int) < 2 ^ l" by simp
    have xk: "x * 2 ^ k = (x * 2 ^ d) * 2 ^ l" "(2::int) ^ k = 2 ^ d * 2 ^ l" unfolding d by (simp_all add: power_add)
    show ?thesis
    proof (cases "y < x * 2 ^ d + 2 ^ d")
      case True
      then have "(y + 1) * 2 ^ l \<le> (x * 2 ^ d + 2 ^ d) * 2 ^ l" by (intro mult_right_mono) simp_all
      then have "uint (bl_end b) \<le> uint (bl_end a)"
        using k(2) l(2) x y xk by (simp add: distrib_right)
      then show ?thesis ..
    next
      case False
      then have "(x * 2 ^ d + 2 ^ d) * 2 ^ l \<le> y * 2 ^ l" by (intro mult_right_mono) simp_all
      then have "uint (bl_end a) < uint (bl_start b)"
        using k(2) x y xk by (simp add: distrib_right)
      then show ?thesis ..
    qed
  next
    case False
    then obtain d where d: "l = k + d" using le_Suc_ex by (metis nat_le_linear)
    have "uint (bl_start b) mod 2 ^ k = 0" using l(1) unfolding d
      by (metis dvd_eq_mod_eq_0 dvd_power_le dvd_refl dvd_trans le_add1)
    then obtain y where y: "uint (bl_start b) = y * 2 ^ k" by (metis div_mult_mod_eq add_0_right)
    show ?thesis
    proof (cases "y \<le> x")
      case True
      then have "y * 2 ^ k \<le> x * 2 ^ k" by (intro mult_right_mono) simp_all
      then show ?thesis using assms(3,4) x y by linarith
    next
      case False
      then have "(x + 1) * 2 ^ k \<le> y * 2 ^ k" by (intro mult_right_mono) simp_all
      then show ?thesis using k(2) x y by (simp add: distrib_right)
    qed
  qed
qed

definition in_block :: "32 word \<Rightarrow> block \<Rightarrow> bool" where
  "in_block a b \<longleftrightarrow> uint (bl_start b) \<le> uint a \<and> uint a \<le> uint (bl_end b)"

definition block_key :: "block \<Rightarrow> int \<times> int" where
  "block_key b = (uint (bl_start b), - uint (bl_end b))"

lemma keep_blocks_exact:
  assumes "list_all dyadic bs" and "sorted (map block_key bs)"
    and "\<And>b. b \<in> set bs \<Longrightarrow> uint (bl_end b) \<le> lastEnd \<or> lastEnd < uint (bl_start b)"
  shows "(list_ex (in_block a) (keep_blocks lastEnd bs) \<longleftrightarrow> list_ex (\<lambda>b. in_block a b \<and> lastEnd < uint (bl_end b)) bs) \<and>
    sorted_wrt (\<lambda>b c. uint (bl_end b) < uint (bl_start c)) (keep_blocks lastEnd bs) \<and>
    list_all (\<lambda>b. lastEnd < uint (bl_start b)) (keep_blocks lastEnd bs) \<and> set (keep_blocks lastEnd bs) \<subseteq> set bs"
  using assms
proof (induction lastEnd bs rule: keep_blocks.induct)
  case (1 lastEnd)
  then show ?case by simp
next
  case (2 lastEnd b bs)
  show ?case
  proof (cases "uint (bl_end b) \<le> lastEnd")
    case True
    then show ?thesis using 2(1) [OF True] 2(3-5) by auto
  next
    case False
    have nest: "uint (bl_end c) \<le> uint (bl_end b) \<or> uint (bl_end b) < uint (bl_start c)" if c: "c \<in> set bs" for c
    proof (rule dyadic_nest)
      show "dyadic b" "dyadic c" using 2(3) c by (auto simp: list_all_iff)
      have "block_key b \<le> block_key c" using 2(4) c by simp
      then show "uint (bl_start b) \<le> uint (bl_start c)"
        "uint (bl_start b) = uint (bl_start c) \<Longrightarrow> uint (bl_end c) \<le> uint (bl_end b)"
        by (auto simp: block_key_def)
    qed
    have ih: "(list_ex (in_block a) (keep_blocks (uint (bl_end b)) bs) \<longleftrightarrow> list_ex (\<lambda>c. in_block a c \<and> uint (bl_end b) < uint (bl_end c)) bs) \<and>
      sorted_wrt (\<lambda>b c. uint (bl_end b) < uint (bl_start c)) (keep_blocks (uint (bl_end b)) bs) \<and>
      list_all (\<lambda>c. uint (bl_end b) < uint (bl_start c)) (keep_blocks (uint (bl_end b)) bs) \<and>
      set (keep_blocks (uint (bl_end b)) bs) \<subseteq> set bs"
      using 2(2) [OF False] 2(3,4) nest by auto
    have start: "lastEnd < uint (bl_start b)" using 2(5) [of b] False by auto
    have inside: "in_block a b" if "c \<in> set bs" "in_block a c" "uint (bl_end c) \<le> uint (bl_end b)" for c
    proof -
      have "block_key b \<le> block_key c" using 2(4) that(1) by simp
      then have "uint (bl_start b) \<le> uint (bl_start c)" by (auto simp: block_key_def)
      with that show ?thesis by (simp add: in_block_def)
    qed
    have "list_ex (in_block a) (b # keep_blocks (uint (bl_end b)) bs) \<longleftrightarrow>
        list_ex (\<lambda>b. in_block a b \<and> lastEnd < uint (bl_end b)) (b # bs)"
      using ih False inside by (fastforce simp: list_ex_iff)
    then show ?thesis using ih False start 2(3)
      by (auto simp: list_all_iff)
  qed
qed

lemma parse_block_spec:
  assumes "parse_block c = Some b"
  shows "dyadic b" and "parse_block (bl_text b) = Some b"
proof -
  obtain ip n where p: "ParseCIDR4 (TrimSpace c) = Some (ip, n)"
    and b: "b = \<lparr>bl_start = ip, bl_end = ip OR drop_bit n (- 1), bl_text = net_String ip n\<rparr>"
    using assms by (auto simp: parse_block_def)
  obtain ip' where ip': "ip = ip' AND prefix_mask n" and n: "n \<le> 32"
    using p by (auto simp: ParseCIDR4_def Let_def split: option.splits if_splits)
  have "uint ip mod 2 ^ (32 - n) = 0" "uint (ip OR mask (32 - n)) = uint ip + 2 ^ (32 - n) - 1"
    using network_bounds [OF network_start, of n ip'] unfolding ip' by simp_all
  then show "dyadic b" unfolding dyadic_def b ones_mask by auto
  have idem: "ip AND prefix_mask n = ip" unfolding ip' by (simp add: and.assoc)
  show "parse_block (bl_text b) = Some b"
    by (simp add: b parse_block_def TrimSpace_net parse_net_String [OF idem n])
qed

definition covers_addr :: "32 word \<Rightarrow> string \<Rightarrow> bool" where
  "covers_addr a c \<longleftrightarrow> (case parse_block c of None \<Rightarrow> False | Some b \<Rightarrow> in_block a b)"

lemma set_map_filter_parse: "b \<in> set (List.map_filter parse_block cidrs) \<longleftrightarrow> (\<exists>c \<in> set cidrs. parse_block c = Some b)"
  by (induction cidrs) (auto simp: List.map_filter_simps split: option.splits)

lemma list_ex_parsed: "list_ex (in_block a) (List.map_filter parse_block cidrs) \<longleftrightarrow> list_ex (covers_addr a) cidrs"
  by (induction cidrs) (auto simp: List.map_filter_simps covers_addr_def split: option.splits)

lemma uint_ge_minus_1: "- 1 < uint (w :: 32 word)"
  using uint_ge_0 [of w] by linarith

lemma mergeCIDRs_blocks_exact:
  "(list_ex (in_block a) (mergeCIDRs_blocks cidrs) \<longleftrightarrow> list_ex (in_block a) (List.map_filter parse_block cidrs)) \<and>
   sorted_wrt (\<lambda>b c. uint (bl_end b) < uint (bl_start c)) (mergeCIDRs_blocks cidrs) \<and>
   set (mergeCIDRs_blocks cidrs) \<subseteq> set (List.map_filter parse_block cidrs)"
proof -
  define bs where "bs = sort_key block_key (List.map_filter parse_block cidrs)"
  have eq: "mergeCIDRs_blocks cidrs = keep_blocks (- 1) bs"
    unfolding mergeCIDRs_blocks_def bs_def block_key_def ..
  have "list_all dyadic bs"
    using parse_block_spec(1) by (auto simp: bs_def list_all_iff set_map_filter_parse)
  moreover have "sorted (map block_key bs)" unfolding bs_def by (rule sorted_sort_key)
  ultimately have "(list_ex (in_block a) (keep_blocks (- 1) bs) \<longleftrightarrow> list_ex (\<lambda>b. in_block a b \<and> - 1 < uint (bl_end b)) bs) \<and>
      sorted_wrt (\<lambda>b c. uint (bl_end b) < uint (bl_start c)) (keep_blocks (- 1) bs) \<and>
      list_all (\<lambda>b. - 1 < uint (bl_start b)) (keep_blocks (- 1) bs) \<and> set (keep_blocks (- 1) bs) \<subseteq> set bs"
    by (rule keep_blocks_exact) (simp add: uint_ge_minus_1)
  moreover have "list_ex (\<lambda>b. in_block a b \<and> - 1 < uint (bl_end b)) bs \<longleftrightarrow> list_ex (in_block a) (List.map_filter parse_block cidrs)"
    unfolding bs_def by (simp add: list_ex_iff uint_ge_minus_1)
  moreover have "set bs = set (List.map_filter parse_block cidrs)" by (simp add: bs_def)
  ultimately show ?thesis unfolding eq by simp
qed

lemma mergeCIDRs_texts: "map parse_block (mergeCIDRs cidrs) = map Some (mergeCIDRs_blocks cidrs)"
proof -
  have "\<exists>c. parse_block c = Some b" if "b \<in> set (mergeCIDRs_blocks cidrs)" for b
  proof -
    have "b \<in> set (List.map_filter parse_block cidrs)" using that mergeCIDRs_blocks_exact by blast
    then show ?thesis by (auto simp: set_map_filter_parse)
  qed
  then show ?thesis using parse_block_spec(2) by (auto simp: mergeCIDRs_def)
qed

lemma covers_parsed: "map parse_block cs = map Some bs \<Longrightarrow> list_ex (covers_addr a) cs \<longleftrightarrow> list_ex (in_block a) bs"
proof (induction cs arbitrary: bs)
  case Nil
  then show ?case by simp
next
  case (Cons c cs)
  then obtain b bs' where "bs = b # bs'" "parse_block c = Some b" "map parse_block cs = map Some bs'" by auto
  with Cons.IH show ?case by (simp add: covers_addr_def)
qed

lemma mergeCIDRs_covers: "list_ex (covers_addr a) (mergeCIDRs cidrs) \<longleftrightarrow> list_ex (covers_addr a) cidrs"
  using mergeCIDRs_blocks_exact [of a cidrs] by (simp add: covers_parsed [OF mergeCIDRs_texts] list_ex_parsed)

text \<open>C34. A region's elements: the networks written into its set admit exactly the addresses of the networks the region
  lists (an entry that does not parse counts for nothing), each is the text of a network that reads back as
  itself, and no two share an address, so nftables accepts the set.\<close>

theorem region_elements_exact:
  "(list_ex (covers_addr a) (mergeCIDRs cidrs) \<longleftrightarrow> list_ex (covers_addr a) cidrs) \<and>
   (\<exists>bs. map parse_block (mergeCIDRs cidrs) = map Some bs \<and> sorted_wrt (\<lambda>b c. uint (bl_end b) < uint (bl_start c)) bs)"
  using mergeCIDRs_covers mergeCIDRs_texts mergeCIDRs_blocks_exact by blast

end
