(* ===== verification/ValidateProps.thy ===== *)
theory ValidateProps
  imports Validate ProtectProps
begin

text \<open>
  What a configuration that got through the door is worth: the identities of its paths are apart, a published port
  belongs to one row, every region lock it carries becomes a live rule of the edge filter, and it gets through the
  door again unchanged.
\<close>

section \<open>The loops\<close>

lemma each_all:
  assumes "each f s xs = Inr (s', ys)" and "\<And>s x s1 y. f s x = Inr (s1, y) \<Longrightarrow> Q y"
  shows "list_all Q ys"
  using assms(1)
proof (induction xs arbitrary: s ys)
  case Nil
  then show ?case by simp
next
  case (Cons x xs)
  then show ?case using assms(2) by (auto split: sum.splits)
qed

lemma each_length:
  assumes "each f s xs = Inr (s', ys)"
  shows "length ys = length xs"
  using assms by (induction xs arbitrary: s ys) (auto split: sum.splits)

lemma each_map:
  assumes "each f s xs = Inr (s', ys)" and "\<And>s x s1 y. f s x = Inr (s1, y) \<Longrightarrow> h y = h x"
  shows "map h ys = map h xs"
  using assms(1)
proof (induction xs arbitrary: s ys)
  case Nil
  then show ?case by simp
next
  case (Cons x xs)
  then show ?case using assms(2) by (auto split: sum.splits)
qed

lemma each_distinct:
  assumes "each f s xs = Inr (s', ys)"
    and "\<And>s x s1 y. f s x = Inr (s1, y) \<Longrightarrow> k y \<notin> set (acc s) \<and> acc s1 = k y # acc s"
  shows "distinct (map k ys) \<and> set (map k ys) \<inter> set (acc s) = {} \<and> set (acc s') = set (map k ys) \<union> set (acc s)"
  using assms(1)
proof (induction xs arbitrary: s ys)
  case Nil
  then show ?case by simp
next
  case (Cons x xs)
  then obtain s1 y ys' where 1: "f s x = Inr (s1, y)" and 2: "each f s1 xs = Inr (s', ys')" and ys: "ys = y # ys'"
    by (auto split: sum.splits)
  from Cons.IH [OF 2] assms(2) [OF 1] show ?case unfolding ys by auto
qed

lemma each_idem:
  assumes "each f s xs = Inr (s', ys)" and "\<And>s x s1 y. f s x = Inr (s1, y) \<Longrightarrow> g s y = Inr (s1, y)"
  shows "each g s ys = Inr (s', ys)"
  using assms(1)
proof (induction xs arbitrary: s ys)
  case Nil
  then show ?case by simp
next
  case (Cons x xs)
  then show ?case using assms(2) by (auto split: sum.splits)
qed

section \<open>Paths\<close>

definition path_ok :: "PathConfig \<Rightarrow> bool" where
  "path_ok p \<longleftrightarrow> 0 < p_ID p \<and> p_ID p < ProbeDenyBandSize \<and> 0 < p_Table p \<and> p_Table p \<le> 252 \<and> p_Table p \<noteq> ControlTable \<and>
     p_Mark p \<noteq> 0 \<and> p_Mark p \<notin> set reserved_marks \<and> TrimSpace (p_Name p) \<noteq> [] \<and> TrimSpace (p_Iface p) \<noteq> [] \<and>
     ifaceName (p_Iface p) = None"

definition quota_ok :: "Quota \<Rightarrow> bool" where
  "quota_ok q \<longleftrightarrow> cal_of (q_Calibration q) = q_Calibration q \<and> 0 \<le> q_OverheadPerPacket q \<and>
     q_OverheadPerPacket q \<le> MaxOverheadPerPacket \<and> 1 \<le> q_ResetDay q \<and> q_Timezone q \<noteq> [] \<and>
     (q_CeilingBytes q \<le> 0 \<or> q_LimitBytes q \<le> q_CeilingBytes q) \<and> q_LimitBytes q \<le> MaxLedgerValue \<and>
     q_CeilingBytes q \<le> MaxLedgerValue"

definition wf_paths :: "PathConfig list \<Rightarrow> bool" where
  "wf_paths ps \<longleftrightarrow> ps \<noteq> [] \<and> distinct (map p_ID ps) \<and> distinct (map p_Table ps) \<and> distinct (map p_Iface ps) \<and>
     distinct (map p_Mark ps) \<and> list_all path_ok ps \<and> list_all (\<lambda>p. quota_ok (p_Quota p)) ps"

lemma validate_identity_ok:
  assumes "validate_identity sn p = None"
  shows "path_ok p \<and> p_ID p \<notin> set (sn_ids sn) \<and> p_Table p \<notin> set (sn_tables sn) \<and> p_Iface p \<notin> set (sn_ifaces sn) \<and>
    p_Mark p \<notin> set (sn_marks sn)"
  using assms by (auto simp: validate_identity_def path_ok_def split: if_splits option.splits)

lemma validate_quota_ok:
  assumes "validate_quota tz q = Inr q'"
  shows "quota_ok q' \<and> validate_quota tz q' = Inr q'"
proof -
  define c where "c = (if fle (q_Calibration q) (Fin 0) then Fin 100 else q_Calibration q)"
  define d where "d = (if q_ResetDay q < 1 then 1 else q_ResetDay q)"
  define z where "z = (if q_Timezone q = [] then DefaultTimezone else q_Timezone q)"
  define r where "r = \<lparr>q_LimitBytes = q_LimitBytes q, q_CeilingBytes = q_CeilingBytes q, q_ResetDay = d, q_Timezone = z,
    q_Calibration = c, q_OverheadPerPacket = q_OverheadPerPacket q\<rparr>"
  have v: "validate_quota tz q =
     (if q_Calibration q = NaN then Inl (PathQuota CalibrationNaN)
      else if fgt c MaxCalibration \<or> flt c MinCalibration then Inl (PathQuota CalibrationRange)
      else if q_OverheadPerPacket q < 0 \<or> q_OverheadPerPacket q > MaxOverheadPerPacket then Inl (PathQuota OverheadRange)
      else if \<not> tz z then Inl (PathQuota BadTimezone)
      else if q_CeilingBytes q > 0 \<and> q_CeilingBytes q < q_LimitBytes q then Inl (PathQuota CeilingBelowLimit)
      else if q_LimitBytes q > MaxLedgerValue \<or> q_CeilingBytes q > MaxLedgerValue then Inl (PathQuota QuotaTooLarge)
      else Inr r)"
    by (cases q) (simp only: validate_quota_def Let_def r_def c_def d_def z_def Quota.select_convs Quota.update_convs)
  have ok: "q_Calibration q \<noteq> NaN" "\<not> fgt c MaxCalibration" "\<not> flt c MinCalibration" "0 \<le> q_OverheadPerPacket q"
    "q_OverheadPerPacket q \<le> MaxOverheadPerPacket" "tz z" "q_CeilingBytes q \<le> 0 \<or> q_LimitBytes q \<le> q_CeilingBytes q"
    "q_LimitBytes q \<le> MaxLedgerValue" "q_CeilingBytes q \<le> MaxLedgerValue" and q': "q' = r"
    using assms unfolding v by (auto split: if_splits)
  have cn: "c \<noteq> NaN" and cp: "\<not> fle c (Fin 0)" using ok(1) by (auto simp: c_def)
  have dz: "1 \<le> d" "z \<noteq> []" by (simp_all add: d_def z_def DefaultTimezone_def)
  have "quota_ok r" using ok cn dz by (simp add: quota_ok_def cal_of_def r_def)
  moreover have "validate_quota tz r = Inr r"
    using ok cn cp dz by (auto simp: validate_quota_def r_def)
  ultimately show ?thesis unfolding q' ..
qed

lemma validate_path_step:
  assumes "validate_path tz sn p = Inr (sn', p')"
  shows "path_ok p' \<and> quota_ok (p_Quota p') \<and> validate_path tz sn p' = Inr (sn', p') \<and>
    p_ID p' \<notin> set (sn_ids sn) \<and> sn_ids sn' = p_ID p' # sn_ids sn \<and>
    p_Table p' \<notin> set (sn_tables sn) \<and> sn_tables sn' = p_Table p' # sn_tables sn \<and>
    p_Iface p' \<notin> set (sn_ifaces sn) \<and> sn_ifaces sn' = p_Iface p' # sn_ifaces sn \<and>
    p_Mark p' \<notin> set (sn_marks sn) \<and> sn_marks sn' = p_Mark p' # sn_marks sn \<and> p' = p\<lparr>p_Quota := p_Quota p'\<rparr>"
proof -
  obtain q where i: "validate_identity sn p = None" and q: "validate_quota tz (p_Quota p) = Inr q"
    and sn': "sn' = \<lparr>sn_ids = p_ID p # sn_ids sn, sn_tables = p_Table p # sn_tables sn,
                    sn_ifaces = p_Iface p # sn_ifaces sn, sn_marks = p_Mark p # sn_marks sn\<rparr>" and p': "p' = p\<lparr>p_Quota := q\<rparr>"
    using assms by (auto simp: validate_path_def split: option.splits sum.splits)
  have "validate_identity sn p' = validate_identity sn p"
    unfolding p' by (cases p) (simp only: validate_identity_def PathConfig.select_convs PathConfig.update_convs)
  then have i': "validate_identity sn p' = None" using i by simp
  show ?thesis
    using validate_identity_ok [OF i'] validate_quota_ok [OF q] i' unfolding sn' p'
    by (simp add: validate_path_def)
qed

lemma validate_paths_wf:
  assumes "each (validate_path tz) nothing_seen ps = Inr (sn, ps')" and "ps \<noteq> []"
  shows "wf_paths ps'"
proof -
  have "ps' \<noteq> []" using each_length [OF assms(1)] assms(2) by auto
  moreover have "distinct (map p_ID ps')"
    using each_distinct [OF assms(1), of p_ID sn_ids] validate_path_step by blast
  moreover have "distinct (map p_Table ps')"
    using each_distinct [OF assms(1), of p_Table sn_tables] validate_path_step by blast
  moreover have "distinct (map p_Iface ps')"
    using each_distinct [OF assms(1), of p_Iface sn_ifaces] validate_path_step by blast
  moreover have "distinct (map p_Mark ps')"
    using each_distinct [OF assms(1), of p_Mark sn_marks] validate_path_step by blast
  moreover have "list_all path_ok ps'" "list_all (\<lambda>p. quota_ok (p_Quota p)) ps'"
    by (rule each_all [OF assms(1)]; use validate_path_step in blast)+
  ultimately show ?thesis unfolding wf_paths_def by blast
qed

section \<open>Services\<close>

text \<open>How many enabled rows of a protocol publish a port.\<close>

definition publishes :: "string \<Rightarrow> int \<Rightarrow> Service \<Rightarrow> bool" where
  "publishes proto p sv \<longleftrightarrow> sv_Enabled sv \<and> sv_Proto sv = proto \<and> sv_Port sv \<le> p \<and> p \<le> max (sv_Port sv) (sv_PortEnd sv)"

lemma rows_overlap_publish: "publishes proto p a \<Longrightarrow> publishes proto p b \<Longrightarrow> rows_overlap a b"
  by (auto simp: publishes_def rows_overlap_def)

lemma validate_overlaps_ok:
  assumes "validate_overlaps before svs = None" and "length (filter (publishes proto p) before) \<le> 1"
  shows "length (filter (publishes proto p) (before @ svs)) \<le> 1"
  using assms
proof (induction before svs rule: validate_overlaps.induct)
  case (1 before)
  then show ?case by simp
next
  case (2 before a rest)
  have ok: "\<not> (sv_Enabled a \<and> list_ex (rows_overlap a) before)" and rest: "validate_overlaps (before @ [a]) rest = None"
    using 2(2) by (auto split: if_splits)
  have "filter (publishes proto p) before = []" if "publishes proto p a"
  proof -
    have "\<not> list_ex (rows_overlap a) before" using ok that by (auto simp: publishes_def)
    then show ?thesis using rows_overlap_publish [OF that] by (auto simp: filter_empty_conv list_ex_iff)
  qed
  then have "length (filter (publishes proto p) (before @ [a])) \<le> 1" using 2(3) by auto
  from 2(1) [OF ok rest this] show ?case by simp
qed

definition row_ok :: "Service \<Rightarrow> bool" where
  "row_ok sv \<longleftrightarrow> (sv_Proto sv = ''tcp'' \<or> sv_Proto sv = ''udp'') \<and> 1 \<le> sv_Port sv \<and> sv_Port sv \<le> 65535 \<and>
     (sv_PortEnd sv = 0 \<or> (sv_Port sv \<le> sv_PortEnd sv \<and> sv_PortEnd sv \<le> 65535)) \<and>
     0 \<le> sv_CeilingPPS sv \<and> 0 \<le> sv_NewConnsPerSec sv \<and> 0 \<le> sv_MaxConnsPerSource sv \<and> 0 \<le> sv_GeoAutoPPS sv"

lemma validate_refs_ok:
  assumes "validate_refs st seen ns = Inr refs"
  shows "distinct refs \<and> set refs \<inter> set seen = {} \<and> set refs \<subseteq> set (rs_networks st) \<and> set refs \<subseteq> set (rs_defined st) \<and>
    [] \<notin> set refs \<and> list_all (\<lambda>n. TrimSpace n = n) refs"
  using assms
proof (induction st seen ns arbitrary: refs rule: validate_refs.induct)
  case (1 st seen)
  then show ?case by simp
next
  case (2 st seen n ns)
  show ?case
  proof (cases "TrimSpace n = [] \<or> TrimSpace n \<in> set seen")
    case True
    then show ?thesis using 2(1) [OF refl] 2(3) by (auto simp: Let_def)
  next
    case False
    obtain rest where d: "TrimSpace n \<in> set (rs_defined st)" "TrimSpace n \<in> set (rs_networks st)"
      and r: "validate_refs st (TrimSpace n # seen) ns = Inr rest" and refs: "refs = TrimSpace n # rest"
      using 2(3) False by (auto simp: Let_def split: if_splits sum.splits)
    have "TrimSpace (TrimSpace n) = TrimSpace n" by (rule TrimSpace_idem)
    with 2(2) [OF refl False _ _ r] d False show ?thesis unfolding refs by auto
  qed
qed

lemma validate_service_ok:
  assumes "validate_service cfg linkers st u sv = Inr (u', sv')"
  shows "row_ok sv' \<and> set (sv_GeoRegions sv') \<subseteq> set (rs_networks st) \<and> (sv_Target sv' = [] \<or> overlayContains (c_Overlay cfg) (sv_Target sv'))"
proof -
  obtain refs where row: "validate_row cfg (sv\<lparr>sv_Name := TrimSpace (sv_Name sv)\<rparr>) = None"
    and target: "validate_target cfg linkers (TrimSpace (sv_Target sv)) = None"
    and refs: "validate_refs st [] (sv_GeoRegions sv) = Inr refs" and pps: "0 \<le> sv_GeoAutoPPS sv"
    and sv': "sv' = (let sv = sv\<lparr>sv_Name := TrimSpace (sv_Name sv), sv_Target := TrimSpace (sv_Target sv), sv_GeoRegions := refs\<rparr>
      in if refs = [] then sv\<lparr>sv_GeoBlock := False\<rparr> else sv)"
    using assms unfolding validate_service_def Let_def
    by (auto split: option.splits sum.splits if_splits)
  have "row_ok sv'"
    using row pps unfolding sv' validate_row_def row_ok_def by (auto simp: Let_def split: if_splits)
  moreover have "set (sv_GeoRegions sv') \<subseteq> set (rs_networks st)"
    using validate_refs_ok [OF refs] unfolding sv' by (simp add: Let_def)
  moreover have "sv_Target sv' = [] \<or> overlayContains (c_Overlay cfg) (sv_Target sv')"
    using target unfolding sv' validate_target_def by (auto simp: Let_def split: if_splits)
  ultimately show ?thesis by blast
qed

section \<open>Regions\<close>

lemma ParseCIDR4_net:
  assumes "ParseCIDR4 c = Some (ip, n)"
  shows "ParseCIDR4 (net_String ip n) = Some (ip, n)"
proof -
  obtain ip' where ip': "ip = ip' AND prefix_mask n" and n: "n \<le> 32"
    using assms by (auto simp: ParseCIDR4_def Let_def split: option.splits if_splits)
  have "ip AND prefix_mask n = ip" unfolding ip' by (simp add: and.assoc)
  then show ?thesis by (rule parse_net_String) (rule n)
qed

definition canonical_net :: "string \<Rightarrow> bool" where
  "canonical_net c \<longleftrightarrow> TrimSpace c = c \<and> CHR ''/'' \<in> set c \<and> c \<noteq> [] \<and> parseIPv4Network c = Inr c \<and> parse_block c \<noteq> None"

lemma parseIPv4Network_canonical:
  assumes "parseIPv4Network c = Inr netw"
  shows "canonical_net netw"
proof -
  obtain ip n where p: "ParseCIDR4 c = Some (ip, n)" and netw: "netw = net_String ip n"
    using assms by (auto simp: parseIPv4Network_def split: option.splits)
  have "ParseCIDR4 netw = Some (ip, n)" unfolding netw by (rule ParseCIDR4_net [OF p])
  then show ?thesis
    by (simp add: canonical_net_def parseIPv4Network_def parse_block_def netw TrimSpace_net) (simp add: net_String_def)
qed

lemma cleanNetworkList_ok:
  assumes "cleanNetworkList cs = Inr out"
  shows "list_all canonical_net out"
  using assms
proof (induction cs arbitrary: out)
  case Nil
  then show ?case by simp
next
  case (Cons c cs)
  then show ?case
    using parseIPv4Network_canonical by (auto simp: Let_def split: if_splits sum.splits)
qed

lemma cleanNetworkList_canonical: "list_all canonical_net cs \<Longrightarrow> cleanNetworkList cs = Inr cs"
  by (induction cs) (auto simp: canonical_net_def)

lemma badCountryCode_lower:
  assumes "\<not> badCountryCode cc"
  shows "ToLower (TrimSpace cc) = cc"
proof -
  have l: "97 \<le> (of_char ch :: nat) \<and> (of_char ch :: nat) \<le> 122" if "ch \<in> set cc" for ch
    using assms that by (auto simp: badCountryCode_def list_all_iff)
  have nz: "cc \<noteq> []" using assms by (auto simp: badCountryCode_def byte_len_def)
  have ns: "\<not> is_space ch" if "ch \<in> set cc" for ch using l [OF that] by (auto simp: is_space_def)
  have "TrimSpace cc = cc" using nz ns by (intro TrimSpace_id) auto
  moreover have "map ascii_lower cc = cc" using l by (intro map_idI) (force simp: ascii_lower_def)
  ultimately show ?thesis by (simp add: ToLower_def)
qed

lemma cleanCountryCodes_idem:
  assumes "cleanCountryCodes seen ccs = Inr codes"
  shows "cleanCountryCodes seen codes = Inr codes"
  using assms
proof (induction seen ccs arbitrary: codes rule: cleanCountryCodes.induct)
  case (1 seen)
  then show ?case by simp
next
  case (2 seen cc ccs)
  let ?c = "ToLower (TrimSpace cc)"
  show ?case
  proof (cases "?c = [] \<or> ?c \<in> set seen")
    case True
    then show ?thesis using 2(1) [OF refl] 2(3) by (auto simp: Let_def)
  next
    case False
    obtain rest where ok: "\<not> badCountryCode ?c" and r: "cleanCountryCodes (?c # seen) ccs = Inr rest" and codes: "codes = ?c # rest"
      using 2(3) False by (auto simp: Let_def split: if_splits sum.splits)
    from 2(2) [OF refl False ok r] show ?thesis
      unfolding codes using False ok badCountryCode_lower [OF ok] by (simp add: Let_def)
  qed
qed

lemma validate_region_step:
  assumes "validate_region st rg = Inr (st', rg')"
  shows "GeoSetName (gr_Name rg') \<notin> set (rs_sets st) \<and> rs_sets st' = GeoSetName (gr_Name rg') # rs_sets st \<and>
    rs_networks st' = (if gr_CIDRs rg' \<noteq> [] then gr_Name rg' # rs_networks st else rs_networks st) \<and>
    \<not> GeoNameReserved (gr_Name rg') \<and> list_all canonical_net (gr_CIDRs rg') \<and> validate_region st rg' = Inr (st', rg')"
proof -
  obtain cleaned codes where c: "cleanNetworkList (gr_CIDRs rg) = Inr cleaned" and d: "cleanCountryCodes [] (gr_Countries rg) = Inr codes"
    and rg': "rg' = rg\<lparr>gr_Name := TrimSpace (gr_Name rg), gr_CIDRs := cleaned, gr_Countries := codes\<rparr>"
    and ok: "TrimSpace (gr_Name rg) \<noteq> []" "\<not> byte_len (TrimSpace (gr_Name rg)) > maxRegionName"
      "firstBadRegionRune (TrimSpace (gr_Name rg)) = []" "\<not> GeoNameReserved (TrimSpace (gr_Name rg))"
      "GeoSetName (TrimSpace (gr_Name rg)) \<notin> set (rs_sets st)"
    and st': "st' = \<lparr>rs_defined = TrimSpace (gr_Name rg) # rs_defined st,
        rs_networks = (if cleaned \<noteq> [] then TrimSpace (gr_Name rg) # rs_networks st else rs_networks st),
        rs_sets = GeoSetName (TrimSpace (gr_Name rg)) # rs_sets st,
        rs_bytes = rs_bytes st + sum_list (map (\<lambda>netw. byte_len netw + 1) cleaned)\<rparr>"
    using assms unfolding validate_region_def Let_def by (auto split: if_splits sum.splits)
  have can: "list_all canonical_net cleaned" by (rule cleanNetworkList_ok [OF c])
  have "validate_region st rg' = Inr (st', rg')"
    using ok cleanNetworkList_canonical [OF can] cleanCountryCodes_idem [OF d]
    unfolding validate_region_def Let_def rg' st' by (simp add: TrimSpace_idem)
  then show ?thesis using ok can unfolding rg' st' by simp
qed

lemma region_networks_listed:
  assumes "each validate_region st rgs = Inr (st', rgs')" and "n \<in> set (rs_networks st')"
  shows "n \<in> set (rs_networks st) \<or> (\<exists>rg \<in> set rgs'. gr_Name rg = n \<and> gr_CIDRs rg \<noteq> [])"
  using assms
proof (induction rgs arbitrary: st rgs')
  case Nil
  then show ?case by simp
next
  case (Cons x xs)
  then obtain s1 y ys where 1: "validate_region st x = Inr (s1, y)" and 2: "each validate_region s1 xs = Inr (st', ys)" and ys: "rgs' = y # ys"
    by (auto split: sum.splits)
  from Cons.IH [OF 2 Cons.prems(2)] validate_region_step [OF 1] show ?case unfolding ys by (auto split: if_splits)
qed

lemma mergeCIDRs_nonempty:
  assumes "c \<in> set cidrs" and "canonical_net c"
  shows "mergeCIDRs cidrs \<noteq> []"
proof -
  obtain b where b: "parse_block c = Some b" using assms(2) by (auto simp: canonical_net_def)
  then have m: "b \<in> set (List.map_filter parse_block cidrs)" using assms(1) by (auto simp: set_map_filter_parse)
  obtain k where k: "uint (bl_end b) = uint (bl_start b) + 2 ^ k - 1" using parse_block_spec(1) [OF b] by (auto simp: dyadic_def)
  have "(1::int) \<le> 2 ^ k" by simp
  then have "in_block (bl_start b) b" using k by (simp add: in_block_def)
  then have "list_ex (in_block (bl_start b)) (List.map_filter parse_block cidrs)" using m by (auto simp: list_ex_iff)
  then have "list_ex (in_block (bl_start b)) (mergeCIDRs_blocks cidrs)"
    using mergeCIDRs_blocks_exact [of "bl_start b" cidrs] by simp
  then show ?thesis by (auto simp: mergeCIDRs_def)
qed

lemma geo_elems_keep:
  assumes "elems_at out n \<noteq> [] \<or> (\<exists>rg \<in> set rgs. gr_Name rg = n \<and> referenced n \<and> mergeCIDRs (gr_CIDRs rg) \<noteq> [])"
  shows "elems_at (foldl (geo_elems_step referenced) out rgs) n \<noteq> []"
  using assms
proof (induction rgs arbitrary: out)
  case Nil
  then show ?case by simp
next
  case (Cons rg rgs)
  have "elems_at (geo_elems_step referenced out rg) n \<noteq> [] \<or>
      (\<exists>rg \<in> set rgs. gr_Name rg = n \<and> referenced n \<and> mergeCIDRs (gr_CIDRs rg) \<noteq> [])"
    using Cons.prems by (auto simp: geo_elems_step_def elems_at_def Let_def)
  from Cons.IH [OF this] show ?case by simp
qed

section \<open>The whole check\<close>

text \<open>What the parts of an accepting run computed.\<close>

lemma Normalise_keeps [simp]:
  "c_Mode (Normalise c) = c_Mode c" "c_Overlay (Normalise c) = c_Overlay c" "c_Paths (Normalise c) = c_Paths c"
  by (simp_all add: Normalise_def Let_def)

lemma validate_host_parts:
  assumes "validate_host url s = Inr s1"
  obtains n v where "validateNotify url (se_Notify s) = Inr n" "validate_overlay (se_Config s) = None"
    "(if fe_PublicIP (c_Frontend (se_Config s)) = [] then Inr [] else parseIPv4Address (fe_PublicIP (c_Frontend (se_Config s)))) = Inr v"
    "s1 = s\<lparr>se_Notify := n, se_Config := Normalise ((se_Config s)\<lparr>c_Frontend := (c_Frontend (se_Config s))\<lparr>fe_PublicIP := v\<rparr>\<rparr>)\<rparr>"
proof -
  obtain n v where "validateNotify url (se_Notify s) = Inr n" "validate_overlay (se_Config s) = None"
    "(if fe_PublicIP (c_Frontend (se_Config s)) = [] then Inr [] else parseIPv4Address (fe_PublicIP (c_Frontend (se_Config s)))) = Inr v"
    "s1 = s\<lparr>se_Notify := n, se_Config := Normalise ((se_Config s)\<lparr>c_Frontend := (c_Frontend (se_Config s))\<lparr>fe_PublicIP := v\<rparr>\<rparr>)\<rparr>"
    using assms unfolding validate_host_def Let_def
    by (simp only: split: option.split_asm sum.split_asm) simp_all
  then show thesis by (rule that)
qed

lemma validate_host_spec:
  assumes "validate_host url s = Inr s1"
  shows "c_Mode (se_Config s1) = c_Mode (se_Config s) \<and> c_Overlay (se_Config s1) = c_Overlay (se_Config s) \<and>
    c_Paths (se_Config s1) = c_Paths (se_Config s) \<and> c_Paths (se_Config s) \<noteq> [] \<and> se_Protect s1 = se_Protect s"
  using assms by (rule validate_host_parts) (auto simp: validate_overlay_def Let_def split: if_splits)

lemma validate_parts:
  assumes "validate tz url s = Inr s'"
  obtains s1 cfg linkers lks ss sn paths st rgs bl pb svs where
    "validate_host url s = Inr s1" "validate_failover (c_Failover (se_Config s1)) = None"
    "cfg = (se_Config s1)\<lparr>c_BackendLAN := TrimSpace (c_BackendLAN (se_Config s1))\<rparr>"
    "validate_backend_lan cfg = None" "each (validate_linker cfg) [] (c_Linkers cfg) = Inr (linkers, lks)"
    "validate_egress (cfg\<lparr>c_Linkers := lks\<rparr>) linkers = Inr ss"
    "each (validate_path tz) nothing_seen (c_Paths cfg) = Inr (sn, paths)" "validate_shapes paths = None"
    "validate_protect (cfg\<lparr>c_Linkers := lks, c_Egress := ss\<rparr>) (se_Protect s1) = None" "validate_cache (c_QueryCache cfg) = None"
    "validate_regions (pc_Regions (se_Protect s1)) = Inr (st, rgs)"
    "validate_blocklist (cfg\<lparr>c_Linkers := lks, c_Egress := ss\<rparr>) (se_Blocklist s1) = Inr bl"
    "validate_probe (c_Probe cfg) = Inr pb"
    "each (validate_service (cfg\<lparr>c_Linkers := lks, c_Egress := ss\<rparr>) linkers st) () (c_Services cfg) = Inr ((), svs)"
    "validate_overlaps [] svs = None"
    "s' = \<lparr>se_Config = cfg\<lparr>c_Linkers := lks, c_Egress := ss, c_Paths := paths, c_Probe := pb, c_Services := svs\<rparr>,
           se_Protect = (se_Protect s1)\<lparr>pc_Regions := rgs\<rparr>, se_Blocklist = bl, se_Notify = se_Notify s1\<rparr>"
proof -
  obtain s1 where a: "validate_host url s = Inr s1" "validate_failover (c_Failover (se_Config s1)) = None"
    using assms by (auto simp: validate_def split: sum.splits option.splits)
  define cfg where "cfg = (se_Config s1)\<lparr>c_BackendLAN := TrimSpace (c_BackendLAN (se_Config s1))\<rparr>"
  obtain linkers lks ss where b: "validate_backend_lan cfg = None" "each (validate_linker cfg) [] (c_Linkers cfg) = Inr (linkers, lks)"
    "validate_egress (cfg\<lparr>c_Linkers := lks\<rparr>) linkers = Inr ss"
    and r: "validate_rest tz linkers (s1\<lparr>se_Config := cfg\<lparr>c_Linkers := lks, c_Egress := ss\<rparr>\<rparr>) = Inr s'"
    using assms a by (auto simp: validate_def Let_def cfg_def [symmetric] split: sum.splits option.splits)
  obtain sn paths st rgs bl pb svs where c:
    "each (validate_path tz) nothing_seen (c_Paths cfg) = Inr (sn, paths)" "validate_shapes paths = None"
    "validate_protect (cfg\<lparr>c_Linkers := lks, c_Egress := ss\<rparr>) (se_Protect s1) = None" "validate_cache (c_QueryCache cfg) = None"
    "validate_regions (pc_Regions (se_Protect s1)) = Inr (st, rgs)"
    "validate_blocklist (cfg\<lparr>c_Linkers := lks, c_Egress := ss\<rparr>) (se_Blocklist s1) = Inr bl"
    "validate_probe (c_Probe cfg) = Inr pb"
    "each (validate_service (cfg\<lparr>c_Linkers := lks, c_Egress := ss\<rparr>) linkers st) () (c_Services cfg) = Inr ((), svs)"
    "validate_overlaps [] svs = None"
    "s' = \<lparr>se_Config = cfg\<lparr>c_Linkers := lks, c_Egress := ss, c_Paths := paths, c_Probe := pb, c_Services := svs\<rparr>,
           se_Protect = (se_Protect s1)\<lparr>pc_Regions := rgs\<rparr>, se_Blocklist = bl, se_Notify = se_Notify s1\<rparr>"
    using r by (auto simp: validate_rest_def Let_def split: sum.splits option.splits)
  show thesis by (rule that [OF a cfg_def b c])
qed

lemma validated_paths:
  assumes "validate tz url s = Inr s'"
  shows "wf_paths (c_Paths (se_Config s')) \<and> c_Mode (se_Config s') = c_Mode (se_Config s) \<and>
    c_Overlay (se_Config s') = c_Overlay (se_Config s)"
proof -
  from assms show ?thesis
  proof (rule validate_parts)
    fix s1 cfg linkers lks ss sn paths st rgs bl pb svs
    assume h: "validate_host url s = Inr s1"
      and cfg: "cfg = (se_Config s1)\<lparr>c_BackendLAN := TrimSpace (c_BackendLAN (se_Config s1))\<rparr>"
      and p: "each (validate_path tz) nothing_seen (c_Paths cfg) = Inr (sn, paths)"
      and s': "s' = \<lparr>se_Config = cfg\<lparr>c_Linkers := lks, c_Egress := ss, c_Paths := paths, c_Probe := pb, c_Services := svs\<rparr>,
           se_Protect = (se_Protect s1)\<lparr>pc_Regions := rgs\<rparr>, se_Blocklist = bl, se_Notify = se_Notify s1\<rparr>"
    show ?thesis
      using validate_host_spec [OF h] validate_paths_wf [OF p] unfolding s' cfg by simp
  qed
qed

lemma validated_services:
  assumes "validate tz url s = Inr s'"
  shows "length (filter (publishes proto p) (c_Services (se_Config s'))) \<le> 1 \<and> list_all row_ok (c_Services (se_Config s')) \<and>
    distinct (map (\<lambda>rg. GeoSetName (gr_Name rg)) (pc_Regions (se_Protect s'))) \<and>
    list_all (\<lambda>rg. \<not> GeoNameReserved (gr_Name rg) \<and> list_all canonical_net (gr_CIDRs rg)) (pc_Regions (se_Protect s')) \<and>
    list_all (\<lambda>sv. list_all (\<lambda>n. \<exists>rg. rg \<in> set (pc_Regions (se_Protect s')) \<and> gr_Name rg = n \<and> gr_CIDRs rg \<noteq> []) (sv_GeoRegions sv))
      (c_Services (se_Config s'))"
  using assms
proof (rule validate_parts)
  fix s1 cfg linkers lks ss sn paths st rgs bl pb svs
  assume r: "validate_regions (pc_Regions (se_Protect s1)) = Inr (st, rgs)"
    and sv: "each (validate_service (cfg\<lparr>c_Linkers := lks, c_Egress := ss\<rparr>) linkers st) () (c_Services cfg) = Inr ((), svs)"
    and ov: "validate_overlaps [] svs = None"
    and s': "s' = \<lparr>se_Config = cfg\<lparr>c_Linkers := lks, c_Egress := ss, c_Paths := paths, c_Probe := pb, c_Services := svs\<rparr>,
           se_Protect = (se_Protect s1)\<lparr>pc_Regions := rgs\<rparr>, se_Blocklist = bl, se_Notify = se_Notify s1\<rparr>"
  have e: "each validate_region no_regions (pc_Regions (se_Protect s1)) = Inr (st, rgs)"
    using r by (auto simp: validate_regions_def split: sum.splits if_splits)
  have one: "length (filter (publishes proto p) svs) \<le> 1"
    using validate_overlaps_ok [OF ov, of proto p] by simp
  have rows: "list_all (\<lambda>sv. row_ok sv \<and> set (sv_GeoRegions sv) \<subseteq> set (rs_networks st)) svs"
    by (rule each_all [OF sv]) (use validate_service_ok in blast)
  have names: "distinct (map (\<lambda>rg. GeoSetName (gr_Name rg)) rgs)"
    using each_distinct [OF e, of "\<lambda>rg. GeoSetName (gr_Name rg)" rs_sets] validate_region_step by blast
  have can: "list_all (\<lambda>rg. \<not> GeoNameReserved (gr_Name rg) \<and> list_all canonical_net (gr_CIDRs rg)) rgs"
    by (rule each_all [OF e]) (use validate_region_step in blast)
  have "\<exists>rg. rg \<in> set rgs \<and> gr_Name rg = n \<and> gr_CIDRs rg \<noteq> []" if "n \<in> set (rs_networks st)" for n
    using region_networks_listed [OF e that] by (auto simp: no_regions_def)
  then have "list_all (\<lambda>sv. list_all (\<lambda>n. \<exists>rg. rg \<in> set rgs \<and> gr_Name rg = n \<and> gr_CIDRs rg \<noteq> []) (sv_GeoRegions sv)) svs"
    using rows by (fastforce simp: list_all_iff)
  then show ?thesis using one rows names can unfolding s' by (simp add: list_all_iff)
qed

text \<open>C10. A configuration that passes the portal's check is well formed: it has paths, no two share an id, a routing
  table, an interface or a mark, every id and table is in its range, no path takes a table or mark the system uses itself,
  and every quota setting is one the metering takes at face value.\<close>

theorem validated_paths_wf:
  "validate tz url s = Inr s' \<Longrightarrow> wf_paths (c_Paths (se_Config s'))"
  using validated_paths by blast

text \<open>C11. After a check every published port belongs to one row: for each protocol and port at most one enabled row of the
  accepted configuration publishes it, and every row's ports and limits are in range.\<close>

theorem validated_ports_owned:
  "validate tz url s = Inr s' \<Longrightarrow>
     length (filter (publishes proto p) (c_Services (se_Config s'))) \<le> 1 \<and> list_all row_ok (c_Services (se_Config s'))"
  using validated_services by blast

text \<open>C9. What the check accepts the edge filter honours: in the ruleset generated from an accepted configuration every row
  that names a region has a live lock, so no lock the operator saved is dropped for naming an empty or missing region,
  and no two of its regions render to one set.\<close>

theorem validated_locks_live:
  assumes "validate tz url s = Inr s'" and "pc_Enabled (se_Protect s')"
  shows "geoServices (ProtectSpecFrom (se_Protect s') (se_Config s')) (geoRegionElems (ProtectSpecFrom (se_Protect s') (se_Config s'))) =
      filter (\<lambda>sv. ps_GeoRegions sv \<noteq> []) (sp_Services (ProtectSpecFrom (se_Protect s') (se_Config s'))) \<and>
    distinct (map (\<lambda>rg. GeoSetName (gr_Name rg)) (sp_Regions (ProtectSpecFrom (se_Protect s') (se_Config s'))))"
proof -
  define sp where "sp = ProtectSpecFrom (se_Protect s') (se_Config s')"
  note v = validated_services [OF assms(1)]
  have rgs: "sp_Regions sp = pc_Regions (se_Protect s')" using assms(2) by (simp add: sp_def ProtectSpecFrom_def)
  have "elems_at (geoRegionElems sp) n \<noteq> []" if sv: "sv \<in> set (sp_Services sp)" and n: "n \<in> set (ps_GeoRegions sv)" for sv n
  proof -
    obtain row where row: "row \<in> set (c_Services (se_Config s'))" "sv = protect_service row"
      using sv assms(2) by (auto simp: sp_def ProtectSpecFrom_def)
    then have "n \<in> set (sv_GeoRegions row)" using n by (simp add: protect_service_def)
    then obtain rg where rg: "rg \<in> set (sp_Regions sp)" "gr_Name rg = n" "gr_CIDRs rg \<noteq> []"
      using v row(1) unfolding rgs by (fastforce simp: list_all_iff)
    obtain c where "c \<in> set (gr_CIDRs rg)" using rg(3) by (cases "gr_CIDRs rg") auto
    moreover have "list_all canonical_net (gr_CIDRs rg)" using v rg(1) unfolding rgs by (auto simp: list_all_iff)
    ultimately have "mergeCIDRs (gr_CIDRs rg) \<noteq> []" using mergeCIDRs_nonempty by (auto simp: list_all_iff)
    moreover have "\<exists>sv \<in> set (sp_Services sp). n \<in> set (ps_GeoRegions sv)" using sv n by blast
    ultimately show ?thesis unfolding geoRegionElems_def using rg by (intro geo_elems_keep) blast
  qed
  then have flt: "filter (\<lambda>n. length (elems_at (geoRegionElems sp) n) > 0) (ps_GeoRegions sv) = ps_GeoRegions sv"
    if "sv \<in> set (sp_Services sp)" for sv using that by (intro filter_True) blast
  have "geo_live (geoRegionElems sp) sv \<longleftrightarrow> ps_GeoRegions sv \<noteq> []" if "sv \<in> set (sp_Services sp)" for sv
    unfolding geo_live_def flt [OF that] Let_def by auto
  then have "geoServices sp (geoRegionElems sp) = filter (\<lambda>sv. ps_GeoRegions sv \<noteq> []) (sp_Services sp)"
    unfolding geoServices_def by (intro filter_cong) auto
  then show ?thesis using v unfolding sp_def [symmetric] rgs by simp
qed

section \<open>Through the door twice\<close>

lemma validateNotify_idem:
  assumes "validateNotify url n = Inr n'"
  shows "validateNotify url n' = Inr n'"
proof -
  have n': "n' = n\<lparr>nf_Kind := ToLower (TrimSpace (nf_Kind n)), nf_URL := TrimSpace (nf_URL n)\<rparr>"
    using assms unfolding validateNotify_def Let_def
    by (simp only: split: if_split_asm option.split_asm prod.split_asm) simp_all
  have same: "n'\<lparr>nf_Kind := ToLower (TrimSpace (nf_Kind n')), nf_URL := TrimSpace (nf_URL n')\<rparr> = n'"
    unfolding n' by (simp add: lower_trim_idem TrimSpace_idem)
  have "validateNotify url n' = validateNotify url n"
    unfolding validateNotify_def Let_def same unfolding n' ..
  with assms show ?thesis by simp
qed

lemma Normalise_Frontend: "Normalise (Normalise (c\<lparr>c_Frontend := f\<rparr>)) = Normalise (c\<lparr>c_Frontend := f\<rparr>)"
  by (rule Normalise_idem)

lemma parseIPv4Address_idem:
  assumes "(if a = [] then Inr [] else parseIPv4Address a) = Inr v"
  shows "(if v = [] then Inr [] else parseIPv4Address v) = (Inr v :: refusal + string)"
  using assms AddressLiteral_idem [of a] by (auto simp: parseIPv4Address_def Let_def split: if_splits)

text \<open>A run of \<open>validate_host\<close> on a configuration that already went through it, with the later parts changed.\<close>

lemma validate_host_again:
  assumes "validate_host url s = Inr s1" and "c_Paths cfg \<noteq> []"
    and "c_Mode cfg = c_Mode (se_Config s1)" "c_Overlay cfg = c_Overlay (se_Config s1)" "c_Frontend cfg = c_Frontend (se_Config s1)"
    and "Normalise cfg = cfg" and "se_Notify s2 = se_Notify s1" and "se_Config s2 = cfg"
  shows "validate_host url s2 = Inr s2"
proof -
  obtain n v where n: "validateNotify url (se_Notify s) = Inr n" and p: "validate_overlay (se_Config s) = None"
    and v: "(if fe_PublicIP (c_Frontend (se_Config s)) = [] then Inr [] else parseIPv4Address (fe_PublicIP (c_Frontend (se_Config s)))) = Inr v"
    and s1: "s1 = s\<lparr>se_Notify := n, se_Config := Normalise ((se_Config s)\<lparr>c_Frontend := (c_Frontend (se_Config s))\<lparr>fe_PublicIP := v\<rparr>\<rparr>)\<rparr>"
    using assms(1) by (rule validate_host_parts)
  have fe: "c_Frontend cfg = (c_Frontend (se_Config s))\<lparr>fe_PublicIP := v\<rparr>"
    using assms(5) unfolding s1 by (simp add: Normalise_def Let_def)
  have same: "c_Mode cfg = c_Mode (se_Config s)" "c_Overlay cfg = c_Overlay (se_Config s)" "se_Notify s2 = n"
    using assms(3,4,7) unfolding s1 by simp_all
  have v': "(if v = [] then Inr [] else parseIPv4Address v) = (Inr v :: refusal + string)" by (rule parseIPv4Address_idem [OF v])
  have f: "(c_Frontend cfg)\<lparr>fe_PublicIP := v\<rparr> = c_Frontend cfg" unfolding fe by simp
  have "cfg\<lparr>c_Frontend := (c_Frontend cfg)\<lparr>fe_PublicIP := v\<rparr>\<rparr> = cfg" unfolding f by simp
  then have e1: "s2\<lparr>se_Notify := n, se_Config := Normalise (cfg\<lparr>c_Frontend := (c_Frontend cfg)\<lparr>fe_PublicIP := v\<rparr>\<rparr>)\<rparr> = s2"
    using assms(6,8) same(3) by (cases s2) simp
  have ok: "validate_overlay cfg = None"
    using p assms(2) unfolding validate_overlay_def Let_def same fe by (auto split: if_splits)
  have pv: "fe_PublicIP (c_Frontend cfg) = v" unfolding fe by simp
  show ?thesis
    unfolding validate_host_def Let_def assms(8) same(3) ok option.case validateNotify_idem [OF n] sum.case pv v' e1 ..
qed

lemma validate_linker_again:
  assumes "validate_linker cfg seen lk = Inr (seen', lk')"
    and "c_Overlay cfg' = c_Overlay cfg" "c_BackendLAN cfg' = c_BackendLAN cfg" "map p_Table (c_Paths cfg') = map p_Table (c_Paths cfg)"
  shows "validate_linker cfg' seen lk' = Inr (seen', lk')"
proof -
  let ?trim = "\<lambda>lk. lk\<lparr>lk_Name := TrimSpace (lk_Name lk), lk_OverlayIP := TrimSpace (lk_OverlayIP lk), lk_LanIP := TrimSpace (lk_LanIP lk)\<rparr>"
  have lk': "lk' = ?trim lk"
    using assms(1) unfolding validate_linker_def Let_def by (simp only: split: if_split_asm) simp_all
  have trim: "?trim lk' = ?trim lk" unfolding lk' by (simp add: TrimSpace_idem)
  have tab: "list_ex (\<lambda>p. p_Table p = t) (c_Paths cfg') = list_ex (\<lambda>p. p_Table p = t) (c_Paths cfg)" for t
  proof -
    have *: "list_ex (\<lambda>p. p_Table p = t) ps \<longleftrightarrow> t \<in> set (map p_Table ps)" for ps by (auto simp: list_ex_iff)
    show ?thesis unfolding * assms(4) ..
  qed
  have "validate_linker cfg' seen lk' = validate_linker cfg seen lk"
    unfolding validate_linker_def trim assms(2,3) tab ..
  with assms(1) show ?thesis by simp
qed

lemma validate_source_again:
  assumes "validate_source cfg linkers u s = Inr (u', s')" and "c_Overlay cfg' = c_Overlay cfg"
  shows "validate_source cfg' linkers u s' = Inr (u', s')"
proof -
  obtain netw where n: "parseIPv4Network (TrimSpace (es_CIDR s)) = Inr netw"
    and s': "s' = s\<lparr>es_Name := TrimSpace (es_Name s), es_CIDR := netw, es_Host := TrimSpace (es_Host s)\<rparr>"
    and ok: "TrimSpace (es_Host s) = [] \<or> (ParseIP (TrimSpace (es_Host s)) \<noteq> None \<and> overlayContains (c_Overlay cfg) (TrimSpace (es_Host s)) \<and>
       (TrimSpace (es_Host s) = ov_BackendIP (c_Overlay cfg) \<or> TrimSpace (es_Host s) \<in> set linkers))"
    using assms(1) unfolding validate_source_def Let_def by (auto split: if_split_asm sum.split_asm)
  have can: "canonical_net netw" by (rule parseIPv4Network_canonical [OF n])
  then show ?thesis
    using ok unfolding validate_source_def Let_def s' assms(2) by (auto simp: canonical_net_def TrimSpace_idem TrimSpace_def [of "[]"])
qed

lemma validate_egress_again:
  assumes "validate_egress cfg linkers = Inr ss" and "c_Overlay cfg' = c_Overlay cfg" and "c_Egress cfg' = ss"
  shows "validate_egress cfg' linkers = Inr ss"
proof -
  have e: "each (validate_source cfg linkers) () (c_Egress cfg) = Inr ((), ss)" and d: "distinct (map (source_key cfg) ss)"
    using assms(1) by (auto simp: validate_egress_def split: sum.splits if_splits)
  have "each (validate_source cfg' linkers) () ss = Inr ((), ss)"
    by (rule each_idem [OF e]) (rule validate_source_again [OF _ assms(2)])
  moreover have "source_key cfg' = source_key cfg" using assms(2) by (simp add: source_key_def fun_eq_iff)
  ultimately show ?thesis using d by (simp add: validate_egress_def assms(3))
qed

lemma validate_protect_again:
  "c_Frontend cfg' = c_Frontend cfg \<Longrightarrow> validate_protect cfg' (pr\<lparr>pc_Regions := rgs\<rparr>) = validate_protect cfg pr"
  by (simp add: validate_protect_def)

lemma validate_regions_again:
  assumes "validate_regions rgs = Inr (st, rgs')"
  shows "validate_regions rgs' = Inr (st, rgs')"
proof -
  have e: "each validate_region no_regions rgs = Inr (st, rgs')" and b: "\<not> rs_bytes st > maxRegionsBytes"
    using assms by (auto simp: validate_regions_def split: sum.splits if_splits)
  have "each validate_region no_regions rgs' = Inr (st, rgs')"
    by (rule each_idem [OF e]) (use validate_region_step in blast)
  with b show ?thesis by (simp add: validate_regions_def)
qed

lemma cleanNetworkList_shorter: "cleanNetworkList cs = Inr out \<Longrightarrow> length out \<le> length cs"
  by (induction cs arbitrary: out) (fastforce simp: Let_def split: if_splits sum.splits)+

lemma validate_blocklist_again:
  assumes "validate_blocklist cfg bl = Inr bl'" and "c_Frontend cfg' = c_Frontend cfg"
  shows "validate_blocklist cfg' bl' = Inr bl'"
proof -
  obtain ex where ex: "cleanNetworkList (bk_Exceptions bl) = Inr ex" and bl': "bl' = bl\<lparr>bk_Exceptions := ex\<rparr>"
    and ok: "\<not> (bk_Enabled bl \<and> TrimSpace (fe_PublicIface (c_Frontend cfg)) = [])"
      "\<not> (bk_RefreshHours bl \<noteq> 0 \<and> bk_RefreshHours bl < MinBlocklistRefreshHours)" "\<not> bk_RefreshHours bl > MaxBlocklistRefreshHours"
      "\<not> length (bk_Exceptions bl) > maxBlocklistExceptions"
    using assms(1) unfolding validate_blocklist_def by (simp only: split: if_split_asm sum.split_asm) simp_all
  have "\<not> length ex > maxBlocklistExceptions" using ok(4) cleanNetworkList_shorter [OF ex] by simp
  then show ?thesis
    using ok(1-3) cleanNetworkList_canonical [OF cleanNetworkList_ok [OF ex]]
    unfolding validate_blocklist_def bl' assms(2) by simp
qed

lemma validate_probe_again: "validate_probe p = Inr p' \<Longrightarrow> validate_probe p' = Inr p'"
  by (auto simp: validate_probe_def split: if_splits)

lemma validate_refs_idem:
  assumes "set ns \<subseteq> set (rs_defined st)" "set ns \<subseteq> set (rs_networks st)" "distinct ns" "set ns \<inter> set seen = {}" "[] \<notin> set ns"
    "list_all (\<lambda>n. TrimSpace n = n) ns"
  shows "validate_refs st seen ns = Inr ns"
  using assms by (induction ns arbitrary: seen) (auto simp: Let_def)

lemma validate_row_cong:
  assumes "sv_Name sv' = sv_Name sv" "sv_Proto sv' = sv_Proto sv" "sv_Port sv' = sv_Port sv" "sv_PortEnd sv' = sv_PortEnd sv"
    "sv_Enabled sv' = sv_Enabled sv" "sv_CeilingPPS sv' = sv_CeilingPPS sv" "sv_NewConnsPerSec sv' = sv_NewConnsPerSec sv"
    "sv_MaxConnsPerSource sv' = sv_MaxConnsPerSource sv" "c_Frontend cfg' = c_Frontend cfg"
  shows "validate_row cfg' sv' = validate_row cfg sv"
  unfolding validate_row_def assms ..

lemma validate_service_again:
  assumes "validate_service cfg linkers st u sv = Inr (u', sv')"
    and "c_Frontend cfg' = c_Frontend cfg" "c_Overlay cfg' = c_Overlay cfg"
  shows "validate_service cfg' linkers st u sv' = Inr (u', sv')"
proof -
  define nm tg where "nm = TrimSpace (sv_Name sv)" and "tg = TrimSpace (sv_Target sv)"
  obtain refs where row: "validate_row cfg (sv\<lparr>sv_Name := nm\<rparr>) = None" and target: "validate_target cfg linkers tg = None"
    and refs: "validate_refs st [] (sv_GeoRegions sv) = Inr refs" and pps: "\<not> sv_GeoAutoPPS sv < 0" "\<not> (sv_GeoAutoPPS sv > 0 \<and> refs = [])"
    and sv': "sv' = sv\<lparr>sv_Name := nm, sv_Target := tg, sv_GeoRegions := refs, sv_GeoBlock := (if refs = [] then False else sv_GeoBlock sv)\<rparr>"
    using assms(1) unfolding validate_service_def Let_def nm_def tg_def
    by (cases sv) (auto split: option.splits sum.splits if_splits)
  have trims: "TrimSpace nm = nm" "TrimSpace tg = tg" by (simp_all add: nm_def tg_def TrimSpace_idem)
  have eq: "sv'\<lparr>sv_Name := TrimSpace (sv_Name sv')\<rparr> = sv'" "sv'\<lparr>sv_Target := TrimSpace (sv_Target sv')\<rparr> = sv'"
    unfolding sv' by (simp_all add: trims)
  have row': "validate_row cfg' sv' = None"
  proof -
    have "validate_row cfg' sv' = validate_row cfg (sv\<lparr>sv_Name := nm\<rparr>)"
      by (rule validate_row_cong) (simp_all add: sv' assms(2))
    with row show ?thesis by simp
  qed
  have target': "validate_target cfg' linkers (sv_Target sv') = None"
  proof -
    have tgt: "sv_Target sv' = tg" unfolding sv' by simp
    show ?thesis using target unfolding validate_target_def assms(3) tgt .
  qed
  have refs': "validate_refs st [] (sv_GeoRegions sv') = Inr (sv_GeoRegions sv')"
    using validate_refs_ok [OF refs] unfolding sv' by (simp add: validate_refs_idem)
  have last: "(if sv_GeoRegions sv' = [] then sv'\<lparr>sv_GeoRegions := sv_GeoRegions sv', sv_GeoBlock := False\<rparr>
      else sv'\<lparr>sv_GeoRegions := sv_GeoRegions sv'\<rparr>) = sv'"
    unfolding sv' by simp
  show ?thesis
    unfolding validate_service_def Let_def eq row' target' refs' option.case sum.case last using pps by (simp add: sv')
qed

lemma Normalise_later:
  "Normalise c = c \<Longrightarrow> Normalise (c\<lparr>c_BackendLAN := l, c_Linkers := lks, c_Egress := ss, c_Paths := ps, c_Probe := pb, c_Services := svs\<rparr>) =
     c\<lparr>c_BackendLAN := l, c_Linkers := lks, c_Egress := ss, c_Paths := ps, c_Probe := pb, c_Services := svs\<rparr>"
proof -
  assume "Normalise c = c"
  then have "c_Failover (Normalise c) = c_Failover c" by simp
  then show ?thesis by (simp add: Normalise_def Let_def)
qed

lemma validate_twice:
  assumes "validate tz url s = Inr s'"
  shows "validate tz url s' = Inr s'"
  using assms
proof (rule validate_parts)
  fix s1 cfg linkers lks ss sn paths st rgs bl pb svs
  assume host: "validate_host url s = Inr s1" and fo: "validate_failover (c_Failover (se_Config s1)) = None"
    and cfg: "cfg = (se_Config s1)\<lparr>c_BackendLAN := TrimSpace (c_BackendLAN (se_Config s1))\<rparr>"
    and lan: "validate_backend_lan cfg = None"
    and lk: "each (validate_linker cfg) [] (c_Linkers cfg) = Inr (linkers, lks)"
    and eg: "validate_egress (cfg\<lparr>c_Linkers := lks\<rparr>) linkers = Inr ss"
    and ps: "each (validate_path tz) nothing_seen (c_Paths cfg) = Inr (sn, paths)" and sh: "validate_shapes paths = None"
    and pr: "validate_protect (cfg\<lparr>c_Linkers := lks, c_Egress := ss\<rparr>) (se_Protect s1) = None"
    and qc: "validate_cache (c_QueryCache cfg) = None"
    and rg: "validate_regions (pc_Regions (se_Protect s1)) = Inr (st, rgs)"
    and blk: "validate_blocklist (cfg\<lparr>c_Linkers := lks, c_Egress := ss\<rparr>) (se_Blocklist s1) = Inr bl"
    and prb: "validate_probe (c_Probe cfg) = Inr pb"
    and sv: "each (validate_service (cfg\<lparr>c_Linkers := lks, c_Egress := ss\<rparr>) linkers st) () (c_Services cfg) = Inr ((), svs)"
    and ov: "validate_overlaps [] svs = None"
    and s': "s' = \<lparr>se_Config = cfg\<lparr>c_Linkers := lks, c_Egress := ss, c_Paths := paths, c_Probe := pb, c_Services := svs\<rparr>,
           se_Protect = (se_Protect s1)\<lparr>pc_Regions := rgs\<rparr>, se_Blocklist = bl, se_Notify = se_Notify s1\<rparr>"
  define fin where "fin = cfg\<lparr>c_Linkers := lks, c_Egress := ss, c_Paths := paths, c_Probe := pb, c_Services := svs\<rparr>"
  have keep: "c_Mode fin = c_Mode (se_Config s1)" "c_Overlay fin = c_Overlay (se_Config s1)" "c_Frontend fin = c_Frontend (se_Config s1)"
    "c_Failover fin = c_Failover (se_Config s1)" "c_BackendLAN fin = c_BackendLAN cfg" "c_QueryCache fin = c_QueryCache cfg"
    "c_Linkers fin = lks" "c_Egress fin = ss" "c_Paths fin = paths" "c_Probe fin = pb" "c_Services fin = svs"
    by (simp_all add: fin_def cfg)
  have trim: "TrimSpace (c_BackendLAN fin) = c_BackendLAN fin" by (simp add: fin_def cfg TrimSpace_idem)
  have tables: "map p_Table paths = map p_Table (c_Paths cfg)"
  proof (rule each_map [OF ps])
    fix sn0 p sn1 p' assume "validate_path tz sn0 p = Inr (sn1, p')"
    then have "p' = p\<lparr>p_Quota := p_Quota p'\<rparr>" using validate_path_step by blast
    then have "p_Table p' = p_Table (p\<lparr>p_Quota := p_Quota p'\<rparr>)" by (rule arg_cong)
    then show "p_Table p' = p_Table p" by simp
  qed
  have nonempty: "paths \<noteq> []"
    using validate_paths_wf [OF ps] validate_host_spec [OF host] by (auto simp: wf_paths_def cfg)
  have norm: "Normalise fin = fin"
  proof -
    have "Normalise (se_Config s1) = se_Config s1"
      using host by (rule validate_host_parts) (simp add: Normalise_idem)
    from Normalise_later [OF this] show ?thesis unfolding fin_def cfg by simp
  qed
  have host': "validate_host url s' = Inr s'"
    using validate_host_again [OF host, of fin s'] nonempty keep norm by (simp add: s' fin_def)
  have lan': "validate_backend_lan fin = None"
    using lan each_length [OF lk] by (auto simp: validate_backend_lan_def keep fin_def split: if_splits)
  have lk': "each (validate_linker fin) [] lks = Inr (linkers, lks)"
    by (rule each_idem [OF lk]) (rule validate_linker_again, assumption, simp_all add: keep fin_def tables)
  have eg': "validate_egress fin linkers = Inr ss"
    by (rule validate_egress_again [OF eg]) (simp_all add: fin_def)
  have ps': "each (validate_path tz) nothing_seen paths = Inr (sn, paths)"
    by (rule each_idem [OF ps]) (use validate_path_step in blast)
  have pr': "validate_protect fin (se_Protect s') = None"
    using pr validate_protect_again [of fin "cfg\<lparr>c_Linkers := lks, c_Egress := ss\<rparr>"] by (simp add: s' fin_def)
  have blk': "validate_blocklist fin bl = Inr bl"
    by (rule validate_blocklist_again [OF blk]) (simp add: fin_def)
  have sv': "each (validate_service fin linkers st) () svs = Inr ((), svs)"
    by (rule each_idem [OF sv]) (rule validate_service_again, assumption, simp_all add: fin_def)
  have se: "se_Config s' = fin" "se_Blocklist s' = bl" "pc_Regions (se_Protect s') = rgs" by (simp_all add: s' fin_def)
  have upd: "fin\<lparr>c_BackendLAN := TrimSpace (c_BackendLAN fin)\<rparr> = fin" "fin\<lparr>c_Linkers := lks\<rparr> = fin" "fin\<lparr>c_Egress := ss\<rparr> = fin"
    "fin\<lparr>c_Paths := paths, c_Probe := pb, c_Services := svs\<rparr> = fin" "s'\<lparr>se_Config := fin\<rparr> = s'"
    unfolding trim by (simp_all add: fin_def s')
  have all: "\<lparr>se_Config = fin, se_Protect = (se_Protect s')\<lparr>pc_Regions := rgs\<rparr>, se_Blocklist = bl, se_Notify = se_Notify s'\<rparr> = s'"
    by (simp add: s' fin_def)
  have rest: "validate_rest tz linkers s' = Inr s'"
    unfolding validate_rest_def Let_def se keep ps' sh pr' validate_regions_again [OF rg] blk' validate_probe_again [OF prb] sv' ov
    using qc sh sv' ov by (simp add: upd all)
  show ?thesis
    unfolding validate_def host' sum.case se keep(4) fo option.case Let_def upd(1) lan' keep(7) lk' prod.case upd(2) eg' upd(3,5)
    by (rule rest)
qed

text \<open>C12. What was accepted is accepted again, unchanged: the check repairs a configuration in one pass, so a configuration it
  let through never blocks a later save of anything else.\<close>

theorem validated_fits_back:
  "validate tz url s = Inr s' \<Longrightarrow> validate tz url s' = Inr s'"
  by (rule validate_twice)

text \<open>A save keeps what the host owns: whatever a browser sends, the configuration a save hands to the engine has
  the running mode and overlay, so a stale tab can neither arm a reverted system nor move the control channel; the check
  of an import accepts exactly what a save accepts, for the same reason when it refuses.\<close>

theorem save_keeps_host:
  "(case handlePutConfig tz url (\<lambda>s e. Some s) current body None of
      (None, saved) \<Rightarrow> (case saved of None \<Rightarrow> False
         | Some s \<Rightarrow> c_Mode (se_Config s) = c_Mode (se_Config current) \<and> c_Overlay (se_Config s) = c_Overlay (se_Config current) \<and>
                   wf_paths (c_Paths (se_Config s)) \<and> handleCheckConfig tz url current body = Inr (pinHostIdentity s current))
    | (Some x, saved) \<Rightarrow> saved = None \<and> handleCheckConfig tz url current body = Inl x)"
proof (cases "decodeConfig tz url current body")
  case (Inl x)
  then show ?thesis by (simp add: handlePutConfig_def handleCheckConfig_def)
next
  case (Inr s)
  then obtain b where "validate tz url (pinServerOwnedFields b current) = Inr s"
    by (auto simp: decodeConfig_def split: option.splits sum.splits)
  from validated_paths [OF this] show ?thesis
    using Inr by (simp add: handlePutConfig_def handleCheckConfig_def pinServerOwnedFields_def)
qed

section \<open>A configuration that passes\<close>

definition demo_config :: Config where
  "demo_config = \<lparr>c_Mode = ModeArmed,
     c_Frontend = \<lparr>fe_PublicIface = ''eth0'', fe_PublicIP = '''', fe_BackendEgress = False\<rparr>,
     c_Overlay = \<lparr>ov_FrontendIP = ''10.9.0.1'', ov_BackendIP = ''10.9.0.2'', ov_Device = ''d0'', ov_Subnet = '''',
       ov_ProbePort = 51999, ov_ControlPort = 51998\<rparr>,
     c_Paths = default_paths, c_Probe = default_probe, c_Failover = default_failover,
     c_Services = [(plain_service ''w'' ''tcp'' 80 0)\<lparr>sv_Enabled := True, sv_GeoRegions := ['' au '']\<rparr>],
     c_Linkers = [], c_BackendLAN = '''', c_Egress = [],
     c_QueryCache = \<lparr>qc_Enabled = False, qc_RefreshMs = 0, qc_StaleMs = 0\<rparr>\<rparr>"

definition demo_protect :: ProtectConfig where
  "demo_protect = \<lparr>pc_Enabled = True, pc_NewConnsPerSec = 0, pc_MaxConnsPerSource = 0, pc_PacketsPerSec = 0, pc_QueriesPerSec = 0,
     pc_BlockSeconds = 0, pc_DropInvalid = False, pc_DropBogusTCP = False, pc_DropSpoofed = False, pc_DropLegacyQueries = False,
     pc_GeoLockSeconds = 0, pc_Regions = [\<lparr>gr_Name = ''au'', gr_CIDRs = ['' 1.2.3.4/8'', ''''], gr_Countries = [''AU'', ''au '']\<rparr>]\<rparr>"

definition demo_settings :: Settings where
  "demo_settings = \<lparr>se_Config = demo_config, se_Protect = demo_protect,
     se_Blocklist = \<lparr>bk_Enabled = False, bk_RefreshHours = 0, bk_Exceptions = []\<rparr>,
     se_Notify = \<lparr>nf_Enabled = False, nf_Kind = '''', nf_URL = '''', nf_Token = '''', nf_OnSwitch = False, nf_OnPathDown = False,
       nf_OnQuota = False, nf_OnHeld = False\<rparr>\<rparr>"

definition demo_paths :: "PathConfig list" where
  "demo_paths = map (\<lambda>p. p\<lparr>p_Quota := (p_Quota p)\<lparr>q_Calibration := Fin 100, q_ResetDay := 1,
     q_Timezone := ''Australia/Melbourne''\<rparr>\<rparr>) default_paths"

definition demo_services :: "Service list" where
  "demo_services = [(plain_service ''w'' ''tcp'' 80 0)\<lparr>sv_Enabled := True, sv_GeoRegions := [''au'']\<rparr>]"

definition demo_regions :: "GeoRegion list" where
  "demo_regions = [\<lparr>gr_Name = ''au'', gr_CIDRs = [''1.0.0.0/8''], gr_Countries = [''au'']\<rparr>]"

definition demo_accepted :: Settings where
  "demo_accepted = demo_settings\<lparr>se_Config := demo_config\<lparr>c_Paths := demo_paths, c_Services := demo_services\<rparr>,
     se_Protect := demo_protect\<lparr>pc_Regions := demo_regions\<rparr>\<rparr>"

subsection \<open>Its network\<close>

lemma demo_mask: "prefix_mask 8 = (0xFF000000 :: 32 word)"
  by (simp add: prefix_mask_def ones_mask mask_eq_exp_minus_1)

lemma demo_fields: "map parse_field (split_on (CHR ''.'') ''1.2.3.4'') = [Some 1, Some 2, Some 3, Some 4]"
  "dec_value ''8'' = 8" "TrimSpace '' 1.2.3.4/8'' = ''1.2.3.4/8''" "TrimSpace [] = []"
  by code_simp+

lemma demo_parse: "ParseCIDR4 ''1.2.3.4/8'' = Some (16777216, 8)"
proof -
  have "parse_IPv4 ''1.2.3.4'' = Some 16909060" unfolding parse_IPv4_def demo_fields(1) by simp
  then show ?thesis by (simp add: ParseCIDR4_def demo_fields(2) demo_mask is_digit_def)
qed

lemma demo_text: "net_String 16777216 8 = ''1.0.0.0/8''"
proof -
  have b: "byte_of 3 16777216 = 1" "byte_of 2 16777216 = 0" "byte_of 1 16777216 = 0" "byte_of 0 16777216 = 0"
    by (simp_all add: byte_of_def)
  show ?thesis unfolding net_String_def b by code_simp
qed

lemma demo_clean: "cleanNetworkList ['' 1.2.3.4/8'', ''''] = Inr [''1.0.0.0/8'']"
  by (simp add: demo_fields demo_parse demo_text parseIPv4Network_def)

subsection \<open>Its parts\<close>

definition demo_state :: region_state where
  "demo_state = \<lparr>rs_defined = [''au''], rs_networks = [''au''], rs_sets = [''geo_au''], rs_bytes = 10\<rparr>"

lemma demo_region_facts:
  "TrimSpace ''au'' = ''au''" "GeoSetName ''au'' = ''geo_au''" "firstBadRegionRune ''au'' = []" "\<not> GeoNameReserved ''au''"
  "byte_len ''au'' = 2" "byte_len ''1.0.0.0/8'' = 9" "cleanCountryCodes [] [''AU'', ''au ''] = Inr [''au'']"
  by code_simp+

lemma demo_regions_ok: "validate_regions (pc_Regions demo_protect) = Inr (demo_state, demo_regions)"
  by (simp add: validate_regions_def validate_region_def Let_def demo_protect_def demo_region_facts demo_clean no_regions_def
      demo_state_def demo_regions_def maxRegionName_def maxRegionsBytes_def del: cleanNetworkList.simps cleanCountryCodes.simps)

lemma demo_normal: "Normalise demo_config = demo_config"
  by (simp add: Normalise_def Let_def demo_config_def default_failover_def default_quality_def fis0_def SelectionPriority_def)

lemma demo_host: "validate_host (\<lambda>u. None) demo_settings = Inr demo_settings"
proof -
  have "validate_overlay demo_config = None" by code_simp
  moreover have "validateNotify (\<lambda>u. None) (se_Notify demo_settings) = Inr (se_Notify demo_settings)" by code_simp
  moreover have "Normalise (demo_config\<lparr>c_Frontend := (c_Frontend demo_config)\<lparr>fe_PublicIP := []\<rparr>\<rparr>) = demo_config"
    using demo_normal by (simp add: demo_config_def)
  moreover have "fe_PublicIP (c_Frontend demo_config) = []" by (simp add: demo_config_def)
  ultimately show ?thesis by (simp add: validate_host_def demo_settings_def)
qed

lemma demo_checks:
  "validate_failover (c_Failover demo_config) = None"
  "validate_backend_lan demo_config = None"
  "each (validate_linker demo_config) [] (c_Linkers demo_config) = Inr ([], [])"
  "validate_egress demo_config [] = Inr []"
  "\<exists>sn. each (validate_path (\<lambda>z. True)) nothing_seen (c_Paths demo_config) = Inr (sn, demo_paths)"
  "validate_shapes demo_paths = None"
  "validate_protect demo_config demo_protect = None"
  "validate_cache (c_QueryCache demo_config) = None"
  "validate_blocklist demo_config (se_Blocklist demo_settings) = Inr (se_Blocklist demo_settings)"
  "validate_probe (c_Probe demo_config) = Inr (c_Probe demo_config)"
  "each (validate_service demo_config [] demo_state) () (c_Services demo_config) = Inr ((), demo_services)"
  "validate_overlaps [] demo_services = None"
  apply code_simp
  apply code_simp
  apply code_simp
  apply code_simp
  subgoal
    by (rule exI [of _ "\<lparr>sn_ids = [3, 2, 1], sn_tables = [103, 102, 101], sn_ifaces = [''wg-lte2'', ''wg-lte1'', ''wg-main''],
      sn_marks = [259, 258, 257]\<rparr>"]) code_simp
  apply code_simp+
  done

lemma demo_validates: "validate (\<lambda>z. True) (\<lambda>u. None) demo_settings = Inr demo_accepted"
proof -
  have cfg: "se_Config demo_settings = demo_config" "se_Protect demo_settings = demo_protect" by (simp_all add: demo_settings_def)
  have upd: "demo_config\<lparr>c_BackendLAN := TrimSpace (c_BackendLAN demo_config)\<rparr> = demo_config" "demo_config\<lparr>c_Linkers := []\<rparr> = demo_config"
    "demo_config\<lparr>c_Egress := []\<rparr> = demo_config" "demo_settings\<lparr>se_Config := demo_config\<rparr> = demo_settings"
    by (simp_all add: demo_config_def demo_settings_def TrimSpace_def)
  obtain sn where paths: "each (validate_path (\<lambda>z. True)) nothing_seen (c_Paths demo_config) = Inr (sn, demo_paths)"
    using demo_checks(5) by blast
  have "validate_rest (\<lambda>z. True) [] demo_settings = Inr demo_accepted"
    unfolding validate_rest_def Let_def cfg paths sum.case prod.case demo_checks demo_regions_ok option.case
    by (simp add: demo_accepted_def demo_settings_def demo_config_def)
  then show ?thesis
    unfolding validate_def demo_host sum.case cfg demo_checks option.case Let_def upd prod.case by simp
qed

theorem validated_paths_wf_witness: "wf_paths (c_Paths (se_Config demo_accepted))"
  by (rule validated_paths_wf [OF demo_validates])

theorem validated_ports_owned_witness:
  "length (filter (publishes ''tcp'' 80) (c_Services (se_Config demo_accepted))) \<le> 1 \<and> list_all row_ok (c_Services (se_Config demo_accepted))"
  by (rule validated_ports_owned [OF demo_validates])

theorem validated_locks_live_witness:
  "geoServices (ProtectSpecFrom (se_Protect demo_accepted) (se_Config demo_accepted))
      (geoRegionElems (ProtectSpecFrom (se_Protect demo_accepted) (se_Config demo_accepted))) =
    map protect_service demo_services"
proof -
  have "pc_Enabled (se_Protect demo_accepted)" by (simp add: demo_accepted_def demo_protect_def demo_settings_def)
  moreover have "sp_Services (ProtectSpecFrom (se_Protect demo_accepted) (se_Config demo_accepted)) = map protect_service demo_services"
    "filter (\<lambda>sv. ps_GeoRegions sv \<noteq> []) (map protect_service demo_services) = map protect_service demo_services"
    by (simp_all add: ProtectSpecFrom_def demo_accepted_def demo_protect_def demo_settings_def demo_services_def plain_service_def
        protect_service_def ToLower_def ascii_lower_def)
  ultimately show ?thesis using validated_locks_live [OF demo_validates] by simp
qed

theorem validated_fits_back_witness: "validate (\<lambda>z. True) (\<lambda>u. None) demo_accepted = Inr demo_accepted"
  by (rule validated_fits_back [OF demo_validates])

end
