(* ===== verification/Blocklist.thy ===== *)
theory Blocklist
  imports Validate
begin

text \<open>
  The drop list fed by a threat feed (\<open>sysx/blocklist.go\<close>, \<open>engine/blocklist.go\<close>): what a fetched list is
  reduced to, the two limits on what it may cover, the table and the set contents it is rendered to, and the
  life of the list in the engine. Two writers share the set: a save, which rebuilds the table under the apply
  lock, and the refresher, which loads elements under a lock of its own. The state below is the engine's
  blocklist fields, the cache file, and what the last loads that nft accepted left in the kernel: a table
  loaded from its ruleset has an empty set, a load of elements replaces the contents of the set.
\<close>

unbundle bit_operations_syntax

section \<open>Networks\<close>

definition NetworkLiteral :: "string \<Rightarrow> string" where
  "NetworkLiteral cidr = (case ParseCIDR4 (TrimSpace cidr) of None \<Rightarrow> '''' | Some (ip, ones) \<Rightarrow> net_String ip ones)"

fun EgressNetworks :: "string list \<Rightarrow> string list" where
  "EgressNetworks [] = []"
| "EgressNetworks (c # cs) = (let n = NetworkLiteral c in if n \<noteq> '''' then n # EgressNetworks cs else EgressNetworks cs)"

definition nonInternetDestinations :: "string list" where
  "nonInternetDestinations = [''0.0.0.0/8'', ''10.0.0.0/8'', ''100.64.0.0/10'', ''127.0.0.0/8'', ''169.254.0.0/16'',
     ''172.16.0.0/12'', ''192.168.0.0/16'', ''224.0.0.0/3'']"

text \<open>The span of a network is that of its block.\<close>

definition spans_meet :: "block \<Rightarrow> block \<Rightarrow> bool" where
  "spans_meet a b \<longleftrightarrow> bl_start a \<le> bl_end b \<and> bl_start b \<le> bl_end a"

definition dropNonInternet :: "string list \<Rightarrow> string list" where
  "dropNonInternet cidrs =
     (let bad = List.map_filter parse_block nonInternetDestinations
      in filter (\<lambda>c. case parse_block c of None \<Rightarrow> False | Some sp \<Rightarrow> \<not> list_ex (spans_meet sp) bad) cidrs)"

definition blocklistElements :: "string list \<Rightarrow> string list" where
  "blocklistElements networks = mergeCIDRs (dropNonInternet (EgressNetworks networks))"

definition BlocklistMinPrefix :: int where "BlocklistMinPrefix = 8"
definition BlocklistMaxCoverage :: uint64 where "BlocklistMaxCoverage = push_bit 27 1"

datatype feed_error =
  FeedNoAnswer | FeedStatus int | FeedReadFailed | FeedTooLarge | FeedTooMany | FeedBadLine nat | FeedEmpty
| FeedShortPrefix | FeedCoverage | FeedShrank nat nat

text \<open>The figure after the last slash (the whole text where there is none).\<close>

definition after_slash :: "string \<Rightarrow> string" where
  "after_slash c = rev (takeWhile (\<lambda>ch. ch \<noteq> CHR ''/'') (rev c))"

fun check_coverage :: "uint64 \<Rightarrow> string list \<Rightarrow> feed_error + uint64" where
  "check_coverage covered [] = Inr covered"
| "check_coverage covered (c # cs) =
     (case Atoi (after_slash c) of
        None \<Rightarrow> check_coverage covered cs
      | Some ones \<Rightarrow>
          if ones < 0 \<or> ones > 32 then check_coverage covered cs
          else if ones < BlocklistMinPrefix then Inl FeedShortPrefix
          else check_coverage (covered + push_bit (nat (32 - ones)) 1) cs)"

definition CheckBlocklist :: "string list \<Rightarrow> feed_error + string list" where
  "CheckBlocklist networks =
     (let elems = blocklistElements networks
      in case check_coverage 0 elems of Inl e \<Rightarrow> Inl e
         | Inr covered \<Rightarrow> if covered > BlocklistMaxCoverage then Inl FeedCoverage else Inr elems)"

section \<open>The rendered table and set contents\<close>

definition nftMaxString :: nat where "nftMaxString = 120"

definition nftSafe :: "string \<Rightarrow> string" where
  "nftSafe s = take nftMaxString (filter (\<lambda>c. 0x20 \<le> (of_char c :: nat) \<and> (of_char c :: nat) < 0x7f \<and> c \<noteq> CHR 0x22 \<and> c \<noteq> CHR 0x5c) s)"

text \<open>\<open>%q\<close> of a text without quotes, backslashes and control characters.\<close>

definition quoted :: "string \<Rightarrow> string" where "quoted s = [CHR 0x22] @ s @ [CHR 0x22]"

definition lines_of :: "string list \<Rightarrow> string" where
  "lines_of ls = concat (map (\<lambda>l. l @ [CHR 10]) ls)"

abbreviation tab :: string where "tab \<equiv> [CHR 9]"

definition NFTBlocklistTable :: string where "NFTBlocklistTable = ''failover_blocklist''"
definition CounterBlocklist :: string where "CounterBlocklist = ''blocklist''"
definition BlocklistFeedSet :: string where "BlocklistFeedSet = ''feed''"
definition BlocklistAllowSet :: string where "BlocklistAllowSet = ''allow''"
definition blocklistPriority :: int where "blocklistPriority = - 310"

record BlocklistSpec =
  bs_Enabled :: bool
  bs_PublicIface :: string
  bs_Exceptions :: "string list"

definition blocklist_sets :: "string list \<Rightarrow> string list" where
  "blocklist_sets allow =
     [tab @ ''set '' @ BlocklistFeedSet @ '' {'', tab @ tab @ ''type ipv4_addr'', tab @ tab @ ''flags interval'',
      tab @ tab @ ''comment '' @ quoted ''networks from the threat feed; loaded by the agent, not from the packet path'',
      tab @ ''}'', ''''] @
     (if length allow > 0 then
       [tab @ ''set '' @ BlocklistAllowSet @ '' {'', tab @ tab @ ''type ipv4_addr'', tab @ tab @ ''flags interval'',
        tab @ tab @ ''comment '' @ quoted ''networks the operator has exempted from the feed'',
        tab @ tab @ ''elements = { '' @ geoElements allow @ '' }'', tab @ ''}'', '''']
      else [])"

definition blocklist_chain :: "string \<Rightarrow> string list \<Rightarrow> string list" where
  "blocklist_chain iface allow =
     [tab @ ''chain raw {'',
      tab @ tab @ ''type filter hook prerouting priority '' @ Itoa blocklistPriority @ ''; policy accept;'',
      tab @ tab @ ''iifname != '' @ quoted (nftSafe iface) @ '' accept''] @
     (if length allow > 0 then
       [tab @ tab @ ''# The operator's exceptions, ahead of the feed: the feed is the one'',
        tab @ tab @ ''# list here nobody in this deployment reviewed, and a false positive'',
        tab @ tab @ ''# in it is a visitor who cannot connect with nothing saying why.'',
        tab @ tab @ ''ip saddr @'' @ BlocklistAllowSet @ '' accept'']
      else []) @
     [tab @ tab @ ''# TCP only, deliberately. A false positive on a UDP game port would'',
      tab @ tab @ ''# drop a player mid-match; on TCP it is a connection that does not'',
      tab @ tab @ ''# open, which is the recoverable direction. Stateless and on every'',
      tab @ tab @ ''# packet, like the region locks: the set answer is fixed per address,'',
      tab @ tab @ ''# so a source the list admits can never be newly caught, a listed'',
      tab @ tab @ ''# flood costs no conntrack entry, and a source appearing in the feed'',
      tab @ tab @ ''# also ends flows already in progress.'',
      tab @ tab @ ''meta l4proto tcp ip saddr @'' @ BlocklistFeedSet @ '' counter drop comment '' @ quoted CounterBlocklist,
      tab @ ''}'']"

definition BuildBlocklistRuleset :: "BlocklistSpec \<Rightarrow> string" where
  "BuildBlocklistRuleset spec =
     (let iface = TrimSpace (bs_PublicIface spec)
      in if \<not> bs_Enabled spec \<or> iface = '''' then ''''
         else let allow = mergeCIDRs (EgressNetworks (bs_Exceptions spec))
         in lines_of (
           [''# generated by failover-frontend - do not edit by hand'',
            ''# a drop list in front of every TCP port, from a threat feed this'',
            ''# host refreshes on a timer. the elements of the feed set are loaded'',
            ''# separately (see blocklist-feed.nft) so a refresh touches no rule'',
            ''# and resets no counter. scoped to the public interface, so probes,'',
            ''# the control channel and overlay traffic are out of reach of it.'', '''',
            ''table ip '' @ NFTBlocklistTable, ''delete table ip '' @ NFTBlocklistTable, '''',
            ''table ip '' @ NFTBlocklistTable @ '' {''] @
           blocklist_sets allow @ blocklist_chain iface allow @ [''}'']))"

definition RenderBlocklistElements :: "string list \<Rightarrow> string" where
  "RenderBlocklistElements elems =
     (if length elems = 0 then ''''
      else lines_of
        [''# generated by failover-frontend - do not edit by hand'',
         ''# the threat feed's networks. flush and add in one transaction, so'',
         ''# the set is never half replaced and no rule or counter is touched.'', '''',
         ''flush set ip '' @ NFTBlocklistTable @ '' '' @ BlocklistFeedSet,
         ''add element ip '' @ NFTBlocklistTable @ '' '' @ BlocklistFeedSet @ '' {'',
         tab @ tab @ tab @ geoElements elems, ''}''])"

definition BuildBlocklistElements :: "string list \<Rightarrow> string" where
  "BuildBlocklistElements networks = RenderBlocklistElements (blocklistElements networks)"

section \<open>Reading the feed\<close>

definition blocklistFeedURL :: string where
  "blocklistFeedURL = ''https://iplists.firehol.org/files/firehol_level1.netset''"

definition blocklistMaxBytes :: nat where "blocklistMaxBytes = 8388608"
definition blocklistMaxNetworks :: nat where "blocklistMaxNetworks = 200000"
definition blocklistShrinkFloor :: float64 where "blocklistShrinkFloor = Fin (1 / 2)"
definition blocklistRetryEvery :: duration where "blocklistRetryEvery = 15 * 60 * 1000000000"

text \<open>A line to skip, and the network of any other line (\<open>None\<close> is a line that is neither network nor address).\<close>

definition skipped_line :: "string \<Rightarrow> bool" where
  "skipped_line line \<longleftrightarrow> line = '''' \<or> hd line = CHR ''#'' \<or> hd line = CHR '';''"

definition feed_line :: "string \<Rightarrow> string option" where
  "feed_line line =
     (if CHR ''/'' \<notin> set line then
        (case ParseIP line of None \<Rightarrow> None
         | Some ip \<Rightarrow> (case To4 ip of None \<Rightarrow> None | Some b \<Rightarrow> Some (dotted b @ ''/32'')))
      else let n = NetworkLiteral line in if n \<noteq> '''' then Some n else None)"

fun feed_lines :: "nat \<Rightarrow> string list \<Rightarrow> string list \<Rightarrow> feed_error + string list" where
  "feed_lines i out [] = Inr out"
| "feed_lines i out (raw # raws) =
     (let line = TrimSpace raw
      in if skipped_line line then feed_lines (i + 1) out raws
         else if length out \<ge> blocklistMaxNetworks then Inl FeedTooMany
         else case feed_line line of None \<Rightarrow> Inl (FeedBadLine (i + 1))
              | Some n \<Rightarrow> feed_lines (i + 1) (out @ [n]) raws)"

definition parseBlocklistBody :: "string \<Rightarrow> feed_error + string list" where
  "parseBlocklistBody body =
     (case feed_lines 0 [] (split_on (CHR 10) body) of Inl e \<Rightarrow> Inl e
      | Inr out \<Rightarrow> if length out = 0 then Inl FeedEmpty else Inr out)"

text \<open>What the HTTP client answers: \<open>None\<close> is a failed request; the body is everything the server would send,
  broken off where reading it fails.\<close>

record feed_reply =
  fr_status :: int
  fr_body :: string
  fr_etag :: string
  fr_broken :: bool

definition fetchBlocklist :: "string \<Rightarrow> feed_reply option \<Rightarrow> feed_error + (string list \<times> string \<times> bool)" where
  "fetchBlocklist etag reply =
     (case reply of None \<Rightarrow> Inl FeedNoAnswer
      | Some resp \<Rightarrow>
          if fr_status resp = 304 then Inr ([], etag, True)
          else if fr_status resp \<noteq> 200 then Inl (FeedStatus (fr_status resp))
          else let body = take (blocklistMaxBytes + 1) (fr_body resp)
          in if fr_broken resp \<and> length body \<le> blocklistMaxBytes then Inl FeedReadFailed
             else if length body > blocklistMaxBytes then Inl FeedTooLarge
             else case parseBlocklistBody body of Inl e \<Rightarrow> Inl e | Inr nets \<Rightarrow> Inr (nets, fr_etag resp, False))"

section \<open>The list in the engine\<close>

record blocklistCache =
  ch_Source :: string
  ch_Fetched :: gotime
  ch_ETag :: string
  ch_Networks :: "string list"

record ProtectCounter =
  pk_Packets :: int
  pk_Bytes :: int

datatype blocklist_event = BlocklistNoIface | BlocklistApplyFailed | BlocklistLoadFailed | BlocklistRefused

text \<open>What nft was last made to hold: the ruleset a table was loaded from, and the contents of its feed set.\<close>

record feed_table =
  ft_rules :: string
  ft_feed :: "string list"

text \<open>\<open>bt_fetching\<close> is the refresher between deciding to fetch and having the answer, \<open>bt_pending\<close> between accepting a list and loading it; \<open>bt_saving\<close> is a save (or the start of the
  process) between the swap of the configuration and the apply that follows it in the same critical section of
  \<open>reconfMu\<close>. \<open>bt_armed\<close> is \<open>runner.Applying()\<close>.\<close>

record Blocklister =
  bt_cfg :: Settings
  bt_armed :: bool
  bt_reverted :: bool
  bt_URL :: string
  bt_Networks :: "string list"
  bt_Elems :: "string list"
  bt_Count :: nat
  bt_Updated :: gotime
  bt_Etag :: string
  bt_LastTry :: gotime
  bt_LastErr :: "feed_error option"
  bt_On :: bool
  bt_Applied :: string
  bt_LoadFailed :: gotime
  bt_LoadErr :: string
  bt_Refused :: bool
  bt_Counter :: ProtectCounter
  bt_wake :: bool
  bt_fetching :: bool
  bt_pending :: bool
  bt_saving :: bool
  bt_file :: "blocklistCache option"
  bt_kernel :: "feed_table option"
  bt_events :: "blocklist_event list"

definition bl_AddEvent :: "blocklist_event \<Rightarrow> Blocklister \<Rightarrow> Blocklister" where
  "bl_AddEvent ev bt = bt\<lparr>bt_events := bt_events bt @ [ev]\<rparr>"

definition wakeBlocklist :: "Blocklister \<Rightarrow> Blocklister" where
  "wakeBlocklist bt = bt\<lparr>bt_wake := True\<rparr>"

definition rememberBlocklist :: "string list \<Rightarrow> Blocklister \<Rightarrow> feed_error + Blocklister" where
  "rememberBlocklist nets bt =
     (case CheckBlocklist nets of Inl e \<Rightarrow> Inl e
      | Inr elems \<Rightarrow> Inr (bt\<lparr>bt_Networks := nets, bt_Elems := elems, bt_Count := length elems\<rparr>))"

text \<open>\<open>c\<close> is the decoded cache file, \<open>None\<close> where it is missing or does not decode.\<close>

definition loadBlocklistCache :: "blocklistCache option \<Rightarrow> Blocklister \<Rightarrow> Blocklister" where
  "loadBlocklistCache c bt =
     (case c of None \<Rightarrow> bt
      | Some c \<Rightarrow>
          (case rememberBlocklist (ch_Networks c) bt of Inl e \<Rightarrow> bt
           | Inr bt \<Rightarrow> if ch_Source c = bt_URL bt then bt\<lparr>bt_Updated := ch_Fetched c, bt_Etag := ch_ETag c\<rparr> else bt))"

text \<open>\<open>ok\<close>: both the write of the temporary file and the rename succeeded.\<close>

definition saveBlocklistCache :: "bool \<Rightarrow> blocklistCache \<Rightarrow> Blocklister \<Rightarrow> Blocklister" where
  "saveBlocklistCache ok c bt = (if ok then bt\<lparr>bt_file := Some c\<rparr> else bt)"

definition forgetBlocklistTable :: "Blocklister \<Rightarrow> Blocklister" where
  "forgetBlocklistTable bt = bt\<lparr>bt_On := False, bt_Applied := '''', bt_Counter := \<lparr>pk_Packets = 0, pk_Bytes = 0\<rparr>\<rparr>"

definition forgetBlocklistLoadFailure :: "Blocklister \<Rightarrow> Blocklister" where
  "forgetBlocklistLoadFailure bt = bt\<lparr>bt_LoadFailed := 0, bt_LoadErr := ''''\<rparr>"

text \<open>\<open>refused\<close> is what nft said where it refused the load.\<close>

definition loadBlocklistElements :: "gotime \<Rightarrow> string option \<Rightarrow> Blocklister \<Rightarrow> Blocklister" where
  "loadBlocklistElements now refused bt =
     (if \<not> bt_On bt \<or> \<not> bt_armed bt \<or> length (bt_Networks bt) = 0 then forgetBlocklistLoadFailure bt
      else if RenderBlocklistElements (bt_Elems bt) = '''' then forgetBlocklistLoadFailure bt
      else case refused of
             Some err \<Rightarrow> (bl_AddEvent BlocklistLoadFailed bt)\<lparr>bt_LoadFailed := now, bt_LoadErr := err\<rparr>
           | None \<Rightarrow> forgetBlocklistLoadFailure (bt\<lparr>bt_kernel := map_option (\<lambda>t. t\<lparr>ft_feed := bt_Elems bt\<rparr>) (bt_kernel bt)\<rparr>))"

definition installBlocklistElements :: "gotime \<Rightarrow> string option \<Rightarrow> Blocklister \<Rightarrow> Blocklister" where
  "installBlocklistElements now refused bt = loadBlocklistElements now refused bt"

definition blocklistRefreshInterval :: "BlocklistConfig \<Rightarrow> duration" where
  "blocklistRefreshInterval bl =
     (let h = bk_RefreshHours bl;
          h = (if h = 0 then DefaultBlocklistRefreshHours else h);
          h = (if h < MinBlocklistRefreshHours then MinBlocklistRefreshHours else h);
          h = (if h > MaxBlocklistRefreshHours then MaxBlocklistRefreshHours else h)
      in h * 3600000000000)"

definition refuseBlocklist :: "gotime \<Rightarrow> feed_error \<Rightarrow> Blocklister \<Rightarrow> Blocklister" where
  "refuseBlocklist now status bt =
     (let first = \<not> bt_Refused bt; bt = bt\<lparr>bt_LastTry := now, bt_LastErr := Some status, bt_Refused := True\<rparr>
      in if first then bl_AddEvent BlocklistRefused bt else bt)"

definition implausible_shrink :: "nat \<Rightarrow> nat \<Rightarrow> bool" where
  "implausible_shrink returned previous \<longleftrightarrow>
     previous > 0 \<and> flt (f_of_int (int returned)) (fmul blocklistShrinkFloor (f_of_int (int previous)))"

text \<open>One attempt up to the load: \<open>reply\<close> is what the feed answered, \<open>saved\<close> whether the cache file was replaced.\<close>

definition refreshBlocklist :: "gotime \<Rightarrow> feed_reply option \<Rightarrow> bool \<Rightarrow> Blocklister \<Rightarrow> Blocklister" where
  "refreshBlocklist now reply saved bt =
     (let previous = length (bt_Networks bt)
      in case fetchBlocklist (bt_Etag bt) reply of
           Inl e \<Rightarrow> bt\<lparr>bt_LastTry := now, bt_LastErr := Some e\<rparr>
         | Inr (networks, newEtag, notModified) \<Rightarrow>
             if notModified then
               (let bt = bt\<lparr>bt_LastTry := now, bt_LastErr := None, bt_Updated := now\<rparr>
                in saveBlocklistCache saved
                     \<lparr>ch_Source = bt_URL bt, ch_Fetched = now, ch_ETag = bt_Etag bt, ch_Networks = bt_Networks bt\<rparr> bt)
             else if implausible_shrink (length networks) previous then
               refuseBlocklist now (FeedShrank (length networks) previous) bt
             else (case rememberBlocklist networks bt of
                     Inl FeedCoverage \<Rightarrow> refuseBlocklist now FeedCoverage bt
                   | Inl e \<Rightarrow> bt\<lparr>bt_LastTry := now, bt_LastErr := Some e\<rparr>
                   | Inr bt \<Rightarrow>
                       (let bt = bt\<lparr>bt_Updated := now, bt_LastTry := now, bt_LastErr := None, bt_Etag := newEtag, bt_Refused := False\<rparr>
                        in (saveBlocklistCache saved
                              \<lparr>ch_Source = bt_URL bt, ch_Fetched = now, ch_ETag = newEtag, ch_Networks = networks\<rparr> bt)
                             \<lparr>bt_pending := True\<rparr>)))"

text \<open>A pass of \<open>maybeRefreshBlocklist\<close>: whether it does anything, whether a refused load is due again, and whether a
  fetch is.\<close>

definition refresher_works :: "Blocklister \<Rightarrow> bool" where
  "refresher_works bt \<longleftrightarrow> \<not> (\<not> bk_Enabled (se_Blocklist (bt_cfg bt)) \<or> bt_reverted bt)"

definition load_due :: "gotime \<Rightarrow> Blocklister \<Rightarrow> bool" where
  "load_due now bt \<longleftrightarrow> \<not> IsZero (bt_LoadFailed bt) \<and> \<not> now < time_Add (bt_LoadFailed bt) blocklistRetryEvery"

definition fetch_due :: "gotime \<Rightarrow> Blocklister \<Rightarrow> bool" where
  "fetch_due now bt =
     (let interval = blocklistRefreshInterval (se_Blocklist (bt_cfg bt));
          due = (if bt_Refused bt then time_Add (bt_LastTry bt) interval
                 else if bt_LastErr bt \<noteq> None \<or> length (bt_Networks bt) = 0 then time_Add (bt_LastTry bt) blocklistRetryEvery
                 else time_Add (bt_Updated bt) interval)
      in \<not> now < due)"

section \<open>The table\<close>

text \<open>What the calls of one apply met: whether the removal of the table worked, whether its ruleset was written and
  accepted, and what a refused load of the elements said.\<close>

record apply_result =
  ap_removed :: bool
  ap_ok :: bool
  ap_refused :: "string option"
  ap_now :: gotime

definition blocklist_ruleset :: "Settings \<Rightarrow> string" where
  "blocklist_ruleset cfg =
     BuildBlocklistRuleset \<lparr>bs_Enabled = bk_Enabled (se_Blocklist cfg), bs_PublicIface = fe_PublicIface (c_Frontend (se_Config cfg)),
       bs_Exceptions = bk_Exceptions (se_Blocklist cfg)\<rparr>"

definition applyBlocklist :: "apply_result \<Rightarrow> Blocklister \<Rightarrow> Blocklister" where
  "applyBlocklist r bt =
     (let cfg = bt_cfg bt; ruleset = blocklist_ruleset cfg
      in if ruleset = '''' then
           (let bt = (if bk_Enabled (se_Blocklist cfg) \<and> TrimSpace (fe_PublicIface (c_Frontend (se_Config cfg))) = ''''
                      then bl_AddEvent BlocklistNoIface bt else bt)
            in forgetBlocklistTable (bt\<lparr>bt_kernel := (if ap_removed r then None else bt_kernel bt)\<rparr>))
         else if bt_armed bt \<and> bt_On bt \<and> bt_Applied bt = ruleset then bt
         else if \<not> ap_ok r then (bl_AddEvent BlocklistApplyFailed bt)\<lparr>bt_Applied := ''''\<rparr>
         else if bt_armed bt then
           wakeBlocklist (loadBlocklistElements (ap_now r) (ap_refused r)
             (bt\<lparr>bt_kernel := Some \<lparr>ft_rules = ruleset, ft_feed = []\<rparr>, bt_On := True, bt_Applied := ruleset,
                 bt_Counter := \<lparr>pk_Packets = 0, pk_Bytes = 0\<rparr>\<rparr>))
         else wakeBlocklist (bt\<lparr>bt_Applied := ''''\<rparr>))"

text \<open>The readback of the counter: \<open>Inl missing\<close> is an error, \<open>missing\<close> where nft said there is no such table
  (\<open>TableMissing\<close>).\<close>

definition sampleBlocklistCounter :: "bool + ProtectCounter \<Rightarrow> Blocklister \<Rightarrow> Blocklister" where
  "sampleBlocklistCounter res bt =
     (case res of
        Inl missing \<Rightarrow> (let bt = bt\<lparr>bt_Applied := ''''\<rparr> in if missing then forgetBlocklistTable bt else bt)
      | Inr c \<Rightarrow> bt\<lparr>bt_On := True, bt_Counter := c\<rparr>)"

section \<open>Saves, reverts and restarts, as far as they touch the list\<close>

definition bl_swap :: "Settings \<Rightarrow> Blocklister \<Rightarrow> Blocklister" where
  "bl_swap cfg bt = bt\<lparr>bt_cfg := cfg, bt_armed := (c_Mode (se_Config cfg) = ModeArmed), bt_reverted := False, bt_saving := True\<rparr>"

definition bl_revert :: "bool \<Rightarrow> Blocklister \<Rightarrow> Blocklister" where
  "bl_revert removed bt =
     forgetBlocklistTable (bt\<lparr>bt_reverted := True, bt_kernel := (if removed then None else bt_kernel bt),
       bt_cfg := (bt_cfg bt)\<lparr>se_Config := (se_Config (bt_cfg bt))\<lparr>c_Mode := ModeObserve\<rparr>\<rparr>, bt_armed := False\<rparr>)"

text \<open>A new process over the configuration, latch, cache file and table of the one before; a latched one applies
  nothing.\<close>

definition bl_boot :: "bool \<Rightarrow> Settings \<Rightarrow> bool \<Rightarrow> blocklistCache option \<Rightarrow> feed_table option \<Rightarrow> Blocklister" where
  "bl_boot readable cfg latched cache table =
     loadBlocklistCache (if readable then cache else None)
       \<lparr>bt_cfg = cfg, bt_armed = (c_Mode (se_Config cfg) = ModeArmed), bt_reverted = latched, bt_URL = blocklistFeedURL,
        bt_Networks = [], bt_Elems = [], bt_Count = 0, bt_Updated = 0, bt_Etag = '''', bt_LastTry = 0, bt_LastErr = None,
        bt_On = False, bt_Applied = '''', bt_LoadFailed = 0, bt_LoadErr = '''', bt_Refused = False,
        bt_Counter = \<lparr>pk_Packets = 0, pk_Bytes = 0\<rparr>, bt_wake = False, bt_fetching = False, bt_pending = False, bt_saving = \<not> latched,
        bt_file = cache, bt_kernel = table, bt_events = []\<rparr>"


text \<open>The steps of the two writers, the sampler and the operator. A pass of the refresher is \<open>BlRetry\<close>, \<open>BlFetch\<close>, which
  decides to fetch, \<open>BlRefresh\<close>, which has the answer, up to a minute later and whatever was saved, reverted or disabled
  meanwhile, and, where a list was accepted, \<open>BlInstall\<close>. No other goroutine writes the list or its tag, so \<open>BlRefresh\<close>
  reads both as \<open>BlFetch\<close> found them. A save is \<open>BlSwap\<close> and \<open>BlApply\<close>, with neither another save nor a revert
  in between. A sample reads the table as it is, or fails for a reason of its own. A restart may come at any moment and
  find a configuration and a latch written just before it.\<close>

datatype bl_op =
  BlRetry gotime "string option" | BlFetch gotime | BlRefresh gotime "feed_reply option" bool | BlInstall gotime "string option"
| BlSwap Settings | BlApply apply_result | BlRevert bool | BlSample bool ProtectCounter | BlRestart bool Settings bool

definition sample_answer :: "bool \<Rightarrow> ProtectCounter \<Rightarrow> Blocklister \<Rightarrow> bool + ProtectCounter" where
  "sample_answer ok c bt = (if \<not> ok then Inl False else if bt_kernel bt = None then Inl True else Inr c)"

fun bl_step :: "Blocklister \<Rightarrow> bl_op \<Rightarrow> Blocklister" where
  "bl_step bt (BlRetry now refused) =
     (if \<not> bt_pending bt \<and> \<not> bt_fetching bt \<and> refresher_works bt \<and> load_due now bt then installBlocklistElements now refused bt else bt)"
| "bl_step bt (BlFetch now) =
     (if \<not> bt_pending bt \<and> \<not> bt_fetching bt \<and> refresher_works bt \<and> fetch_due now bt then bt\<lparr>bt_fetching := True\<rparr> else bt)"
| "bl_step bt (BlRefresh now reply saved) =
     (if bt_fetching bt then (refreshBlocklist now reply saved bt)\<lparr>bt_fetching := False\<rparr> else bt)"
| "bl_step bt (BlInstall now refused) =
     (if bt_pending bt then (installBlocklistElements now refused bt)\<lparr>bt_pending := False\<rparr> else bt)"
| "bl_step bt (BlSwap cfg) = (if bt_saving bt then bt else bl_swap cfg bt)"
| "bl_step bt (BlApply r) = (if bt_saving bt then (applyBlocklist r bt)\<lparr>bt_saving := False\<rparr> else bt)"
| "bl_step bt (BlRevert removed) = (if bt_saving bt then bt else bl_revert removed bt)"
| "bl_step bt (BlSample ok c) = sampleBlocklistCounter (sample_answer ok c bt) bt"
| "bl_step bt (BlRestart readable cfg latched) = bl_boot readable cfg latched (bt_file bt) (bt_kernel bt)"

section \<open>What the portal shows\<close>

definition blocklistStaleAfter :: duration where "blocklistStaleAfter = 48 * 3600000000000"

record BlocklistStatus =
  bz_Networks :: nat
  bz_Exceptions :: nat
  bz_Source :: string
  bz_UpdatedAt :: gotime
  bz_LastTry :: gotime
  bz_LastError :: "feed_error option"
  bz_LoadError :: string
  bz_Loaded :: bool
  bz_Packets :: int
  bz_Bytes :: int
  bz_Stale :: bool

text \<open>\<open>Stale\<close> compares hours as doubles in the code; both sides are a duration over the same unit. \<open>AgeHours\<close>, shown and
  never compared, is left out.\<close>

definition blocklistStatus :: "gotime \<Rightarrow> Blocklister \<Rightarrow> BlocklistStatus option" where
  "blocklistStatus now bt =
     (if \<not> bk_Enabled (se_Blocklist (bt_cfg bt)) then None
      else Some \<lparr>bz_Networks = bt_Count bt, bz_Exceptions = length (bk_Exceptions (se_Blocklist (bt_cfg bt))),
                 bz_Source = bt_URL bt, bz_UpdatedAt = bt_Updated bt, bz_LastTry = bt_LastTry bt, bz_LastError = bt_LastErr bt,
                 bz_LoadError = bt_LoadErr bt, bz_Loaded = bt_On bt, bz_Packets = pk_Packets (bt_Counter bt),
                 bz_Bytes = pk_Bytes (bt_Counter bt),
                 bz_Stale = (\<not> IsZero (bt_Updated bt) \<and> time_Sub now (bt_Updated bt) \<ge> blocklistStaleAfter)\<rparr>)"

end
