(* ===== verification/BlocklistProps.thy ===== *)
theory BlocklistProps
  imports Blocklist ProtectProps
begin

text \<open>
  What the blocklist promises. A judged list covers exactly the public part of what the feed lists, within the two
  limits; a download counts whole or not at all; the list in memory is only ever replaced by one that passed every
  guard; and in every interleaving of the refresher with saves, reverts, samples and restarts the set in the kernel
  is the list, or a retry is due that makes it so.
\<close>

section \<open>What a list covers\<close>

lemma parse_block_text: "parse_block c = Some b \<Longrightarrow> NetworkLiteral c = bl_text b"
  by (auto simp: parse_block_def NetworkLiteral_def)

lemma net_String_nonempty: "net_String ip n \<noteq> ''''"
  by (simp add: net_String_def)

lemma NetworkLiteral_block: "NetworkLiteral c \<noteq> '''' \<longleftrightarrow> parse_block c \<noteq> None"
  by (auto simp: parse_block_def NetworkLiteral_def net_String_nonempty split: option.splits)

lemma NetworkLiteral_same: "parse_block c = Some b \<Longrightarrow> parse_block (NetworkLiteral c) = Some b"
  by (simp add: parse_block_text parse_block_spec(2))

lemma EgressNetworks_set: "n \<in> set (EgressNetworks cs) \<longleftrightarrow> (\<exists>c \<in> set cs. n = NetworkLiteral c \<and> n \<noteq> '''')"
  by (induction cs) (auto simp: Let_def)

text \<open>An address of the reserved ranges, and a listed network that stays clear of them.\<close>

definition reserved_addr :: "32 word \<Rightarrow> bool" where
  "reserved_addr a \<longleftrightarrow> list_ex (covers_addr a) nonInternetDestinations"

definition clear_network :: "string \<Rightarrow> bool" where
  "clear_network c \<longleftrightarrow> (\<exists>b. parse_block c = Some b \<and>
     \<not> list_ex (spans_meet b) (List.map_filter parse_block nonInternetDestinations))"

lemma clear_network_literal: "NetworkLiteral c \<noteq> '''' \<and> clear_network (NetworkLiteral c) \<longleftrightarrow> clear_network c"
proof (cases "parse_block c")
  case None
  then show ?thesis using NetworkLiteral_block [of c] by (auto simp: clear_network_def)
next
  case (Some b)
  then show ?thesis using NetworkLiteral_block [of c] by (simp add: clear_network_def NetworkLiteral_same)
qed

lemma dropNonInternet_clear: "dropNonInternet cs = filter clear_network cs"
  by (auto simp: dropNonInternet_def Let_def clear_network_def intro!: filter_cong split: option.splits)

lemma kept_networks:
  "n \<in> set (dropNonInternet (EgressNetworks nets)) \<longleftrightarrow> (\<exists>c \<in> set nets. n = NetworkLiteral c \<and> clear_network c)"
  unfolding dropNonInternet_clear using clear_network_literal by (fastforce simp: EgressNetworks_set)

lemma covers_literal: "clear_network c \<Longrightarrow> covers_addr a (NetworkLiteral c) = covers_addr a c"
  by (auto simp: clear_network_def covers_addr_def NetworkLiteral_same)

lemma elements_cover:
  "list_ex (covers_addr a) (blocklistElements nets) \<longleftrightarrow> (\<exists>c \<in> set nets. clear_network c \<and> covers_addr a c)"
proof -
  have "list_ex (covers_addr a) (blocklistElements nets) \<longleftrightarrow>
      (\<exists>n \<in> set (dropNonInternet (EgressNetworks nets)). covers_addr a n)"
    unfolding blocklistElements_def mergeCIDRs_covers by (simp add: list_ex_iff)
  also have "\<dots> \<longleftrightarrow> (\<exists>c \<in> set nets. clear_network c \<and> covers_addr a c)"
    unfolding Bex_def kept_networks using covers_literal by blast
  finally show ?thesis .
qed

lemma clear_not_reserved:
  assumes "clear_network c" and "covers_addr a c"
  shows "\<not> reserved_addr a"
proof
  assume "reserved_addr a"
  then obtain r where r: "r \<in> set nonInternetDestinations" "covers_addr a r" by (auto simp: reserved_addr_def list_ex_iff)
  then obtain d where d: "parse_block r = Some d" "in_block a d" by (auto simp: covers_addr_def split: option.splits)
  obtain b where b: "parse_block c = Some b" "in_block a b" using assms(2) by (auto simp: covers_addr_def split: option.splits)
  have "spans_meet b d" using b(2) d(2) by (auto simp: in_block_def spans_meet_def word_le_def)
  moreover have "d \<in> set (List.map_filter parse_block nonInternetDestinations)"
    using r(1) d(1) by (auto simp: set_map_filter_parse)
  ultimately show False using assms(1) b(1) by (auto simp: clear_network_def list_ex_iff)
qed

section \<open>How much a list covers\<close>

definition block_size :: "block \<Rightarrow> int" where
  "block_size b = uint (bl_end b) - uint (bl_start b) + 1"

text \<open>The prefix length read off the text of an element is that of its block.\<close>

lemma after_slash_net: "after_slash (net_String ip n) = Itoa (int n)"
proof -
  have "after_slash (xs @ ''/'' @ dec_digits n) = dec_digits n" for xs
  proof -
    have "CHR ''/'' \<notin> set (rev (dec_digits n))" by simp
    then have "takeWhile (\<lambda>ch. ch \<noteq> CHR ''/'') (rev (dec_digits n) @ CHR ''/'' # rev xs) = rev (dec_digits n)"
      by (simp add: takeWhile_append2 takeWhile_eq_all_conv takeWhile_append)
    then show ?thesis by (simp add: after_slash_def)
  qed
  from this [of "Itoa (byte_of 3 ip) @ ''.'' @ Itoa (byte_of 2 ip) @ ''.'' @ Itoa (byte_of 1 ip) @ ''.'' @ Itoa (byte_of 0 ip)"]
  show ?thesis by (simp add: net_String_def Itoa_def)
qed

lemma block_ones:
  assumes "parse_block c = Some b"
  shows "\<exists>n \<le> 32. Atoi (after_slash (bl_text b)) = Some (int n) \<and> block_size b = 2 ^ (32 - n)"
proof -
  obtain ip n where p: "ParseCIDR4 (TrimSpace c) = Some (ip, n)"
    and b: "b = \<lparr>bl_start = ip, bl_end = ip OR drop_bit n (- 1), bl_text = net_String ip n\<rparr>"
    using assms by (auto simp: parse_block_def)
  obtain ip' where ip': "ip = ip' AND prefix_mask n" and n: "n \<le> 32"
    using p by (auto simp: ParseCIDR4_def Let_def split: option.splits if_splits)
  have "uint (ip OR mask (32 - n)) = uint ip + 2 ^ (32 - n) - 1"
    using network_bounds [OF network_start, of n ip'] unfolding ip' by simp
  then have "block_size b = 2 ^ (32 - n)" by (simp add: block_size_def b ones_mask)
  moreover have "Atoi (after_slash (bl_text b)) = Some (int n)"
    using n by (simp add: b after_slash_net Atoi_Itoa in_int64_def minInt64_def maxInt64_def)
  ultimately show ?thesis using n by blast
qed

lemma disjoint_sizes:
  assumes "sorted_wrt (\<lambda>b c. uint (bl_end b) < uint (bl_start c)) bs" and "list_all (\<lambda>b. lo \<le> uint (bl_start b)) bs" and "lo \<le> 2 ^ 32"
    and "list_all (\<lambda>b. uint (bl_start b) \<le> uint (bl_end b)) bs"
  shows "(\<Sum>b\<leftarrow>bs. block_size b) \<le> 2 ^ 32 - lo"
  using assms
proof (induction bs arbitrary: lo)
  case Nil
  then show ?case by simp
next
  case (Cons b bs)
  have e: "uint (bl_end b) < 2 ^ 32" using uint_lt2p [of "bl_end b"] by simp
  have "(\<Sum>b\<leftarrow>bs. block_size b) \<le> 2 ^ 32 - (uint (bl_end b) + 1)"
    using Cons.prems e by (intro Cons.IH) (auto simp: list_all_iff)
  then show ?case using Cons.prems by (simp add: block_size_def)
qed

text \<open>On the elements of disjoint blocks the running sum is the number of addresses, and does not wrap.\<close>

lemma check_coverage_exact:
  assumes "list_all (\<lambda>b. \<exists>c. parse_block c = Some b) bs" and "uint covered + (\<Sum>b\<leftarrow>bs. block_size b) < 2 ^ 64"
    and "check_coverage covered (map bl_text bs) = Inr cov"
  shows "uint cov = uint covered + (\<Sum>b\<leftarrow>bs. block_size b) \<and> list_all (\<lambda>b. block_size b \<le> 2 ^ 24) bs"
  using assms
proof (induction bs arbitrary: covered)
  case Nil
  then show ?case by simp
next
  case (Cons b bs)
  obtain n where n: "n \<le> 32" "Atoi (after_slash (bl_text b)) = Some (int n)" "block_size b = 2 ^ (32 - n)"
    using Cons.prems(1) block_ones by auto
  have big: "\<not> int n < BlocklistMinPrefix" using Cons.prems(3) n(1,2) by (auto split: if_splits)
  then have small: "block_size b \<le> 2 ^ 24" unfolding n(3) using n(1) by (intro power_increasing) (simp_all add: BlocklistMinPrefix_def)
  have nonneg: "0 \<le> (\<Sum>b\<leftarrow>bs. block_size b)"
  proof (rule sum_list_nonneg)
    fix x assume "x \<in> set (map block_size bs)"
    then obtain b' where "b' \<in> set bs" "x = block_size b'" by auto
    moreover from this Cons.prems(1) obtain c where "parse_block c = Some b'" by (auto simp: list_all_iff)
    ultimately show "0 \<le> x" using block_ones by fastforce
  qed
  have one: "uint (2 ^ (32 - n) :: uint64) = 2 ^ (32 - n)"
    by (simp add: uint_2p word_gt_0)
  have step: "uint (covered + 2 ^ (32 - n)) = uint covered + block_size b"
  proof -
    have "uint covered + 2 ^ (32 - n) < 2 ^ 64" using Cons.prems(2) n(3) nonneg by simp
    then show ?thesis unfolding n(3) by (simp add: uint_word_ariths one)
  qed
  have "nat (32 - int n) = 32 - n" using n(1) by simp
  then have "check_coverage (covered + 2 ^ (32 - n)) (map bl_text bs) = Inr cov"
    using Cons.prems(3) n(1,2) big by simp
  moreover have "uint (covered + 2 ^ (32 - n)) + (\<Sum>b\<leftarrow>bs. block_size b) < 2 ^ 64"
    using Cons.prems(2) by (simp add: step)
  ultimately show ?case using Cons.IH [of "covered + 2 ^ (32 - n)"] Cons.prems(1) small by (simp add: step)
qed

lemma block_addresses: "finite {a. in_block a b} \<and> int (card {a. in_block a b}) \<le> max 0 (block_size b)"
proof -
  have "uint ` {a. in_block a b} \<subseteq> {uint (bl_start b)..uint (bl_end b)}" by (auto simp: in_block_def)
  then have "card (uint ` {a. in_block a b}) \<le> card {uint (bl_start b)..uint (bl_end b)}" by (intro card_mono) auto
  moreover have "card (uint ` {a. in_block a b}) = card {a. in_block a b}" by (intro card_image) (simp add: inj_on_def word_uint_eq_iff)
  ultimately show ?thesis by (simp add: block_size_def)
qed

lemma blocks_addresses:
  assumes "list_all (\<lambda>b. 0 \<le> block_size b) bs"
  shows "finite {a. list_ex (in_block a) bs} \<and> int (card {a. list_ex (in_block a) bs}) \<le> (\<Sum>b\<leftarrow>bs. block_size b)"
  using assms
proof (induction bs)
  case Nil
  then show ?case by simp
next
  case (Cons b bs)
  have "{a. list_ex (in_block a) (b # bs)} = {a. in_block a b} \<union> {a. list_ex (in_block a) bs}" by auto
  moreover have "card ({a. in_block a b} \<union> {a. list_ex (in_block a) bs}) \<le> card {a. in_block a b} + card {a. list_ex (in_block a) bs}"
    by (rule card_Un_le)
  moreover have "0 \<le> block_size b" using Cons.prems by simp
  ultimately show ?case using Cons block_addresses [of b] by (simp add: max_def split: if_splits)
qed

lemma elements_blocks:
  "blocklistElements nets = map bl_text (mergeCIDRs_blocks (dropNonInternet (EgressNetworks nets)))"
  by (simp add: blocklistElements_def mergeCIDRs_def)

text \<open>A set of elements that a judged list may load: nothing reserved, and no more than the ceiling.\<close>

definition tame_feed :: "string list \<Rightarrow> bool" where
  "tame_feed elems \<longleftrightarrow> (\<forall>a. list_ex (covers_addr a) elems \<longrightarrow> \<not> reserved_addr a) \<and>
     card {a. list_ex (covers_addr a) elems} \<le> 2 ^ 27"

lemma CheckBlocklist_elems: "CheckBlocklist nets = Inr elems \<Longrightarrow> elems = blocklistElements nets"
  by (auto simp: CheckBlocklist_def Let_def split: sum.splits if_splits)

lemma judged_blocks:
  assumes "CheckBlocklist nets = Inr elems"
  obtains bs where "elems = map bl_text bs" and "list_all (\<lambda>b. parse_block (bl_text b) = Some b) bs"
    and "sorted_wrt (\<lambda>b c. uint (bl_end b) < uint (bl_start c)) bs"
    and "(\<Sum>b\<leftarrow>bs. block_size b) \<le> 2 ^ 27" and "list_all (\<lambda>b. 0 \<le> block_size b \<and> block_size b \<le> 2 ^ 24) bs"
proof -
  define bs where "bs = mergeCIDRs_blocks (dropNonInternet (EgressNetworks nets))"
  obtain n where n: "check_coverage 0 (map bl_text bs) = Inr n" "n \<le> BlocklistMaxCoverage"
    using assms by (auto simp: CheckBlocklist_def Let_def elements_blocks bs_def split: sum.splits if_splits)
  have m: "sorted_wrt (\<lambda>b c. uint (bl_end b) < uint (bl_start c)) bs"
    "set bs \<subseteq> set (List.map_filter parse_block (dropNonInternet (EgressNetworks nets)))"
    using mergeCIDRs_blocks_exact unfolding bs_def by blast+
  then have parsed: "list_all (\<lambda>b. \<exists>c. parse_block c = Some b) bs"
    by (auto simp: list_all_iff set_map_filter_parse dest!: subsetD)
  have sizes: "list_all (\<lambda>b. uint (bl_start b) \<le> uint (bl_end b) \<and> 0 \<le> block_size b) bs"
  proof (unfold list_all_iff, intro ballI)
    fix b assume "b \<in> set bs"
    then obtain c where "parse_block c = Some b" using parsed by (auto simp: list_all_iff)
    then obtain n where "block_size b = 2 ^ (32 - n)" using block_ones by blast
    then have "0 < block_size b" by simp
    then show "uint (bl_start b) \<le> uint (bl_end b) \<and> 0 \<le> block_size b" by (simp add: block_size_def)
  qed
  have "(\<Sum>b\<leftarrow>bs. block_size b) \<le> 2 ^ 32 - 0"
    using m(1) sizes by (intro disjoint_sizes) (auto simp: list_all_iff)
  then have c: "uint n = (\<Sum>b\<leftarrow>bs. block_size b)" "list_all (\<lambda>b. block_size b \<le> 2 ^ 24) bs"
    using check_coverage_exact [OF parsed _ n(1)] by simp_all
  have "uint BlocklistMaxCoverage = 2 ^ 27" by (simp add: BlocklistMaxCoverage_def)
  then have "(\<Sum>b\<leftarrow>bs. block_size b) \<le> 2 ^ 27" using n(2) c(1) by (simp add: word_le_def)
  moreover have "elems = map bl_text bs" using CheckBlocklist_elems [OF assms] by (simp add: elements_blocks bs_def)
  moreover have "list_all (\<lambda>b. parse_block (bl_text b) = Some b) bs"
    using parsed parse_block_spec(2) by (auto simp: list_all_iff)
  ultimately show thesis using that m(1) c(2) sizes by (auto simp: list_all_iff)
qed

lemma judged_tame: "CheckBlocklist nets = Inr elems \<Longrightarrow> tame_feed elems"
proof -
  assume c: "CheckBlocklist nets = Inr elems"
  from c obtain bs where bs: "elems = map bl_text bs" "list_all (\<lambda>b. parse_block (bl_text b) = Some b) bs"
    "sorted_wrt (\<lambda>b c. uint (bl_end b) < uint (bl_start c)) bs"
    "(\<Sum>b\<leftarrow>bs. block_size b) \<le> 2 ^ 27" "list_all (\<lambda>b. 0 \<le> block_size b \<and> block_size b \<le> 2 ^ 24) bs"
    by (rule judged_blocks)
  have "map parse_block elems = map Some bs" using bs(1,2) by (simp add: list_all_iff)
  then have cover: "list_ex (covers_addr a) elems \<longleftrightarrow> list_ex (in_block a) bs" for a by (rule covers_parsed)
  have "int (card {a. list_ex (in_block a) bs}) \<le> 2 ^ 27"
    using blocks_addresses [of bs] bs(4,5) by (fastforce simp: list_all_iff)
  moreover have "\<not> reserved_addr a" if "list_ex (covers_addr a) elems" for a
    using that clear_not_reserved unfolding CheckBlocklist_elems [OF c] elements_cover by blast
  ultimately show ?thesis by (simp add: tame_feed_def cover)
qed

text \<open>C15. A judged list: a list that passes the check covers exactly the addresses of the listed networks that stay clear of
  the reserved ranges, hence no private, carrier-grade, loopback, link-local, multicast or reserved address, and at
  most 2 to the 27 addresses in all; its elements are disjoint networks, none shorter than a /8.\<close>

theorem judged_list:
  assumes "CheckBlocklist nets = Inr elems"
  shows "(list_ex (covers_addr a) elems \<longleftrightarrow> (\<exists>c \<in> set nets. clear_network c \<and> covers_addr a c)) \<and> tame_feed elems \<and>
    (\<exists>bs. map parse_block elems = map Some bs \<and> sorted_wrt (\<lambda>b c. uint (bl_end b) < uint (bl_start c)) bs \<and>
       list_all (\<lambda>b. block_size b \<le> 2 ^ 24) bs)"
proof -
  from assms obtain bs where "elems = map bl_text bs" "list_all (\<lambda>b. parse_block (bl_text b) = Some b) bs"
    "sorted_wrt (\<lambda>b c. uint (bl_end b) < uint (bl_start c)) bs"
    "(\<Sum>b\<leftarrow>bs. block_size b) \<le> 2 ^ 27" "list_all (\<lambda>b. 0 \<le> block_size b \<and> block_size b \<le> 2 ^ 24) bs"
    by (rule judged_blocks)
  then have "map parse_block elems = map Some bs \<and> sorted_wrt (\<lambda>b c. uint (bl_end b) < uint (bl_start c)) bs \<and>
      list_all (\<lambda>b. block_size b \<le> 2 ^ 24) bs" by (simp add: list_all_iff)
  then show ?thesis using elements_cover [of a nets] CheckBlocklist_elems [OF assms] judged_tame [OF assms] by blast
qed

section \<open>A download counts whole or not at all\<close>

lemma feed_lines_whole:
  assumes "length out \<le> blocklistMaxNetworks"
  shows "feed_lines i out raws = Inr nets \<longleftrightarrow>
    (\<exists>new. nets = out @ new \<and> length nets \<le> blocklistMaxNetworks \<and>
       map feed_line (filter (\<lambda>l. \<not> skipped_line l) (map TrimSpace raws)) = map Some new)"
  using assms
proof (induction raws arbitrary: i out)
  case Nil
  then show ?case by auto
next
  case (Cons raw raws)
  show ?case
  proof (cases "skipped_line (TrimSpace raw)")
    case True
    then show ?thesis using Cons by (simp add: Let_def)
  next
    case keep: False
    show ?thesis
    proof (cases "length out \<ge> blocklistMaxNetworks")
      case True
      then show ?thesis using keep by (auto simp: Let_def Cons_eq_map_conv)
    next
      case room: False
      show ?thesis
      proof (cases "feed_line (TrimSpace raw)")
        case None
        then show ?thesis using keep room by (auto simp: Let_def Cons_eq_map_conv)
      next
        case (Some n)
        define rest where "rest = map feed_line (filter (\<lambda>l. \<not> skipped_line l) (map TrimSpace raws))"
        have "feed_lines i out (raw # raws) = feed_lines (i + 1) (out @ [n]) raws"
          using keep room Some by (simp add: Let_def)
        moreover have "feed_lines (i + 1) (out @ [n]) raws = Inr nets \<longleftrightarrow>
            (\<exists>new. nets = (out @ [n]) @ new \<and> length nets \<le> blocklistMaxNetworks \<and> rest = map Some new)"
          unfolding rest_def by (rule Cons.IH) (use room in simp)
        moreover have "map feed_line (filter (\<lambda>l. \<not> skipped_line l) (map TrimSpace (raw # raws))) = Some n # rest"
          using keep Some by (simp add: rest_def)
        moreover have "(\<exists>new. nets = out @ new \<and> length nets \<le> blocklistMaxNetworks \<and> Some n # rest = map Some new) \<longleftrightarrow>
            (\<exists>new. nets = (out @ [n]) @ new \<and> length nets \<le> blocklistMaxNetworks \<and> rest = map Some new)"
          by (auto simp: Cons_eq_map_conv)
        ultimately show ?thesis by (simp only:)
      qed
    qed
  qed
qed

lemma body_lines:
  "parseBlocklistBody body = Inr nets \<longleftrightarrow>
    (let ls = filter (\<lambda>l. \<not> skipped_line l) (map TrimSpace (split_on (CHR 10) body))
     in ls \<noteq> [] \<and> length ls \<le> 200000 \<and> map feed_line ls = map Some nets)"
proof -
  define ls where "ls = filter (\<lambda>l. \<not> skipped_line l) (map TrimSpace (split_on (CHR 10) body))"
  have lines: "feed_lines 0 [] (split_on (CHR 10) body) = Inr nets \<longleftrightarrow> length nets \<le> 200000 \<and> map feed_line ls = map Some nets"
    unfolding ls_def feed_lines_whole [of "[]", simplified] by (simp add: blocklistMaxNetworks_def)
  have len: "length nets = length ls" if "map feed_line ls = map Some nets" using map_eq_imp_length_eq [OF that] by simp
  have "parseBlocklistBody body = Inr nets \<longleftrightarrow> feed_lines 0 [] (split_on (CHR 10) body) = Inr nets \<and> nets \<noteq> []"
    by (cases "feed_lines 0 [] (split_on (CHR 10) body)") (auto simp: parseBlocklistBody_def)
  then show ?thesis unfolding lines ls_def [symmetric] Let_def using len by auto
qed

text \<open>A download counts whole or not at all: a body is accepted exactly when every line that is not blank or a comment is an
  IPv4 network or address and there is at least one and at most two hundred thousand; then the list has one entry per such
  line, in the order of the file.\<close>

theorem feed_whole_or_nothing:
  "parseBlocklistBody body = Inr nets \<longleftrightarrow>
    (let ls = filter (\<lambda>l. \<not> skipped_line l) (map TrimSpace (split_on (CHR 10) body))
     in ls \<noteq> [] \<and> length ls \<le> 200000 \<and> map feed_line ls = map Some nets)"
  by (rule body_lines)

section \<open>The frame of the operations\<close>

lemmas load_defs = loadBlocklistElements_def forgetBlocklistLoadFailure_def bl_AddEvent_def
lemmas op_defs = applyBlocklist_def forgetBlocklistTable_def wakeBlocklist_def bl_AddEvent_def

lemma load_keeps [simp]:
  "bt_Networks (loadBlocklistElements now r bt) = bt_Networks bt" "bt_Elems (loadBlocklistElements now r bt) = bt_Elems bt"
  "bt_Count (loadBlocklistElements now r bt) = bt_Count bt" "bt_armed (loadBlocklistElements now r bt) = bt_armed bt"
  "bt_On (loadBlocklistElements now r bt) = bt_On bt" "bt_Applied (loadBlocklistElements now r bt) = bt_Applied bt"
  "bt_saving (loadBlocklistElements now r bt) = bt_saving bt" "bt_fetching (loadBlocklistElements now r bt) = bt_fetching bt" "bt_pending (loadBlocklistElements now r bt) = bt_pending bt"
  by (simp_all add: load_defs split: option.split)

lemma load_kernel:
  "bt_kernel (loadBlocklistElements now r bt) = bt_kernel bt \<or>
   bt_kernel (loadBlocklistElements now r bt) = map_option (\<lambda>t. t\<lparr>ft_feed := bt_Elems bt\<rparr>) (bt_kernel bt)"
  by (simp add: load_defs split: option.split)

lemma apply_keeps [simp]:
  "bt_Networks (applyBlocklist r bt) = bt_Networks bt" "bt_Elems (applyBlocklist r bt) = bt_Elems bt"
  "bt_Count (applyBlocklist r bt) = bt_Count bt" "bt_armed (applyBlocklist r bt) = bt_armed bt"
  "bt_pending (applyBlocklist r bt) = bt_pending bt" "bt_fetching (applyBlocklist r bt) = bt_fetching bt"
  by (simp_all add: op_defs Let_def)

lemma remember_fields:
  "rememberBlocklist nets bt = Inr bt' \<longleftrightarrow>
    (\<exists>elems. CheckBlocklist nets = Inr elems \<and> bt' = bt\<lparr>bt_Networks := nets, bt_Elems := elems, bt_Count := length elems\<rparr>)"
  by (auto simp: rememberBlocklist_def split: sum.splits)

lemma RenderBlocklistElements_empty: "RenderBlocklistElements elems = '''' \<longleftrightarrow> elems = []"
  by (simp add: RenderBlocklistElements_def lines_of_def)

text \<open>A pass over the branches of one attempt: only an accepted list changes the list, and it leaves the load pending.\<close>

lemma refresh_cases:
  obtains (same) "bt_Networks (refreshBlocklist now reply saved bt) = bt_Networks bt"
      "bt_Elems (refreshBlocklist now reply saved bt) = bt_Elems bt" "bt_Count (refreshBlocklist now reply saved bt) = bt_Count bt"
      "bt_pending (refreshBlocklist now reply saved bt) = bt_pending bt"
  | (new) nets etag elems where "fetchBlocklist (bt_Etag bt) reply = Inr (nets, etag, False)"
      "\<not> implausible_shrink (length nets) (length (bt_Networks bt))" "CheckBlocklist nets = Inr elems"
      "bt_Networks (refreshBlocklist now reply saved bt) = nets" "bt_Elems (refreshBlocklist now reply saved bt) = elems"
      "bt_Count (refreshBlocklist now reply saved bt) = length elems" "bt_pending (refreshBlocklist now reply saved bt)"
proof -
  let ?bt' = "refreshBlocklist now reply saved bt"
  show thesis
  proof (cases "fetchBlocklist (bt_Etag bt) reply")
    case (Inl e)
    then show ?thesis using same by (simp add: refreshBlocklist_def Let_def)
  next
    case (Inr f)
    obtain nets etag unmod where f: "f = (nets, etag, unmod)" by (cases f)
    consider "unmod" | "\<not> unmod" "implausible_shrink (length nets) (length (bt_Networks bt))"
      | (judge) "\<not> unmod" "\<not> implausible_shrink (length nets) (length (bt_Networks bt))" by blast
    then show ?thesis
    proof cases
      case judge
      show ?thesis
      proof (cases "CheckBlocklist nets")
        case (Inl e)
        then show ?thesis using same Inr f judge
          by (cases e) (simp_all add: refreshBlocklist_def Let_def rememberBlocklist_def refuseBlocklist_def bl_AddEvent_def)
      next
        case ok: (Inr elems)
        show ?thesis
          by (rule new [of nets etag elems])
            (use Inr f judge ok in \<open>simp_all add: refreshBlocklist_def Let_def rememberBlocklist_def saveBlocklistCache_def\<close>)
      qed
    qed (use same Inr f in \<open>simp_all add: refreshBlocklist_def Let_def saveBlocklistCache_def refuseBlocklist_def bl_AddEvent_def\<close>)
  qed
qed

lemma refresh_keeps [simp]:
  "bt_armed (refreshBlocklist now reply saved bt) = bt_armed bt" "bt_On (refreshBlocklist now reply saved bt) = bt_On bt"
  "bt_Applied (refreshBlocklist now reply saved bt) = bt_Applied bt" "bt_saving (refreshBlocklist now reply saved bt) = bt_saving bt"
  "bt_kernel (refreshBlocklist now reply saved bt) = bt_kernel bt" "bt_LoadFailed (refreshBlocklist now reply saved bt) = bt_LoadFailed bt"
  by (simp_all add: refreshBlocklist_def Let_def saveBlocklistCache_def refuseBlocklist_def bl_AddEvent_def rememberBlocklist_def
      split: sum.split feed_error.split)

section \<open>The shrink guard\<close>

lemma rnd64_half:
  assumes "0 < k" and "k < 2 ^ 53"
  shows "rnd64 (of_int k / 2) = of_int k / 2"
proof -
  have x: "(of_int k :: rat) / 2 = of_int k * 2 powi (- 1)" by (simp add: power_int_minus)
  have "(of_int k :: rat) < of_int (2 ^ 53)" using assms(2) by (simp only: of_int_less_iff)
  then have "(of_int k :: rat) / 2 < 2 powi 52" by simp
  moreover have "2 powi ilog2 (of_int k / 2) \<le> (of_int k :: rat) / 2"
    using ilog2_bounds(1) [of "of_int k / 2"] assms(1) by simp
  ultimately have "2 powi ilog2 (of_int k / 2) < (2::rat) powi 52" by linarith
  then have "ilog2 (of_int k / 2) < 52" by (simp only: powi2_less_iff)
  then have "ulp_exp (of_int k * 2 powi (- 1)) \<le> - 1" unfolding x [symmetric] by (simp add: ulp_exp_def)
  then have "rnd_pos (of_int k * 2 powi (- 1)) = of_int k * 2 powi (- 1)" by (rule rnd_pos_exact)
  then show ?thesis using assms(1) unfolding x by (simp add: rnd64_def)
qed

text \<open>A list that gets past the guard is at least half as long as the one before, however long that was.\<close>

lemma shrink_halves:
  assumes "n \<le> blocklistMaxNetworks" and "\<not> implausible_shrink n p"
  shows "p \<le> 2 * n"
proof (rule ccontr)
  assume "\<not> p \<le> 2 * n"
  then have p: "2 * int n + 1 \<le> int p" "0 < p" by simp_all
  have n: "int n < 2 ^ 50" using assms(1) by (simp add: blocklistMaxNetworks_def)
  have fn: "f_of_int (int n) = Fin (of_int (int n))" using n f64_small [of "int n"] by (simp add: f_of_int_def)
  have low: "f64 (of_int (2 * int n + 1)) = Fin (of_int (2 * int n + 1))" using n by (intro f64_small) simp
  have "(of_int (2 * int n + 1) :: rat) \<le> of_int (int p)" using p(1) by (simp only: of_int_le_iff)
  then have fp: "fle (Fin (of_int (2 * int n + 1))) (f_of_int (int p))"
    using f64_mono unfolding f_of_int_def low [symmetric] by blast
  have "flt (f_of_int (int n)) (fmul blocklistShrinkFloor (f_of_int (int p)))"
  proof (cases "f_of_int (int p)")
    case (Fin q)
    have q: "of_int (2 * int n + 1) \<le> q" using fp Fin by auto
    have half: "rnd64 (of_int (2 * int n + 1) / 2) = of_int (2 * int n + 1) / 2" using n by (intro rnd64_half) simp_all
    have "(of_int (2 * int n + 1) :: rat) \<le> of_int (2 ^ 53)" using n by (simp only: of_int_le_iff) simp
    then have "f64 (of_int (2 * int n + 1) / 2) = Fin (rnd64 (of_int (2 * int n + 1) / 2))"
      by (intro f64_fin [of _ 53]) simp_all
    moreover have "fle (f64 (of_int (2 * int n + 1) / 2)) (f64 (q / 2))" using q by (intro f64_mono) simp
    ultimately have "fle (Fin (of_int (2 * int n + 1) / 2)) (f64 (q / 2))" unfolding half by (simp only:)
    moreover have "(of_int (int n) :: rat) < of_int (2 * int n + 1) / 2" by simp
    ultimately have "flt (Fin (of_int (int n))) (f64 (q / 2))"
      by (cases "f64 (q / 2)") auto
    then show ?thesis by (simp add: Fin fn blocklistShrinkFloor_def)
  next
    case PInf
    then show ?thesis by (simp add: fn blocklistShrinkFloor_def finf_def)
  qed (use fp in simp_all)
  then show False using assms(2) p(2) by (simp add: implausible_shrink_def)
qed

section \<open>Every interleaving\<close>

text \<open>What is in memory has been judged, and what is in the kernel came from a judged list.\<close>

definition judged_inv :: "Blocklister \<Rightarrow> bool" where
  "judged_inv bt \<longleftrightarrow> CheckBlocklist (bt_Networks bt) = Inr (bt_Elems bt) \<and> bt_Count bt = length (bt_Elems bt) \<and>
     (case bt_kernel bt of None \<Rightarrow> True | Some t \<Rightarrow> tame_feed (ft_feed t))"

text \<open>The record of the table is true, and empty outside armed mode.\<close>

definition table_inv :: "Blocklister \<Rightarrow> bool" where
  "table_inv bt \<longleftrightarrow> (bt_On bt \<longrightarrow> bt_kernel bt \<noteq> None) \<and>
     (bt_Applied bt \<noteq> '''' \<longrightarrow> bt_On bt \<and> map_option ft_rules (bt_kernel bt) = Some (bt_Applied bt)) \<and>
     (\<not> bt_armed bt \<and> \<not> bt_saving bt \<longrightarrow> bt_Applied bt = '''')"

definition holds_list :: "Blocklister \<Rightarrow> bool" where
  "holds_list bt \<longleftrightarrow> map_option ft_feed (bt_kernel bt) = Some (bt_Elems bt)"

definition sync_inv :: "Blocklister \<Rightarrow> bool" where
  "sync_inv bt \<longleftrightarrow> (bt_armed bt \<and> bt_Applied bt \<noteq> '''' \<and> \<not> bt_pending bt \<and> bt_Elems bt \<noteq> [] \<longrightarrow>
     bt_LoadFailed bt \<noteq> 0 \<or> holds_list bt)"

text \<open>No fetch is under way while a list waits to be loaded.\<close>

definition one_pass :: "Blocklister \<Rightarrow> bool" where
  "one_pass bt \<longleftrightarrow> bt_fetching bt \<longrightarrow> \<not> bt_pending bt"

definition blocklist_inv :: "Blocklister \<Rightarrow> bool" where
  "blocklist_inv bt \<longleftrightarrow> judged_inv bt \<and> table_inv bt \<and> sync_inv bt \<and> one_pass bt"

lemmas bl_invs = judged_inv_def table_inv_def sync_inv_def holds_list_def one_pass_def

text \<open>A clock that has been set.\<close>

fun clocked_bl :: "bl_op \<Rightarrow> bool" where
  "clocked_bl (BlRetry now refused) = (0 < now)"
| "clocked_bl (BlInstall now refused) = (0 < now)"
| "clocked_bl (BlApply r) = (0 < ap_now r)"
| "clocked_bl _ = True"

lemma no_networks: "CheckBlocklist [] = Inr []"
  by (simp add: CheckBlocklist_def blocklistElements_def dropNonInternet_def mergeCIDRs_def mergeCIDRs_blocks_def
      List.map_filter_simps Let_def)

lemma tame_empty: "tame_feed []"
  by (simp add: tame_feed_def)

lemma load_judged: "judged_inv bt \<Longrightarrow> judged_inv (loadBlocklistElements now r bt)"
  using load_kernel [of now r bt] judged_tame by (auto simp: judged_inv_def split: option.splits)

lemma load_table: "table_inv bt \<Longrightarrow> table_inv (loadBlocklistElements now r bt)"
  using load_kernel [of now r bt] by (auto simp: table_inv_def option.map_comp comp_def)

text \<open>A load on an armed engine with a table leaves the list in the set or a retry behind.\<close>

lemma load_syncs:
  assumes "judged_inv bt" and "bt_On bt" and "bt_kernel bt \<noteq> None" and "bt_armed bt" and "bt_Elems bt \<noteq> []" and "0 < now"
  shows "case refused of Some err \<Rightarrow> bt_LoadFailed (loadBlocklistElements now refused bt) = now
         | None \<Rightarrow> holds_list (loadBlocklistElements now refused bt) \<and> bt_LoadFailed (loadBlocklistElements now refused bt) = 0"
proof -
  have "bt_Networks bt \<noteq> []" using assms(1,5) no_networks by (auto simp: judged_inv_def)
  then show ?thesis using assms(2-5)
    by (auto simp: load_defs holds_list_def RenderBlocklistElements_empty split: option.splits)
qed

lemma load_sync:
  assumes "judged_inv bt" and "table_inv bt" and "0 < now"
  shows "bt_armed bt \<and> bt_Applied bt \<noteq> '''' \<and> bt_Elems bt \<noteq> [] \<longrightarrow>
    bt_LoadFailed (loadBlocklistElements now refused bt) \<noteq> 0 \<or> holds_list (loadBlocklistElements now refused bt)"
  using load_syncs [OF assms(1) _ _ _ _ assms(3), of refused] assms(2,3) by (auto simp: table_inv_def split: option.splits)

lemma install_inv:
  assumes "blocklist_inv bt" and "0 < now"
  shows "blocklist_inv (installBlocklistElements now refused bt)"
    and "blocklist_inv ((installBlocklistElements now refused bt)\<lparr>bt_pending := False\<rparr>)"
proof -
  have inv: "judged_inv bt" "table_inv bt" using assms(1) by (simp_all add: blocklist_inv_def)
  note s = load_judged [OF inv(1)] load_table [OF inv(2)] load_sync [OF inv assms(2)]
  show "blocklist_inv (installBlocklistElements now refused bt)"
    using s assms(1) by (simp add: blocklist_inv_def sync_inv_def one_pass_def installBlocklistElements_def)
  show "blocklist_inv ((installBlocklistElements now refused bt)\<lparr>bt_pending := False\<rparr>)"
    using s by (simp add: blocklist_inv_def installBlocklistElements_def bl_invs)
qed

lemma refresh_inv:
  assumes "blocklist_inv bt" and "bt_fetching bt"
  shows "blocklist_inv ((refreshBlocklist now reply saved bt)\<lparr>bt_fetching := False\<rparr>)"
  using assms
  by (cases rule: refresh_cases [where now = now and reply = reply and saved = saved and bt = bt])
    (simp_all add: blocklist_inv_def bl_invs)

lemma fetch_inv: "blocklist_inv bt \<Longrightarrow> \<not> bt_pending bt \<Longrightarrow> blocklist_inv (bt\<lparr>bt_fetching := True\<rparr>)"
  by (simp add: blocklist_inv_def bl_invs)

lemma forget_inv:
  "judged_inv bt \<Longrightarrow> one_pass bt \<Longrightarrow> blocklist_inv (forgetBlocklistTable bt)"
  by (auto simp: blocklist_inv_def bl_invs forgetBlocklistTable_def)

lemma remove_inv:
  "judged_inv bt \<Longrightarrow> one_pass bt \<Longrightarrow> blocklist_inv (forgetBlocklistTable (bt\<lparr>bt_kernel := (if removed then None else bt_kernel bt)\<rparr>))"
  by (rule forget_inv) (simp_all add: judged_inv_def one_pass_def)

lemma ruleset_nonempty: "BuildBlocklistRuleset spec \<noteq> '''' \<longleftrightarrow> bs_Enabled spec \<and> TrimSpace (bs_PublicIface spec) \<noteq> ''''"
  by (simp add: BuildBlocklistRuleset_def Let_def lines_of_def)

lemma wake_inv [simp]: "blocklist_inv (wakeBlocklist bt) = blocklist_inv bt"
  by (simp add: wakeBlocklist_def blocklist_inv_def bl_invs)

lemma event_keeps [simp]:
  "judged_inv (bl_AddEvent ev bt) = judged_inv bt" "one_pass (bl_AddEvent ev bt) = one_pass bt"
  by (simp_all add: bl_AddEvent_def judged_inv_def one_pass_def)

lemma apply_inv:
  assumes "blocklist_inv bt" and "0 < ap_now r"
  shows "blocklist_inv ((applyBlocklist r bt)\<lparr>bt_saving := False\<rparr>)"
proof -
  define rules where "rules = blocklist_ruleset (bt_cfg bt)"
  have inv: "judged_inv bt" "table_inv bt" "sync_inv bt" "one_pass bt" using assms(1) by (simp_all add: blocklist_inv_def)
  have saved: "blocklist_inv (b\<lparr>bt_saving := False\<rparr>)" if "blocklist_inv b" "bt_armed b \<or> bt_Applied b = ''''" for b
    using that by (auto simp: blocklist_inv_def bl_invs)
  consider (removed) "rules = ''''" | (same) "rules \<noteq> ''''" "bt_armed bt \<and> bt_On bt \<and> bt_Applied bt = rules"
    | (failed) "rules \<noteq> ''''" "\<not> (bt_armed bt \<and> bt_On bt \<and> bt_Applied bt = rules)" "\<not> ap_ok r"
    | (armed) "rules \<noteq> ''''" "\<not> (bt_armed bt \<and> bt_On bt \<and> bt_Applied bt = rules)" "ap_ok r" "bt_armed bt"
    | (observe) "rules \<noteq> ''''" "ap_ok r" "\<not> bt_armed bt" by blast
  then show ?thesis
  proof cases
    case removed
    have "judged_inv (if bk_Enabled (se_Blocklist (bt_cfg bt)) \<and> TrimSpace (fe_PublicIface (c_Frontend (se_Config (bt_cfg bt)))) = ''''
        then bl_AddEvent BlocklistNoIface bt else bt)"
      "one_pass (if bk_Enabled (se_Blocklist (bt_cfg bt)) \<and> TrimSpace (fe_PublicIface (c_Frontend (se_Config (bt_cfg bt)))) = ''''
        then bl_AddEvent BlocklistNoIface bt else bt)" using inv by simp_all
    from remove_inv [OF this] have "blocklist_inv (applyBlocklist r bt)"
      using removed by (simp add: applyBlocklist_def rules_def [symmetric] Let_def bl_AddEvent_def cong: if_cong)
    then show ?thesis by (rule saved) (use removed in \<open>simp add: applyBlocklist_def rules_def [symmetric] Let_def forgetBlocklistTable_def\<close>)
  next
    case same
    then show ?thesis using saved [OF assms(1)] by (simp add: applyBlocklist_def rules_def [symmetric] Let_def)
  next
    case failed
    then have "applyBlocklist r bt = (bl_AddEvent BlocklistApplyFailed bt)\<lparr>bt_Applied := ''''\<rparr>"
      by (auto simp: applyBlocklist_def rules_def [symmetric] Let_def)
    then show ?thesis using inv by (simp add: blocklist_inv_def bl_invs bl_AddEvent_def)
  next
    case armed
    define bt1 where "bt1 = bt\<lparr>bt_kernel := Some \<lparr>ft_rules = rules, ft_feed = []\<rparr>, bt_On := True, bt_Applied := rules,
      bt_Counter := \<lparr>pk_Packets = 0, pk_Bytes = 0\<rparr>\<rparr>"
    have eq: "applyBlocklist r bt = wakeBlocklist (loadBlocklistElements (ap_now r) (ap_refused r) bt1)"
      using armed by (auto simp: applyBlocklist_def rules_def [symmetric] Let_def bt1_def)
    have j: "judged_inv bt1" "table_inv bt1" using inv armed by (simp_all add: bl_invs bt1_def tame_empty)
    have "blocklist_inv (loadBlocklistElements (ap_now r) (ap_refused r) bt1)"
      using load_judged [OF j(1)] load_table [OF j(2)] load_sync [OF j assms(2)] inv(4)
      by (simp add: blocklist_inv_def sync_inv_def one_pass_def bt1_def)
    then have "blocklist_inv (applyBlocklist r bt)" unfolding eq by simp
    then show ?thesis by (rule saved) (simp add: armed)
  next
    case observe
    then have "applyBlocklist r bt = wakeBlocklist (bt\<lparr>bt_Applied := ''''\<rparr>)"
      by (simp add: applyBlocklist_def rules_def [symmetric] Let_def)
    then show ?thesis using inv by (simp add: blocklist_inv_def bl_invs wakeBlocklist_def)
  qed
qed

lemma sample_inv: "blocklist_inv bt \<Longrightarrow> blocklist_inv (sampleBlocklistCounter (sample_answer ok c bt) bt)"
  by (auto simp: sampleBlocklistCounter_def sample_answer_def forgetBlocklistTable_def Let_def blocklist_inv_def bl_invs)

lemma swap_inv: "blocklist_inv bt \<Longrightarrow> \<not> bt_saving bt \<Longrightarrow> blocklist_inv (bl_swap cfg bt)"
  by (auto simp: bl_swap_def blocklist_inv_def bl_invs)

lemma revert_inv: "blocklist_inv bt \<Longrightarrow> blocklist_inv (bl_revert removed bt)"
  unfolding bl_revert_def by (rule forget_inv) (simp_all add: blocklist_inv_def judged_inv_def one_pass_def)

text \<open>A new process starts over whatever cache it finds, beside a table that a judged list filled.\<close>

lemma boot_inv:
  assumes "case table of None \<Rightarrow> True | Some t \<Rightarrow> tame_feed (ft_feed t)"
  shows "blocklist_inv (bl_boot readable cfg latched cache table)"
  using assms
  by (auto simp: bl_boot_def loadBlocklistCache_def rememberBlocklist_def blocklist_inv_def bl_invs no_networks
      split: option.splits sum.splits)

interpretation blocklist_runs: guarded_run bl_step clocked_bl blocklist_inv
proof
  fix op bt assume op: "clocked_bl op" and inv: "blocklist_inv bt"
  have kernel: "case bt_kernel bt of None \<Rightarrow> True | Some t \<Rightarrow> tame_feed (ft_feed t)"
    using inv by (simp add: blocklist_inv_def judged_inv_def)
  from op show "blocklist_inv (bl_step bt op)"
    by (cases op) (simp_all add: inv install_inv refresh_inv fetch_inv swap_inv apply_inv revert_inv sample_inv boot_inv kernel)
qed

section \<open>What follows for the engine\<close>

lemma reached_inv:
  "list_all clocked_bl ops \<Longrightarrow> blocklist_inv (foldl bl_step (bl_boot readable cfg latched cache None) ops)"
  by (rule blocklist_runs.guarded_run_inv) (simp_all add: boot_inv)

text \<open>C13. The set is the list. However the refresher interleaves with saves, reverts, samples and restarts, and whatever
  nft refuses, on an armed engine whose table is recorded as loaded that very table is in the kernel, and once no load is
  under way its set holds exactly the current list, or a retry is outstanding; and no set this engine ever filled drops a
  reserved address or more than the ceiling.\<close>

theorem feed_set_in_step:
  assumes "list_all clocked_bl ops" and "bt = foldl bl_step (bl_boot readable cfg latched cache None) ops"
  shows "(bt_Applied bt \<noteq> '''' \<longrightarrow> map_option ft_rules (bt_kernel bt) = Some (bt_Applied bt)) \<and>
    (bt_armed bt \<and> bt_Applied bt \<noteq> '''' \<and> \<not> bt_pending bt \<and> bt_Elems bt \<noteq> [] \<longrightarrow>
       bt_LoadFailed bt \<noteq> 0 \<or> map_option ft_feed (bt_kernel bt) = Some (bt_Elems bt)) \<and>
    (case bt_kernel bt of None \<Rightarrow> True | Some t \<Rightarrow> tame_feed (ft_feed t))"
proof -
  have "blocklist_inv bt" unfolding assms(2) by (rule reached_inv [OF assms(1)])
  then show ?thesis by (auto simp: blocklist_inv_def bl_invs)
qed

text \<open>C14. A refused load is made good. From any state an armed engine with a loaded table and a list can reach, once the
  list it just accepted is loaded, or fifteen minutes after a load nft refused, a turn of the refresher whose load nft
  takes leaves exactly the current list in the set, with nothing outstanding; a fetch under way may fail first.\<close>

theorem feed_set_converges:
  assumes "list_all clocked_bl ops" and "bt = foldl bl_step (bl_boot readable cfg latched cache None) ops"
    and "bt_armed bt" and "bt_Applied bt \<noteq> ''''" and "bt_Elems bt \<noteq> []" and "refresher_works bt"
    and "0 < now" and "bt_LoadFailed bt + blocklistRetryEvery \<le> now"
  shows "let bt' = foldl bl_step bt [BlInstall now None, BlRefresh tried None saved, BlRetry now None]
    in map_option ft_feed (bt_kernel bt') = Some (bt_Elems bt) \<and> bt_LoadFailed bt' = 0"
proof -
  have inv: "judged_inv bt" "table_inv bt" "sync_inv bt" and one: "one_pass bt"
    using reached_inv [OF assms(1), of readable cfg latched cache]
    unfolding assms(2) [symmetric] by (simp_all add: blocklist_inv_def)
  have "bt_On bt" "bt_kernel bt \<noteq> None" using inv(2) assms(4) by (auto simp: table_inv_def)
  from load_syncs [OF inv(1) this assms(3,5,7), of None]
  have load: "holds_list (loadBlocklistElements now None bt)" "bt_LoadFailed (loadBlocklistElements now None bt) = 0" by simp_all
  show ?thesis
  proof (cases "bt_pending bt")
    case True
    then show ?thesis using load one
      by (simp add: installBlocklistElements_def load_due_def IsZero_def holds_list_def one_pass_def)
  next
    case False
    define bt1 where "bt1 = bl_step bt (BlRefresh tried None saved)"
    have same: "bt_Networks bt1 = bt_Networks bt" "bt_Elems bt1 = bt_Elems bt" "bt_Count bt1 = bt_Count bt"
      "bt_kernel bt1 = bt_kernel bt" "bt_On bt1 = bt_On bt" "bt_armed bt1 = bt_armed bt" "bt_LoadFailed bt1 = bt_LoadFailed bt"
      "bt_pending bt1 = bt_pending bt" "refresher_works bt1 = refresher_works bt" "\<not> bt_fetching bt1"
      by (simp_all add: bt1_def refreshBlocklist_def fetchBlocklist_def refresher_works_def)
    then have "judged_inv bt1" using inv(1) by (simp add: judged_inv_def)
    from load_syncs [OF this, of now None] have
      "holds_list (loadBlocklistElements now None bt1) \<and> bt_LoadFailed (loadBlocklistElements now None bt1) = 0"
      using \<open>bt_On bt\<close> \<open>bt_kernel bt \<noteq> None\<close> assms(3,5,7) same by simp
    moreover have "foldl bl_step bt [BlInstall now None, BlRefresh tried None saved, BlRetry now None] =
        bl_step bt1 (BlRetry now None)" using False by (simp add: bt1_def)
    moreover have "bt_LoadFailed bt \<noteq> 0 \<or> holds_list bt" using False inv(3) assms(3-5) by (simp add: sync_inv_def)
    ultimately show ?thesis using False assms(6,8) same
      by (auto simp: installBlocklistElements_def load_due_def go_arith holds_list_def Let_def)
  qed
qed

text \<open>C16. The list in memory is only replaced by a better one. Whatever step is taken, the list stays, or a restart reads one
  back from the cache file that passes the check, or a fetch under way got the whole file with status 200, every line of it
  parsed, the list passed the check and it is at least half as long as the one it replaces; and a fetch only gets under way
  on an enabled, unreverted engine (which may be disabled or reverted before the answer comes). A failed, refused or
  unmodified attempt therefore never moves the list.\<close>

theorem list_replaced_by_judged:
  "(bt_fetching (bl_step bt op) \<longrightarrow> bt_fetching bt \<or> refresher_works bt) \<and>
   (bt_Networks (bl_step bt op) = bt_Networks bt \<or>
   (case op of
      BlRefresh now (Some resp) saved \<Rightarrow>
        bt_fetching bt \<and> fr_status resp = 200 \<and> parseBlocklistBody (fr_body resp) = Inr (bt_Networks (bl_step bt op)) \<and>
        CheckBlocklist (bt_Networks (bl_step bt op)) = Inr (bt_Elems (bl_step bt op)) \<and>
        length (bt_Networks bt) \<le> 2 * length (bt_Networks (bl_step bt op))
    | BlRestart readable cfg latched \<Rightarrow>
        bt_Networks (bl_step bt op) = [] \<or>
        (readable \<and> map_option ch_Networks (bt_file bt) = Some (bt_Networks (bl_step bt op)) \<and>
         CheckBlocklist (bt_Networks (bl_step bt op)) = Inr (bt_Elems (bl_step bt op)))
    | _ \<Rightarrow> False))"
proof (cases op)
  case (BlRefresh now reply saved)
  show ?thesis
  proof (cases "bt_fetching bt")
    case runs: True
    then have step: "bl_step bt op = (refreshBlocklist now reply saved bt)\<lparr>bt_fetching := False\<rparr>" by (simp add: BlRefresh)
    show ?thesis
    proof (cases rule: refresh_cases [where now = now and reply = reply and saved = saved and bt = bt])
      case same
      then show ?thesis unfolding step by simp
    next
      case (new nets etag elems)
      obtain resp where resp: "reply = Some resp" "fr_status resp = 200" "parseBlocklistBody (fr_body resp) = Inr nets"
        using new(1) by (auto simp: fetchBlocklist_def Let_def split: option.splits sum.splits if_splits)
      then have "length nets \<le> blocklistMaxNetworks"
        using feed_lines_whole [of "[]"] by (auto simp: parseBlocklistBody_def split: sum.splits if_splits)
      then have "length (bt_Networks bt) \<le> 2 * length nets" using new(2) by (rule shrink_halves)
      then show ?thesis using resp new(3-5) runs unfolding step by (simp add: BlRefresh)
    qed
  next
    case False
    then have "bl_step bt op = bt" by (auto simp: BlRefresh)
    then show ?thesis by simp
  qed
next
  case (BlRestart readable cfg latched)
  then show ?thesis
    by (auto simp: bl_boot_def loadBlocklistCache_def rememberBlocklist_def split: option.splits sum.splits)
qed (simp_all add: installBlocklistElements_def bl_swap_def bl_revert_def forgetBlocklistTable_def sampleBlocklistCounter_def
    Let_def split: sum.splits)

text \<open>A feed that recovers with an unmodified answer leaves the streak of refusals open: the next refusal, of whatever
  list, adds no event.\<close>

lemma recovered_refusal_untold:
  assumes "bt_Refused bt" and "fetchBlocklist (bt_Etag bt) r1 = Inr ([], bt_Etag bt, True)"
    and "fetchBlocklist (bt_Etag bt) r2 = Inr (nets, etag, False)" and "implausible_shrink (length nets) (length (bt_Networks bt))"
  shows "bt_LastErr (refreshBlocklist t1 r1 s1 bt) = None"
    and "bt_events (refreshBlocklist t2 r2 s2 (refreshBlocklist t1 r1 s1 bt)) = bt_events bt"
  using assms by (simp_all add: refreshBlocklist_def Let_def saveBlocklistCache_def refuseBlocklist_def)

section \<open>A run\<close>

text \<open>One network, the blocks of the reserved ranges, and an armed engine that fetches the network, whose first load of
  it nft refuses.\<close>

lemma block_of_text:
  assumes "s = net_String ip n" and "ip AND prefix_mask n = ip" and "n \<le> 32"
  shows "parse_block s = Some \<lparr>bl_start = ip, bl_end = ip OR mask (32 - n), bl_text = s\<rparr>"
  using assms by (simp add: parse_block_def TrimSpace_net parse_net_String ones_mask)

lemma prefix_masks: "prefix_mask 3 = 0xE0000000" "prefix_mask 8 = 0xFF000000" "prefix_mask 10 = 0xFFC00000"
  "prefix_mask 12 = 0xFFF00000" "prefix_mask 16 = 0xFFFF0000"
  by (simp_all add: prefix_mask_def ones_mask mask_eq_exp_minus_1)

lemma dotted_text:
  assumes "map (\<lambda>k. byte_of k ip) [3, 2, 1, 0] = [a, b, c, d]"
  shows "net_String ip n = Itoa a @ ''.'' @ Itoa b @ ''.'' @ Itoa c @ ''.'' @ Itoa d @ ''/'' @ Itoa (int n)"
  using assms by (simp add: net_String_def)

lemma demo_texts:
  "''0.0.0.0/8'' = net_String 0 8" "''10.0.0.0/8'' = net_String 0x0A000000 8" "''100.64.0.0/10'' = net_String 0x64400000 10"
  "''127.0.0.0/8'' = net_String 0x7F000000 8" "''169.254.0.0/16'' = net_String 0xA9FE0000 16"
  "''172.16.0.0/12'' = net_String 0xAC100000 12" "''192.168.0.0/16'' = net_String 0xC0A80000 16"
  "''224.0.0.0/3'' = net_String 0xE0000000 3" "''1.0.0.0/8'' = net_String 0x01000000 8"
proof -
  show "''0.0.0.0/8'' = net_String 0 8"
    by (subst dotted_text [of _ 0 0 0 0]) (simp add: byte_of_def, code_simp)
  show "''10.0.0.0/8'' = net_String 0x0A000000 8"
    by (subst dotted_text [of _ 10 0 0 0]) (simp add: byte_of_def, code_simp)
  show "''100.64.0.0/10'' = net_String 0x64400000 10"
    by (subst dotted_text [of _ 100 64 0 0]) (simp add: byte_of_def, code_simp)
  show "''127.0.0.0/8'' = net_String 0x7F000000 8"
    by (subst dotted_text [of _ 127 0 0 0]) (simp add: byte_of_def, code_simp)
  show "''169.254.0.0/16'' = net_String 0xA9FE0000 16"
    by (subst dotted_text [of _ 169 254 0 0]) (simp add: byte_of_def, code_simp)
  show "''172.16.0.0/12'' = net_String 0xAC100000 12"
    by (subst dotted_text [of _ 172 16 0 0]) (simp add: byte_of_def, code_simp)
  show "''192.168.0.0/16'' = net_String 0xC0A80000 16"
    by (subst dotted_text [of _ 192 168 0 0]) (simp add: byte_of_def, code_simp)
  show "''224.0.0.0/3'' = net_String 0xE0000000 3"
    by (subst dotted_text [of _ 224 0 0 0]) (simp add: byte_of_def, code_simp)
  show "''1.0.0.0/8'' = net_String 0x01000000 8"
    by (subst dotted_text [of _ 1 0 0 0]) (simp add: byte_of_def, code_simp)
qed

lemmas demo_blocks = demo_texts [THEN block_of_text, simplified prefix_masks mask_eq_exp_minus_1, simplified]

lemma demo_clear: "clear_network ''1.0.0.0/8''"
  by (simp add: clear_network_def nonInternetDestinations_def List.map_filter_simps demo_blocks spans_meet_def)

lemma demo_parsed: "parse_block ''1.0.0.0/8'' = Some \<lparr>bl_start = 0x01000000, bl_end = 0x01FFFFFF, bl_text = ''1.0.0.0/8''\<rparr>"
  by (simp add: demo_blocks)

lemma demo_judged: "CheckBlocklist [''1.0.0.0/8''] = Inr [''1.0.0.0/8'']"
proof -
  have "NetworkLiteral ''1.0.0.0/8'' = ''1.0.0.0/8''" using parse_block_text [OF demo_parsed] by simp
  then have "dropNonInternet (EgressNetworks [''1.0.0.0/8'']) = [''1.0.0.0/8'']"
    using demo_clear by (simp add: dropNonInternet_clear)
  then have "blocklistElements [''1.0.0.0/8''] = [''1.0.0.0/8'']"
    by (simp add: blocklistElements_def mergeCIDRs_def mergeCIDRs_blocks_def List.map_filter_simps demo_parsed uint_ge_minus_1)
  moreover have "Atoi (after_slash ''1.0.0.0/8'') = Some 8" by code_simp
  ultimately show ?thesis
    by (simp add: CheckBlocklist_def BlocklistMinPrefix_def BlocklistMaxCoverage_def word_less_nat_alt)
qed

definition demo_reply :: feed_reply where
  "demo_reply = \<lparr>fr_status = 200, fr_body = ''# level1'' @ [CHR 10] @ ''1.0.0.0/8'' @ [CHR 10], fr_etag = ''v1'', fr_broken = False\<rparr>"

lemma demo_feed_fetched: "fetchBlocklist etag (Some demo_reply) = Inr ([''1.0.0.0/8''], ''v1'', False)"
proof -
  have "map TrimSpace (split_on (CHR 10) (fr_body demo_reply)) = [''# level1'', ''1.0.0.0/8'', '''']" by code_simp
  moreover have "feed_line ''1.0.0.0/8'' = Some ''1.0.0.0/8''"
    using parse_block_text [OF demo_parsed] by (simp add: feed_line_def)
  ultimately have "parseBlocklistBody (fr_body demo_reply) = Inr [''1.0.0.0/8'']"
    by (simp add: body_lines skipped_line_def)
  moreover have "take (blocklistMaxBytes + 1) (fr_body demo_reply) = fr_body demo_reply" "length (fr_body demo_reply) \<le> blocklistMaxBytes"
    by (simp_all add: demo_reply_def blocklistMaxBytes_def)
  ultimately show ?thesis by (simp add: fetchBlocklist_def Let_def) (simp add: demo_reply_def)
qed

definition demo_feed_cfg :: Settings where
  "demo_feed_cfg = \<lparr>se_Config = \<lparr>c_Mode = ModeArmed, c_Frontend = \<lparr>fe_PublicIface = ''eth0'', fe_PublicIP = '''', fe_BackendEgress = False\<rparr>,
       c_Overlay = \<lparr>ov_FrontendIP = ''10.9.0.1'', ov_BackendIP = ''10.9.0.2'', ov_Device = '''', ov_Subnet = '''',
         ov_ProbePort = 51999, ov_ControlPort = 51998\<rparr>,
       c_Paths = [], c_Probe = default_probe, c_Failover = default_failover, c_Services = [], c_Linkers = [], c_BackendLAN = '''',
       c_Egress = [], c_QueryCache = \<lparr>qc_Enabled = False, qc_RefreshMs = 0, qc_StaleMs = 0\<rparr>\<rparr>,
     se_Protect = \<lparr>pc_Enabled = False, pc_NewConnsPerSec = 0, pc_MaxConnsPerSource = 0, pc_PacketsPerSec = 0, pc_QueriesPerSec = 0,
       pc_BlockSeconds = 0, pc_DropInvalid = False, pc_DropBogusTCP = False, pc_DropSpoofed = False, pc_DropLegacyQueries = False,
       pc_GeoLockSeconds = 0, pc_Regions = []\<rparr>,
     se_Blocklist = \<lparr>bk_Enabled = True, bk_RefreshHours = 0, bk_Exceptions = []\<rparr>,
     se_Notify = \<lparr>nf_Enabled = False, nf_Kind = '''', nf_URL = '''', nf_Token = '''', nf_OnSwitch = False, nf_OnPathDown = False,
       nf_OnQuota = False, nf_OnHeld = False\<rparr>\<rparr>"

definition demo_feed_ops :: "bl_op list" where
  "demo_feed_ops = [BlApply \<lparr>ap_removed = True, ap_ok = True, ap_refused = None, ap_now = 1\<rparr>,
     BlFetch 1000000000000, BlRefresh 1000000000000 (Some demo_reply) True, BlInstall 1000000000001 (Some ''busy'')]"

definition demo_state_reached :: Blocklister where
  "demo_state_reached = foldl bl_step (bl_boot False demo_feed_cfg False None None) demo_feed_ops"

lemma demo_rules: "blocklist_ruleset demo_feed_cfg \<noteq> ''''"
proof -
  have "TrimSpace ''eth0'' \<noteq> ''''" by code_simp
  then show ?thesis unfolding blocklist_ruleset_def ruleset_nonempty by (simp add: demo_feed_cfg_def)
qed

text \<open>The list was accepted and its load refused.\<close>

lemma demo_reached_state:
  "bt_armed demo_state_reached" "bt_Applied demo_state_reached \<noteq> ''''" "bt_Elems demo_state_reached = [''1.0.0.0/8'']"
  "\<not> bt_pending demo_state_reached" "bt_LoadFailed demo_state_reached = 1000000000001" "refresher_works demo_state_reached"
  "bt_kernel demo_state_reached = Some \<lparr>ft_rules = blocklist_ruleset demo_feed_cfg, ft_feed = []\<rparr>"
proof -
  have armed: "c_Mode (se_Config demo_feed_cfg) = ModeArmed" "bk_Enabled (se_Blocklist demo_feed_cfg)" by (simp_all add: demo_feed_cfg_def)
  show "bt_armed demo_state_reached" "bt_Applied demo_state_reached \<noteq> ''''" "bt_Elems demo_state_reached = [''1.0.0.0/8'']"
    "\<not> bt_pending demo_state_reached" "bt_LoadFailed demo_state_reached = 1000000000001" "refresher_works demo_state_reached"
    "bt_kernel demo_state_reached = Some \<lparr>ft_rules = blocklist_ruleset demo_feed_cfg, ft_feed = []\<rparr>"
    using demo_rules
    by (simp_all add: demo_state_reached_def demo_feed_ops_def bl_boot_def loadBlocklistCache_def op_defs load_defs Let_def
        refresher_works_def fetch_due_def installBlocklistElements_def refreshBlocklist_def demo_feed_fetched demo_judged
        rememberBlocklist_def saveBlocklistCache_def implausible_shrink_def RenderBlocklistElements_empty blocklistRetryEvery_def
        go_arith armed)
qed

text \<open>The fetch under way in that run, reverted while the answer is on its way.\<close>

definition demo_fetching :: Blocklister where
  "demo_fetching = foldl bl_step (bl_boot False demo_feed_cfg False None None) (take 2 demo_feed_ops @ [BlRevert True])"

lemma demo_fetching_state:
  "bt_fetching demo_fetching" "bt_Networks demo_fetching = []" "bt_reverted demo_fetching"
  "bt_Networks (bl_step demo_fetching (BlRefresh 1000000000000 (Some demo_reply) True)) = [''1.0.0.0/8'']"
proof -
  have armed: "c_Mode (se_Config demo_feed_cfg) = ModeArmed" "bk_Enabled (se_Blocklist demo_feed_cfg)" by (simp_all add: demo_feed_cfg_def)
  show "bt_fetching demo_fetching" "bt_Networks demo_fetching = []" "bt_reverted demo_fetching"
    "bt_Networks (bl_step demo_fetching (BlRefresh 1000000000000 (Some demo_reply) True)) = [''1.0.0.0/8'']"
    using demo_rules
    by (simp_all add: demo_fetching_def demo_feed_ops_def bl_boot_def bl_revert_def loadBlocklistCache_def op_defs load_defs Let_def
        refresher_works_def fetch_due_def refreshBlocklist_def demo_feed_fetched demo_judged
        rememberBlocklist_def saveBlocklistCache_def implausible_shrink_def blocklistRetryEvery_def go_arith armed)
qed

theorem list_replaced_by_judged_witness:
  "bt_reverted demo_fetching \<and> parseBlocklistBody (fr_body demo_reply) = Inr [''1.0.0.0/8''] \<and>
   CheckBlocklist [''1.0.0.0/8''] = Inr (bt_Elems (bl_step demo_fetching (BlRefresh 1000000000000 (Some demo_reply) True)))"
  using list_replaced_by_judged [of demo_fetching "BlRefresh 1000000000000 (Some demo_reply) True"]
    demo_fetching_state by (simp del: bl_step.simps)

theorem judged_list_witness:
  "tame_feed [''1.0.0.0/8''] \<and> list_ex (covers_addr 0x01020304) [''1.0.0.0/8'']"
  using judged_list [OF demo_judged, of "0x01020304"] by (simp add: demo_parsed demo_clear covers_addr_def in_block_def)

theorem feed_set_in_step_witness:
  "map_option ft_rules (bt_kernel demo_state_reached) = Some (bt_Applied demo_state_reached)"
proof -
  have "list_all clocked_bl demo_feed_ops" by (simp add: demo_feed_ops_def)
  from feed_set_in_step [OF this demo_state_reached_def] show ?thesis by (simp add: demo_reached_state)
qed

theorem feed_set_converges_witness:
  "map_option ft_feed (bt_kernel (foldl bl_step demo_state_reached
     [BlInstall 2000000000000 None, BlRefresh 2000000000000 None True, BlRetry 2000000000000 None])) = Some [''1.0.0.0/8'']"
proof -
  have "list_all clocked_bl demo_feed_ops" by (simp add: demo_feed_ops_def)
  from feed_set_converges [OF this demo_state_reached_def demo_reached_state(1,2), of 2000000000000 2000000000000 True] show ?thesis
    by (simp add: demo_reached_state blocklistRetryEvery_def Let_def del: bl_step.simps foldl.simps)
qed

end
