(* ===== verification/Portal.thy ===== *)
theory Portal
  imports Validate EngineLife
begin

text \<open>
  The portal around its configuration check (\<open>web/server.go\<close> and the handlers of \<open>web/api.go\<close>): the login with its
  lockout and its bound on concurrent password hashes, accounts and sessions, which request reaches which handler,
  what the handlers ask of the engine, and the region fetch of \<open>web/geofetch.go\<close>. A status is the HTTP status code
  of the answer; bodies are given where a caller reads them back.
\<close>

section \<open>The login lockout\<close>

record attemptRecord =
  at_count :: int
  at_until :: gotime

type_synonym attempts = "(string \<times> attemptRecord) list"

definition set_attempt :: "string \<Rightarrow> attemptRecord \<Rightarrow> attempts \<Rightarrow> attempts" where
  "set_attempt host r as = (host, r) # filter (\<lambda>(h, _). h \<noteq> host) as"

text \<open>\<open>Some\<close> is the time left of a lockout.\<close>

definition throttled :: "gotime \<Rightarrow> string \<Rightarrow> attempts \<Rightarrow> duration option" where
  "throttled now host as =
     (case map_of as host of None \<Rightarrow> None
      | Some r \<Rightarrow> if now < at_until r then Some (time_Sub (at_until r) now) else None)"

definition evict :: "gotime \<Rightarrow> attempts \<Rightarrow> attempts" where
  "evict now as =
     (if length as > 256 then filter (\<lambda>(h, r). \<not> at_until r < time_Add now (- 3600000000000)) as else as)"

definition lock_delay :: "int \<Rightarrow> duration" where
  "lock_delay count = (let delay = wrap64 ((count - 4) * 30 * 1000000000)
     in if delay > 15 * 60 * 1000000000 then 15 * 60 * 1000000000 else delay)"

definition recordFailure :: "gotime \<Rightarrow> string \<Rightarrow> attempts \<Rightarrow> attempts" where
  "recordFailure now host as =
     (let as = evict now as;
          r = (case map_of as host of None \<Rightarrow> \<lparr>at_count = 0, at_until = 0\<rparr> | Some r \<Rightarrow> r);
          r = r\<lparr>at_count := at_count r + 1\<rparr>;
          r = (if at_count r \<ge> 5 then r\<lparr>at_until := time_Add now (lock_delay (at_count r))\<rparr> else r)
      in set_attempt host r as)"

definition clearFailures :: "string \<Rightarrow> attempts \<Rightarrow> attempts" where
  "clearFailures host as = filter (\<lambda>(h, _). h \<noteq> host) as"

definition maxConcurrentLogins :: nat where "maxConcurrentLogins = 2"

text \<open>
  Logins in flight. \<open>lg_reading\<close> are the requests past the lockout check whose body is still being read, \<open>lg_hashing\<close>
  those holding a slot of \<open>loginSem\<close>; \<open>lg_checks\<close> records every password check that was started, with its time.
\<close>

record logins =
  lg_attempts :: attempts
  lg_slots :: nat
  lg_reading :: "string list"
  lg_hashing :: "string list"
  lg_checks :: "(string \<times> gotime) list"

definition no_logins :: logins where
  "no_logins = \<lparr>lg_attempts = [], lg_slots = 0, lg_reading = [], lg_hashing = [], lg_checks = []\<rparr>"

definition login_begin :: "string \<Rightarrow> gotime \<Rightarrow> logins \<Rightarrow> int option \<times> logins" where
  "login_begin host now s =
     (if throttled now host (lg_attempts s) \<noteq> None then (Some 429, s)
      else (None, s\<lparr>lg_reading := host # lg_reading s\<rparr>))"

definition login_body :: "string \<Rightarrow> gotime \<Rightarrow> bool \<Rightarrow> logins \<Rightarrow> int option \<times> logins" where
  "login_body host now decodes s =
     (let s = s\<lparr>lg_reading := remove1 host (lg_reading s)\<rparr>
      in if \<not> decodes then (Some 400, s)
         else let s = s\<lparr>lg_attempts := recordFailure now host (lg_attempts s)\<rparr>
         in if lg_slots s < maxConcurrentLogins
            then (None, s\<lparr>lg_slots := lg_slots s + 1, lg_hashing := host # lg_hashing s, lg_checks := lg_checks s @ [(host, now)]\<rparr>)
            else (Some 429, s))"

definition login_done :: "string \<Rightarrow> bool \<Rightarrow> logins \<Rightarrow> int option \<times> logins" where
  "login_done host ok s =
     (let s = s\<lparr>lg_slots := lg_slots s - 1, lg_hashing := remove1 host (lg_hashing s)\<rparr>
      in if \<not> ok then (Some 401, s) else (None, s\<lparr>lg_attempts := clearFailures host (lg_attempts s)\<rparr>))"

datatype login_op = LgBegin string gotime | LgBody string gotime bool | LgDone string bool

fun login_step :: "logins \<Rightarrow> login_op \<Rightarrow> logins" where
  "login_step s (LgBegin host now) = snd (login_begin host now s)"
| "login_step s (LgBody host now decodes) = (if host \<in> set (lg_reading s) then snd (login_body host now decodes s) else s)"
| "login_step s (LgDone host ok) = (if host \<in> set (lg_hashing s) then snd (login_done host ok s) else s)"

section \<open>Accounts and sessions\<close>

definition sessionTTL :: duration where "sessionTTL = 30 * 24 * 3600000000000"
definition defaultAdminUser :: string where "defaultAdminUser = ''admin''"
definition minPasswordLen :: nat where "minPasswordLen = 10"

text \<open>What the store's calls of one request meet: whether reads work, what becomes of each statement, and what the random
  source gives.\<close>

record store_env =
  se_now :: gotime
  se_reads :: bool
  se_salt :: "bytes option"
  se_create :: exec
  se_drop :: exec
  se_token :: "bytes option"
  se_issue :: exec

definition EnsureAdmin :: "bytes option \<Rightarrow> store_env \<Rightarrow> string \<Rightarrow> Store \<Rightarrow> string option option \<times> Store" where
  "EnsureAdmin rnd env username st =
     (case HasUsers (se_reads env) st of None \<Rightarrow> (None, st)
      | Some has \<Rightarrow>
          if has then (Some None, st)
          else (case rnd of None \<Rightarrow> (None, st)
                | Some b \<Rightarrow>
                    let password = hexEncode b
                    in (case CreateUser (se_salt env) (se_create env) username password st of
                          (True, st) \<Rightarrow> (Some (Some password), st) | (False, st) \<Rightarrow> (None, st))))"

definition sessionUser :: "store_env \<Rightarrow> string option \<Rightarrow> Store \<Rightarrow> string option \<times> Store" where
  "sessionUser env cookie st =
     (case cookie of None \<Rightarrow> (None, st)
      | Some token \<Rightarrow> (case Session_of (se_reads env) (se_drop env) (se_now env) token st of
            (Inl _, st) \<Rightarrow> (None, st) | (Inr user, st) \<Rightarrow> (Some user, st)))"

text \<open>The end of a login: the check, and the session of an accepted one. \<open>Some\<close> is the cookie set.\<close>

definition handleLogin :: "store_env \<Rightarrow> string \<Rightarrow> string \<Rightarrow> Store \<Rightarrow> int \<times> string option \<times> Store" where
  "handleLogin env username password st =
     (if \<not> fst (CheckPassword (se_reads env) st username password) then (401, None, st)
      else (case st_NewSession (se_token env) (se_issue env) (se_now env) username sessionTTL st of
              (None, st) \<Rightarrow> (500, None, st) | (Some token, st) \<Rightarrow> (200, Some token, st)))"

definition handleLogout :: "exec \<Rightarrow> string option \<Rightarrow> Store \<Rightarrow> int \<times> Store" where
  "handleLogout x cookie st = (200, case cookie of None \<Rightarrow> st | Some token \<Rightarrow> snd (DeleteSession x token st))"

record passwordRequest =
  pr_Username :: string
  pr_Current :: string
  pr_New :: string

definition change_password :: "bool \<Rightarrow> store_env \<Rightarrow> string \<Rightarrow> string \<Rightarrow> Store \<Rightarrow> int \<times> string option \<times> Store" where
  "change_password trusted env username new st =
     (let username = (if username = '''' then defaultAdminUser else username)
      in case CreateUser (se_salt env) (se_create env) username new st of
           (False, st) \<Rightarrow> (500, None, st)
         | (True, st) \<Rightarrow>
             let st = snd (DeleteSessionsFor (se_drop env) username st)
             in if trusted then (200, None, st)
                else (case st_NewSession (se_token env) (se_issue env) (se_now env) username sessionTTL st of
                        (token, st) \<Rightarrow> (200, token, st)))"

definition handlePassword ::
    "bool \<Rightarrow> store_env \<Rightarrow> string option \<Rightarrow> passwordRequest option \<Rightarrow> Store \<Rightarrow> int \<times> string option \<times> Store" where
  "handlePassword trusted env cookie body st =
     (case body of None \<Rightarrow> (400, None, st)
      | Some req \<Rightarrow>
          if byte_len (pr_New req) < minPasswordLen then (400, None, st)
          else if trusted then change_password True env (TrimSpace (pr_Username req)) (pr_New req) st
          else (case sessionUser env cookie st of
                  (None, st) \<Rightarrow> (401, None, st)
                | (Some user, st) \<Rightarrow>
                    if \<not> fst (CheckPassword (se_reads env) st user (pr_Current req)) then (403, None, st)
                    else change_password False env user (pr_New req) st))"

section \<open>Which request reaches which handler\<close>

datatype handler =
  HStatus | HPSK | HGetConfig | HPresets | HProtectPresets | HPutConfig | HCheckConfig | HEvents | HHistory | HUsage | HMode | HPin
| HApprove | HRevoke | HClearQuarantine | HGeoFetch | HRevert | HPassword

definition api_routes :: "(string \<times> string \<times> handler) list" where
  "api_routes =
     [(''GET'', ''/api/status'', HStatus), (''GET'', ''/api/psk'', HPSK), (''GET'', ''/api/config'', HGetConfig),
      (''GET'', ''/api/presets'', HPresets), (''GET'', ''/api/protect-presets'', HProtectPresets),
      (''PUT'', ''/api/config'', HPutConfig), (''POST'', ''/api/config/check'', HCheckConfig),
      (''GET'', ''/api/events'', HEvents), (''GET'', ''/api/history'', HHistory), (''GET'', ''/api/usage'', HUsage),
      (''POST'', ''/api/mode'', HMode), (''POST'', ''/api/pin'', HPin), (''POST'', ''/api/approve'', HApprove),
      (''POST'', ''/api/revoke'', HRevoke), (''POST'', ''/api/quarantine/clear'', HClearQuarantine),
      (''POST'', ''/api/geo/fetch'', HGeoFetch), (''POST'', ''/api/revert'', HRevert), (''POST'', ''/api/password'', HPassword)]"

text \<open>The headers the code reads, empty where absent. \<open>url\<close> is the host of a parsed origin (\<open>url.Parse\<close>).\<close>

record http_request =
  rq_method :: string
  rq_path :: string
  rq_cookie :: "string option"
  rq_fetchSite :: string
  rq_origin :: string
  rq_contentType :: string
  rq_host :: string

definition has_prefix :: "string \<Rightarrow> string \<Rightarrow> bool" where
  "has_prefix s p \<longleftrightarrow> take (length p) s = p"

definition crossSite :: "(string \<Rightarrow> string option) \<Rightarrow> http_request \<Rightarrow> bool" where
  "crossSite url r =
     (if rq_fetchSite r \<noteq> '''' \<and> rq_fetchSite r \<noteq> ''same-origin'' \<and> rq_fetchSite r \<noteq> ''none'' then True
      else if rq_origin r \<noteq> '''' \<and>
          (rq_origin r = ''null'' \<or> (case url (rq_origin r) of None \<Rightarrow> True | Some h \<Rightarrow> \<not> EqualFold h (rq_host r))) then True
      else list_ex (has_prefix (ToLower (rq_contentType r)))
             [''application/x-www-form-urlencoded'', ''multipart/form-data'', ''text/plain''])"

text \<open>Where the mux sends a request with a clean path: a pattern with \<open>GET\<close> takes \<open>HEAD\<close> as well, and what no pattern
  takes goes to the files.\<close>

definition takes :: "string \<Rightarrow> string \<Rightarrow> http_request \<Rightarrow> bool" where
  "takes method path r \<longleftrightarrow> rq_path r = path \<and> (rq_method r = method \<or> method = ''GET'' \<and> rq_method r = ''HEAD'')"

datatype answer = Login | Logout | Api handler | Refuse int | Files | ToLogin

definition requireAuth :: "(string \<Rightarrow> string option) \<Rightarrow> bool \<Rightarrow> store_env \<Rightarrow> handler \<Rightarrow> http_request \<Rightarrow> Store \<Rightarrow> answer \<times> Store" where
  "requireAuth url trusted env h r st =
     (if trusted then (Api h, st)
      else (case sessionUser env (rq_cookie r) st of
              (None, st) \<Rightarrow> (Refuse 401, st)
            | (Some user, st) \<Rightarrow>
                if rq_method r \<noteq> ''GET'' \<and> rq_method r \<noteq> ''HEAD'' \<and> crossSite url r then (Refuse 403, st) else (Api h, st)))"

definition Handler :: "(string \<Rightarrow> string option) \<Rightarrow> bool \<Rightarrow> store_env \<Rightarrow> http_request \<Rightarrow> Store \<Rightarrow> answer \<times> Store" where
  "Handler url trusted env r st =
     (if takes ''POST'' ''/api/login'' r then (Login, st)
      else if takes ''POST'' ''/api/logout'' r then (Logout, st)
      else case find (\<lambda>(m, p, h). takes m p r) api_routes of
        Some (m, p, h) \<Rightarrow> requireAuth url trusted env h r st
      | None \<Rightarrow>
          if rq_path r = ''/'' \<and> \<not> trusted then
            (case sessionUser env (rq_cookie r) st of (None, st) \<Rightarrow> (ToLogin, st) | (Some _, st) \<Rightarrow> (Files, st))
          else (Files, st))"

section \<open>The handlers\<close>

definition handlePSK :: "string \<Rightarrow> int \<times> string" where
  "handlePSK psk = (if psk = '''' then (404, '''') else (200, psk))"

text \<open>\<open>rc\<close>, \<open>ap\<close> and \<open>rv\<close> are the engine's \<open>Reconfigure\<close>, \<open>Approve\<close> and \<open>RevokeApproval\<close> in their environment; a body is
  \<open>None\<close> where it does not decode.\<close>

definition handleMode :: "(Config \<Rightarrow> Engine \<Rightarrow> 'x + Engine) \<Rightarrow> string option \<Rightarrow> Engine \<Rightarrow> int \<times> Engine" where
  "handleMode rc body e =
     (case body of None \<Rightarrow> (400, e)
      | Some m \<Rightarrow>
          if m \<noteq> ModeObserve \<and> m \<noteq> ModeArmed then (400, e)
          else (case rc ((e_cfg e)\<lparr>c_Mode := m\<rparr>) e of Inl _ \<Rightarrow> (500, e) | Inr e \<Rightarrow> (200, e)))"

definition handlePin :: "int option \<Rightarrow> Engine \<Rightarrow> int \<times> Engine" where
  "handlePin body e =
     (case body of None \<Rightarrow> (400, e) | Some i \<Rightarrow> (case Pin e i of Inl _ \<Rightarrow> (400, e) | Inr e \<Rightarrow> (200, e)))"

record approveRequest =
  ar_PathID :: int
  ar_Hours :: float64
  ar_ExtraGB :: float64

text \<open>What an approval asks for, or a refusal: the duration and the extra bytes after their conversions.\<close>

definition approve_terms :: "approveRequest \<Rightarrow> (duration \<times> int) option" where
  "approve_terms req =
     (let hours = (if fle (ar_Hours req) (Fin 0) then Fin 24 else ar_Hours req); gb = ar_ExtraGB req
      in if fgt hours (Fin (24 * 31)) then None
         else if gb = NaN \<or> gb = PInf \<or> gb = NInf \<or> flt gb (Fin 0) then None
         else if fgt gb (f_of_int (MaxLedgerValue div 2 ^ 30)) then None
         else Some (int64_of (fmul hours (Fin 3600000000000)), int64_of (fmul gb (Fin (2 ^ 30)))))"

definition handleApprove ::
    "(int \<Rightarrow> duration \<Rightarrow> int \<Rightarrow> Engine \<Rightarrow> 'x + Engine) \<Rightarrow> approveRequest option \<Rightarrow> Engine \<Rightarrow> int \<times> Engine" where
  "handleApprove ap body e =
     (case body of None \<Rightarrow> (400, e)
      | Some req \<Rightarrow>
          (case approve_terms req of None \<Rightarrow> (400, e)
           | Some (dur, extra) \<Rightarrow> (case ap (ar_PathID req) dur extra e of Inl _ \<Rightarrow> (400, e) | Inr e \<Rightarrow> (200, e))))"

definition handleRevoke :: "(int \<Rightarrow> Engine \<Rightarrow> 'x + Engine) \<Rightarrow> int option \<Rightarrow> Engine \<Rightarrow> int \<times> Engine" where
  "handleRevoke rv body e =
     (case body of None \<Rightarrow> (400, e) | Some i \<Rightarrow> (case rv i e of Inl _ \<Rightarrow> (400, e) | Inr e \<Rightarrow> (200, e)))"

definition handleClearQuarantine :: "int option \<Rightarrow> Engine \<Rightarrow> int \<times> Engine" where
  "handleClearQuarantine body e = (case body of None \<Rightarrow> (400, e) | Some i \<Rightarrow> (200, eng_ClearQuarantine e i))"

definition handleRevert :: "bool \<Rightarrow> Engine \<Rightarrow> int \<times> Engine" where
  "handleRevert del e = (200, Revert del e)"

text \<open>A query parameter: absent (or empty) and unreadable ones take the default.\<close>

definition intParam :: "string \<Rightarrow> int \<Rightarrow> int" where
  "intParam v def = (if v = '''' then def else case Atoi v of None \<Rightarrow> def | Some n \<Rightarrow> n)"

definition handleEvents :: "bool \<Rightarrow> string \<Rightarrow> Store \<Rightarrow> int \<times> Event list" where
  "handleEvents ok v st =
     (let limit = intParam v 100; limit = (if limit > 500 then 500 else limit)
      in case Events ok limit st of None \<Rightarrow> (500, []) | Some evs \<Rightarrow> (200, evs))"

text \<open>The window and the bucket a history is asked for.\<close>

definition handleHistory :: "gotime \<Rightarrow> string \<Rightarrow> string \<Rightarrow> int \<times> gotime \<times> int" where
  "handleHistory now path hours =
     (let pathID = intParam path 0; hours = intParam hours 6;
          hours = (if hours < 1 then 1 else hours); hours = (if hours > 720 then 720 else hours);
          bucket = go_div (hours * 3600) 240; bucket = (if bucket < 10 then 10 else bucket)
      in (pathID, time_Add now (- (hours * 3600000000000)), bucket))"

definition handleUsage :: "Location \<Rightarrow> gotime \<Rightarrow> string \<Rightarrow> string \<Rightarrow> int \<times> gotime \<times> int" where
  "handleUsage loc now path days =
     (let pathID = intParam path 0; days = intParam days 31;
          days = (if days < 1 then 1 else days); days = (if days > 400 then 400 else days)
      in (pathID, AddDate loc now 0 0 (- days), 3600))"

section \<open>Fetching region lists\<close>

definition geoFetchMaxBytes :: nat where "geoFetchMaxBytes = 4194304"
definition geoFetchMaxCountries :: nat where "geoFetchMaxCountries = 24"
definition geoFetchMaxTotal :: nat where "geoFetchMaxTotal = 8388608"

datatype fetch_refusal = CountryUnreachable | CountryStatus int | CountryUnread | CountryTooLarge | CountryBadLine string | CountryEmpty

fun country_lines :: "string list \<Rightarrow> string list \<Rightarrow> fetch_refusal + string list" where
  "country_lines out [] = Inr out"
| "country_lines out (raw # raws) =
     (let line = TrimSpace raw
      in if line = '''' then country_lines out raws
         else case parseIPv4Network line of Inl _ \<Rightarrow> Inl (CountryBadLine line) | Inr _ \<Rightarrow> country_lines (out @ [line]) raws)"

text \<open>An answer is the status, the body and whether reading it broke off.\<close>

definition fetchCountry :: "(int \<times> string \<times> bool) option \<Rightarrow> fetch_refusal + string list" where
  "fetchCountry resp =
     (case resp of None \<Rightarrow> Inl CountryUnreachable
      | Some (status, full, broken) \<Rightarrow>
          if status \<noteq> 200 then Inl (CountryStatus status)
          else let body = take (geoFetchMaxBytes + 1) full
          in if broken \<and> length body \<le> geoFetchMaxBytes then Inl CountryUnread
             else if length body > geoFetchMaxBytes then Inl CountryTooLarge
             else (case country_lines [] (split_on (CHR 10) body) of Inl e \<Rightarrow> Inl e
                  | Inr out \<Rightarrow> if length out = 0 then Inl CountryEmpty else Inr out))"

text \<open>\<open>site\<close> answers for a code. The fetches run together; the request fails where one of them does, with whichever error
  came first.\<close>

fun fetch_all :: "(string \<Rightarrow> (int \<times> string \<times> bool) option) \<Rightarrow> string list \<Rightarrow> string list list option" where
  "fetch_all site [] = Some []"
| "fetch_all site (cc # ccs) =
     (case (fetchCountry (site cc), fetch_all site ccs) of (Inr l, Some ls) \<Rightarrow> Some (l # ls) | _ \<Rightarrow> None)"

definition handleGeoFetch ::
    "(string \<Rightarrow> (int \<times> string \<times> bool) option) \<Rightarrow> string list option \<Rightarrow> int \<times> string list \<times> (string \<times> nat) list" where
  "handleGeoFetch site body =
     (case body of None \<Rightarrow> (400, [], [])
      | Some countries \<Rightarrow>
          if countries = [] \<or> length countries > geoFetchMaxCountries then (400, [], [])
          else (case cleanCountryCodes [] countries of Inl _ \<Rightarrow> (400, [], [])
          | Inr codes \<Rightarrow>
              if codes = [] then (400, [], [])
              else (case fetch_all site codes of None \<Rightarrow> (502, [], [])
                    | Some ls \<Rightarrow>
                        let cidrs = concat ls
                        in if sum_list (map (\<lambda>c. length c + 1) cidrs) > geoFetchMaxTotal then (400, [], [])
                           else (200, cidrs, map2 (\<lambda>cc l. (cc, length l)) codes ls))))"

end
