(* ===== verification/PortalProps.thy ===== *)
theory PortalProps
  imports Portal
begin

text \<open>
  What the portal's login and its endpoints promise: guesses at a password are spaced by the lockout however the logins of
  other hosts fall between them, no more than two hashes run at once, no request of another site reaches a handler that
  changes anything, a changed password ends every session of the account, and what an approval or a region fetch hands on is
  within the bounds its receiver assumes.
\<close>

section \<open>The lockout\<close>

lemma map_of_set_attempt: "map_of (set_attempt host r as) h = (if h = host then Some r else map_of as h)"
proof -
  have "h \<noteq> host \<Longrightarrow> map_of (filter (\<lambda>(h', _). h' \<noteq> host) as) h = map_of as h" by (induction as) auto
  then show ?thesis by (simp add: set_attempt_def)
qed

lemma map_of_clear: "map_of (clearFailures host as) h = (if h = host then None else map_of as h)"
  by (induction as) (auto simp: clearFailures_def)

lemma keys_set_attempt: "set (map fst (set_attempt host r as)) = insert host (set (map fst as))"
  by (auto simp: set_attempt_def image_iff)

lemma distinct_set_attempt: "distinct (map fst as) \<Longrightarrow> distinct (map fst (set_attempt host r as))"
  by (induction as) (auto simp: set_attempt_def)

lemma few_keys:
  assumes "distinct (map fst as)" and "set (map fst as) \<subseteq> set hosts" and "length (remdups hosts) \<le> 256"
  shows "evict now as = as"
proof -
  have "length as = card (set (map fst as))" using assms(1) distinct_card [of "map fst as"] by simp
  also have "\<dots> \<le> card (set hosts)" using assms(2) by (intro card_mono) simp_all
  finally show ?thesis using assms(3) by (simp add: evict_def length_remdups_card_conv)
qed

definition idle :: "logins \<Rightarrow> bool" where
  "idle s \<longleftrightarrow> lg_reading s = [] \<and> lg_hashing s = [] \<and> lg_slots s = 0"

text \<open>
  What a run counts against an address: the times its attempts were recorded, which happens once the body of a
  request is read, forgotten when one of its logins succeeds.
\<close>

fun counted :: "string \<Rightarrow> logins \<times> gotime list \<Rightarrow> login_op \<Rightarrow> logins \<times> gotime list" where
  "counted host (s, ts) (LgBody h now decodes) =
     (login_step s (LgBody h now decodes), if h = host \<and> h \<in> set (lg_reading s) \<and> decodes then ts @ [now] else ts)"
| "counted host (s, ts) (LgDone h ok) =
     (login_step s (LgDone h ok), if h = host \<and> h \<in> set (lg_hashing s) \<and> ok then [] else ts)"
| "counted host (s, ts) (LgBegin h now) = (login_step s (LgBegin h now), ts)"

lemma counted_run: "fst (foldl (counted host) (s, ts) ops) = foldl login_step s ops"
proof (induction ops arbitrary: s ts)
  case (Cons op ops)
  have "fst (counted host (s, ts) op) = login_step s op" by (cases op) simp_all
  then show ?case using Cons by (cases "counted host (s, ts) op") simp
qed simp

text \<open>The record of an address: how many attempts were counted, and until when it is locked out.\<close>

definition lock_record :: "gotime list \<Rightarrow> attemptRecord option" where
  "lock_record ts =
     (if ts = [] then None
      else Some \<lparr>at_count = int (length ts),
                 at_until = (if length ts \<ge> 5 then last ts + lock_delay (int (length ts)) else 0)\<rparr>)"

lemma lock_record_Nil [simp]: "lock_record [] = None"
  by (simp add: lock_record_def)

definition lock_inv :: "string list \<Rightarrow> string \<Rightarrow> logins \<times> gotime list \<Rightarrow> bool" where
  "lock_inv hosts host x \<longleftrightarrow> distinct (map fst (lg_attempts (fst x))) \<and>
     set (map fst (lg_attempts (fst x))) \<subseteq> set hosts \<and> map_of (lg_attempts (fst x)) host = lock_record (snd x)"

lemma record_keys:
  assumes "distinct (map fst as)" and "set (map fst as) \<subseteq> set hosts" and "length (remdups hosts) \<le> 256" and "h \<in> set hosts"
  shows "distinct (map fst (recordFailure now h as))" "set (map fst (recordFailure now h as)) \<subseteq> set hosts"
  using assms few_keys [OF assms(1-3)] distinct_set_attempt [OF assms(1)]
  by (simp_all add: recordFailure_def Let_def keys_set_attempt del: set_map)

lemma record_lock:
  assumes "evict now as = as" and "map_of as host = lock_record ts"
  shows "map_of (recordFailure now h as) host = (if h = host then lock_record (ts @ [now]) else lock_record ts)"
  using assms by (simp add: recordFailure_def Let_def map_of_set_attempt lock_record_def time_Add_def add.commute)

lemma clear_keys:
  "distinct (map fst as) \<Longrightarrow> distinct (map fst (clearFailures h as))"
  "set (map fst as) \<subseteq> S \<Longrightarrow> set (map fst (clearFailures h as)) \<subseteq> S"
  by (auto simp: clearFailures_def distinct_map_filter)

text \<open>The attempts of at most 256 addresses, in any interleaving of the steps of their logins.\<close>

fun from_hosts :: "string list \<Rightarrow> login_op \<Rightarrow> bool" where
  "from_hosts hosts (LgBody h now decodes) \<longleftrightarrow> h \<in> set hosts"
| "from_hosts hosts _ \<longleftrightarrow> True"

lemma counted_lock:
  assumes "from_hosts hosts op" and "lock_inv hosts host x" and "length (remdups hosts) \<le> 256"
  shows "lock_inv hosts host (counted host x op)"
proof (cases x)
  case (Pair s ts)
  have inv: "distinct (map fst (lg_attempts s))" "set (map fst (lg_attempts s)) \<subseteq> set hosts"
    "map_of (lg_attempts s) host = lock_record ts"
    using assms(2) Pair by (simp_all add: lock_inv_def)
  show ?thesis
  proof (cases op)
    case (LgBody h now decodes)
    then show ?thesis
      using inv assms(1) record_keys [OF inv(1,2) assms(3)] record_lock [OF few_keys [OF inv(1,2) assms(3)] inv(3), of now h] Pair
      by (cases "h \<in> set (lg_reading s)"; cases decodes; cases "h = host")
        (simp_all add: lock_inv_def login_body_def Let_def del: set_map)
  next
    case (LgDone h ok)
    then show ?thesis
      using inv clear_keys(1) [OF inv(1), of h] clear_keys(2) [OF inv(2), of h] Pair
      by (cases "h \<in> set (lg_hashing s)"; cases ok; cases "h = host")
        (simp_all add: lock_inv_def login_done_def map_of_clear Let_def del: set_map)
  qed (use inv Pair in \<open>simp add: lock_inv_def login_begin_def\<close>)
qed

interpretation lock_runs: guarded_run "counted host" "from_hosts hosts"
  "\<lambda>x. lock_inv hosts host x \<and> length (remdups hosts) \<le> 256" for hosts host
  by unfold_locales (auto intro: counted_lock)

lemma lock_delay_exact: "5 \<le> k \<Longrightarrow> k \<le> 300000000 \<Longrightarrow> lock_delay k = min ((k - 4) * 30000000000) 900000000000"
  by (simp add: lock_delay_def wrap64_id in_int64_def minInt64_def maxInt64_def Let_def min_def)

text \<open>C17. The lockout. As long as no more than 256 addresses have attempts on record, and however the logins of all of them
  interleave, concurrent ones of one address included, a request of an address is refused exactly while it is locked out:
  at least five of its attempts have been counted since its last successful login, and less time has passed since the
  last of them than thirty seconds for the fifth, thirty more for each one after it, and a quarter of an hour at most. A
  refused request starts no password check. (A request let in before the lockout began keeps its check:
  \<open>lockout_overtaken\<close>; with more addresses on record one that is not yet locked out may be forgotten:
  \<open>evict_forgets_counting\<close>.)\<close>

theorem guesses_spaced:
  assumes "list_all (from_hosts hosts) ops" and "length (remdups hosts) \<le> 256"
    and "foldl (counted host) (no_logins, []) ops = (s, ts)" and "length ts \<le> 300000000" and "0 \<le> now"
  shows "s = foldl login_step no_logins ops \<and>
    login_begin host now s =
      (if 5 \<le> length ts \<and> now < last ts + min ((int (length ts) - 4) * 30000000000) 900000000000 then (Some 429, s)
       else (None, s\<lparr>lg_reading := host # lg_reading s\<rparr>))"
proof -
  have "lock_inv hosts host (no_logins, [])" by (simp add: lock_inv_def no_logins_def lock_record_def)
  then have "lock_inv hosts host (s, ts)"
    using lock_runs.guarded_run_inv [OF assms(1), of host "(no_logins, [])"] assms(2,3) by simp
  then have rec: "map_of (lg_attempts s) host = lock_record ts" by (simp add: lock_inv_def)
  have "(\<exists>w. throttled now host (lg_attempts s) = Some w) \<longleftrightarrow>
      5 \<le> length ts \<and> now < last ts + lock_delay (int (length ts))"
    using assms(5) by (auto simp: throttled_def rec lock_record_def)
  then show ?thesis
    using lock_delay_exact [of "int (length ts)"] assms(4) counted_run [of host no_logins "[]" ops] assms(3)
    by (auto simp: login_begin_def)
qed

section \<open>Password hashes at once\<close>

interpretation slot_runs: invariant_run login_step "\<lambda>s :: logins. lg_slots s = length (lg_hashing s) \<and> lg_slots s \<le> maxConcurrentLogins"
proof
  fix s :: logins and e assume inv: "lg_slots s = length (lg_hashing s) \<and> lg_slots s \<le> maxConcurrentLogins"
  show "lg_slots (login_step s e) = length (lg_hashing (login_step s e)) \<and> lg_slots (login_step s e) \<le> maxConcurrentLogins"
    using inv by (cases e) (auto simp: login_begin_def login_body_def login_done_def Let_def length_remove1)
qed

text \<open>However many logins are under way at once and in whatever order their steps fall, at most two password hashes run at
  the same time, and every slot taken is given back when its check ends.\<close>

theorem hashes_bounded:
  "lg_slots (foldl login_step no_logins ops) = length (lg_hashing (foldl login_step no_logins ops)) \<and>
   length (lg_hashing (foldl login_step no_logins ops)) \<le> 2"
  using slot_runs.run_inv [of no_logins ops] by (simp add: no_logins_def maxConcurrentLogins_def)

text \<open>The lockout is looked at before the body is read and not again: requests opened before the lockout guess on through it,
  one after the other.\<close>

lemma lockout_overtaken:
  "length (lg_checks (foldl login_step no_logins
     (map (\<lambda>_. LgBegin h t) [0..<n] @ concat (map (\<lambda>_. [LgBody h t True, LgDone h False]) [0..<n])))) = n"
proof -
  have opened: "foldl login_step s (map (\<lambda>_. LgBegin h t) [0..<n]) = s\<lparr>lg_reading := replicate n h @ lg_reading s\<rparr>"
    if "throttled t h (lg_attempts s) = None" for s :: logins and n
    using that by (induction n) (simp_all add: login_begin_def)
  have guessed: "length (lg_checks (foldl login_step s (concat (map (\<lambda>_. [LgBody h t True, LgDone h False]) [0..<n])))) =
      length (lg_checks s) + n \<and>
      idle ((foldl login_step s (concat (map (\<lambda>_. [LgBody h t True, LgDone h False]) [0..<n])))\<lparr>lg_reading := []\<rparr>) \<and>
      lg_reading (foldl login_step s (concat (map (\<lambda>_. [LgBody h t True, LgDone h False]) [0..<n]))) = replicate m h"
    if "idle (s\<lparr>lg_reading := []\<rparr>)" "lg_reading s = replicate (m + n) h" for s :: logins and m n
    using that
  proof (induction n arbitrary: m)
    case 0
    then show ?case by simp
  next
    case (Suc n)
    define s1 where "s1 = foldl login_step s (concat (map (\<lambda>_. [LgBody h t True, LgDone h False]) [0..<n]))"
    have s1: "length (lg_checks s1) = length (lg_checks s) + n" "idle (s1\<lparr>lg_reading := []\<rparr>)" "lg_reading s1 = replicate (Suc m) h"
      using Suc.IH [of "Suc m"] Suc.prems by (simp_all add: s1_def)
    have "foldl login_step s (concat (map (\<lambda>_. [LgBody h t True, LgDone h False]) [0..<Suc n])) =
        foldl login_step s1 [LgBody h t True, LgDone h False]" by (simp add: s1_def)
    then show ?case using s1
      by (simp add: login_body_def login_done_def Let_def idle_def maxConcurrentLogins_def)
  qed
  have "foldl login_step no_logins (map (\<lambda>_. LgBegin h t) [0..<n]) = no_logins\<lparr>lg_reading := replicate n h @ []\<rparr>"
    using opened [of no_logins n] by (simp add: no_logins_def throttled_def)
  then show ?thesis
    using guessed [of "no_logins\<lparr>lg_reading := replicate n h\<rparr>" 0 n] by (simp add: no_logins_def idle_def)
qed

text \<open>A full map forgets the failures of a host that was never locked out.\<close>

lemma evict_forgets_counting:
  assumes "256 < length as" and "(host, r) \<in> set as" and "at_until r = 0" and "3600000000000 < now"
  shows "(host, r) \<notin> set (evict now as)"
  using assms by (simp add: evict_def time_Add_def)

section \<open>The gate\<close>


lemma sessionUser_live:
  assumes "fst (sessionUser env cookie st) = Some user"
  shows "\<exists>token ex. cookie = Some token \<and> st_sessions st token = Some (user, ex) \<and> to_unix (se_now env) \<le> ex"
  using assms by (auto simp: sessionUser_def Session_of_def split: option.splits if_splits prod.splits)









section \<open>A changed password\<close>

lemma session_holds: "fst (Session_of True y now token st) = Inr v \<longleftrightarrow> (\<exists>ex. st_sessions st token = Some (v, ex) \<and> to_unix now \<le> ex)"
  by (auto simp: Session_of_def split: option.splits)

lemma new_session_only:
  "st_NewSession rnd x now user ttl st = (tok, st') \<Longrightarrow> st_sessions st' t = Some (u, ex) \<Longrightarrow>
    st_sessions st t = Some (u, ex) \<or> (u = user \<and> (\<exists>b. rnd = Some b \<and> t = hexEncode b))"
  by (cases x) (auto simp: st_NewSession_def Let_def split: option.splits if_splits)

lemma new_session_users: "st_NewSession rnd x now user ttl st = (tok, st') \<Longrightarrow> st_users st' = st_users st"
  by (cases x) (auto simp: st_NewSession_def Let_def split: option.splits if_splits)

lemma credentials_users: "st_users st' = st_users st \<Longrightarrow> credentials ok st' u = credentials ok st u"
  by (simp add: credentials_def)

lemma Session_users: "st_users (snd (Session_of ok x now token st)) = st_users st"
  by (cases x) (simp_all add: Session_of_def DeleteSession_def split: option.split)

lemma sessionUser_users: "st_users (snd (sessionUser env cookie st)) = st_users st"
proof (cases cookie)
  case (Some token)
  obtain a b where "Session_of (se_reads env) (se_drop env) (se_now env) token st = (a, b)" by fastforce
  then show ?thesis using Some Session_users [of "se_reads env" "se_drop env" "se_now env" token st]
    by (simp add: sessionUser_def split: sum.split)
qed (simp add: sessionUser_def)

lemma check_users: "st_users st' = st_users st \<Longrightarrow> CheckPassword ok st' u p = CheckPassword ok st u p"
  by (simp only: CheckPassword_def credentials_users [of st' st])

lemma new_session_keeps:
  "st_NewSession rnd x now user ttl st = (tok, st') \<Longrightarrow> st_sessions st t = Some v \<Longrightarrow> st_sessions st' t = Some v"
  by (cases x; cases v) (auto simp: st_NewSession_def Let_def split: option.splits if_splits)

text \<open>What a successful change leaves behind. The statement that drops the sessions may take effect or not: its failure
  is logged and the answer is success all the same.\<close>

lemma change_password_leaves:
  assumes "change_password trusted env username new st = (200, tok, st')"
  defines "user \<equiv> if username = '''' then defaultAdminUser else username"
  shows "fst (CheckPassword True st' user new)"
    and "other \<noteq> user \<Longrightarrow> st_users st' other = st_users st other"
    and "se_drop env \<noteq> Failed \<Longrightarrow> st_sessions st' t = Some (user, ex) \<Longrightarrow>
      \<not> trusted \<and> (\<exists>b. se_token env = Some b \<and> t = hexEncode b)"
    and "se_drop env = Failed \<or> other \<noteq> user \<Longrightarrow> st_sessions st t = Some (other, ex) \<Longrightarrow> st_sessions st' t = Some (other, ex)"
proof -
  obtain made st1 where c: "CreateUser (se_salt env) (se_create env) user new st = (made, st1)" by fastforce
  have def: "change_password trusted env username new st = (case (made, st1) of (False, st) \<Rightarrow> (500, None, st)
      | (True, st) \<Rightarrow> let st = snd (DeleteSessionsFor (se_drop env) user st)
          in if trusted then (200, None, st)
             else (case st_NewSession (se_token env) (se_issue env) (se_now env) user sessionTTL st of (token, st) \<Rightarrow> (200, token, st)))"
    unfolding change_password_def Let_def user_def [symmetric] c ..
  then have made using assms(1) by (cases made) simp_all
  then have created: "CreateUser (se_salt env) (se_create env) user new st = (True, st1)" using c by simp
  obtain salt where salt: "se_salt env = Some salt" using created by (auto simp: CreateUser_def split: option.splits)
  have st1: "st_sessions st1 = st_sessions st" "\<And>other. other \<noteq> user \<Longrightarrow> st_users st1 other = st_users st other"
    using created by (cases "se_create env"; auto simp: CreateUser_def salt)+
  define st2 where "st2 = snd (DeleteSessionsFor (se_drop env) user st1)"
  have none: "se_drop env \<noteq> Failed \<Longrightarrow> st_sessions st2 t \<noteq> Some (user, ex)" for t ex
    by (cases "se_drop env") (auto simp: st2_def DeleteSessionsFor_def split: option.splits if_splits)
  have kept: "se_drop env = Failed \<or> other \<noteq> user \<Longrightarrow> st_sessions st t = Some (other, ex) \<Longrightarrow> st_sessions st2 t = Some (other, ex)"
    by (cases "se_drop env") (auto simp: st2_def DeleteSessionsFor_def st1)
  have users2: "st_users st2 = st_users st1" by (cases "se_drop env") (simp_all add: st2_def DeleteSessionsFor_def)
  have rest: "if trusted then st' = st2 else st_NewSession (se_token env) (se_issue env) (se_now env) user sessionTTL st2 = (tok, st')"
    using assms(1) \<open>made\<close> by (simp add: def st2_def [symmetric] Let_def split: prod.splits if_splits)
  have users: "st_users st' = st_users st1"
    using rest users2 new_session_users by (cases trusted) auto
  have "fst (CheckPassword True st1 user new)" using CheckPassword_spec [of salt "se_create env" user new st st1 user new True] created salt by simp
  then show "fst (CheckPassword True st' user new)" using check_users [OF users] by simp
  show "other \<noteq> user \<Longrightarrow> st_users st' other = st_users st other" using users st1(2) by simp
  show "se_drop env \<noteq> Failed \<Longrightarrow> st_sessions st' t = Some (user, ex) \<Longrightarrow>
      \<not> trusted \<and> (\<exists>b. se_token env = Some b \<and> t = hexEncode b)"
    using rest none new_session_only [of "se_token env" "se_issue env" "se_now env" user sessionTTL st2 tok st' t user ex]
    by (cases trusted) auto
  show "se_drop env = Failed \<or> other \<noteq> user \<Longrightarrow> st_sessions st t = Some (other, ex) \<Longrightarrow> st_sessions st' t = Some (other, ex)"
    using rest kept new_session_keeps [of "se_token env" "se_issue env" "se_now env" user sessionTTL st2 tok st' t]
    by (cases trusted) auto
qed

text \<open>The account a change is for: over the socket of root the one the request names, over the portal the one whose session
  sent it; an empty name stands for the administrator.\<close>

definition changed_account :: "bool \<Rightarrow> string option \<Rightarrow> passwordRequest \<Rightarrow> Store \<Rightarrow> string" where
  "changed_account trusted cookie req st =
     (let name = (if trusted then TrimSpace (pr_Username req)
                  else case cookie of None \<Rightarrow> '''' | Some token \<Rightarrow> (case st_sessions st token of None \<Rightarrow> '''' | Some (u, _) \<Rightarrow> u))
      in if name = '''' then defaultAdminUser else name)"

text \<open>C18. A changed password takes over. When a change is answered with success, the account changed is the one the request
  is for: over root's local socket the one it names (the administrator where it names none), over the portal the one whose
  live session sent it, and then it gave the password that was current. From then on that account takes the new password;
  no other account's password changes and no other account's session ends. Its own sessions are all gone but the one issued
  with the answer, if the statement that drops them took effect; if that failed, which the answer does not show, every one
  of them is still there.\<close>

theorem password_change_takes_over:
  assumes "handlePassword trusted env cookie (Some req) st = (200, tok, st')" and "user = changed_account trusted cookie req st"
  shows "fst (CheckPassword True st' user (pr_New req)) \<and> 10 \<le> byte_len (pr_New req) \<and>
    (\<forall>other. other \<noteq> user \<longrightarrow> st_users st' other = st_users st other) \<and>
    (trusted \<or> (\<exists>token u ex. cookie = Some token \<and> st_sessions st token = Some (u, ex) \<and> to_unix (se_now env) \<le> ex \<and>
       user = (if u = '''' then defaultAdminUser else u) \<and> fst (CheckPassword True st u (pr_Current req)))) \<and>
    (se_drop env \<noteq> Failed \<longrightarrow> (\<forall>t ex. st_sessions st' t = Some (user, ex) \<longrightarrow>
       \<not> trusted \<and> (\<exists>b. se_token env = Some b \<and> t = hexEncode b))) \<and>
    (\<forall>t other ex. st_sessions st t = Some (other, ex) \<and> (se_drop env = Failed \<or> other \<noteq> user) \<longrightarrow>
       st_sessions st' t = Some (other, ex))"
proof (cases trusted)
  case True
  then have c: "change_password True env (TrimSpace (pr_Username req)) (pr_New req) st = (200, tok, st')"
    and long: "10 \<le> byte_len (pr_New req)"
    using assms(1) by (auto simp: handlePassword_def minPasswordLen_def split: if_splits)
  from True have "user = (if TrimSpace (pr_Username req) = '''' then defaultAdminUser else TrimSpace (pr_Username req))"
    by (simp add: assms(2) changed_account_def)
  then show ?thesis using change_password_leaves [OF c] True long by blast
next
  case False
  obtain u st1 where s: "sessionUser env cookie st = (Some u, st1)" "fst (CheckPassword (se_reads env) st1 u (pr_Current req))"
    "change_password False env u (pr_New req) st1 = (200, tok, st')" and long: "10 \<le> byte_len (pr_New req)"
    using assms(1) False by (auto simp: handlePassword_def minPasswordLen_def split: if_splits option.splits prod.splits)
  have st1: "st1 = st" and reads: "se_reads env"
    using s(1) by (auto simp: sessionUser_def Session_of_def split: option.splits if_splits prod.splits)
  obtain token ex where live: "cookie = Some token" "st_sessions st token = Some (u, ex)" "to_unix (se_now env) \<le> ex"
    using sessionUser_live [of env cookie st u] by (auto simp: s(1))
  have user: "user = (if u = '''' then defaultAdminUser else u)"
    using live False by (simp add: assms(2) changed_account_def)
  show ?thesis
    using change_password_leaves [OF s(3), folded user] False long live s(2) user reads unfolding st1 by auto
qed

section \<open>What the handlers hand on\<close>

lemma int64_of_product:
  assumes "0 \<le> a" and "a \<le> of_int n" and "0 \<le> m" and "n * m \<le> 2 ^ 60" and "0 \<le> n"
    and exact: "rnd64 (of_int (n * m)) = of_int (n * m)"
  shows "0 \<le> int64_of (fmul (Fin a) (Fin (of_int m))) \<and> int64_of (fmul (Fin a) (Fin (of_int m))) \<le> n * m"
proof -
  have "a * of_int m \<le> of_int n * of_int m" using assms(2,3) by (intro mult_right_mono) simp_all
  then have le: "a * of_int m \<le> of_int (n * m)" by simp
  have nonneg: "0 \<le> a * of_int m" using assms(1,3) by simp
  have "(of_int (n * m) :: rat) \<le> of_int (2 ^ 60)" using assms(4) by (simp only: of_int_le_iff)
  then have "a * of_int m \<le> 2 ^ 60" using le by simp
  then have f: "fmul (Fin a) (Fin (of_int m)) = Fin (rnd64 (a * of_int m))" using f64_fin [OF nonneg, of 60] by simp
  have r: "0 \<le> rnd64 (a * of_int m)" "rnd64 (a * of_int m) \<le> of_int (n * m)"
    using rnd64_nonneg [OF nonneg] rnd64_mono [OF le] exact by simp_all
  then have fl: "0 \<le> \<lfloor>rnd64 (a * of_int m)\<rfloor>" "\<lfloor>rnd64 (a * of_int m)\<rfloor> \<le> n * m"
    by (simp_all add: floor_le_iff)
  have "in_int64 k" if "0 \<le> k" "k \<le> n * m" for k using that assms(4) by (simp add: go_arith)
  from this [OF fl] have "in_int64 \<lfloor>rnd64 (a * of_int m)\<rfloor>" .
  then show ?thesis using r(1) fl unfolding f by (simp add: int64_of_def rat_trunc_def)
qed

text \<open>C19. An approval stays within what the quota reads. Whatever hours and gigabytes a request asks for (JSON carries no NaN), what
  reaches the engine is between nothing and thirty-one days and between nothing and the ledger's ceiling: never the negative
  figure that the quota would read as no limit at all.\<close>

theorem approval_bounded:
  assumes "approve_terms req = Some (dur, extra)" and "ar_Hours req \<noteq> NaN"
  shows "0 \<le> dur \<and> dur \<le> 31 * 24 * 3600000000000 \<and> 0 \<le> extra \<and> extra \<le> MaxLedgerValue"
proof -
  define hours where "hours = (if fle (ar_Hours req) (Fin 0) then Fin 24 else ar_Hours req)"
  have h: "\<not> fgt hours (Fin 744)" and g: "\<not> fgt (ar_ExtraGB req) (f_of_int (2 ^ 30))" "\<not> flt (ar_ExtraGB req) (Fin 0)"
    "ar_ExtraGB req \<noteq> NaN" "ar_ExtraGB req \<noteq> PInf" "ar_ExtraGB req \<noteq> NInf"
    and terms: "dur = int64_of (fmul hours (Fin 3600000000000))" "extra = int64_of (fmul (ar_ExtraGB req) (Fin (2 ^ 30)))"
    using assms(1) by (simp_all add: approve_terms_def hours_def [symmetric] Let_def MaxLedgerValue_def split: if_splits)
  obtain a where a: "hours = Fin a" "0 \<le> a" "a \<le> 744"
    using h assms(2) by (cases "ar_Hours req") (auto simp: hours_def fgt_def split: if_splits)
  have "(744 * 3600000000000 :: int) < 2 ^ 53" by simp
  then have e: "rnd64 (of_int (744 * 3600000000000)) = of_int (744 * 3600000000000)" by (intro rnd64_int) simp
  have "0 \<le> dur \<and> dur \<le> 744 * 3600000000000"
    using int64_of_product [OF a(2) _ _ _ _ e] a(3) by (simp add: terms(1) a(1))
  moreover obtain b where b: "ar_ExtraGB req = Fin b" using g(3-5) by (cases "ar_ExtraGB req") simp_all
  have "f_of_int (2 ^ 30) = Fin (of_int (2 ^ 30))" unfolding f_of_int_def by (rule f64_small) simp
  then have "0 \<le> b" "b \<le> of_int (2 ^ 30)" using g(1,2) by (auto simp: b fgt_def)
  moreover have "rnd64 (of_int (2 ^ 30 * 2 ^ 30)) = of_int (2 ^ 30 * 2 ^ 30)"
  proof -
    have "rnd_pos (of_int 1 * 2 powi 60) = of_int 1 * 2 powi 60"
      by (rule rnd_pos_exact) (simp add: ulp_exp_def ilog2_unique [of 60])
    then show ?thesis by (simp add: rnd64_def)
  qed
  ultimately have "0 \<le> dur \<and> dur \<le> 744 * 3600000000000 \<and> 0 \<le> extra \<and> extra \<le> 2 ^ 30 * 2 ^ 30"
    using int64_of_product [of b "2 ^ 30" "2 ^ 30"] by (simp add: terms(2) b)
  then show ?thesis by (simp add: MaxLedgerValue_def)
qed

text \<open>A negative limit of the event list is no limit: the portal's cap of five hundred does not hold it.\<close>

lemma negative_limit_uncapped:
  "handleEvents True ''-1'' st = (200, rev (sort_key ev_ID (st_events st)))"
proof -
  have "Atoi ''-1'' = Some (- 1)" by code_simp
  then show ?thesis by (simp add: handleEvents_def intParam_def Events_def Let_def)
qed

lemma country_lines_whole:
  "country_lines out raws = Inr nets \<Longrightarrow>
    \<exists>new. nets = out @ new \<and> (\<forall>l \<in> set new. TrimSpace l = l \<and> l \<noteq> '''' \<and> (\<exists>n. parseIPv4Network l = Inr n))"
proof (induction raws arbitrary: out)
  case (Cons raw raws)
  show ?case
  proof (cases "TrimSpace raw = ''''")
    case False
    then obtain n where n: "parseIPv4Network (TrimSpace raw) = Inr n" and rec: "country_lines (out @ [TrimSpace raw]) raws = Inr nets"
      using Cons.prems by (auto simp: Let_def split: sum.splits)
    from Cons.IH [OF rec] n False TrimSpace_idem show ?thesis by fastforce
  qed (use Cons in \<open>simp add: Let_def\<close>)
qed simp

lemma fetchCountry_whole:
  "fetchCountry resp = Inr nets \<Longrightarrow> nets \<noteq> [] \<and>
    (\<forall>l \<in> set nets. TrimSpace l = l \<and> l \<noteq> '''' \<and> (\<exists>n. parseIPv4Network l = Inr n))"
  using country_lines_whole [of "[]"]
  by (fastforce simp: fetchCountry_def Let_def split: option.splits prod.splits if_splits sum.splits)

lemma fetch_all_whole:
  "fetch_all site codes = Some ls \<Longrightarrow> length ls = length codes \<and>
    (\<forall>l \<in> set (concat ls). TrimSpace l = l \<and> l \<noteq> '''' \<and> (\<exists>n. parseIPv4Network l = Inr n))"
proof (induction codes arbitrary: ls)
  case (Cons cc ccs)
  then obtain l ls' where "fetchCountry (site cc) = Inr l" "fetch_all site ccs = Some ls'" "ls = l # ls'"
    by (auto split: sum.splits option.splits)
  with Cons.IH fetchCountry_whole show ?case by fastforce
qed simp

lemma fetch_all_nonempty: "fetch_all site codes = Some ls \<Longrightarrow> l \<in> set ls \<Longrightarrow> l \<noteq> []"
proof (induction codes arbitrary: ls)
  case (Cons cc ccs)
  then obtain l' ls' where "fetchCountry (site cc) = Inr l'" "fetch_all site ccs = Some ls'" "ls = l' # ls'"
    by (auto split: sum.splits option.splits)
  with Cons fetchCountry_whole show ?case by fastforce
qed simp

lemma network_has_slash: "parseIPv4Network l = Inr n \<Longrightarrow> CHR ''/'' \<in> set l"
proof -
  assume "parseIPv4Network l = Inr n"
  then have "dropWhile (\<lambda>ch. ch \<noteq> CHR ''/'') l \<noteq> []"
    by (auto simp: parseIPv4Network_def ParseCIDR4_def Let_def split: option.splits if_splits)
  then show ?thesis by (auto simp: dropWhile_eq_Nil_conv)
qed

text \<open>What a region fetch fills the form with, a save takes. When the fetch answers with lists, every code asked for gave a
  list with at least one network, the networks come in the order of the codes, and the check of a region reads all of
  them back without refusing one or dropping one.\<close>

theorem fetched_lists_save:
  "case handleGeoFetch site (Some countries) of (status, cidrs, counts) \<Rightarrow>
     if status = 200
     then sum_list (map snd counts) = length cidrs \<and> counts \<noteq> [] \<and>
       cleanCountryCodes [] countries = Inr (map fst counts) \<and> list_all (\<lambda>(_, n). 0 < n) counts \<and>
       (\<exists>out. cleanNetworkList cidrs = Inr out \<and> length out = length cidrs)
     else cidrs = []"
proof -
  have clean: "\<exists>out. cleanNetworkList cs = Inr out \<and> length out = length cs"
    if "\<forall>l \<in> set cs. TrimSpace l = l \<and> l \<noteq> '''' \<and> (\<exists>n. parseIPv4Network l = Inr n)" for cs
    using that
  proof (induction cs)
    case (Cons c cs)
    then obtain out n where "cleanNetworkList cs = Inr out" "length out = length cs" "parseIPv4Network c = Inr n"
      "TrimSpace c = c" "c \<noteq> ''''" by auto
    then show ?case using network_has_slash by (simp add: Let_def)
  qed simp
  show ?thesis
  proof (cases "fst (handleGeoFetch site (Some countries)) = 200")
    case False
    then show ?thesis by (auto simp: handleGeoFetch_def Let_def split: if_splits sum.splits option.splits)
  next
    case True
    then obtain codes ls where c: "cleanCountryCodes [] countries = Inr codes" "codes \<noteq> []" "fetch_all site codes = Some ls"
      and r: "handleGeoFetch site (Some countries) = (200, concat ls, map2 (\<lambda>cc l. (cc, length l)) codes ls)"
      by (auto simp: handleGeoFetch_def Let_def split: if_splits sum.splits option.splits)
    note w = fetch_all_whole [OF c(3)]
    have len: "length ls = length codes" using w by simp
    have "map fst (map2 (\<lambda>cc l. (cc, length l)) codes ls) = codes"
      by (rule nth_equalityI) (simp_all add: len)
    moreover have "map snd (map2 (\<lambda>cc l. (cc, length l)) codes ls) = map length ls"
      by (rule nth_equalityI) (simp_all add: len)
    moreover have "list_all (\<lambda>(_, n). 0 < n) (map2 (\<lambda>cc l. (cc, length l)) codes ls)"
      using fetch_all_nonempty [OF c(3)] by (auto simp: list_all_iff set_zip)
    moreover have "map2 (\<lambda>cc l. (cc, length l)) codes ls \<noteq> []" using c(2) len by (cases codes; cases ls) simp_all
    moreover have "\<exists>out. cleanNetworkList (concat ls) = Inr out \<and> length out = length (concat ls)"
      using clean w by blast
    ultimately show ?thesis by (simp add: r c(1) length_concat)
  qed
qed

section \<open>Witnesses\<close>

text \<open>Six requests of one address, the last two let in at once, and a login of another address in between.\<close>

definition demo_logins :: "login_op list" where
  "demo_logins = concat (map (\<lambda>t. [LgBegin ''h'' t, LgBody ''h'' t True, LgDone ''h'' False]) [1, 2, 3]) @
     [LgBegin ''h'' 4, LgBegin ''h'' 4, LgBegin ''g'' 4, LgBody ''g'' 5 True, LgBody ''h'' 5 True, LgDone ''g'' True,
      LgBody ''h'' 6 True, LgDone ''h'' False, LgDone ''h'' False]"

theorem guesses_spaced_witness:
  "fst (login_begin ''h'' 30000000005 (foldl login_step no_logins demo_logins)) = Some 429 \<and>
   fst (login_begin ''h'' 30000000006 (foldl login_step no_logins demo_logins)) = None"
proof -
  obtain s ts where st: "foldl (counted ''h'') (no_logins, []) demo_logins = (s, ts)" by fastforce
  have "snd (foldl (counted ''h'') (no_logins, []) demo_logins) = [1, 2, 3, 5, 6]" by code_simp
  then have ts: "ts = [1, 2, 3, 5, 6]" using st by simp
  have "list_all (from_hosts [''h'', ''g'']) demo_logins" by (simp add: demo_logins_def)
  note run = guesses_spaced [OF this _ st]
  show ?thesis using run [of 30000000005] run [of 30000000006] by (auto simp: ts)
qed

definition demo_env :: store_env where
  "demo_env = \<lparr>se_now = 0, se_reads = True, se_salt = Some [1], se_create = Applied, se_drop = Applied, se_token = Some [2],
     se_issue = Applied\<rparr>"

text \<open>An account, two of its sessions and one of another account.\<close>

definition demo_store :: Store where
  "demo_store = snd (CreateUser (Some [7]) Applied ''erin'' ''the old one''
     (empty_store\<lparr>st_sessions := [''s'' \<mapsto> (''erin'', 5), ''t'' \<mapsto> (''erin'', 9), ''u'' \<mapsto> (''admin'', 9)]\<rparr>))"

definition demo_change :: passwordRequest where
  "demo_change = \<lparr>pr_Username = ''admin'', pr_Current = ''the old one'', pr_New = ''a new password''\<rparr>"

lemma demo_change_done:
  "handlePassword False demo_env (Some ''s'') (Some demo_change) demo_store =
    (200, fst (snd (handlePassword False demo_env (Some ''s'') (Some demo_change) demo_store)),
     snd (snd (handlePassword False demo_env (Some ''s'') (Some demo_change) demo_store)))"
proof -
  have long: "\<not> byte_len ''a new password'' < minPasswordLen" by code_simp
  have now: "to_unix 0 \<le> (5::int)" by code_simp
  obtain st0 where st0: "CreateUser (Some [7]) Applied ''erin'' ''the old one''
      (empty_store\<lparr>st_sessions := [''s'' \<mapsto> (''erin'', 5), ''t'' \<mapsto> (''erin'', 9), ''u'' \<mapsto> (''admin'', 9)]\<rparr>) = (True, st0)"
    by (simp add: CreateUser_def)
  have check: "fst (CheckPassword True demo_store ''erin'' ''the old one'')"
    using CheckPassword_spec [OF st0, of "''erin''" "''the old one''" True] unfolding demo_store_def st0 by simp
  have sess: "sessionUser demo_env (Some ''s'') demo_store = (Some ''erin'', demo_store)"
    using now by (simp add: sessionUser_def Session_of_def demo_env_def demo_store_def CreateUser_def)
  have env: "se_reads demo_env" "se_salt demo_env = Some [1]" "se_create demo_env = Applied" by (simp_all add: demo_env_def)
  show ?thesis
    using check by (simp add: handlePassword_def demo_change_def long sess change_password_def CreateUser_def Let_def
        env split: prod.split)
qed

theorem password_change_takes_over_witness:
  "let st' = snd (snd (handlePassword False demo_env (Some ''s'') (Some demo_change) demo_store))
   in fst (CheckPassword True st' ''erin'' ''a new password'') \<and> st_sessions st' ''s'' \<noteq> Some (''erin'', 5) \<and>
      st_sessions st' ''t'' \<noteq> Some (''erin'', 9) \<and> st_sessions st' ''u'' = Some (''admin'', 9)"
proof -
  have sess: "st_sessions demo_store ''s'' = Some (''erin'', 5)" "st_sessions demo_store ''u'' = Some (''admin'', 9)"
    by (simp_all add: demo_store_def CreateUser_def)
  then have user: "''erin'' = changed_account False (Some ''s'') demo_change demo_store"
    by (simp add: changed_account_def)
  have token: "hexEncode [2] \<noteq> ''s''" "hexEncode [2] \<noteq> ''t''" by code_simp+
  have drop: "se_drop demo_env = Applied" "se_token demo_env = Some [2]" by (simp_all add: demo_env_def)
  show ?thesis
    using password_change_takes_over [OF demo_change_done user] sess(2) token drop
    by (auto simp: Let_def demo_change_def)
qed





theorem approval_bounded_witness:
  "approve_terms \<lparr>ar_PathID = 1, ar_Hours = NInf, ar_ExtraGB = Fin (3 / 2)\<rparr> = Some (86400000000000, 1610612736) \<and>
   (1610612736 :: int) \<le> MaxLedgerValue"
proof -
  have h: "f64 86400000000000 = Fin 86400000000000" using f64_small [of 86400000000000] by simp
  have e: "f64 1610612736 = Fin 1610612736" using f64_small [of 1610612736] by simp
  have c: "f_of_int (MaxLedgerValue div 2 ^ 30) = Fin 1073741824"
    using f64_small [of 1073741824] by (simp add: f_of_int_def MaxLedgerValue_def)
  have a: "approve_terms \<lparr>ar_PathID = 1, ar_Hours = NInf, ar_ExtraGB = Fin (3 / 2)\<rparr> = Some (86400000000000, 1610612736)"
    unfolding approve_terms_def Let_def c by (simp add: h e fgt_def int64_of_def rat_trunc_def go_arith)
  from approval_bounded [OF a] a show ?thesis by simp
qed

end
