(* ===== verification/Routes.thy ===== *)
theory Routes
  imports Host
begin

text \<open>
  Policy routing (\<open>sysx/route.go\<close>): reading rule and route listings, and the operations that install, repair and
  withdraw the rules and routes of the frontend and the backend. An operation is an action over any runner; its
  result is the error it returns, as its text.
\<close>

section \<open>Constants\<close>

definition ProbeRulePrefBase :: int where "ProbeRulePrefBase = 30000"
definition ProbeDenyRulePrefBase :: int where "ProbeDenyRulePrefBase = 31000"
definition ReturnRulePrefBase :: int where "ReturnRulePrefBase = 32500"
definition EgressRulePref :: int where "EgressRulePref = ProbeRulePrefBase + 100"
definition EgressDenyRulePref :: int where "EgressDenyRulePref = ProbeDenyRulePrefBase + ProbeDenyBandSize"
definition ControlRulePref :: int where "ControlRulePref = ProbeRulePrefBase - 1"
definition ReturnMarkRulePref :: int where "ReturnMarkRulePref = ProbeRulePrefBase - 2"
definition OverlayLocalRulePref :: int where "OverlayLocalRulePref = ReturnRulePrefBase - 1"
definition FrontendLocalRulePref :: int where "FrontendLocalRulePref = OverlayLocalRulePref - 1"

definition probeRulePref :: "PathConfig \<Rightarrow> int" where "probeRulePref p = ProbeRulePrefBase + p_ID p"
definition probeDenyRulePref :: "PathConfig \<Rightarrow> int" where "probeDenyRulePref p = ProbeDenyRulePrefBase + p_ID p"

definition inProbeDenyBand :: "int \<Rightarrow> bool" where
  "inProbeDenyBand pref \<longleftrightarrow> pref > ProbeDenyRulePrefBase \<and> pref < ProbeDenyRulePrefBase + ProbeDenyBandSize"

definition mark_text :: "int \<Rightarrow> string" where "mark_text m = ''0x'' @ hex_text m"

section \<open>Listings\<close>

text \<open>The numbered lines of a rule listing: the priority and the words behind it. Every reader below skips the rest.\<close>

definition rule_line :: "string \<Rightarrow> (int \<times> string list) option" where
  "rule_line line =
     (case Cut (TrimSpace line) (CHR '':'') of None \<Rightarrow> None
      | Some (pref, rest) \<Rightarrow> (case Atoi pref of None \<Rightarrow> None | Some n \<Rightarrow> Some (n, Fields rest)))"

definition rule_lines :: "string \<Rightarrow> (int \<times> string list) list" where
  "rule_lines listing = List.map_filter rule_line (split_on (CHR 10) listing)"

text \<open>A word followed by a value, and the last such value.\<close>

definition has_word :: "string \<Rightarrow> string \<Rightarrow> string list \<Rightarrow> bool" where
  "has_word key value fs \<longleftrightarrow> (key, value) \<in> set (pairs fs)"

definition word_of :: "string \<Rightarrow> string list \<Rightarrow> string" where
  "word_of key fs = foldl (\<lambda>v (k, x). if k = key then x else v) '''' (pairs fs)"

definition markRulePrefs :: "string \<Rightarrow> string \<Rightarrow> string \<Rightarrow> int list" where
  "markRulePrefs rules mark table =
     map fst (filter (\<lambda>(n, fs). has_word ''fwmark'' mark fs \<and> list_ex (\<lambda>(k, _). k = ''lookup'') (pairs fs) \<and>
       (has_word ''lookup'' table fs \<or> table = '''')) (rule_lines rules))"

definition sourceRulePrefs :: "string \<Rightarrow> string \<Rightarrow> string \<Rightarrow> int list" where
  "sourceRulePrefs rules source table =
     map fst (filter (\<lambda>(n, fs). has_word ''from'' source fs \<and> (has_word ''lookup'' table fs \<or> table = ''''))
       (rule_lines rules))"

definition unreachableRules :: "string \<Rightarrow> (int \<times> string) list" where
  "unreachableRules rules =
     List.map_filter (\<lambda>(n, fs). let mark = word_of ''fwmark'' fs
        in if mark \<noteq> '''' \<and> ''unreachable'' \<in> set fs then Some (n, mark) else None) (rule_lines rules)"

definition denyRulesInBand :: "string \<Rightarrow> (int \<times> string) list" where
  "denyRulesInBand rules = filter (\<lambda>(pref, _). inProbeDenyBand pref) (unreachableRules rules)"

definition denyRulePrefs :: "string \<Rightarrow> string \<Rightarrow> int list" where
  "denyRulePrefs rules mark = map fst (filter (\<lambda>(_, m). m = mark) (denyRulesInBand rules))"

text \<open>The value of the first \<open>dev\<close> of a route.\<close>

definition first_value :: "string \<Rightarrow> string \<Rightarrow> string" where
  "first_value key out = (case find (\<lambda>(k, _). k = key) (pairs (Fields out)) of None \<Rightarrow> '''' | Some (_, v) \<Rightarrow> v)"

definition devFrom :: "string \<Rightarrow> string" where "devFrom out = first_value ''dev'' out"

definition listRulesInTable :: "'k runner \<Rightarrow> int \<Rightarrow> ('k, string + string) state" where
  "listRulesInTable r table = do {
     out \<leftarrow> r [''ip'', ''rule'', ''show'', ''table'', Itoa table];
     State_Monad.return (case out of Inl e \<Rightarrow> Inl (''list ip rules for table '' @ Itoa table @ '': '' @ e) | Inr s \<Rightarrow> Inr s) }"

definition listRules :: "'k runner \<Rightarrow> ('k, string + string) state" where
  "listRules r = do {
     out \<leftarrow> r [''ip'', ''rule'', ''show''];
     State_Monad.return (case out of Inl e \<Rightarrow> Inl (''list ip rules: '' @ e) | Inr s \<Rightarrow> Inr s) }"

definition tableDoesNotExist :: "string \<Rightarrow> bool" where
  "tableDoesNotExist err = sublist ''FIB table does not exist'' err"

definition showRoutes :: "'k runner \<Rightarrow> string list \<Rightarrow> ('k, string + string) state" where
  "showRoutes r args = do {
     out \<leftarrow> r ([''ip'', ''route'', ''show''] @ args);
     State_Monad.return (case out of Inl e \<Rightarrow> if tableDoesNotExist e then Inr '''' else Inl e | Inr s \<Rightarrow> Inr s) }"

definition RouteVia :: "'k runner \<Rightarrow> string \<Rightarrow> int \<Rightarrow> ('k, string + string) state" where
  "RouteVia r dst table = do {
     out \<leftarrow> showRoutes r (dst # (if table > 0 then [''table'', Itoa table] else []));
     State_Monad.return (map_sum id devFrom out) }"

definition ActiveIface :: "'k runner \<Rightarrow> string \<Rightarrow> ('k, string + string) state" where
  "ActiveIface r backendIP = RouteVia r backendIP 0"

definition DefaultVia :: "'k runner \<Rightarrow> int \<Rightarrow> ('k, string + string) state" where
  "DefaultVia r table = do {
     out \<leftarrow> showRoutes r [''default'', ''table'', Itoa table];
     State_Monad.return (map_sum id devFrom out) }"

section \<open>Pinned rules\<close>

definition rule_cmd :: "string \<Rightarrow> string \<Rightarrow> string list \<Rightarrow> string \<Rightarrow> int \<Rightarrow> command" where
  "rule_cmd key value action verb pref = [''ip'', ''rule'', verb, key, value] @ action @ [''pref'', Itoa pref]"

text \<open>The move every rule makes: the pinned one goes in first where it is missing, then the copies at other priorities
  come out.\<close>

definition pin_rule :: "'k runner \<Rightarrow> (string \<Rightarrow> int \<Rightarrow> command) \<Rightarrow> int \<Rightarrow> int list \<Rightarrow> ('k, string + unit) state" where
  "pin_rule r rule want found = do {
     added \<leftarrow> (if want \<in> set found then State_Monad.return (Inr '''') else r (rule ''add'' want));
     case added of Inl e \<Rightarrow> State_Monad.return (Inl e)
     | Inr _ \<Rightarrow> do { _ \<leftarrow> run_all r (map (rule ''del'') (filter (\<lambda>pref. pref \<noteq> want) found)); State_Monad.return (Inr ()) } }"

definition ensureUnreachableRule :: "'k runner \<Rightarrow> string \<Rightarrow> int \<Rightarrow> string \<Rightarrow> ('k, string + unit) state" where
  "ensureUnreachableRule r mark pref all =
     (if (pref, mark) \<in> set (unreachableRules all) then State_Monad.return (Inr ())
      else run_one r (rule_cmd ''fwmark'' mark [''unreachable''] ''add'' pref))"

definition removeUnreachableRule :: "'k runner \<Rightarrow> string \<Rightarrow> int \<Rightarrow> ('k, unit) state" where
  "removeUnreachableRule r mark pref = run_all r [rule_cmd ''fwmark'' mark [''unreachable''] ''del'' pref]"

section \<open>The overlay address\<close>

text \<open>A command that may find its work already done.\<close>

definition run_made :: "'k runner \<Rightarrow> string \<Rightarrow> command \<Rightarrow> ('k, string + unit) state" where
  "run_made r what cmd = do {
     out \<leftarrow> r cmd;
     State_Monad.return (case out of Inl e \<Rightarrow> if sublist ''File exists'' e then Inr () else Inl (what @ '': '' @ e) | Inr _ \<Rightarrow> Inr ()) }"

definition EnsureOverlayAddress :: "'k runner \<Rightarrow> string \<Rightarrow> string \<Rightarrow> ('k, string + unit) state" where
  "EnsureOverlayAddress r ip dev =
     (if ip = '''' then State_Monad.return (Inl ''no overlay address configured'')
      else let dev = (if dev = '''' then ''dummy0'' else dev) in do {
        out \<leftarrow> r [''ip'', ''-o'', ''addr'', ''show''];
        case out of Inl e \<Rightarrow> State_Monad.return (Inl (''list addresses: '' @ e))
        | Inr s \<Rightarrow> if sublist ('' '' @ ip @ ''/32 '') s then State_Monad.return (Inr ())
          else do {
            link \<leftarrow> run_made r (''create '' @ dev) [''ip'', ''link'', ''add'', dev, ''type'', ''dummy''];
            case link of Inl e \<Rightarrow> State_Monad.return (Inl e)
            | Inr _ \<Rightarrow> do {
                addr \<leftarrow> run_made r (''add '' @ ip @ '' to '' @ dev) [''ip'', ''addr'', ''add'', ip @ ''/32'', ''dev'', dev];
                case addr of Inl e \<Rightarrow> State_Monad.return (Inl e)
                | Inr _ \<Rightarrow> do {
                    up \<leftarrow> r [''ip'', ''link'', ''set'', dev, ''up''];
                    State_Monad.return (case up of Inl e \<Rightarrow> Inl (''bring '' @ dev @ '' up: '' @ e) | Inr _ \<Rightarrow> Inr ()) } } } })"

section \<open>Probe tables\<close>

datatype rule_error = RuleAddError string | ProbeError string

text \<open>What went wrong, as the code prints it.\<close>

fun rule_error_text :: "rule_error \<Rightarrow> string" where
  "rule_error_text (RuleAddError e) = e"
| "rule_error_text (ProbeError e) = e"

definition ensureProbeRouteOnly :: "'k runner \<Rightarrow> PathConfig \<Rightarrow> string \<Rightarrow> string \<Rightarrow> ('k, string + unit) state" where
  "ensureProbeRouteOnly r p dst src =
     run_one r [''ip'', ''route'', ''replace'', dst @ ''/32'', ''dev'', p_Iface p, ''src'', src, ''table'', Itoa (p_Table p)]"

definition ensureProbeRules :: "'k runner \<Rightarrow> PathConfig \<Rightarrow> string \<Rightarrow> ('k, rule_error + unit) state" where
  "ensureProbeRules r p all = (let mark = mark_text (p_Mark p) in do {
     listed \<leftarrow> listRulesInTable r (p_Table p);
     case listed of Inl e \<Rightarrow> State_Monad.return (Inl (ProbeError e))
     | Inr existing \<Rightarrow> do {
         res \<leftarrow> pin_rule r (rule_cmd ''fwmark'' mark [''lookup'', Itoa (p_Table p)]) (probeRulePref p) (markRulePrefs existing mark '''');
         case res of Inl e \<Rightarrow> State_Monad.return (Inl (RuleAddError (''add rule for '' @ p_Name p @ '': '' @ e)))
         | Inr _ \<Rightarrow> do {
             res \<leftarrow> pin_rule r (rule_cmd ''fwmark'' mark [''unreachable'']) (probeDenyRulePref p) (denyRulePrefs all mark);
             State_Monad.return (case res of Inl e \<Rightarrow> Inl (RuleAddError (''add unreachable rule for '' @ p_Name p @ '': '' @ e))
                                 | Inr _ \<Rightarrow> Inr ()) } } })"

text \<open>The loop over the paths: a rule that cannot be added ends it, anything else is that path's problem. \<open>up\<close> says which
  interfaces exist.\<close>

fun probe_paths :: "'k runner \<Rightarrow> (string \<Rightarrow> bool) \<Rightarrow> string \<Rightarrow> string \<Rightarrow> string \<Rightarrow> PathConfig list \<Rightarrow>
    ('k, string + string list) state" where
  "probe_paths r up dst src all [] = State_Monad.return (Inr [])"
| "probe_paths r up dst src all (p # ps) = do {
     res \<leftarrow> ensureProbeRules r p all;
     case res of
       Inl (RuleAddError e) \<Rightarrow> State_Monad.return (Inl e)
     | Inl (ProbeError e) \<Rightarrow> do {
         rest \<leftarrow> probe_paths r up dst src all ps;
         State_Monad.return (map_sum id ((#) (p_Name p @ '': '' @ e)) rest) }
     | Inr _ \<Rightarrow>
         if \<not> up (p_Iface p) then do {
           rest \<leftarrow> probe_paths r up dst src all ps;
           State_Monad.return (map_sum id ((#) (p_Name p @ '': interface '' @ p_Iface p @ '' does not exist'')) rest) }
         else do {
           res \<leftarrow> ensureProbeRouteOnly r p dst src;
           rest \<leftarrow> probe_paths r up dst src all ps;
           State_Monad.return (map_sum id ((@) (case res of Inl e \<Rightarrow> [p_Name p @ '': '' @ e] | Inr _ \<Rightarrow> [])) rest) } }"

text \<open>Refusals in the band for marks no path carries.\<close>

definition orphan_denies :: "PathConfig list \<Rightarrow> string \<Rightarrow> command list" where
  "orphan_denies paths all =
     map (\<lambda>(pref, mark). rule_cmd ''fwmark'' mark [''unreachable''] ''del'' pref)
       (filter (\<lambda>(pref, mark). mark \<notin> set (map (\<lambda>p. mark_text (p_Mark p)) paths)) (denyRulesInBand all))"

definition EnsureProbeRoutes ::
    "'k runner \<Rightarrow> (string \<Rightarrow> bool) \<Rightarrow> PathConfig list \<Rightarrow> string \<Rightarrow> string \<Rightarrow> ('k, string + unit) state" where
  "EnsureProbeRoutes r up paths dst src = do {
     listed \<leftarrow> listRules r;
     case listed of Inl e \<Rightarrow> State_Monad.return (Inl e)
     | Inr all \<Rightarrow> do {
         res \<leftarrow> probe_paths r up dst src all paths;
         case res of Inl e \<Rightarrow> State_Monad.return (Inl e)
         | Inr problems \<Rightarrow> do {
             _ \<leftarrow> run_all r (orphan_denies paths all);
             State_Monad.return
               (if length problems > 0 then Inl (''some paths cannot be probed: '' @ join_with ''; '' problems) else Inr ()) } } }"

definition EnsureProbeRoute :: "'k runner \<Rightarrow> PathConfig \<Rightarrow> string \<Rightarrow> string \<Rightarrow> ('k, string + unit) state" where
  "EnsureProbeRoute r p dst src = do {
     listed \<leftarrow> listRules r;
     case listed of Inl e \<Rightarrow> State_Monad.return (Inl e)
     | Inr all \<Rightarrow> do {
         res \<leftarrow> ensureProbeRules r p all;
         case res of Inl e \<Rightarrow> State_Monad.return (Inl (rule_error_text e)) | Inr _ \<Rightarrow> ensureProbeRouteOnly r p dst src } }"

definition RemoveProbeRoutes :: "'k runner \<Rightarrow> PathConfig list \<Rightarrow> string \<Rightarrow> string \<Rightarrow> ('k, unit) state" where
  "RemoveProbeRoutes r paths probeDst dataPrefix = do {
     listed \<leftarrow> listRules r;
     _ \<leftarrow> for_each (\<lambda>p. do {
       mine \<leftarrow> listRulesInTable r (p_Table p);
       let mark = mark_text (p_Mark p);
       let existing = (case mine of Inl _ \<Rightarrow> '''' | Inr s \<Rightarrow> s);
       run_all r (map (rule_cmd ''fwmark'' mark [''lookup'', Itoa (p_Table p)] ''del'') (markRulePrefs existing mark '''') @
         [[''ip'', ''route'', ''del'', probeDst, ''table'', Itoa (p_Table p)]]) }) paths;
     let all = (case listed of Inl _ \<Rightarrow> '''' | Inr s \<Rightarrow> s);
     run_all r (map (\<lambda>(pref, mark). rule_cmd ''fwmark'' mark [''unreachable''] ''del'' pref) (denyRulesInBand all) @
       [[''ip'', ''route'', ''del'', dataPrefix]]) }"

section \<open>The main route\<close>

definition SetActivePath :: "'k runner \<Rightarrow> string \<Rightarrow> string \<Rightarrow> string \<Rightarrow> ('k, string + unit) state" where
  "SetActivePath r dst src iface = run_one r [''ip'', ''route'', ''replace'', dst, ''dev'', iface, ''src'', src]"

definition DeleteRoute :: "'k runner \<Rightarrow> string \<Rightarrow> ('k, string + unit) state" where
  "DeleteRoute r dst = run_one r [''ip'', ''route'', ''del'', dst]"

section \<open>Return routing on the backend\<close>

text \<open>The sources in turn, repeats and empty ones skipped, each with a priority of its own.\<close>

fun return_rules :: "'k runner \<Rightarrow> string \<Rightarrow> string list \<Rightarrow> int \<Rightarrow> string list \<Rightarrow> ('k, string + unit) state" where
  "return_rules r existing seen idx [] = State_Monad.return (Inr ())"
| "return_rules r existing seen idx (src # sources) =
     (if src = '''' \<or> src \<in> set seen then return_rules r existing seen idx sources
      else do {
        res \<leftarrow> pin_rule r (rule_cmd ''from'' src [''lookup'', Itoa ReturnTable]) (ReturnRulePrefBase + idx) (sourceRulePrefs existing src '''');
        case res of Inl e \<Rightarrow> State_Monad.return (Inl e)
        | Inr _ \<Rightarrow> return_rules r existing (src # seen) (idx + 1) sources })"

definition EnsureReturnRule :: "'k runner \<Rightarrow> string list \<Rightarrow> ('k, string + unit) state" where
  "EnsureReturnRule r sources = do {
     listed \<leftarrow> listRulesInTable r ReturnTable;
     case listed of Inl e \<Rightarrow> State_Monad.return (Inl e)
     | Inr existing \<Rightarrow> return_rules r existing [] 0 sources }"

definition EnsureEgressRule :: "'k runner \<Rightarrow> ('k, string + unit) state" where
  "EnsureEgressRule r = (let mark = mark_text EgressMark in do {
     listed \<leftarrow> listRulesInTable r ReturnTable;
     case listed of Inl e \<Rightarrow> State_Monad.return (Inl e)
     | Inr existing \<Rightarrow> do {
         res \<leftarrow> pin_rule r (rule_cmd ''fwmark'' mark [''lookup'', Itoa ReturnTable]) EgressRulePref (markRulePrefs existing mark '''');
         case res of Inl e \<Rightarrow> State_Monad.return (Inl e)
         | Inr _ \<Rightarrow> do {
             listed \<leftarrow> listRules r;
             case listed of Inl e \<Rightarrow> State_Monad.return (Inl e)
             | Inr all \<Rightarrow> ensureUnreachableRule r mark EgressDenyRulePref all } } })"

definition RemoveEgressRule :: "'k runner \<Rightarrow> ('k, unit) state" where
  "RemoveEgressRule r = (let mark = mark_text EgressMark in do {
     listed \<leftarrow> listRulesInTable r ReturnTable;
     case listed of Inl _ \<Rightarrow> State_Monad.return ()
     | Inr existing \<Rightarrow> do {
         _ \<leftarrow> run_all r (map (rule_cmd ''fwmark'' mark [''lookup'', Itoa ReturnTable] ''del'') (markRulePrefs existing mark ''''));
         removeUnreachableRule r mark EgressDenyRulePref } })"

definition EnsureReturnMarkRule :: "'k runner \<Rightarrow> ('k, string + unit) state" where
  "EnsureReturnMarkRule r = (let mark = mark_text ReturnMark in do {
     listed \<leftarrow> listRulesInTable r ReturnTable;
     case listed of Inl e \<Rightarrow> State_Monad.return (Inl e)
     | Inr existing \<Rightarrow>
         pin_rule r (rule_cmd ''fwmark'' mark [''lookup'', Itoa ReturnTable]) ReturnMarkRulePref (markRulePrefs existing mark '''') })"

definition SetReturnRoute :: "'k runner \<Rightarrow> string \<Rightarrow> ('k, string + unit) state" where
  "SetReturnRoute r iface = run_one r [''ip'', ''route'', ''replace'', ''default'', ''dev'', iface, ''table'', Itoa ReturnTable]"

definition RemoveReturnRoutes :: "'k runner \<Rightarrow> string list \<Rightarrow> ('k, unit) state" where
  "RemoveReturnRoutes r sources = do {
     listed \<leftarrow> listRulesInTable r ReturnTable;
     let existing = (case listed of Inl _ \<Rightarrow> '''' | Inr s \<Rightarrow> s);
     let table = Itoa ReturnTable;
     let mark = mark_text ReturnMark;
     let named = unique_from [] (filter (\<lambda>src. src \<noteq> '''') sources);
     run_all r
       (concat (map (\<lambda>src. map (rule_cmd ''from'' src [''lookup'', table] ''del'') (sourceRulePrefs existing src '''')) named) @
        map (rule_cmd ''fwmark'' mark [''lookup'', table] ''del'') (markRulePrefs existing mark '''') @
        [[''ip'', ''route'', ''del'', ''default'', ''table'', table]]) }"

section \<open>The control route of the frontend\<close>

definition EnsureControlRoute ::
    "'k runner \<Rightarrow> string \<Rightarrow> string \<Rightarrow> string \<Rightarrow> string \<Rightarrow> ('k, string + unit) state" where
  "EnsureControlRoute r routePrefix backendIP frontendIP iface =
     (let table = Itoa ControlTable; mark = mark_text ControlMark; host = backendIP @ ''/32'' in do {
        listed \<leftarrow> listRulesInTable r ControlTable;
        case listed of Inl e \<Rightarrow> State_Monad.return (Inl e)
        | Inr existing \<Rightarrow> do {
            res \<leftarrow> pin_rule r (rule_cmd ''fwmark'' mark [''lookup'', table]) ControlRulePref (markRulePrefs existing mark '''');
            case res of Inl e \<Rightarrow> State_Monad.return (Inl e)
            | Inr _ \<Rightarrow> do {
                _ \<leftarrow> run_all r (if sublist (''from '' @ frontendIP @ '' to '' @ backendIP) existing
                                then [[''ip'', ''rule'', ''del'', ''from'', frontendIP, ''to'', backendIP, ''lookup'', table]] else []);
                res \<leftarrow> r [''ip'', ''route'', ''replace'', routePrefix, ''dev'', iface, ''src'', frontendIP, ''table'', table];
                case res of Inl e \<Rightarrow> State_Monad.return (Inl e)
                | Inr _ \<Rightarrow>
                    if routePrefix = host then State_Monad.return (Inr ())
                    else do {
                      via \<leftarrow> RouteVia r host ControlTable;
                      _ \<leftarrow> run_all r (case via of Inl _ \<Rightarrow> []
                             | Inr dev \<Rightarrow> if dev \<noteq> '''' then [[''ip'', ''route'', ''del'', host, ''table'', table]] else []);
                      State_Monad.return (Inr ()) } } } })"

definition RemoveControlRoute :: "'k runner \<Rightarrow> string \<Rightarrow> string \<Rightarrow> string \<Rightarrow> ('k, unit) state" where
  "RemoveControlRoute r routePrefix backendIP frontendIP =
     (let table = Itoa ControlTable; mark = mark_text ControlMark; host = backendIP @ ''/32'' in do {
        listed \<leftarrow> listRulesInTable r ControlTable;
        run_all r
          ((case listed of
              Inr existing \<Rightarrow> map (rule_cmd ''fwmark'' mark [''lookup'', table] ''del'') (markRulePrefs existing mark '''')
            | Inl _ \<Rightarrow> [[''ip'', ''rule'', ''del'', ''fwmark'', mark, ''lookup'', table]]) @
           [[''ip'', ''rule'', ''del'', ''from'', frontendIP, ''to'', backendIP, ''lookup'', table],
            [''ip'', ''route'', ''del'', routePrefix, ''table'', table]] @
           (if routePrefix \<noteq> host then [[''ip'', ''route'', ''del'', host, ''table'', table]] else [])) })"

section \<open>Reverse-path filtering\<close>

definition rpFilterKey :: "string \<Rightarrow> string" where
  "rpFilterKey iface = ''net/ipv4/conf/'' @ iface @ ''/rp_filter''"

definition EnsureSysctls :: "'k runner \<Rightarrow> string list \<Rightarrow> ('k, unit) state" where
  "EnsureSysctls r ifaces =
     run_all r (map (\<lambda>(key, val). [''sysctl'', ''-w'', key @ ''='' @ val])
       ([(''net.ipv4.conf.all.rp_filter'', ''0'')] @ map (\<lambda>i. (rpFilterKey i, ''0'')) ifaces @ [(''net.ipv4.ip_forward'', ''1'')]))"

definition RPFilterOff :: "'k runner \<Rightarrow> string \<Rightarrow> ('k, string + bool) state" where
  "RPFilterOff r iface = do {
     out \<leftarrow> r [''sysctl'', ''-n'', rpFilterKey iface];
     case out of Inl e \<Rightarrow> State_Monad.return (Inl e)
     | Inr v \<Rightarrow> if TrimSpace v = ''0'' then State_Monad.return (Inr False)
       else do {
         res \<leftarrow> r [''sysctl'', ''-w'', rpFilterKey iface @ ''=0''];
         State_Monad.return (map_sum id (\<lambda>_. True) res) } }"

section \<open>Overlay traffic that stays in the main table\<close>

text \<open>A rule to or from an address at a priority of its own, in the main table.\<close>

definition local_rule_listed :: "string \<Rightarrow> string \<Rightarrow> int \<Rightarrow> string \<Rightarrow> bool" where
  "local_rule_listed key value pref listing \<longleftrightarrow>
     list_ex (\<lambda>line. has_word key value (Fields (TrimSpace line)) \<and> prefix (Itoa pref @ '':'') line) (split_on (CHR 10) listing)"

definition ensure_local_rule :: "'k runner \<Rightarrow> string \<Rightarrow> string \<Rightarrow> int \<Rightarrow> ('k, string + unit) state" where
  "ensure_local_rule r key value pref = do {
     listed \<leftarrow> listRules r;
     case listed of Inl e \<Rightarrow> State_Monad.return (Inl e)
     | Inr existing \<Rightarrow> if local_rule_listed key value pref existing then State_Monad.return (Inr ())
                       else run_one r (rule_cmd key value [''lookup'', ''main''] ''add'' pref) }"

definition EnsureOverlayLocalRule :: "'k runner \<Rightarrow> string \<Rightarrow> ('k, string + unit) state" where
  "EnsureOverlayLocalRule r subnet =
     (if subnet = '''' then State_Monad.return (Inr ()) else ensure_local_rule r ''to'' subnet OverlayLocalRulePref)"

definition RemoveOverlayLocalRule :: "'k runner \<Rightarrow> string \<Rightarrow> ('k, unit) state" where
  "RemoveOverlayLocalRule r subnet =
     run_all r (if subnet = '''' then [] else [rule_cmd ''to'' subnet [''lookup'', ''main''] ''del'' OverlayLocalRulePref])"

definition EnsureFrontendLocalRule :: "'k runner \<Rightarrow> string \<Rightarrow> string \<Rightarrow> ('k, string + unit) state" where
  "EnsureFrontendLocalRule r frontendIP subnet =
     (if subnet = '''' \<or> frontendIP = '''' then State_Monad.return (Inr ())
      else ensure_local_rule r ''from'' frontendIP FrontendLocalRulePref)"

definition RemoveFrontendLocalRule :: "'k runner \<Rightarrow> string \<Rightarrow> string \<Rightarrow> ('k, unit) state" where
  "RemoveFrontendLocalRule r frontendIP subnet =
     run_all r (if subnet = '''' \<or> frontendIP = '''' then []
                else [rule_cmd ''from'' frontendIP [''lookup'', ''main''] ''del'' FrontendLocalRulePref])"

end
