(* ===== verification/RoutesProps.thy ===== *)
theory RoutesProps
  imports Routes "HOL-Library.Multiset"
begin

text \<open>
  What policy routing comes to on a host whose \<open>ip rule\<close> does what its manual says: a rule has a priority, selectors
  and an action, a listing prints them in the documented form, an add installs a rule that is not there, a delete takes
  out one that matches. The host is any runner that does this; everything else about it is open.
\<close>

section \<open>Rules and their text\<close>

datatype kaction = KLookup int | KUnreachable | KOther "string list"

record krule =
  kr_pref :: int
  kr_sel :: "(string \<times> string) list"
  kr_action :: kaction

text \<open>\<open>nm\<close> names a table as \<open>/etc/iproute2/rt_tables\<close> has it.\<close>

fun action_words :: "(int \<Rightarrow> string) \<Rightarrow> kaction \<Rightarrow> string list" where
  "action_words nm (KLookup t) = [''lookup'', nm t]"
| "action_words nm KUnreachable = [''unreachable'']"
| "action_words nm (KOther ws) = ws"

fun sel_words :: "(string \<times> string) list \<Rightarrow> string list" where
  "sel_words [] = []"
| "sel_words ((a, b) # sel) = a # b # sel_words sel"

definition print_rule :: "(int \<Rightarrow> string) \<Rightarrow> krule \<Rightarrow> string list" where
  "print_rule nm q = sel_words (kr_sel q) @ action_words nm (kr_action q)"

definition rule_mark :: "krule \<Rightarrow> string" where
  "rule_mark q = (case map_of (kr_sel q) ''fwmark'' of None \<Rightarrow> '''' | Some m \<Rightarrow> m)"

text \<open>
  No value of a selector and no table is called like a keyword, no selector is given twice, a mark is a number with
  or without a mask, and a priority is a machine integer.
\<close>

definition plain_mark :: "string \<Rightarrow> bool" where
  "plain_mark m \<longleftrightarrow> m \<noteq> '''' \<and> list_all (\<lambda>c. c \<in> set ''0123456789abcdefx/-'') m"

definition rule_words :: "string list" where "rule_words = [''from'', ''fwmark'', ''lookup'', ''unreachable'']"

definition ordinary :: "(int \<Rightarrow> string) \<Rightarrow> krule \<Rightarrow> bool" where
  "ordinary nm q \<longleftrightarrow>
     (\<forall>(a, b) \<in> set (kr_sel q). a \<noteq> ''lookup'' \<and> a \<noteq> ''unreachable'' \<and> b \<notin> set rule_words) \<and>
     distinct (map fst (kr_sel q)) \<and> (\<forall>(a, b) \<in> set (kr_sel q). a = ''fwmark'' \<longrightarrow> plain_mark b) \<and> in_int64 (kr_pref q) \<and>
     (case kr_action q of KLookup t \<Rightarrow> nm t \<notin> set rule_words | KUnreachable \<Rightarrow> True | KOther ws \<Rightarrow> set ws \<inter> set rule_words = {})"

lemma pairs_simps [simp]:
  "pairs [] = []" "pairs [x] = []" "pairs (x # y # ws) = (x, y) # pairs (y # ws)"
  by (simp_all add: pairs_def)

lemma pairs_fst: "(a, b) \<in> set (pairs ws) \<Longrightarrow> a \<in> set ws"
  by (simp add: pairs_def set_zip_leftD)

abbreviation valued :: "string \<Rightarrow> (string \<times> string) list \<Rightarrow> (string \<times> string) list" where
  "valued key \<equiv> filter (\<lambda>(k, _). k = key)"

lemma valued_skip: "b \<noteq> key \<Longrightarrow> valued key (pairs (b # ws)) = valued key (pairs ws)"
  by (cases ws) simp_all

lemma valued_sel_words:
  assumes "key \<in> set rule_words" and "\<forall>(a, b) \<in> set sel. b \<notin> set rule_words"
  shows "valued key (pairs (sel_words sel @ rest)) = valued key sel @ valued key (pairs rest)"
  using assms(2)
proof (induction sel)
  case (Cons ab sel)
  obtain a b where ab: "ab = (a, b)" by fastforce
  then have "b \<noteq> key" using Cons.prems assms(1) by auto
  then show ?case using Cons ab by (simp add: valued_skip)
qed simp

lemma valued_foreign: "set ws \<inter> set rule_words = {} \<Longrightarrow> key \<in> set rule_words \<Longrightarrow> valued key (pairs ws) = []"
  by (auto simp: filter_empty_conv dest: pairs_fst)

lemma valued_action:
  assumes "ordinary nm q"
  shows "valued ''fwmark'' (pairs (action_words nm (kr_action q))) = []"
    and "valued ''from'' (pairs (action_words nm (kr_action q))) = []"
    and "valued ''lookup'' (pairs (action_words nm (kr_action q))) = (case kr_action q of KLookup t \<Rightarrow> [(''lookup'', nm t)] | _ \<Rightarrow> [])"
  using assms by (auto simp: ordinary_def rule_words_def split: kaction.splits intro: valued_foreign)

lemma valued_print:
  assumes "ordinary nm q"
  shows "valued ''fwmark'' (pairs (print_rule nm q)) = valued ''fwmark'' (kr_sel q)"
    and "valued ''from'' (pairs (print_rule nm q)) = valued ''from'' (kr_sel q)"
    and "valued ''lookup'' (pairs (print_rule nm q)) = (case kr_action q of KLookup t \<Rightarrow> [(''lookup'', nm t)] | _ \<Rightarrow> [])"
proof -
  have sel: "\<forall>(a, b) \<in> set (kr_sel q). b \<notin> set rule_words" using assms by (auto simp: ordinary_def)
  have "valued ''lookup'' (kr_sel q) = []" using assms by (auto simp: ordinary_def filter_empty_conv)
  then show "valued ''lookup'' (pairs (print_rule nm q)) = (case kr_action q of KLookup t \<Rightarrow> [(''lookup'', nm t)] | _ \<Rightarrow> [])"
    and "valued ''fwmark'' (pairs (print_rule nm q)) = valued ''fwmark'' (kr_sel q)"
    and "valued ''from'' (pairs (print_rule nm q)) = valued ''from'' (kr_sel q)"
    using valued_action [OF assms] valued_sel_words [OF _ sel] by (simp_all add: print_rule_def rule_words_def)
qed

lemma has_word_valued: "has_word key v ws \<longleftrightarrow> (key, v) \<in> set (valued key (pairs ws))"
  by (auto simp: has_word_def)

lemma word_of_valued: "word_of key ws = (case valued key (pairs ws) of [] \<Rightarrow> '''' | x # xs \<Rightarrow> snd (last (x # xs)))"
proof -
  have "foldl (\<lambda>v (k, x). if k = key then x else v) v ps = (case valued key ps of [] \<Rightarrow> v | x # xs \<Rightarrow> snd (last (x # xs)))" for ps v
  proof (induction ps rule: rev_induct)
    case (snoc p ps)
    then show ?case by (cases p) (simp split: list.splits)
  qed simp
  then show ?thesis by (simp add: word_of_def)
qed

lemma valued_map_of:
  assumes "distinct (map fst sel)"
  shows "valued key sel = (case map_of sel key of None \<Rightarrow> [] | Some v \<Rightarrow> [(key, v)])"
  using assms
proof (induction sel)
  case (Cons ab sel)
  have "map_of sel (fst ab) = None" using Cons.prems by (cases ab) (simp add: map_of_eq_None_iff)
  with Cons show ?case by (cases ab) (auto split: option.splits)
qed simp

text \<open>What the readers of listings see of an ordinary rule.\<close>

lemma reads_mark:
  assumes "ordinary nm q"
  shows "word_of ''fwmark'' (print_rule nm q) = rule_mark q"
    and "m \<noteq> '''' \<Longrightarrow> has_word ''fwmark'' m (print_rule nm q) \<longleftrightarrow> rule_mark q = m"
proof -
  have d: "distinct (map fst (kr_sel q))" "(''fwmark'', '''') \<notin> set (kr_sel q)" using assms by (auto simp: ordinary_def plain_mark_def)
  note v = valued_print(1) [OF assms] valued_map_of [OF d(1), of "''fwmark''"]
  show "word_of ''fwmark'' (print_rule nm q) = rule_mark q"
    unfolding word_of_valued v by (simp add: rule_mark_def split: option.splits)
  show "m \<noteq> '''' \<Longrightarrow> has_word ''fwmark'' m (print_rule nm q) \<longleftrightarrow> rule_mark q = m"
    unfolding has_word_valued v by (auto simp: rule_mark_def split: option.splits)
qed

lemma reads_lookup:
  assumes "ordinary nm q"
  shows "list_ex (\<lambda>(k, _). k = ''lookup'') (pairs (print_rule nm q)) \<longleftrightarrow> (\<exists>t. kr_action q = KLookup t)"
proof -
  have "list_ex (\<lambda>(k, _). k = ''lookup'') (pairs (print_rule nm q)) \<longleftrightarrow> valued ''lookup'' (pairs (print_rule nm q)) \<noteq> []"
    by (auto simp: list_ex_iff filter_empty_conv)
  then show ?thesis unfolding valued_print(3) [OF assms] by (cases "kr_action q") simp_all
qed

lemma set_sel_words: "set (sel_words sel) = fst ` set sel \<union> snd ` set sel"
  by (induction sel rule: sel_words.induct) auto

lemma reads_unreachable:
  assumes "ordinary nm q"
  shows "''unreachable'' \<in> set (print_rule nm q) \<longleftrightarrow> kr_action q = KUnreachable"
  using assms by (cases "kr_action q") (auto simp: print_rule_def set_sel_words ordinary_def rule_words_def)

section \<open>A host\<close>

definition rule_key :: "krule \<Rightarrow> string \<times> kaction \<times> int" where
  "rule_key q = (rule_mark q, kr_action q, kr_pref q)"

fun command_words :: "kaction \<Rightarrow> string list" where
  "command_words (KLookup t) = [''lookup'', Itoa t]"
| "command_words KUnreachable = [''unreachable'']"
| "command_words (KOther ws) = ws"

fun edit_rule :: "string \<Rightarrow> string \<times> kaction \<times> int \<Rightarrow> command" where
  "edit_rule verb (m, a, pref) = rule_cmd ''fwmark'' m (command_words a) verb pref"

fun editable :: "string \<times> kaction \<times> int \<Rightarrow> bool" where
  "editable (m, a, pref) =
     (plain_mark m \<and> in_int64 pref \<and> (case a of KLookup t \<Rightarrow> in_int64 t | KUnreachable \<Rightarrow> True | KOther _ \<Rightarrow> False))"

fun marked_rule :: "string \<times> kaction \<times> int \<Rightarrow> krule" where
  "marked_rule (m, a, pref) = \<lparr>kr_pref = pref, kr_sel = [(''from'', ''all''), (''fwmark'', m)], kr_action = a\<rparr>"

lemma rule_key_marked [simp]: "rule_key (marked_rule x) = x"
  by (cases x) (simp add: rule_key_def rule_mark_def)

definition shows_rules :: "(int \<Rightarrow> string) \<Rightarrow> string \<Rightarrow> krule list \<Rightarrow> bool" where
  "shows_rules nm out rs \<longleftrightarrow> rule_lines out = map (\<lambda>q. (kr_pref q, print_rule nm q)) rs"

text \<open>Listings, whole and by table; additions; deletions; and that no other command touches the rules.\<close>

definition lists_host :: "'k runner \<Rightarrow> (int \<Rightarrow> string) \<Rightarrow> ('k \<Rightarrow> krule list) \<Rightarrow> bool" where
  "lists_host r nm rules \<longleftrightarrow>
     (\<forall>k. \<exists>out. run_state (r [''ip'', ''rule'', ''show'']) k = (Inr out, k) \<and> shows_rules nm out (rules k)) \<and>
     (\<forall>k t. in_int64 t \<longrightarrow> (\<exists>out. run_state (r [''ip'', ''rule'', ''show'', ''table'', Itoa t]) k = (Inr out, k) \<and>
        shows_rules nm out (filter (\<lambda>q. kr_action q = KLookup t) (rules k))))"

definition edits_host :: "'k runner \<Rightarrow> ('k \<Rightarrow> krule list) \<Rightarrow> bool" where
  "edits_host r rules \<longleftrightarrow>
     (\<forall>k x. editable x \<and> x \<notin> rule_key ` set (rules k) \<longrightarrow> isl (fst (run_state (r (edit_rule ''add'' x)) k)) = False \<and>
        mset (rules (snd (run_state (r (edit_rule ''add'' x)) k))) = add_mset (marked_rule x) (mset (rules k))) \<and>
     (\<forall>k x. editable x \<longrightarrow>
        (if x \<in> rule_key ` set (rules k)
         then \<exists>q \<in> set (rules k). rule_key q = x \<and>
           mset (rules (snd (run_state (r (edit_rule ''del'' x)) k))) = mset (rules k) - {#q#}
         else mset (rules (snd (run_state (r (edit_rule ''del'' x)) k))) = mset (rules k)))"

definition rule_host :: "'k runner \<Rightarrow> (int \<Rightarrow> string) \<Rightarrow> ('k \<Rightarrow> krule list) \<Rightarrow> bool" where
  "rule_host r nm rules \<longleftrightarrow>
     lists_host r nm rules \<and> edits_host r rules \<and> (\<forall>k. \<forall>q \<in> set (rules k). ordinary nm q) \<and>
     (\<forall>cmd k. take 2 cmd \<noteq> [''ip'', ''rule''] \<longrightarrow> rules (snd (run_state (r cmd) k)) = rules k)"

text \<open>What a host keeps of the rules that a predicate on their keys picks.\<close>

definition picked :: "('k \<Rightarrow> krule list) \<Rightarrow> (string \<times> kaction \<times> int \<Rightarrow> bool) \<Rightarrow> 'k \<Rightarrow> krule multiset" where
  "picked rules F k = filter_mset (\<lambda>q. F (rule_key q)) (mset (rules k))"

definition same_picked :: "('k \<Rightarrow> krule list) \<Rightarrow> (string \<times> kaction \<times> int \<Rightarrow> bool) \<Rightarrow> 'k \<Rightarrow> 'k \<Rightarrow> bool" where
  "same_picked rules F k k' \<longleftrightarrow> picked rules F k' = picked rules F k"

definition keys_of :: "('k \<Rightarrow> krule list) \<Rightarrow> (string \<times> kaction \<times> int \<Rightarrow> bool) \<Rightarrow> 'k \<Rightarrow> (string \<times> kaction \<times> int) multiset" where
  "keys_of rules F k = image_mset rule_key (picked rules F k)"

lemma same_picked_order: "reflp (same_picked rules F)" "transp (same_picked rules F)"
  by (auto simp: same_picked_def reflp_def transp_def)

lemma same_keys: "same_picked rules F k k' \<Longrightarrow> keys_of rules F k' = keys_of rules F k"
  by (simp add: same_picked_def keys_of_def)

lemma host_other: "rule_host r nm rules \<Longrightarrow> take 2 cmd \<noteq> [''ip'', ''rule''] \<Longrightarrow> rules (snd (run_state (r cmd) k)) = rules k"
  by (simp add: rule_host_def)

lemma host_lists:
  assumes "rule_host r nm rules"
  obtains out where "run_state (listRules r) k = (Inr out, k)" and "shows_rules nm out (rules k)"
proof -
  obtain out where "run_state (r [''ip'', ''rule'', ''show'']) k = (Inr out, k)" "shows_rules nm out (rules k)"
    using assms unfolding rule_host_def lists_host_def by blast
  then show ?thesis using that by (simp add: listRules_def)
qed

lemma host_lists_table:
  assumes "rule_host r nm rules" and "in_int64 t"
  obtains out where "run_state (listRulesInTable r t) k = (Inr out, k)"
    and "shows_rules nm out (filter (\<lambda>q. kr_action q = KLookup t) (rules k))"
proof -
  obtain out where "run_state (r [''ip'', ''rule'', ''show'', ''table'', Itoa t]) k = (Inr out, k)"
    "shows_rules nm out (filter (\<lambda>q. kr_action q = KLookup t) (rules k))"
    using assms unfolding rule_host_def lists_host_def by blast
  then show ?thesis using that by (simp add: listRulesInTable_def)
qed

lemma host_adds:
  assumes "rule_host r nm rules" and "editable x" and "x \<notin> rule_key ` set (rules k)"
  obtains out k' where "run_state (r (edit_rule ''add'' x)) k = (Inr out, k')"
    and "mset (rules k') = add_mset (marked_rule x) (mset (rules k))"
proof -
  obtain res k' where res: "run_state (r (edit_rule ''add'' x)) k = (res, k')" by fastforce
  then have "isl res = False \<and> mset (rules k') = add_mset (marked_rule x) (mset (rules k))"
    using assms unfolding rule_host_def edits_host_def by (metis fst_conv snd_conv)
  then show ?thesis using that res by (cases res) auto
qed

lemma host_deletes:
  assumes "rule_host r nm rules" and "editable x"
  obtains (gone) "x \<notin> rule_key ` set (rules k)" and "mset (rules (snd (run_state (r (edit_rule ''del'' x)) k))) = mset (rules k)"
    | (one) q where "q \<in> set (rules k)" and "rule_key q = x"
      and "mset (rules (snd (run_state (r (edit_rule ''del'' x)) k))) = mset (rules k) - {#q#}"
proof -
  let ?k' = "snd (run_state (r (edit_rule ''del'' x)) k)"
  have "if x \<in> rule_key ` set (rules k)
      then \<exists>q \<in> set (rules k). rule_key q = x \<and> mset (rules ?k') = mset (rules k) - {#q#}
      else mset (rules ?k') = mset (rules k)"
    using assms unfolding rule_host_def edits_host_def by blast
  then show ?thesis using that by (auto split: if_splits)
qed

lemma delete_keeps:
  assumes "rule_host r nm rules" and "editable x" and "\<not> F x"
  shows "keeps (same_picked rules F) (r (edit_rule ''del'' x))"
proof -
  have "picked rules F (snd (run_state (r (edit_rule ''del'' x)) k)) = picked rules F k" for k
    by (rule host_deletes [OF assms(1,2), of k]) (auto simp: picked_def filter_diff_mset assms(3))
  then show ?thesis by (simp add: state_io_rel_def same_picked_def)
qed

lemma delete_key:
  assumes "rule_host r nm rules" and "editable x" and "x \<in># keys_of rules F k"
  shows "keys_of rules F (snd (run_state (r (edit_rule ''del'' x)) k)) = keys_of rules F k - {#x#}"
proof -
  obtain q0 where q0: "q0 \<in> set (rules k)" "rule_key q0 = x" "F x"
    using assms(3) by (auto simp: keys_of_def picked_def)
  show ?thesis
  proof (rule host_deletes [OF assms(1,2), of k])
    assume "x \<notin> rule_key ` set (rules k)"
    then show ?thesis using q0 by blast
  next
    fix q assume q: "q \<in> set (rules k)" "rule_key q = x"
      "mset (rules (snd (run_state (r (edit_rule ''del'' x)) k))) = mset (rules k) - {#q#}"
    have "{#q#} \<subseteq># filter_mset (\<lambda>q. F (rule_key q)) (mset (rules k))" using q(1,2) q0(3) by simp
    then show ?thesis using q q0(3) by (simp add: keys_of_def picked_def filter_diff_mset image_mset_Diff)
  qed
qed

lemma deletes_keys:
  assumes "rule_host r nm rules"
  shows "list_all editable xs \<Longrightarrow> mset xs \<subseteq># keys_of rules F k \<Longrightarrow>
    keys_of rules F (snd (run_state (run_all r (map (edit_rule ''del'') xs)) k)) = keys_of rules F k - mset xs"
proof (induction xs arbitrary: k)
  case (Cons x xs)
  let ?k' = "snd (run_state (r (edit_rule ''del'' x)) k)"
  have "x \<in># keys_of rules F k" using Cons.prems(2) by (simp add: insert_subset_eq_iff)
  then have k': "keys_of rules F ?k' = keys_of rules F k - {#x#}" using delete_key [OF assms] Cons.prems(1) by simp
  then have "mset xs \<subseteq># keys_of rules F ?k'" using Cons.prems(2) by (simp add: insert_subset_eq_iff)
  then show ?case using Cons.IH [of ?k'] Cons.prems(1) k' by (simp add: case_prod_beta)
qed simp

lemma add_keeps:
  assumes "rule_host r nm rules" and "editable x" and "x \<notin> rule_key ` set (rules k)" and "\<not> F x"
  shows "same_picked rules F k (snd (run_state (r (edit_rule ''add'' x)) k))"
proof -
  obtain out k' where "run_state (r (edit_rule ''add'' x)) k = (Inr out, k')" "mset (rules k') = add_mset (marked_rule x) (mset (rules k))"
    by (rule host_adds [OF assms(1-3)])
  then show ?thesis by (simp add: same_picked_def picked_def assms(4))
qed

text \<open>Pinning a rule leaves its copies at no other priority, and every rule that is not one of them as it was.\<close>

definition copies :: "string \<Rightarrow> kaction \<Rightarrow> (int \<Rightarrow> bool) \<Rightarrow> string \<times> kaction \<times> int \<Rightarrow> bool" where
  "copies m a B x = (case x of (m', a', p) \<Rightarrow> m' = m \<and> a' = a \<and> B p)"

lemma rule_cmd_edit: "rule_cmd ''fwmark'' m (command_words a) = (\<lambda>verb pref. edit_rule verb (m, a, pref))"
  by (simp add: fun_eq_iff)

lemma pin_exact:
  assumes "rule_host r nm rules" and "editable (m, a, want)" and "B want"
    and "mset (map (\<lambda>p. (m, a, p)) found) = keys_of rules (copies m a B) k"
  obtains k' where "run_state (pin_rule r (rule_cmd ''fwmark'' m (command_words a)) want found) k = (Inr (), k')"
    and "set_mset (keys_of rules (copies m a B) k') = {(m, a, want)}"
    and "\<And>G. (\<And>x. copies m a B x \<Longrightarrow> \<not> G x) \<Longrightarrow> same_picked rules G k k'"
proof -
  let ?c = "\<lambda>p. (m, a, p)" and ?F = "copies m a B"
  define strays where "strays = filter (\<lambda>p. p \<noteq> want) found"
  define k1 where "k1 = (if want \<in> set found then k else snd (run_state (r (edit_rule ''add'' (?c want))) k))"
  define k' where "k' = snd (run_state (run_all r (map (edit_rule ''del'') (map ?c strays))) k1)"
  have F: "\<And>x. x \<in># keys_of rules ?F k \<Longrightarrow> ?F x" by (auto simp: keys_of_def picked_def)
  have new: "?c want \<notin> rule_key ` set (rules k)" if "want \<notin> set found"
  proof
    assume "?c want \<in> rule_key ` set (rules k)"
    then have "?c want \<in># keys_of rules ?F k" using assms(3) by (auto simp: keys_of_def picked_def copies_def)
    then show False using that unfolding assms(4) [symmetric] by auto
  qed
  define all where "all = (if want \<in> set found then found else want # found)"
  have k1: "keys_of rules ?F k1 = mset (map ?c all)
      \<and> (want \<notin> set found \<longrightarrow> (\<exists>out. run_state (r (edit_rule ''add'' (?c want))) k = (Inr out, k1)))"
  proof (cases "want \<in> set found")
    case False
    obtain out k2 where add: "run_state (r (edit_rule ''add'' (?c want))) k = (Inr out, k2)"
        "mset (rules k2) = add_mset (marked_rule (?c want)) (mset (rules k))"
      by (rule host_adds [OF assms(1,2) new [OF False]])
    then have "k1 = k2" using False by (simp add: k1_def)
    moreover have "keys_of rules ?F k2 = add_mset (?c want) (keys_of rules ?F k)"
      using assms(3) add(2) by (simp add: keys_of_def picked_def copies_def del: marked_rule.simps)
    ultimately show ?thesis using add(1) False assms(4) by (simp add: all_def)
  qed (simp add: k1_def all_def assms(4) [symmetric])
  have "in_int64 p" if "p \<in> set found" for p
  proof -
    have "?c p \<in># keys_of rules ?F k" unfolding assms(4) [symmetric] using that by auto
    then show ?thesis using assms(1) by (auto simp: keys_of_def picked_def rule_key_def rule_host_def ordinary_def)
  qed
  then have eds: "list_all editable (map ?c strays)" using assms(2) by (auto simp: list_all_iff strays_def)
  have "mset strays \<subseteq># mset found" by (simp add: strays_def multiset_filter_subset)
  moreover have "mset found \<subseteq># mset all" by (simp add: all_def)
  ultimately have "mset strays \<subseteq># mset all" by (rule subset_mset.order_trans)
  then have sub: "mset (map ?c strays) \<subseteq># keys_of rules ?F k1"
    using image_mset_subseteq_mono [of "mset strays" _ ?c] conjunct1 [OF k1] by (simp only: mset_map)
  have "keys_of rules ?F k' = keys_of rules ?F k1 - mset (map ?c strays)"
    unfolding k'_def by (rule deletes_keys [OF assms(1) eds sub])
  also have "\<dots> = image_mset ?c (mset (filter (\<lambda>p. p = want) all))"
  proof -
    have part: "mset all = mset (filter (\<lambda>p. p = want) all) + mset strays"
    proof (cases "want \<in> set found")
      case True
      show ?thesis unfolding strays_def mset_filter all_def if_P [OF True] by (rule multiset_partition)
    next
      case False
      then have "filter (\<lambda>p. p = want) found = []" "strays = found" by (auto simp: strays_def filter_empty_conv filter_id_conv)
      then show ?thesis using False by (simp add: all_def)
    qed
    have "image_mset ?c (mset all) = image_mset ?c (mset (filter (\<lambda>p. p = want) all)) + image_mset ?c (mset strays)"
      by (subst part) (rule image_mset_union)
    then show ?thesis unfolding conjunct1 [OF k1] mset_map by simp
  qed
  finally have keys: "set_mset (keys_of rules ?F k') = {?c want}" by (auto simp: all_def split: if_splits)
  have run: "run_state (pin_rule r (rule_cmd ''fwmark'' m (command_words a)) want found) k = (Inr (), k')"
  proof (cases "want \<in> set found")
    case True
    then show ?thesis
      by (simp add: pin_rule_def k'_def k1_def strays_def comp_def case_prod_beta)
  next
    case False
    then obtain out where "run_state (r (edit_rule ''add'' (?c want))) k = (Inr out, k1)" using k1 by auto
    then show ?thesis using False
      by (simp add: pin_rule_def k'_def strays_def comp_def case_prod_beta)
  qed
  have "same_picked rules G k k'" if G: "\<And>x. ?F x \<Longrightarrow> \<not> G x" for G
  proof -
    have "same_picked rules G k k1"
      using add_keeps [OF assms(1,2) new, of G] G [of "?c want"] assms(3) by (auto simp: k1_def copies_def same_picked_def)
    moreover have "\<not> G x" if "x \<in> set (map ?c strays)" for x
    proof -
      have "x \<in># mset (map ?c found)" using that by (auto simp: strays_def)
      then show ?thesis using F G unfolding assms(4) by blast
    qed
    then have "keeps (same_picked rules G) (run_all r (map (edit_rule ''del'') (map ?c strays)))"
      using eds by (intro keeps_run_all same_picked_order) (auto simp: list_all_iff intro!: delete_keeps [OF assms(1)] simp del: edit_rule.simps)
    then have "same_picked rules G k1 k'" by (simp add: k'_def state_io_rel_def)
    ultimately show ?thesis using same_picked_order(2) [of rules G] by (meson transpD)
  qed
  with run keys that show ?thesis by blast
qed

section \<open>What the readers find\<close>

lemma host_ordinary: "rule_host r nm rules \<Longrightarrow> q \<in> set (rules k) \<Longrightarrow> ordinary nm q"
  by (simp add: rule_host_def)

lemma keys_of_filter: "keys_of rules F k = mset (map rule_key (filter (\<lambda>q. F (rule_key q)) (rules k)))"
  by (simp add: keys_of_def picked_def)

lemma map_filter_map: "List.map_filter f (map g xs) = List.map_filter (f \<circ> g) xs"
  by (induction xs) (simp_all add: List.map_filter_def)

lemma map_filter_cond: "List.map_filter (\<lambda>x. if P x then Some (f x) else None) xs = map f (filter P xs)"
  by (induction xs) (simp_all add: List.map_filter_def)

lemma map_filter_cong: "(\<And>x. x \<in> set xs \<Longrightarrow> f x = g x) \<Longrightarrow> List.map_filter f xs = List.map_filter g xs"
  by (induction xs) (auto simp: List.map_filter_def)

lemma listed_marks:
  assumes "rule_host r nm rules" and "shows_rules nm out (filter (\<lambda>q. kr_action q = KLookup t) (rules k))" and "m \<noteq> ''''"
  shows "mset (map (\<lambda>p. (m, KLookup t, p)) (markRulePrefs out m '''')) = keys_of rules (copies m (KLookup t) (\<lambda>_. True)) k"
proof -
  let ?rs = "filter (\<lambda>q. kr_action q = KLookup t) (rules k)"
  have "markRulePrefs out m '''' = map fst (filter (\<lambda>(n, fs). has_word ''fwmark'' m fs \<and> list_ex (\<lambda>(k, _). k = ''lookup'') (pairs fs))
      (map (\<lambda>q. (kr_pref q, print_rule nm q)) ?rs))"
    using assms(2) by (simp add: markRulePrefs_def shows_rules_def)
  also have "\<dots> = map kr_pref (filter (\<lambda>q. has_word ''fwmark'' m (print_rule nm q) \<and> list_ex (\<lambda>(k, _). k = ''lookup'') (pairs (print_rule nm q))) ?rs)"
    by (simp add: filter_map comp_def)
  also have "filter (\<lambda>q. has_word ''fwmark'' m (print_rule nm q) \<and> list_ex (\<lambda>(k, _). k = ''lookup'') (pairs (print_rule nm q))) ?rs =
      filter (\<lambda>q. rule_mark q = m) ?rs"
    using reads_mark(2) [OF host_ordinary [OF assms(1)] assms(3)] reads_lookup [OF host_ordinary [OF assms(1)]]
    by (intro filter_cong) auto
  finally have "map (\<lambda>p. (m, KLookup t, p)) (markRulePrefs out m '''') =
      map (\<lambda>q. (m, KLookup t, kr_pref q)) (filter (\<lambda>q. rule_mark q = m \<and> kr_action q = KLookup t) (rules k))"
    by (simp add: comp_def conj_commute)
  also have "\<dots> = map rule_key (filter (\<lambda>q. copies m (KLookup t) (\<lambda>_. True) (rule_key q)) (rules k))"
    by (simp add: copies_def rule_key_def conj_commute)
  finally show ?thesis unfolding keys_of_filter by simp
qed

lemma listed_unreachable:
  assumes "rule_host r nm rules" and "shows_rules nm out (rules k)"
  shows "unreachableRules out = map (\<lambda>q. (kr_pref q, rule_mark q)) (filter (\<lambda>q. rule_mark q \<noteq> '''' \<and> kr_action q = KUnreachable) (rules k))"
proof -
  have "unreachableRules out = List.map_filter (\<lambda>q. if word_of ''fwmark'' (print_rule nm q) \<noteq> '''' \<and> ''unreachable'' \<in> set (print_rule nm q)
      then Some (kr_pref q, word_of ''fwmark'' (print_rule nm q)) else None) (rules k)"
    using assms(2) by (simp add: unreachableRules_def shows_rules_def map_filter_map comp_def Let_def)
  also have "\<dots> = List.map_filter (\<lambda>q. if rule_mark q \<noteq> '''' \<and> kr_action q = KUnreachable then Some (kr_pref q, rule_mark q) else None) (rules k)"
    using reads_mark(1) [OF host_ordinary [OF assms(1)]] reads_unreachable [OF host_ordinary [OF assms(1)]]
    by (intro map_filter_cong) simp
  also have "\<dots> = map (\<lambda>q. (kr_pref q, rule_mark q)) (filter (\<lambda>q. rule_mark q \<noteq> '''' \<and> kr_action q = KUnreachable) (rules k))"
    by (rule map_filter_cond)
  finally show ?thesis .
qed

definition refusals :: "(string \<Rightarrow> bool) \<Rightarrow> string \<times> kaction \<times> int \<Rightarrow> bool" where
  "refusals M x = (case x of (m, a, p) \<Rightarrow> a = KUnreachable \<and> m \<noteq> '''' \<and> inProbeDenyBand p \<and> M m)"

lemma listed_refusals:
  assumes "rule_host r nm rules" and "shows_rules nm out (rules k)"
  shows "mset (map (\<lambda>(p, m). (m, KUnreachable, p)) (filter (\<lambda>(p, m). M m) (denyRulesInBand out))) = keys_of rules (refusals M) k"
proof -
  have "map (\<lambda>(p, m). (m, KUnreachable, p)) (filter (\<lambda>(p, m). M m) (filter (\<lambda>(pref, _). inProbeDenyBand pref)
        (map (\<lambda>q. (kr_pref q, rule_mark q)) (filter (\<lambda>q. rule_mark q \<noteq> '''' \<and> kr_action q = KUnreachable) rs)))) =
      map rule_key (filter (\<lambda>q. refusals M (rule_key q)) rs)" for rs
    by (induction rs) (auto simp: refusals_def rule_key_def)
  then show ?thesis unfolding keys_of_filter denyRulesInBand_def listed_unreachable [OF assms] by simp
qed

lemma listed_denies:
  assumes "rule_host r nm rules" and "shows_rules nm out (rules k)" and "m \<noteq> ''''"
  shows "mset (map (\<lambda>p. (m, KUnreachable, p)) (denyRulePrefs out m)) = keys_of rules (copies m KUnreachable inProbeDenyBand) k"
proof -
  have "map (\<lambda>p. (m, KUnreachable, p)) (map fst (filter (\<lambda>(_, m'). m' = m) ds)) =
      map (\<lambda>(p, m). (m, KUnreachable, p)) (filter (\<lambda>(p, m'). m' = m) ds)" for ds :: "(int \<times> string) list"
    by (induction ds) auto
  then have "map (\<lambda>p. (m, KUnreachable, p)) (denyRulePrefs out m) =
      map (\<lambda>(p, m). (m, KUnreachable, p)) (filter (\<lambda>(p, m'). m' = m) (denyRulesInBand out))"
    unfolding denyRulePrefs_def .
  moreover have "refusals (\<lambda>m'. m' = m) = copies m KUnreachable inProbeDenyBand"
    using assms(3) by (auto simp: refusals_def copies_def fun_eq_iff)
  ultimately show ?thesis using listed_refusals [OF assms(1,2), of "\<lambda>m'. m' = m"] by simp
qed

section \<open>Probe rules\<close>

definition own_rules :: "PathConfig \<Rightarrow> string \<times> kaction \<times> int \<Rightarrow> bool" where
  "own_rules p x = (case x of (m, a, pref) \<Rightarrow> m = mark_text (p_Mark p) \<and>
     (a = KLookup (p_Table p) \<or> a = KUnreachable \<and> inProbeDenyBand pref))"

definition path_keys :: "PathConfig \<Rightarrow> (string \<times> kaction \<times> int) set" where
  "path_keys p = {(mark_text (p_Mark p), KLookup (p_Table p), probeRulePref p),
     (mark_text (p_Mark p), KUnreachable, probeDenyRulePref p)}"

definition banded :: "PathConfig \<Rightarrow> bool" where
  "banded p \<longleftrightarrow> 0 < p_ID p \<and> p_ID p < ProbeDenyBandSize \<and> in_int64 (p_Table p)"

lemma mark_text_nonempty [simp]: "mark_text m \<noteq> ''''" by (simp add: mark_text_def)

lemma hex_digits_chars: "list_all (\<lambda>c. c \<in> set ''0123456789abcdefx/-'') (hex_digits n)"
proof (induction n rule: hex_digits.induct)
  case (1 n)
  have "list_all (\<lambda>c. c \<in> set ''0123456789abcdefx/-'') hexDigits" and "length hexDigits = 16" by code_simp+
  then have "hexDigits ! (n mod 16) \<in> set ''0123456789abcdefx/-''"
    unfolding list_all_iff by (metis mod_less_divisor nth_mem zero_less_numeral)
  with 1 show ?case by (subst hex_digits.simps, cases "n < 16") (simp_all del: list.set set_simps)
qed

lemma mark_text_plain [simp]: "plain_mark (mark_text m)"
proof -
  have "list_all (\<lambda>c. c \<in> set ''0123456789abcdefx/-'') (hex_text m)"
    using hex_digits_chars by (simp add: hex_text_def del: list.set set_simps) (simp add: list.set)
  then show ?thesis by (simp add: plain_mark_def mark_text_def)
qed

lemma banded_deny: "banded p \<Longrightarrow> inProbeDenyBand (probeDenyRulePref p)"
  by (simp add: banded_def inProbeDenyBand_def probeDenyRulePref_def)

lemma own_rules_copies:
  "own_rules p x \<longleftrightarrow> copies (mark_text (p_Mark p)) (KLookup (p_Table p)) (\<lambda>_. True) x \<or>
     copies (mark_text (p_Mark p)) KUnreachable inProbeDenyBand x"
  by (auto simp: own_rules_def copies_def)

lemma set_keys_of: "set_mset (keys_of rules F k) = {x \<in> rule_key ` set (rules k). F x}"
  by (auto simp: keys_of_def picked_def)

lemma set_keys_or: "set_mset (keys_of rules (\<lambda>x. F x \<or> G x) k) = set_mset (keys_of rules F k) \<union> set_mset (keys_of rules G k)"
  by (auto simp: set_keys_of)

lemma same_picked_trans: "same_picked rules F k k1 \<Longrightarrow> same_picked rules F k1 k2 \<Longrightarrow> same_picked rules F k k2"
  by (simp add: same_picked_def)

lemma ensureProbeRules_exact:
  assumes "rule_host r nm rules" and "banded p"
    and "mset (map (\<lambda>d. (mark_text (p_Mark p), KUnreachable, d)) (denyRulePrefs all (mark_text (p_Mark p)))) =
      keys_of rules (copies (mark_text (p_Mark p)) KUnreachable inProbeDenyBand) k"
  obtains k' where "run_state (ensureProbeRules r p all) k = (Inr (), k')"
    and "set_mset (keys_of rules (own_rules p) k') = path_keys p"
    and "\<And>G. (\<And>x. own_rules p x \<Longrightarrow> \<not> G x) \<Longrightarrow> same_picked rules G k k'"
proof -
  let ?m = "mark_text (p_Mark p)" and ?a = "KLookup (p_Table p)"
  let ?L = "copies ?m ?a (\<lambda>_. True)" and ?D = "copies ?m KUnreachable inProbeDenyBand"
  have "in_int64 (p_Table p)" using assms(2) by (simp add: banded_def)
  then obtain out where out: "run_state (listRulesInTable r (p_Table p)) k = (Inr out, k)"
    "shows_rules nm out (filter (\<lambda>q. kr_action q = KLookup (p_Table p)) (rules k))"
    by (rule host_lists_table [OF assms(1)])
  have e: "editable (?m, ?a, probeRulePref p)" "editable (?m, KUnreachable, probeDenyRulePref p)"
    using assms(2) by (simp_all add: banded_def probeRulePref_def probeDenyRulePref_def ProbeRulePrefBase_def
        ProbeDenyRulePrefBase_def ProbeDenyBandSize_def in_int64_def minInt64_def maxInt64_def)
  obtain k1 where k1: "run_state (pin_rule r (rule_cmd ''fwmark'' ?m (command_words ?a)) (probeRulePref p) (markRulePrefs out ?m '''')) k = (Inr (), k1)"
    "set_mset (keys_of rules ?L k1) = {(?m, ?a, probeRulePref p)}" "\<And>G. (\<And>x. ?L x \<Longrightarrow> \<not> G x) \<Longrightarrow> same_picked rules G k k1"
    by (rule pin_exact [OF assms(1) e(1) _ listed_marks [OF assms(1) out(2)]]) simp_all
  have "same_picked rules ?D k k1" by (rule k1(3)) (auto simp: copies_def)
  then have d: "mset (map (\<lambda>d. (?m, KUnreachable, d)) (denyRulePrefs all ?m)) = keys_of rules ?D k1"
    using assms(3) same_keys by metis
  obtain k2 where k2: "run_state (pin_rule r (rule_cmd ''fwmark'' ?m (command_words KUnreachable)) (probeDenyRulePref p) (denyRulePrefs all ?m)) k1 = (Inr (), k2)"
    "set_mset (keys_of rules ?D k2) = {(?m, KUnreachable, probeDenyRulePref p)}" "\<And>G. (\<And>x. ?D x \<Longrightarrow> \<not> G x) \<Longrightarrow> same_picked rules G k1 k2"
    by (rule pin_exact [where B = inProbeDenyBand, OF assms(1) e(2) banded_deny [OF assms(2)] d]) simp_all
  have "same_picked rules ?L k1 k2" by (rule k2(3)) (auto simp: copies_def)
  then have "set_mset (keys_of rules ?L k2) = {(?m, ?a, probeRulePref p)}" using k1(2) same_keys by metis
  moreover have "own_rules p = (\<lambda>x. ?L x \<or> ?D x)" by (simp add: fun_eq_iff own_rules_copies)
  ultimately have keys: "set_mset (keys_of rules (own_rules p) k2) = path_keys p" using k2(2) by (simp only: set_keys_or path_keys_def) (simp add: insert_commute)
  have run: "run_state (ensureProbeRules r p all) k = (Inr (), k2)"
    using out(1) k1(1) k2(1) by (simp add: ensureProbeRules_def Let_def)
  have others: "same_picked rules G k k2" if "\<And>x. own_rules p x \<Longrightarrow> \<not> G x" for G
    by (rule same_picked_trans [OF k1(3) k2(3)]) (use that own_rules_copies [of p] in blast)+
  show ?thesis by (rule that [OF run keys others])
qed

lemma hexDigits_distinct: "distinct hexDigits" "length hexDigits = 16"
  by code_simp+

lemma hex_digits_nonempty [simp]: "hex_digits n \<noteq> []"
  by (subst hex_digits.simps) simp

lemma hex_digits_inj: "hex_digits m = hex_digits n \<Longrightarrow> m = n"
proof (induction m arbitrary: n rule: less_induct)
  case (less m)
  have unf: "hex_digits k = (if k < 16 then [] else hex_digits (k div 16)) @ [hexDigits ! (k mod 16)]" for k
    by (subst hex_digits.simps) simp
  have eq: "(if m < 16 then [] else hex_digits (m div 16)) = (if n < 16 then [] else hex_digits (n div 16))"
    "hexDigits ! (m mod 16) = hexDigits ! (n mod 16)"
    using less.prems unf [of m] unf [of n] by simp_all
  then have low: "m mod 16 = n mod 16" using hexDigits_distinct by (simp add: nth_eq_iff_index_eq)
  have "m div 16 = n div 16"
  proof (cases "m < 16")
    case True
    then show ?thesis using eq(1) by (cases "n < 16") (simp_all add: hex_digits_nonempty [symmetric])
  next
    case False
    then have "n \<ge> 16" "hex_digits (m div 16) = hex_digits (n div 16)" using eq(1) by (auto split: if_splits)
    then show ?thesis using less.IH [of "m div 16"] False by simp
  qed
  with low show ?case by (metis div_mult_mod_eq)
qed

lemma hex_digits_no_minus: "CHR ''-'' \<notin> set (hex_digits n)"
proof (induction n rule: hex_digits.induct)
  case (1 n)
  have "CHR ''-'' \<notin> set hexDigits" by code_simp
  then have "hexDigits ! (n mod 16) \<noteq> CHR ''-''" using hexDigits_distinct(2) by (metis mod_less_divisor nth_mem zero_less_numeral)
  then show ?case using 1 by (subst hex_digits.simps) auto
qed

lemma hex_text_minus: "CHR ''-'' \<in> set (hex_text i) \<longleftrightarrow> i < 0"
  by (simp add: hex_text_def hex_digits_no_minus)

lemma mark_text_inj: "mark_text m = mark_text n \<longleftrightarrow> m = n"
proof
  assume "mark_text m = mark_text n"
  then have t: "hex_text m = hex_text n" by (simp add: mark_text_def)
  then have "m < 0 \<longleftrightarrow> n < 0" using hex_text_minus by metis
  then show "m = n" using t by (auto simp: hex_text_def split: if_splits dest: hex_digits_inj)
qed simp

lemma own_rules_disjoint: "p_Mark p \<noteq> p_Mark p' \<Longrightarrow> own_rules p x \<Longrightarrow> \<not> own_rules p' x"
  by (auto simp: own_rules_def mark_text_inj)

lemma route_keeps:
  assumes "rule_host r nm rules"
  shows "keeps (same_picked rules G) (ensureProbeRouteOnly r p dst src)"
  unfolding ensureProbeRouteOnly_def
  by (intro keeps_run_one same_picked_order)
     (simp add: state_io_rel_def same_picked_def picked_def host_other [OF assms])

lemma probe_paths_exact:
  assumes "rule_host r nm rules"
  shows "list_all banded ps \<Longrightarrow> distinct (map p_Mark ps) \<Longrightarrow>
    (\<forall>p \<in> set ps. mset (map (\<lambda>d. (mark_text (p_Mark p), KUnreachable, d)) (denyRulePrefs all (mark_text (p_Mark p)))) =
      keys_of rules (copies (mark_text (p_Mark p)) KUnreachable inProbeDenyBand) k) \<Longrightarrow>
    \<exists>problems k'. run_state (probe_paths r up dst src all ps) k = (Inr problems, k') \<and>
      (\<forall>p \<in> set ps. set_mset (keys_of rules (own_rules p) k') = path_keys p) \<and>
      (\<forall>G. (\<forall>p \<in> set ps. \<forall>x. own_rules p x \<longrightarrow> \<not> G x) \<longrightarrow> same_picked rules G k k')"
proof (induction ps arbitrary: k)
  case Nil
  then show ?case by (simp add: same_picked_def)
next
  case (Cons p ps)
  obtain k1 where k1: "run_state (ensureProbeRules r p all) k = (Inr (), k1)"
    "set_mset (keys_of rules (own_rules p) k1) = path_keys p" "\<And>G. (\<And>x. own_rules p x \<Longrightarrow> \<not> G x) \<Longrightarrow> same_picked rules G k k1"
    by (rule ensureProbeRules_exact [OF assms, of p all k]) (use Cons.prems in auto)
  define k2 where "k2 = (if up (p_Iface p) then snd (run_state (ensureProbeRouteOnly r p dst src) k1) else k1)"
  have k2: "same_picked rules G k1 k2" for G
    using state_io_relD [OF route_keeps [OF assms]] by (auto simp: k2_def same_picked_def) (metis prod.collapse)
  have rest: "same_picked rules G k k2" if "\<And>x. own_rules p x \<Longrightarrow> \<not> G x" for G
    by (rule same_picked_trans [OF k1(3) k2]) (rule that)
  have "same_picked rules (copies (mark_text (p_Mark q)) KUnreachable inProbeDenyBand) k k2" if "q \<in> set ps" for q
  proof (rule rest)
    have "p_Mark p \<noteq> p_Mark q" using Cons.prems(2) that by auto
    then show "own_rules p x \<Longrightarrow> \<not> copies (mark_text (p_Mark q)) KUnreachable inProbeDenyBand x" for x
      by (auto simp: own_rules_def copies_def mark_text_inj)
  qed
  then have "\<forall>q \<in> set ps. mset (map (\<lambda>d. (mark_text (p_Mark q), KUnreachable, d)) (denyRulePrefs all (mark_text (p_Mark q)))) =
      keys_of rules (copies (mark_text (p_Mark q)) KUnreachable inProbeDenyBand) k2"
    using Cons.prems(3) same_keys by (metis list.set_intros(2))
  then obtain problems k' where k': "run_state (probe_paths r up dst src all ps) k2 = (Inr problems, k')"
    "\<forall>p \<in> set ps. set_mset (keys_of rules (own_rules p) k') = path_keys p"
    "\<forall>G. (\<forall>p \<in> set ps. \<forall>x. own_rules p x \<longrightarrow> \<not> G x) \<longrightarrow> same_picked rules G k2 k'"
    using Cons.IH [of k2] Cons.prems(1,2) by auto
  obtain found where run: "run_state (probe_paths r up dst src all (p # ps)) k = (Inr found, k')"
    using k1(1) k'(1) by (simp add: k2_def case_prod_beta split: if_splits)
  have "same_picked rules (own_rules p) k1 k'"
  proof -
    have "\<forall>q \<in> set ps. \<forall>x. own_rules q x \<longrightarrow> \<not> own_rules p x" using Cons.prems(2) own_rules_disjoint by fastforce
    then have "same_picked rules (own_rules p) k2 k'" using k'(3) [THEN spec, of "own_rules p"] by (rule rev_mp)
    then show ?thesis by (rule same_picked_trans [OF k2])
  qed
  then have "set_mset (keys_of rules (own_rules p) k') = path_keys p" using k1(2) same_keys by metis
  then have keys: "\<forall>q \<in> set (p # ps). set_mset (keys_of rules (own_rules q) k') = path_keys q"
    using k'(2) by (simp only: set_simps ball_simps simp_thms)
  have others: "same_picked rules G k k'" if "\<forall>q \<in> set (p # ps). \<forall>x. own_rules q x \<longrightarrow> \<not> G x" for G
  proof -
    have "same_picked rules G k2 k'" using k'(3) [THEN spec, of G] that by simp
    moreover have "same_picked rules G k k2" by (rule rest) (use that in \<open>blast intro: list.set_intros(1)\<close>)
    ultimately show ?thesis by (rule same_picked_trans [rotated])
  qed
  show ?case by (intro exI [of _ found] exI [of _ k'] conjI run keys allI impI others)
qed


text \<open>The rules of the host that are none of this system's: what no path's own rule is, and no refusal in the band.\<close>

definition foreign :: "PathConfig list \<Rightarrow> string \<times> kaction \<times> int \<Rightarrow> bool" where
  "foreign ps x \<longleftrightarrow> (\<forall>p \<in> set ps. \<not> own_rules p x) \<and> \<not> refusals (\<lambda>_. True) x"

abbreviation orphan :: "PathConfig list \<Rightarrow> string \<times> kaction \<times> int \<Rightarrow> bool" where
  "orphan ps \<equiv> refusals (\<lambda>m. m \<notin> set (map (\<lambda>p. mark_text (p_Mark p)) ps))"

lemma refusal_editable:
  assumes "rule_host r nm rules"
  shows "\<forall>x \<in># keys_of rules (refusals M) k. editable x"
proof
  fix x assume "x \<in># keys_of rules (refusals M) k"
  then obtain q where q: "q \<in> set (rules k)" "x = rule_key q" "refusals M x" by (auto simp: keys_of_def picked_def)
  have "ordinary nm q" by (rule host_ordinary [OF assms(1) q(1)])
  moreover have "rule_mark q \<noteq> ''''" using q(2,3) by (simp add: refusals_def rule_key_def)
  ultimately have "plain_mark (rule_mark q)" "in_int64 (kr_pref q)"
    by (auto simp: ordinary_def rule_mark_def split: option.splits dest: map_of_SomeD)
  with q(2,3) show "editable x" by (simp add: refusals_def rule_key_def)
qed

text \<open>Deleting the listed rules of a kind leaves none of them, and every other rule as it was.\<close>

lemma sweep_exact:
  assumes "rule_host r nm rules" and "mset xs = keys_of rules F k" and "\<forall>x \<in># keys_of rules F k. editable x"
  defines "k' \<equiv> snd (run_state (run_all r (map (edit_rule ''del'') xs)) k)"
  shows "keys_of rules F k' = {#}"
    and "(\<And>x. F x \<Longrightarrow> \<not> G x) \<Longrightarrow> same_picked rules G k k'"
proof -
  have mem: "x \<in># keys_of rules F k" if "x \<in> set xs" for x
    using that assms(2) by (metis set_mset_mset)
  then have ed: "list_all editable xs" using assms(3) unfolding list_all_iff by blast
  show "keys_of rules F k' = {#}"
    using deletes_keys [OF assms(1) ed, of F k] assms(2) by (simp add: k'_def)
  assume G: "\<And>x. F x \<Longrightarrow> \<not> G x"
  have "\<not> G x" if "x \<in> set xs" for x
    using mem [OF that] G [of x] by (auto simp: keys_of_def picked_def)
  then have "keeps (same_picked rules G) (r (edit_rule ''del'' x))" if "x \<in> set xs" for x
    using ed that delete_keeps [OF assms(1)] unfolding list_all_iff by blast
  then have "keeps (same_picked rules G) (run_all r (map (edit_rule ''del'') xs))"
    by (intro keeps_run_all same_picked_order) (auto simp del: edit_rule.simps)
  then show "same_picked rules G k k'" by (simp add: k'_def state_io_rel_def)
qed

lemma refusal_dels:
  "map (\<lambda>(pref, mark). rule_cmd ''fwmark'' mark [''unreachable''] ''del'' pref) ds =
     map (edit_rule ''del'') (map (\<lambda>(p, m). (m, KUnreachable, p)) ds)"
  by (induction ds) auto

lemma keys_parts:
  "set_mset (keys_of rules (\<lambda>x. \<not> foreign ps x) k) =
     (\<Union>p \<in> set ps. set_mset (keys_of rules (own_rules p) k)) \<union> set_mset (keys_of rules (orphan ps) k)"
proof -
  have "\<not> foreign ps x \<longleftrightarrow> (\<exists>p \<in> set ps. own_rules p x) \<or> orphan ps x" for x
    by (auto simp: foreign_def refusals_def own_rules_def)
  then show ?thesis unfolding set_keys_of by blast
qed

lemma probe_routes_run:
  fixes r :: "'k runner" and k :: 'k and up :: "string \<Rightarrow> bool" and dst src :: string
  assumes "rule_host r nm rules" and "list_all banded paths" and "distinct (map p_Mark paths)"
  defines "k' \<equiv> snd (run_state (EnsureProbeRoutes r up paths dst src) k)"
  shows "\<forall>p \<in> set paths. set_mset (keys_of rules (own_rules p) k') = path_keys p"
    and "keys_of rules (orphan paths) k' = {#}"
    and "same_picked rules (foreign paths) k k'"
proof -
  obtain all where all: "run_state (listRules r) k = (Inr all, k)" "shows_rules nm all (rules k)"
    by (rule host_lists [OF assms(1)])
  obtain problems k1 where k1: "run_state (probe_paths r up dst src all paths) k = (Inr problems, k1)"
    "\<forall>p \<in> set paths. set_mset (keys_of rules (own_rules p) k1) = path_keys p"
    "\<forall>G. (\<forall>p \<in> set paths. \<forall>x. own_rules p x \<longrightarrow> \<not> G x) \<longrightarrow> same_picked rules G k k1"
    using probe_paths_exact [OF assms(1-3)] listed_denies [OF assms(1) all(2) mark_text_nonempty] by blast
  define xs where "xs = map (\<lambda>(p, m). (m, KUnreachable, p))
      (filter (\<lambda>(pref, mark). mark \<notin> set (map (\<lambda>p. mark_text (p_Mark p)) paths)) (denyRulesInBand all))"
  have clash: "\<forall>p \<in> set paths. \<forall>x. own_rules p x \<longrightarrow> \<not> orphan paths x" by (auto simp: own_rules_def refusals_def)
  have "same_picked rules (orphan paths) k k1" by (rule k1(3) [THEN spec, THEN mp, OF clash])
  then have "keys_of rules (orphan paths) k1 = keys_of rules (orphan paths) k" by (rule same_keys)
  then have xs: "mset xs = keys_of rules (orphan paths) k1"
    using listed_refusals [OF assms(1) all(2)] by (simp add: xs_def)
  have k': "k' = snd (run_state (run_all r (map (edit_rule ''del'') xs)) k1)"
    using all(1) k1(1) by (simp add: k'_def EnsureProbeRoutes_def orphan_denies_def refusal_dels xs_def case_prod_beta)
  note swept = sweep_exact [OF assms(1) xs refusal_editable [OF assms(1)], folded k']
  show "keys_of rules (orphan paths) k' = {#}" by (rule swept(1))
  show "\<forall>p \<in> set paths. set_mset (keys_of rules (own_rules p) k') = path_keys p"
  proof
    fix p assume p: "p \<in> set paths"
    have "same_picked rules (own_rules p) k1 k'" by (rule swept(2)) (use clash p in blast)
    then show "set_mset (keys_of rules (own_rules p) k') = path_keys p" using k1(2) p same_keys by metis
  qed
  have "\<forall>p \<in> set paths. \<forall>x. own_rules p x \<longrightarrow> \<not> foreign paths x" by (auto simp: foreign_def)
  then have "same_picked rules (foreign paths) k k1" by (rule k1(3) [THEN spec, THEN mp])
  moreover have "same_picked rules (foreign paths) k1 k'"
    by (rule swept(2)) (auto simp: foreign_def refusals_def)
  ultimately show "same_picked rules (foreign paths) k k'" by (rule same_picked_trans)
qed

text \<open>On a host whose \<open>ip rule\<close> behaves as documented, whatever rules it holds and whichever tunnels exist: after
  \<open>EnsureProbeRoutes\<close> every path with its own mark has exactly its lookup at 30000+ID and its refusal at
  31000+ID, no refusal of the band is left for any other mark, and every rule that is not one of this system's is
  still there, as often as it was.\<close>

theorem probe_rules_converge:
  assumes "rule_host r nm rules" and "list_all banded paths" and "distinct (map p_Mark paths)"
  shows "set_mset (keys_of rules (\<lambda>x. \<not> foreign paths x) (snd (run_state (EnsureProbeRoutes r up paths dst src) k))) =
      (\<Union>p \<in> set paths. path_keys p) \<and>
    picked rules (foreign paths) (snd (run_state (EnsureProbeRoutes r up paths dst src) k)) = picked rules (foreign paths) k"
  using probe_routes_run [OF assms] by (simp add: keys_parts same_picked_def)


section \<open>Revert\<close>

lemma run_all_append [simp]:
  "run_state (run_all r (xs @ ys)) k = run_state (run_all r ys) (snd (run_state (run_all r xs) k))"
  by (induction xs arbitrary: k) (simp_all add: case_prod_beta)

abbreviation lookups :: "PathConfig \<Rightarrow> string \<times> kaction \<times> int \<Rightarrow> bool" where
  "lookups p \<equiv> copies (mark_text (p_Mark p)) (KLookup (p_Table p)) (\<lambda>_. True)"

lemma lookup_editable:
  assumes "rule_host r nm rules" and "in_int64 (p_Table p)"
  shows "\<forall>x \<in># keys_of rules (lookups p) k. editable x"
proof
  fix x assume "x \<in># keys_of rules (lookups p) k"
  then obtain q where "q \<in> set (rules k)" "x = rule_key q" "lookups p x" by (auto simp: keys_of_def picked_def)
  moreover have "in_int64 (kr_pref q)" using host_ordinary [OF assms(1) \<open>q \<in> set (rules k)\<close>] by (simp add: ordinary_def)
  ultimately show "editable x" using assms(2) by (auto simp: copies_def rule_key_def)
qed

definition fewer :: "('k \<Rightarrow> krule list) \<Rightarrow> 'k \<Rightarrow> 'k \<Rightarrow> bool" where
  "fewer rules k k' \<longleftrightarrow> mset (rules k') \<subseteq># mset (rules k)"

lemma fewer_keys: "fewer rules k k' \<Longrightarrow> keys_of rules F k = {#} \<Longrightarrow> keys_of rules F k' = {#}"
proof -
  assume "fewer rules k k'" and none: "keys_of rules F k = {#}"
  then have "keys_of rules F k' \<subseteq># keys_of rules F k"
    unfolding fewer_def keys_of_def picked_def by (intro image_mset_subseteq_mono multiset_filter_mono)
  with none show ?thesis by simp
qed

definition forget_path :: "'k runner \<Rightarrow> string \<Rightarrow> PathConfig \<Rightarrow> ('k, unit) state" where
  "forget_path r probeDst p = do {
     mine \<leftarrow> listRulesInTable r (p_Table p);
     let mark = mark_text (p_Mark p);
     let existing = (case mine of Inl _ \<Rightarrow> '''' | Inr s \<Rightarrow> s);
     run_all r (map (rule_cmd ''fwmark'' mark [''lookup'', Itoa (p_Table p)] ''del'') (markRulePrefs existing mark '''') @
       [[''ip'', ''route'', ''del'', probeDst, ''table'', Itoa (p_Table p)]]) }"

lemma forget_exact:
  fixes r :: "'k runner" and k :: 'k and dst :: string
  assumes "rule_host r nm rules" and "in_int64 (p_Table p)"
  defines "k' \<equiv> snd (run_state (forget_path r dst p) k)"
  shows "keys_of rules (lookups p) k' = {#}"
    and "(\<And>x. lookups p x \<Longrightarrow> \<not> G x) \<Longrightarrow> same_picked rules G k k'"
proof -
  let ?m = "mark_text (p_Mark p)"
  obtain out where out: "run_state (listRulesInTable r (p_Table p)) k = (Inr out, k)"
    "shows_rules nm out (filter (\<lambda>q. kr_action q = KLookup (p_Table p)) (rules k))"
    by (rule host_lists_table [OF assms(1,2)])
  define xs where "xs = map (\<lambda>n. (?m, KLookup (p_Table p), n)) (markRulePrefs out ?m '''')"
  define k1 where "k1 = snd (run_state (run_all r (map (edit_rule ''del'') xs)) k)"
  have xs: "mset xs = keys_of rules (lookups p) k" unfolding xs_def by (rule listed_marks [OF assms(1) out(2)]) simp
  have "map (rule_cmd ''fwmark'' ?m [''lookup'', Itoa (p_Table p)] ''del'') ns =
      map (edit_rule ''del'') (map (\<lambda>n. (?m, KLookup (p_Table p), n)) ns)" for ns by simp
  then have "k' = snd (run_state (r [''ip'', ''route'', ''del'', dst, ''table'', Itoa (p_Table p)]) k1)"
    unfolding k'_def k1_def forget_path_def xs_def using out(1) by (simp add: Let_def case_prod_beta comp_def)
  then have k': "rules k' = rules k1" by (simp add: host_other [OF assms(1)])
  note swept = sweep_exact [OF assms(1) xs lookup_editable [OF assms(1,2)], folded k1_def]
  show "keys_of rules (lookups p) k' = {#}" using swept(1) k' by (simp add: keys_of_def picked_def)
  show "(\<And>x. lookups p x \<Longrightarrow> \<not> G x) \<Longrightarrow> same_picked rules G k k'"
    using swept(2) [of G] k' by (simp add: same_picked_def picked_def)
qed

lemma fewer_same: "same_picked rules (\<lambda>x. \<not> F x) k k' \<Longrightarrow> keys_of rules F k' = {#} \<Longrightarrow> fewer rules k k'"
proof -
  assume same: "same_picked rules (\<lambda>x. \<not> F x) k k'" and none: "keys_of rules F k' = {#}"
  have part: "mset (rules j) = picked rules F j + picked rules (\<lambda>x. \<not> F x) j" for j
    unfolding picked_def by (rule multiset_partition)
  have "picked rules F k' = {#}" using none by (simp add: keys_of_def)
  then have "mset (rules k') = picked rules (\<lambda>x. \<not> F x) k" using same part [of k'] by (simp add: same_picked_def)
  then show ?thesis using part [of k] by (simp add: fewer_def)
qed

lemma forget_paths_exact:
  assumes "rule_host r nm rules"
  shows "list_all (\<lambda>p. in_int64 (p_Table p)) ps \<Longrightarrow>
    let k' = snd (run_state (for_each (forget_path r dst) ps) k) in
      (\<forall>p \<in> set ps. keys_of rules (lookups p) k' = {#}) \<and> fewer rules k k' \<and>
      (\<forall>G. (\<forall>p \<in> set ps. \<forall>x. lookups p x \<longrightarrow> \<not> G x) \<longrightarrow> same_picked rules G k k')"
proof (induction ps arbitrary: k)
  case Nil
  then show ?case by (simp add: same_picked_def fewer_def Let_def)
next
  case (Cons p ps)
  let ?k1 = "snd (run_state (forget_path r dst p) k)"
  let ?k' = "snd (run_state (for_each (forget_path r dst) ps) ?k1)"
  have t: "in_int64 (p_Table p)" using Cons.prems by simp
  note one = forget_exact [OF assms t, where dst = dst and k = k]
  have ih: "\<forall>p \<in> set ps. keys_of rules (lookups p) ?k' = {#}" "fewer rules ?k1 ?k'"
    "\<forall>G. (\<forall>p \<in> set ps. \<forall>x. lookups p x \<longrightarrow> \<not> G x) \<longrightarrow> same_picked rules G ?k1 ?k'"
    using Cons.IH [of ?k1] Cons.prems by (simp_all add: Let_def)
  have k': "snd (run_state (for_each (forget_path r dst) (p # ps)) k) = ?k'" by (simp add: case_prod_beta)
  have "same_picked rules (\<lambda>x. \<not> lookups p x) k ?k1" by (rule one(2)) simp
  then have "fewer rules k ?k1" using one(1) by (rule fewer_same)
  then have few: "fewer rules k ?k'" using ih(2) by (auto simp: fewer_def)
  have gone: "\<forall>q \<in> set (p # ps). keys_of rules (lookups q) ?k' = {#}"
    using ih(1) fewer_keys [OF ih(2) one(1)] by (simp only: set_simps ball_simps simp_thms)
  have same: "same_picked rules G k ?k'" if "\<forall>q \<in> set (p # ps). \<forall>x. lookups q x \<longrightarrow> \<not> G x" for G
  proof (rule same_picked_trans)
    show "same_picked rules G k ?k1" by (rule one(2)) (use that in \<open>blast intro: list.set_intros(1)\<close>)
    show "same_picked rules G ?k1 ?k'" using ih(3) [THEN spec, of G] that by (blast intro: list.set_intros(2))
  qed
  show ?case unfolding k' Let_def by (intro conjI gone few allI impI same)
qed

lemma RemoveProbeRoutes_forget:
  "RemoveProbeRoutes r paths probeDst dataPrefix = do {
     listed \<leftarrow> listRules r;
     _ \<leftarrow> for_each (forget_path r probeDst) paths;
     let all = (case listed of Inl _ \<Rightarrow> '''' | Inr s \<Rightarrow> s);
     run_all r (map (\<lambda>(pref, mark). rule_cmd ''fwmark'' mark [''unreachable''] ''del'' pref) (denyRulesInBand all) @
       [[''ip'', ''route'', ''del'', dataPrefix]]) }"
  by (simp add: RemoveProbeRoutes_def forget_path_def [abs_def])

lemma remove_probe_routes:
  fixes r :: "'k runner" and k :: 'k and dst data :: string
  assumes "rule_host r nm rules" and "list_all (\<lambda>p. in_int64 (p_Table p)) paths"
  defines "k' \<equiv> snd (run_state (RemoveProbeRoutes r paths dst data) k)"
  shows "\<forall>p \<in> set paths. keys_of rules (lookups p) k' = {#}"
    and "keys_of rules (refusals (\<lambda>_. True)) k' = {#}"
    and "same_picked rules (foreign paths) k k'"
proof -
  obtain all where all: "run_state (listRules r) k = (Inr all, k)" "shows_rules nm all (rules k)"
    by (rule host_lists [OF assms(1)])
  define k1 where "k1 = snd (run_state (for_each (forget_path r dst) paths) k)"
  note gone = forget_paths_exact [OF assms(1,2), where dst = dst and k = k, folded k1_def, unfolded Let_def]
  define xs where "xs = map (\<lambda>(p, m). (m, KUnreachable, p)) (denyRulesInBand all)"
  define k2 where "k2 = snd (run_state (run_all r (map (edit_rule ''del'') xs)) k1)"
  have "\<forall>p \<in> set paths. \<forall>x. lookups p x \<longrightarrow> \<not> refusals (\<lambda>_. True) x" by (auto simp: copies_def refusals_def)
  then have "same_picked rules (refusals (\<lambda>_. True)) k k1" using gone by blast
  then have "keys_of rules (refusals (\<lambda>_. True)) k1 = keys_of rules (refusals (\<lambda>_. True)) k" by (rule same_keys)
  then have xs: "mset xs = keys_of rules (refusals (\<lambda>_. True)) k1"
    using listed_refusals [OF assms(1) all(2), of "\<lambda>_. True"] by (simp add: xs_def)
  note swept = sweep_exact [OF assms(1) xs refusal_editable [OF assms(1)], folded k2_def]
  have "k' = snd (run_state (r [''ip'', ''route'', ''del'', data]) k2)"
    unfolding k'_def RemoveProbeRoutes_forget k2_def k1_def xs_def
    using all(1) by (simp add: Let_def case_prod_beta refusal_dels)
  then have k': "rules k' = rules k2" by (simp add: host_other [OF assms(1)])
  have "same_picked rules (\<lambda>x. \<not> refusals (\<lambda>_. True) x) k1 k2" by (rule swept(2)) simp
  then have few: "fewer rules k1 k'" using swept(1) k' fewer_same by (simp add: fewer_def)
  show "\<forall>p \<in> set paths. keys_of rules (lookups p) k' = {#}" using gone fewer_keys [OF few] by blast
  show "keys_of rules (refusals (\<lambda>_. True)) k' = {#}" using swept(1) k' by (simp add: keys_of_def picked_def)
  have "\<forall>p \<in> set paths. \<forall>x. lookups p x \<longrightarrow> \<not> foreign paths x" by (auto simp: foreign_def own_rules_copies)
  then have "same_picked rules (foreign paths) k k1" using gone by blast
  moreover have "same_picked rules (foreign paths) k1 k'"
    using swept(2) [of "foreign paths"] k' by (auto simp: foreign_def same_picked_def picked_def)
  ultimately show "same_picked rules (foreign paths) k k'" by (rule same_picked_trans)
qed

text \<open>C22. Revert takes down the rules of the configured paths, and only those. After \<open>RemoveProbeRoutes\<close> the host holds
  exactly the rules it held before, each as often, without the lookups of the configured paths' marks in their tables, at
  whatever priority, and without the refusals of the deny band, whatever their marks. A lookup left from a path that was
  removed from the configuration, or had another mark or table, is not among those taken: it stays, as \<open>route.go\<close> says of
  orphaned lookups.\<close>

theorem probe_rules_revert:
  assumes "rule_host r nm rules" and "list_all (\<lambda>p. in_int64 (p_Table p)) paths"
  shows "mset (rules (snd (run_state (RemoveProbeRoutes r paths dst data) k))) =
    filter_mset (\<lambda>q. \<not> (\<exists>p \<in> set paths. rule_mark q = mark_text (p_Mark p) \<and> kr_action q = KLookup (p_Table p)) \<and>
      \<not> (kr_action q = KUnreachable \<and> rule_mark q \<noteq> '''' \<and> inProbeDenyBand (kr_pref q))) (mset (rules k))"
proof -
  let ?k' = "snd (run_state (RemoveProbeRoutes r paths dst data) k)"
  note removed = remove_probe_routes [OF assms, where dst = dst and data = data and k = k]
  have not: "\<not> foreign paths x \<longleftrightarrow> (\<exists>p \<in> set paths. lookups p x) \<or> refusals (\<lambda>_. True) x" for x
    by (auto simp: foreign_def own_rules_copies refusals_def copies_def)
  have "set_mset (keys_of rules (\<lambda>x. \<not> foreign paths x) ?k') =
      (\<Union>p \<in> set paths. set_mset (keys_of rules (lookups p) ?k')) \<union> set_mset (keys_of rules (refusals (\<lambda>_. True)) ?k')"
    using not unfolding set_keys_of by blast
  then have none: "picked rules (\<lambda>x. \<not> foreign paths x) ?k' = {#}" using removed(1,2) by (simp add: keys_of_def)
  have "mset (rules ?k') = picked rules (foreign paths) ?k' + picked rules (\<lambda>x. \<not> foreign paths x) ?k'"
    unfolding picked_def by (rule multiset_partition)
  then have "mset (rules ?k') = picked rules (foreign paths) ?k'" unfolding none by simp
  also have "\<dots> = picked rules (foreign paths) k" using removed(3) by (simp add: same_picked_def)
  also have "\<dots> = filter_mset (\<lambda>q. \<not> (\<exists>p \<in> set paths. rule_mark q = mark_text (p_Mark p) \<and> kr_action q = KLookup (p_Table p)) \<and>
      \<not> (kr_action q = KUnreachable \<and> rule_mark q \<noteq> '''' \<and> inProbeDenyBand (kr_pref q))) (mset (rules k))"
    unfolding picked_def
    by (rule filter_mset_cong) (use not in \<open>auto simp: rule_key_def copies_def refusals_def\<close>)
  finally show ?thesis .
qed

section \<open>A host that behaves\<close>

text \<open>A rule list kept in memory, with the text of every answer and of every command read the way iproute2 does.\<close>

definition demo_name :: "int \<Rightarrow> string" where
  "demo_name t = (if t = 255 then ''local'' else if t = 254 then ''main'' else Itoa t)"

definition printable :: "krule \<Rightarrow> bool" where
  "printable q \<longleftrightarrow> ordinary demo_name q \<and> list_all (\<lambda>w. w \<noteq> '''' \<and> list_all (\<lambda>c. \<not> is_space c) w) (print_rule demo_name q)"

definition demo_rules :: "krule list \<Rightarrow> krule list" where "demo_rules = filter printable"

definition demo_line :: "krule \<Rightarrow> string" where
  "demo_line q = Itoa (kr_pref q) @ '':'' @ concat (map (\<lambda>w. CHR '' '' # w) (print_rule demo_name q))"

definition demo_listing :: "krule list \<Rightarrow> string" where
  "demo_listing rs = concat (map (\<lambda>q. demo_line q @ [CHR 10]) rs)"

fun demo_key :: "string list \<Rightarrow> (string \<times> kaction \<times> int) option" where
  "demo_key [k, m, a, t, p, n] = (if k = ''fwmark'' \<and> a = ''lookup'' \<and> p = ''pref''
     then (case Atoi t of None \<Rightarrow> None | Some t \<Rightarrow> map_option (\<lambda>n. (m, KLookup t, n)) (Atoi n)) else None)"
| "demo_key [k, m, a, p, n] = (if k = ''fwmark'' \<and> a = ''unreachable'' \<and> p = ''pref''
     then map_option (\<lambda>n. (m, KUnreachable, n)) (Atoi n) else None)"
| "demo_key _ = None"

fun demo_edit :: "string \<Rightarrow> string \<times> kaction \<times> int \<Rightarrow> krule list \<Rightarrow> (string + string) \<times> krule list" where
  "demo_edit verb x k =
     (if verb = ''add'' then (Inr '''', marked_rule x # k)
      else if verb = ''del'' then (case find (\<lambda>q. rule_key q = x) (demo_rules k) of
        None \<Rightarrow> (Inl ''No such file or directory'', k) | Some q \<Rightarrow> (Inr '''', remove1 q k))
      else (Inl ''unknown command'', k))"

definition of_table :: "string \<Rightarrow> krule \<Rightarrow> bool" where
  "of_table w q = (case kr_action q of KLookup t \<Rightarrow> Itoa t = w | _ \<Rightarrow> False)"

lemma of_table_number: "of_table (Itoa t) = (\<lambda>q. kr_action q = KLookup t)"
  by (auto simp: fun_eq_iff of_table_def Itoa_inj split: kaction.splits)

definition demo_run :: "krule list runner" where
  "demo_run cmd = State (\<lambda>k.
     case cmd of ip # rule # verb # args \<Rightarrow>
       if ip \<noteq> ''ip'' \<or> rule \<noteq> ''rule'' then (Inr '''', k)
       else if verb = ''show'' then
         (Inr (demo_listing (case args of [] \<Rightarrow> demo_rules k
            | _ \<Rightarrow> filter (of_table (last args)) (demo_rules k))), k)
       else (case demo_key args of None \<Rightarrow> (Inl ''bad arguments'', k) | Some x \<Rightarrow> demo_edit verb x k)
     | _ \<Rightarrow> (Inr '''', k))"

lemma fields_word: "list_all (\<lambda>c. \<not> is_space c) w \<Longrightarrow> fields_from v (w @ s) = fields_from (v @ w) s"
  by (induction w arbitrary: v) simp_all

lemma space_is_space [simp]: "is_space (CHR '' '')" by code_simp

lemma fields_words:
  "list_all (\<lambda>w. w \<noteq> '''' \<and> list_all (\<lambda>c. \<not> is_space c) w) ws \<Longrightarrow> v \<noteq> '''' \<Longrightarrow>
     fields_from v (concat (map (\<lambda>w. CHR '' '' # w) ws)) = v # ws"
  by (induction ws arbitrary: v) (simp_all add: fields_word)

lemma Fields_words:
  "list_all (\<lambda>w. w \<noteq> '''' \<and> list_all (\<lambda>c. \<not> is_space c) w) ws \<Longrightarrow> Fields (concat (map (\<lambda>w. CHR '' '' # w) ws)) = ws"
  by (cases ws) (simp_all add: Fields_def fields_word fields_words)

lemma Itoa_chars: "c \<in> set (Itoa i) \<Longrightarrow> is_digit c \<or> c = CHR ''-''"
  by (auto simp: Itoa_def dest: dec_digits_chars split: if_splits)

lemma Itoa_no: "CHR '':'' \<notin> set (Itoa i)" "c \<in> set (Itoa i) \<Longrightarrow> \<not> is_space c"
proof -
  have "\<not> is_digit (CHR '':'')" "\<not> is_space (CHR ''-'')" by code_simp+
  then show "CHR '':'' \<notin> set (Itoa i)" "c \<in> set (Itoa i) \<Longrightarrow> \<not> is_space c"
    using Itoa_chars [of "CHR '':''" i] Itoa_chars [of c i] digit_not by auto
qed

lemma Itoa_nonempty [simp]: "Itoa i \<noteq> []" by (simp add: Itoa_def)

lemma last_words:
  "list_all (\<lambda>w. w \<noteq> '''' \<and> list_all (\<lambda>c. \<not> is_space c) w) ws \<Longrightarrow> ws \<noteq> [] \<Longrightarrow>
     \<not> is_space (last (s @ concat (map (\<lambda>w. CHR '' '' # w) ws)))"
  by (cases ws rule: rev_cases) (auto simp: list_all_iff)

lemma demo_line_reads: "printable q \<Longrightarrow> rule_line (demo_line q) = Some (kr_pref q, print_rule demo_name q)"
proof -
  assume q: "printable q"
  let ?ws = "print_rule demo_name q"
  have ws: "list_all (\<lambda>w. w \<noteq> '''' \<and> list_all (\<lambda>c. \<not> is_space c) w) ?ws" and pref: "in_int64 (kr_pref q)"
    using q by (simp_all add: printable_def ordinary_def)
  have colon: "\<not> is_space (CHR '':'')" by code_simp
  have "\<not> is_space (hd (Itoa (kr_pref q)))" by (rule Itoa_no(2) [of _ "kr_pref q"]) simp
  then have "\<not> is_space (hd (demo_line q))" by (simp add: demo_line_def hd_append)
  moreover have "\<not> is_space (last (demo_line q))"
    using last_words [OF ws, of "Itoa (kr_pref q) @ '':''"] colon by (cases "?ws = []") (simp_all add: demo_line_def)
  ultimately have "TrimSpace (demo_line q) = demo_line q"
    by (intro TrimSpace_id) (simp_all add: demo_line_def)
  moreover have "Cut (demo_line q) (CHR '':'') = Some (Itoa (kr_pref q), concat (map (\<lambda>w. CHR '' '' # w) ?ws))"
    using Itoa_no(1) [of "kr_pref q"] by (auto simp: Cut_def demo_line_def takeWhile_append dropWhile_append)
  ultimately show ?thesis using Fields_words [OF ws] by (simp add: rule_line_def Atoi_Itoa [OF pref])
qed

lemma demo_line_nl: "printable q \<Longrightarrow> CHR 10 \<notin> set (demo_line q)"
proof -
  assume "printable q"
  then have "\<forall>w \<in> set (print_rule demo_name q). \<forall>c \<in> set w. \<not> is_space c" by (simp add: printable_def list_all_iff)
  moreover have "is_space (CHR 10)" by code_simp
  ultimately show ?thesis using Itoa_no(2) by (auto simp: demo_line_def)
qed

lemma demo_shows: "list_all printable rs \<Longrightarrow> shows_rules demo_name (demo_listing rs) rs"
proof -
  have "list_all printable rs \<Longrightarrow> split_on (CHR 10) (demo_listing rs) = map demo_line rs @ [[]]"
    by (induction rs) (simp_all add: demo_listing_def split_on_sep demo_line_nl)
  moreover have "rule_line [] = None" by code_simp
  moreover have "list_all printable rs \<Longrightarrow> List.map_filter rule_line (map demo_line rs) = map (\<lambda>q. (kr_pref q, print_rule demo_name q)) rs"
    by (induction rs) (simp_all add: List.map_filter_def demo_line_reads)
  ultimately show "list_all printable rs \<Longrightarrow> shows_rules demo_name (demo_listing rs) rs"
    by (simp add: shows_rules_def rule_lines_def List.map_filter_def)
qed

lemma demo_key_reads: "editable (m, a, n) \<Longrightarrow> demo_key ([''fwmark'', m] @ command_words a @ [''pref'', Itoa n]) = Some (m, a, n)"
  by (cases a) (simp_all add: Atoi_Itoa)

lemma demo_edits: "editable x \<Longrightarrow> verb \<noteq> ''show'' \<Longrightarrow> run_state (demo_run (edit_rule verb x)) k = demo_edit verb x k"
  using demo_key_reads by (cases x) (auto simp: demo_run_def rule_cmd_def)

lemma plain_words: "plain_mark m \<Longrightarrow> m \<notin> set rule_words \<and> list_all (\<lambda>c. \<not> is_space c) m \<and> m \<noteq> ''''"
proof -
  have "list_all (\<lambda>c. \<not> is_space c) ''0123456789abcdefx/-''" by code_simp
  then have "plain_mark m \<Longrightarrow> list_all (\<lambda>c. \<not> is_space c) m" unfolding plain_mark_def list_all_iff by blast
  moreover have "list_all (\<lambda>w. \<not> plain_mark w) rule_words" by code_simp
  then have "plain_mark m \<Longrightarrow> m \<notin> set rule_words" unfolding list_all_iff by blast
  moreover have "plain_mark m \<Longrightarrow> m \<noteq> ''''" by (simp add: plain_mark_def)
  ultimately show "plain_mark m \<Longrightarrow> ?thesis" by blast
qed

lemma demo_name_word: "demo_name t \<notin> set rule_words \<and> list_all (\<lambda>c. \<not> is_space c) (demo_name t) \<and> demo_name t \<noteq> ''''"
proof -
  have "list_all (\<lambda>w. list_ex (\<lambda>c. \<not> is_digit c \<and> c \<noteq> CHR ''-'') w) rule_words" by code_simp
  then have "Itoa t \<notin> set rule_words" using Itoa_chars by (fastforce simp: list_all_iff list_ex_iff)
  moreover have "list_all (\<lambda>c. \<not> is_space c) ''local''" "list_all (\<lambda>c. \<not> is_space c) ''main''"
    "list_all (\<lambda>w. w \<noteq> ''local'' \<and> w \<noteq> ''main'') rule_words" by code_simp+
  ultimately show ?thesis using Itoa_no(2) by (auto simp: demo_name_def list_all_iff)
qed

lemma printable_marked: "editable x \<Longrightarrow> printable (marked_rule x)"
proof (cases x)
  fix m a p assume x: "x = (m, a, p)" and ed: "editable x"
  have w: "list_all (\<lambda>w. w \<notin> set rule_words \<or> w = ''from'' \<or> w = ''fwmark'') [''all'', ''from'', ''fwmark'']"
    "list_all (\<lambda>w. w \<noteq> '''' \<and> list_all (\<lambda>c. \<not> is_space c) w) [''from'', ''all'', ''fwmark'', ''lookup'', ''unreachable'']"
    "''all'' \<notin> set rule_words"
    by code_simp+
  have m: "m \<notin> set rule_words \<and> list_all (\<lambda>c. \<not> is_space c) m \<and> m \<noteq> ''''" using ed x plain_words by simp
  show "printable (marked_rule x)"
  proof (cases a)
    case (KLookup t)
    then show ?thesis using x ed m w demo_name_word [of t] by (simp add: printable_def ordinary_def print_rule_def)
  qed (use x ed m w in \<open>simp_all add: printable_def ordinary_def print_rule_def\<close>)
qed

lemma demo_rule_host: "rule_host demo_run demo_name demo_rules"
proof -
  have shown: "list_all printable (demo_rules k)" for k by (simp add: demo_rules_def list_all_iff)
  have "lists_host demo_run demo_name demo_rules"
  proof -
    have "list_all printable (filter P (demo_rules k))" for P k using shown [of k] by (auto simp: list_all_iff)
    then show ?thesis using demo_shows shown by (simp add: lists_host_def demo_run_def of_table_number)
  qed
  moreover have "edits_host demo_run demo_rules"
  proof -
    have add: "demo_rules (marked_rule x # k) = marked_rule x # demo_rules k" if "editable x" for x k
      using printable_marked [OF that] by (simp add: demo_rules_def del: marked_rule.simps)
    have del: "mset (demo_rules (remove1 q k)) = mset (demo_rules k) - {#q#}" if "printable q" for q k
      using that by (simp add: demo_rules_def filter_remove1 mset_filter)
    show ?thesis
      unfolding edits_host_def
    proof (intro conjI allI impI)
      fix k x assume x: "editable x \<and> x \<notin> rule_key ` set (demo_rules k)"
      then have run: "run_state (demo_run (edit_rule ''add'' x)) k = (Inr '''', marked_rule x # k)"
        using demo_edits [of x "''add''"] by (cases x) simp
      show "isl (fst (run_state (demo_run (edit_rule ''add'' x)) k)) = False"
        and "mset (demo_rules (snd (run_state (demo_run (edit_rule ''add'' x)) k))) = add_mset (marked_rule x) (mset (demo_rules k))"
        unfolding run using add x by (simp_all del: marked_rule.simps)
    next
      fix k x assume x: "editable x"
      have run: "run_state (demo_run (edit_rule ''del'' x)) k = demo_edit ''del'' x k" by (rule demo_edits [OF x]) simp
      show "if x \<in> rule_key ` set (demo_rules k)
         then \<exists>q \<in> set (demo_rules k). rule_key q = x \<and>
           mset (demo_rules (snd (run_state (demo_run (edit_rule ''del'' x)) k))) = mset (demo_rules k) - {#q#}
         else mset (demo_rules (snd (run_state (demo_run (edit_rule ''del'' x)) k))) = mset (demo_rules k)"
      proof (cases "find (\<lambda>q. rule_key q = x) (demo_rules k)")
        case None
        then have "x \<notin> rule_key ` set (demo_rules k)" by (auto simp: find_None_iff)
        moreover have "snd (demo_edit ''del'' x k) = k" using None by (cases x) simp
        ultimately show ?thesis unfolding run by simp
      next
        case (Some q)
        then have q: "q \<in> set (demo_rules k)" "rule_key q = x" by (auto simp: find_Some_iff)
        then have "printable q" by (simp add: demo_rules_def)
        moreover have "snd (demo_edit ''del'' x k) = remove1 q k" using Some by (cases x) simp
        ultimately show ?thesis using q del unfolding run by auto
      qed
    qed
  qed
  moreover have "ordinary demo_name q" if "q \<in> set (demo_rules k)" for q k
    using that by (simp add: demo_rules_def printable_def)
  moreover have "demo_rules (snd (run_state (demo_run cmd) k)) = demo_rules k" if "take 2 cmd \<noteq> [''ip'', ''rule'']" for cmd k
    using that by (auto simp: demo_run_def split: list.splits)
  ultimately show ?thesis unfolding rule_host_def by blast
qed


text \<open>
  A host with rules of its own, one lookup of the first path at an old priority, and refusals that earlier versions or
  marks left in the band; the paths are the shipped ones.
\<close>

definition demo_k :: "krule list" where
  "demo_k =
     [\<lparr>kr_pref = 0, kr_sel = [(''from'', ''all'')], kr_action = KLookup 255\<rparr>,
      \<lparr>kr_pref = 100, kr_sel = [(''from'', ''all''), (''fwmark'', ''0x101'')], kr_action = KLookup 9\<rparr>,
      \<lparr>kr_pref = 32000, kr_sel = [(''from'', ''all''), (''fwmark'', ''0x101'')], kr_action = KLookup 101\<rparr>,
      \<lparr>kr_pref = 31005, kr_sel = [(''from'', ''all''), (''fwmark'', ''0x102'')], kr_action = KUnreachable\<rparr>,
      \<lparr>kr_pref = 31007, kr_sel = [(''from'', ''all''), (''fwmark'', ''0x77'')], kr_action = KUnreachable\<rparr>,
      \<lparr>kr_pref = 40000, kr_sel = [(''from'', ''all''), (''fwmark'', ''0x77'')], kr_action = KUnreachable\<rparr>,
      \<lparr>kr_pref = 32766, kr_sel = [(''from'', ''all'')], kr_action = KLookup 254\<rparr>]"

definition demo_after :: "krule list" where
  "demo_after = snd (run_state (EnsureProbeRoutes demo_run (\<lambda>i. i = ''wg-main'') default_paths ''10.99.0.2'' ''10.99.0.1'') demo_k)"

lemma demo_hyps: "rule_host demo_run demo_name demo_rules" "list_all banded default_paths" "distinct (map p_Mark default_paths)"
  "list_all (\<lambda>p. in_int64 (p_Table p)) default_paths"
proof -
  show "list_all banded default_paths" "distinct (map p_Mark default_paths)"
    "list_all (\<lambda>p. in_int64 (p_Table p)) default_paths" by code_simp+
qed (rule demo_rule_host)

lemma demo_own: "demo_rules demo_k = demo_k"
  by code_simp

theorem probe_rules_converge_witness:
  "set_mset (keys_of demo_rules (\<lambda>x. \<not> foreign default_paths x) demo_after) = (\<Union>p \<in> set default_paths. path_keys p) \<and>
   picked demo_rules (foreign default_paths) demo_after = picked demo_rules (foreign default_paths) demo_k"
  unfolding demo_after_def by (rule probe_rules_converge [OF demo_hyps(1-3)])

theorem probe_rules_revert_witness:
  "mset (demo_rules (snd (run_state (RemoveProbeRoutes demo_run default_paths ''10.99.0.2/32'' ''10.99.0.2/32'') demo_k))) =
     {#\<lparr>kr_pref = 0, kr_sel = [(''from'', ''all'')], kr_action = KLookup 255\<rparr>,
       \<lparr>kr_pref = 100, kr_sel = [(''from'', ''all''), (''fwmark'', ''0x101'')], kr_action = KLookup 9\<rparr>,
       \<lparr>kr_pref = 40000, kr_sel = [(''from'', ''all''), (''fwmark'', ''0x77'')], kr_action = KUnreachable\<rparr>,
       \<lparr>kr_pref = 32766, kr_sel = [(''from'', ''all'')], kr_action = KLookup 254\<rparr>#}"
proof -
  let ?stays = "\<lambda>q. \<not> (\<exists>p \<in> set default_paths. rule_mark q = mark_text (p_Mark p) \<and> kr_action q = KLookup (p_Table p)) \<and>
      \<not> (kr_action q = KUnreachable \<and> rule_mark q \<noteq> '''' \<and> inProbeDenyBand (kr_pref q))"
  have "filter ?stays demo_k =
     [\<lparr>kr_pref = 0, kr_sel = [(''from'', ''all'')], kr_action = KLookup 255\<rparr>,
      \<lparr>kr_pref = 100, kr_sel = [(''from'', ''all''), (''fwmark'', ''0x101'')], kr_action = KLookup 9\<rparr>,
      \<lparr>kr_pref = 40000, kr_sel = [(''from'', ''all''), (''fwmark'', ''0x77'')], kr_action = KUnreachable\<rparr>,
      \<lparr>kr_pref = 32766, kr_sel = [(''from'', ''all'')], kr_action = KLookup 254\<rparr>]" by code_simp
  then have "filter_mset ?stays (mset demo_k) = mset
     [\<lparr>kr_pref = 0, kr_sel = [(''from'', ''all'')], kr_action = KLookup 255\<rparr>,
      \<lparr>kr_pref = 100, kr_sel = [(''from'', ''all''), (''fwmark'', ''0x101'')], kr_action = KLookup 9\<rparr>,
      \<lparr>kr_pref = 40000, kr_sel = [(''from'', ''all''), (''fwmark'', ''0x77'')], kr_action = KUnreachable\<rparr>,
      \<lparr>kr_pref = 32766, kr_sel = [(''from'', ''all'')], kr_action = KLookup 254\<rparr>]" by (metis mset_filter)
  then show ?thesis
    using probe_rules_revert [OF demo_hyps(1,4), of "''10.99.0.2/32''" "''10.99.0.2/32''" demo_k]
    unfolding demo_own by simp
qed

end
