(* ===== verification/Rulesets.thy ===== *)
theory Rulesets
  imports Routes Blocklist
begin

text \<open>
  The nftables side of \<open>sysx/nft.go\<close>: the text of the four generated tables (published services, source
  NAT, the backend's egress and return marking), loading and removing them, and the exceptions that go into a chain
  the agents do not own.
\<close>

section \<open>Names and sets\<close>

definition NFTTable :: string where "NFTTable = ''failover''"
definition NFTReturnTable :: string where "NFTReturnTable = ''failover_return''"
definition NFTEgressTable :: string where "NFTEgressTable = ''failover_egress''"
definition connectionlessMatch :: string where "connectionlessMatch = ''@th,64,32 0xffffffff''"

definition uniqueIfaces :: "string list \<Rightarrow> string list" where
  "uniqueIfaces ifaces = unique_from [] ifaces"

definition pathIfaces :: "Config \<Rightarrow> string list" where
  "pathIfaces cfg = uniqueIfaces (map p_Iface (c_Paths cfg))"

definition ifaceSet :: "string list \<Rightarrow> string" where
  "ifaceSet ifaces = ''{ '' @ join_with '', '' (map (\<lambda>i. quoted (nftSafe i)) (uniqueIfaces ifaces)) @ '' }''"

definition internetOnly :: string where
  "internetOnly = ''ip daddr != { '' @ join_with '', '' nonInternetDestinations @ '' }''"

text \<open>The three lines every table begins with, after its comment: created if missing, deleted, and written anew.\<close>

definition table_head :: "string \<Rightarrow> string list" where
  "table_head name = [''table ip '' @ name, ''delete table ip '' @ name, '''', ''table ip '' @ name @ '' {'']"

definition writeMSSClamp :: "string list \<Rightarrow> string list" where
  "writeMSSClamp ifaces =
     (if length ifaces = 0 then []
      else [tab @ ''chain forward {'', tab @ tab @ ''type filter hook forward priority mangle; policy accept;'',
            tab @ tab @ ''oifname '' @ ifaceSet ifaces @ '' tcp flags syn tcp option maxseg size set rt mtu'', tab @ ''}''])"

section \<open>The published services\<close>

definition serviceScope :: "Config \<Rightarrow> string" where
  "serviceScope cfg =
     (if fe_PublicIface (c_Frontend cfg) \<noteq> '''' then ''iifname '' @ quoted (nftSafe (fe_PublicIface (c_Frontend cfg))) @ '' '' else '''') @
     (if fe_PublicIP (c_Frontend cfg) \<noteq> '''' then ''ip daddr '' @ fe_PublicIP (c_Frontend cfg) @ '' '' else '''')"

definition cache_rule :: "Config \<Rightarrow> QueryCacheSpan \<Rightarrow> string \<times> string \<Rightarrow> string" where
  "cache_rule cfg sp t =
     (let port = (if qs_To sp > qs_From sp then Itoa (qs_From sp) @ ''-'' @ Itoa (qs_To sp) else Itoa (qs_From sp))
      in tab @ tab @ serviceScope cfg @ ''udp dport '' @ port @ '' '' @ connectionlessMatch @ '' @th,96,8 0x'' @ fst t @
         '' redirect comment '' @ quoted (nftSafe (''qcache '' @ snd t @ '': '' @ qs_Service sp)))"

definition service_rule :: "Config \<Rightarrow> Service \<Rightarrow> string list" where
  "service_rule cfg s =
     (let proto = ToLower (sv_Proto s);
          port = (if sv_PortEnd s > sv_Port s then Itoa (sv_Port s) @ ''-'' @ Itoa (sv_PortEnd s) else Itoa (sv_Port s))
      in if \<not> sv_Enabled s \<or> (proto \<noteq> ''tcp'' \<and> proto \<noteq> ''udp'') then []
         else [tab @ tab @ serviceScope cfg @ proto @ '' dport '' @ port @ '' dnat to '' @
               TargetOr s (ov_BackendIP (c_Overlay cfg)) @ '' comment '' @ quoted (nftSafe (sv_Name s))])"

definition service_rules :: "Config \<Rightarrow> string list" where
  "service_rules cfg =
     concat (map (\<lambda>sp. map (cache_rule cfg sp) [(''54'', ''info''), (''55'', ''players''), (''56'', ''rules'')]) (QueryCachePorts cfg)) @
     concat (map (service_rule cfg) (c_Services cfg))"

definition BuildRuleset :: "Config \<Rightarrow> string" where
  "BuildRuleset cfg = lines_of (
     [''# generated by failover-frontend - do not edit by hand'',
      ''# destination NAT only; source addresses are never rewritten,'',
      ''# so srcds and the web server see real client IPs.'', ''''] @
     table_head NFTTable @
     [tab @ ''chain prerouting {'', tab @ tab @ ''type nat hook prerouting priority dstnat; policy accept;''] @
     service_rules cfg @ [tab @ ''}''] @ writeMSSClamp (pathIfaces cfg) @ [''}''])"

section \<open>Source NAT and marking\<close>

definition BuildEgressRuleset :: "Config \<Rightarrow> string" where
  "BuildEgressRuleset cfg =
     (let fe = c_Frontend cfg; ov = c_Overlay cfg
      in if \<not> fe_BackendEgress fe \<or> ov_BackendIP ov = '''' \<or> fe_PublicIface fe = '''' then ''''
         else lines_of (
           [''# generated by failover-frontend - do not edit by hand'',
            ''# gives traffic the backend originates the frontend's public'',
            ''# address, so a game server is listed at the published address'',
            ''# rather than at the house's own internet service.'', ''''] @
           table_head NFTEgressTable @
           [tab @ ''chain postrouting {'', tab @ tab @ ''type nat hook postrouting priority srcnat; policy accept;'',
            tab @ tab @ ''ip saddr '' @ MatchPrefix ov @ '' oifname '' @ quoted (nftSafe (fe_PublicIface fe)) @ '' '' @
              (if fe_PublicIP fe \<noteq> '''' then ''snat to '' @ fe_PublicIP fe else ''masquerade''),
            tab @ ''}'', ''}'']))"

definition BuildBackendEgressRuleset :: "string list \<Rightarrow> string list \<Rightarrow> string \<Rightarrow> string" where
  "BuildBackendEgressRuleset cidrs ifaces overlayIP =
     (let cidrs = EgressNetworks cidrs; overlayIP = AddressLiteral overlayIP
      in if length cidrs = 0 \<or> length ifaces = 0 \<or> overlayIP = '''' then ''''
         else lines_of (
           [''# generated by failover-backend - do not edit by hand'',
            ''# pulls these networks onto the tunnel so their traffic leaves'',
            ''# by the frontend's public address rather than the house's.'', ''''] @
           table_head NFTEgressTable @
           [tab @ ''chain prerouting {'', tab @ tab @ ''type filter hook prerouting priority mangle; policy accept;''] @
           map (\<lambda>c. tab @ tab @ ''ip saddr '' @ c @ '' '' @ internetOnly @ '' meta mark set '' @ mark_text EgressMark) cidrs @
           [tab @ ''}'', tab @ ''chain postrouting {'', tab @ tab @ ''type nat hook postrouting priority -10; policy accept;''] @
           map (\<lambda>c. tab @ tab @ ''ip saddr '' @ c @ '' oifname '' @ ifaceSet ifaces @ '' snat to '' @ overlayIP) cidrs @
           [tab @ ''}'', ''}'']))"

definition BuildReturnRuleset :: "string list \<Rightarrow> string" where
  "BuildReturnRuleset ifaces = lines_of (
     [''# generated by failover-backend - do not edit by hand'',
      ''# marks connections arriving from a tunnel so their replies'',
      ''# route back out one, even after a container DNAT has rewritten'',
      ''# their source address.'', ''''] @
     table_head NFTReturnTable @
     [tab @ ''chain prerouting {'', tab @ tab @ ''type filter hook prerouting priority mangle; policy accept;''] @
     (if length ifaces > 0
      then [tab @ tab @ ''iifname '' @ ifaceSet ifaces @ '' ct direction original ct mark set '' @ mark_text ReturnMark] else []) @
     [tab @ tab @ ''ct direction reply meta mark set ct mark'', tab @ ''}''] @ writeMSSClamp ifaces @ [''}''])"

section \<open>Loading and removing tables\<close>

text \<open>\<open>write\<close> makes the directory and writes the file; the directory is given clean, without a slash at its end.\<close>

type_synonym 'k writer = "string \<Rightarrow> string \<Rightarrow> ('k, string + unit) state"

definition applyRuleset :: "'k runner \<Rightarrow> 'k writer \<Rightarrow> string \<Rightarrow> string \<Rightarrow> ('k, string + unit) state" where
  "applyRuleset r write path ruleset = do {
     written \<leftarrow> write path ruleset;
     case written of Inl e \<Rightarrow> State_Monad.return (Inl e)
     | Inr _ \<Rightarrow> do {
         loaded \<leftarrow> r [''nft'', ''-f'', path];
         State_Monad.return (case loaded of Inl e \<Rightarrow> Inl (''load ruleset: '' @ e) | Inr _ \<Rightarrow> Inr ()) } }"

definition ApplyRuleset :: "'k runner \<Rightarrow> 'k writer \<Rightarrow> string \<Rightarrow> string \<Rightarrow> ('k, string + unit) state" where
  "ApplyRuleset r write stateDir ruleset = applyRuleset r write (stateDir @ ''/ruleset.nft'') ruleset"

definition ApplyReturnRuleset :: "'k runner \<Rightarrow> 'k writer \<Rightarrow> string \<Rightarrow> string \<Rightarrow> ('k, string + unit) state" where
  "ApplyReturnRuleset r write stateDir ruleset = applyRuleset r write (stateDir @ ''/return.nft'') ruleset"

definition ApplyEgressRuleset :: "'k runner \<Rightarrow> 'k writer \<Rightarrow> string \<Rightarrow> string \<Rightarrow> ('k, string + unit) state" where
  "ApplyEgressRuleset r write stateDir ruleset = applyRuleset r write (stateDir @ ''/egress.nft'') ruleset"

definition delete_table :: "string \<Rightarrow> command" where
  "delete_table name = [''nft'', ''delete'', ''table'', ''ip'', name]"

definition RemoveRuleset :: "'k runner \<Rightarrow> ('k, unit) state" where "RemoveRuleset r = run_all r [delete_table NFTTable]"
definition RemoveReturnRuleset :: "'k runner \<Rightarrow> ('k, unit) state" where
  "RemoveReturnRuleset r = run_all r [delete_table NFTReturnTable]"
definition RemoveEgressRuleset :: "'k runner \<Rightarrow> ('k, unit) state" where
  "RemoveEgressRuleset r = run_all r [delete_table NFTEgressTable]"

section \<open>Exceptions in a chain of somebody else\<close>

definition forwardComment :: string where "forwardComment = ''failover''"
definition overlayForwardComment :: string where "overlayForwardComment = ''failover_overlay''"
definition egressForwardComment :: string where "egressForwardComment = ''failover_egress''"
definition DockerUserChain :: string where "DockerUserChain = ''DOCKER-USER''"

definition commentNeedle :: "string \<Rightarrow> string" where "commentNeedle comment = ''comment '' @ quoted comment"

definition hasForwardRule :: "string \<Rightarrow> string \<Rightarrow> string list \<Rightarrow> bool" where
  "hasForwardRule listing comment rule \<longleftrightarrow>
     list_ex (\<lambda>line. sublist (commentNeedle comment) line \<and> sublist (join_with '' '' rule) line) (split_on (CHR 10) listing)"

text \<open>The text behind the last \<open># handle\<close> of a line.\<close>

fun after_last :: "string \<Rightarrow> string \<Rightarrow> string option" where
  "after_last needle [] = (if needle = [] then Some [] else None)"
| "after_last needle (c # cs) =
     (case after_last needle cs of Some rest \<Rightarrow> Some rest
      | None \<Rightarrow> if prefix needle (c # cs) then Some (drop (length needle) (c # cs)) else None)"

definition rule_handle :: "string \<Rightarrow> string option" where
  "rule_handle line = map_option TrimSpace (after_last ''# handle '' line)"

definition delete_handle :: "string \<Rightarrow> command" where
  "delete_handle h = [''nft'', ''delete'', ''rule'', ''ip'', ''filter'', DockerUserChain, ''handle'', h]"

definition stale_rules :: "string \<Rightarrow> string \<Rightarrow> string \<Rightarrow> string \<Rightarrow> command list" where
  "stale_rules listing comment field want =
     map delete_handle (List.map_filter rule_handle
       (filter (\<lambda>line. sublist (commentNeedle comment) line \<and> sublist ('' '' @ field @ '' '') line \<and>
          \<not> sublist ('' '' @ field @ '' '' @ want @ '' '') line) (split_on (CHR 10) listing)))"

definition dropStaleForwardRules :: "'k runner \<Rightarrow> string \<Rightarrow> string \<Rightarrow> string \<Rightarrow> string \<Rightarrow> ('k, unit) state" where
  "dropStaleForwardRules r listing comment field want = run_all r (stale_rules listing comment field want)"

definition list_chain :: command where
  "list_chain = [''nft'', ''-a'', ''list'', ''chain'', ''ip'', ''filter'', DockerUserChain]"

text \<open>The rules of one exception that the chain does not list yet, in turn.\<close>

fun insert_rules :: "'k runner \<Rightarrow> string \<Rightarrow> string \<Rightarrow> string \<Rightarrow> string list list \<Rightarrow> ('k, string + unit) state" where
  "insert_rules r existing comment what [] = State_Monad.return (Inr ())"
| "insert_rules r existing comment what (rule # rules) =
     (if hasForwardRule existing comment rule then insert_rules r existing comment what rules
      else do {
        res \<leftarrow> r ([''nft'', ''insert'', ''rule'', ''ip'', ''filter'', DockerUserChain] @ rule @ [''comment'', quoted comment]);
        case res of Inl e \<Rightarrow> State_Monad.return (Inl (''insert '' @ what @ '': '' @ e))
        | Inr _ \<Rightarrow> insert_rules r existing comment what rules })"

definition EnsureForwardExceptions :: "'k runner \<Rightarrow> string \<Rightarrow> ('k, string + unit) state" where
  "EnsureForwardExceptions r dataPrefix = do {
     listed \<leftarrow> r list_chain;
     case listed of Inl _ \<Rightarrow> State_Monad.return (Inr ())
     | Inr existing \<Rightarrow> do {
         _ \<leftarrow> dropStaleForwardRules r existing forwardComment ''daddr'' dataPrefix;
         insert_rules r existing forwardComment ''forward exception''
           [[''ip'', ''daddr'', dataPrefix, ''accept''], [''ct'', ''state'', ''established,related'', ''accept'']] } }"

definition EnsureOverlayForwardExceptions :: "'k runner \<Rightarrow> string \<Rightarrow> ('k, string + unit) state" where
  "EnsureOverlayForwardExceptions r overlayPrefix =
     (if overlayPrefix = '''' then State_Monad.return (Inr ())
      else let pre = NetworkLiteral overlayPrefix
      in if pre = '''' then State_Monad.return (Inl (''overlay subnet '' @ quoted overlayPrefix @ '' is not an IPv4 network''))
         else do {
           listed \<leftarrow> r list_chain;
           case listed of Inl _ \<Rightarrow> State_Monad.return (Inr ())
           | Inr existing \<Rightarrow> do {
               _ \<leftarrow> dropStaleForwardRules r existing overlayForwardComment ''daddr'' pre;
               _ \<leftarrow> dropStaleForwardRules r existing overlayForwardComment ''saddr'' pre;
               insert_rules r existing overlayForwardComment ''overlay forward exception''
                 [[''ip'', ''daddr'', pre, ''accept''], [''ip'', ''saddr'', pre, ''accept'']] } })"

definition EnsureEgressForwardException :: "'k runner \<Rightarrow> string \<Rightarrow> ('k, string + unit) state" where
  "EnsureEgressForwardException r dataPrefix = do {
     listed \<leftarrow> r list_chain;
     case listed of Inl _ \<Rightarrow> State_Monad.return (Inr ())
     | Inr existing \<Rightarrow> do {
         _ \<leftarrow> dropStaleForwardRules r existing egressForwardComment ''saddr'' dataPrefix;
         insert_rules r existing egressForwardComment ''egress forward exception'' [[''ip'', ''saddr'', dataPrefix, ''accept'']] } }"

definition removeCommentedForwardRules :: "'k runner \<Rightarrow> string \<Rightarrow> ('k, unit) state" where
  "removeCommentedForwardRules r comment = do {
     listed \<leftarrow> r list_chain;
     run_all r (case listed of Inl _ \<Rightarrow> []
       | Inr out \<Rightarrow> map delete_handle (List.map_filter rule_handle
           (filter (sublist (commentNeedle comment)) (split_on (CHR 10) out)))) }"

definition RemoveForwardExceptions :: "'k runner \<Rightarrow> ('k, unit) state" where
  "RemoveForwardExceptions r = removeCommentedForwardRules r forwardComment"
definition RemoveOverlayForwardExceptions :: "'k runner \<Rightarrow> ('k, unit) state" where
  "RemoveOverlayForwardExceptions r = removeCommentedForwardRules r overlayForwardComment"
definition RemoveEgressForwardException :: "'k runner \<Rightarrow> ('k, unit) state" where
  "RemoveEgressForwardException r = removeCommentedForwardRules r egressForwardComment"

definition ForwardIsBlocked :: "'k runner \<Rightarrow> ('k, bool) state" where
  "ForwardIsBlocked r = do {
     listed \<leftarrow> r [''nft'', ''list'', ''ruleset''];
     State_Monad.return (case listed of Inl _ \<Rightarrow> False
       | Inr out \<Rightarrow> list_ex (\<lambda>line. sublist ''hook forward'' line \<and> sublist ''policy drop'' line) (split_on (CHR 10) out)) }"

definition TableMissing :: "string option \<Rightarrow> bool" where
  "TableMissing err = (case err of None \<Rightarrow> False | Some e \<Rightarrow> sublist ''No such file or directory'' e)"

end
