(* ===== verification/LinkerRoutes.thy ===== *)
theory LinkerRoutes
  imports Rulesets
begin

text \<open>
  Routing on a linker and towards one (\<open>sysx/linker.go\<close>): the pinned rules with the test of what on the host is this
  system's, the relief of a table the configuration stopped naming, the marking and source NAT tables, and the
  host routes the backend keeps.
\<close>

definition LinkerTable :: int where "LinkerTable = 200"
definition LinkerRulePrefBase :: int where "LinkerRulePrefBase = 32400"
definition LinkerEgressDenyRulePref :: int where "LinkerEgressDenyRulePref = LinkerRulePrefBase + 3"
definition NFTLinkerReturnTable :: string where "NFTLinkerReturnTable = ''failover_linker_return''"
definition NFTLinkerEgressTable :: string where "NFTLinkerEgressTable = ''failover_linker_egress''"

section \<open>Reading listings\<close>

text \<open>A rule found by its selector, with its table as the listing printed it.\<close>

record sourceRule =
  sr_pref :: int
  sr_table :: string

definition selectorRules :: "string \<Rightarrow> string \<Rightarrow> string \<Rightarrow> sourceRule list" where
  "selectorRules rules key value =
     List.map_filter (\<lambda>(n, fs). let table = word_of ''lookup'' fs
        in if has_word key value fs \<and> table \<noteq> '''' then Some \<lparr>sr_pref = n, sr_table = table\<rparr> else None) (rule_lines rules)"

definition tableTokens :: "string \<Rightarrow> string list" where
  "tableTokens listing =
     concat (map (\<lambda>line. map snd (filter (\<lambda>(k, _). k = ''lookup'') (pairs (Fields line)))) (split_on (CHR 10) listing))"

definition gatewayFrom :: "string \<Rightarrow> string" where "gatewayFrom out = first_value ''via'' out"

section \<open>Pinned rules and their strays\<close>

definition cleanAbandonedTable :: "'k runner \<Rightarrow> string \<Rightarrow> string \<Rightarrow> ('k, bool) state" where
  "cleanAbandonedTable r backendLAN table =
     (if backendLAN = '''' then State_Monad.return True
      else do {
        out \<leftarrow> showRoutes r [''default'', ''table'', table];
        case out of Inl _ \<Rightarrow> State_Monad.return False
        | Inr s \<Rightarrow>
            if gatewayFrom s \<noteq> backendLAN then State_Monad.return True
            else do {
              res \<leftarrow> r [''ip'', ''route'', ''del'', ''default'', ''via'', backendLAN, ''table'', table];
              State_Monad.return (case res of Inl _ \<Rightarrow> False | Inr _ \<Rightarrow> True) } })"

definition delete_rule :: "string \<Rightarrow> string \<Rightarrow> sourceRule \<Rightarrow> command" where
  "delete_rule key value rule = rule_cmd key value [''lookup'', sr_table rule] ''del'' (sr_pref rule)"

text \<open>One stray: in another table it goes only after that table has been relieved of this system's route.\<close>

definition clear_stray :: "'k runner \<Rightarrow> string list \<Rightarrow> string \<Rightarrow> string \<Rightarrow> string \<Rightarrow> sourceRule \<Rightarrow> ('k, unit) state" where
  "clear_stray r mine key value backendLAN rule = do {
     clean \<leftarrow> (if sr_table rule \<in> set mine then State_Monad.return True else cleanAbandonedTable r backendLAN (sr_table rule));
     run_all r (if clean then [delete_rule key value rule] else []) }"

definition own_rule :: "string list \<Rightarrow> int \<Rightarrow> bool \<Rightarrow> sourceRule \<Rightarrow> bool" where
  "own_rule mine want ownAnyTable rule \<longleftrightarrow> ownAnyTable \<or> sr_table rule \<in> set mine \<or> sr_pref rule = want"

definition correct_rule :: "string list \<Rightarrow> int \<Rightarrow> sourceRule \<Rightarrow> bool" where
  "correct_rule mine want rule \<longleftrightarrow> sr_pref rule = want \<and> sr_table rule \<in> set mine"

definition ensurePinnedRule ::
    "'k runner \<Rightarrow> int \<Rightarrow> string \<Rightarrow> string \<Rightarrow> int \<Rightarrow> bool \<Rightarrow> string \<Rightarrow> ('k, string + unit) state" where
  "ensurePinnedRule r tbl key value want ownAnyTable backendLAN = do {
     mine \<leftarrow> listRulesInTable r tbl;
     case mine of Inl e \<Rightarrow> State_Monad.return (Inl e)
     | Inr mine \<Rightarrow> do {
         listed \<leftarrow> listRules r;
         case listed of Inl e \<Rightarrow> State_Monad.return (Inl e)
         | Inr all \<Rightarrow> do {
             let table = Itoa tbl;
             let tokens = table # tableTokens mine;
             let found = selectorRules all key value;
             let strays = filter (\<lambda>rule. \<not> correct_rule tokens want rule \<and> own_rule tokens want ownAnyTable rule) found;
             added \<leftarrow> (if list_ex (correct_rule tokens want) found then State_Monad.return (Inr '''')
                      else r (rule_cmd key value [''lookup'', table] ''add'' want));
             case added of Inl e \<Rightarrow> State_Monad.return (Inl e)
             | Inr _ \<Rightarrow> do {
                 _ \<leftarrow> for_each (clear_stray r tokens key value backendLAN) strays;
                 State_Monad.return (Inr ()) } } } }"

definition removePinnedRule ::
    "'k runner \<Rightarrow> int \<Rightarrow> string \<Rightarrow> string \<Rightarrow> int \<Rightarrow> bool \<Rightarrow> string \<Rightarrow> ('k, unit) state" where
  "removePinnedRule r tbl key value want ownAnyTable backendLAN = do {
     mine \<leftarrow> listRulesInTable r tbl;
     let table = Itoa tbl;
     let tokens = table # (case mine of Inl _ \<Rightarrow> [] | Inr s \<Rightarrow> tableTokens s);
     listed \<leftarrow> listRules r;
     let found = (case listed of Inl _ \<Rightarrow> [] | Inr all \<Rightarrow> filter (own_rule tokens want ownAnyTable) (selectorRules all key value));
     _ \<leftarrow> for_each (clear_stray r tokens key value backendLAN) found;
     run_all r (if length found = 0 then [[''ip'', ''rule'', ''del'', key, value, ''lookup'', table]] else []) }"

section \<open>The rules and the route of a linker\<close>

definition EnsureLinkerRule :: "'k runner \<Rightarrow> string \<Rightarrow> string \<Rightarrow> int \<Rightarrow> ('k, string + unit) state" where
  "EnsureLinkerRule r overlayIP backendLAN tbl =
     (if overlayIP = '''' then State_Monad.return (Inl ''no overlay address configured'')
      else ensurePinnedRule r tbl ''from'' overlayIP LinkerRulePrefBase True backendLAN)"

definition EnsureLinkerRoute :: "'k runner \<Rightarrow> string \<Rightarrow> int \<Rightarrow> ('k, string + unit) state" where
  "EnsureLinkerRoute r backendLAN tbl =
     (if backendLAN = '''' then State_Monad.return (Inl ''no backend LAN address configured'')
      else run_one r [''ip'', ''route'', ''replace'', ''default'', ''via'', backendLAN, ''table'', Itoa tbl])"

definition LinkerRouteVia :: "'k runner \<Rightarrow> int \<Rightarrow> ('k, string + string) state" where
  "LinkerRouteVia r tbl = do {
     out \<leftarrow> showRoutes r [''default'', ''table'', Itoa tbl];
     State_Monad.return (map_sum id gatewayFrom out) }"

definition RemoveLinkerRouting :: "'k runner \<Rightarrow> string \<Rightarrow> string \<Rightarrow> int \<Rightarrow> ('k, unit) state" where
  "RemoveLinkerRouting r overlayIP backendLAN tbl = do {
     _ \<leftarrow> removePinnedRule r tbl ''from'' overlayIP LinkerRulePrefBase True backendLAN;
     run_all r [if backendLAN \<noteq> '''' then [''ip'', ''route'', ''del'', ''default'', ''via'', backendLAN, ''table'', Itoa tbl]
                else [''ip'', ''route'', ''del'', ''default'', ''table'', Itoa tbl]] }"

definition RPFilterOn :: "'k runner \<Rightarrow> ('k, string + bool) state" where
  "RPFilterOn r = do {
     out \<leftarrow> r [''sysctl'', ''-n'', ''net.ipv4.conf.all.rp_filter''];
     State_Monad.return (map_sum id (\<lambda>v. TrimSpace v \<noteq> ''0'') out) }"

section \<open>Reaching a linker from the backend\<close>

definition EnsureLinkerHostRoute :: "'k runner \<Rightarrow> string \<Rightarrow> string \<Rightarrow> ('k, string + unit) state" where
  "EnsureLinkerHostRoute r overlayIP viaIP =
     (if overlayIP = '''' \<or> viaIP = '''' then State_Monad.return (Inl ''linker route needs both an overlay address and a next hop'')
      else run_one r [''ip'', ''route'', ''replace'', overlayIP @ ''/32'', ''via'', viaIP])"

definition LinkerHostRouteVia :: "'k runner \<Rightarrow> string \<Rightarrow> ('k, string + string) state" where
  "LinkerHostRouteVia r overlayIP = do {
     out \<leftarrow> r [''ip'', ''route'', ''show'', overlayIP @ ''/32''];
     State_Monad.return (map_sum id gatewayFrom out) }"

definition RemoveLinkerHostRoute :: "'k runner \<Rightarrow> string \<Rightarrow> ('k, unit) state" where
  "RemoveLinkerHostRoute r overlayIP =
     run_all r (if overlayIP = '''' then [] else [[''ip'', ''route'', ''del'', overlayIP @ ''/32'']])"

section \<open>Containers on a linker\<close>

definition BuildLinkerReturnRuleset :: "string \<Rightarrow> string" where
  "BuildLinkerReturnRuleset overlayIP =
     (let overlayIP = AddressLiteral overlayIP
      in if overlayIP = '''' then ''''
         else lines_of (
           [''# generated by failover-linker - do not edit by hand'',
            ''# marks connections arriving for this host's overlay address'',
            ''# so their replies route back to the backend, even after a'',
            ''# container DNAT has rewritten their source address.'', ''''] @
           table_head NFTLinkerReturnTable @
           [tab @ ''chain prerouting {'', tab @ tab @ ''type filter hook prerouting priority mangle; policy accept;'',
            tab @ tab @ ''ip daddr '' @ overlayIP @ '' ct direction original ct mark set '' @ mark_text LinkerReturnMark,
            tab @ tab @ ''ct direction reply meta mark set ct mark'', tab @ ''}'', ''}'']))"

definition ApplyLinkerReturnRuleset :: "'k runner \<Rightarrow> 'k writer \<Rightarrow> string \<Rightarrow> string \<Rightarrow> ('k, string + unit) state" where
  "ApplyLinkerReturnRuleset r write stateDir ruleset = applyRuleset r write (stateDir @ ''/linker-return.nft'') ruleset"

definition EnsureLinkerMarkRule :: "'k runner \<Rightarrow> string \<Rightarrow> int \<Rightarrow> ('k, string + unit) state" where
  "EnsureLinkerMarkRule r backendLAN tbl =
     ensurePinnedRule r tbl ''fwmark'' (mark_text LinkerReturnMark) (LinkerRulePrefBase + 1) False backendLAN"

definition RemoveLinkerReturnRuleset :: "'k runner \<Rightarrow> string \<Rightarrow> int \<Rightarrow> ('k, unit) state" where
  "RemoveLinkerReturnRuleset r backendLAN tbl = do {
     _ \<leftarrow> removePinnedRule r tbl ''fwmark'' (mark_text LinkerReturnMark) (LinkerRulePrefBase + 1) False backendLAN;
     run_all r [delete_table NFTLinkerReturnTable] }"

text \<open>The rules of one network: for the overlay, where there is one, and for the internet.\<close>

definition egress_lines :: "string \<Rightarrow> string \<Rightarrow> string \<Rightarrow> string list" where
  "egress_lines c overlaySubnet act =
     (if overlaySubnet \<noteq> '''' then [tab @ tab @ ''ip saddr '' @ c @ '' ip daddr '' @ overlaySubnet @ '' '' @ act] else []) @
     [tab @ tab @ ''ip saddr '' @ c @ '' '' @ internetOnly @ '' '' @ act]"

definition BuildLinkerEgressRuleset :: "string list \<Rightarrow> string \<Rightarrow> string \<Rightarrow> string \<Rightarrow> string" where
  "BuildLinkerEgressRuleset cidrs lanIface overlayIP overlaySubnet =
     (let cidrs = EgressNetworks cidrs; overlayIP = AddressLiteral overlayIP; overlaySubnet = NetworkLiteral overlaySubnet
      in if length cidrs = 0 \<or> lanIface = '''' \<or> overlayIP = '''' then ''''
         else lines_of (
           [''# generated by failover-linker - do not edit by hand'',
            ''# pulls these networks onto the overlay so their traffic leaves'',
            ''# by the frontend's public address rather than this host's.'', ''''] @
           table_head NFTLinkerEgressTable @
           [tab @ ''chain prerouting {'', tab @ tab @ ''type filter hook prerouting priority mangle; policy accept;''] @
           concat (map (\<lambda>c. egress_lines c overlaySubnet (''meta mark set '' @ mark_text LinkerEgressMark)) cidrs) @
           [tab @ ''}'', tab @ ''chain postrouting {'', tab @ tab @ ''type nat hook postrouting priority -10; policy accept;''] @
           concat (map (\<lambda>c. egress_lines c overlaySubnet
             (''oifname '' @ quoted (nftSafe lanIface) @ '' snat to '' @ overlayIP)) cidrs) @
           [tab @ ''}'', ''}'']))"

definition ApplyLinkerEgressRuleset :: "'k runner \<Rightarrow> 'k writer \<Rightarrow> string \<Rightarrow> string \<Rightarrow> ('k, string + unit) state" where
  "ApplyLinkerEgressRuleset r write stateDir ruleset = applyRuleset r write (stateDir @ ''/linker-egress.nft'') ruleset"

definition RemoveLinkerEgressRuleset :: "'k runner \<Rightarrow> string \<Rightarrow> int \<Rightarrow> ('k, unit) state" where
  "RemoveLinkerEgressRuleset r backendLAN tbl = (let mark = mark_text LinkerEgressMark in do {
     _ \<leftarrow> removePinnedRule r tbl ''fwmark'' mark (LinkerRulePrefBase + 2) False backendLAN;
     _ \<leftarrow> removeUnreachableRule r mark LinkerEgressDenyRulePref;
     run_all r [delete_table NFTLinkerEgressTable] })"

definition EnsureLinkerEgressRule :: "'k runner \<Rightarrow> string \<Rightarrow> int \<Rightarrow> ('k, string + unit) state" where
  "EnsureLinkerEgressRule r backendLAN tbl = (let mark = mark_text LinkerEgressMark in do {
     res \<leftarrow> ensurePinnedRule r tbl ''fwmark'' mark (LinkerRulePrefBase + 2) False backendLAN;
     case res of Inl e \<Rightarrow> State_Monad.return (Inl e)
     | Inr _ \<Rightarrow> do {
         listed \<leftarrow> listRules r;
         case listed of Inl e \<Rightarrow> State_Monad.return (Inl e)
         | Inr all \<Rightarrow> ensureUnreachableRule r mark LinkerEgressDenyRulePref all } })"

definition LanIfaceTo :: "'k runner \<Rightarrow> string \<Rightarrow> ('k, string + string) state" where
  "LanIfaceTo r addr =
     (if addr = '''' then State_Monad.return (Inl ''no address to look up'')
      else do { out \<leftarrow> r [''ip'', ''route'', ''get'', addr]; State_Monad.return (map_sum id devFrom out) })"

end
