(* ===== verification/LinkerAgent.thy ===== *)
theory LinkerAgent
  imports LinkerRoutes Messages Wire
begin

text \<open>
  The bootstrap file (\<open>model/bootstrap.go\<close>) and the agent of a linker (\<open>linker/linker.go\<close>, \<open>linker/client.go\<close>): what
  it installs at startup, what a reconcile tick repairs, the two halves of its egress state with the retry between
  them, the frames of its session and its revert. Host and files are parameters as in \<open>Host\<close> and \<open>Rulesets\<close>.
\<close>

section \<open>The bootstrap file\<close>

record LinkerInfo =
  li_Table :: int
  li_OverlayIP :: string
  li_BackendLAN :: string

record Bootstrap =
  bo_Role :: string
  bo_PSK :: string
  bo_StateDir :: string
  bo_DBPath :: string
  bo_PortalListen :: string
  bo_Overlay :: OverlayConfig
  bo_Linker :: LinkerInfo
  bo_PublicIface :: string
  bo_Warnings :: nat

definition PSKPlaceholder :: string where "PSKPlaceholder = ''CHANGE-ME''"
definition MinPSKBytes :: nat where "MinPSKBytes = 32"
definition RoleFrontend :: string where "RoleFrontend = ''frontend''"
definition RoleBackend :: string where "RoleBackend = ''backend''"
definition RoleLinker :: string where "RoleLinker = ''linker''"

definition ipv4Literal :: "string \<Rightarrow> string" where
  "ipv4Literal addr =
     (case ParseIP (TrimSpace addr) of None \<Rightarrow> '''' | Some ip \<Rightarrow> (case To4 ip of None \<Rightarrow> '''' | Some ip \<Rightarrow> dotted ip))"

definition ipv4Network :: "string \<Rightarrow> string" where
  "ipv4Network cidr = (case ParseCIDR4 (TrimSpace cidr) of None \<Rightarrow> '''' | Some (a, n) \<Rightarrow> net_String a n)"

datatype bootstrap_error =
  BootRead | BootParse | BootNoPSK | BootPlaceholder | BootFrontendIP | BootBackendIP | BootSubnet | BootNoOverlayIP
| BootNoBackendLAN | BootOverlayIP | BootBackendLAN | BootTaken | BootTable

text \<open>The defaults of absent fields.\<close>

definition boot_defaults :: "Bootstrap \<Rightarrow> Bootstrap" where
  "boot_defaults b =
     (let or_text = (\<lambda>s d. if s = '''' then d else s); or_int = (\<lambda>i d. if i = 0 then d else i :: int);
          dir = or_text (bo_StateDir b) ''/var/lib/failover''; ov = bo_Overlay b
      in b\<lparr>bo_StateDir := dir, bo_DBPath := or_text (bo_DBPath b) (dir @ ''/failover.db''),
           bo_PortalListen := or_text (bo_PortalListen b) ''127.0.0.1:8088'',
           bo_Overlay := ov\<lparr>ov_FrontendIP := or_text (ov_FrontendIP ov) ''10.99.0.1'',
             ov_BackendIP := or_text (ov_BackendIP ov) ''10.99.0.2'', ov_Device := or_text (ov_Device ov) ''dummy0'',
             ov_ProbePort := or_int (ov_ProbePort ov) 51999, ov_ControlPort := or_int (ov_ControlPort ov) 51998\<rparr>\<rparr>)"

text \<open>The addresses, each stored back in the form that was checked.\<close>

definition boot_overlay :: "OverlayConfig \<Rightarrow> bootstrap_error + OverlayConfig" where
  "boot_overlay ov =
     (let f = ipv4Literal (ov_FrontendIP ov); b = ipv4Literal (ov_BackendIP ov);
          s = (if ov_Subnet ov = '''' then '''' else ipv4Network (ov_Subnet ov))
      in if f = '''' then Inl BootFrontendIP
         else if b = '''' then Inl BootBackendIP
         else if ov_Subnet ov \<noteq> '''' \<and> s = '''' then Inl BootSubnet
         else Inr (ov\<lparr>ov_FrontendIP := f, ov_BackendIP := b, ov_Subnet := s\<rparr>))"

definition boot_linker :: "OverlayConfig \<Rightarrow> LinkerInfo \<Rightarrow> bootstrap_error + LinkerInfo" where
  "boot_linker ov li =
     (let o4 = ipv4Literal (li_OverlayIP li); b4 = ipv4Literal (li_BackendLAN li)
      in if li_OverlayIP li = '''' then Inl BootNoOverlayIP
         else if li_BackendLAN li = '''' then Inl BootNoBackendLAN
         else if o4 = '''' then Inl BootOverlayIP
         else if b4 = '''' then Inl BootBackendLAN
         else if o4 = ov_BackendIP ov \<or> o4 = ov_FrontendIP ov then Inl BootTaken
         else if li_Table li < 0 \<or> li_Table li > 252 then Inl BootTable
         else Inr (li\<lparr>li_OverlayIP := o4, li_BackendLAN := b4\<rparr>))"

text \<open>\<open>file\<close> is the decoded file, or which of reading and decoding failed; \<open>exposed\<close> that others may read it.\<close>

definition LoadBootstrap :: "bool \<Rightarrow> bootstrap_error + Bootstrap \<Rightarrow> bootstrap_error + Bootstrap" where
  "LoadBootstrap exposed file =
     (case file of Inl e \<Rightarrow> Inl e
      | Inr b \<Rightarrow>
          if bo_PSK b = '''' then Inl BootNoPSK
          else if prefix PSKPlaceholder (bo_PSK b) then Inl BootPlaceholder
          else let warnings = (if byte_len (bo_PSK b) < MinPSKBytes then 1 else 0) + (if exposed then 1 else 0);
                   b = boot_defaults (b\<lparr>bo_Warnings := warnings\<rparr>)
          in (case boot_overlay (bo_Overlay b) of Inl e \<Rightarrow> Inl e
             | Inr ov \<Rightarrow>
                 let b = b\<lparr>bo_Overlay := ov\<rparr>
                 in if bo_Role b \<noteq> RoleLinker then Inr b
                    else (case boot_linker ov (bo_Linker b) of Inl e \<Rightarrow> Inl e | Inr li \<Rightarrow> Inr (b\<lparr>bo_Linker := li\<rparr>))))"

definition boot_Key :: "Bootstrap \<Rightarrow> bytes" where
  "boot_Key b = sha256 (bytes_of (bo_PSK b))"

section \<open>The agent\<close>

record LinkerAgent =
  la_egressKnown :: bool
  la_egressWant :: "string list"
  la_egressHave :: "string list"
  la_egressOK :: bool
  la_returnOK :: bool

definition la_New :: LinkerAgent where
  "la_New = \<lparr>la_egressKnown = False, la_egressWant = [], la_egressHave = [], la_egressOK = False, la_returnOK = False\<rparr>"

definition la_table :: "Bootstrap \<Rightarrow> int" where
  "la_table boot = (if li_Table (bo_Linker boot) \<noteq> 0 then li_Table (bo_Linker boot) else LinkerTable)"

definition installEgress :: "'k runner \<Rightarrow> 'k writer \<Rightarrow> Bootstrap \<Rightarrow> string list \<Rightarrow> ('k, string + unit) state" where
  "installEgress r write boot usable =
     (let lan = li_BackendLAN (bo_Linker boot); overlayIP = li_OverlayIP (bo_Linker boot) in
      if length usable = 0 then do { _ \<leftarrow> RemoveLinkerEgressRuleset r lan (la_table boot); State_Monad.return (Inr ()) }
      else do {
        iface \<leftarrow> LanIfaceTo r lan;
        case iface of Inl e \<Rightarrow> State_Monad.return (Inl (''cannot determine which interface reaches the backend at '' @ lan @ '': '' @ e))
        | Inr iface \<Rightarrow>
            if iface = '''' then
              State_Monad.return (Inl (''no route to the backend at '' @ lan @ '', so no interface to scope the source NAT to''))
            else do {
              rules \<leftarrow> EnsureLinkerEgressRule r lan (la_table boot);
              case rules of Inl e \<Rightarrow> State_Monad.return (Inl (''install the egress mark rule: '' @ e))
              | Inr _ \<Rightarrow> do {
                  let ruleset = BuildLinkerEgressRuleset usable iface overlayIP (ov_Subnet (bo_Overlay boot));
                  if ruleset = '''' then
                    State_Monad.return (Inl (''no egress ruleset could be built for overlay address '' @ quoted overlayIP))
                  else do {
                    loaded \<leftarrow> ApplyLinkerEgressRuleset r write (bo_StateDir boot) ruleset;
                    State_Monad.return (case loaded of Inl e \<Rightarrow> Inl (''load the egress source NAT: '' @ e) | Inr _ \<Rightarrow> Inr ()) } } } })"

text \<open>The two critical sections of \<open>applyEgress\<close>: under \<open>mu\<close> what is wanted is noted, and \<open>True\<close> tells that it is what is
  installed; under \<open>applyMu\<close> the work is done, and what the kernel took is recorded.\<close>

definition note_egress :: "string list \<Rightarrow> LinkerAgent \<Rightarrow> bool \<times> LinkerAgent" where
  "note_egress cidrs la =
     (la_egressOK la \<and> la_egressHave la = cidrs, la\<lparr>la_egressKnown := True, la_egressWant := cidrs\<rparr>)"

definition have_egress :: "string list \<Rightarrow> LinkerAgent \<Rightarrow> LinkerAgent" where
  "have_egress cidrs la = la\<lparr>la_egressHave := cidrs, la_egressOK := True\<rparr>"

definition commit_egress :: "string list \<Rightarrow> string + unit \<Rightarrow> LinkerAgent \<Rightarrow> LinkerAgent" where
  "commit_egress cidrs res la = (case res of Inl _ \<Rightarrow> la\<lparr>la_egressOK := False\<rparr> | Inr _ \<Rightarrow> have_egress cidrs la)"

definition run_egress :: "'k runner \<Rightarrow> 'k writer \<Rightarrow> Bootstrap \<Rightarrow> string list \<Rightarrow> LinkerAgent \<Rightarrow> ('k, LinkerAgent) state" where
  "run_egress r write boot cidrs la =
     (let usable = EgressNetworks cidrs in
      if length cidrs > 0 \<and> length usable = 0 then State_Monad.return (have_egress cidrs la)
      else do { res \<leftarrow> installEgress r write boot usable; State_Monad.return (commit_egress cidrs res la) })"

definition la_applyEgress :: "'k runner \<Rightarrow> 'k writer \<Rightarrow> Bootstrap \<Rightarrow> string list \<Rightarrow> LinkerAgent \<Rightarrow> ('k, LinkerAgent) state" where
  "la_applyEgress r write boot cidrs la =
     (case note_egress cidrs la of (unchanged, la) \<Rightarrow>
        if unchanged then State_Monad.return la else run_egress r write boot cidrs la)"

definition egress_pending :: "LinkerAgent \<Rightarrow> bool" where
  "egress_pending la \<longleftrightarrow> la_egressKnown la \<and> \<not> (la_egressOK la \<and> la_egressHave la = la_egressWant la)"

definition retryEgress :: "'k runner \<Rightarrow> 'k writer \<Rightarrow> Bootstrap \<Rightarrow> LinkerAgent \<Rightarrow> ('k, LinkerAgent) state" where
  "retryEgress r write boot la =
     (if \<not> egress_pending la then State_Monad.return la else la_applyEgress r write boot (la_egressWant la) la)"

definition ensureReturnPath :: "'k runner \<Rightarrow> 'k writer \<Rightarrow> Bootstrap \<Rightarrow> LinkerAgent \<Rightarrow> ('k, LinkerAgent) state" where
  "ensureReturnPath r write boot la =
     (let li = bo_Linker boot; ruleset = BuildLinkerReturnRuleset (li_OverlayIP li) in
      if ruleset = '''' then State_Monad.return la
      else do {
        loaded \<leftarrow> ApplyLinkerReturnRuleset r write (bo_StateDir boot) ruleset;
        case loaded of Inl _ \<Rightarrow> State_Monad.return la
        | Inr _ \<Rightarrow> do {
            _ \<leftarrow> EnsureLinkerMarkRule r (li_BackendLAN li) (la_table boot);
            State_Monad.return (la\<lparr>la_returnOK := True\<rparr>) } })"

definition la_apply :: "'k runner \<Rightarrow> 'k writer \<Rightarrow> Bootstrap \<Rightarrow> LinkerAgent \<Rightarrow> ('k, LinkerAgent) state" where
  "la_apply r write boot la = (let li = bo_Linker boot in do {
     _ \<leftarrow> EnsureOverlayAddress r (li_OverlayIP li) (ov_Device (bo_Overlay boot));
     _ \<leftarrow> EnsureLinkerRule r (li_OverlayIP li) (li_BackendLAN li) (la_table boot);
     _ \<leftarrow> EnsureLinkerRoute r (li_BackendLAN li) (la_table boot);
     la \<leftarrow> ensureReturnPath r write boot la;
     _ \<leftarrow> RPFilterOn r;
     State_Monad.return la })"

definition la_reconcile :: "'k runner \<Rightarrow> 'k writer \<Rightarrow> Bootstrap \<Rightarrow> LinkerAgent \<Rightarrow> ('k, LinkerAgent) state" where
  "la_reconcile r write boot la = (let li = bo_Linker boot in do {
     _ \<leftarrow> EnsureOverlayAddress r (li_OverlayIP li) (ov_Device (bo_Overlay boot));
     _ \<leftarrow> EnsureLinkerRule r (li_OverlayIP li) (li_BackendLAN li) (la_table boot);
     la \<leftarrow> (if la_returnOK la then do { _ \<leftarrow> EnsureLinkerMarkRule r (li_BackendLAN li) (la_table boot); State_Monad.return la }
           else ensureReturnPath r write boot la);
     la \<leftarrow> retryEgress r write boot la;
     via \<leftarrow> LinkerRouteVia r (la_table boot);
     case via of Inl _ \<Rightarrow> State_Monad.return la
     | Inr via \<Rightarrow>
         if via = li_BackendLAN li then State_Monad.return la
         else do { _ \<leftarrow> EnsureLinkerRoute r (li_BackendLAN li) (la_table boot); State_Monad.return la } })"

definition la_Revert :: "'k runner \<Rightarrow> Bootstrap \<Rightarrow> ('k, unit) state" where
  "la_Revert r boot = (let li = bo_Linker boot; lan = li_BackendLAN li in do {
     _ \<leftarrow> RemoveLinkerEgressRuleset r lan (la_table boot);
     _ \<leftarrow> RemoveLinkerReturnRuleset r lan (la_table boot);
     RemoveLinkerRouting r (li_OverlayIP li) lan (la_table boot) })"

end
