(* ===== verification/LinkerProps.thy ===== *)
theory LinkerProps
  imports LinkerAgent
begin

text \<open>
  The linker's two goroutines over one record: the control session hands every push to \<open>applyEgress\<close>, the
  reconcile loop retries what is pending. Both take \<open>mu\<close> for what is wanted and recorded and \<open>applyMu\<close> for the
  work, so the steps below are the sections between two locks; the work itself is \<open>installEgress\<close> on the host. The
  theorems say what is known of the host in every reachable state, that a retry the system accepts settles the want, and
  that a retry can overtake a newer push.
\<close>

section \<open>Steps between locks\<close>

datatype goroutine = Session | Reconciler

datatype phase = Idle | Calling "string list" | Waiting "string list" | Working "string list" "string + unit"

text \<open>Beside the record: the host, where each goroutine stands (\<open>Working\<close>: the work is done, its result not yet
  recorded), and the networks last pushed.\<close>

record 'k linker_state =
  ls_agent :: LinkerAgent
  ls_phase :: "goroutine \<Rightarrow> phase"
  ls_told :: "string list"
  ls_host :: 'k

fun working :: "phase \<Rightarrow> bool" where
  "working (Working c res) = True"
| "working _ = False"

definition free_lock :: "'k linker_state \<Rightarrow> bool" where
  "free_lock w \<longleftrightarrow> \<not> working (ls_phase w Session) \<and> \<not> working (ls_phase w Reconciler)"

definition move :: "goroutine \<Rightarrow> phase \<Rightarrow> 'k linker_state \<Rightarrow> 'k linker_state" where
  "move g ph w = w\<lparr>ls_phase := (ls_phase w)(g := ph)\<rparr>"

definition linker_start :: "'k \<Rightarrow> 'k linker_state" where
  "linker_start k = \<lparr>ls_agent = la_New, ls_phase = (\<lambda>_. Idle), ls_told = [], ls_host = k\<rparr>"

text \<open>
  \<open>held\<close> reads off the host the text the source NAT table was last loaded from. A restart may find any host, one
  left in the middle of the work included; what else happens on the host, the rest of the reconciler's repairs among
  it, leaves that table alone.
\<close>

inductive linker_step :: "'k runner \<Rightarrow> 'k writer \<Rightarrow> Bootstrap \<Rightarrow> ('k \<Rightarrow> string option) \<Rightarrow> 'k linker_state \<Rightarrow> 'k linker_state \<Rightarrow> bool"
  for r wr boot held where
  push: "ls_phase w Session = Idle \<Longrightarrow> linker_step r wr boot held w (move Session (Calling cidrs) (w\<lparr>ls_told := cidrs\<rparr>))"
| look: "ls_phase w Reconciler = Idle \<Longrightarrow> egress_pending (ls_agent w) \<Longrightarrow>
    linker_step r wr boot held w (move Reconciler (Calling (la_egressWant (ls_agent w))) w)"
| noted: "ls_phase w g = Calling cidrs \<Longrightarrow> note_egress cidrs (ls_agent w) = (unchanged, la) \<Longrightarrow>
    linker_step r wr boot held w (move g (if unchanged then Idle else Waiting cidrs) (w\<lparr>ls_agent := la\<rparr>))"
| skip: "ls_phase w g = Waiting cidrs \<Longrightarrow> free_lock w \<Longrightarrow> length cidrs > 0 \<and> length (EgressNetworks cidrs) = 0 \<Longrightarrow>
    linker_step r wr boot held w (move g Idle (w\<lparr>ls_agent := have_egress cidrs (ls_agent w)\<rparr>))"
| work: "ls_phase w g = Waiting cidrs \<Longrightarrow> free_lock w \<Longrightarrow> \<not> (length cidrs > 0 \<and> length (EgressNetworks cidrs) = 0) \<Longrightarrow>
    run_state (installEgress r wr boot (EgressNetworks cidrs)) (ls_host w) = (res, k) \<Longrightarrow>
    linker_step r wr boot held w (move g (Working cidrs res) (w\<lparr>ls_host := k\<rparr>))"
| finish: "ls_phase w g = Working cidrs res \<Longrightarrow>
    linker_step r wr boot held w (move g Idle (w\<lparr>ls_agent := commit_egress cidrs res (ls_agent w)\<rparr>))"
| elsewhere: "held k = held (ls_host w) \<Longrightarrow> linker_step r wr boot held w (w\<lparr>ls_host := k\<rparr>)"
| restart: "linker_step r wr boot held w (linker_start k)"

inductive linker_reachable :: "'k runner \<Rightarrow> 'k writer \<Rightarrow> Bootstrap \<Rightarrow> ('k \<Rightarrow> string option) \<Rightarrow> 'k linker_state \<Rightarrow> bool"
  for r wr boot held where
  start: "linker_reachable r wr boot held (linker_start k)"
| step: "linker_reachable r wr boot held w \<Longrightarrow> linker_step r wr boot held w w' \<Longrightarrow> linker_reachable r wr boot held w'"

section \<open>What is recorded is what the host has\<close>

text \<open>What is relied on of \<open>nft\<close>: after a load that reports success the table holds the file.\<close>

definition loads_whole :: "'k runner \<Rightarrow> 'k writer \<Rightarrow> string \<Rightarrow> ('k \<Rightarrow> string option) \<Rightarrow> bool" where
  "loads_whole r wr dir held \<longleftrightarrow>
     (\<forall>body k k'. run_state (ApplyLinkerEgressRuleset r wr dir body) k = (Inr (), k') \<longrightarrow> held k' = Some body)"

definition egress_held :: "Bootstrap \<Rightarrow> ('k \<Rightarrow> string option) \<Rightarrow> string list \<Rightarrow> 'k \<Rightarrow> bool" where
  "egress_held boot held nets k \<longleftrightarrow>
     (\<exists>iface. iface \<noteq> '''' \<and> held k = Some (BuildLinkerEgressRuleset nets iface (li_OverlayIP (bo_Linker boot)) (ov_Subnet (bo_Overlay boot))) \<and>
        held k \<noteq> Some '''')"

lemma installed_held:
  assumes "loads_whole r wr (bo_StateDir boot) held" and "nets \<noteq> []"
    and "run_state (installEgress r wr boot nets) k = (Inr (), k')"
  shows "egress_held boot held nets k'"
proof -
  obtain iface ka kb where "iface \<noteq> ''''" "BuildLinkerEgressRuleset nets iface (li_OverlayIP (bo_Linker boot)) (ov_Subnet (bo_Overlay boot)) \<noteq> ''''"
    "run_state (ApplyLinkerEgressRuleset r wr (bo_StateDir boot)
       (BuildLinkerEgressRuleset nets iface (li_OverlayIP (bo_Linker boot)) (ov_Subnet (bo_Overlay boot)))) ka = (Inr (), k')"
    using assms(2,3) by (auto simp: installEgress_def Let_def split: prod.splits sum.splits if_splits)
  then show ?thesis using assms(1) unfolding loads_whole_def egress_held_def by fastforce
qed

definition linker_inv :: "Bootstrap \<Rightarrow> ('k \<Rightarrow> string option) \<Rightarrow> 'k linker_state \<Rightarrow> bool" where
  "linker_inv boot held w \<longleftrightarrow>
     \<not> (working (ls_phase w Session) \<and> working (ls_phase w Reconciler)) \<and>
     (\<forall>g cidrs. ls_phase w g = Working cidrs (Inr ()) \<and> EgressNetworks cidrs \<noteq> [] \<longrightarrow>
        egress_held boot held (EgressNetworks cidrs) (ls_host w)) \<and>
     (free_lock w \<and> la_egressOK (ls_agent w) \<and> EgressNetworks (la_egressHave (ls_agent w)) \<noteq> [] \<longrightarrow>
        egress_held boot held (EgressNetworks (la_egressHave (ls_agent w))) (ls_host w))"

lemma goroutine_all: "(\<forall>g. P g) \<longleftrightarrow> P Session \<and> P Reconciler"
  by (metis goroutine.exhaust)

lemma move_simps [simp]:
  "ls_agent (move g ph w) = ls_agent w" "ls_told (move g ph w) = ls_told w" "ls_host (move g ph w) = ls_host w"
  "ls_phase (move g ph w) = (ls_phase w)(g := ph)"
  by (simp_all add: move_def)

lemma held_elsewhere: "held k = held k' \<Longrightarrow> egress_held boot held nets k = egress_held boot held nets k'"
  by (simp add: egress_held_def)

lemma linker_step_inv:
  assumes "linker_step r wr boot held w w'" and "loads_whole r wr (bo_StateDir boot) held" and "linker_inv boot held w"
  shows "linker_inv boot held w'"
  using assms
proof (induction rule: linker_step.induct)
  case (noted w g cidrs unchanged la)
  then show ?case by (cases g) (auto simp: linker_inv_def free_lock_def note_egress_def goroutine_all)
next
  case (skip w g cidrs)
  then show ?case by (cases g) (auto simp: linker_inv_def free_lock_def have_egress_def goroutine_all)
next
  case (work w g cidrs res k)
  have "res = Inr () \<Longrightarrow> EgressNetworks cidrs \<noteq> [] \<Longrightarrow> egress_held boot held (EgressNetworks cidrs) k"
    using installed_held [OF work(5)] work(4) by blast
  then show ?case using work(2,6) by (cases g) (auto simp: linker_inv_def free_lock_def goroutine_all)
next
  case (finish w g cidrs res)
  then show ?case
    by (cases g; cases res) (auto simp: linker_inv_def free_lock_def commit_egress_def have_egress_def goroutine_all)
next
  case (elsewhere k w)
  have "egress_held boot held nets k = egress_held boot held nets (ls_host w)" for nets
    by (rule held_elsewhere) (rule elsewhere(1))
  then show ?case using elsewhere(3) by (auto simp: linker_inv_def free_lock_def)
next
  case (restart w k)
  show ?case by (simp add: linker_inv_def linker_start_def la_New_def)
qed (auto simp: linker_inv_def free_lock_def goroutine_all)

lemma linker_reachable_inv:
  "linker_reachable r wr boot held w \<Longrightarrow> loads_whole r wr (bo_StateDir boot) held \<Longrightarrow> linker_inv boot held w"
proof (induction rule: linker_reachable.induct)
  case (start k)
  show ?case by (simp add: linker_inv_def linker_start_def la_New_def)
next
  case (step w w')
  then show ?case by (auto intro: linker_step_inv)
qed

text \<open>C27. However pushes, retries, restarts and failures interleave: the two goroutines never work on the host at once, and
  while neither does, a success on record for a list with a usable network is the truth: the source NAT table holds the
  ruleset generated for exactly the usable networks of the recorded list, the addresses of the bootstrap file and some
  interface, and that ruleset is not empty. A list without a usable network is outside the claim: an unusable one is
  recorded and left aside, and the removal an empty one stands for ignores its errors. Relied on of \<open>nft\<close>: a load that
  reports success holds the file; nobody else touches the table while the process lives.\<close>

theorem linker_record_true:
  assumes "loads_whole r wr (bo_StateDir boot) held" and "linker_reachable r wr boot held w"
  shows "\<not> (working (ls_phase w Session) \<and> working (ls_phase w Reconciler)) \<and>
    (free_lock w \<and> la_egressOK (ls_agent w) \<and> EgressNetworks (la_egressHave (ls_agent w)) \<noteq> [] \<longrightarrow>
      egress_held boot held (EgressNetworks (la_egressHave (ls_agent w))) (ls_host w))"
  using linker_reachable_inv [OF assms(2,1)] by (simp add: linker_inv_def)

section \<open>Retries\<close>

text \<open>A retry settles what is wanted as soon as the system accepts it: when something is pending and the install
  succeeds, after \<open>retryEgress\<close> nothing is pending, and what is recorded is what was wanted, which no retry changes.\<close>

theorem retry_settles:
  assumes "egress_pending la" and "fst (run_state (installEgress r wr boot (EgressNetworks (la_egressWant la))) k) = Inr ()"
  shows "let la' = fst (run_state (retryEgress r wr boot la) k) in
    \<not> egress_pending la' \<and> la_egressHave la' = la_egressWant la \<and> la_egressWant la' = la_egressWant la"
proof -
  obtain k' where "run_state (installEgress r wr boot (EgressNetworks (la_egressWant la))) k = (Inr (), k')"
    using assms(2) by (cases "run_state (installEgress r wr boot (EgressNetworks (la_egressWant la))) k") simp
  then show ?thesis using assms(1)
    by (auto simp: retryEgress_def la_applyEgress_def note_egress_def run_egress_def egress_pending_def have_egress_def
        commit_egress_def Let_def case_prod_beta)
qed

text \<open>The interleaving: the install of the first push fails; the retry reads the first list; the second push is
  installed; the retry goes on with the first.\<close>

text \<open>172.18.0.0/16 and 10.1.0.0/16.\<close>

definition first_list :: "string list" where "first_list = [net_String 0xAC120000 16]"
definition second_list :: "string list" where "second_list = [net_String 0x0A010000 16]"

lemma sixteen: "(0xAC120000 :: 32 word) AND prefix_mask 16 = 0xAC120000" "(0x0A010000 :: 32 word) AND prefix_mask 16 = 0x0A010000"
  by code_simp+

lemma lists_parse: "ParseCIDR4 (net_String 0xAC120000 16) = Some (0xAC120000, 16)"
  "ParseCIDR4 (net_String 0x0A010000 16) = Some (0x0A010000, 16)"
  by (rule parse_net_String; simp add: sixteen)+

lemma lists_usable [simp]: "EgressNetworks first_list = first_list" "EgressNetworks second_list = second_list"
  "first_list \<noteq> []" "second_list \<noteq> []"
  by (simp_all add: first_list_def second_list_def NetworkLiteral_def TrimSpace_net lists_parse) (simp_all add: net_String_def)

lemma lists_differ [simp]: "first_list \<noteq> second_list" "second_list \<noteq> first_list"
proof -
  have "net_String 0xAC120000 16 \<noteq> net_String 0x0A010000 16"
  proof
    assume "net_String 0xAC120000 16 = net_String 0x0A010000 16"
    then have "Some (0xAC120000 :: 32 word, 16 :: nat) = Some (0x0A010000, 16)" using lists_parse by simp
    then show False by simp
  qed
  then show "first_list \<noteq> second_list" "second_list \<noteq> first_list" by (simp_all add: first_list_def second_list_def)
qed

text \<open>A host in memory on which every command succeeds, with one link that is up or down.\<close>

record link_host =
  lh_up :: bool
  lh_files :: "string \<Rightarrow> string"
  lh_table :: "string option"

definition link_run :: "link_host runner" where
  "link_run cmd = State (\<lambda>k.
     if take 3 cmd = [''ip'', ''route'', ''get''] then (if lh_up k then Inr ''dev eth0'' else Inl ''unreachable'', k)
     else if take 2 cmd = [''nft'', ''-f''] then (Inr '''', k\<lparr>lh_table := Some (lh_files k (cmd ! 2))\<rparr>)
     else (Inr '''', k))"

definition link_write :: "link_host writer" where
  "link_write path body = State (\<lambda>k. (Inr (), k\<lparr>lh_files := (lh_files k)(path := body)\<rparr>))"

definition link_boot :: Bootstrap where
  "link_boot = \<lparr>bo_Role = RoleLinker, bo_PSK = '''', bo_StateDir = ''/s'', bo_DBPath = '''', bo_PortalListen = '''',
     bo_Overlay = \<lparr>ov_FrontendIP = '''', ov_BackendIP = '''', ov_Device = '''', ov_Subnet = '''', ov_ProbePort = 0, ov_ControlPort = 0\<rparr>,
     bo_Linker = \<lparr>li_Table = 0, li_OverlayIP = dotted [10, 99, 0, 5], li_BackendLAN = dotted [10, 1, 0, 2]\<rparr>,
     bo_PublicIface = '''', bo_Warnings = 0\<rparr>"

abbreviation link_text :: "string list \<Rightarrow> string" where
  "link_text nets \<equiv> BuildLinkerEgressRuleset nets ''eth0'' (dotted [10, 99, 0, 5]) ''''"

abbreviation link_file :: string where
  "link_file \<equiv> ''/s/linker-egress.nft''"

abbreviation link_step :: "link_host linker_state \<Rightarrow> link_host linker_state \<Rightarrow> bool" where
  "link_step \<equiv> linker_step link_run link_write link_boot lh_table"

abbreviation link_reachable :: "link_host linker_state \<Rightarrow> bool" where
  "link_reachable \<equiv> linker_reachable link_run link_write link_boot lh_table"

lemma link_loads: "loads_whole link_run link_write dir lh_table"
  by (auto simp: loads_whole_def ApplyLinkerEgressRuleset_def applyRuleset_def link_run_def link_write_def)

lemma link_address: "AddressLiteral (dotted [10, 99, 0, 5]) = dotted [10, 99, 0, 5]" "dotted [10, 99, 0, 5] \<noteq> ''''" "dotted [10, 1, 0, 2] \<noteq> ''''"
  using AddressLiteral_dotted [of "[10, 99, 0, 5]"] by (simp_all add: dotted_def)

lemma link_text_built: "EgressNetworks nets = nets \<Longrightarrow> nets \<noteq> [] \<Longrightarrow> link_text nets \<noteq> ''''"
  by (simp add: BuildLinkerEgressRuleset_def link_address Let_def lines_of_def)

lemma no_lines: "rule_lines '''' = []"
  by code_simp

lemma no_rules: "selectorRules '''' key value = []" "unreachableRules '''' = []"
  by (simp_all add: selectorRules_def unreachableRules_def no_lines)

lemma link_rule: "run_state (EnsureLinkerEgressRule link_run lan tbl) k = (Inr (), k)"
  by (simp add: EnsureLinkerEgressRule_def ensurePinnedRule_def ensureUnreachableRule_def listRulesInTable_def listRules_def
      link_run_def no_rules rule_cmd_def run_one_def Let_def)

lemma link_device: "devFrom ''dev eth0'' = ''eth0''"
  by code_simp

lemma link_install:
  assumes "EgressNetworks nets = nets" and "nets \<noteq> []"
  shows "run_state (installEgress link_run link_write link_boot nets) k =
    (if lh_up k then (Inr (), k\<lparr>lh_files := (lh_files k)(link_file := link_text nets), lh_table := Some (link_text nets)\<rparr>)
     else (Inl (''cannot determine which interface reaches the backend at '' @ dotted [10, 1, 0, 2] @ '': '' @ ''unreachable''), k))"
proof -
  have "run_state (LanIfaceTo link_run (dotted [10, 1, 0, 2])) k = (if lh_up k then Inr ''eth0'' else Inl ''unreachable'', k)"
    by (simp add: LanIfaceTo_def link_address link_run_def link_device)
  moreover have "run_state (ApplyLinkerEgressRuleset link_run link_write ''/s'' (link_text nets)) k =
      (Inr (), k\<lparr>lh_files := (lh_files k)(link_file := link_text nets), lh_table := Some (link_text nets)\<rparr>)"
    by (simp add: ApplyLinkerEgressRuleset_def applyRuleset_def link_run_def link_write_def)
  ultimately show ?thesis using assms link_text_built [OF assms]
    by (simp add: installEgress_def link_boot_def link_rule Let_def)
qed

lemma reaches_done:
  assumes "link_reachable w" and "ls_phase w g = Calling c" and "\<not> (la_egressOK (ls_agent w) \<and> la_egressHave (ls_agent w) = c)"
    and "\<And>h. h \<noteq> g \<Longrightarrow> \<not> working (ls_phase w h)" and "EgressNetworks c = c" and "c \<noteq> []"
    and "run_state (installEgress link_run link_write link_boot c) (ls_host w) = (res, k)"
  shows "link_reachable (move g Idle (w\<lparr>ls_agent := commit_egress c res ((ls_agent w)\<lparr>la_egressKnown := True, la_egressWant := c\<rparr>),
      ls_host := k\<rparr>))"
proof -
  let ?la = "(ls_agent w)\<lparr>la_egressKnown := True, la_egressWant := c\<rparr>"
  let ?w1 = "move g (Waiting c) (w\<lparr>ls_agent := ?la\<rparr>)"
  let ?w2 = "move g (Working c res) (?w1\<lparr>ls_host := k\<rparr>)"
  let ?w3 = "move g Idle (?w2\<lparr>ls_agent := commit_egress c res ?la\<rparr>)"
  have "link_step w ?w1" using linker_step.noted [OF assms(2), of False ?la] assms(3) by (simp add: note_egress_def)
  moreover have "free_lock ?w1" using assms(4) [of Session] assms(4) [of Reconciler] by (cases g) (auto simp: free_lock_def)
  then have "link_step ?w1 ?w2" by (intro linker_step.work) (simp_all add: assms(5-7))
  moreover have "link_step ?w2 ?w3" using linker_step.finish [of ?w2 g c res] by simp
  ultimately have "link_reachable ?w3" using assms(1) linker_reachable.step by blast
  then show ?thesis by (cases w) (simp add: move_def)
qed

text \<open>The link is down when the first list is pushed and comes up after its install has failed.\<close>

abbreviation link_up :: "string list \<Rightarrow> link_host \<Rightarrow> link_host" where
  "link_up nets k \<equiv> k\<lparr>lh_files := (lh_files k)(link_file := link_text nets), lh_table := Some (link_text nets)\<rparr>"

definition link_down :: link_host where
  "link_down = \<lparr>lh_up = False, lh_files = (\<lambda>_. ''''), lh_table = None\<rparr>"

definition after_failure :: "link_host linker_state" where
  "after_failure = \<lparr>ls_agent = la_New\<lparr>la_egressKnown := True, la_egressWant := first_list\<rparr>, ls_phase = (\<lambda>_. Idle),
     ls_told = first_list, ls_host = link_down\<lparr>lh_up := True\<rparr>\<rparr>"

definition after_second :: "link_host linker_state" where
  "after_second = \<lparr>ls_agent = have_egress second_list (la_New\<lparr>la_egressKnown := True, la_egressWant := second_list\<rparr>),
     ls_phase = (\<lambda>_. Idle)(Reconciler := Calling first_list), ls_told = second_list, ls_host = link_up second_list (link_down\<lparr>lh_up := True\<rparr>)\<rparr>"

definition after_overtaking :: "link_host linker_state" where
  "after_overtaking = \<lparr>ls_agent = have_egress first_list (la_New\<lparr>la_egressKnown := True, la_egressWant := first_list\<rparr>),
     ls_phase = (\<lambda>_. Idle), ls_told = second_list, ls_host = link_up first_list (link_up second_list (link_down\<lparr>lh_up := True\<rparr>))\<rparr>"

lemma after_failure_reachable: "link_reachable after_failure"
proof -
  let ?w = "move Session (Calling first_list) ((linker_start link_down)\<lparr>ls_told := first_list\<rparr>)"
  have "link_reachable ?w"
    by (rule linker_reachable.step [OF linker_reachable.start linker_step.push]) (simp add: linker_start_def)
  moreover obtain e where e: "run_state (installEgress link_run link_write link_boot first_list) (ls_host ?w) = (Inl e, link_down)"
    by (simp add: link_install linker_start_def link_down_def)
  ultimately have "link_reachable (move Session Idle (?w\<lparr>ls_agent := commit_egress first_list (Inl e)
      ((ls_agent ?w)\<lparr>la_egressKnown := True, la_egressWant := first_list\<rparr>), ls_host := link_down\<rparr>))"
    by (intro reaches_done) (simp_all add: linker_start_def la_New_def)
  then have "link_reachable ((move Session Idle (?w\<lparr>ls_agent := commit_egress first_list (Inl e)
      ((ls_agent ?w)\<lparr>la_egressKnown := True, la_egressWant := first_list\<rparr>), ls_host := link_down\<rparr>))\<lparr>ls_host := link_down\<lparr>lh_up := True\<rparr>\<rparr>)"
    by (rule linker_reachable.step) (rule linker_step.elsewhere, simp)
  moreover have "(move Session Idle (?w\<lparr>ls_agent := commit_egress first_list (Inl e)
      ((ls_agent ?w)\<lparr>la_egressKnown := True, la_egressWant := first_list\<rparr>), ls_host := link_down\<rparr>))\<lparr>ls_host := link_down\<lparr>lh_up := True\<rparr>\<rparr> =
      after_failure"
    by (simp add: after_failure_def linker_start_def la_New_def commit_egress_def move_def fun_eq_iff)
  ultimately show ?thesis by simp
qed

lemma after_second_reachable: "link_reachable after_second"
proof -
  let ?w1 = "move Reconciler (Calling first_list) after_failure"
  let ?w2 = "move Session (Calling second_list) (?w1\<lparr>ls_told := second_list\<rparr>)"
  have "link_step after_failure ?w1"
    using linker_step.look [of after_failure] by (simp add: after_failure_def egress_pending_def la_New_def)
  then have "link_reachable ?w1" by (rule linker_reachable.step [OF after_failure_reachable])
  then have "link_reachable ?w2"
    by (rule linker_reachable.step [OF _ linker_step.push]) (simp add: after_failure_def)
  then have "link_reachable (move Session Idle (?w2\<lparr>ls_agent := commit_egress second_list (Inr ())
      ((ls_agent ?w2)\<lparr>la_egressKnown := True, la_egressWant := second_list\<rparr>), ls_host := link_up second_list (ls_host ?w2)\<rparr>))"
    by (rule reaches_done) (auto simp: after_failure_def la_New_def link_install)
  moreover have "move Session Idle (?w2\<lparr>ls_agent := commit_egress second_list (Inr ())
      ((ls_agent ?w2)\<lparr>la_egressKnown := True, la_egressWant := second_list\<rparr>), ls_host := link_up second_list (ls_host ?w2)\<rparr>) = after_second"
    by (simp add: after_failure_def after_second_def la_New_def commit_egress_def move_def fun_eq_iff)
  ultimately show ?thesis by simp
qed

lemma after_overtaking_reachable: "link_reachable after_overtaking"
proof -
  have "link_reachable (move Reconciler Idle (after_second\<lparr>ls_agent := commit_egress first_list (Inr ())
      ((ls_agent after_second)\<lparr>la_egressKnown := True, la_egressWant := first_list\<rparr>), ls_host := link_up first_list (ls_host after_second)\<rparr>))"
    by (rule reaches_done [OF after_second_reachable]) (auto simp: after_second_def have_egress_def la_New_def link_install)
  moreover have "move Reconciler Idle (after_second\<lparr>ls_agent := commit_egress first_list (Inr ())
      ((ls_agent after_second)\<lparr>la_egressKnown := True, la_egressWant := first_list\<rparr>), ls_host := link_up first_list (ls_host after_second)\<rparr>) =
      after_overtaking"
    by (simp add: after_second_def after_overtaking_def have_egress_def la_New_def commit_egress_def move_def fun_eq_iff)
  ultimately show ?thesis by simp
qed

text \<open>A retry can undo a newer push. Between reading what is wanted and calling \<open>applyEgress\<close> with it the
  reconcile loop holds no lock; a push that arrives and is installed in between is overwritten by the older list, and
  then nothing is pending and nobody is at work: the record says all is well, and the networks last pushed are not the
  ones installed.\<close>

theorem stale_retry_wins:
  "\<exists>w. link_reachable w \<and> (\<forall>g. ls_phase w g = Idle) \<and> \<not> egress_pending (ls_agent w) \<and> la_egressOK (ls_agent w) \<and>
    ls_told w = second_list \<and> lh_table (ls_host w) = Some (link_text first_list) \<and>
    EgressNetworks first_list \<noteq> EgressNetworks second_list"
  using after_overtaking_reachable
  by (intro exI [of _ after_overtaking]) (simp add: after_overtaking_def egress_pending_def have_egress_def)

theorem linker_record_true_witness:
  "link_reachable after_overtaking \<and>
   \<not> (working (ls_phase after_overtaking Session) \<and> working (ls_phase after_overtaking Reconciler)) \<and>
   egress_held link_boot lh_table first_list (ls_host after_overtaking)"
proof -
  note true = linker_record_true [OF link_loads after_overtaking_reachable]
  have "free_lock after_overtaking" "la_egressOK (ls_agent after_overtaking)" "la_egressHave (ls_agent after_overtaking) = first_list"
    by (simp_all add: after_overtaking_def free_lock_def have_egress_def)
  then show ?thesis using true after_overtaking_reachable by simp
qed

section \<open>The bootstrap file\<close>

lemma ipv4_address: "ipv4Literal = AddressLiteral"
  by (simp add: fun_eq_iff ipv4Literal_def AddressLiteral_def)

lemma return_ruleset_nonempty: "BuildLinkerReturnRuleset a \<noteq> '''' \<longleftrightarrow> AddressLiteral a \<noteq> ''''"
  by (simp add: BuildLinkerReturnRuleset_def Let_def lines_of_def)

lemma boot_linker_checks:
  assumes "boot_linker ov li = Inr li'"
  shows "AddressLiteral (li_OverlayIP li') = li_OverlayIP li' \<and> AddressLiteral (li_BackendLAN li') = li_BackendLAN li' \<and>
    li_OverlayIP li' \<noteq> '''' \<and> li_BackendLAN li' \<noteq> '''' \<and>
    li_OverlayIP li' \<noteq> ov_FrontendIP ov \<and> li_OverlayIP li' \<noteq> ov_BackendIP ov \<and> 0 \<le> li_Table li' \<and> li_Table li' \<le> 252"
  using assms by (auto simp: boot_linker_def ipv4_address Let_def AddressLiteral_idem split: if_splits)

lemma boot_defaults_same: "bo_PSK (boot_defaults b) = bo_PSK b" "bo_Role (boot_defaults b) = bo_Role b" "bo_Linker (boot_defaults b) = bo_Linker b"
  by (simp_all add: boot_defaults_def Let_def)

text \<open>A bootstrap file that is accepted gives a linker everything its agent relies on: a secret that is neither
  absent nor the shipped placeholder, an overlay address and a backend address in the form that was checked, an overlay
  address that is neither the frontend's nor the backend's, a table of the right range, and a return ruleset that can be
  built, so that the rule is never installed without it.\<close>

theorem bootstrap_gives_linker:
  assumes "LoadBootstrap exposed file = Inr b" and "bo_Role b = RoleLinker"
  shows "bo_PSK b \<noteq> '''' \<and> \<not> prefix PSKPlaceholder (bo_PSK b) \<and>
    li_OverlayIP (bo_Linker b) \<noteq> ov_FrontendIP (bo_Overlay b) \<and> li_OverlayIP (bo_Linker b) \<noteq> ov_BackendIP (bo_Overlay b) \<and>
    ipv4Literal (li_BackendLAN (bo_Linker b)) = li_BackendLAN (bo_Linker b) \<and> li_BackendLAN (bo_Linker b) \<noteq> '''' \<and>
    0 < la_table b \<and> la_table b \<le> 252 \<and> BuildLinkerReturnRuleset (li_OverlayIP (bo_Linker b)) \<noteq> ''''"
proof -
  obtain f where f: "file = Inr f" using assms(1) by (cases "file") (auto simp: LoadBootstrap_def)
  have psk: "bo_PSK b \<noteq> '''' \<and> \<not> prefix PSKPlaceholder (bo_PSK b)"
    using assms(1) by (auto simp: f LoadBootstrap_def boot_defaults_same Let_def split: if_splits sum.splits)
  have "\<exists>li. boot_linker (bo_Overlay b) li = Inr (bo_Linker b)"
    using assms by (auto simp: f LoadBootstrap_def boot_defaults_same Let_def split: if_splits sum.splits)
  then obtain li where "boot_linker (bo_Overlay b) li = Inr (bo_Linker b)" ..
  note li = boot_linker_checks [OF this]
  have "0 < la_table b \<and> la_table b \<le> 252" using li by (auto simp: la_table_def LinkerTable_def)
  with psk li show ?thesis by (simp add: ipv4_address return_ruleset_nonempty)
qed

definition demo_boot :: Bootstrap where
  "demo_boot = \<lparr>bo_Role = RoleLinker, bo_PSK = ''0123456789abcdef0123456789abcdef'', bo_StateDir = '''', bo_DBPath = '''',
     bo_PortalListen = '''', bo_Overlay = \<lparr>ov_FrontendIP = ''10.99.0.1'', ov_BackendIP = ''10.99.0.2'', ov_Device = '''', ov_Subnet = '''',
       ov_ProbePort = 0, ov_ControlPort = 0\<rparr>,
     bo_Linker = \<lparr>li_Table = 0, li_OverlayIP = ''10.99.0.3'', li_BackendLAN = ''10.0.0.2''\<rparr>, bo_PublicIface = '''', bo_Warnings = 0\<rparr>"

lemma dotted_bytes: "list_all (\<lambda>n. n < 256) [a, b, c, d] \<Longrightarrow>
    ipv4Literal (Itoa (int a) @ ''.'' @ Itoa (int b) @ ''.'' @ Itoa (int c) @ ''.'' @ Itoa (int d)) =
    Itoa (int a) @ ''.'' @ Itoa (int b) @ ''.'' @ Itoa (int c) @ ''.'' @ Itoa (int d)"
  using AddressLiteral_dotted [of "[of_nat a, of_nat b, of_nat c, of_nat d]"]
  by (simp add: ipv4_address dotted_def uint_nat unat_of_nat)

lemma demo_addresses: "ipv4Literal ''10.99.0.1'' = ''10.99.0.1''" "ipv4Literal ''10.99.0.2'' = ''10.99.0.2''"
  "ipv4Literal ''10.99.0.3'' = ''10.99.0.3''" "ipv4Literal ''10.0.0.2'' = ''10.0.0.2''"
proof -
  have n: "Itoa (int 10) = ''10''" "Itoa (int 99) = ''99''" "Itoa (int 0) = ''0''" "Itoa (int 1) = ''1''" "Itoa (int 2) = ''2''"
    "Itoa (int 3) = ''3''" by code_simp+
  show "ipv4Literal ''10.99.0.1'' = ''10.99.0.1''" "ipv4Literal ''10.99.0.2'' = ''10.99.0.2''"
    "ipv4Literal ''10.99.0.3'' = ''10.99.0.3''" "ipv4Literal ''10.0.0.2'' = ''10.0.0.2''"
    using dotted_bytes [of 10 99 0 1] dotted_bytes [of 10 99 0 2] dotted_bytes [of 10 99 0 3] dotted_bytes [of 10 0 0 2]
    by (simp_all only: n) simp_all
qed

lemma demo_boot_loads: "\<exists>b. LoadBootstrap False (Inr demo_boot) = Inr b \<and> bo_Role b = RoleLinker"
  by (simp add: LoadBootstrap_def demo_boot_def boot_defaults_def boot_overlay_def boot_linker_def demo_addresses
      PSKPlaceholder_def Let_def)

theorem bootstrap_gives_linker_witness:
  "\<exists>b. LoadBootstrap False (Inr demo_boot) = Inr b \<and> 0 < la_table b \<and> BuildLinkerReturnRuleset (li_OverlayIP (bo_Linker b)) \<noteq> []"
  using demo_boot_loads bootstrap_gives_linker by blast

definition refused :: LinkerAgent where
  "refused = la_New\<lparr>la_egressKnown := True, la_egressWant := [], la_egressHave := first_list\<rparr>"

definition willing :: "nat runner" where
  "willing cmd = State (\<lambda>n. (Inr '''', Suc n))"

theorem retry_settles_witness:
  "\<not> egress_pending (fst (run_state (retryEgress willing (\<lambda>_ _. State_Monad.return (Inr ())) demo_boot refused) 0)) \<and>
   egress_pending refused"
  using retry_settles [of refused willing "\<lambda>_ _. State_Monad.return (Inr ())" demo_boot 0]
  by (simp add: refused_def egress_pending_def la_New_def installEgress_def Let_def case_prod_beta)

end
