(* ===== verification/Sessions.thy ===== *)
theory Sessions
  imports UsageLedger LinkerAgent
begin

text \<open>
  The control sessions: the frontend's end of a connection (\<open>engine/control.go\<close>, \<open>serve\<close>, \<open>serveLinker\<close>, \<open>listen\<close> and the
  push loops), the backend's (\<open>agent/client.go\<close>) and a linker's (\<open>linker/client.go\<close>). Each end is a machine over what it
  reads; a step gives what it does and where it goes. The JSON codec of the payloads is a parameter, and so is the
  acknowledgement that recording a usage frame gives (\<open>UsageLedger\<close>).
\<close>

section \<open>Frames and payloads\<close>

definition MsgChallenge :: string where "MsgChallenge = ''challenge''"
definition MsgAuth :: string where "MsgAuth = ''auth''"
definition MsgAuthAck :: string where "MsgAuthAck = ''auth_ack''"
definition MsgHello :: string where "MsgHello = ''hello''"
definition MsgConfig :: string where "MsgConfig = ''config''"
definition MsgUsage :: string where "MsgUsage = ''usage''"
definition MsgUsageAck :: string where "MsgUsageAck = ''usage_ack''"
definition MsgLink :: string where "MsgLink = ''link''"
definition MsgPing :: string where "MsgPing = ''ping''"
definition MsgPong :: string where "MsgPong = ''pong''"
definition MsgLinkerConfig :: string where "MsgLinkerConfig = ''linker_config''"

lemmas message_names = MsgChallenge_def MsgAuth_def MsgAuthAck_def MsgHello_def MsgConfig_def MsgUsage_def MsgUsageAck_def
  MsgLink_def MsgPing_def MsgPong_def MsgLinkerConfig_def

text \<open>
  The codec. Reading gives \<open>None\<close> on an error; a hello is also used after one, with whatever had been read by then, so its
  reader tells both.
\<close>

record codec =
  js_Challenge :: "bytes \<Rightarrow> string option"
  js_Auth :: "bytes \<Rightarrow> (string \<times> string) option"
  js_AuthAck :: "bytes \<Rightarrow> string option"
  js_Hello :: "bytes \<Rightarrow> bool \<times> Hello"
  js_Usage :: "bytes \<Rightarrow> UsageMsg option"
  js_Link :: "bytes \<Rightarrow> LinkInfo list option"
  js_Config :: "bytes \<Rightarrow> BackendConfig option"
  js_UsageAck :: "bytes \<Rightarrow> UsageAck option"
  js_LinkerConfig :: "bytes \<Rightarrow> LinkerConfig option"
  je_Challenge :: "string \<Rightarrow> bytes"
  je_Auth :: "string \<times> string \<Rightarrow> bytes"
  je_AuthAck :: "string \<Rightarrow> bytes"
  je_Hello :: "Hello \<Rightarrow> bytes"
  je_UsageAck :: "UsageAck \<Rightarrow> bytes"

text \<open>What a read gives: an error, or a parsed envelope, which a session then authenticates.\<close>

type_synonym input = "frame_error + Envelope"

definition plain_frame :: "string \<Rightarrow> bytes \<Rightarrow> Envelope" where
  "plain_frame typ data = \<lparr>en_Type = typ, en_Data = data, en_Seq = 0, en_MAC = ''''\<rparr>"

definition session_read :: "Session \<Rightarrow> input \<Rightarrow> frame_error + (Envelope \<times> Session)" where
  "session_read s inp = (case inp of Inl e \<Rightarrow> Inl e
     | Inr env \<Rightarrow> (case session_accept s env of Inl e \<Rightarrow> Inl e | Inr s \<Rightarrow> Inr (env, s)))"

text \<open>A write within a session: \<open>wr\<close> says whether it succeeds; one that does not leaves the session as it was.\<close>

definition session_send :: "bool \<Rightarrow> Session \<Rightarrow> string \<Rightarrow> bytes \<Rightarrow> Envelope list \<times> Session" where
  "session_send wr s typ data = (if wr then ([session_envelope s typ data], s\<lparr>ss_tx := ss_tx s + 1\<rparr>) else ([], s))"

section \<open>The frontend's end\<close>

datatype serve_effect =
  SendFrame Envelope | WarnBadFrame | WarnRejected | WarnTampered | WarnNotBackend | WarnUnknownIP | WarnWrongIP
| BackendInfo string string | BackendUp bool | RecordUsage UsageMsg | HandshakeAges "(int \<times> float64) list"
| LinkerUp string string string int | LinkerDown string | LinkerSeen string

datatype serve_phase = AwaitAuth string | AwaitHello Session | ServeBackend Session | ServeLinker string Session | Closed

text \<open>\<open>SplitHostPort\<close> of the remote address has been done: \<open>source\<close> is the peer's address.\<close>

definition serve_start :: "codec \<Rightarrow> string \<Rightarrow> bool \<Rightarrow> serve_effect list \<times> serve_phase" where
  "serve_start js nonce wr =
     (if wr then ([SendFrame (plain_frame MsgChallenge (je_Challenge js nonce))], AwaitAuth nonce) else ([], Closed))"

definition serve_auth :: "codec \<Rightarrow> bytes \<Rightarrow> string \<Rightarrow> bool \<Rightarrow> input \<Rightarrow> serve_effect list \<times> serve_phase" where
  "serve_auth js psk nonce wr inp =
     (case inp of Inl e \<Rightarrow> ([if e = ErrFrameTooLarge then WarnBadFrame else WarnRejected], Closed)
      | Inr env \<Rightarrow>
        (case (if en_Type env \<noteq> MsgAuth then None else js_Auth js (en_Data env)) of None \<Rightarrow> ([WarnRejected], Closed)
         | Some (mac, mine) \<Rightarrow>
             if \<not> VerifyAuth psk nonce mine mac then ([WarnRejected], Closed)
             else (case SignAuthAck psk nonce mine of Inl _ \<Rightarrow> ([WarnRejected], Closed)
               | Inr proof \<Rightarrow>
                   if \<not> wr then ([], Closed)
                   else let ack = SendFrame (plain_frame MsgAuthAck (je_AuthAck js proof))
                     in (case NewSession psk nonce mine False of Inl _ \<Rightarrow> ([ack, WarnRejected], Closed)
                       | Inr sess \<Rightarrow> ([ack], AwaitHello sess)))))"

definition no_hello :: Hello where
  "no_hello = \<lparr>he_Version = '''', he_Hostname = '''', he_Role = '''', he_OverlayIP = '''', he_Table = 0\<rparr>"

definition serve_linker_hello :: "Config \<Rightarrow> string \<Rightarrow> Hello \<Rightarrow> Session \<Rightarrow> serve_effect list \<times> serve_phase" where
  "serve_linker_hello cfg source hello sess =
     (if \<not> KnownLinker cfg (he_OverlayIP hello) then ([WarnUnknownIP], Closed)
      else if source \<noteq> he_OverlayIP hello then ([WarnWrongIP], Closed)
      else ([LinkerUp (he_OverlayIP hello) (he_Version hello) (he_Hostname hello) (he_Table hello)],
            ServeLinker (he_OverlayIP hello) sess))"

definition serve_first :: "codec \<Rightarrow> Config \<Rightarrow> string \<Rightarrow> Session \<Rightarrow> input \<Rightarrow> serve_effect list \<times> serve_phase" where
  "serve_first js cfg source sess inp =
     (case session_read sess inp of
        Inl e \<Rightarrow> (if e = ErrBadFrame then [WarnTampered] else if e = ErrFrameTooLarge then [WarnBadFrame] else [], Closed)
      | Inr (env, sess) \<Rightarrow>
          let hello = (if en_Type env = MsgHello then snd (js_Hello js (en_Data env)) else no_hello)
          in if he_Role hello = RoleLinker then serve_linker_hello cfg source hello sess
             else if \<not> KnownBackend cfg source then ([WarnNotBackend], Closed)
             else ((if en_Type env = MsgHello then [BackendInfo (he_Version hello) (he_Hostname hello)] else []) @ [BackendUp True],
                   ServeBackend sess))"

definition serve_backend ::
    "codec \<Rightarrow> (UsageMsg \<Rightarrow> UsageAck) \<Rightarrow> Session \<Rightarrow> bool \<Rightarrow> input \<Rightarrow> serve_effect list \<times> serve_phase" where
  "serve_backend js record sess wr inp =
     (case session_read sess inp of Inl _ \<Rightarrow> ([BackendUp False], Closed)
      | Inr (env, sess) \<Rightarrow>
          if en_Type env = MsgHello then
            (case js_Hello js (en_Data env) of (ok, h) \<Rightarrow> (if ok then [BackendInfo (he_Version h) (he_Hostname h)] else [], ServeBackend sess))
          else if en_Type env = MsgUsage then
            (case js_Usage js (en_Data env) of None \<Rightarrow> ([], ServeBackend sess)
             | Some u \<Rightarrow>
                 let ack = record u;
                     sent = (if ack = Map.empty then ([], sess) else session_send wr sess MsgUsageAck (je_UsageAck js ack))
                 in (RecordUsage u # map SendFrame (fst sent), ServeBackend (snd sent)))
          else if en_Type env = MsgLink then
            (case js_Link js (en_Data env) of None \<Rightarrow> ([], ServeBackend sess)
             | Some l \<Rightarrow> ([HandshakeAges (map (\<lambda>i. (li_PathID i, li_HandshakeAgeSec i)) l)], ServeBackend sess))
          else if en_Type env = MsgPing then
            (let sent = session_send wr sess MsgPong [] in (map SendFrame (fst sent), ServeBackend (snd sent)))
          else ([], ServeBackend sess))"

definition serve_linker :: "string \<Rightarrow> Session \<Rightarrow> bool \<Rightarrow> input \<Rightarrow> serve_effect list \<times> serve_phase" where
  "serve_linker ip sess wr inp =
     (case session_read sess inp of Inl _ \<Rightarrow> ([LinkerDown ip], Closed)
      | Inr (env, sess) \<Rightarrow>
          let sent = (if en_Type env = MsgPing then session_send wr sess MsgPong [] else ([], sess))
          in (LinkerSeen ip # map SendFrame (fst sent), ServeLinker ip (snd sent)))"

fun serve_frame ::
    "codec \<Rightarrow> bytes \<Rightarrow> Config \<Rightarrow> string \<Rightarrow> (UsageMsg \<Rightarrow> UsageAck) \<Rightarrow> serve_phase \<Rightarrow> bool \<Rightarrow> input \<Rightarrow> serve_effect list \<times> serve_phase" where
  "serve_frame js psk cfg source record (AwaitAuth nonce) wr inp = serve_auth js psk nonce wr inp"
| "serve_frame js psk cfg source record (AwaitHello sess) wr inp = serve_first js cfg source sess inp"
| "serve_frame js psk cfg source record (ServeBackend sess) wr inp = serve_backend js record sess wr inp"
| "serve_frame js psk cfg source record (ServeLinker ip sess) wr inp = serve_linker ip sess wr inp"
| "serve_frame js psk cfg source record Closed wr inp = ([], Closed)"

text \<open>What the push loops write: a configuration whenever its version is not the one last pushed, and keepalives.\<close>

definition push_due :: "uint64 \<Rightarrow> uint64 \<times> bool \<Rightarrow> bool" where
  "push_due v pushed \<longleftrightarrow> snd pushed \<or> v \<noteq> fst pushed"

definition push_tick :: "uint64 \<Rightarrow> bool \<Rightarrow> bytes \<Rightarrow> string \<Rightarrow> (uint64 \<times> bool) \<times> Session \<Rightarrow> (Envelope list \<times> bool) \<times> ((uint64 \<times> bool) \<times> Session)" where
  "push_tick v wr data typ st =
     (case st of (pushed, sess) \<Rightarrow>
        if \<not> push_due v pushed then (([], True), st)
        else (case session_send wr sess typ data of (envs, sess) \<Rightarrow> ((envs, wr), ((v, False), sess))))"

text \<open>One accepted connection: the peer's share first, then a slot; \<open>served\<close> connections are running.\<close>

definition accept_conn :: "string \<Rightarrow> nat \<times> ControlServer \<Rightarrow> bool \<times> (nat \<times> ControlServer)" where
  "accept_conn ip st =
     (case st of (served, s) \<Rightarrow>
        (case claimSource ip s of (ok, s) \<Rightarrow>
           if \<not> ok then (False, (served, s))
           else if served < maxControlConns then (True, (served + 1, s))
           else (False, (served, releaseSource ip s))))"

definition conn_done :: "string \<Rightarrow> nat \<times> ControlServer \<Rightarrow> nat \<times> ControlServer" where
  "conn_done ip st = (case st of (served, s) \<Rightarrow> (served - 1, releaseSource ip s))"

section \<open>The dialling ends\<close>

datatype client_phase = AwaitChallenge | AwaitAck string | Connected Session | Ended

datatype client_effect =
  Send Envelope | ApplyPushed BackendConfig | DropAcked UsageAck | ApplyNetworks "string list" | WarnBadConfig | WarnBadAck

definition client_challenge :: "codec \<Rightarrow> bytes \<Rightarrow> string \<Rightarrow> bool \<Rightarrow> input \<Rightarrow> client_effect list \<times> client_phase" where
  "client_challenge js psk mine wr inp =
     (case inp of Inl _ \<Rightarrow> ([], Ended)
      | Inr env \<Rightarrow>
        (case (if en_Type env \<noteq> MsgChallenge then None else js_Challenge js (en_Data env)) of None \<Rightarrow> ([], Ended)
         | Some ch \<Rightarrow>
             (case SignAuth psk ch mine of Inl _ \<Rightarrow> ([], Ended)
              | Inr mac \<Rightarrow> if \<not> wr then ([], Ended) else ([Send (plain_frame MsgAuth (je_Auth js (mac, mine)))], AwaitAck ch))))"

definition client_ack :: "codec \<Rightarrow> bytes \<Rightarrow> string \<Rightarrow> Hello \<Rightarrow> string \<Rightarrow> bool \<Rightarrow> input \<Rightarrow> client_effect list \<times> client_phase" where
  "client_ack js psk mine hello ch wr inp =
     (case inp of Inl _ \<Rightarrow> ([], Ended)
      | Inr env \<Rightarrow>
        (case (if en_Type env \<noteq> MsgAuthAck then None else js_AuthAck js (en_Data env)) of None \<Rightarrow> ([], Ended)
         | Some mac \<Rightarrow>
             if \<not> VerifyAuthAck psk ch mine mac then ([], Ended)
             else (case NewSession psk ch mine True of Inl _ \<Rightarrow> ([], Ended)
               | Inr sess \<Rightarrow>
                   if \<not> wr then ([], Ended)
                   else (case session_send wr sess MsgHello (je_Hello js hello) of (envs, sess) \<Rightarrow> (map Send envs, Connected sess)))))"

definition agent_frame :: "codec \<Rightarrow> Session \<Rightarrow> bool \<Rightarrow> input \<Rightarrow> client_effect list \<times> client_phase" where
  "agent_frame js sess wr inp =
     (case session_read sess inp of Inl _ \<Rightarrow> ([], Ended)
      | Inr (env, sess) \<Rightarrow>
          if en_Type env = MsgConfig then
            (case js_Config js (en_Data env) of None \<Rightarrow> ([WarnBadConfig], Connected sess) | Some cfg \<Rightarrow> ([ApplyPushed cfg], Connected sess))
          else if en_Type env = MsgUsageAck then
            (case js_UsageAck js (en_Data env) of None \<Rightarrow> ([WarnBadAck], Connected sess) | Some ack \<Rightarrow> ([DropAcked ack], Connected sess))
          else if en_Type env = MsgPing then
            (case session_send wr sess MsgPong [] of (envs, sess) \<Rightarrow> (map Send envs, Connected sess))
          else ([], Connected sess))"

definition linker_frame :: "codec \<Rightarrow> Session \<Rightarrow> bool \<Rightarrow> input \<Rightarrow> client_effect list \<times> client_phase" where
  "linker_frame js sess wr inp =
     (case session_read sess inp of Inl _ \<Rightarrow> ([], Ended)
      | Inr (env, sess) \<Rightarrow>
          if en_Type env = MsgPing then
            (case session_send wr sess MsgPong [] of (envs, sess) \<Rightarrow> (map Send envs, Connected sess))
          else if en_Type env \<noteq> MsgLinkerConfig then ([], Connected sess)
          else (case js_LinkerConfig js (en_Data env) of None \<Rightarrow> ([], Connected sess)
                | Some cfg \<Rightarrow> ([ApplyNetworks (lc_EgressCIDRs cfg)], Connected sess)))"

text \<open>The two sessions, which differ in their hello and in what they take once connected.\<close>

definition client_frame ::
    "(Session \<Rightarrow> bool \<Rightarrow> input \<Rightarrow> client_effect list \<times> client_phase) \<Rightarrow> codec \<Rightarrow> bytes \<Rightarrow> string \<Rightarrow> Hello \<Rightarrow>
     client_phase \<Rightarrow> bool \<Rightarrow> input \<Rightarrow> client_effect list \<times> client_phase" where
  "client_frame dispatch js psk mine hello ph wr inp =
     (case ph of AwaitChallenge \<Rightarrow> client_challenge js psk mine wr inp
      | AwaitAck ch \<Rightarrow> client_ack js psk mine hello ch wr inp
      | Connected sess \<Rightarrow> dispatch sess wr inp
      | Ended \<Rightarrow> ([], Ended))"

definition runSession :: "codec \<Rightarrow> bytes \<Rightarrow> string \<Rightarrow> string \<Rightarrow> string \<Rightarrow> client_phase \<Rightarrow> bool \<Rightarrow> input \<Rightarrow> client_effect list \<times> client_phase" where
  "runSession js psk mine version host =
     client_frame (agent_frame js) js psk mine (no_hello\<lparr>he_Version := version, he_Hostname := host\<rparr>)"

definition linker_session ::
    "codec \<Rightarrow> Bootstrap \<Rightarrow> string \<Rightarrow> string \<Rightarrow> string \<Rightarrow> client_phase \<Rightarrow> bool \<Rightarrow> input \<Rightarrow> client_effect list \<times> client_phase" where
  "linker_session js boot mine version host =
     client_frame (linker_frame js) js (boot_Key boot) mine
       \<lparr>he_Version = version, he_Hostname = host, he_Role = RoleLinker, he_OverlayIP = li_OverlayIP (bo_Linker boot), he_Table = la_table boot\<rparr>"

text \<open>The wait before a linker dials again.\<close>

definition linker_backoff :: "duration \<Rightarrow> duration" where
  "linker_backoff b = (if b < 30 * 1000000000 then b * 2 else b)"

section \<open>Runs\<close>

text \<open>A run of an end over what it reads, with what every write comes to.\<close>

fun run_end :: "('p \<Rightarrow> bool \<Rightarrow> input \<Rightarrow> 'e list \<times> 'p) \<Rightarrow> 'p \<Rightarrow> (bool \<times> input) list \<Rightarrow> 'e list \<times> 'p" where
  "run_end step ph [] = ([], ph)"
| "run_end step ph ((wr, inp) # inps) =
     (case step ph wr inp of (effs, ph) \<Rightarrow> (case run_end step ph inps of (rest, ph) \<Rightarrow> (effs @ rest, ph)))"

end
