(* ===== verification/SessionProps.thy ===== *)
theory SessionProps
  imports Sessions
begin

text \<open>
  What the handshake and the session are worth. A dialling end acts on nothing that the holder of the shared secret has
  not sent it in this session, in this direction; the frontend takes usage only from the backend's address and lists a
  linker only under the configured address it dials from; and two honest ends that meet reach paired sessions, over which
  \<open>Wire\<close> delivers. The link is whatever the inputs say: frames may be lost, altered, injected or repeated at will.
\<close>

section \<open>Runs\<close>

lemma run_end_effects:
  assumes "P ph"
    and "\<And>ph wr inp. P ph \<Longrightarrow> (wr, inp) \<in> set inps \<Longrightarrow> P (snd (step ph wr inp)) \<and> (\<forall>e \<in> set (fst (step ph wr inp)). Q e)"
  shows "\<forall>e \<in> set (fst (run_end step ph inps)). Q e"
  using assms
proof (induction inps arbitrary: ph)
  case (Cons i inps)
  obtain wr inp where i: "i = (wr, inp)" by fastforce
  have one: "P (snd (step ph wr inp)) \<and> (\<forall>e \<in> set (fst (step ph wr inp)). Q e)"
    by (rule Cons.prems(2) [OF Cons.prems(1)]) (simp add: i)
  then have "\<forall>e \<in> set (fst (run_end step (snd (step ph wr inp)) inps)). Q e"
    by (intro Cons.IH) (use Cons.prems(2) in auto)
  with one i show ?case by (auto simp: case_prod_beta)
qed simp

text \<open>The frames read, and a frame sealed under the key of two nonces for one direction.\<close>

definition heard :: "(bool \<times> input) list \<Rightarrow> Envelope \<Rightarrow> bool" where
  "heard inps env \<longleftrightarrow> Inr env \<in> snd ` set inps"

definition session_key :: "bytes \<Rightarrow> string \<Rightarrow> string \<Rightarrow> bytes" where
  "session_key psk serverNonce clientNonce = hmac_sha256 psk (bytes_of sessionLabel @ bytes_of serverNonce @ bytes_of clientNonce)"

definition sealed :: "bytes \<Rightarrow> string \<Rightarrow> string \<Rightarrow> string \<Rightarrow> Envelope \<Rightarrow> bool" where
  "sealed psk serverNonce clientNonce label env \<longleftrightarrow>
     en_MAC env = frameMAC (session_key psk serverNonce clientNonce) label (en_Seq env) (en_Type env) (en_Data env)"

definition in_session :: "bytes \<Rightarrow> string \<Rightarrow> string \<Rightarrow> bool \<Rightarrow> Session \<Rightarrow> bool" where
  "in_session psk serverNonce clientNonce dialler s \<longleftrightarrow>
     ss_key s = session_key psk serverNonce clientNonce \<and> ss_rxLabel s = (if dialler then frameToClient else frameToServer)"

lemma new_in_session: "NewSession psk a b d = Inr s \<Longrightarrow> in_session psk a b d s"
  by (auto simp: NewSession_def in_session_def session_key_def split: if_splits)

lemma send_in_session: "in_session psk a b d (snd (session_send wr s typ data)) = in_session psk a b d s"
  by (simp add: session_send_def in_session_def)

lemma read_in_session:
  assumes "session_read s inp = Inr (env, s')" and "in_session psk a b d s"
  shows "inp = Inr env \<and> in_session psk a b d s' \<and> sealed psk a b (if d then frameToClient else frameToServer) env"
  using assms by (auto simp: session_read_def session_accept_def in_session_def sealed_def split: sum.splits if_splits)

section \<open>The dialling ends\<close>

definition frontend_proved :: "codec \<Rightarrow> bytes \<Rightarrow> string \<Rightarrow> string \<Rightarrow> (bool \<times> input) list \<Rightarrow> bool" where
  "frontend_proved js psk ch mine inps \<longleftrightarrow>
     (\<exists>env mac. heard inps env \<and> en_Type env = MsgAuthAck \<and> js_AuthAck js (en_Data env) = Some mac \<and> VerifyAuthAck psk ch mine mac)"

text \<open>The frame that asks for an effect.\<close>

fun asks_for :: "codec \<Rightarrow> Envelope \<Rightarrow> client_effect \<Rightarrow> bool" where
  "asks_for js env (ApplyPushed cfg) = (en_Type env = MsgConfig \<and> js_Config js (en_Data env) = Some cfg)"
| "asks_for js env (DropAcked ack) = (en_Type env = MsgUsageAck \<and> js_UsageAck js (en_Data env) = Some ack)"
| "asks_for js env (ApplyNetworks cidrs) =
     (en_Type env = MsgLinkerConfig \<and> map_option lc_EgressCIDRs (js_LinkerConfig js (en_Data env)) = Some cidrs)"
| "asks_for js env _ = True"

definition vouched :: "codec \<Rightarrow> bytes \<Rightarrow> string \<Rightarrow> (bool \<times> input) list \<Rightarrow> client_effect \<Rightarrow> bool" where
  "vouched js psk mine inps e \<longleftrightarrow>
     (\<exists>ch env. frontend_proved js psk ch mine inps \<and> heard inps env \<and> sealed psk ch mine frameToClient env \<and> asks_for js env e)"

fun client_inv :: "codec \<Rightarrow> bytes \<Rightarrow> string \<Rightarrow> (bool \<times> input) list \<Rightarrow> client_phase \<Rightarrow> bool" where
  "client_inv js psk mine inps (Connected s) = (\<exists>ch. frontend_proved js psk ch mine inps \<and> in_session psk ch mine True s)"
| "client_inv js psk mine inps _ = True"

lemma dispatch_step:
  assumes "dispatch \<in> {agent_frame js, linker_frame js}" and "client_inv js psk mine inps (Connected s)" and "(wr, inp) \<in> set inps"
  shows "client_inv js psk mine inps (snd (dispatch s wr inp)) \<and>
    (\<forall>e \<in> set (fst (dispatch s wr inp)). (\<forall>env. e \<noteq> Send env) \<longrightarrow> vouched js psk mine inps e)"
proof (cases "session_read s inp")
  case (Inl x)
  then show ?thesis using assms(1) by (auto simp: agent_frame_def linker_frame_def)
next
  case (Inr r)
  obtain env s' where r: "r = (env, s')" by fastforce
  obtain ch where ch: "frontend_proved js psk ch mine inps" "in_session psk ch mine True s" using assms(2) by auto
  have got: "inp = Inr env" "in_session psk ch mine True s'" "sealed psk ch mine frameToClient env"
    using read_in_session [OF Inr [unfolded r] ch(2)] by simp_all
  then have "heard inps env" using assms(3) by (force simp: heard_def)
  then have v: "vouched js psk mine inps e" if "asks_for js env e" for e
    using that ch(1) got(3) by (auto simp: vouched_def)
  have inv: "client_inv js psk mine inps (Connected s')" using ch(1) got(2) by auto
  have sent: "session_send wr s' ty data = (envs, s2) \<Longrightarrow> client_inv js psk mine inps (Connected s2)" for ty data envs s2
    using ch(1) got(2) send_in_session [of psk ch mine True wr s' ty data] by auto
  show ?thesis using assms(1) inv v unfolding insert_iff empty_iff
    by (elim disjE) (simp_all add: agent_frame_def linker_frame_def Inr r split: option.splits prod.splits, auto dest: sent)
qed

lemma client_step:
  assumes "dispatch \<in> {agent_frame js, linker_frame js}" and "client_inv js psk mine inps ph" and "(wr, inp) \<in> set inps"
  shows "client_inv js psk mine inps (snd (client_frame dispatch js psk mine hello ph wr inp)) \<and>
    (\<forall>e \<in> set (fst (client_frame dispatch js psk mine hello ph wr inp)). (\<forall>env. e \<noteq> Send env) \<longrightarrow> vouched js psk mine inps e)"
proof (cases ph)
  case AwaitChallenge
  then show ?thesis by (auto simp: client_frame_def client_challenge_def split: sum.splits option.splits)
next
  case (AwaitAck ch)
  show ?thesis
  proof (cases "\<exists>env mac sess. inp = Inr env \<and> en_Type env = MsgAuthAck \<and> js_AuthAck js (en_Data env) = Some mac \<and>
      VerifyAuthAck psk ch mine mac \<and> NewSession psk ch mine True = Inr sess \<and> wr")
    case True
    then obtain env mac sess where h: "inp = Inr env" "en_Type env = MsgAuthAck" "js_AuthAck js (en_Data env) = Some mac"
      "VerifyAuthAck psk ch mine mac" "NewSession psk ch mine True = Inr sess" "wr" by blast
    have "heard inps env" using h(1) assms(3) by (force simp: heard_def)
    then have "frontend_proved js psk ch mine inps" using h(2-4) by (auto simp: frontend_proved_def)
    moreover have "in_session psk ch mine True (snd (session_send True sess MsgHello (je_Hello js hello)))"
      using new_in_session [OF h(5)] send_in_session by blast
    ultimately show ?thesis using AwaitAck h by (auto simp: client_frame_def client_ack_def case_prod_beta)
  next
    case False
    then show ?thesis using AwaitAck by (auto simp: client_frame_def client_ack_def split: sum.splits option.splits)
  qed
next
  case (Connected s)
  then show ?thesis using dispatch_step [OF assms(1) _ assms(3), of psk mine s] assms(2) by (simp add: client_frame_def)
qed (simp add: client_frame_def)

text \<open>Whatever a peer, a relay or a repeat puts on the wire, a backend applies a configuration and drops
  acknowledged usage, and a linker loads networks, only on a frame that asks for exactly that, that is sealed for the
  direction from the frontend under the key of the shared secret and both nonces of this session, and only when that
  frontend has proved over this end's own nonce that it holds the secret.\<close>

theorem only_vouched_frames_act:
  assumes "dispatch \<in> {agent_frame js, linker_frame js}"
    and "e \<in> set (fst (run_end (client_frame dispatch js psk mine hello) AwaitChallenge inps))" and "\<forall>env. e \<noteq> Send env"
  shows "\<exists>ch env. frontend_proved js psk ch mine inps \<and> heard inps env \<and> sealed psk ch mine frameToClient env \<and> asks_for js env e"
proof -
  have "\<forall>e \<in> set (fst (run_end (client_frame dispatch js psk mine hello) AwaitChallenge inps)).
      (\<forall>env. e \<noteq> Send env) \<longrightarrow> vouched js psk mine inps e"
    by (rule run_end_effects [where P = "client_inv js psk mine inps"]) (simp, rule client_step [OF assms(1)])
  then show ?thesis using assms(2,3) by (simp add: vouched_def)
qed


section \<open>The frontend's end\<close>

definition peer_proved :: "codec \<Rightarrow> bytes \<Rightarrow> string \<Rightarrow> string \<Rightarrow> (bool \<times> input) list \<Rightarrow> bool" where
  "peer_proved js psk nonce mine inps \<longleftrightarrow>
     (\<exists>env mac. heard inps env \<and> en_Type env = MsgAuth \<and> js_Auth js (en_Data env) = Some (mac, mine) \<and> VerifyAuth psk nonce mine mac)"

text \<open>What an effect needs of the peer: who may ask for it, and the frame that does.\<close>

fun entitled :: "codec \<Rightarrow> Config \<Rightarrow> string \<Rightarrow> Envelope \<Rightarrow> serve_effect \<Rightarrow> bool" where
  "entitled js cfg source env (RecordUsage u) =
     (KnownBackend cfg source \<and> en_Type env = MsgUsage \<and> js_Usage js (en_Data env) = Some u)"
| "entitled js cfg source env (HandshakeAges ages) = (KnownBackend cfg source \<and> en_Type env = MsgLink)"
| "entitled js cfg source env (BackendInfo v h) = KnownBackend cfg source"
| "entitled js cfg source env (BackendUp b) = KnownBackend cfg source"
| "entitled js cfg source env (LinkerUp ip v h t) = (KnownLinker cfg ip \<and> source = ip)"
| "entitled js cfg source env (LinkerSeen ip) = (KnownLinker cfg ip \<and> source = ip)"
| "entitled js cfg source env _ = True"

fun acts_on_state :: "serve_effect \<Rightarrow> bool" where
  "acts_on_state (RecordUsage _) = True"
| "acts_on_state (HandshakeAges _) = True"
| "acts_on_state (BackendInfo _ _) = True"
| "acts_on_state (BackendUp b) = b"
| "acts_on_state (LinkerUp _ _ _ _) = True"
| "acts_on_state (LinkerSeen _) = True"
| "acts_on_state _ = False"

definition granted :: "codec \<Rightarrow> bytes \<Rightarrow> Config \<Rightarrow> string \<Rightarrow> string \<Rightarrow> (bool \<times> input) list \<Rightarrow> serve_effect \<Rightarrow> bool" where
  "granted js psk cfg source nonce inps e \<longleftrightarrow>
     (\<exists>mine env. peer_proved js psk nonce mine inps \<and> heard inps env \<and> sealed psk nonce mine frameToServer env \<and> entitled js cfg source env e)"

fun serve_inv :: "codec \<Rightarrow> bytes \<Rightarrow> Config \<Rightarrow> string \<Rightarrow> string \<Rightarrow> (bool \<times> input) list \<Rightarrow> serve_phase \<Rightarrow> bool" where
  "serve_inv js psk cfg source nonce inps (AwaitAuth n) = (n = nonce)"
| "serve_inv js psk cfg source nonce inps (AwaitHello s) =
     (\<exists>mine. peer_proved js psk nonce mine inps \<and> in_session psk nonce mine False s)"
| "serve_inv js psk cfg source nonce inps (ServeBackend s) =
     (KnownBackend cfg source \<and> (\<exists>mine. peer_proved js psk nonce mine inps \<and> in_session psk nonce mine False s))"
| "serve_inv js psk cfg source nonce inps (ServeLinker ip s) =
     (KnownLinker cfg ip \<and> source = ip \<and> (\<exists>mine. peer_proved js psk nonce mine inps \<and> in_session psk nonce mine False s))"
| "serve_inv js psk cfg source nonce inps Closed = True"

lemma heard_read:
  assumes "session_read s inp = Inr (env, s')" and "in_session psk nonce mine False s" and "peer_proved js psk nonce mine inps"
    and "(wr, inp) \<in> set inps"
  shows "in_session psk nonce mine False s'" and "entitled js cfg source env e \<Longrightarrow> granted js psk cfg source nonce inps e"
proof -
  have got: "inp = Inr env" "in_session psk nonce mine False s'" "sealed psk nonce mine frameToServer env"
    using read_in_session [OF assms(1,2)] by simp_all
  then have "heard inps env" using assms(4) by (force simp: heard_def)
  with got assms(3) show "in_session psk nonce mine False s'"
    and "entitled js cfg source env e \<Longrightarrow> granted js psk cfg source nonce inps e" by (auto simp: granted_def)
qed

lemma auth_step:
  assumes "(wr, inp) \<in> set inps"
  shows "serve_inv js psk cfg source nonce inps (snd (serve_auth js psk nonce wr inp)) \<and>
    (\<forall>e \<in> set (fst (serve_auth js psk nonce wr inp)). \<not> acts_on_state e)"
proof (cases "\<exists>env mac mine proof sess. inp = Inr env \<and> en_Type env = MsgAuth \<and> js_Auth js (en_Data env) = Some (mac, mine) \<and>
    VerifyAuth psk nonce mine mac \<and> SignAuthAck psk nonce mine = Inr proof \<and> wr \<and> NewSession psk nonce mine False = Inr sess")
  case True
  then obtain env mac mine ack sess where h: "inp = Inr env" "en_Type env = MsgAuth" "js_Auth js (en_Data env) = Some (mac, mine)"
    "VerifyAuth psk nonce mine mac" "SignAuthAck psk nonce mine = Inr ack" "wr" "NewSession psk nonce mine False = Inr sess" by blast
  have "heard inps env" using h(1) assms by (force simp: heard_def)
  then have "peer_proved js psk nonce mine inps" using h(2-4) by (auto simp: peer_proved_def)
  with h new_in_session [OF h(7)] show ?thesis by (auto simp: serve_auth_def Let_def)
next
  case False
  then show ?thesis by (auto simp: serve_auth_def Let_def split: sum.splits option.splits)
qed

lemma first_step:
  assumes "serve_inv js psk cfg source nonce inps (AwaitHello s)" and "(wr, inp) \<in> set inps"
  shows "serve_inv js psk cfg source nonce inps (snd (serve_first js cfg source s inp)) \<and>
    (\<forall>e \<in> set (fst (serve_first js cfg source s inp)). acts_on_state e \<longrightarrow> granted js psk cfg source nonce inps e)"
proof (cases "session_read s inp")
  case (Inl x)
  then show ?thesis by (simp add: serve_first_def)
next
  case (Inr r)
  obtain env s' where r: "r = (env, s')" by fastforce
  obtain mine where mine: "peer_proved js psk nonce mine inps" "in_session psk nonce mine False s" using assms(1) by auto
  note got = heard_read [OF Inr [unfolded r] mine(2,1) assms(2)]
  show ?thesis using got(1) mine(1) got(2) [where cfg = cfg and source = source]
    by (auto simp: serve_first_def serve_linker_hello_def Inr r Let_def)
qed

lemma backend_step:
  assumes "serve_inv js psk cfg source nonce inps (ServeBackend s)" and "(wr, inp) \<in> set inps"
  shows "serve_inv js psk cfg source nonce inps (snd (serve_backend js record s wr inp)) \<and>
    (\<forall>e \<in> set (fst (serve_backend js record s wr inp)). acts_on_state e \<longrightarrow> granted js psk cfg source nonce inps e)"
proof (cases "session_read s inp")
  case (Inl x)
  then show ?thesis by (simp add: serve_backend_def)
next
  case (Inr r)
  obtain env s' where r: "r = (env, s')" by fastforce
  obtain mine where mine: "peer_proved js psk nonce mine inps" "in_session psk nonce mine False s" using assms(1) by auto
  have known: "KnownBackend cfg source" using assms(1) by simp
  note got = heard_read [OF Inr [unfolded r] mine(2,1) assms(2)]
  have inv: "serve_inv js psk cfg source nonce inps (ServeBackend s')" using known mine(1) got(1) by auto
  show ?thesis using inv known got(2) [where cfg = cfg and source = source]
    by (simp add: serve_backend_def Inr r Let_def split: option.splits prod.splits, auto simp: send_in_session)
qed


lemma linker_step:
  assumes "serve_inv js psk cfg source nonce inps (ServeLinker ip s)" and "(wr, inp) \<in> set inps"
  shows "serve_inv js psk cfg source nonce inps (snd (serve_linker ip s wr inp)) \<and>
    (\<forall>e \<in> set (fst (serve_linker ip s wr inp)). acts_on_state e \<longrightarrow> granted js psk cfg source nonce inps e)"
proof (cases "session_read s inp")
  case (Inl x)
  then show ?thesis by (simp add: serve_linker_def)
next
  case (Inr r)
  obtain env s' where r: "r = (env, s')" by fastforce
  obtain mine where mine: "peer_proved js psk nonce mine inps" "in_session psk nonce mine False s" using assms(1) by auto
  have known: "KnownLinker cfg ip" "source = ip" using assms(1) by auto
  note got = heard_read [OF Inr [unfolded r] mine(2,1) assms(2)]
  have inv: "serve_inv js psk cfg source nonce inps (ServeLinker ip s')" using known mine(1) got(1) by auto
  show ?thesis using inv known got(2) [where cfg = cfg and source = source]
    by (simp add: serve_linker_def Inr r Let_def, auto simp: send_in_session)
qed

lemma serve_step:
  assumes "serve_inv js psk cfg source nonce inps ph" and "(wr, inp) \<in> set inps"
  shows "serve_inv js psk cfg source nonce inps (snd (serve_frame js psk cfg source record ph wr inp)) \<and>
    (\<forall>e \<in> set (fst (serve_frame js psk cfg source record ph wr inp)). acts_on_state e \<longrightarrow> granted js psk cfg source nonce inps e)"
proof (cases ph)
  case (AwaitAuth n)
  then show ?thesis using auth_step [OF assms(2), of js psk cfg source nonce] assms(1) by simp
next
  case (AwaitHello s)
  then show ?thesis using first_step [of js psk cfg source nonce inps s, OF _ assms(2)] assms(1) by simp
next
  case (ServeBackend s)
  then show ?thesis using backend_step [of js psk cfg source nonce inps s, OF _ assms(2)] assms(1) by simp
next
  case (ServeLinker ip s)
  then show ?thesis using linker_step [of js psk cfg source nonce inps ip s, OF _ assms(2)] assms(1) by simp
qed simp

text \<open>Whatever reaches a connection, the frontend changes state on it only for a peer that has proved over the
  frontend's nonce that it holds the shared secret, on a frame sealed for the direction to the frontend under the key of
  this session, and within that peer's standing: usage is recorded, ages are taken and the backend is shown up only from
  the configured backend address, and a linker is listed and seen only under a configured linker address it dials from.\<close>

theorem frontend_grants_only:
  assumes "e \<in> set (fst (run_end (serve_frame js psk cfg source record) (AwaitAuth nonce) inps))" and "acts_on_state e"
  shows "\<exists>mine env. peer_proved js psk nonce mine inps \<and> heard inps env \<and> sealed psk nonce mine frameToServer env \<and>
    entitled js cfg source env e"
proof -
  have "\<forall>e \<in> set (fst (run_end (serve_frame js psk cfg source record) (AwaitAuth nonce) inps)).
      acts_on_state e \<longrightarrow> granted js psk cfg source nonce inps e"
    by (rule run_end_effects [where P = "serve_inv js psk cfg source nonce inps"]) (simp, rule serve_step)
  then show ?thesis using assms by (simp add: granted_def)
qed

section \<open>Two honest ends\<close>

fun frames_sent :: "serve_effect list \<Rightarrow> Envelope list" where
  "frames_sent [] = []"
| "frames_sent (SendFrame env # es) = env # frames_sent es"
| "frames_sent (e # es) = frames_sent es"

fun frames_said :: "client_effect list \<Rightarrow> Envelope list" where
  "frames_said [] = []"
| "frames_said (Send env # es) = env # frames_said es"
| "frames_said (e # es) = frames_said es"

text \<open>The four frames, each handed to the other end as it was sent.\<close>

definition meet ::
    "codec \<Rightarrow> (serve_phase \<Rightarrow> bool \<Rightarrow> input \<Rightarrow> serve_effect list \<times> serve_phase) \<Rightarrow>
     (client_phase \<Rightarrow> bool \<Rightarrow> input \<Rightarrow> client_effect list \<times> client_phase) \<Rightarrow> string \<Rightarrow> serve_effect list \<times> serve_phase \<times> client_phase" where
  "meet js server client nonce =
     (case serve_start js nonce True of (e0, s0) \<Rightarrow>
      case client AwaitChallenge True (Inr (hd (frames_sent e0))) of (e1, c1) \<Rightarrow>
      case server s0 True (Inr (hd (frames_said e1))) of (e2, s1) \<Rightarrow>
      case client c1 True (Inr (hd (frames_sent e2))) of (e3, c2) \<Rightarrow>
      case server s1 True (Inr (hd (frames_said e3))) of (e4, s2) \<Rightarrow> (e4, s2, c2))"

definition reads_back :: "codec \<Rightarrow> string \<Rightarrow> string \<Rightarrow> Hello \<Rightarrow> bool" where
  "reads_back js nonce mine hello \<longleftrightarrow> js_Challenge js (je_Challenge js nonce) = Some nonce \<and>
     (\<forall>mac. js_Auth js (je_Auth js (mac, mine)) = Some (mac, mine)) \<and> (\<forall>mac. js_AuthAck js (je_AuthAck js mac) = Some mac) \<and>
     js_Hello js (je_Hello js hello) = (True, hello)"

text \<open>Both directions are open: what either end seals next, the other accepts.\<close>

definition open_session :: "Session \<Rightarrow> Session \<Rightarrow> bool" where
  "open_session s c \<longleftrightarrow> paired s c \<and> paired c s"

lemma meet_session:
  assumes "validNonce nonce" and "validNonce mine" and "reads_back js nonce mine hello"
  shows "\<exists>s c. open_session s c \<and>
    meet js (serve_frame js psk cfg source record) (client_frame dispatch js psk mine hello) nonce =
      (if he_Role hello = RoleLinker then (fst (serve_linker_hello cfg source hello s), snd (serve_linker_hello cfg source hello s), Connected c)
       else if KnownBackend cfg source
       then ([BackendInfo (he_Version hello) (he_Hostname hello), BackendUp True], ServeBackend s, Connected c)
       else ([WarnNotBackend], Closed, Connected c))"
proof -
  define key where "key = session_key psk nonce mine"
  define s where "s = \<lparr>ss_key = key, ss_txLabel = frameToClient, ss_rxLabel = frameToServer, ss_tx = 0, ss_rx = 1\<rparr>"
  define c where "c = \<lparr>ss_key = key, ss_txLabel = frameToServer, ss_rxLabel = frameToClient, ss_tx = 1, ss_rx = 0\<rparr>"
  have "open_session s c" by (simp add: open_session_def paired_def s_def c_def)
  moreover have "meet js (serve_frame js psk cfg source record) (client_frame dispatch js psk mine hello) nonce =
      (if he_Role hello = RoleLinker then (fst (serve_linker_hello cfg source hello s), snd (serve_linker_hello cfg source hello s), Connected c)
       else if KnownBackend cfg source
       then ([BackendInfo (he_Version hello) (he_Hostname hello), BackendUp True], ServeBackend s, Connected c)
       else ([WarnNotBackend], Closed, Connected c))"
    using assms unfolding reads_back_def s_def c_def key_def session_key_def
    by (simp add: meet_def serve_start_def client_frame_def client_challenge_def plain_frame_def SignAuth_def controlMAC_def
        serve_auth_def VerifyAuth_def verifyControl_def SignAuthAck_def NewSession_def client_ack_def VerifyAuthAck_def
        session_send_def serve_first_def session_read_def session_accept_def session_envelope_def case_prod_beta Let_def)
  ultimately show ?thesis by blast
qed

text \<open>Two honest ends with the same secret meet: from the challenge on, with every frame delivered as it was sent, the
  frontend ends up serving the backend that dials from its configured address and shows it up, the backend ends up
  connected, and the two sessions are open both ways, so that what either writes the other reads.\<close>

theorem handshake_meets:
  assumes "validNonce nonce" and "validNonce mine" and "KnownBackend cfg source"
    and "reads_back js nonce mine (no_hello\<lparr>he_Version := version, he_Hostname := host\<rparr>)"
  shows "\<exists>s c. open_session s c \<and>
    meet js (serve_frame js psk cfg source record) (runSession js psk mine version host) nonce =
      ([BackendInfo version host, BackendUp True], ServeBackend s, Connected c)"
  using meet_session [OF assms(1,2,4), of psk cfg source "record" "agent_frame js"] assms(3)
  by (auto simp: runSession_def no_hello_def RoleLinker_def)


section \<open>A session in the small\<close>

text \<open>A codec that keeps texts as their bytes, and knows one payload of each other kind.\<close>

definition text_of :: "bytes \<Rightarrow> string" where
  "text_of b = map (\<lambda>w. char_of (unat w)) b"

lemma text_of_bytes [simp]: "text_of (bytes_of s) = s"
proof -
  have "char_of (unat (word_of_nat (of_char c) :: byte)) = c" for c
  proof -
    have "of_char c < (256 :: nat)" using nat_of_char_less_256 by blast
    then have "unat (word_of_nat (of_char c) :: byte) = of_char c" by (simp add: unat_of_nat)
    then show ?thesis by simp
  qed
  then show ?thesis by (simp add: text_of_def bytes_of_def comp_def)
qed

definition demo_hello :: Hello where "demo_hello = no_hello\<lparr>he_Version := ''dev'', he_Hostname := ''home''\<rparr>"

definition demo_codec :: codec where
  "demo_codec = \<lparr>js_Challenge = (\<lambda>b. Some (text_of b)),
     js_Auth = (\<lambda>b. let t = text_of b; n = length t - nonceLen in Some (take n t, drop n t)),
     js_AuthAck = (\<lambda>b. Some (text_of b)), js_Hello = (\<lambda>b. (True, demo_hello)), js_Usage = (\<lambda>b. Some []), js_Link = (\<lambda>b. Some []),
     js_Config = (\<lambda>b. Some (backendConfig Defaults)), js_UsageAck = (\<lambda>b. None), js_LinkerConfig = (\<lambda>b. None),
     je_Challenge = bytes_of, je_Auth = (\<lambda>(mac, mine). bytes_of (mac @ mine)), je_AuthAck = bytes_of, je_Hello = (\<lambda>h. []),
     je_UsageAck = (\<lambda>ack. [])\<rparr>"

definition demo_nonce :: string where "demo_nonce = replicate 32 (CHR ''a'')"
definition demo_mine :: string where "demo_mine = replicate 32 (CHR ''b'')"
definition demo_psk :: bytes where "demo_psk = [1, 2, 3]"

lemma demo_nonces [simp]: "validNonce demo_nonce" "validNonce demo_mine" "length demo_mine = 32"
  by code_simp+

lemma demo_reads_back: "reads_back demo_codec demo_nonce demo_mine (no_hello\<lparr>he_Version := ''dev'', he_Hostname := ''home''\<rparr>)"
  by (simp add: reads_back_def demo_codec_def nonceLen_def demo_hello_def)

lemma demo_backend: "KnownBackend Defaults ''10.99.0.2''"
  by (simp add: KnownBackend_def Defaults_def)

theorem handshake_meets_witness:
  "\<exists>s c. open_session s c \<and>
     meet demo_codec (serve_frame demo_codec demo_psk Defaults ''10.99.0.2'' (\<lambda>_. Map.empty))
       (runSession demo_codec demo_psk demo_mine ''dev'' ''home'') demo_nonce =
     ([BackendInfo ''dev'' ''home'', BackendUp True], ServeBackend s, Connected c)"
  by (rule handshake_meets [OF demo_nonces(1,2) demo_backend demo_reads_back])

text \<open>The frames of either end, sealed under the key of the two nonces.\<close>

definition demo_proof :: "string \<Rightarrow> string" where
  "demo_proof label = hexEncode (hmac_sha256 demo_psk (bytes_of label @ bytes_of demo_nonce @ bytes_of demo_mine))"

definition demo_frame :: "string \<Rightarrow> uint64 \<Rightarrow> string \<Rightarrow> Envelope" where
  "demo_frame label n ty = \<lparr>en_Type = ty, en_Data = [], en_Seq = n,
     en_MAC = frameMAC (session_key demo_psk demo_nonce demo_mine) label n ty []\<rparr>"

definition demo_to_backend :: "(bool \<times> input) list" where
  "demo_to_backend = [(True, Inr (plain_frame MsgChallenge (bytes_of demo_nonce))),
     (True, Inr (plain_frame MsgAuthAck (bytes_of (demo_proof controlAckLabel)))), (True, Inr (demo_frame frameToClient 0 MsgConfig))]"

definition demo_to_frontend :: "(bool \<times> input) list" where
  "demo_to_frontend = [(True, Inr (plain_frame MsgAuth (bytes_of (demo_proof controlLabel @ demo_mine)))),
     (True, Inr (demo_frame frameToServer 0 MsgHello)), (True, Inr (demo_frame frameToServer 1 MsgUsage))]"

lemma demo_applies:
  "ApplyPushed (backendConfig Defaults) \<in>
     set (fst (run_end (client_frame (agent_frame demo_codec) demo_codec demo_psk demo_mine demo_hello) AwaitChallenge demo_to_backend))"
  by (simp add: demo_to_backend_def demo_frame_def demo_proof_def demo_codec_def plain_frame_def client_frame_def client_challenge_def
      SignAuth_def controlMAC_def client_ack_def VerifyAuthAck_def verifyControl_def NewSession_def session_send_def
      agent_frame_def session_read_def session_accept_def session_key_def message_names)

lemma demo_records:
  "RecordUsage [] \<in> set (fst (run_end (serve_frame demo_codec demo_psk Defaults ''10.99.0.2'' (\<lambda>_. Map.empty)) (AwaitAuth demo_nonce) demo_to_frontend))"
  using demo_backend
  by (simp add: demo_to_frontend_def demo_frame_def demo_proof_def demo_codec_def plain_frame_def serve_auth_def SignAuthAck_def
      controlMAC_def VerifyAuth_def verifyControl_def NewSession_def serve_first_def serve_backend_def session_read_def
      session_accept_def session_key_def message_names nonceLen_def demo_hello_def no_hello_def RoleLinker_def Let_def)

theorem only_vouched_frames_act_witness:
  "\<exists>ch env. frontend_proved demo_codec demo_psk ch demo_mine demo_to_backend \<and> heard demo_to_backend env \<and>
     sealed demo_psk ch demo_mine frameToClient env \<and> asks_for demo_codec env (ApplyPushed (backendConfig Defaults))"
  by (rule only_vouched_frames_act [OF _ demo_applies]) simp_all

theorem frontend_grants_only_witness:
  "\<exists>mine env. peer_proved demo_codec demo_psk demo_nonce mine demo_to_frontend \<and> heard demo_to_frontend env \<and>
     sealed demo_psk demo_nonce mine frameToServer env \<and> entitled demo_codec Defaults ''10.99.0.2'' env (RecordUsage [])"
  by (rule frontend_grants_only [OF demo_records]) simp

end
