(* ===== verification/ProtectRuleset.thy ===== *)
theory ProtectRuleset
  imports Rulesets ProtectProps
begin

text \<open>
  The table of the edge filter (\<open>sysx/protect.go\<close>, \<open>BuildProtectRuleset\<close>): its sets, its park chains and the rules of
  its two hooked chains, as declarations and words before they become text, so that what a rule refers to can be spoken
  of; loading and removing it; and reading its counters and its parked sources back.
\<close>

definition NFTProtectTable :: string where "NFTProtectTable = ''failover_protect''"

section \<open>Sets\<close>

definition sourceSetSize :: int where "sourceSetSize = 262144"
definition rateSetTimeout :: int where "rateSetTimeout = 10"

text \<open>The set of parked sources, a per-source set, the networks of a region, the locked ports of a protocol.\<close>

datatype set_decl =
    BlockedSet int
  | DynSet string int
  | RegionSet string "string list"
  | LockSet string int

fun set_name :: "set_decl \<Rightarrow> string" where
  "set_name (BlockedSet _) = ''blocked''"
| "set_name (DynSet name _) = name"
| "set_name (RegionSet name _) = name"
| "set_name (LockSet proto _) = geoLockSetName proto"

text \<open>What a set holds and how it is kept: \<open>dynamic\<close> for one the packet path adds to, \<open>timeout\<close> for one whose
  elements expire, \<open>interval\<close> for one of networks.\<close>

fun set_type :: "set_decl \<Rightarrow> string" where
  "set_type (LockSet _ _) = ''inet_service''"
| "set_type _ = ''ipv4_addr''"

fun set_flags :: "set_decl \<Rightarrow> string list" where
  "set_flags (BlockedSet _) = [''dynamic'', ''timeout'']"
| "set_flags (DynSet _ timeout) = (if timeout > 0 then [''dynamic'', ''timeout''] else [''dynamic''])"
| "set_flags (RegionSet _ _) = [''interval'']"
| "set_flags (LockSet _ _) = [''dynamic'', ''timeout'']"

fun set_body :: "set_decl \<Rightarrow> string list" where
  "set_body (BlockedSet secs) =
     [''timeout '' @ Itoa secs @ ''s'',
      ''comment '' @ quoted ''sources parked by a rate limit; entries expire on their own'']"
| "set_body (DynSet _ timeout) = (if timeout > 0 then [''timeout '' @ Itoa timeout @ ''s''] else [])"
| "set_body (RegionSet _ elems) =
     [''comment '' @ quoted ''sources allowed to reach the services locked to this region'',
      ''elements = { '' @ geoElements elems @ '' }'']"
| "set_body (LockSet _ secs) =
     [''timeout '' @ Itoa secs @ ''s'',
      ''comment '' @ quoted ''ports whose region lock is engaged; entries release on their own'']"

fun set_size :: "set_decl \<Rightarrow> string list" where
  "set_size (RegionSet _ _) = []"
| "set_size (LockSet _ _) = [''size 65535'']"
| "set_size _ = [''size '' @ Itoa sourceSetSize]"

definition set_lines :: "set_decl \<Rightarrow> string list" where
  "set_lines d =
     [tab @ ''set '' @ set_name d @ '' {''] @
     map (\<lambda>l. tab @ tab @ l)
       ([''type '' @ set_type d] @ set_size d @ [''flags '' @ join_with '','' (set_flags d)] @ set_body d) @
     [tab @ ''}'', '''']"

text \<open>The regions that become sets: one for every set name, the first region of it.\<close>

fun geo_order :: "(string \<rightharpoonup> string list) \<Rightarrow> string list \<Rightarrow> string list \<Rightarrow> string list" where
  "geo_order elems seen [] = []"
| "geo_order elems seen (name # names) =
     (if elems_at elems name = [] \<or> GeoSetName name \<in> set seen then geo_order elems seen names
      else name # geo_order elems (GeoSetName name # seen) names)"

definition region_sets :: "(string \<rightharpoonup> string list) \<Rightarrow> ProtectService list \<Rightarrow> set_decl list" where
  "region_sets elems svs =
     map (\<lambda>name. RegionSet (GeoSetName name) (elems_at elems name)) (geo_order elems [] (concat (map ps_GeoRegions svs)))"

definition lock_sets :: "int \<Rightarrow> ProtectService list \<Rightarrow> set_decl list" where
  "lock_sets secs svs =
     map (\<lambda>proto. LockSet proto secs) (unique_from [] (map ps_Proto (filter (\<lambda>sv. ps_GeoAutoPPS sv > 0) svs)))"

definition override_decls :: "connOverride list \<Rightarrow> set_decl list" where
  "override_decls ovs = concat (map (\<lambda>ov.
     (if co_rateSet ov \<noteq> '''' then [DynSet (co_rateSet ov) rateSetTimeout] else []) @
     (if co_countSet ov \<noteq> '''' then [DynSet (co_countSet ov) 0] else [])) ovs)"

definition protect_sets :: "ProtectSpec \<Rightarrow> set_decl list" where
  "protect_sets s =
     (let elems = geoRegionElems s; svs = geoServices s elems in
      (if sp_BlockSeconds s > 0 then [BlockedSet (sp_BlockSeconds s)] else []) @
      (if sp_NewConnsPerSec s > 0 \<and> sharedConnPorts s overridesConnRate \<noteq> [] then [DynSet ''conn_rate'' rateSetTimeout] else []) @
      (if sp_MaxConnsPerSource s > 0 \<and> sharedConnPorts s overridesConnCount \<noteq> [] then [DynSet ''conn_count'' 0] else []) @
      (if sp_PacketsPerSec s > 0 then [DynSet ''packet_rate'' rateSetTimeout] else []) @
      (if sp_QueriesPerSec s > 0 \<and> sourceEnginePorts s \<noteq> [] then [DynSet ''query_rate'' rateSetTimeout] else []) @
      override_decls (connOverrides s) @ region_sets elems svs @ lock_sets (geoLockSeconds s) svs)"

section \<open>Rules\<close>

text \<open>
  The words of a rule: text, a list of ports, a set the packet is matched against by one of its fields, an element put
  into a set (with a rate of its own, a count of connections, a time to live), a chain it jumps to.
\<close>

datatype set_key = Saddr | Dport

fun key_text :: "set_key \<Rightarrow> string" where
  "key_text Saddr = ''ip saddr''"
| "key_text Dport = ''th dport''"

datatype token =
    Lit string
  | PortsIn "string list"
  | InSet set_key string
  | NotInSet set_key string
  | PutRate string string
  | PutCount string int
  | PutTimed string int
  | Park string
  | JumpTo string

fun token_text :: "token \<Rightarrow> string" where
  "token_text (Lit s) = s"
| "token_text (PortsIn ports) = portSet ports"
| "token_text (InSet key name) = key_text key @ '' @'' @ name @ '' ''"
| "token_text (NotInSet key name) = key_text key @ '' != @'' @ name @ '' ''"
| "token_text (PutRate name rate) = '' add @'' @ name @ '' { '' @ key_text Saddr @ '' limit rate over '' @ rate @ '' } ''"
| "token_text (PutCount name most) = '' add @'' @ name @ '' { '' @ key_text Saddr @ '' ct count over '' @ Itoa most @ '' } ''"
| "token_text (PutTimed name secs) = ''update @'' @ name @ '' { '' @ key_text Dport @ '' timeout '' @ Itoa secs @ ''s } ''"
| "token_text (Park name) = ''add @'' @ name @ '' { '' @ key_text Saddr @ '' }''"
| "token_text (JumpTo name) = ''jump '' @ name"

type_synonym rule = "token list"

definition rule_text :: "rule \<Rightarrow> string" where
  "rule_text ts = tab @ tab @ concat (map token_text ts)"

definition CounterBlocked :: string where "CounterBlocked = ''blocked''"
definition CounterInvalid :: string where "CounterInvalid = ''invalid''"
definition CounterBogusTCP :: string where "CounterBogusTCP = ''bogus-tcp''"
definition CounterSpoofed :: string where "CounterSpoofed = ''spoofed''"
definition CounterLegacyQ :: string where "CounterLegacyQ = ''legacy-query''"
definition CounterConnRate :: string where "CounterConnRate = ''conn-rate''"
definition CounterConnCount :: string where "CounterConnCount = ''conn-count''"
definition CounterPacketRate :: string where "CounterPacketRate = ''packet-rate''"
definition CounterQueryRate :: string where "CounterQueryRate = ''query-rate''"
definition CounterCeiling :: string where "CounterCeiling = ''ceiling''"
definition CounterGeo :: string where "CounterGeo = ''geo''"
definition CounterGeoTrip :: string where "CounterGeoTrip = ''geo-trip''"

definition drop_text :: "string \<Rightarrow> string" where
  "drop_text comment = ''counter drop comment '' @ quoted (nftSafe comment)"

text \<open>A rule as it stands, or one of a limiter, whose end depends on what becomes of a source that trips it.\<close>

datatype item =
    Rule rule
  | Limiter rule string

definition remarks :: "string list \<Rightarrow> item list" where
  "remarks = map (\<lambda>l. Rule [Lit (''# '' @ l)])"

definition rate_text :: "int \<Rightarrow> string" where
  "rate_text rate = Itoa rate @ ''/second burst '' @ Itoa (wrap64 (rate * 2)) @ '' packets''"

definition connRateRule :: "token \<Rightarrow> string \<Rightarrow> int \<Rightarrow> string \<Rightarrow> item" where
  "connRateRule ports name rate comment = Limiter [Lit ''ct state new tcp dport '', ports, PutRate name (rate_text rate)] comment"

definition connCountRule :: "token \<Rightarrow> string \<Rightarrow> int \<Rightarrow> string \<Rightarrow> item" where
  "connCountRule ports name most comment = Limiter [Lit ''ct state new tcp dport '', ports, PutCount name most] comment"

definition bogusTCPMatches :: "string list" where
  "bogusTCPMatches =
     [''tcp flags & (fin|syn) == (fin|syn)'', ''tcp flags & (syn|rst) == (syn|rst)'', ''tcp flags & (fin|rst) == (fin|rst)'',
      ''tcp flags & (fin|ack) == fin'', ''tcp flags & (ack|urg) == urg'', ''tcp flags & (fin|syn|rst|psh|ack|urg) == 0x0'',
      ''tcp flags == (fin|syn|rst|psh|ack|urg)'']"

definition martianSet :: string where
  "martianSet = ''{ 0.0.0.0/8, 10.0.0.0/8, 127.0.0.0/8, 169.254.0.0/16, 172.16.0.0/12, '' @
     ''192.168.0.0/16, 224.0.0.0/4, 240.0.0.0/4 }''"

section \<open>The chain before connection tracking\<close>

definition region_rules :: "ProtectSpec \<Rightarrow> (string \<rightharpoonup> string list) \<Rightarrow> ProtectService \<Rightarrow> rule list" where
  "region_rules s elems sv =
     (let ports = ps_Proto sv @ '' dport '' @ portSpec (ps_Port sv) (ps_PortEnd sv) @ '' '';
          lockset = geoLockSetName (ps_Proto sv);
          trip = (if ps_GeoAutoPPS sv > 0
            then [[Lit (ports @ ''limit rate over '' @ Itoa (ps_GeoAutoPPS sv) @ ''/second ''), PutTimed lockset (geoLockSeconds s),
                   Lit (''counter comment '' @ quoted (nftSafe (CounterGeoTrip @ '':'' @ ps_Name sv)))]] else []);
          held = (if ps_GeoAutoPPS sv > 0 then [InSet Dport lockset] else []);
          live = filter (\<lambda>name. elems_at elems name \<noteq> []) (ps_GeoRegions sv);
          dropped = Lit (drop_text (CounterGeo @ '':'' @ ps_Name sv))
      in trip @
         (if ps_GeoBlock sv
          then map (\<lambda>name. [Lit ports] @ held @ [InSet Saddr (GeoSetName name), dropped]) live
          else [[Lit ports] @ held @ map (\<lambda>name. NotInSet Saddr (GeoSetName name)) live @ [dropped]]))"

definition raw_items :: "ProtectSpec \<Rightarrow> item list" where
  "raw_items s =
     (let elems = geoRegionElems s; svs = geoServices s elems; sePorts = sourceEnginePorts s in
      [Rule [Lit ''type filter hook prerouting priority raw; policy accept;''],
       Rule [Lit (''iifname != '' @ quoted (nftSafe (sp_PublicIface s)) @ '' accept'')]] @
      (if sp_BlockSeconds s > 0
       then remarks [''Parked sources cost one set lookup and nothing else.''] @
         [Rule [InSet Saddr ''blocked'', Lit (''counter drop comment '' @ quoted CounterBlocked)]] else []) @
      (if sp_DropBogusTCP s
       then remarks [''Flag combinations no stack produces: scans and crafted floods.''] @
         map (\<lambda>m. Rule [Lit (m @ '' counter drop comment '' @ quoted CounterBogusTCP)]) bogusTCPMatches else []) @
      (if sp_DropSpoofed s
       then remarks [''Source addresses that cannot legitimately arrive from the internet.''] @
         [Rule [Lit (''ip saddr '' @ martianSet @ '' counter drop comment '' @ quoted CounterSpoofed)]] else []) @
      (if sp_DropLegacyQueries s \<and> sePorts \<noteq> []
       then remarks [''The two deprecated Source connectionless queries, dropped before'',
           ''conntrack: GETCHALLENGE (0x57) and A2A_PING (0x69). No client has'',
           ''sent either in over a decade, and both are reflector shapes. The'',
           ''match is the connectionless header then the type byte, exactly as'',
           ''the query rate limiter reads it, so the live queries (0x54-0x56)'',
           ''and in-game traffic are untouched.''] @
         [Rule [Lit ''udp dport '', PortsIn sePorts, Lit ('' '' @ connectionlessMatch @
           '' @th,96,8 { 0x57, 0x69 } counter drop comment '' @ quoted CounterLegacyQ)]] else []) @
      (if svs \<noteq> []
       then remarks [''Region locks: an allow lock drops everything outside its regions,'',
           ''a block lock drops exactly what is inside them. Before conntrack'',
           ''and on every packet, not just new connections: the set answer is'',
           ''fixed per address, so a player the lock admits can never be newly'',
           ''caught by it, while matching statelessly means a barred flood costs'',
           ''no conntrack entry and a lock engaging also ends flows already in'',
           ''progress.''] @
         map Rule (concat (map (region_rules s elems) svs)) else []))"

section \<open>The chain behind connection tracking\<close>

definition override_items :: "connOverride \<Rightarrow> item list" where
  "override_items ov =
     (let sv = co_svc ov; ports = Lit (portSpec (ps_Port sv) (ps_PortEnd sv)) in
      (if co_rateSet ov \<noteq> ''''
       then [connRateRule ports (co_rateSet ov) (ps_NewConnsPerSec sv) (CounterConnRate @ '':'' @ ps_Name sv)] else []) @
      (if co_countSet ov \<noteq> ''''
       then [connCountRule ports (co_countSet ov) (ps_MaxConnsPerSource sv) (CounterConnCount @ '':'' @ ps_Name sv)] else []))"

definition ceiling_item :: "ProtectService \<Rightarrow> item list" where
  "ceiling_item sv =
     (if ps_CeilingPPS sv \<le> 0 then []
      else [Rule [Lit (ps_Proto sv @ '' dport '' @ portSpec (ps_Port sv) (ps_PortEnd sv) @ '' limit rate over '' @
        Itoa (ps_CeilingPPS sv) @ ''/second burst '' @ Itoa (ps_CeilingPPS sv) @ '' packets '' @
        drop_text (CounterCeiling @ '':'' @ ps_Name sv))]])"

definition packet_items :: "ProtectSpec \<Rightarrow> item list" where
  "packet_items s =
     (let udp = spec_ports s ''udp''; sePorts = sourceEnginePorts s in
      (if udp \<noteq> [] \<and> sp_PacketsPerSec s > 0
       then remarks [''Packets per second from one source. A player in a game sends'',
           ''tens of packets a second, so this wants to be generous.''] @
         [Limiter [Lit ''udp dport '', PortsIn udp, PutRate ''packet_rate'' (rate_text (sp_PacketsPerSec s))] CounterPacketRate] else []) @
      (if sePorts \<noteq> [] \<and> sp_QueriesPerSec s > 0
       then remarks [''Source-engine connectionless packets: the queries and connection'',
           ''attempts, which start 0xFFFFFFFF. A player already in the game'',
           ''sends sequence-numbered packets and never matches this, which is'',
           ''what makes a tight limit safe here. @th,64,32 is the first four'',
           ''bytes after the 8-byte UDP header.''] @
         [Limiter [Lit ''udp dport '', PortsIn sePorts, Lit ('' '' @ connectionlessMatch),
           PutRate ''query_rate'' (rate_text (sp_QueriesPerSec s))] CounterQueryRate] else []))"

definition filter_items :: "ProtectSpec \<Rightarrow> item list" where
  "filter_items s =
     (let ratePorts = sharedConnPorts s overridesConnRate; countPorts = sharedConnPorts s overridesConnCount;
          ovs = connOverrides s in
      [Rule [Lit ''type filter hook prerouting priority mangle; policy accept;''],
       Rule [Lit (''iifname != '' @ quoted (nftSafe (sp_PublicIface s)) @ '' accept'')]] @
      (if sp_DropInvalid s
       then remarks [''Packets conntrack cannot place in any connection.''] @
         [Rule [Lit (''ct state invalid counter drop comment '' @ quoted CounterInvalid)]] else []) @
      (if sp_NewConnsPerSec s > 0 \<and> ratePorts \<noteq> []
       then remarks [''Connection attempts per source. Established connections are untouched.''] @
         [connRateRule (PortsIn ratePorts) ''conn_rate'' (sp_NewConnsPerSec s) CounterConnRate] else []) @
      (if sp_MaxConnsPerSource s > 0 \<and> countPorts \<noteq> []
       then remarks [''Concurrent connections held by one source.''] @
         [connCountRule (PortsIn countPorts) ''conn_count'' (sp_MaxConnsPerSource s) CounterConnCount] else []) @
      packet_items s @
      (if ovs \<noteq> []
       then remarks [''Per-service overrides of the connection limits; these rows' ports'',
           ''are excluded from the shared rules above.''] else []) @
      concat (map override_items ovs) @ concat (map ceiling_item (sp_Services s)))"

section \<open>The table\<close>

text \<open>The rules of a chain in the order they are written, each limiter registering its park chain on the way.\<close>

definition limiter_tail :: "bool \<Rightarrow> string \<Rightarrow> parkChains \<Rightarrow> rule \<times> parkChains" where
  "limiter_tail park comment parks =
     (if \<not> park then ([Lit (drop_text comment)], parks)
      else (case park_target comment parks of (name, parks) \<Rightarrow> ([JumpTo name], parks)))"

fun emit_items :: "bool \<Rightarrow> item list \<Rightarrow> parkChains \<Rightarrow> rule list \<times> parkChains" where
  "emit_items park [] parks = ([], parks)"
| "emit_items park (Rule r # items) parks =
     (case emit_items park items parks of (rules, parks) \<Rightarrow> (r # rules, parks))"
| "emit_items park (Limiter r comment # items) parks =
     (case limiter_tail park comment parks of (after, parks) \<Rightarrow>
      case emit_items park items parks of (rules, parks) \<Rightarrow> ((r @ after) # rules, parks))"

definition park_chain_rules :: "parkChain \<Rightarrow> rule list" where
  "park_chain_rules c = [[Park ''blocked''], [Lit (drop_text (pk_comment c))]]"

text \<open>The chains in the order of the text, the park chains ahead of the rules that jump to them.\<close>

definition protect_chains :: "ProtectSpec \<Rightarrow> (string \<times> rule list) list" where
  "protect_chains s =
     (case emit_items (sp_BlockSeconds s > 0) (raw_items s) \<lparr>pks_chains = [], pks_used = []\<rparr> of (raw, parks) \<Rightarrow>
      case emit_items (sp_BlockSeconds s > 0) (filter_items s) parks of (filt, parks) \<Rightarrow>
        map (\<lambda>c. (pk_name c, park_chain_rules c)) (pks_chains parks) @ [(''raw'', raw), (''filter'', filt)])"

text \<open>An empty line follows every chain but the last.\<close>

fun chains_text :: "(string \<times> rule list) list \<Rightarrow> string list" where
  "chains_text [] = []"
| "chains_text ((name, rules) # cs) =
     [tab @ ''chain '' @ name @ '' {''] @ map rule_text rules @ [tab @ ''}''] @ (if cs = [] then [] else ['''']) @ chains_text cs"

definition BuildProtectRuleset :: "ProtectSpec \<Rightarrow> string" where
  "BuildProtectRuleset s =
     (if \<not> spec_active s (sourceEnginePorts s) (geoServices s (geoRegionElems s)) (connOverrides s) then ''''
      else lines_of (
        [''# generated by failover-frontend - do not edit by hand'',
         ''# rate limiting and edge filtering for traffic arriving from the'',
         ''# internet, before it is translated and sent down a tunnel.'',
         ''# every rule is scoped to the public interface, so probes, the'',
         ''# control channel and overlay traffic are out of reach of it.'', ''''] @
        table_head NFTProtectTable @ concat (map set_lines (protect_sets s)) @ chains_text (protect_chains s) @ [''}'']))"

definition ApplyProtectRuleset :: "'k runner \<Rightarrow> 'k writer \<Rightarrow> string \<Rightarrow> string \<Rightarrow> ('k, string + unit) state" where
  "ApplyProtectRuleset r write stateDir ruleset = applyRuleset r write (stateDir @ ''/protect.nft'') ruleset"

definition RemoveProtectRuleset :: "'k runner \<Rightarrow> ('k, unit) state" where
  "RemoveProtectRuleset r = run_all r [delete_table NFTProtectTable]"

section \<open>Reading the table back\<close>

text \<open>
  What the JSON of \<open>nft -j\<close> decodes to, the decoder a parameter: a set with its elements, a rule with its comment and
  its expressions, anything else. An element is bare or carries the seconds it has left; a counter that decodes
  gives the figures present.
\<close>

datatype nft_elem =
    BareText string
  | BareNumber int
  | TimedText string int
  | TimedNumber int int
  | OddElem

record nft_expr =
  ex_counter :: "(int option \<times> int option) option"
  ex_drop :: bool

datatype nft_item =
    NftSet string "nft_elem list"
  | NftRule string "nft_expr list"
  | NftOther

type_synonym nft_decoder = "string \<Rightarrow> nft_item list option"

record ProtectTally =
  ct_Name :: string
  ct_Packets :: int
  ct_Bytes :: int
  ct_Drops :: bool

record BlockedSource =
  bs_Address :: string
  bs_ExpiresSec :: int

record GeoLockedPort =
  gp_Proto :: string
  gp_Port :: int
  gp_ExpiresSec :: int

fun parseBlockedElem :: "nft_elem \<Rightarrow> BlockedSource option" where
  "parseBlockedElem (BareText a) = (if a \<noteq> '''' then Some \<lparr>bs_Address = a, bs_ExpiresSec = 0\<rparr> else None)"
| "parseBlockedElem (TimedText a e) = (if a \<noteq> '''' then Some \<lparr>bs_Address = a, bs_ExpiresSec = e\<rparr> else None)"
| "parseBlockedElem _ = None"

fun parseLockedElem :: "string \<Rightarrow> nft_elem \<Rightarrow> GeoLockedPort option" where
  "parseLockedElem proto (BareNumber p) = (if p \<noteq> 0 then Some \<lparr>gp_Proto = proto, gp_Port = p, gp_ExpiresSec = 0\<rparr> else None)"
| "parseLockedElem proto (TimedNumber p e) = (if p \<noteq> 0 then Some \<lparr>gp_Proto = proto, gp_Port = p, gp_ExpiresSec = e\<rparr> else None)"
| "parseLockedElem proto _ = None"

text \<open>The figures of one rule: every counter among its expressions overwrites what it carries, and a drop anywhere marks it.\<close>

definition rule_counter :: "nft_expr list \<Rightarrow> (int \<times> int \<times> bool) option" where
  "rule_counter es =
     (if list_all (\<lambda>e. ex_counter e = None) es then None
      else Some (foldl (\<lambda>v e. case ex_counter e of Some (Some p, _) \<Rightarrow> p | _ \<Rightarrow> v) 0 es,
                 foldl (\<lambda>v e. case ex_counter e of Some (_, Some b) \<Rightarrow> b | _ \<Rightarrow> v) 0 es, list_ex ex_drop es))"

fun add_counter :: "string \<Rightarrow> int \<times> int \<times> bool \<Rightarrow> ProtectTally list \<Rightarrow> ProtectTally list" where
  "add_counter name (p, b, d) [] = [\<lparr>ct_Name = name, ct_Packets = p, ct_Bytes = b, ct_Drops = d\<rparr>]"
| "add_counter name (p, b, d) (c # cs) =
     (if ct_Name c = name
      then c\<lparr>ct_Packets := wrap64 (ct_Packets c + p), ct_Bytes := wrap64 (ct_Bytes c + b), ct_Drops := ct_Drops c \<or> d\<rparr> # cs
      else c # add_counter name (p, b, d) cs)"

fun count_item :: "ProtectTally list \<times> string list \<Rightarrow> nft_item \<Rightarrow> ProtectTally list \<times> string list" where
  "count_item (cs, present) (NftSet name _) = (cs, name # present)"
| "count_item (cs, present) (NftRule comment es) =
     (if comment = '''' then (cs, present)
      else case rule_counter es of None \<Rightarrow> (cs, present) | Some f \<Rightarrow> (add_counter comment f cs, present))"
| "count_item (cs, present) NftOther = (cs, present)"

definition parseProtectCounters :: "nft_decoder \<Rightarrow> string \<Rightarrow> (ProtectTally list \<times> string list) option" where
  "parseProtectCounters dec out = map_option (foldl count_item ([], [])) (dec out)"

fun set_elems :: "nft_item \<Rightarrow> BlockedSource list \<times> GeoLockedPort list" where
  "set_elems (NftSet name es) =
     ((if name = ''blocked'' then List.map_filter parseBlockedElem es else []),
      concat (map (\<lambda>proto. if name = geoLockSetName proto then List.map_filter (parseLockedElem proto) es else []) [''tcp'', ''udp'']))"
| "set_elems _ = ([], [])"

definition parseProtectSetElems :: "nft_decoder \<Rightarrow> string \<Rightarrow> (BlockedSource list \<times> GeoLockedPort list) option" where
  "parseProtectSetElems dec out =
     map_option (\<lambda>items. (concat (map (fst \<circ> set_elems) items), concat (map (snd \<circ> set_elems) items))) (dec out)"

definition maxBlockedReported :: nat where "maxBlockedReported = 100"

record protect_report =
  rp_counters :: "ProtectTally list"
  rp_blocked :: "BlockedSource list"
  rp_total :: nat
  rp_locked :: "GeoLockedPort list"

text \<open>\<open>sort.Slice\<close> leaves the order of equal keys open; here they keep the order they were listed in.\<close>

definition protect_report_of :: "ProtectTally list \<Rightarrow> BlockedSource list \<Rightarrow> GeoLockedPort list \<Rightarrow> protect_report" where
  "protect_report_of counters blocked locked =
     (let sorted = sort_key (\<lambda>b. - bs_ExpiresSec b) blocked
      in \<lparr>rp_counters = counters,
          rp_blocked = (if length sorted > maxBlockedReported then take maxBlockedReported sorted else sorted),
          rp_total = length sorted, rp_locked = sort_key gp_Port locked\<rparr>)"

fun read_sets ::
    "'k runner \<Rightarrow> nft_decoder \<Rightarrow> string list \<Rightarrow> BlockedSource list \<times> GeoLockedPort list \<Rightarrow>
     ('k, string + (BlockedSource list \<times> GeoLockedPort list)) state" where
  "read_sets r dec [] acc = State_Monad.return (Inr acc)"
| "read_sets r dec (name # names) acc = do {
     out \<leftarrow> r [''nft'', ''-j'', ''list'', ''set'', ''ip'', NFTProtectTable, name];
     case out of Inl e \<Rightarrow> State_Monad.return (Inl e)
     | Inr text \<Rightarrow>
         (case parseProtectSetElems dec text of None \<Rightarrow> State_Monad.return (Inl ''read protection state'')
          | Some (b, l) \<Rightarrow> read_sets r dec names (fst acc @ b, snd acc @ l)) }"

definition ProtectState :: "'k runner \<Rightarrow> nft_decoder \<Rightarrow> ('k, string + protect_report) state" where
  "ProtectState r dec = do {
     out \<leftarrow> r [''nft'', ''-j'', ''-t'', ''list'', ''table'', ''ip'', NFTProtectTable];
     case out of Inl e \<Rightarrow> State_Monad.return (Inl e)
     | Inr text \<Rightarrow>
         (case parseProtectCounters dec text of None \<Rightarrow> State_Monad.return (Inl ''read protection state'')
          | Some (counters, present) \<Rightarrow> do {
              read \<leftarrow> read_sets r dec (filter (\<lambda>n. n \<in> set present) [''blocked'', geoLockSetName ''tcp'', geoLockSetName ''udp'']) ([], []);
              State_Monad.return (case read of Inl e \<Rightarrow> Inl e | Inr (b, l) \<Rightarrow> Inr (protect_report_of counters b l)) }) }"

section \<open>The blocklist's table\<close>

text \<open>Loading and removing the other table of the edge, and its one counter; a rule that has counted nothing is not listed.\<close>

definition ApplyBlocklistRuleset :: "'k runner \<Rightarrow> 'k writer \<Rightarrow> string \<Rightarrow> string \<Rightarrow> ('k, string + unit) state" where
  "ApplyBlocklistRuleset r write stateDir ruleset = applyRuleset r write (stateDir @ ''/blocklist.nft'') ruleset"

definition ApplyBlocklistElements :: "'k runner \<Rightarrow> 'k writer \<Rightarrow> string \<Rightarrow> string \<Rightarrow> ('k, string + unit) state" where
  "ApplyBlocklistElements r write stateDir elements = applyRuleset r write (stateDir @ ''/blocklist-feed.nft'') elements"

definition RemoveBlocklistRuleset :: "'k runner \<Rightarrow> ('k, unit) state" where
  "RemoveBlocklistRuleset r = run_all r [delete_table NFTBlocklistTable]"

definition BlocklistState :: "'k runner \<Rightarrow> nft_decoder \<Rightarrow> ('k, string + ProtectTally) state" where
  "BlocklistState r dec = do {
     out \<leftarrow> r [''nft'', ''-j'', ''-t'', ''list'', ''table'', ''ip'', NFTBlocklistTable];
     State_Monad.return (case out of Inl e \<Rightarrow> Inl e
       | Inr text \<Rightarrow>
           (case parseProtectCounters dec text of None \<Rightarrow> Inl ''read protection state''
            | Some (counters, present) \<Rightarrow>
                (case find (\<lambda>c. ct_Name c = CounterBlocklist) counters of Some c \<Rightarrow> Inr c
                 | None \<Rightarrow> Inr \<lparr>ct_Name = CounterBlocklist, ct_Packets = 0, ct_Bytes = 0, ct_Drops = True\<rparr>))) }"

end
