(* ===== verification/ProtectTableProps.thy ===== *)
theory ProtectTableProps
  imports ProtectRuleset "HOL-Library.Multiset"
begin

text \<open>
  The generated table of the edge filter is closed: nft refuses a whole table, and every limit in it, over one set that
  is declared twice, over a rule that names a set or a chain the table does not have, and over a set that is not of the
  kind a rule uses it as. And what the counters are read back into is bounded and loses no parked source that has longer
  to wait than one it keeps.
\<close>

section \<open>What a rule mentions\<close>

text \<open>
  What nft asks of a word, given the sets of its table. A list of ports is not empty. A set that is matched against is
  declared and holds what the packet's field is. A set that is added to from the packet path is besides declared
  \<open>dynamic\<close>; one whose elements count connections has no \<open>timeout\<close> flag, and one whose elements are given a time to
  live has it.
\<close>

fun key_type :: "set_key \<Rightarrow> string" where
  "key_type Saddr = ''ipv4_addr''"
| "key_type Dport = ''inet_service''"

definition matchable :: "set_decl list \<Rightarrow> set_key \<Rightarrow> string \<Rightarrow> bool" where
  "matchable ds key name \<longleftrightarrow> list_ex (\<lambda>d. set_name d = name \<and> set_type d = key_type key) ds"

definition addable :: "set_decl list \<Rightarrow> set_key \<Rightarrow> string \<Rightarrow> (string list \<Rightarrow> bool) \<Rightarrow> bool" where
  "addable ds key name flags \<longleftrightarrow>
     list_ex (\<lambda>d. set_name d = name \<and> set_type d = key_type key \<and> ''dynamic'' \<in> set (set_flags d) \<and> flags (set_flags d)) ds"

fun token_ok :: "set_decl list \<Rightarrow> token \<Rightarrow> bool" where
  "token_ok ds (Lit _) = True"
| "token_ok ds (PortsIn ports) = (ports \<noteq> [])"
| "token_ok ds (InSet key name) = matchable ds key name"
| "token_ok ds (NotInSet key name) = matchable ds key name"
| "token_ok ds (PutRate name _) = addable ds Saddr name (\<lambda>_. True)"
| "token_ok ds (PutCount name _) = addable ds Saddr name (\<lambda>flags. ''timeout'' \<notin> set flags)"
| "token_ok ds (PutTimed name _) = addable ds Dport name (\<lambda>flags. ''timeout'' \<in> set flags)"
| "token_ok ds (Park name) = addable ds Saddr name (\<lambda>_. True)"
| "token_ok ds (JumpTo _) = True"

abbreviation rules_ok :: "set_decl list \<Rightarrow> rule list \<Rightarrow> bool" where
  "rules_ok ds \<equiv> list_all (list_all (token_ok ds))"

text \<open>A set of networks has the flag for networks, and an element.\<close>

fun decl_ok :: "set_decl \<Rightarrow> bool" where
  "decl_ok (RegionSet name elems) = (elems \<noteq> [] \<and> ''interval'' \<in> set (set_flags (RegionSet name elems)))"
| "decl_ok _ = True"

lemma matchableI: "d \<in> set ds \<Longrightarrow> set_name d = name \<Longrightarrow> set_type d = key_type key \<Longrightarrow> matchable ds key name"
  by (auto simp: matchable_def list_ex_iff)

lemma addableI:
  "d \<in> set ds \<Longrightarrow> set_name d = name \<Longrightarrow> set_type d = key_type key \<Longrightarrow> ''dynamic'' \<in> set (set_flags d) \<Longrightarrow>
   flags (set_flags d) \<Longrightarrow> addable ds key name flags"
  by (auto simp: addable_def list_ex_iff)

fun jumps :: "token \<Rightarrow> string set" where
  "jumps (JumpTo n) = {n}"
| "jumps _ = {}"

definition mentions :: "(token \<Rightarrow> string set) \<Rightarrow> rule list \<Rightarrow> string set" where
  "mentions f rs = (\<Union>t \<in> set (concat rs). f t)"

lemma mentions_simps [simp]:
  "mentions f [] = {}" "mentions f (r # rs) = (\<Union>t \<in> set r. f t) \<union> mentions f rs"
  "mentions f (rs @ rs') = mentions f rs \<union> mentions f rs'"
  by (auto simp: mentions_def)

lemma mentions_concat [simp]: "mentions f (concat rss) = (\<Union>rs \<in> set rss. mentions f rs)"
  by (auto simp: mentions_def)

fun item_words :: "item \<Rightarrow> rule" where
  "item_words (Rule r) = r"
| "item_words (Limiter r _) = r"

abbreviation items_mention :: "(token \<Rightarrow> string set) \<Rightarrow> item list \<Rightarrow> string set" where
  "items_mention f items \<equiv> mentions f (map item_words items)"

lemma items_rules [simp]: "map (item_words \<circ> Rule) rs = rs" "map (\<lambda>x. item_words (Rule (g x))) xs = map g xs"
  by (simp_all add: comp_def)

lemma remarks_mention [simp]: "(\<And>s. f (Lit s) = {}) \<Longrightarrow> items_mention f (remarks ls) = {}"
  by (induction ls) (simp_all add: remarks_def)

lemma lit_rules_mention [simp]: "(\<And>s. f (Lit s) = {}) \<Longrightarrow> mentions f (map (\<lambda>m. [Lit (g m)]) ms) = {}"
  by (induction ms) simp_all

section \<open>Park chains\<close>

text \<open>The chains handed out so far are the names held, each of its own, and every one is a park chain's name.\<close>

definition parks_ok :: "parkChains \<Rightarrow> bool" where
  "parks_ok parks \<longleftrightarrow> set (pks_used parks) = set (map pk_name (pks_chains parks)) \<and> distinct (map pk_name (pks_chains parks)) \<and>
     (\<forall>c \<in> set (pks_chains parks). \<exists>x. pk_name c = ''park_'' @ x)"

lemma park_target_ok:
  assumes "park_target comment parks = (name, parks')" and "parks_ok parks"
  shows "parks_ok parks'" and "pks_chains parks' = pks_chains parks @ [\<lparr>pk_name = name, pk_comment = comment\<rparr>]"
proof -
  obtain nm used where u: "uniqueName (pks_used parks) (foldSetName ''park_'' comment) = (nm, used)" by fastforce
  have n: "nm \<notin> set (pks_used parks) \<and> used = nm # pks_used parks \<and> (\<exists>x. nm = ''park_'' @ x)" by (rule uniqueName_fold [OF u])
  have eq: "name = nm" "parks' = \<lparr>pks_chains = pks_chains parks @ [\<lparr>pk_name = nm, pk_comment = comment\<rparr>], pks_used = used\<rparr>"
    using assms(1) u by (auto simp: park_target_def)
  have old: "set (pks_used parks) = pk_name ` set (pks_chains parks)" "distinct (map pk_name (pks_chains parks))"
    "\<forall>c \<in> set (pks_chains parks). \<exists>x. pk_name c = ''park_'' @ x" using assms(2) by (simp_all add: parks_ok_def)
  obtain x where x: "nm = ''park_'' @ x" using n by blast
  have new: "\<exists>y. nm = ''park_'' @ y" using x by blast
  show "parks_ok parks'" unfolding parks_ok_def eq(2) using n old new by (simp del: append.simps)
  show "pks_chains parks' = pks_chains parks @ [\<lparr>pk_name = name, pk_comment = comment\<rparr>]" by (simp add: eq)
qed

lemma parts_subset: "X = A \<union> B \<union> C \<Longrightarrow> Y = A \<union> D \<Longrightarrow> B \<subseteq> E \<Longrightarrow> C \<subseteq> D \<union> E \<Longrightarrow> X \<subseteq> Y \<union> E"
  by blast

lemma emit_items_ok:
  assumes "emit_items park items parks = (rules, parks')" and "parks_ok parks"
  shows "parks_ok parks' \<and> set (pks_chains parks) \<subseteq> set (pks_chains parks') \<and> (\<not> park \<longrightarrow> parks' = parks) \<and>
    (rules_ok ds (map item_words items) \<longrightarrow> rules_ok ds rules) \<and>
    mentions jumps rules \<subseteq> items_mention jumps items \<union> pk_name ` set (pks_chains parks')"
  using assms
proof (induction items arbitrary: parks rules)
  case Nil
  then show ?case by simp
next
  case (Cons i items)
  show ?case
  proof (cases i)
    case (Rule r)
    obtain rest where e: "emit_items park items parks = (rest, parks')" and eq: "rules = r # rest"
      using Cons.prems(1) by (auto simp: Rule split: prod.splits)
    show ?thesis using Cons.IH [OF e Cons.prems(2)] by (simp add: eq Rule) blast
  next
    case (Limiter r comment)
    obtain after parks1 where t: "limiter_tail park comment parks = (after, parks1)" by fastforce
    obtain rest where e: "emit_items park items parks1 = (rest, parks')" and eq: "rules = (r @ after) # rest"
      using Cons.prems(1) t by (auto simp: Limiter split: prod.splits)
    have p1: "parks_ok parks1 \<and> set (pks_chains parks) \<subseteq> set (pks_chains parks1) \<and> (\<not> park \<longrightarrow> parks1 = parks) \<and>
        list_all (token_ok ds) after \<and>
        (\<Union>t \<in> set after. jumps t) \<subseteq> pk_name ` set (pks_chains parks1)"
    proof (cases park)
      case True
      obtain name where n: "park_target comment parks = (name, parks1)" "after = [JumpTo name]"
        using t True by (auto simp: limiter_tail_def split: prod.splits)
      show ?thesis using park_target_ok [OF n(1) Cons.prems(2)] True by (auto simp: n(2))
    next
      case False
      then show ?thesis using t Cons.prems(2) by (auto simp: limiter_tail_def)
    qed
    note ih = Cons.IH [OF e conjunct1 [OF p1]]
    have sub: "pk_name ` set (pks_chains parks1) \<subseteq> pk_name ` set (pks_chains parks')" using ih by (simp add: image_mono)
    have "mentions jumps rules \<subseteq> items_mention jumps (i # items) \<union> pk_name ` set (pks_chains parks')"
    proof -
      have "mentions jumps rules = (\<Union>t \<in> set r. jumps t) \<union> (\<Union>t \<in> set after. jumps t) \<union> mentions jumps rest"
        by (simp add: eq)
      moreover have "items_mention jumps (i # items) = (\<Union>t \<in> set r. jumps t) \<union> items_mention jumps items" by (simp add: Limiter)
      moreover have "(\<Union>t \<in> set after. jumps t) \<subseteq> pk_name ` set (pks_chains parks')"
        by (rule subset_trans [OF _ sub]) (use p1 in blast)
      moreover have "mentions jumps rest \<subseteq> items_mention jumps items \<union> pk_name ` set (pks_chains parks')" using ih by blast
      ultimately show ?thesis by (rule parts_subset)
    qed
    moreover have "rules_ok ds (map item_words (i # items)) \<longrightarrow> rules_ok ds rules"
      using ih p1 unfolding eq Limiter by simp
    ultimately show ?thesis using ih p1 by (simp only: simp_thms) (meson subset_trans)
  qed
qed

section \<open>Names of sets\<close>

lemma distinct_unique: "distinct (unique_from seen xs) \<and> set (unique_from seen xs) = set xs - set seen"
  by (induction seen xs rule: unique_from.induct) auto

lemma override_decls_names: "map set_name (override_decls ovs) = override_sets ovs"
  by (induction ovs) (auto simp: override_decls_def)

lemma override_names:
  "\<forall>n \<in> set (override_sets (connOverrides_loop taken svs)). \<exists>x. n = ''conn_'' @ x"
proof (induction taken svs rule: connOverrides_loop.induct)
  case (2 taken sv svs)
  show ?case
  proof (cases "\<not> overridesConnRate sv \<and> \<not> overridesConnCount sv")
    case True
    then show ?thesis using 2(1) by simp
  next
    case False
    obtain ov taken' where ov: "conn_override taken sv = (ov, taken')" by (meson surj_pair)
    have eq: "connOverrides_loop taken (sv # svs) = ov # connOverrides_loop taken' svs"
      using False ov by (auto simp only: connOverrides_loop.simps Let_def prod.case if_False)
    obtain rate taken1 where r: "(if overridesConnRate sv then uniqueName taken (foldSetName ''conn_rate_'' (ps_Name sv))
        else ('''', taken)) = (rate, taken1)" by (meson surj_pair)
    obtain cnt taken2 where c: "(if overridesConnCount sv then uniqueName taken1 (foldSetName ''conn_count_'' (ps_Name sv))
        else ('''', taken1)) = (cnt, taken2)" by (meson surj_pair)
    have o: "ov = \<lparr>co_svc = sv, co_rateSet = rate, co_countSet = cnt\<rparr>"
      using ov c unfolding conn_override_def r Let_def prod.case by (simp split: prod.splits)
    have R: "rate = [] \<or> (\<exists>x. rate = ''conn_rate_'' @ x)"
      using r uniqueName_fold [of taken _ _ rate taken1] by (cases "overridesConnRate sv") (simp_all del: append.simps)
    have C: "cnt = [] \<or> (\<exists>x. cnt = ''conn_count_'' @ x)"
      using c uniqueName_fold [of taken1 _ _ cnt taken2] by (cases "overridesConnCount sv") (simp_all del: append.simps)
    from R C have "\<forall>n \<in> set [co_rateSet ov, co_countSet ov]. n \<noteq> [] \<longrightarrow> (\<exists>x. n = ''conn_'' @ x)" unfolding o by auto
    then show ?thesis using 2(2) [OF False ov [symmetric] refl] unfolding eq by auto
  qed
qed simp

lemma geo_name: "\<exists>x. GeoSetName name = ''geo_'' @ x" "\<not> geoNameFoldsToLockSet (GeoSetName name)"
proof -
  have l: "ToLower ''tcp'' = ''tcp''" "ToLower ''udp'' = ''udp''" by (simp_all add: ToLower_def ascii_lower_def)
  show "\<exists>x. GeoSetName name = ''geo_'' @ x" by (simp add: GeoSetName_def foldGeoName_def foldSetName_def Let_def)
  show "\<not> geoNameFoldsToLockSet (GeoSetName name)"
    by (auto simp: GeoSetName_def Let_def geoNameFoldsToLockSet_def geoLockSetName_def l)
qed

lemma geo_order_spec:
  "distinct (map GeoSetName (geo_order elems seen names)) \<and>
   GeoSetName ` set (geo_order elems seen names) = GeoSetName ` {n \<in> set names. elems_at elems n \<noteq> []} - set seen \<and>
   (\<forall>n \<in> set (geo_order elems seen names). elems_at elems n \<noteq> [])"
proof (induction elems seen names rule: geo_order.induct)
  case (2 elems seen name names)
  show ?case
  proof (cases "elems_at elems name = [] \<or> GeoSetName name \<in> set seen")
    case True
    then show ?thesis using 2(1) by auto
  next
    case False
    then show ?thesis using 2(2) by auto
  qed
qed simp

text \<open>The rows of a specification made from a configuration name TCP or UDP in lower case.\<close>

lemma spec_protos: "sv \<in> set (sp_Services (ProtectSpecFrom p cfg)) \<Longrightarrow> ps_Proto sv \<in> {''tcp'', ''udp''}"
  by (auto simp: ProtectSpecFrom_def empty_spec_def protect_service_def split: if_splits)

lemma lock_names:
  assumes "\<forall>sv \<in> set svs. ps_Proto sv \<in> {''tcp'', ''udp''}"
  shows "distinct (map set_name (lock_sets secs svs))"
    and "set_name ` set (lock_sets secs svs) = (\<lambda>sv. geoLockSetName (ps_Proto sv)) ` {sv \<in> set svs. ps_GeoAutoPPS sv > 0}"
    and "\<forall>n \<in> set_name ` set (lock_sets secs svs). geoNameFoldsToLockSet n"
proof -
  have l: "ToLower ''tcp'' = ''tcp''" "ToLower ''udp'' = ''udp''" by (simp_all add: ToLower_def ascii_lower_def)
  let ?ps = "unique_from [] (map ps_Proto (filter (\<lambda>sv. ps_GeoAutoPPS sv > 0) svs))"
  have u: "distinct ?ps" "set ?ps = ps_Proto ` {sv \<in> set svs. ps_GeoAutoPPS sv > 0}"
    using distinct_unique [of "[]" "map ps_Proto (filter (\<lambda>sv. ps_GeoAutoPPS sv > 0) svs)"] by auto
  have "inj_on geoLockSetName (set ?ps)" using assms l by (auto simp: inj_on_def u(2) geoLockSetName_def) (metis l)+
  then show "distinct (map set_name (lock_sets secs svs))" using u(1) by (simp add: lock_sets_def comp_def distinct_map)
  show n: "set_name ` set (lock_sets secs svs) = (\<lambda>sv. geoLockSetName (ps_Proto sv)) ` {sv \<in> set svs. ps_GeoAutoPPS sv > 0}"
    using u(2) by (simp add: lock_sets_def image_image)
  show "\<forall>n \<in> set_name ` set (lock_sets secs svs). geoNameFoldsToLockSet n"
    using assms unfolding n by (auto simp: geoNameFoldsToLockSet_def)
qed

section \<open>What the items mention\<close>

lemma region_rules_jump: "mentions jumps (region_rules s elems sv) = {}"
  by (auto simp: region_rules_def mentions_def Let_def split: if_splits)

lemma raw_items_jump: "items_mention jumps (raw_items s) = {}"
  using region_rules_jump by (auto simp: raw_items_def Let_def comp_def)

lemma override_items_jump: "items_mention jumps (concat (map override_items ovs)) = {}"
  by (induction ovs) (auto simp: override_items_def connRateRule_def connCountRule_def Let_def)

lemma ceiling_items_jump: "items_mention jumps (concat (map ceiling_item svs)) = {}"
  by (induction svs) (simp_all add: ceiling_item_def)

lemma filter_items_jump: "items_mention jumps (filter_items s) = {}"
  using override_items_jump [of "connOverrides s"] ceiling_items_jump
  by (simp add: filter_items_def packet_items_def connRateRule_def connCountRule_def Let_def del: map_concat)

section \<open>A closed table\<close>

lemma remarks_ok [simp]: "rules_ok ds (map item_words (remarks ls))"
  by (induction ls) (simp_all add: remarks_def)

lemma lit_rules_ok [simp]: "rules_ok ds (map (\<lambda>m. [Lit (g m)]) ms)"
  by (induction ms) simp_all

lemma region_matchable:
  assumes "sv \<in> set svs" and "n \<in> set (ps_GeoRegions sv)" and "elems_at elems n \<noteq> []" and "set (region_sets elems svs) \<subseteq> set ds"
  shows "matchable ds Saddr (GeoSetName n)"
proof -
  have "GeoSetName n \<in> GeoSetName ` set (geo_order elems [] (concat (map ps_GeoRegions svs)))"
    using geo_order_spec [of elems "[]" "concat (map ps_GeoRegions svs)"] assms(1-3) by auto
  then obtain m where m: "m \<in> set (geo_order elems [] (concat (map ps_GeoRegions svs)))" "GeoSetName m = GeoSetName n" by (auto elim!: imageE)
  have "RegionSet (GeoSetName m) (elems_at elems m) \<in> set (region_sets elems svs)" using m(1) by (simp add: region_sets_def)
  then have "RegionSet (GeoSetName m) (elems_at elems m) \<in> set ds" using assms(4) by blast
  then show ?thesis by (rule matchableI) (simp_all add: m(2))
qed

lemma lock_declared: "sv \<in> set svs \<Longrightarrow> ps_GeoAutoPPS sv > 0 \<Longrightarrow> LockSet (ps_Proto sv) secs \<in> set (lock_sets secs svs)"
  using distinct_unique [of "[]" "map ps_Proto (filter (\<lambda>sv. ps_GeoAutoPPS sv > 0) svs)"]
  by (auto simp: lock_sets_def image_image)

lemma lock_usable:
  assumes "sv \<in> set svs" and "ps_GeoAutoPPS sv > 0" and "set (lock_sets secs svs) \<subseteq> set ds"
  shows "matchable ds Dport (geoLockSetName (ps_Proto sv))"
    and "addable ds Dport (geoLockSetName (ps_Proto sv)) (\<lambda>flags. ''timeout'' \<in> set flags)"
proof -
  have d: "LockSet (ps_Proto sv) secs \<in> set ds" using lock_declared [OF assms(1,2)] assms(3) by blast
  show "matchable ds Dport (geoLockSetName (ps_Proto sv))" by (rule matchableI [OF d]) simp_all
  show "addable ds Dport (geoLockSetName (ps_Proto sv)) (\<lambda>flags. ''timeout'' \<in> set flags)" by (rule addableI [OF d]) simp_all
qed

lemma region_rules_ok:
  assumes "sv \<in> set svs" and "set (region_sets elems svs) \<subseteq> set ds" and "set (lock_sets (geoLockSeconds s) svs) \<subseteq> set ds"
  shows "rules_ok ds (region_rules s elems sv)"
  using region_matchable [OF assms(1) _ _ assms(2)] lock_usable [OF assms(1) _ assms(3)]
  by (auto simp: region_rules_def Let_def list_all_iff)

lemma protect_sets_parts:
  "sp_BlockSeconds s > 0 \<Longrightarrow> BlockedSet (sp_BlockSeconds s) \<in> set (protect_sets s)"
  "sp_NewConnsPerSec s > 0 \<Longrightarrow> sharedConnPorts s overridesConnRate \<noteq> [] \<Longrightarrow> DynSet ''conn_rate'' rateSetTimeout \<in> set (protect_sets s)"
  "sp_MaxConnsPerSource s > 0 \<Longrightarrow> sharedConnPorts s overridesConnCount \<noteq> [] \<Longrightarrow> DynSet ''conn_count'' 0 \<in> set (protect_sets s)"
  "sp_PacketsPerSec s > 0 \<Longrightarrow> DynSet ''packet_rate'' rateSetTimeout \<in> set (protect_sets s)"
  "sp_QueriesPerSec s > 0 \<Longrightarrow> sourceEnginePorts s \<noteq> [] \<Longrightarrow> DynSet ''query_rate'' rateSetTimeout \<in> set (protect_sets s)"
  "set (override_decls (connOverrides s)) \<subseteq> set (protect_sets s)"
  "set (region_sets (geoRegionElems s) (geoServices s (geoRegionElems s))) \<subseteq> set (protect_sets s)"
  "set (lock_sets (geoLockSeconds s) (geoServices s (geoRegionElems s))) \<subseteq> set (protect_sets s)"
  by (auto simp: protect_sets_def Let_def)

lemma dyn_addable:
  "DynSet name t \<in> set ds \<Longrightarrow> addable ds Saddr name (\<lambda>_. True)"
  "DynSet name 0 \<in> set ds \<Longrightarrow> addable ds Saddr name (\<lambda>flags. ''timeout'' \<notin> set flags)"
  by (auto intro: addableI)

lemma blocked_usable:
  assumes "sp_BlockSeconds s > 0"
  shows "matchable (protect_sets s) Saddr ''blocked''" and "addable (protect_sets s) Saddr ''blocked'' (\<lambda>_. True)"
  using protect_sets_parts(1) [OF assms] by (auto intro: matchableI addableI)

lemma raw_items_ok: "rules_ok (protect_sets s) (map item_words (raw_items s))"
proof -
  let ?svs = "geoServices s (geoRegionElems s)"
  have "rules_ok (protect_sets s) (concat (map (region_rules s (geoRegionElems s)) ?svs))"
    using region_rules_ok [OF _ protect_sets_parts(7,8)] by (simp add: list_all_iff)
  then show ?thesis using blocked_usable(1) [of s] by (simp add: raw_items_def Let_def comp_def)
qed

lemma override_items_ok:
  "set (override_decls ovs) \<subseteq> set ds \<Longrightarrow> rules_ok ds (map item_words (concat (map override_items ovs)))"
proof (induction ovs)
  case (Cons ov ovs)
  have "set (override_decls ovs) \<subseteq> set ds" "co_rateSet ov \<noteq> '''' \<Longrightarrow> DynSet (co_rateSet ov) rateSetTimeout \<in> set ds"
    "co_countSet ov \<noteq> '''' \<Longrightarrow> DynSet (co_countSet ov) 0 \<in> set ds"
    using Cons.prems by (auto simp: override_decls_def)
  then show ?case using Cons.IH
    by (auto simp: override_items_def connRateRule_def connCountRule_def Let_def simp del: map_concat intro: dyn_addable)
qed simp

lemma ceiling_items_ok: "rules_ok ds (map item_words (concat (map ceiling_item svs)))"
  by (induction svs) (simp_all add: ceiling_item_def)

lemma filter_items_ok: "rules_ok (protect_sets s) (map item_words (filter_items s))"
proof -
  have "rules_ok (protect_sets s) (map item_words (packet_items s))"
    using protect_sets_parts(4,5) [of s] by (auto simp: packet_items_def Let_def intro: dyn_addable(1))
  moreover have "rules_ok (protect_sets s) (map item_words (concat (map override_items (connOverrides s))))"
    by (rule override_items_ok [OF protect_sets_parts(6)])
  moreover have "sp_NewConnsPerSec s > 0 \<Longrightarrow> sharedConnPorts s overridesConnRate \<noteq> [] \<Longrightarrow> addable (protect_sets s) Saddr ''conn_rate'' (\<lambda>_. True)"
    "sp_MaxConnsPerSource s > 0 \<Longrightarrow> sharedConnPorts s overridesConnCount \<noteq> [] \<Longrightarrow>
     addable (protect_sets s) Saddr ''conn_count'' (\<lambda>flags. ''timeout'' \<notin> set flags)"
    using protect_sets_parts(2,3) dyn_addable by blast+
  ultimately show ?thesis using ceiling_items_ok [of "protect_sets s" "sp_Services s"]
    by (simp add: filter_items_def connRateRule_def connCountRule_def Let_def del: map_concat)
qed

text \<open>The names the shared limits and the parking use.\<close>

definition shared_names :: "ProtectSpec \<Rightarrow> string list" where
  "shared_names s =
     (if sp_BlockSeconds s > 0 then [''blocked''] else []) @
     (if sp_NewConnsPerSec s > 0 \<and> sharedConnPorts s overridesConnRate \<noteq> [] then [''conn_rate''] else []) @
     (if sp_MaxConnsPerSource s > 0 \<and> sharedConnPorts s overridesConnCount \<noteq> [] then [''conn_count''] else []) @
     (if sp_PacketsPerSec s > 0 then [''packet_rate''] else []) @
     (if sp_QueriesPerSec s > 0 \<and> sourceEnginePorts s \<noteq> [] then [''query_rate''] else [])"

lemma shared_names_spec:
  "distinct (shared_names s)" "set (shared_names s) \<subseteq> {''blocked'', ''conn_rate'', ''conn_count'', ''packet_rate'', ''query_rate''}"
  by (auto simp: shared_names_def)

lemma protect_sets_names:
  "map set_name (protect_sets s) = shared_names s @ override_sets (connOverrides s) @
     map set_name (region_sets (geoRegionElems s) (geoServices s (geoRegionElems s))) @
     map set_name (lock_sets (geoLockSeconds s) (geoServices s (geoRegionElems s)))"
  by (simp add: protect_sets_def shared_names_def override_decls_names Let_def)

lemma set_names_distinct:
  assumes "\<forall>sv \<in> set (sp_Services s). ps_Proto sv \<in> {''tcp'', ''udp''}"
  shows "distinct (map set_name (protect_sets s))"
proof -
  let ?el = "geoRegionElems s" and ?svs = "geoServices s (geoRegionElems s)"
  let ?O = "override_sets (connOverrides s)" and ?R = "map set_name (region_sets ?el ?svs)"
  let ?L = "map set_name (lock_sets (geoLockSeconds s) ?svs)"
  have o: "distinct ?O" "''conn_rate'' \<notin> set ?O" "''conn_count'' \<notin> set ?O" "\<forall>n \<in> set ?O. \<exists>x. n = ''conn_'' @ x"
    using connOverrides_loop_spec [of "[]" "sp_Services s"] override_names [of "[]" "sp_Services s"] by (simp_all add: connOverrides_def)
  have r: "distinct ?R" using geo_order_spec [of ?el "[]" "concat (map ps_GeoRegions ?svs)"] by (simp add: region_sets_def comp_def)
  have rg: "\<forall>n \<in> set ?R. \<exists>name. n = GeoSetName name" by (auto simp: region_sets_def)
  have "\<forall>sv \<in> set ?svs. ps_Proto sv \<in> {''tcp'', ''udp''}" using assms by (simp add: geoServices_def)
  note l = lock_names [OF this, of "geoLockSeconds s"]
  have geo: "\<forall>n \<in> set ?R \<union> set ?L. \<exists>x. n = ''geo_'' @ x"
    using rg geo_name(1) l(2) by (auto simp: geoLockSetName_def)
  have "\<forall>n \<in> set ?R. \<not> geoNameFoldsToLockSet n" using rg geo_name(2) by metis
  moreover have "\<forall>n \<in> set ?L. geoNameFoldsToLockSet n" using l(3) by simp
  ultimately have "set ?R \<inter> set ?L = {}" by blast
  note apart = this
  have hd: "hd (''conn_'' @ x) = CHR ''c''" "hd (''geo_'' @ x) = CHR ''g''" for x :: string by simp_all
  have "\<forall>n \<in> set ?O. hd n = CHR ''c''" using o(4) hd(1) by metis
  moreover have g: "\<forall>n \<in> set ?R \<union> set ?L. hd n = CHR ''g''" using geo hd(2) by metis
  ultimately have "set ?O \<inter> (set ?R \<union> set ?L) = {}" by fastforce
  note apart = apart this
  have "\<forall>n \<in> set (shared_names s). hd n \<noteq> CHR ''g''" using shared_names_spec(2) [of s] by auto
  then have "set (shared_names s) \<inter> (set ?R \<union> set ?L) = {}" using g by blast
  note apart = apart this
  have "set (shared_names s) \<inter> set ?O = {}"
  proof -
    have "c \<notin> set ?O" if "hd c \<noteq> CHR ''c''" for c using that o(4) hd(1) by metis
    then have "''blocked'' \<notin> set ?O" "''packet_rate'' \<notin> set ?O" "''query_rate'' \<notin> set ?O" by simp_all
    then show ?thesis using o(2,3) shared_names_spec(2) [of s] by blast
  qed
  then show ?thesis unfolding protect_sets_names distinct_append set_append
    using apart o(1) r l(1) shared_names_spec(1) [of s] by blast
qed

text \<open>Jump targets are declared by chains that come before the rule.\<close>

fun jumps_back :: "string set \<Rightarrow> (string \<times> rule list) list \<Rightarrow> bool" where
  "jumps_back seen [] = True"
| "jumps_back seen ((name, rules) # cs) = (mentions jumps rules \<subseteq> seen \<and> jumps_back (insert name seen) cs)"

lemma jumps_back_mono: "jumps_back seen cs \<Longrightarrow> seen \<subseteq> seen' \<Longrightarrow> jumps_back seen' cs"
proof (induction seen cs arbitrary: seen' rule: jumps_back.induct)
  case (2 seen name rules cs)
  then show ?case using "2.IH" [of "insert name seen'"] by auto
qed simp

lemma jumps_back_append: "jumps_back seen (cs @ ds) \<longleftrightarrow> jumps_back seen cs \<and> jumps_back (seen \<union> fst ` set cs) ds"
  by (induction seen cs rule: jumps_back.induct) auto

lemma jumps_back_park: "jumps_back seen (map (\<lambda>c. (pk_name c, park_chain_rules c)) cs)"
  by (induction cs arbitrary: seen) (simp_all add: park_chain_rules_def)

lemma decls_ok: "list_all decl_ok (protect_sets s)"
  using geo_order_spec [of "geoRegionElems s" "[]"]
  by (auto simp: protect_sets_def override_decls_def lock_sets_def region_sets_def list_all_iff Let_def)

lemma chains_closed:
  "distinct (map fst (protect_chains s)) \<and> jumps_back {} (protect_chains s) \<and>
   list_all (\<lambda>c. rules_ok (protect_sets s) (snd c)) (protect_chains s)"
proof -
  let ?park = "sp_BlockSeconds s > 0"
  obtain raw parks1 where e1: "emit_items ?park (raw_items s) \<lparr>pks_chains = [], pks_used = []\<rparr> = (raw, parks1)" by fastforce
  obtain filt parks2 where e2: "emit_items ?park (filter_items s) parks1 = (filt, parks2)" by fastforce
  have eq: "protect_chains s = map (\<lambda>c. (pk_name c, park_chain_rules c)) (pks_chains parks2) @ [(''raw'', raw), (''filter'', filt)]"
    by (simp add: protect_chains_def e1 e2)
  have p0: "parks_ok \<lparr>pks_chains = [], pks_used = []\<rparr>" by (simp add: parks_ok_def)
  note s1 = emit_items_ok [OF e1 p0, where ds = "protect_sets s"]
  note s2 = emit_items_ok [OF e2 conjunct1 [OF s1], where ds = "protect_sets s"]
  let ?P = "pk_name ` set (pks_chains parks2)"
  have ok: "distinct (map pk_name (pks_chains parks2))" "\<forall>c \<in> set (pks_chains parks2). \<exists>x. pk_name c = ''park_'' @ x"
    using s2 by (simp_all add: parks_ok_def)
  have d: "distinct (map fst (protect_chains s))" using ok by (auto simp: eq comp_def)
  have sub: "pk_name ` set (pks_chains parks1) \<subseteq> ?P" by (rule image_mono) (use s2 in blast)
  have "mentions jumps raw \<subseteq> ?P" using s1 raw_items_jump [of s] sub by (simp only: Un_empty_left) (meson subset_trans)
  moreover have "mentions jumps filt \<subseteq> ?P" using s2 filter_items_jump [of s] by (simp only: Un_empty_left)
  ultimately have j: "jumps_back {} (protect_chains s)" by (auto simp: eq jumps_back_append jumps_back_park image_image)
  have "list_all (\<lambda>c. rules_ok (protect_sets s) (park_chain_rules c)) (pks_chains parks2)"
  proof (cases "pks_chains parks2 = []")
    case False
    then have ?park using s1 s2 by auto
    then show ?thesis using blocked_usable(2) by (simp add: park_chain_rules_def list_all_iff)
  qed simp
  moreover have "rules_ok (protect_sets s) raw" "rules_ok (protect_sets s) filt"
    using s1 s2 raw_items_ok filter_items_ok by auto
  ultimately have "list_all (\<lambda>c. rules_ok (protect_sets s) (snd c)) (protect_chains s)" by (simp add: eq list_all_iff)
  with d j show ?thesis by blast
qed

text \<open>C32. The table generated from any configuration has none of the faults the source's comments name as ones nft refuses
  a whole table for: no set and no chain is declared twice, whatever the rows and the regions are called; every chain a
  rule jumps to is declared before it; no rule has an empty list of ports; every set a rule matches against or adds to
  is declared and holds what the rule puts to it, addresses or ports; every set added to from the packet path is declared
  \<open>dynamic\<close>, one whose elements count connections without the \<open>timeout\<close> flag and one whose elements carry a time to live
  with it; and no region set is empty or without the \<open>interval\<close> flag.\<close>

theorem protect_table_closed:
  fixes p cfg
  defines "s \<equiv> ProtectSpecFrom p cfg"
  shows "distinct (map set_name (protect_sets s)) \<and> distinct (map fst (protect_chains s)) \<and>
    jumps_back {} (protect_chains s) \<and> list_all (\<lambda>c. rules_ok (protect_sets s) (snd c)) (protect_chains s) \<and>
    list_all decl_ok (protect_sets s)"
proof -
  have "distinct (map set_name (protect_sets s))" by (rule set_names_distinct) (simp add: s_def spec_protos del: insert_iff)
  then show ?thesis using chains_closed [of s] decls_ok by blast
qed

section \<open>What is read back\<close>

text \<open>The report of the parked sources is the first hundred of all of them by the time they have left: none that is
  left out outlasts one that is kept, and the number stands for all.\<close>

lemma report_keeps_longest:
  "\<exists>rest. mset (rp_blocked (protect_report_of cs bs ls) @ rest) = mset bs \<and> rp_total (protect_report_of cs bs ls) = length bs \<and>
     length (rp_blocked (protect_report_of cs bs ls)) = min (length bs) maxBlockedReported \<and>
     (\<forall>b \<in> set (rp_blocked (protect_report_of cs bs ls)). \<forall>c \<in> set rest. bs_ExpiresSec c \<le> bs_ExpiresSec b)"
proof -
  let ?all = "sort_key (\<lambda>b. - bs_ExpiresSec b) bs"
  let ?kept = "take maxBlockedReported ?all" and ?rest = "drop maxBlockedReported ?all"
  have kept: "rp_blocked (protect_report_of cs bs ls) = ?kept" by (simp add: protect_report_of_def Let_def)
  have "sorted (map (\<lambda>b. - bs_ExpiresSec b) (?kept @ ?rest))" by simp
  then have "\<forall>b \<in> set ?kept. \<forall>c \<in> set ?rest. bs_ExpiresSec c \<le> bs_ExpiresSec b"
    by (subst (asm) map_append, subst (asm) sorted_append) auto
  moreover have "mset (?kept @ ?rest) = mset bs" by (simp only: append_take_drop_id) simp
  moreover have "rp_total (protect_report_of cs bs ls) = length bs" by (simp add: protect_report_of_def Let_def)
  moreover have "length ?kept = min (length bs) maxBlockedReported" by (simp add: min.commute)
  ultimately show ?thesis unfolding kept by blast
qed

text \<open>A limit that is several rules is one counter.\<close>

lemma add_counter_names:
  "map ct_Name (add_counter name f cs) = (if name \<in> set (map ct_Name cs) then map ct_Name cs else map ct_Name cs @ [name])"
  by (induction name f cs rule: add_counter.induct) auto

lemma counters_distinct:
  assumes "parseProtectCounters dec out = Some (cs, present)"
  shows "distinct (map ct_Name cs)"
proof -
  have "distinct (map ct_Name (fst (foldl count_item acc items)))" if "distinct (map ct_Name (fst acc))" for acc items
    using that
  proof (induction items arbitrary: acc)
    case (Cons i items)
    have "distinct (map ct_Name (fst (count_item acc i)))"
      using Cons.prems by (cases "(acc, i)" rule: count_item.cases) (auto simp: add_counter_names split: option.splits)
    then show ?case using Cons.IH by simp
  qed simp
  from this [of "([], [])" "the (dec out)"] show ?thesis using assms by (auto simp: parseProtectCounters_def)
qed

end
