(* ===== verification/Shape.thy ===== *)
theory Shape
  imports Host
begin

text \<open>
  Traffic shaping (\<open>sysx/shape.go\<close>): what \<open>tc\<close> shows of an interface, the rates in its text, and the operation that
  installs, corrects, removes or leaves alone the queue discipline of a tunnel. Of \<open>strconv.ParseFloat\<close> the decimal
  numbers are read, the form \<open>tc\<close> prints; of \<open>%g\<close> every double is written, with the fewest digits that read back.
\<close>

section \<open>Decimal numbers\<close>

text \<open>The digits of an exponent, which the parser stops adding up past ten thousand.\<close>

definition exponent_value :: "string \<Rightarrow> int" where
  "exponent_value ds = foldl (\<lambda>e c. if e < 10000 then e * 10 + int (digit_val c) else e) 0 ds"

definition split_sign :: "string \<Rightarrow> int \<times> string" where
  "split_sign s = (case s of CHR ''+'' # t \<Rightarrow> (1, t) | CHR ''-'' # t \<Rightarrow> (- 1, t) | _ \<Rightarrow> (1, s))"

definition parse_exponent :: "string \<Rightarrow> int option" where
  "parse_exponent s =
     (case s of [] \<Rightarrow> Some 0
      | c # t \<Rightarrow> if c \<noteq> CHR ''e'' \<and> c \<noteq> CHR ''E'' then None
          else (case split_sign t of (sign, ds) \<Rightarrow>
            if ds = [] \<or> \<not> list_all is_digit ds then None else Some (sign * exponent_value ds)))"

definition parse_decimal :: "string \<Rightarrow> rat option" where
  "parse_decimal s =
     (case split_sign s of (sign, t) \<Rightarrow>
        let whole = takeWhile is_digit t; t = dropWhile is_digit t;
            (frac, t) = (case t of CHR ''.'' # u \<Rightarrow> (takeWhile is_digit u, dropWhile is_digit u) | _ \<Rightarrow> ([], t))
        in if whole @ frac = [] then None
           else (case parse_exponent t of None \<Rightarrow> None
             | Some e \<Rightarrow> Some (of_int sign * of_nat (dec_value (whole @ frac)) * 10 powi (e - int (length frac)))))"

text \<open>A value out of range is an error.\<close>

definition ParseFloat :: "string \<Rightarrow> float64 option" where
  "ParseFloat s =
     (case parse_decimal s of None \<Rightarrow> None
      | Some v \<Rightarrow> (case f64 v of Fin x \<Rightarrow> Some (Fin x) | _ \<Rightarrow> None))"

text \<open>The place of the first digit: \<open>10 ^ (p - 1) \<le> x < 10 ^ p\<close>.\<close>

definition decimal_point :: "rat \<Rightarrow> int" where
  "decimal_point x =
     (if x \<ge> 1 then int (length (dec_digits (nat \<lfloor>x\<rfloor>))) else 1 - int (length (dec_digits (nat (\<lceil>1 / x\<rceil> - 1)))))"

text \<open>The nearer of the two numbers of \<open>n\<close> digits around \<open>x\<close> among those that read back as \<open>x\<close>.\<close>

definition digits_of :: "rat \<Rightarrow> nat \<Rightarrow> (int \<times> int) option" where
  "digits_of x n =
     (let e = decimal_point x - int n; scaled = x / 10 powi e; k = \<lfloor>scaled\<rfloor>
      in case filter (\<lambda>m. f64 (of_int m * 10 powi e) = Fin x) [k, k + 1] of
           [] \<Rightarrow> None | [m] \<Rightarrow> Some (m, e) | _ \<Rightarrow> Some (if scaled - of_int k \<le> 1 / 2 then k else k + 1, e))"

definition shortest :: "rat \<Rightarrow> int \<times> int" where
  "shortest x = (case List.map_filter (digits_of x) [1..<18] of [] \<Rightarrow> (0, 0) | d # _ \<Rightarrow> d)"

definition exponent_text :: "int \<Rightarrow> string" where
  "exponent_text e = (if e < 0 then ''-'' else ''+'') @ (if \<bar>e\<bar> < 10 then ''0'' else '''') @ dec_digits (nat \<bar>e\<bar>)"

text \<open>The digits without zeros at the end and the place of the point, as a plain number or with an exponent.\<close>

definition g_text :: "string \<Rightarrow> int \<Rightarrow> string" where
  "g_text ds dp =
     (if dp - 1 < - 4 \<or> dp - 1 \<ge> 6
      then hd ds # (if tl ds = [] then '''' else CHR ''.'' # tl ds) @ ''e'' @ exponent_text (dp - 1)
      else if dp \<le> 0 then ''0.'' @ replicate (nat (- dp)) (CHR ''0'') @ ds
      else if int (length ds) \<le> dp then ds @ replicate (nat dp - length ds) (CHR ''0'')
      else take (nat dp) ds @ ''.'' @ drop (nat dp) ds)"

definition format_g :: "float64 \<Rightarrow> string" where
  "format_g v =
     (case v of NaN \<Rightarrow> ''NaN'' | PInf \<Rightarrow> ''+Inf'' | NInf \<Rightarrow> ''-Inf''
      | Fin x \<Rightarrow> if x = 0 then ''0''
          else (case shortest \<bar>x\<bar> of (m, e) \<Rightarrow>
            let ds = dec_digits (nat m)
            in (if x < 0 then ''-'' else '''') @
               g_text (rev (dropWhile (\<lambda>c. c = CHR ''0'') (rev ds))) (int (length ds) + e)))"

section \<open>Rates\<close>

definition ShapeOverheadBytes :: int where "ShapeOverheadBytes = 80"
definition ShapeQdisc :: string where "ShapeQdisc = ''cake''"

definition formatRate :: "float64 \<Rightarrow> string" where
  "formatRate mbit = format_g mbit @ ''mbit''"

definition sameRate :: "float64 \<Rightarrow> float64 \<Rightarrow> bool" where
  "sameRate a b = (let d = fsub a b in flt d (f64 (1 / 10)) \<and> fgt d (f64 (- 1 / 10)))"

definition cut_suffix :: "string \<Rightarrow> string \<Rightarrow> string option" where
  "cut_suffix suf s = (if suffix suf s then Some (take (length s - length suf) s) else None)"

definition parseRate :: "string \<Rightarrow> float64" where
  "parseRate s =
     (let lower = ToLower s;
          unit = (case cut_suffix ''gbit'' lower of Some t \<Rightarrow> Some (t, Fin 1000)
            | None \<Rightarrow> case cut_suffix ''mbit'' lower of Some t \<Rightarrow> Some (t, Fin 1)
            | None \<Rightarrow> case cut_suffix ''kbit'' lower of Some t \<Rightarrow> Some (t, f64 (1 / 1000))
            | None \<Rightarrow> case cut_suffix ''bit'' lower of Some t \<Rightarrow> Some (t, f64 (1 / 1000000))
            | None \<Rightarrow> None)
      in case unit of None \<Rightarrow> Fin 0
         | Some (t, mult) \<Rightarrow> (case ParseFloat (TrimSpace t) of None \<Rightarrow> Fin 0 | Some v \<Rightarrow> fmul v mult))"

section \<open>The queue discipline of an interface\<close>

text \<open>What a listing says: the rate, the kind, and whether the shaper carries this agent's signature.\<close>

type_synonym qdisc = "float64 \<times> string \<times> bool"

definition qdisc_line :: "string \<Rightarrow> string list option" where
  "qdisc_line line = (let fs = Fields line in if length fs < 2 \<or> hd fs \<noteq> ''qdisc'' then None else Some fs)"

definition cake_words :: "string list \<Rightarrow> qdisc" where
  "cake_words fs =
     (let rate = foldl (\<lambda>r (k, v). if k = ''bandwidth'' then parseRate v else r) (Fin 0) (pairs fs);
          overhead = foldl (\<lambda>b (k, v). if k = ''overhead'' then v = Itoa ShapeOverheadBytes else b) False (pairs fs)
      in (rate, fs ! 1, overhead \<and> ''besteffort'' \<in> set fs))"

definition read_qdisc :: "string \<Rightarrow> qdisc" where
  "read_qdisc out =
     (case List.map_filter qdisc_line (split_on (CHR 10) out) of [] \<Rightarrow> (Fin 0, '''', False)
      | fs # _ \<Rightarrow> if fs ! 1 \<noteq> ShapeQdisc then (Fin 0, fs ! 1, False) else cake_words fs)"

definition show_qdisc :: "string \<Rightarrow> command" where
  "show_qdisc iface = [''tc'', ''qdisc'', ''show'', ''dev'', iface]"

definition qdiscInfo :: "'k runner \<Rightarrow> string \<Rightarrow> ('k, string + qdisc) state" where
  "qdiscInfo r iface = do {
     out \<leftarrow> r (show_qdisc iface);
     State_Monad.return (case out of Inl e \<Rightarrow> Inl (''read qdisc on '' @ iface @ '': '' @ e) | Inr text \<Rightarrow> Inr (read_qdisc text)) }"

definition RemoveQdisc :: "'k runner \<Rightarrow> string \<Rightarrow> ('k, unit) state" where
  "RemoveQdisc r iface = run_all r [[''tc'', ''qdisc'', ''del'', ''dev'', iface, ''root'']]"

definition replace_qdisc :: "string \<Rightarrow> float64 \<Rightarrow> command" where
  "replace_qdisc iface mbit =
     [''tc'', ''qdisc'', ''replace'', ''dev'', iface, ''root'', ShapeQdisc, ''bandwidth'', formatRate mbit, ''overhead'',
      Itoa ShapeOverheadBytes, ''besteffort'']"

definition EnsureQdisc :: "'k runner \<Rightarrow> string \<Rightarrow> float64 \<Rightarrow> ('k, string + bool) state" where
  "EnsureQdisc r iface mbit =
     (if iface = '''' then State_Monad.return (Inl ''no interface'')
      else do {
        info \<leftarrow> qdiscInfo r iface;
        case info of Inl e \<Rightarrow> State_Monad.return (Inl e)
        | Inr (have, kind, ours) \<Rightarrow>
            if fle mbit (Fin 0)
            then (if kind \<noteq> ShapeQdisc \<or> \<not> ours then State_Monad.return (Inr False)
                  else do { _ \<leftarrow> RemoveQdisc r iface; State_Monad.return (Inr True) })
            else if kind = ShapeQdisc \<and> ours \<and> sameRate have mbit then State_Monad.return (Inr False)
            else do {
              out \<leftarrow> r (replace_qdisc iface mbit);
              State_Monad.return (case out of
                  Inl e \<Rightarrow> Inl (''shape '' @ iface @ '' at '' @ formatRate mbit @ '': '' @ e) | Inr _ \<Rightarrow> Inr True) } })"

section \<open>Whose shaper it is\<close>

lemma ensure_reads:
  assumes "iface \<noteq> ''''" and "run_state (r (show_qdisc iface)) k = (Inr out, k')" and "read_qdisc out = (rate, kind, ours)"
  shows "run_state (EnsureQdisc r iface mbit) k =
    (if fle mbit (Fin 0)
     then (if kind \<noteq> ShapeQdisc \<or> \<not> ours then (Inr False, k')
           else (Inr True, snd (run_state (r [''tc'', ''qdisc'', ''del'', ''dev'', iface, ''root'']) k')))
     else if kind = ShapeQdisc \<and> ours \<and> sameRate rate mbit then (Inr False, k')
     else (case run_state (r (replace_qdisc iface mbit)) k' of
         (Inl e, k'') \<Rightarrow> (Inl (''shape '' @ iface @ '' at '' @ formatRate mbit @ '': '' @ e), k'') | (Inr _, k'') \<Rightarrow> (Inr True, k'')))"
  using assms by (auto simp: EnsureQdisc_def qdiscInfo_def RemoveQdisc_def split: prod.splits sum.splits)

text \<open>With no rate configured a discipline that does not carry the signature stays; with one, a shaper that is the agent's
  and has that rate stays. Nothing is run but the listing.\<close>

theorem shaper_left_alone:
  assumes "iface \<noteq> ''''" and "run_state (r (show_qdisc iface)) k = (Inr out, k')" and "read_qdisc out = (rate, kind, ours)"
    and "if fle mbit (Fin 0) then kind \<noteq> ShapeQdisc \<or> \<not> ours else kind = ShapeQdisc \<and> ours \<and> sameRate rate mbit"
  shows "run_state (EnsureQdisc r iface mbit) k = (Inr False, k')"
  using ensure_reads [where r = r and k = k and iface = iface, OF assms(1-3), of mbit] assms(4) by (auto split: if_splits)

text \<open>With a rate configured a discipline of another kind is replaced, the operator's own included.\<close>

lemma foreign_replaced:
  assumes "iface \<noteq> ''''" and "run_state (r (show_qdisc iface)) k = (Inr out, k')" and "read_qdisc out = (rate, kind, ours)"
    and "\<not> fle mbit (Fin 0)" and "kind \<noteq> ShapeQdisc" and "run_state (r (replace_qdisc iface mbit)) k' = (Inr x, k'')"
  shows "run_state (EnsureQdisc r iface mbit) k = (Inr True, k'')"
  using ensure_reads [where r = r and k = k and iface = iface, OF assms(1-3), of mbit] assms(4-6) by simp

end
