(* ===== verification/FrontendApply.thy ===== *)
theory FrontendApply
  imports ProtectRuleset Shape
begin

text \<open>
  What the frontend installs of a configuration and keeps installed (\<open>engine/engine.go\<close>): the sequence of a save or a
  start, the source NAT, the edge filter with its reload latch and its sampling, traffic shaping, and the pass that
  repairs what a recreated tunnel lost. An operation is an action over two runners: \<open>live\<close> always acts, \<open>gated\<close> is the
  runner of the mode, which in observe mode runs nothing that changes the host. \<open>applying\<close> says whether it is armed, \<open>up\<close>
  which interfaces exist. \<open>EngineLife\<close> has the same operations as far as the decision depends on them. The result is
  the events recorded, each with its path; lines that only go to the log are left out.
\<close>

type_synonym sys_event = "int \<times> string"

definition or_event :: "string + 'a \<Rightarrow> int \<Rightarrow> (string \<Rightarrow> string) \<Rightarrow> sys_event list" where
  "or_event res path text = (case res of Inl e \<Rightarrow> [(path, text e)] | Inr _ \<Rightarrow> [])"

section \<open>Shaping and source NAT\<close>

fun applyShaping :: "'k runner \<Rightarrow> (string \<Rightarrow> bool) \<Rightarrow> PathConfig list \<Rightarrow> ('k, sys_event list) state" where
  "applyShaping gated up [] = State_Monad.return []"
| "applyShaping gated up (p # ps) =
     (if \<not> up (p_Iface p) then applyShaping gated up ps
      else do {
        res \<leftarrow> EnsureQdisc gated (p_Iface p) (sh_ToBackendMbit (p_Shape p));
        rest \<leftarrow> applyShaping gated up ps;
        State_Monad.return (or_event res (p_ID p) (\<lambda>e. ''could not shape '' @ p_Iface p @ '': '' @ e) @ rest) })"

definition applyEgress :: "'k runner \<Rightarrow> 'k runner \<Rightarrow> 'k writer \<Rightarrow> string \<Rightarrow> Config \<Rightarrow> ('k, sys_event list) state" where
  "applyEgress gated live write stateDir cfg =
     (let ruleset = BuildEgressRuleset cfg
      in if ruleset = '''' then do {
           _ \<leftarrow> RemoveEgressRuleset live;
           _ \<leftarrow> RemoveEgressForwardException live;
           State_Monad.return (if fe_BackendEgress (c_Frontend cfg)
             then [(0, ''backend egress not applied: the frontend has no public interface configured'')] else []) }
         else do {
           _ \<leftarrow> EnsureEgressForwardException live (MatchPrefix (c_Overlay cfg));
           res \<leftarrow> ApplyEgressRuleset gated write stateDir ruleset;
           State_Monad.return (or_event res 0 (\<lambda>e. ''backend egress apply failed: '' @ e)) })"

section \<open>The edge filter\<close>

text \<open>What the engine remembers of the table: whether it is loaded, the ruleset this process loaded into it, and the
  last sample.\<close>

record protect_latch =
  pt_on :: bool
  pt_applied :: string
  pt_counters :: "ProtectTally list"
  pt_blocked :: "BlockedSource list"
  pt_total :: nat
  pt_locked :: "GeoLockedPort list"

definition no_latch :: protect_latch where
  "no_latch = \<lparr>pt_on = False, pt_applied = '''', pt_counters = [], pt_blocked = [], pt_total = 0, pt_locked = []\<rparr>"

definition drop_samples :: "protect_latch \<Rightarrow> protect_latch" where
  "drop_samples pt = pt\<lparr>pt_counters := [], pt_blocked := [], pt_locked := []\<rparr>"

text \<open>A ruleset that this process loaded and nothing has put in doubt since is not loaded again.\<close>

definition latched :: "bool \<Rightarrow> string \<Rightarrow> protect_latch \<Rightarrow> bool" where
  "latched applying ruleset pt \<longleftrightarrow> applying \<and> pt_on pt \<and> pt_applied pt = ruleset"

definition forget_filter :: "protect_latch \<Rightarrow> protect_latch" where
  "forget_filter pt = (drop_samples pt)\<lparr>pt_on := False, pt_applied := ''''\<rparr>"

definition applyProtect ::
    "'k runner \<Rightarrow> 'k runner \<Rightarrow> bool \<Rightarrow> 'k writer \<Rightarrow> string \<Rightarrow> ProtectConfig \<Rightarrow> Config \<Rightarrow> protect_latch \<Rightarrow>
     ('k, protect_latch \<times> sys_event list) state" where
  "applyProtect gated live applying write stateDir pc cfg pt =
     (let ruleset = BuildProtectRuleset (ProtectSpecFrom pc cfg)
      in if ruleset = '''' then do {
           _ \<leftarrow> RemoveProtectRuleset live;
           State_Monad.return (forget_filter pt,
             if pc_Enabled pc \<and> fe_PublicIface (c_Frontend cfg) = ''''
             then [(0, ''protection not applied: the frontend has no public interface configured'')] else []) }
         else if latched applying ruleset pt then State_Monad.return (pt, [])
         else do {
           res \<leftarrow> ApplyProtectRuleset gated write stateDir ruleset;
           State_Monad.return (case res of
               Inl e \<Rightarrow> (pt\<lparr>pt_applied := ''''\<rparr>, [(0, ''protection apply failed: '' @ e)])
             | Inr _ \<Rightarrow> (if applying then pt\<lparr>pt_on := True, pt_applied := ruleset\<rparr> else pt\<lparr>pt_applied := ''''\<rparr>, [])) })"

definition protectSampleIdleAfter :: duration where "protectSampleIdleAfter = seconds 30"

text \<open>Which of the two tables a tick reads: the blocklist's and the filter's.\<close>

definition sample_gate :: "protect_latch \<Rightarrow> bool \<Rightarrow> bool \<Rightarrow> gotime \<Rightarrow> gotime \<Rightarrow> bool \<times> bool" where
  "sample_gate pt enabled blEnabled statusAt now =
     (let on = pt_on pt \<or> enabled
      in if \<not> on \<and> \<not> blEnabled then (False, False)
         else if time_Sub now statusAt > protectSampleIdleAfter then (False, False)
         else (blEnabled, on))"

definition commit_sample :: "string + protect_report \<Rightarrow> protect_latch \<Rightarrow> protect_latch" where
  "commit_sample res pt =
     (case res of
        Inl e \<Rightarrow> (let pt = (drop_samples pt)\<lparr>pt_applied := ''''\<rparr> in if TableMissing (Some e) then pt\<lparr>pt_on := False\<rparr> else pt)
      | Inr rep \<Rightarrow> pt\<lparr>pt_on := True, pt_counters := rp_counters rep, pt_blocked := rp_blocked rep, pt_total := rp_total rep,
          pt_locked := rp_locked rep\<rparr>)"

section \<open>The sequence of a save or a start\<close>

definition install_active :: "'k runner \<Rightarrow> 'k runner \<Rightarrow> Config \<Rightarrow> PathConfig \<Rightarrow> ('k, string + unit) state" where
  "install_active gated live cfg p = (let ov = c_Overlay cfg in do {
     _ \<leftarrow> EnsureControlRoute live (RoutePrefix ov) (ov_BackendIP ov) (ov_FrontendIP ov) (p_Iface p);
     SetActivePath gated (RoutePrefix ov) (ov_FrontendIP ov) (p_Iface p) })"

definition dropSupersededHostRoute :: "'k runner \<Rightarrow> 'k runner \<Rightarrow> bool \<Rightarrow> Config \<Rightarrow> ('k, sys_event list) state" where
  "dropSupersededHostRoute gated live applying cfg =
     (let ov = c_Overlay cfg; host = ov_BackendIP ov @ ''/32''
      in if ov_Subnet ov = '''' \<or> \<not> applying then State_Monad.return []
         else do {
           via \<leftarrow> RouteVia live host 0;
           case via of Inl _ \<Rightarrow> State_Monad.return []
           | Inr dev \<Rightarrow> if dev = '''' then State_Monad.return []
               else do {
                 res \<leftarrow> DeleteRoute gated host;
                 State_Monad.return (case res of
                     Inl e \<Rightarrow> [(0, ''could not remove the superseded '' @ host @ '' route via '' @ dev @ '': '' @ e)]
                   | Inr _ \<Rightarrow> [(0, ''removed the superseded '' @ host @ '' route; '' @ RoutePrefix ov @ '' now carries published traffic'')]) } })"

definition seed_route :: "'k runner \<Rightarrow> (string \<Rightarrow> bool) \<Rightarrow> Config \<Rightarrow> int \<Rightarrow> ('k, unit) state" where
  "seed_route live up cfg active =
     (let ov = c_Overlay cfg
      in if active \<noteq> 0 then State_Monad.return ()
         else (case find (\<lambda>p. up (p_Iface p)) (c_Paths cfg) of None \<Rightarrow> State_Monad.return ()
           | Some p \<Rightarrow> do {
               _ \<leftarrow> EnsureControlRoute live (RoutePrefix ov) (ov_BackendIP ov) (ov_FrontendIP ov) (p_Iface p);
               State_Monad.return () }))"

definition reinstall_active :: "'k runner \<Rightarrow> 'k runner \<Rightarrow> Config \<Rightarrow> int \<Rightarrow> ('k, sys_event list) state" where
  "reinstall_active gated live cfg active =
     (case PathByID cfg active of None \<Rightarrow> State_Monad.return []
      | Some p \<Rightarrow> do {
          res \<leftarrow> install_active gated live cfg p;
          State_Monad.return (or_event res active (\<lambda>e. ''could not reinstall route via '' @ p_Iface p @ '': '' @ e)) })"

definition forward_exceptions :: "'k runner \<Rightarrow> Config \<Rightarrow> ('k, sys_event list) state" where
  "forward_exceptions live cfg = do {
     res \<leftarrow> EnsureForwardExceptions live (MatchPrefix (c_Overlay cfg));
     case res of Inl e \<Rightarrow> State_Monad.return [(0, ''forward exceptions not installed: '' @ e)]
     | Inr _ \<Rightarrow> do { _ \<leftarrow> ForwardIsBlocked live; State_Monad.return [] } }"

text \<open>The whole sequence but for the blocklist, which \<open>Blocklist\<close> has, and the note of the query cache's settings: the latch of the filter, whether the data plane is
  now up, and the events.\<close>

definition install_config ::
    "'k runner \<Rightarrow> 'k runner \<Rightarrow> bool \<Rightarrow> (string \<Rightarrow> bool) \<Rightarrow> 'k writer \<Rightarrow> string \<Rightarrow> ProtectConfig \<Rightarrow> Config \<Rightarrow> int \<Rightarrow>
     protect_latch \<Rightarrow> ('k, protect_latch \<times> bool \<times> sys_event list) state" where
  "install_config gated live applying up write stateDir pc cfg active pt = (let ov = c_Overlay cfg in do {
     addr \<leftarrow> EnsureOverlayAddress live (ov_FrontendIP ov) (ov_Device ov);
     _ \<leftarrow> EnsureSysctls live (map p_Iface (c_Paths cfg));
     probes \<leftarrow> EnsureProbeRoutes live up (c_Paths cfg) (ov_BackendIP ov) (ov_FrontendIP ov);
     _ \<leftarrow> seed_route live up cfg active;
     main \<leftarrow> reinstall_active gated live cfg active;
     host \<leftarrow> dropSupersededHostRoute gated live applying cfg;
     forward \<leftarrow> forward_exceptions live cfg;
     rules \<leftarrow> ApplyRuleset gated write stateDir (BuildRuleset cfg);
     egress \<leftarrow> applyEgress gated live write stateDir cfg;
     protect \<leftarrow> applyProtect gated live applying write stateDir pc cfg pt;
     shaped \<leftarrow> applyShaping gated up (c_Paths cfg);
     State_Monad.return (fst protect, (case rules of Inl _ \<Rightarrow> False | Inr _ \<Rightarrow> applying),
       or_event addr 0 (\<lambda>e. ''overlay address '' @ ov_FrontendIP ov @ '' unavailable: '' @ e) @
       or_event probes 0 (\<lambda>e. ''probe routing incomplete: '' @ e) @ main @ host @ forward @
       or_event rules 0 (\<lambda>e. ''nftables apply failed: '' @ e) @ egress @ snd protect @ shaped) })"

section \<open>Repair\<close>

definition reconcileShaping :: "'k runner \<Rightarrow> bool \<Rightarrow> PathConfig \<Rightarrow> ('k, sys_event list) state" where
  "reconcileShaping gated applying p =
     (let mbit = sh_ToBackendMbit (p_Shape p)
      in if fle mbit (Fin 0) then State_Monad.return []
         else do {
           res \<leftarrow> EnsureQdisc gated (p_Iface p) mbit;
           State_Monad.return (case res of Inl _ \<Rightarrow> []
             | Inr changed \<Rightarrow> if changed \<and> applying
                 then [(p_ID p, ''restored shaping on '' @ p_Iface p @ '' after '' @ p_Name p @ '' was recreated'')] else []) })"

definition restore_filter :: "'k runner \<Rightarrow> PathConfig \<Rightarrow> ('k, sys_event list) state" where
  "restore_filter live p = do {
     rp \<leftarrow> RPFilterOff live (p_Iface p);
     State_Monad.return (case rp of Inl _ \<Rightarrow> []
       | Inr changed \<Rightarrow> if changed
           then [(p_ID p, ''disabled reverse-path filtering on '' @ p_Iface p @ '', which '' @ p_Name p @ '' reset when it was recreated'')]
           else []) }"

definition restore_probe :: "'k runner \<Rightarrow> Config \<Rightarrow> PathConfig \<Rightarrow> ('k, sys_event list) state" where
  "restore_probe live cfg p = (let ov = c_Overlay cfg in do {
     via \<leftarrow> RouteVia live (ov_BackendIP ov @ ''/32'') (p_Table p);
     case via of Inl _ \<Rightarrow> State_Monad.return []
     | Inr dev \<Rightarrow> if dev = p_Iface p then State_Monad.return []
         else do {
           res \<leftarrow> EnsureProbeRoute live p (ov_BackendIP ov) (ov_FrontendIP ov);
           State_Monad.return (case res of Inl _ \<Rightarrow> []
             | Inr _ \<Rightarrow> [(p_ID p, ''restored probe routing for '' @ p_Name p @ '' after '' @ p_Iface p @ '' was recreated'')]) } })"

fun restore_paths :: "'k runner \<Rightarrow> 'k runner \<Rightarrow> bool \<Rightarrow> (string \<Rightarrow> bool) \<Rightarrow> Config \<Rightarrow> PathConfig list \<Rightarrow> ('k, sys_event list) state" where
  "restore_paths gated live applying up cfg [] = State_Monad.return []"
| "restore_paths gated live applying up cfg (p # ps) =
     (if \<not> up (p_Iface p) then restore_paths gated live applying up cfg ps
      else do {
        rp \<leftarrow> restore_filter live p;
        shaped \<leftarrow> reconcileShaping gated applying p;
        probe \<leftarrow> restore_probe live cfg p;
        rest \<leftarrow> restore_paths gated live applying up cfg ps;
        State_Monad.return (rp @ shaped @ probe @ rest) })"

definition restore_control :: "'k runner \<Rightarrow> Config \<Rightarrow> PathConfig \<Rightarrow> ('k, unit) state" where
  "restore_control live cfg p = (let ov = c_Overlay cfg in do {
     via \<leftarrow> RouteVia live (RoutePrefix ov) ControlTable;
     case via of Inl _ \<Rightarrow> State_Monad.return ()
     | Inr dev \<Rightarrow> if dev = p_Iface p then State_Monad.return ()
         else do {
           _ \<leftarrow> EnsureControlRoute live (RoutePrefix ov) (ov_BackendIP ov) (ov_FrontendIP ov) (p_Iface p);
           State_Monad.return () } })"

definition restore_main :: "'k runner \<Rightarrow> 'k runner \<Rightarrow> Config \<Rightarrow> PathConfig \<Rightarrow> ('k, sys_event list) state" where
  "restore_main gated live cfg p = (let ov = c_Overlay cfg in do {
     via \<leftarrow> RouteVia live (RoutePrefix ov) 0;
     case via of Inl _ \<Rightarrow> State_Monad.return []
     | Inr dev \<Rightarrow> if dev = p_Iface p then State_Monad.return []
         else do {
           res \<leftarrow> SetActivePath gated (RoutePrefix ov) (ov_FrontendIP ov) (p_Iface p);
           State_Monad.return (case res of
               Inl e \<Rightarrow> [(p_ID p, ''could not restore the route via '' @ p_Iface p @ '': '' @ e)]
             | Inr _ \<Rightarrow> [(p_ID p, ''restored the route to the backend via '' @ p_Iface p @ '' after it was lost'')]) } })"

text \<open>The pass of the reconciler: nothing after a revert, the paths that are up, and for the active one the control route
  in both modes and the main route in the armed one.\<close>

definition restore_routing ::
    "'k runner \<Rightarrow> 'k runner \<Rightarrow> bool \<Rightarrow> (string \<Rightarrow> bool) \<Rightarrow> bool \<Rightarrow> Config \<Rightarrow> int \<Rightarrow> ('k, sys_event list) state" where
  "restore_routing gated live applying up reverted cfg active =
     (if reverted then State_Monad.return []
      else do {
        paths \<leftarrow> restore_paths gated live applying up cfg (c_Paths cfg);
        case PathByID cfg active of None \<Rightarrow> State_Monad.return paths
        | Some p \<Rightarrow>
            if \<not> up (p_Iface p) then State_Monad.return paths
            else do {
              _ \<leftarrow> restore_control live cfg p;
              if \<not> applying then State_Monad.return paths
              else do {
                main \<leftarrow> restore_main gated live cfg p;
                host \<leftarrow> dropSupersededHostRoute gated live applying cfg;
                State_Monad.return (paths @ main @ host) } } })"

end
