(* ===== verification/FrontendProps.thy ===== *)
theory FrontendProps
  imports FrontendApply
begin

text \<open>
  What observe mode is worth: of everything the sequence of a save and the pass that repairs run for real in it, no
  command is one that decides where published traffic goes.
\<close>

section \<open>Observe mode moves no traffic\<close>

text \<open>The commands that decide where published traffic goes or what is dropped of it: a route of the main table, the
  services' table, the source NAT, the edge filter, and the queue disciplines.\<close>

definition moves_traffic :: "string \<Rightarrow> command \<Rightarrow> bool" where
  "moves_traffic dir cmd \<longleftrightarrow>
     (take 3 cmd \<in> {[''ip'', ''route'', ''replace''], [''ip'', ''route'', ''del'']} \<and> ''table'' \<notin> set cmd) \<or>
     cmd \<in> (\<lambda>f. [''nft'', ''-f'', dir @ f]) ` {''/ruleset.nft'', ''/egress.nft'', ''/protect.nft''} \<or>
     take 3 cmd \<in> {[''tc'', ''qdisc'', ''replace''], [''tc'', ''qdisc'', ''del'']}"

lemma plain_ip [simp]: "obj \<noteq> ''route'' \<Longrightarrow> \<not> moves_traffic dir (''ip'' # obj # args)"
  by (auto simp: moves_traffic_def)

lemma plain_table [simp]: "''table'' \<in> set args \<Longrightarrow> \<not> moves_traffic dir (''ip'' # ''route'' # args)"
  by (auto simp: moves_traffic_def)

lemma plain_show [simp]: "\<not> moves_traffic dir (''ip'' # ''route'' # ''show'' # args)"
  by (auto simp: moves_traffic_def)

lemma plain_nft [simp]: "verb \<noteq> ''-f'' \<Longrightarrow> \<not> moves_traffic dir (''nft'' # verb # args)"
  by (auto simp: moves_traffic_def)

lemma plain_other [simp]: "name \<notin> {''ip'', ''nft'', ''tc''} \<Longrightarrow> \<not> moves_traffic dir (name # args)"
  by (auto simp: moves_traffic_def)

lemma plain_tc [simp]: "\<not> moves_traffic dir (''tc'' # ''qdisc'' # ''show'' # args)"
  by (auto simp: moves_traffic_def)

lemma plain_rule [simp]: "\<not> moves_traffic dir (rule_cmd key value action verb pref)"
  by (simp add: rule_cmd_def)

locale plumbing =
  fixes R :: "'k \<Rightarrow> 'k \<Rightarrow> bool" and live :: "'k runner" and gated :: "'k runner" and save :: "'k writer" and dir :: string
  assumes kept_refl: "reflp R" and kept_trans: "transp R"
    and inert: "\<not> moves_traffic dir c \<Longrightarrow> keeps R (live c)"
    and quiet: "keeps R (gated c)" and files: "keeps R (save path body)"
begin

lemma all: "(\<And>c. c \<in> set cs \<Longrightarrow> \<not> moves_traffic dir c) \<Longrightarrow> keeps R (run_all live cs)"
  by (rule keeps_run_all [OF kept_refl kept_trans inert])

lemma one: "\<not> moves_traffic dir c \<Longrightarrow> keeps R (run_one live c)"
  by (rule keeps_run_one [OF kept_refl kept_trans inert])

lemma gated_one: "keeps R (run_one gated c)" "keeps R (run_all gated cs)"
  by (auto intro!: keeps_run_one keeps_run_all kept_refl kept_trans quiet)

lemmas basic = keeps_return [OF kept_refl] keeps_bind [OF kept_trans] inert all one quiet gated_one files

lemma listings:
  "keeps R (listRules live)" "keeps R (listRulesInTable live t)" "keeps R (showRoutes live args)" "keeps R (RouteVia live dst t)"
  unfolding RouteVia_def listRules_def listRulesInTable_def showRoutes_def by (auto intro!: basic)

lemma pin: "(\<And>verb p. \<not> moves_traffic dir (f verb p)) \<Longrightarrow> keeps R (pin_rule live f want found)"
  unfolding pin_rule_def by (auto intro!: basic split: sum.splits)

lemma overlay_address: "keeps R (EnsureOverlayAddress live ip dev)"
  unfolding EnsureOverlayAddress_def run_made_def Let_def by (auto intro!: basic split: sum.splits)

lemma settings: "keeps R (EnsureSysctls live ifaces)" "keeps R (RPFilterOff live iface)"
  unfolding EnsureSysctls_def RPFilterOff_def by (auto intro!: basic split: sum.splits)

lemma probe_rules: "keeps R (ensureProbeRules live p text)"
  unfolding ensureProbeRules_def Let_def by (auto intro!: basic listings pin split: sum.splits)

lemma probe_route: "keeps R (ensureProbeRouteOnly live p dst src)"
  unfolding ensureProbeRouteOnly_def by (auto intro!: basic)

lemma probe_loop: "keeps R (probe_paths live up dst src text ps)"
  by (induction ps) (auto intro!: basic probe_rules probe_route split: sum.splits rule_error.splits)

lemma probe_routes: "keeps R (EnsureProbeRoutes live up ps dst src)" "keeps R (EnsureProbeRoute live p dst src)"
  unfolding EnsureProbeRoutes_def EnsureProbeRoute_def
  by (auto intro!: basic listings probe_loop probe_rules probe_route simp: orphan_denies_def split: sum.splits)

lemma control_route: "keeps R (EnsureControlRoute live pre backend frontend iface)"
  unfolding EnsureControlRoute_def Let_def by (auto intro!: basic listings pin split: sum.splits)

lemma insert_exceptions: "keeps R (insert_rules live existing comment what rules)"
  by (induction rules) (auto intro!: basic split: sum.splits)

lemma stale: "keeps R (dropStaleForwardRules live listing comment field want)"
  unfolding dropStaleForwardRules_def by (auto intro!: basic simp: stale_rules_def delete_handle_def)

lemma exceptions:
  "keeps R (EnsureForwardExceptions live data)" "keeps R (EnsureEgressForwardException live data)"
  "keeps R (RemoveEgressForwardException live)" "keeps R (ForwardIsBlocked live)"
  unfolding EnsureForwardExceptions_def EnsureEgressForwardException_def RemoveEgressForwardException_def
    removeCommentedForwardRules_def ForwardIsBlocked_def Let_def
  by (auto intro!: basic insert_exceptions stale simp: list_chain_def delete_handle_def split: sum.splits)

lemma removed_tables: "keeps R (RemoveEgressRuleset live)" "keeps R (RemoveProtectRuleset live)"
  unfolding RemoveEgressRuleset_def RemoveProtectRuleset_def by (auto intro!: basic simp: delete_table_def)

lemma loaded: "keeps R (applyRuleset gated save path body)"
  unfolding applyRuleset_def by (auto intro!: basic split: sum.splits)

lemma qdisc: "keeps R (EnsureQdisc gated iface mbit)"
  unfolding EnsureQdisc_def qdiscInfo_def RemoveQdisc_def by (auto intro!: basic split: sum.splits)

lemma shaping: "keeps R (applyShaping gated up ps)" "keeps R (reconcileShaping gated applying p)"
  by (induction ps) (auto intro!: basic qdisc simp: reconcileShaping_def Let_def)

lemma active: "keeps R (install_active gated live cfg p)"
  unfolding install_active_def SetActivePath_def Let_def by (auto intro!: basic control_route)

lemma host_route: "keeps R (dropSupersededHostRoute gated live False cfg)"
  unfolding dropSupersededHostRoute_def Let_def by (auto intro!: basic)

lemma seeded: "keeps R (seed_route live up cfg act)"
  unfolding seed_route_def Let_def by (auto intro!: basic control_route split: option.splits)

lemma reinstalled: "keeps R (reinstall_active gated live cfg act)"
  unfolding reinstall_active_def by (auto intro!: basic active split: option.splits)

lemma excepted: "keeps R (forward_exceptions live cfg)"
  unfolding forward_exceptions_def by (auto intro!: basic exceptions split: sum.splits)

lemma egress: "keeps R (applyEgress gated live save dir cfg)"
  unfolding applyEgress_def ApplyEgressRuleset_def Let_def by (auto intro!: basic removed_tables exceptions loaded)

lemma filter_applied: "keeps R (applyProtect gated live False save dir pc cfg pt)"
  unfolding applyProtect_def ApplyProtectRuleset_def Let_def by (auto intro!: basic removed_tables loaded)

lemma installing: "keeps R (install_config gated live False up save dir pc cfg act pt)"
  unfolding install_config_def ApplyRuleset_def Let_def
  by (intro keeps_bind [OF kept_trans] keeps_return [OF kept_refl] overlay_address settings probe_routes seeded reinstalled host_route
      excepted loaded egress filter_applied shaping)

lemma repairing_paths: "keeps R (restore_paths gated live applying up cfg ps)"
  by (induction ps) (auto intro!: basic settings shaping listings probe_routes simp: restore_filter_def restore_probe_def Let_def split: sum.splits)

lemma repairing: "keeps R (restore_routing gated live False up reverted cfg act)"
  unfolding restore_routing_def restore_control_def Let_def
  by (auto intro!: basic repairing_paths listings control_route split: option.splits sum.splits)

end

text \<open>The runners of observe mode: one that runs everything, and one that runs the queries and notes the rest, beside it.\<close>

definition beside :: "'k runner \<Rightarrow> ('k \<times> string list) runner" where
  "beside r cmd = State (\<lambda>(k, calls). case run_state (r cmd) k of (res, k) \<Rightarrow> (res, (k, calls)))"

definition beside_files :: "'k writer \<Rightarrow> ('k \<times> string list) writer" where
  "beside_files w path body = State (\<lambda>(k, calls). case run_state (w path body) k of (res, k) \<Rightarrow> (res, (k, calls)))"

text \<open>A host that keeps a list of the commands it was sent.\<close>

definition recorded :: "'k runner \<Rightarrow> ('k \<times> command list) runner" where
  "recorded r cmd = State (\<lambda>(k, sent). case run_state (r cmd) k of (res, k) \<Rightarrow> (res, (k, sent @ [cmd])))"

definition recorded_files :: "'k writer \<Rightarrow> ('k \<times> command list) writer" where
  "recorded_files w path body = State (\<lambda>(k, sent). case run_state (w path body) k of (res, k) \<Rightarrow> (res, (k, sent)))"

lemma take_3: "take 3 cmd \<in> {[a, b, c], [a, b, d]} \<Longrightarrow> \<exists>verb args. cmd = a # b # verb # args \<and> verb \<in> {c, d}"
  by (cases cmd; cases "tl cmd"; cases "tl (tl cmd)") auto

lemma moving_not_read: "moves_traffic dir cmd \<Longrightarrow> \<not> isReadOnly cmd"
proof -
  assume "moves_traffic dir cmd"
  then consider (ip) "take 3 cmd \<in> {[''ip'', ''route'', ''replace''], [''ip'', ''route'', ''del'']}"
    | (tc) "take 3 cmd \<in> {[''tc'', ''qdisc'', ''replace''], [''tc'', ''qdisc'', ''del'']}"
    | (nft) f where "cmd = [''nft'', ''-f'', dir @ CHR ''/'' # f]"
    unfolding moves_traffic_def by auto
  then show ?thesis
  proof cases
    case ip
    then show ?thesis using take_3 [OF ip] by (auto simp: isReadOnly_def ipVerb_def IPReadVerb_def Let_def)
  next
    case tc
    then show ?thesis using take_3 [OF tc] by (auto simp: isReadOnly_def ipVerb_def IPReadVerb_def Let_def)
  next
    case nft
    have "CHR ''/'' \<in> set (dir @ CHR ''/'' # f)" by simp
    moreover have "CHR ''/'' \<notin> set ''list''" by simp
    ultimately have "dir @ CHR ''/'' # f \<noteq> ''list''" by metis
    then show ?thesis unfolding nft by (auto simp: isReadOnly_def nftVerb_def)
  qed
qed

text \<open>The commands of that kind the host of observe mode was sent: the second component of its state.\<close>

definition moved :: "string \<Rightarrow> ('k \<times> command list) \<times> string list \<Rightarrow> command list" where
  "moved dir s = filter (moves_traffic dir) (snd (fst s))"

interpretation observe_mode: plumbing "\<lambda>s s'. moved dir s' = moved dir s" "beside (recorded r)" "DryRunner (recorded r)"
    "beside_files (recorded_files w)" dir for dir :: string and r :: "'k runner" and w :: "'k writer"
proof
  show "reflp (\<lambda>(s :: ('k \<times> command list) \<times> string list) s'. moved dir s' = moved dir s)"
    and "transp (\<lambda>(s :: ('k \<times> command list) \<times> string list) s'. moved dir s' = moved dir s)"
    by (auto simp: reflp_def transp_def)
  show "keeps (\<lambda>s s'. moved dir s' = moved dir s) (beside (recorded r) c)" if "\<not> moves_traffic dir c" for c
    using that by (auto simp: state_io_rel_def beside_def recorded_def moved_def split: prod.splits)
  show "keeps (\<lambda>s s'. moved dir s' = moved dir s) (DryRunner (recorded r) c)" for c
    using moving_not_read [of dir c] by (auto simp: state_io_rel_def DryRunner_def recorded_def moved_def split: prod.splits)
  show "keeps (\<lambda>s s'. moved dir s' = moved dir s) (beside_files (recorded_files w) path body)" for path body
    by (auto simp: state_io_rel_def beside_files_def recorded_files_def moved_def split: prod.splits)
qed

text \<open>What a run sends of them to a host that has been sent nothing.\<close>

definition sent_moving :: "string \<Rightarrow> (('k \<times> command list) \<times> string list, 'a) state \<Rightarrow> 'k \<Rightarrow> command list" where
  "sent_moving dir m k = moved dir (snd (run_state m ((k, []), [])))"

lemma sent_moving_keeps: "keeps (\<lambda>s s'. moved dir s' = moved dir s) m \<Longrightarrow> sent_moving dir m k = []"
  by (auto simp: sent_moving_def moved_def state_io_rel_def split: prod.splits)

text \<open>C23. In observe mode the frontend's engine sends its host no command that decides where published traffic goes: neither the
  sequence of a save or a start nor the pass that repairs sets or deletes a route of the main table, loads the table of the
  services, the source NAT or the edge filter, or changes a queue discipline, whatever the host answers, the
  configuration, the latch of the filter, and the active path. What it does run for real in that mode, addresses,
  settings, probe and control routes, forward exceptions, and the removal of a table that is no longer wanted, is
  outside the claim, and so is loading the blocklist.\<close>

theorem observe_moves_no_traffic:
  "sent_moving dir (install_config (DryRunner (recorded r)) (beside (recorded r)) False up (beside_files (recorded_files w)) dir pc cfg act pt) k = [] \<and>
   sent_moving dir (restore_routing (DryRunner (recorded r)) (beside (recorded r)) False up reverted cfg act) k = []"
  by (intro conjI sent_moving_keeps observe_mode.installing observe_mode.repairing)

text \<open>The same command is sent in the armed mode.\<close>

lemma armed_moves_traffic:
  "''table'' \<notin> {dst, dev, src} \<Longrightarrow>
   sent_moving dir (SetActivePath (beside (recorded r)) dst src dev) k =
     [[''ip'', ''route'', ''replace'', dst, ''dev'', dev, ''src'', src]]"
  by (simp add: sent_moving_def moved_def SetActivePath_def run_one_def beside_def recorded_def moves_traffic_def split: prod.splits)

end
