(* ===== verification/FilterLatch.thy ===== *)
theory FilterLatch
  imports FrontendApply
begin

text \<open>
  The reload latch of the edge filter over time: saves in either mode, samples that read the kernel in one step and are
  recorded in another, the status request that drops a stale sample, reverts, restarts, and somebody else changing the
  table. A save skips a ruleset the latch says is loaded; the theorem says when that is true.
\<close>

section \<open>A host with one table\<close>

text \<open>What is relied on of \<open>nft\<close>: a file is loaded whole or not at all, reading changes nothing, and a table that is not
  there cannot be read. \<open>held\<close> is the text the table was loaded from; \<open>quiet\<close> is the runner of observe mode.\<close>

locale table_host =
  fixes r :: "'k runner" and quiet :: "'k runner" and w :: "'k writer" and dir :: string and dec :: nft_decoder
    and held :: "'k \<Rightarrow> string option"
  assumes loads: "run_state (ApplyProtectRuleset r w dir body) k = (res, k') \<Longrightarrow>
      held k' = (case res of Inr _ \<Rightarrow> Some body | Inl _ \<Rightarrow> held k)"
    and observes: "held (snd (run_state (ApplyProtectRuleset quiet w dir body) k)) = held k"
    and removes: "held (snd (run_state (RemoveProtectRuleset r) k)) \<in> {None, held k}"
    and reads: "held (snd (run_state (ProtectState r dec) k)) = held k"
    and misses: "held k = None \<Longrightarrow> \<exists>e. fst (run_state (ProtectState r dec) k) = Inl e"

section \<open>Steps\<close>

text \<open>\<open>fw_own\<close>: nobody else has touched the table since this process last loaded or removed it. The filter is applied
  under the lock of a save, the sample is taken without it.\<close>

record 'k filter_world =
  fw_host :: 'k
  fw_latch :: protect_latch
  fw_reading :: "(string + protect_report) option"
  fw_own :: bool

definition applied_ruleset :: "ProtectConfig \<Rightarrow> Config \<Rightarrow> string" where
  "applied_ruleset pc cfg = BuildProtectRuleset (ProtectSpecFrom pc cfg)"

inductive filter_step :: "'k runner \<Rightarrow> 'k runner \<Rightarrow> 'k writer \<Rightarrow> string \<Rightarrow> nft_decoder \<Rightarrow> 'k filter_world \<Rightarrow> 'k filter_world \<Rightarrow> bool"
  for r quiet w dir dec where
  save: "run_state (applyProtect (if armed then r else quiet) r armed w dir pc cfg (fw_latch x)) (fw_host x) = ((pt, evs), k) \<Longrightarrow>
    filter_step r quiet w dir dec x (x\<lparr>fw_host := k, fw_latch := pt,
      fw_own := (if latched armed (applied_ruleset pc cfg) (fw_latch x) then fw_own x else True)\<rparr>)"
| look: "fw_reading x = None \<Longrightarrow> run_state (ProtectState r dec) (fw_host x) = (res, k) \<Longrightarrow>
    filter_step r quiet w dir dec x (x\<lparr>fw_host := k, fw_reading := Some res\<rparr>)"
| sampled: "fw_reading x = Some res \<Longrightarrow>
    filter_step r quiet w dir dec x (x\<lparr>fw_latch := commit_sample res (fw_latch x), fw_reading := None\<rparr>)"
| watched: "filter_step r quiet w dir dec x (x\<lparr>fw_latch := drop_samples (fw_latch x)\<rparr>)"
| revert: "run_state (RemoveProtectRuleset r) (fw_host x) = (u, k) \<Longrightarrow>
    filter_step r quiet w dir dec x (x\<lparr>fw_host := k, fw_latch := forget_filter (fw_latch x)\<rparr>)"
| restart: "filter_step r quiet w dir dec x (x\<lparr>fw_latch := no_latch, fw_reading := None\<rparr>)"
| meddle: "filter_step r quiet w dir dec x (x\<lparr>fw_host := k, fw_own := False\<rparr>)"

inductive filter_run :: "'k runner \<Rightarrow> 'k runner \<Rightarrow> 'k writer \<Rightarrow> string \<Rightarrow> nft_decoder \<Rightarrow> 'k filter_world \<Rightarrow> 'k filter_world \<Rightarrow> bool"
  for r quiet w dir dec where
  none: "filter_run r quiet w dir dec x x"
| more: "filter_run r quiet w dir dec x y \<Longrightarrow> filter_step r quiet w dir dec y z \<Longrightarrow> filter_run r quiet w dir dec x z"

definition filter_start :: "'k \<Rightarrow> 'k filter_world" where
  "filter_start k = \<lparr>fw_host = k, fw_latch = no_latch, fw_reading = None, fw_own = False\<rparr>"

section \<open>What the latch is worth\<close>

definition latch_true :: "('k \<Rightarrow> string option) \<Rightarrow> 'k filter_world \<Rightarrow> bool" where
  "latch_true held x \<longleftrightarrow> fw_own x \<longrightarrow> pt_applied (fw_latch x) = '''' \<or> held (fw_host x) = Some (pt_applied (fw_latch x))"

lemma dropped_applied [simp]: "pt_applied (drop_samples pt) = pt_applied pt" "pt_applied (forget_filter pt) = ''''"
    "pt_on (drop_samples pt) = pt_on pt" "pt_applied no_latch = ''''"
  by (simp_all add: drop_samples_def forget_filter_def no_latch_def)

lemma committed_applied: "pt_applied (commit_sample res pt) = '''' \<or> pt_applied (commit_sample res pt) = pt_applied pt"
  by (auto simp: commit_sample_def Let_def split: sum.splits)

lemma latched_skips: "latched armed (applied_ruleset pc cfg) pt \<Longrightarrow> applied_ruleset pc cfg \<noteq> '''' \<Longrightarrow>
    run_state (applyProtect gated live armed w dir pc cfg pt) k = ((pt, []), k)"
  by (simp add: applyProtect_def applied_ruleset_def Let_def)

context table_host begin

lemma saved:
  assumes "run_state (applyProtect (if armed then r else quiet) r armed w dir pc cfg pt) k = ((pt', evs), k')"
    and "\<not> latched armed (applied_ruleset pc cfg) pt"
  shows "pt_applied pt' = '''' \<or> held k' = Some (pt_applied pt')"
proof (cases "applied_ruleset pc cfg = ''''")
  case True
  then show ?thesis using assms(1) by (auto simp: applyProtect_def applied_ruleset_def Let_def split: prod.splits)
next
  case False
  obtain res k1 where a: "run_state (ApplyProtectRuleset (if armed then r else quiet) w dir (applied_ruleset pc cfg)) k = (res, k1)" by fastforce
  show ?thesis
  proof (cases res)
    case (Inl e)
    then show ?thesis using assms False a by (auto simp: applyProtect_def applied_ruleset_def Let_def split: prod.splits)
  next
    case (Inr u)
    then show ?thesis using assms False a loads [of "applied_ruleset pc cfg" k res k1]
      by (auto simp: applyProtect_def applied_ruleset_def Let_def split: prod.splits if_splits)
  qed
qed

lemma step_true: "filter_step r quiet w dir dec x y \<Longrightarrow> latch_true held x \<Longrightarrow> latch_true held y"
proof (induction rule: filter_step.induct)
  case (save armed pc cfg x pt evs k)
  show ?case
  proof (cases "latched armed (applied_ruleset pc cfg) (fw_latch x)")
    case True
    show ?thesis
    proof (cases "applied_ruleset pc cfg = ''''")
      case True
      then show ?thesis using save(1) by (auto simp: latch_true_def applyProtect_def applied_ruleset_def Let_def split: prod.splits)
    next
      case False
      note skip = latched_skips [OF True False, of "if armed then r else quiet" r w dir "fw_host x"]
      then have "pt = fw_latch x" "k = fw_host x" using save(1) by simp_all
      then show ?thesis using save(2) True by (simp add: latch_true_def)
    qed
  next
    case False
    then show ?thesis using saved [OF save(1) False] by (simp add: latch_true_def)
  qed
next
  case (look x res k)
  have "held k = held (fw_host x)" using reads [of "fw_host x"] look(2) by simp
  then show ?case using look(3) by (simp add: latch_true_def)
next
  case (sampled x res)
  then show ?case using committed_applied [of res "fw_latch x"] by (auto simp: latch_true_def)
qed (auto simp: latch_true_def)

lemma run_true: "filter_run r quiet w dir dec x y \<Longrightarrow> latch_true held x \<Longrightarrow> latch_true held y"
  by (induction rule: filter_run.induct) (auto intro: step_true)

lemma loss_noticed: "held k = None \<Longrightarrow> pt_applied (commit_sample (fst (run_state (ProtectState r dec) k)) pt) = ''''"
  using misses [of k] by (auto simp: commit_sample_def Let_def)

lemma armed_save:
  assumes "latch_true held x" and "run_state (applyProtect r r True w dir pc cfg (fw_latch x)) (fw_host x) = ((pt, []), k)"
    and "applied_ruleset pc cfg \<noteq> ''''" and "latched True (applied_ruleset pc cfg) (fw_latch x) \<Longrightarrow> fw_own x"
  shows "held k = Some (applied_ruleset pc cfg)"
proof (cases "latched True (applied_ruleset pc cfg) (fw_latch x)")
  case True
  then show ?thesis using assms latched_skips [OF True assms(3), of r r w dir "fw_host x"]
    by (auto simp: latch_true_def latched_def)
next
  case False
  obtain res k1 where a: "run_state (ApplyProtectRuleset r w dir (applied_ruleset pc cfg)) (fw_host x) = (res, k1)" by fastforce
  show ?thesis
  proof (cases res)
    case (Inl e)
    then show ?thesis using assms(2,3) False a by (auto simp: applyProtect_def applied_ruleset_def Let_def)
  next
    case (Inr u)
    then show ?thesis using assms(2,3) False a loads [of "applied_ruleset pc cfg" "fw_host x" res k1]
      by (auto simp: applyProtect_def applied_ruleset_def Let_def split: if_splits)
  qed
qed

end

section \<open>A table in memory\<close>

record memory_host =
  mh_files :: "string \<Rightarrow> string"
  mh_table :: "string option"

definition memory_run :: "memory_host runner" where
  "memory_run cmd = State (\<lambda>k.
     if take 2 cmd = [''nft'', ''-f''] then (Inr '''', k\<lparr>mh_table := Some (mh_files k (cmd ! 2))\<rparr>)
     else if take 2 cmd = [''nft'', ''delete''] then (Inr '''', k\<lparr>mh_table := None\<rparr>)
     else if mh_table k = None then (Inl ''No such file or directory'', k) else (Inr '''', k))"

definition memory_write :: "memory_host writer" where
  "memory_write path body = State (\<lambda>k. (Inr (), k\<lparr>mh_files := (mh_files k)(path := body)\<rparr>))"

definition memory_quiet :: "memory_host runner" where
  "memory_quiet cmd = State_Monad.return (Inr '''')"

definition memory_decoder :: nft_decoder where
  "memory_decoder body = Some []"

interpretation memory: table_host memory_run memory_quiet memory_write "''/s''" memory_decoder mh_table
proof
  show "mh_table k' = (case res of Inr _ \<Rightarrow> Some body | Inl _ \<Rightarrow> mh_table k)"
    if "run_state (ApplyProtectRuleset memory_run memory_write ''/s'' body) k = (res, k')" for body k res k'
    using that by (auto simp: ApplyProtectRuleset_def applyRuleset_def memory_run_def memory_write_def)
  show "mh_table (snd (run_state (ApplyProtectRuleset memory_quiet memory_write ''/s'' body) k)) = mh_table k" for body k
    by (simp add: ApplyProtectRuleset_def applyRuleset_def memory_quiet_def memory_write_def)
  show "mh_table (snd (run_state (RemoveProtectRuleset memory_run) k)) \<in> {None, mh_table k}" for k
    by (simp add: RemoveProtectRuleset_def memory_run_def delete_table_def)
  show "mh_table (snd (run_state (ProtectState memory_run memory_decoder) k)) = mh_table k" for k
    by (simp add: ProtectState_def memory_run_def memory_decoder_def parseProtectCounters_def)
  show "mh_table k = None \<Longrightarrow> \<exists>e. fst (run_state (ProtectState memory_run memory_decoder) k) = Inl e" for k
    by (simp add: ProtectState_def memory_run_def)
qed

text \<open>The latch never costs a host its filter: whatever saves, samples, status requests, reverts and restarts went before,
  and whatever anybody else did to the table, an armed save that records no failure leaves the table loaded with the
  ruleset of its configuration, provided that nobody else has touched it since this process last loaded or removed it,
  or that a sample has since failed to read it.\<close>

theorem filter_latch_sound:
  assumes "table_host r quiet w dir dec held" and "filter_run r quiet w dir dec (filter_start k0) x"
    and "run_state (applyProtect r r True w dir pc cfg (fw_latch x)) (fw_host x) = ((pt, []), k)"
    and "applied_ruleset pc cfg \<noteq> ''''" and "\<not> fw_own x \<Longrightarrow> pt_applied (fw_latch x) = ''''"
  shows "held k = Some (applied_ruleset pc cfg)"
proof (rule table_host.armed_save [OF assms(1) _ assms(3,4)])
  have "latch_true held (filter_start k0)" by (simp add: latch_true_def filter_start_def)
  with table_host.run_true [OF assms(1,2)] show "latch_true held x" .
  show "fw_own x" if "latched True (applied_ruleset pc cfg) (fw_latch x)"
    using that assms(4,5) by (auto simp: latched_def)
qed

text \<open>The filter is loaded, somebody deletes the table, a sample fails to read it, and the next save loads it again,
  though nothing of the configuration has changed.\<close>

definition small_filter :: ProtectConfig where
  "small_filter = \<lparr>pc_Enabled = True, pc_NewConnsPerSec = 0, pc_MaxConnsPerSource = 0, pc_PacketsPerSec = 0, pc_QueriesPerSec = 0,
     pc_BlockSeconds = 0, pc_DropInvalid = True, pc_DropBogusTCP = False, pc_DropSpoofed = False, pc_DropLegacyQueries = False,
     pc_GeoLockSeconds = 0, pc_Regions = []\<rparr>"

lemma small_filter_text: "applied_ruleset small_filter Defaults \<noteq> ''''"
  by (simp add: applied_ruleset_def BuildProtectRuleset_def spec_active_def ProtectSpecFrom_def small_filter_def Defaults_def lines_of_def)

definition bare_host :: memory_host where
  "bare_host = \<lparr>mh_files = (\<lambda>_. ''''), mh_table = None\<rparr>"

abbreviation small_save :: "protect_latch \<Rightarrow> memory_host \<Rightarrow> (protect_latch \<times> sys_event list) \<times> memory_host" where
  "small_save pt k \<equiv> run_state (applyProtect memory_run memory_run True memory_write ''/s'' small_filter Defaults pt) k"

lemma small_save_loads:
  assumes "\<not> latched True (applied_ruleset small_filter Defaults) pt"
  shows "small_save pt k = ((pt\<lparr>pt_on := True, pt_applied := applied_ruleset small_filter Defaults\<rparr>, []),
    k\<lparr>mh_files := (mh_files k)(''/s/protect.nft'' := applied_ruleset small_filter Defaults),
      mh_table := Some (applied_ruleset small_filter Defaults)\<rparr>)"
  using assms small_filter_text
  by (simp add: applyProtect_def applied_ruleset_def Let_def ApplyProtectRuleset_def applyRuleset_def memory_run_def memory_write_def)

theorem filter_latch_sound_witness:
  "\<exists>x pt k. filter_run memory_run memory_quiet memory_write ''/s'' memory_decoder (filter_start bare_host) x \<and>
     mh_table (fw_host x) = None \<and> small_save (fw_latch x) (fw_host x) = ((pt, []), k) \<and>
     mh_table k = Some (applied_ruleset small_filter Defaults)"
proof -
  let ?S = "applied_ruleset small_filter Defaults"
  let ?step = "filter_step memory_run memory_quiet memory_write ''/s'' memory_decoder"
  let ?run = "filter_run memory_run memory_quiet memory_write ''/s'' memory_decoder (filter_start bare_host)"
  have fresh: "\<not> latched True ?S no_latch" using small_filter_text by (simp add: latched_def no_latch_def)
  obtain pt1 k1 where k1: "small_save no_latch bare_host = ((pt1, []), k1)" using small_save_loads [OF fresh] by simp
  define x1 where "x1 = (filter_start bare_host)\<lparr>fw_host := k1, fw_latch := pt1, fw_own := True\<rparr>"
  have "?step (filter_start bare_host) x1"
    using filter_step.save [where armed = True and r = memory_run and quiet = memory_quiet and w = memory_write and dir = "''/s''"
        and dec = memory_decoder and pc = small_filter and cfg = Defaults and x = "filter_start bare_host" and pt = pt1 and evs = "[]" and k = k1]
      k1 fresh by (simp add: filter_start_def x1_def)
  then have r1: "?run x1" by (rule filter_run.more [OF filter_run.none])
  define k2 where "k2 = k1\<lparr>mh_table := None\<rparr>"
  define x2 where "x2 = x1\<lparr>fw_host := k2, fw_own := False\<rparr>"
  have r2: "?run x2" unfolding x2_def by (rule filter_run.more [OF r1 filter_step.meddle])
  define x3 where "x3 = x2\<lparr>fw_host := k2, fw_reading := Some (Inl ''No such file or directory'')\<rparr>"
  have "run_state (ProtectState memory_run memory_decoder) k2 = (Inl ''No such file or directory'', k2)"
    by (simp add: ProtectState_def memory_run_def k2_def)
  then have "?step x2 x3" unfolding x3_def
    by (intro filter_step.look) (simp_all add: x2_def x1_def filter_start_def)
  then have r3: "?run x3" by (rule filter_run.more [OF r2])
  define x4 where "x4 = x3\<lparr>fw_latch := commit_sample (Inl ''No such file or directory'') (fw_latch x3), fw_reading := None\<rparr>"
  have "?step x3 x4" unfolding x4_def by (rule filter_step.sampled) (simp add: x3_def)
  then have r4: "?run x4" by (rule filter_run.more [OF r3])
  have x4: "pt_applied (fw_latch x4) = ''''" "fw_host x4 = k2"
    by (simp_all add: x4_def x3_def x2_def commit_sample_def Let_def)
  have "\<not> latched True ?S (fw_latch x4)" using small_filter_text x4 by (simp add: latched_def)
  then obtain pt k where s: "small_save (fw_latch x4) (fw_host x4) = ((pt, []), k)" using small_save_loads by blast
  have "mh_table k = Some ?S"
    by (rule filter_latch_sound [OF memory.table_host_axioms r4 s small_filter_text]) (rule x4(1))
  moreover have "mh_table (fw_host x4) = None" using x4(2) by (simp add: k2_def)
  ultimately show ?thesis using r4 s by blast
qed

text \<open>A sample that was read before the filter was switched off is recorded after it: the figures of a table that is gone come
  back, with the record that the table is loaded.\<close>

lemma stale_sample_returns:
  "pt_counters (commit_sample (Inr rep) (forget_filter pt)) = rp_counters rep \<and> pt_on (commit_sample (Inr rep) (forget_filter pt))"
  by (simp add: commit_sample_def)

end
