(* ===== verification/PeerLinks.thy ===== *)
theory PeerLinks
  imports Routes "HOL-Library.List_Lexorder" "HOL-Library.Char_ord"
begin

text \<open>
  What WireGuard says of the tunnels (\<open>sysx/stats.go\<close>): where each peer is seen and how old its last handshake is; and
  what the frontend makes of the first (\<open>engine/engine.go\<close>, \<open>samplePeerEndpoints\<close>): the paths that ride one internet
  service, with an event when that changes.
\<close>

section \<open>Listings\<close>

text \<open>A line names its interface first and the value last.\<close>

definition wg_line :: "string \<Rightarrow> (string \<times> string) option" where
  "wg_line line = (let fs = Fields line in if length fs < 3 then None else Some (hd fs, last fs))"

definition wg_lines :: "string \<Rightarrow> (string \<times> string) list" where
  "wg_lines out = List.map_filter wg_line (split_on (CHR 10) out)"

text \<open>An interface with several peers is blanked, and left out at the end.\<close>

definition add_endpoint :: "(string \<rightharpoonup> string) \<Rightarrow> string \<times> string \<Rightarrow> (string \<rightharpoonup> string)" where
  "add_endpoint ends l =
     (case l of (iface, endpoint) \<Rightarrow>
        if endpoint = ''(none)'' then ends
        else if ends iface \<noteq> None then ends(iface \<mapsto> '''') else ends(iface \<mapsto> endpoint))"

definition peer_ends :: "string \<Rightarrow> (string \<rightharpoonup> string)" where
  "peer_ends out = (\<lambda>iface. case foldl add_endpoint Map.empty (wg_lines out) iface of
     None \<Rightarrow> None | Some e \<Rightarrow> if e = '''' then None else Some e)"

definition PeerEndpoints :: "'k runner \<Rightarrow> ('k, string \<rightharpoonup> string) state" where
  "PeerEndpoints r = do {
     out \<leftarrow> r [''wg'', ''show'', ''all'', ''endpoints''];
     State_Monad.return (case out of Inl _ \<Rightarrow> Map.empty | Inr s \<Rightarrow> peer_ends s) }"

text \<open>What stands before the last occurrence of a text.\<close>

definition before_last :: "string \<Rightarrow> string \<Rightarrow> string option" where
  "before_last pat s =
     (case filter (\<lambda>i. prefix pat (drop i s)) (rev [0..<Suc (length s)]) of [] \<Rightarrow> None | i # _ \<Rightarrow> Some (take i s))"

definition EndpointHost :: "string \<Rightarrow> string" where
  "EndpointHost endpoint =
     (case before_last '']:'' endpoint of
        Some t \<Rightarrow> if prefix ''['' t then tl t else t
      | None \<Rightarrow> (case before_last '':'' endpoint of Some t \<Rightarrow> t | None \<Rightarrow> endpoint))"

text \<open>The youngest handshake of every interface; zero is none.\<close>

definition add_age :: "int \<Rightarrow> (string \<rightharpoonup> float64) \<Rightarrow> string \<times> string \<Rightarrow> (string \<rightharpoonup> float64)" where
  "add_age now ages l =
     (case l of (iface, stamp) \<Rightarrow>
        (case Atoi stamp of None \<Rightarrow> ages
         | Some ts \<Rightarrow>
             if ts = 0 then ages
             else (let age = f_of_int (wrap64 (now - ts))
               in case ages iface of None \<Rightarrow> ages(iface \<mapsto> age)
                  | Some prev \<Rightarrow> if flt age prev then ages(iface \<mapsto> age) else ages)))"

definition HandshakeAges :: "'k runner \<Rightarrow> int \<Rightarrow> ('k, string \<rightharpoonup> float64) state" where
  "HandshakeAges r now = do {
     out \<leftarrow> r [''wg'', ''show'', ''all'', ''latest-handshakes''];
     State_Monad.return (case out of Inl _ \<Rightarrow> Map.empty | Inr s \<Rightarrow> foldl (add_age now) Map.empty (wg_lines s)) }"

section \<open>Paths on one internet service\<close>

record peer_view =
  pv_endpoints :: "int \<rightharpoonup> string"
  pv_shared :: "(string \<times> string list) list"
  pv_clash :: string

text \<open>The configured paths that are seen, with the address each is seen at.\<close>

definition seen_hosts :: "(string \<rightharpoonup> string) \<Rightarrow> PathConfig list \<Rightarrow> (string \<times> string) list" where
  "seen_hosts ends ps = List.map_filter (\<lambda>p. case ends (p_Iface p) of None \<Rightarrow> None
     | Some ep \<Rightarrow> if EndpointHost ep = '''' then None else Some (EndpointHost ep, p_Name p)) ps"

definition names_at :: "(string \<times> string) list \<Rightarrow> string \<Rightarrow> string list" where
  "names_at hs host = sort (map snd (filter (\<lambda>(h, _). h = host) hs))"

text \<open>The addresses with more than one path, in order; the code collects them from a map and sorts.\<close>

definition shared_hosts :: "(string \<times> string) list \<Rightarrow> (string \<times> string list) list" where
  "shared_hosts hs = map (\<lambda>h. (h, names_at hs h)) (filter (\<lambda>h. length (names_at hs h) > 1) (sort (remdups (map fst hs))))"

definition clash_text :: "string \<times> string list \<Rightarrow> string" where
  "clash_text c = (case c of (host, names) \<Rightarrow> join_with ''+'' names @ '' at '' @ host)"

definition clash_signature :: "(string \<times> string list) list \<Rightarrow> string" where
  "clash_signature shared = join_with '', '' (sort (map clash_text shared))"

definition peer_event :: "string \<Rightarrow> string \<Rightarrow> string option" where
  "peer_event old new =
     (if new = old then None
      else if new = '''' then Some ''tunnels are on separate WANs again''
      else Some (''tunnels are on the same WAN ('' @ new @
        ''): one internet service under both, so a failover between them has nowhere to go''))"

definition take_sample :: "(string \<rightharpoonup> string) \<Rightarrow> PathConfig list \<Rightarrow> peer_view \<Rightarrow> peer_view \<times> string option" where
  "take_sample ends ps v =
     (let byPath = foldl (\<lambda>m p. case ends (p_Iface p) of None \<Rightarrow> m | Some ep \<Rightarrow> m(p_ID p \<mapsto> ep)) Map.empty ps;
          shared = shared_hosts (seen_hosts ends ps); signature = clash_signature shared
      in (\<lparr>pv_endpoints = byPath, pv_shared = shared, pv_clash = signature\<rparr>, peer_event (pv_clash v) signature))"

definition samplePeerEndpoints :: "'k runner \<Rightarrow> PathConfig list \<Rightarrow> peer_view \<Rightarrow> ('k, peer_view \<times> string option) state" where
  "samplePeerEndpoints r ps v = do { ends \<leftarrow> PeerEndpoints r; State_Monad.return (take_sample ends ps v) }"

section \<open>What is reported\<close>

lemma mem_seen: "(h, n) \<in> set (seen_hosts ends ps) \<longleftrightarrow>
    (\<exists>p \<in> set ps. \<exists>ep. ends (p_Iface p) = Some ep \<and> EndpointHost ep = h \<and> h \<noteq> '''' \<and> n = p_Name p)"
  by (induction ps) (auto simp: seen_hosts_def List.map_filter_def split: option.splits if_splits)

lemma shared_hosts_exact:
  "(h, ns) \<in> set (shared_hosts hs) \<longleftrightarrow> ns = names_at hs h \<and> length (filter (\<lambda>(x, _). x = h) hs) > 1"
proof -
  have "filter (\<lambda>(x, _). x = h) hs \<noteq> [] \<longleftrightarrow> h \<in> set (map fst hs)" by (force simp: filter_empty_conv)
  then show ?thesis by (auto simp: shared_hosts_def names_at_def)
qed

lemma clash_text_nonempty: "clash_text c \<noteq> ''''"
  by (cases c) (simp add: clash_text_def)

lemma join_empty: "(\<And>x. x \<in> set xs \<Longrightarrow> x \<noteq> []) \<Longrightarrow> join_with sep xs = [] \<longleftrightarrow> xs = []"
  by (cases xs; cases "tl xs") auto

lemma signature_empty: "clash_signature shared = '''' \<longleftrightarrow> shared = []"
proof -
  have "join_with '', '' (sort (map clash_text shared)) = [] \<longleftrightarrow> sort (map clash_text shared) = []"
    by (rule join_empty) (auto simp: clash_text_nonempty)
  then show ?thesis by (simp add: clash_signature_def flip: set_empty)
qed

text \<open>Paths are reported exactly when two of the configured ones are seen at one address, under all their names, and the
  same sample taken again says nothing new.\<close>

theorem sharing_reported:
  "(h, ns) \<in> set (pv_shared (fst (take_sample ends ps v))) \<longleftrightarrow>
     ns = names_at (seen_hosts ends ps) h \<and> length (filter (\<lambda>(x, _). x = h) (seen_hosts ends ps)) > 1"
  "snd (take_sample ends ps (fst (take_sample ends ps v))) = None"
  "snd (take_sample ends ps v) = Some ''tunnels are on separate WANs again'' \<Longrightarrow> pv_shared (fst (take_sample ends ps v)) = []"
  using signature_empty [of "shared_hosts (seen_hosts ends ps)"]
  by (auto simp: take_sample_def Let_def peer_event_def shared_hosts_exact split: if_splits)

end
