(* ===== verification/BackendApply.thy ===== *)
theory BackendApply
  imports Shape Rulesets BlocklistProps Messages
begin

text \<open>
  What the backend installs of a push beside its routes (\<open>agent/agent.go\<close>): the queue disciplines of the tunnels it sends
  into, and the rules that pull the networks behind it onto the tunnel. \<open>gated\<close> and \<open>live\<close> are the runner of the mode and
  the one that always acts, as in \<open>FrontendApply\<close>; lines that only go to the log are left out.
\<close>

definition ag_applyShaping :: "'k runner \<Rightarrow> (string \<Rightarrow> bool) \<Rightarrow> BackendConfig \<Rightarrow> ('k, unit) state" where
  "ag_applyShaping gated up cfg =
     for_each (\<lambda>p. do { _ \<leftarrow> EnsureQdisc gated (pi_Iface p) (pi_ShapeMbit p); State_Monad.return () })
       (filter (\<lambda>p. up (pi_Iface p)) (bc_Paths cfg))"

text \<open>The networks that can be used, and whether the push is a fault rather than an instruction.\<close>

definition egress_fault :: "BackendConfig \<Rightarrow> bool" where
  "egress_fault cfg \<longleftrightarrow> bc_EgressCIDRs cfg \<noteq> [] \<and>
     (AddressLiteral (oi_BackendIP (bc_Overlay cfg)) = '''' \<or> EgressNetworks (bc_EgressCIDRs cfg) = [])"

definition ag_applyEgress ::
    "'k runner \<Rightarrow> 'k runner \<Rightarrow> bool \<Rightarrow> 'k writer \<Rightarrow> string \<Rightarrow> BackendConfig \<Rightarrow> string list \<Rightarrow> ('k, unit) state" where
  "ag_applyEgress gated live applying write stateDir cfg ifaces =
     (if egress_fault cfg then State_Monad.return ()
      else let ruleset = BuildBackendEgressRuleset (EgressNetworks (bc_EgressCIDRs cfg)) ifaces (oi_BackendIP (bc_Overlay cfg))
      in if ruleset = '''' then do { _ \<leftarrow> RemoveEgressRuleset live; RemoveEgressRule live }
         else if \<not> applying then State_Monad.return ()
         else do {
           rule \<leftarrow> EnsureEgressRule gated;
           case rule of Inl _ \<Rightarrow> State_Monad.return ()
           | Inr _ \<Rightarrow> do { _ \<leftarrow> ApplyEgressRuleset gated write stateDir ruleset; State_Monad.return () } })"

text \<open>A push that asks for networks and names tunnels never takes the rules down: either it is a fault and changes nothing, or there
  is a ruleset to load.\<close>

lemma EgressNetworks_again: "EgressNetworks cs \<noteq> [] \<Longrightarrow> EgressNetworks (EgressNetworks cs) \<noteq> []"
proof -
  assume "EgressNetworks cs \<noteq> []"
  then obtain n where n: "n \<in> set (EgressNetworks cs)" by (cases "EgressNetworks cs") auto
  then obtain c where c: "n = NetworkLiteral c" "n \<noteq> ''''" by (auto simp: EgressNetworks_set)
  then obtain b where "parse_block c = Some b" using NetworkLiteral_block [of c] by auto
  then have "NetworkLiteral n = bl_text b" "NetworkLiteral c = bl_text b"
    using NetworkLiteral_same [of c b] parse_block_text [of c b] parse_block_text [of n b] by (simp_all add: c(1))
  then have same: "NetworkLiteral n = n" by (simp add: c(1))
  have "n \<in> set (EgressNetworks (EgressNetworks cs))"
    by (rule EgressNetworks_set [THEN iffD2], rule bexI [OF _ n]) (use same c(2) in simp)
  then show ?thesis by auto
qed

theorem egress_not_torn_down:
  assumes "bc_EgressCIDRs cfg \<noteq> []" and "ifaces \<noteq> []"
  shows "egress_fault cfg \<or> BuildBackendEgressRuleset (EgressNetworks (bc_EgressCIDRs cfg)) ifaces (oi_BackendIP (bc_Overlay cfg)) \<noteq> ''''"
  using assms EgressNetworks_again [of "bc_EgressCIDRs cfg"]
  by (auto simp: egress_fault_def BuildBackendEgressRuleset_def Let_def lines_of_def)

end
