(* ===== verification/Spec2Isabelle.thy ===== *)
theory Spec2Isabelle
  imports SelectorProps EngineLife Prober UsageChannel BackendProps QueryCacheProps PacerProps ValidateProps BlocklistProps PortalProps
    RoutesProps LinkerProps SessionProps ProtectTableProps FrontendProps FilterLatch PeerLinks BackendApply
begin

text \<open>
  Homeport keeps a published service reachable over several tunnels. A \<^emph>\<open>frontend\<close> host owns the public address and
  the paths; a \<^emph>\<open>backend\<close> host runs the services. The frontend probes every path (\<open>engine/prober.go\<close>,
  \<open>engine/tracker.go\<close>), chooses the one to use (\<open>engine/engine.go\<close>), installs its route and tells the backend, inside
  each probe, which path is active; the backend moves its return route after it (\<open>agent/agent.go\<close>) and answers the probe
  (\<open>agent/responder.go\<close>). The backend meters every tunnel (\<open>agent/meter.go\<close>) and reports the deltas over an
  authenticated control channel (\<open>proto/proto.go\<close>, \<open>engine/control.go\<close>); the frontend bills them (\<open>store/store.go\<close>,
  \<open>quota/quota.go\<close>), and the billed total feeds back into the choice of the path. Around that core the frontend
  answers game-server queries from a cache (\<open>qcache\<close>, \<open>engine/qcache.go\<close>), generates an edge filter
  (\<open>sysx/protect.go\<close>) and takes its configuration through a portal (\<open>web/api.go\<close>). Paths below are under
  \<open>src/internal/\<close>.

  \<^bold>\<open>Foundations.\<close> \<open>Prelude\<close>: Go's sized integers (an \<open>int64\<close> is an \<open>int\<close> with its range and wrap-around written out), time,
  list helpers, and the locales \<open>guarded_run\<close>, \<open>admitted_run\<close>, \<open>invariant_run\<close> and \<open>monotone_run\<close>, which say once that a step
  relation keeps an invariant (under a restriction on the steps, which may depend on the state they start from) or never
  lowers a measure; every state machine below interprets
  them. \<open>Go_Float\<close>: IEEE 754 doubles, rounding to nearest even, infinities and NaN. \<open>Calendar\<close>: civil dates and zone
  lookup of \<open>time\<close>, the zone table a parameter, and the zones (\<open>steady\<close>) in which \<open>time.Date\<close> finds every midnight. \<open>Sha256\<close>: \<open>crypto/sha256\<close> and HMAC. \<open>Strconv\<close>, \<open>Netip\<close>: the
  parsing and printing of numbers, addresses and networks the code calls, and \<open>sysx.AddressLiteral\<close>.

  \<^bold>\<open>The frontend's decision.\<close> \<open>Config\<close>: the records of \<open>model/model.go\<close>. \<open>Tracker\<close>: \<open>Tracker\<close> and \<open>Window\<close>, one
  definition per method. \<open>Prober\<close>: the sliding window of sent probes, its delivery order and its shutdown.
  \<open>QuotaPolicy\<close>: \<open>quota.go\<close>. \<open>Selector\<close>: the \<open>Engine\<close> record, \<open>selectPath\<close>, the evaluation pass with its apply
  half and the route it installs; \<open>SelectorProps\<close> what a pass guarantees. \<open>EngineLife\<close>: startup, reconfiguration,
  reconcile, revert, pins and approvals as steps that interleave with the passes at the points where the code drops its
  lock.

  \<^bold>\<open>The backend.\<close> \<open>Wire\<close>: probe packets, handshake MACs, framing, sessions. \<open>Messages\<close>: the control payloads.
  \<open>Backend\<close>, \<open>BackendProps\<close>: decisions arriving by probes and pushes, the worker that applies them, the routes.
  \<open>Meter\<close>: sampling of the interface counters, the bounded buffer and its files. \<open>Store\<close>: the tables and the
  transactions over them, with commits that fail or that succeed unreported. \<open>UsageLedger\<close>: bounds, dedupe and commit
  of a frame; its locales \<open>batch_ledger\<close> and \<open>committing_ledger\<close> are the store's contract with the control server.
  \<open>UsageChannel\<close>: both halves and the lossy, duplicating, reordering channel between them.
  \<open>Sessions\<close>: both ends of a control session as machines over the frames they read: the serve and push loops of
  \<open>engine/control.go\<close>, \<open>runSession\<close> of \<open>agent/client.go\<close> and the session of \<open>linker/client.go\<close>; \<open>SessionProps\<close> that
  each end acts only on frames the holder of the secret sealed for it in this session, and that honest ends meet.

  \<^bold>\<open>The edge.\<close> \<open>QueryCache\<close>: one datagram of a cached port, the refresh loop, the upstream exchange, the per-source byte
  budget; \<open>QueryCacheProps\<close> and \<open>PacerProps\<close> what they promise a spoofed victim and a genuine client. \<open>Protect\<close>:
  the reduction of a configuration to ports, networks, limits, locks and set names; \<open>ProtectProps\<close> shows the interval
  and prefix arithmetic exact; \<open>ProtectRuleset\<close> the table made of it, as declarations and words that become its text, and
  its readback; \<open>ProtectTableProps\<close> that the table is closed. \<open>Validate\<close>: the whole check of a configuration on its way in and the two endpoints
  that accept one; \<open>ValidateProps\<close> what an accepted configuration is worth to the components that read it.
  \<open>Blocklist\<close>: the threat feed of \<open>engine/blocklist.go\<close> and \<open>sysx/blocklist.go\<close>, from the downloaded text to the set in
  the kernel; \<open>BlocklistProps\<close> that the set is the list in every interleaving of the refresher with saves, reverts,
  samples and restarts. \<open>Portal\<close>: the login with its lockout, accounts, sessions, the route table and the handlers of
  \<open>web/server.go\<close>, \<open>web/api.go\<close> and \<open>web/geofetch.go\<close>; \<open>PortalProps\<close> what a request without a session, a guesser
  and an approval can do.

  \<^bold>\<open>The hosts.\<close> \<open>Host\<close>: the \<open>Runner\<close> of \<open>sysx/sysx.go\<close>, an action on the state of a host for every command, its
  bounded output and the gate of observe mode. \<open>Routes\<close>, \<open>Rulesets\<close>, \<open>LinkerRoutes\<close>: \<open>sysx/route.go\<close>, \<open>sysx/nft.go\<close>
  and \<open>sysx/linker.go\<close>, every operation as the commands it issues and the listings it reads, and the text of every
  ruleset it loads; what the commands do is the parameter. \<open>RoutesProps\<close>: on any host whose \<open>ip rule\<close> behaves as
  documented (\<open>rule_host\<close>, which \<open>demo_rule_host\<close> shows a rule list in memory to satisfy), probe rules converge and revert
  takes away what it installed and nothing else. \<open>Shape\<close>: the queue disciplines of \<open>sysx/shape.go\<close>. \<open>FrontendApply\<close>:
  what \<open>engine/engine.go\<close> installs of a configuration and repairs, over the runner that always acts and the one of the
  mode; \<open>FrontendProps\<close> that in observe mode none of it moves published traffic (its locale \<open>plumbing\<close> carries what
  harmless commands keep through every operation); \<open>FilterLatch\<close> that the latch which spares the edge filter a reload
  never costs a host its table. \<open>BackendApply\<close>: what the backend installs beside its routes; \<open>PeerLinks\<close>: the listings of
  WireGuard and which paths ride one internet service. \<open>LinkerAgent\<close>: the bootstrap file and the agent of
  \<open>linker/linker.go\<close>; \<open>LinkerProps\<close> its two goroutines as steps between locks over a host.

  \<^bold>\<open>Lemma groups.\<close> Per component: a well-formedness invariant every operation keeps, exact characterisations of the
  operations, and reachability invariants by rule induction over step relations in which every admissible interleaving
  is a run. Across components, in this theory: a switch of the frontend is followed by the backend. In \<open>UsageChannel\<close>:
  exactly-once billing. In \<open>ValidateProps\<close>: what the portal accepts, the edge filter honours.

  \<^bold>\<open>Fuel and bounds.\<close> \<open>flush_loop\<close> runs \<open>flush_fuel\<close> turns, one more than there are sequence numbers waiting, which
  \<open>sweep_delivers_all\<close> shows enough. \<open>v6_groups\<close> is bounded by the eight groups of an address, as in the source.
  \<open>collect_loop\<close> and \<open>fetch_loop\<close> recurse on the datagrams read and the attempts allowed. All other loops are
  structural or have a termination proof.

  \<^bold>\<open>Interactions as inputs.\<close> What the kernel answers (a route command fails, a counter reads so much), what a transaction
  reports, what the network delivers and what the clocks read are arguments of the steps, universally quantified in the
  theorems. Parameters stand for the JSON codec, \<open>url.Parse\<close> and the zone database.

  \<^bold>\<open>Not modelled.\<close> Sockets, goroutine scheduling below the lock granularity, file permissions, schema migration,
  the metrics history and the status
  snapshot, HTTP framing and JSON bodies, notifications, and the four \<open>main\<close> programs.
\<close>

section \<open>A switch reaches the far end\<close>

lemma length_Marshal: "length (Marshal p psk) = 66"
  by (simp add: Marshal_def)

lemma respond_Marshal:
  assumes "m_Type m = TypeProbe" and "in_int64 (m_TxNanos m)" and "in_int64 (m_EchoNanos m)"
  shows "respond psk (Marshal m psk) echo now wall ag =
    (Some (m_PathID m, Marshal (reply_to m echo) psk),
     ag_SetActivePath (uint (m_ActivePath m)) (m_DecisionSeq m) now wall ag)"
  using assms by (simp add: respond_def length_Marshal Unmarshal_Marshal)

lemma pushed_iface:
  assumes "distinct (map p_ID (c_Paths cfg))" and "p \<in> set (c_Paths cfg)"
  shows "iface_of (backendConfig cfg) (p_ID p) = p_Iface p"
proof -
  have ids: "map pi_ID (bc_Paths (backendConfig cfg)) = map p_ID (c_Paths cfg)"
    by (simp add: backendConfig_def path_info_def comp_def)
  have "path_info p \<in> set (bc_Paths (backendConfig cfg))" using assms(2) by (simp add: backendConfig_def)
  then obtain q where q: "find (\<lambda>q. pi_ID q = p_ID p) (bc_Paths (backendConfig cfg)) = Some q"
    by (cases "find (\<lambda>q. pi_ID q = p_ID p) (bc_Paths (backendConfig cfg))") (auto simp: find_None_iff path_info_def)
  then have "q \<in> set (bc_Paths (backendConfig cfg))" "pi_ID q = p_ID p" by (auto dest: find_Some_mem)
  with assms have "q = path_info p"
    by (auto simp: backendConfig_def path_info_def distinct_map inj_on_def)
  with q ids assms(1) show ?thesis by (simp add: iface_of_find path_info_def)
qed

text \<open>A fresh decision that the agent accepts is installed by the next turn of the worker.\<close>

lemma decision_installed:
  assumes "i \<noteq> 0" and "i \<noteq> ag_active ag" and "iface_of (ag_cfg ag) i \<noteq> ''''" and "ag_applying ag"
    and "ag_lastSeq ag \<le> s" and "pd_seq (ag_pending ag) \<le> s"
    and "plausibleDecisionSeq s (ag_seqBase ag) (ag_seqBaseAt ag) now wall"
    and "\<forall>f. rp f" and "\<forall>f. ov f"
  defines "ag' \<equiv> apply_wake rp ov (ag_SetActivePath i s now wall ag)"
  shows "ag_active ag' = i \<and> ag_return ag' = iface_of (ag_cfg ag) i \<and> ag_overlay ag' = iface_of (ag_cfg ag) i \<and>
    ag_lastSeq ag' = s"
proof -
  have "\<not> s < ag_lastSeq ag" and "\<not> ag_lastSeq ag < s \<Longrightarrow> ag_lastSeq ag = s" using assms(5) by auto
  with assms(1-9) show ?thesis
    by (simp add: ag'_def ag_SetActivePath_def anchorDecisionSeq_def Let_def apply_wake_def applyDecision_def
        SetReturnPath_def set_overlay_def note_seq_def)
qed

text \<open>C6. A switch takes the return path with it. When the frontend has made a path active, the next
  probe it sends, on whichever tunnel, moves an armed backend running the frontend's
  configuration onto the same path: published replies and the control channel leave by the tunnel
  the frontend sends requests into, and the reply to that probe resolves exactly that probe, with
  the round trip the frontend measures on its own clock.\<close>

theorem switch_reaches_backend:
  assumes "distinct (map p_ID (c_Paths (e_cfg e)))" and "p \<in> set (c_Paths (e_cfg e))"
    and "e_active e = p_ID p" and "0 < p_ID p" and "p_ID p < 65536" and "p_Iface p \<noteq> ''''"
    and "ag_cfg ag = backendConfig (e_cfg e)" and "ag_applying ag" and "ag_active ag \<noteq> p_ID p"
    and "ag_lastSeq ag \<le> e_decisionSeq e" and "pd_seq (ag_pending ag) \<le> e_decisionSeq e"
    and "plausibleDecisionSeq (e_decisionSeq e) (ag_seqBase ag) (ag_seqBaseAt ag) arrived wall"
    and "in_int64 txNanos" and "in_int64 echo" and "\<forall>f. rp f" and "\<forall>f. ov f"
    and "send psk (decision e) nonce sent txNanos pr = (pr', sq, pkt)"
    and "respond psk pkt echo arrived wall ag = (answer, ag')"
  shows "ag_active (apply_wake rp ov ag') = e_active e \<and>
    ag_return (apply_wake rp ov ag') = p_Iface p \<and> ag_overlay (apply_wake rp ov ag') = p_Iface p \<and>
    (\<exists>reply. answer = Some (word_of_int (p_ID (pv_path pr)), reply) \<and>
       pv_pending (read_packet psk pr' reply back) = (pv_pending pr')(sq := None) \<and>
       pv_resolved (read_packet psk pr' reply back) sq =
         Some \<lparr>r_PathID = p_ID (pv_path pr), r_Seq = sq, r_RTT = time_Sub back sent, r_Lost = False, r_At = back\<rparr>)"
proof -
  define m where "m = \<lparr>m_Type = TypeProbe, m_PathID = word_of_int (p_ID (pv_path pr)), m_Seq = sq,
    m_TxNanos = txNanos, m_EchoNanos = 0, m_ActivePath = fst (decision e), m_DecisionSeq = snd (decision e), m_Nonce = nonce\<rparr>"
  have pr': "pr' = pr\<lparr>pv_seq := sq, pv_pending := (pv_pending pr)(sq \<mapsto> \<lparr>pp_sent = sent, pp_nonce = nonce\<rparr>)\<rparr>"
    and pkt: "pkt = Marshal m psk"
    using assms(17) by (auto simp: send_def Let_def m_def)
  have m: "uint (m_ActivePath m) = p_ID p" "m_DecisionSeq m = e_decisionSeq e"
    using assms(3-5) by (simp_all add: m_def decision_def uint_word_of_int)
  have r: "answer = Some (m_PathID m, Marshal (reply_to m echo) psk)"
    "ag' = ag_SetActivePath (p_ID p) (e_decisionSeq e) arrived wall ag"
    using assms(18) respond_Marshal [of m psk echo arrived wall ag] assms(13) m
    by (simp_all add: pkt m_def in_int64_def minInt64_def maxInt64_def)
  have iface: "iface_of (ag_cfg ag) (p_ID p) = p_Iface p" using pushed_iface assms(1,2,7) by simp
  have "Unmarshal (Marshal (reply_to m echo) psk) psk = Inr (reply_to m echo)"
    by (rule Unmarshal_Marshal) (use assms(13,14) in \<open>simp_all add: reply_to_def m_def\<close>)
  then have "read_packet psk pr' (Marshal (reply_to m echo) psk) back = pr'\<lparr>pv_pending := (pv_pending pr')(sq := None),
      pv_resolved := (pv_resolved pr')(sq \<mapsto> \<lparr>r_PathID = p_ID (pv_path pr), r_Seq = sq, r_RTT = time_Sub back sent,
        r_Lost = False, r_At = back\<rparr>)\<rparr>"
    by (simp add: read_packet_def resolve_def reply_to_def m_def pr')
  moreover have "ag_active (apply_wake rp ov ag') = p_ID p \<and> ag_return (apply_wake rp ov ag') = p_Iface p \<and>
      ag_overlay (apply_wake rp ov ag') = p_Iface p"
    using decision_installed [of "p_ID p" ag "e_decisionSeq e" arrived wall rp ov] assms iface r(2) by simp
  ultimately show ?thesis using r(1) assms(3) by (simp add: m_def)
qed

definition switched_engine :: Engine where
  "switched_engine = (New (Defaults\<lparr>c_Mode := ModeArmed\<rparr>) unix_epoch False (\<lambda>_. None) '''' '''')\<lparr>e_active := 2, e_decisionSeq := 65537\<rparr>"

definition following_agent :: Agent where
  "following_agent = (clean_New None)\<lparr>ag_cfg := backendConfig (e_cfg switched_engine), ag_haveCfg := True, ag_applying := True, ag_active := 1\<rparr>"

lemma first_decision_plausible: "plausibleDecisionSeq 65537 0 0 0 0"
  by (simp add: plausibleDecisionSeq_def decisionSeqHorizonMs_def drop_bit_horizon)

theorem switch_reaches_backend_witness:
  "ag_return (apply_wake (\<lambda>_. True) (\<lambda>_. True) (snd (respond [1] (snd (snd (send [1] (decision switched_engine) 7 0 0
     (NewProber (default_paths ! 0) default_probe 5)))) 0 0 0 following_agent))) = ''wg-lte1''"
proof -
  let ?e = switched_engine and ?p = "default_paths ! 1"
  let ?s = "send [1] (decision ?e) 7 0 0 (NewProber (default_paths ! 0) default_probe 5)"
  let ?r = "respond [1] (snd (snd ?s)) 0 0 0 following_agent"
  have e: "distinct (map p_ID (c_Paths (e_cfg ?e)))" "?p \<in> set (c_Paths (e_cfg ?e))" "e_active ?e = p_ID ?p"
    "0 < p_ID ?p" "p_ID ?p < 65536" "p_Iface ?p \<noteq> ''''" "p_Iface ?p = ''wg-lte1''"
    by (simp_all add: switched_engine_def New_def Defaults_def default_paths_def)
  have a: "ag_cfg following_agent = backendConfig (e_cfg ?e)" "ag_applying following_agent" "ag_active following_agent \<noteq> p_ID ?p"
    "ag_lastSeq following_agent \<le> e_decisionSeq ?e" "pd_seq (ag_pending following_agent) \<le> e_decisionSeq ?e"
    by (simp_all add: following_agent_def ag_New_def default_paths_def)
  have q: "plausibleDecisionSeq (e_decisionSeq ?e) (ag_seqBase following_agent) (ag_seqBaseAt following_agent) 0 0"
    using first_decision_plausible by (simp add: switched_engine_def following_agent_def ag_New_def)
  have z: "in_int64 0" by (simp add: in_int64_def minInt64_def maxInt64_def)
  have s: "?s = (fst ?s, fst (snd ?s), snd (snd ?s))" and r: "?r = (fst ?r, snd ?r)" by simp_all
  from switch_reaches_backend [OF e(1-6) a q z z _ _ s r] e(7) show ?thesis by simp
qed

end
